(* ===== verification/Prelude.thy ===== *)
theory Prelude
  imports Main
begin

text \<open>
  Shared vocabulary of the development: the JavaScript values the code relies on (strings, their
  UTF-8 and JSON sizes, the safe-integer bound), the hint collections, and the list lemmas that
  several components use.

  A JavaScript string is modelled as an Isabelle \<open>string\<close> whose characters are the
  UTF-16 code units U+0000 to U+00FF (one \<open>char\<close> each), so \<open>length\<close> is the
  source's \<open>.length\<close>. Counters and sizes are unbounded integers; where the source
  checks \<open>Number.isSafeInteger\<close> the check is written out.
\<close>

named_theorems model_defs \<open>definitions the component proofs unfold\<close>
named_theorems conserve \<open>conservation laws of the bounded queues\<close>

type_synonym js_string = string

abbreviation max_safe_integer :: int where
  "max_safe_integer \<equiv> 9007199254740991"

definition is_safe_integer :: "int \<Rightarrow> bool" where
  "is_safe_integer n \<longleftrightarrow> - max_safe_integer \<le> n \<and> n \<le> max_safe_integer"

text \<open>Bytes of one code unit, and of a string, in UTF-8.\<close>

definition char_utf8 :: "char \<Rightarrow> int" where
  "char_utf8 c = (if (of_char c :: nat) < 128 then 1 else 2)"

definition utf8_length :: "js_string \<Rightarrow> int" where
  "utf8_length s = sum_list (map char_utf8 s)"

text \<open>UTF-8 bytes of one code unit inside a \<open>JSON.stringify\<close> string literal.\<close>

definition char_json :: "char \<Rightarrow> int" where
  "char_json c =
     (let n = (of_char c :: nat) in
      if n = 34 \<or> n = 92 \<or> n \<in> {8, 9, 10, 12, 13} then 2
      else if n < 32 then 6
      else if n < 128 then 1 else 2)"

definition json_string_bytes :: "js_string \<Rightarrow> int" where
  "json_string_bytes s = 2 + sum_list (map char_json s)"

lemma char_utf8_pos: "0 < char_utf8 c"
  by (simp add: char_utf8_def)

lemma char_json_pos: "0 < char_json c"
  by (simp add: char_json_def Let_def)

lemma utf8_length_nonneg [simp]: "0 \<le> utf8_length s"
  unfolding utf8_length_def
  by (rule sum_list_nonneg) (auto simp: char_utf8_def)

lemma utf8_length_Nil [simp]: "utf8_length [] = 0"
  by (simp add: utf8_length_def)

lemma utf8_length_append [simp]: "utf8_length (s @ t) = utf8_length s + utf8_length t"
  by (simp add: utf8_length_def)

lemma json_string_bytes_nonneg [simp]: "0 \<le> json_string_bytes s"
proof -
  have "0 \<le> sum_list (map char_json s)"
    by (rule sum_list_nonneg) (auto simp: char_json_def Let_def)
  then show ?thesis by (simp add: json_string_bytes_def)
qed

text \<open>\<open>String(n)\<close> for an integer, and lower-casing of the modelled code units.\<close>

definition digit_char :: "nat \<Rightarrow> char" where
  "digit_char d = char_of (48 + d)"

fun nat_string :: "nat \<Rightarrow> js_string" where
  "nat_string n = (if n < 10 then [digit_char n] else nat_string (n div 10) @ [digit_char (n mod 10)])"

declare nat_string.simps [simp del]

definition int_string :: "int \<Rightarrow> js_string" where
  "int_string n = (if n < 0 then ''-'' @ nat_string (nat (- n)) else nat_string (nat n))"

definition lower_char :: "char \<Rightarrow> char" where
  "lower_char c =
     (let n = (of_char c :: nat) in
      if (65 \<le> n \<and> n \<le> 90) \<or> (192 \<le> n \<and> n \<le> 222 \<and> n \<noteq> 215) then char_of (n + 32) else c)"

definition lower_string :: "js_string \<Rightarrow> js_string" where
  "lower_string s = map lower_char s"

text \<open>\<open>xs.join(sep)\<close>.\<close>

fun join :: "js_string \<Rightarrow> js_string list \<Rightarrow> js_string" where
  "join sep [] = []"
| "join sep [x] = x"
| "join sep (x # y # ys) = x @ sep @ join sep (y # ys)"

text \<open>Sizes are summed over queues; these are the facts every queue proof needs.\<close>

lemma sum_list_map_nonneg:
  "(\<And>x. x \<in> set xs \<Longrightarrow> 0 \<le> f x) \<Longrightarrow> (0 :: int) \<le> sum_list (map f xs)"
  by (rule sum_list_nonneg) auto

lemma sum_list_map_drop:
  "sum_list (map f (drop k xs)) = sum_list (map f xs) - sum_list (map (f :: 'a \<Rightarrow> int) (take k xs))"
proof -
  have "sum_list (map f (take k xs @ drop k xs)) =
        sum_list (map f (take k xs)) + sum_list (map f (drop k xs))"
    by (simp only: map_append sum_list_append)
  then show ?thesis by simp
qed

lemma sum_list_map_member_le:
  assumes "x \<in> set xs" and "\<And>y. y \<in> set xs \<Longrightarrow> (0 :: int) \<le> f y"
  shows "f x \<le> sum_list (map f xs)"
  using assms
proof (induction xs)
  case Nil
  then show ?case by simp
next
  case (Cons y ys)
  have "0 \<le> sum_list (map f ys)"
    using Cons.prems(2) by (intro sum_list_map_nonneg) auto
  with Cons show ?case by fastforce
qed

lemma length_concat_sum: "int (length (concat xss)) = sum_list (map (\<lambda>xs. int (length xs)) xss)"
  by (induction xss) auto

end
