(* ===== verification/Message_Limits.thy ===== *)
theory Message_Limits
  imports Prelude
begin

text \<open>
  The shape of an explored Kafka record and the byte accounting of its retained fields:
  \<open>contracts/message-types.ts\<close>, \<open>contracts/live-rule-types.ts\<close>,
  \<open>contracts/structured-record.ts\<close>, \<open>contracts/record-bytes.ts\<close> and
  \<open>contracts/message-limits.ts\<close>. The queues of the facade charge each record with
  \<open>kafkaMessageRetainedBytes\<close>.
\<close>

section \<open>Data\<close>

datatype rule_severity = Info | Warn | Error

fun severity_text :: "rule_severity \<Rightarrow> js_string" where
  "severity_text Info = ''info''"
| "severity_text Warn = ''warn''"
| "severity_text Error = ''error''"

record live_rule_match =
  match_level :: rule_severity
  match_name :: js_string

record live_rule_error =
  error_diagnostic :: js_string
  error_name :: js_string

record live_rule_evaluation =
  activeMatchCount :: int
  activeMatches :: "live_rule_match list"
  durationMicros :: int
  errorCount :: int
  evaluation_errors :: "live_rule_error list"
  evaluatedRules :: int
  highestActiveSeverity :: "rule_severity option"
  omittedEvidence :: int
  omittedRules :: int
  evaluation_reason :: "js_string option"
  evaluation_state :: js_string
  suppressedMatchCount :: int
  suppressedMatches :: "live_rule_match list"

text \<open>Headers of a complete original: Base64 key, and Base64 value or null.\<close>

record header_bytes =
  header_key :: js_string
  header_value :: "js_string option"

record complete_record =
  complete_key :: "js_string option"
  complete_value :: "js_string option"
  complete_headers :: "header_bytes list"

datatype unavailable_reason = Size_Limit | Masked | Not_Captured

fun reason_text :: "unavailable_reason \<Rightarrow> js_string" where
  "reason_text Size_Limit = ''size-limit''"
| "reason_text Masked = ''masked''"
| "reason_text Not_Captured = ''not-captured''"

datatype original_record =
    Complete complete_record
  | Unavailable unavailable_reason

record writer_schema =
  schema_id :: int
  schema_format :: js_string
  schema_registry :: "js_string option"
  schema_messageType :: "js_string option"

datatype record_field =
    Decoded js_string js_string "js_string option" "writer_schema option"
      \<comment> \<open>codec, text, json, writerSchema\<close>
  | Null_Field js_string
  | Error_Field js_string "writer_schema option" js_string js_string
      \<comment> \<open>codec, writerSchema, code, detail\<close>
  | Masked_Field js_string "writer_schema option"

record structured_header =
  structured_key :: js_string
  structured_value :: "js_string option"
  structured_error :: "js_string option"

datatype headers_state = Headers_Complete | Headers_Unavailable

datatype protection_state = Protection_None | Protection_Masked

text \<open>The literal \<open>version: 1\<close> field carries no information and is left out.\<close>

record structured_record =
  sr_key :: record_field
  sr_value :: record_field
  sr_headers :: "structured_header list"
  sr_headersState :: headers_state
  sr_protection :: protection_state

record provenance =
  provenance_clusterId :: js_string
  provenance_topicId :: js_string

record kafka_message =
  msg_provenance :: "provenance option"
  msg_structured :: "structured_record option"
  msg_original :: "original_record option"
  msg_headers :: "(js_string \<times> js_string) list"
  msg_id :: js_string
  msg_key :: "js_string option"
  msg_offset :: js_string
  msg_originalByteSize :: int
  msg_recordByteSize :: "int option"
  msg_partition :: int
  msg_payload :: "js_string option"
  msg_payloadTruncated :: "bool option"
  msg_preview :: js_string
  msg_timestamp :: js_string
  msg_topic :: js_string
  msg_truncated :: bool

record kafka_explored_message = kafka_message +
  ruleEvaluation :: live_rule_evaluation

section \<open>Byte accounting\<close>

definition utf8ByteLength :: "js_string option \<Rightarrow> int" where
  "utf8ByteLength v = (case v of None \<Rightarrow> 0 | Some s \<Rightarrow> utf8_length s)"

definition kafkaLiveRuleEvidenceBytes :: "live_rule_evaluation \<Rightarrow> int" where
  "kafkaLiveRuleEvidenceBytes e =
     256
     + sum_list (map (\<lambda>m. 64 + utf8_length (match_name m)
                          + int (length (severity_text (match_level m))))
                     (activeMatches e @ suppressedMatches e))
     + sum_list (map (\<lambda>r. 64 + utf8_length (error_name r) + utf8_length (error_diagnostic r))
                     (evaluation_errors e))"

definition original_field :: "js_string option \<Rightarrow> int" where
  "original_field v = (case v of None \<Rightarrow> 4 | Some s \<Rightarrow> int (length s) + 2)"

fun header_bytes_from :: "nat \<Rightarrow> header_bytes list \<Rightarrow> int" where
  "header_bytes_from i [] = 0"
| "header_bytes_from i (h # hs) =
     17 + original_field (Some (header_key h)) + original_field (header_value h)
     + (if i = 0 then 0 else 1) + header_bytes_from (Suc i) hs"

fun originalRetainedBytes :: "original_record option \<Rightarrow> int" where
  "originalRetainedBytes None = 0"
| "originalRetainedBytes (Some (Unavailable r)) = 35 + int (length (reason_text r))"
| "originalRetainedBytes (Some (Complete c)) =
     69 + original_field (complete_key c) + original_field (complete_value c)
     + header_bytes_from 0 (complete_headers c)"

definition writer_bytes :: "writer_schema option \<Rightarrow> int" where
  "writer_bytes w = (case w of None \<Rightarrow> 0
     | Some s \<Rightarrow> 64 + utf8ByteLength (schema_registry s) + utf8ByteLength (schema_messageType s))"

fun field_bytes :: "record_field \<Rightarrow> int" where
  "field_bytes (Decoded codec txt json w) =
     160 + writer_bytes w + (utf8_length txt + utf8ByteLength json)"
| "field_bytes (Null_Field codec) = 160 + 0 + 0"
| "field_bytes (Error_Field codec w code detail) = 160 + writer_bytes w + utf8_length detail"
| "field_bytes (Masked_Field codec w) = 160 + writer_bytes w + 0"

fun structuredRetainedBytes :: "structured_record option \<Rightarrow> int" where
  "structuredRetainedBytes None = 0"
| "structuredRetainedBytes (Some v) =
     96 + field_bytes (sr_key v) + field_bytes (sr_value v)
     + sum_list (map (\<lambda>h. 48 + utf8_length (structured_key h)
                          + utf8ByteLength (structured_value h)
                          + utf8ByteLength (structured_error h)) (sr_headers v))"

definition kafkaRawMessageRetainedBytes :: "'a kafka_message_scheme \<Rightarrow> int" where
  "kafkaRawMessageRetainedBytes m =
     (case msg_provenance m of None \<Rightarrow> 0
      | Some p \<Rightarrow> 96 + utf8_length (provenance_clusterId p) + utf8_length (provenance_topicId p))
     + utf8ByteLength (msg_key m)
     + utf8ByteLength (msg_payload m)
     + utf8_length (msg_preview m)
     + sum_list (map (\<lambda>(k, v). utf8_length k + utf8_length v) (msg_headers m))
     + structuredRetainedBytes (msg_structured m)
     + originalRetainedBytes (msg_original m)"

text \<open>
  A plain message has no \<open>ruleEvaluation\<close> property and is charged its raw bytes; the
  queues hold explored messages, which are charged for their rule evidence as well.
\<close>

definition kafkaMessageRetainedBytes :: "kafka_explored_message \<Rightarrow> int" where
  "kafkaMessageRetainedBytes m =
     kafkaRawMessageRetainedBytes m + kafkaLiveRuleEvidenceBytes (ruleEvaluation m)"

section \<open>Sizes are never negative\<close>

lemma utf8ByteLength_nonneg [simp]: "0 \<le> utf8ByteLength v"
  by (simp add: utf8ByteLength_def split: option.split)

lemma kafkaLiveRuleEvidenceBytes_pos [simp]: "256 \<le> kafkaLiveRuleEvidenceBytes e"
  unfolding kafkaLiveRuleEvidenceBytes_def
  by (smt (verit) add_nonneg_nonneg of_nat_0_le_iff sum_list_map_nonneg utf8_length_nonneg)

lemma original_field_pos [simp]: "2 \<le> original_field v"
  by (simp add: original_field_def split: option.split)

lemma header_bytes_from_nonneg [simp]: "0 \<le> header_bytes_from i hs"
  by (induction i hs rule: header_bytes_from.induct) (auto intro!: add_nonneg_nonneg order_trans [OF _ original_field_pos])

lemma originalRetainedBytes_nonneg [simp]: "0 \<le> originalRetainedBytes v"
  by (cases v rule: originalRetainedBytes.cases)
     (auto intro!: add_nonneg_nonneg order_trans [OF _ original_field_pos])

lemma writer_bytes_nonneg [simp]: "0 \<le> writer_bytes w"
  by (auto simp: writer_bytes_def split: option.split intro!: add_nonneg_nonneg)

lemma field_bytes_nonneg [simp]: "0 \<le> field_bytes f"
  by (cases f) (auto intro!: add_nonneg_nonneg)

lemma structuredRetainedBytes_nonneg [simp]: "0 \<le> structuredRetainedBytes v"
  by (cases v) (auto intro!: add_nonneg_nonneg sum_list_map_nonneg)

lemma kafkaRawMessageRetainedBytes_nonneg [simp]: "0 \<le> kafkaRawMessageRetainedBytes m"
proof -
  have "0 \<le> sum_list (map (\<lambda>(k, v). utf8_length k + utf8_length v) (msg_headers m))"
    by (rule sum_list_map_nonneg) auto
  moreover have "0 \<le> (case msg_provenance m of None \<Rightarrow> 0
      | Some p \<Rightarrow> 96 + utf8_length (provenance_clusterId p) + utf8_length (provenance_topicId p))"
    by (auto split: option.split intro!: add_nonneg_nonneg)
  ultimately show ?thesis
    unfolding kafkaRawMessageRetainedBytes_def by (intro add_nonneg_nonneg) auto
qed

lemma kafkaMessageRetainedBytes_ge [simp]: "256 \<le> kafkaMessageRetainedBytes m"
  using kafkaRawMessageRetainedBytes_nonneg [of m] kafkaLiveRuleEvidenceBytes_pos [of "ruleEvaluation m"]
  unfolding kafkaMessageRetainedBytes_def by linarith

end
