(* ===== verification/Rule_Output.thy ===== *)
theory Rule_Output
  imports Message_Limits
begin

text \<open>
  What a publication turn reports about live rules (\<open>facade/rule-output.ts\<close>): one bounded
  notification and one bounded Activity entry per batch of delivered records. A \<open>Map\<close> is an
  association list in insertion order; the identity cache only memoises and is left out.
\<close>

section \<open>Data\<close>

datatype log_level = Level_Debug | Level_Info | Level_Warn | Level_Error

record rule_preferences =
  logLevel :: log_level
  loggingEnabled :: bool
  notificationsEnabled :: bool

record queued_message =
  enqueuedAtMs :: int
  queued_record :: kafka_explored_message
  ruleOutput :: rule_preferences

record notification_match =
  notice_count :: int
  notice_level :: rule_severity
  notice_name :: js_string

record match_accumulator =
  acc_highestSeverity :: "rule_severity option"
  acc_matches :: "(js_string \<times> notification_match) list"
  acc_total :: int

record rule_notification =
  note_activeMatchCount :: int
  note_highestSeverity :: rule_severity
  note_matches :: "notification_match list"
  note_omittedMatches :: int
  note_topic :: js_string

datatype activity_severity = Activity_Info | Activity_Warning | Activity_Error

record output_aggregate =
  out_activity :: "(js_string \<times> activity_severity) option"
  out_notification :: "rule_notification option"

abbreviation notification_limit :: nat where "notification_limit \<equiv> 10"

section \<open>Operations\<close>

definition accumulator :: match_accumulator where
  "accumulator = \<lparr>acc_highestSeverity = None, acc_matches = [], acc_total = 0\<rparr>"

definition identity :: "js_string \<Rightarrow> rule_severity \<Rightarrow> js_string" where
  "identity name level = severity_text level @ [CHR 0x00] @ lower_string name"

fun bump :: "js_string \<Rightarrow> (js_string \<times> notification_match) list
             \<Rightarrow> (js_string \<times> notification_match) list" where
  "bump key [] = []"
| "bump key ((k, m) # ms) =
     (if k = key then (k, m\<lparr>notice_count := notice_count m + 1\<rparr>) # ms else (k, m) # bump key ms)"

definition retain :: "js_string \<Rightarrow> js_string \<Rightarrow> rule_severity \<Rightarrow> match_accumulator \<Rightarrow> match_accumulator" where
  "retain key name level a =
     (if key \<in> set (map fst (acc_matches a))
      then a\<lparr>acc_matches := bump key (acc_matches a)\<rparr>
      else if length (acc_matches a) < notification_limit
      then a\<lparr>acc_matches := acc_matches a
               @ [(key, \<lparr>notice_count = 1, notice_level = level, notice_name = name\<rparr>)]\<rparr>
      else a)"

fun includesSeverity :: "rule_severity \<Rightarrow> log_level \<Rightarrow> bool" where
  "includesSeverity s Level_Debug = True"
| "includesSeverity s Level_Info = True"
| "includesSeverity s Level_Warn = (s = Warn \<or> s = Error)"
| "includesSeverity s Level_Error = (s = Error)"

fun severity_index :: "rule_severity \<Rightarrow> nat" where
  "severity_index Info = 0"
| "severity_index Warn = 1"
| "severity_index Error = 2"

fun mergeHighestSeverity ::
  "rule_severity option \<Rightarrow> rule_severity option \<Rightarrow> rule_severity option" where
  "mergeHighestSeverity current None = current"
| "mergeHighestSeverity None (Some c) = Some c"
| "mergeHighestSeverity (Some s) (Some c) =
     (if severity_index c > severity_index s then Some c else Some s)"

definition retainedMatches :: "match_accumulator \<Rightarrow> notification_match list" where
  "retainedMatches a = map snd (acc_matches a)"

definition retainedCount :: "notification_match list \<Rightarrow> int" where
  "retainedCount ms = sum_list (map notice_count ms)"

definition notification :: "js_string \<Rightarrow> match_accumulator \<Rightarrow> rule_notification option" where
  "notification topic a =
     (let matches = retainedMatches a in
      if acc_total a = 0 then None
      else case acc_highestSeverity a of
        None \<Rightarrow> None
      | Some h \<Rightarrow> Some \<lparr>note_activeMatchCount = acc_total a,
                        note_highestSeverity = h,
                        note_matches = matches,
                        note_omittedMatches = acc_total a - retainedCount matches,
                        note_topic = topic\<rparr>)"

fun activitySeverity :: "rule_severity \<Rightarrow> activity_severity" where
  "activitySeverity Info = Activity_Info"
| "activitySeverity Warn = Activity_Warning"
| "activitySeverity Error = Activity_Error"

definition activityDetail :: "match_accumulator \<Rightarrow> notification_match list \<Rightarrow> js_string" where
  "activityDetail a matches =
     (let entries = join ''; '' (map (\<lambda>m. notice_name m @ '' ('' @ severity_text (notice_level m)
                       @ '', '' @ int_string (notice_count m) @ '' match''
                       @ (if notice_count m = 1 then '''' else ''es'') @ '')'') matches);
          omitted = acc_total a - retainedCount matches
      in int_string (acc_total a) @ '' active rule match''
         @ (if acc_total a = 1 then '''' else ''es'')
         @ '' met the captured logging threshold. '' @ entries @ ''.''
         @ (if omitted = 0 then ''''
            else '' '' @ int_string omitted @ '' additional match''
                 @ (if omitted = 1 then '''' else ''es'')
                 @ '' omitted from bounded Activity evidence.''))"

text \<open>The inner loop over the active matches of one record, then the loop over records.\<close>

fun aggregate_matches ::
  "rule_preferences \<Rightarrow> live_rule_match list \<Rightarrow> match_accumulator \<times> match_accumulator
   \<Rightarrow> match_accumulator \<times> match_accumulator" where
  "aggregate_matches p [] (notices, logs) = (notices, logs)"
| "aggregate_matches p (m # ms) (notices, logs) =
     (let key = identity (match_name m) (match_level m);
          notices' = (if notificationsEnabled p
                      then retain key (match_name m) (match_level m) notices else notices);
          logs' = (if loggingEnabled p \<and> includesSeverity (match_level m) (logLevel p)
                   then retain key (match_name m) (match_level m)
                          (logs\<lparr>acc_total := acc_total logs + 1,
                                acc_highestSeverity :=
                                  mergeHighestSeverity (acc_highestSeverity logs)
                                    (Some (match_level m))\<rparr>)
                   else logs)
      in aggregate_matches p ms (notices', logs'))"

fun aggregate_records ::
  "queued_message list \<Rightarrow> match_accumulator \<times> match_accumulator
   \<Rightarrow> match_accumulator \<times> match_accumulator" where
  "aggregate_records [] acc = acc"
| "aggregate_records (q # qs) (notices, logs) =
     (let e = ruleEvaluation (queued_record q); p = ruleOutput q in
      if activeMatchCount e = 0 then aggregate_records qs (notices, logs)
      else let notices' = (if notificationsEnabled p
                           then notices\<lparr>acc_total := acc_total notices + activeMatchCount e,
                                        acc_highestSeverity :=
                                          mergeHighestSeverity (acc_highestSeverity notices)
                                            (highestActiveSeverity e)\<rparr>
                           else notices)
           in aggregate_records qs (aggregate_matches p (activeMatches e) (notices', logs)))"

definition aggregateFacadeRuleOutputs ::
  "js_string \<Rightarrow> queued_message list \<Rightarrow> output_aggregate" where
  "aggregateFacadeRuleOutputs topic queued =
     (let (notices, logs) = aggregate_records queued (accumulator, accumulator);
          logMatches = retainedMatches logs
      in \<lparr>out_activity =
            (if acc_total logs = 0 then None
             else case acc_highestSeverity logs of
               None \<Rightarrow> None
             | Some h \<Rightarrow> Some (activityDetail logs logMatches, activitySeverity h)),
          out_notification = notification topic notices\<rparr>)"

section \<open>What the accumulators hold\<close>

text \<open>
  The matches that reach each accumulator, in order; and the list of distinct keys in order of
  first appearance.
\<close>

definition reported :: "queued_message \<Rightarrow> bool" where
  "reported q \<longleftrightarrow> activeMatchCount (ruleEvaluation (queued_record q)) \<noteq> 0"

definition notice_stream :: "queued_message list \<Rightarrow> live_rule_match list" where
  "notice_stream qs = concat (map (\<lambda>q. activeMatches (ruleEvaluation (queued_record q)))
     (filter (\<lambda>q. reported q \<and> notificationsEnabled (ruleOutput q)) qs))"

definition log_stream :: "queued_message list \<Rightarrow> live_rule_match list" where
  "log_stream qs = concat (map (\<lambda>q. filter (\<lambda>m. loggingEnabled (ruleOutput q)
        \<and> includesSeverity (match_level m) (logLevel (ruleOutput q)))
      (activeMatches (ruleEvaluation (queued_record q)))) (filter reported qs))"

definition match_key :: "live_rule_match \<Rightarrow> js_string" where
  "match_key m = identity (match_name m) (match_level m)"

definition first_keys :: "'a list \<Rightarrow> 'a list" where
  "first_keys ks = rev (remdups (rev ks))"

lemma first_keys_Nil [simp]: "first_keys [] = []"
  by (simp add: first_keys_def)

lemma first_keys_snoc [simp]:
  "first_keys (ks @ [k]) = (if k \<in> set ks then first_keys ks else first_keys ks @ [k])"
  by (simp add: first_keys_def)

lemma set_first_keys [simp]: "set (first_keys ks) = set ks"
  by (simp add: first_keys_def)

text \<open>\<open>retain\<close> on the association list alone.\<close>

definition insert_match ::
  "(js_string \<times> notification_match) list \<Rightarrow> live_rule_match \<Rightarrow> (js_string \<times> notification_match) list" where
  "insert_match ms m =
     acc_matches (retain (match_key m) (match_name m) (match_level m)
       \<lparr>acc_highestSeverity = None, acc_matches = ms, acc_total = 0\<rparr>)"

lemma acc_matches_retain:
  "acc_matches (retain (match_key m) (match_name m) (match_level m) a) = insert_match (acc_matches a) m"
  by (simp add: insert_match_def retain_def)

lemma acc_total_retain [simp]: "acc_total (retain k n l a) = acc_total a"
  by (simp add: retain_def)

lemma acc_highest_retain [simp]: "acc_highestSeverity (retain k n l a) = acc_highestSeverity a"
  by (simp add: retain_def)

lemma map_fst_bump [simp]: "map fst (bump k ms) = map fst ms"
  by (induction k ms rule: bump.induct) auto

lemma bump_entry:
  "distinct (map fst ms) \<Longrightarrow> (k', m') \<in> set (bump k ms) \<Longrightarrow>
   \<exists>m. (k', m) \<in> set ms \<and> notice_count m' = notice_count m + (if k' = k then 1 else 0)"
proof (induction k ms rule: bump.induct)
  case (1 key)
  then show ?case by simp
next
  case (2 key k m ms)
  show ?case
  proof (cases "k = key")
    case True
    with 2 show ?thesis by (force simp: image_iff)
  next
    case False
    with 2 show ?thesis by (auto split: if_splits)
  qed
qed

definition counts_of :: "js_string list \<Rightarrow> (js_string \<times> notification_match) list \<Rightarrow> bool" where
  "counts_of ks ms \<longleftrightarrow>
     map fst ms = take notification_limit (first_keys ks)
     \<and> (\<forall>(k, m) \<in> set ms. notice_count m = int (count_list ks k))"

lemma insert_match_cases:
  "insert_match ms m =
     (if match_key m \<in> set (map fst ms) then bump (match_key m) ms
      else if length ms < notification_limit
      then ms @ [(match_key m, \<lparr>notice_count = 1, notice_level = match_level m, notice_name = match_name m\<rparr>)]
      else ms)"
  by (simp add: insert_match_def retain_def)

lemma distinct_first_keys [simp]: "distinct (first_keys ks)"
  by (simp add: first_keys_def)

lemma counts_of_insert:
  assumes c: "counts_of ks ms"
  shows "counts_of (ks @ [match_key m]) (insert_match ms m)"
proof -
  let ?k = "match_key m"
  have keys: "map fst ms = take notification_limit (first_keys ks)"
    and counts: "\<And>k n. (k, n) \<in> set ms \<Longrightarrow> notice_count n = int (count_list ks k)"
    using c by (auto simp: counts_of_def)
  have dist: "distinct (map fst ms)" by (simp add: keys)
  have len: "length ms = min (length (first_keys ks)) notification_limit"
    using arg_cong [OF keys, of length] by simp
  consider "?k \<in> set (map fst ms)"
    | "?k \<notin> set (map fst ms)" "length ms < notification_limit"
    | "?k \<notin> set (map fst ms)" "\<not> length ms < notification_limit"
    by blast
  then show ?thesis
  proof cases
    case 1
    then have "?k \<in> set ks"
      using keys by (metis in_set_takeD set_first_keys)
    with 1 show ?thesis
      using keys by (auto simp: counts_of_def insert_match_cases dest!: bump_entry [OF dist] counts)
  next
    case 2
    then have "map fst ms = first_keys ks" using keys len by simp
    then have "?k \<notin> set ks" using 2(1) by (metis set_first_keys)
    moreover have "notice_count n = int (count_list ks k)" if "(k, n) \<in> set ms" for k n
      using that counts by auto
    moreover have "(?k, n) \<notin> set ms" for n
      using 2(1) by (auto simp: image_iff)
    ultimately show ?thesis
      using 2 len \<open>map fst ms = first_keys ks\<close>
      by (auto simp: counts_of_def insert_match_cases)
  next
    case 3
    then have "notification_limit \<le> length (first_keys ks)" using len by simp
    moreover have "notice_count n = int (count_list ks k)" if "(k, n) \<in> set ms" for k n
      using that counts by auto
    moreover have "(?k, n) \<notin> set ms" for n
      using 3(1) by (auto simp: image_iff)
    ultimately show ?thesis
      using 3 keys by (auto simp: counts_of_def insert_match_cases)
  qed
qed

lemma counts_of_fold:
  "counts_of ks ms \<Longrightarrow> counts_of (ks @ map match_key xs) (foldl insert_match ms xs)"
proof (induction xs arbitrary: ks ms)
  case Nil
  then show ?case by simp
next
  case (Cons x xs)
  show ?case
    using Cons.IH [OF counts_of_insert [OF Cons.prems, of x]] by simp
qed

text \<open>The loops of the aggregation, as folds over the two streams.\<close>

lemma aggregate_matches_notices:
  "acc_matches (fst (aggregate_matches p ms (n, l))) =
     foldl insert_match (acc_matches n) (if notificationsEnabled p then ms else [])"
  "acc_total (fst (aggregate_matches p ms (n, l))) = acc_total n"
  "acc_highestSeverity (fst (aggregate_matches p ms (n, l))) = acc_highestSeverity n"
  by (induction ms arbitrary: n l)
     (auto simp: Let_def acc_matches_retain [unfolded match_key_def])

lemma aggregate_matches_logs:
  "acc_matches (snd (aggregate_matches p ms (n, l))) =
     foldl insert_match (acc_matches l)
       (filter (\<lambda>m. loggingEnabled p \<and> includesSeverity (match_level m) (logLevel p)) ms)"
  "acc_total (snd (aggregate_matches p ms (n, l))) =
     acc_total l + int (length (filter (\<lambda>m. loggingEnabled p \<and> includesSeverity (match_level m) (logLevel p)) ms))"
  by (induction ms arbitrary: n l)
     (auto simp: Let_def acc_matches_retain [unfolded match_key_def])

lemma aggregate_records_spec:
  "acc_matches (fst (aggregate_records qs (n, l))) = foldl insert_match (acc_matches n) (notice_stream qs)
   \<and> acc_matches (snd (aggregate_records qs (n, l))) = foldl insert_match (acc_matches l) (log_stream qs)
   \<and> acc_total (snd (aggregate_records qs (n, l))) = acc_total l + int (length (log_stream qs))
   \<and> acc_total (fst (aggregate_records qs (n, l))) = acc_total n
       + sum_list (map (\<lambda>q. activeMatchCount (ruleEvaluation (queued_record q)))
           (filter (\<lambda>q. notificationsEnabled (ruleOutput q)) qs))"
proof (induction qs arbitrary: n l)
  case Nil
  then show ?case by (simp add: notice_stream_def log_stream_def)
next
  case (Cons q qs)
  define n' where "n' = (if notificationsEnabled (ruleOutput q)
    then n\<lparr>acc_total := acc_total n + activeMatchCount (ruleEvaluation (queued_record q)),
           acc_highestSeverity := mergeHighestSeverity (acc_highestSeverity n)
             (highestActiveSeverity (ruleEvaluation (queued_record q)))\<rparr> else n)"
  obtain n2 l2 where step: "aggregate_matches (ruleOutput q)
      (activeMatches (ruleEvaluation (queued_record q))) (n', l) = (n2, l2)"
    by (cases "aggregate_matches (ruleOutput q)
      (activeMatches (ruleEvaluation (queued_record q))) (n', l)") auto
  show ?case
  proof (cases "reported q")
    case False
    then show ?thesis using Cons.IH [of n l]
      by (auto simp: reported_def notice_stream_def log_stream_def)
  next
    case True
    have "acc_matches n2 = foldl insert_match (acc_matches n)
        (if notificationsEnabled (ruleOutput q) then activeMatches (ruleEvaluation (queued_record q)) else [])"
      "acc_total n2 = acc_total n'"
      using aggregate_matches_notices [of "ruleOutput q" "activeMatches (ruleEvaluation (queued_record q))" n' l] step
      by (auto simp: n'_def)
    with True show ?thesis
      using Cons.IH [of n2 l2] step
        aggregate_matches_logs [of "ruleOutput q" "activeMatches (ruleEvaluation (queued_record q))" n' l]
      by (auto simp: reported_def notice_stream_def log_stream_def Let_def n'_def)
  qed
qed

section \<open>Properties\<close>

text \<open>
  C31: The rule evidence of a batch is exact as far as it goes: both the notification and the
  Activity accumulator hold the first ten distinct rules (by level and case-folded name) that
  matched among the records whose captured preferences enable that output, each with the number of
  its matches; the Activity total counts every logged match, so what is reported as omitted is
  exactly the matches of rules beyond the first ten.
\<close>

theorem rule_outputs_exact:
  assumes "aggregate_records qs (accumulator, accumulator) = (notices, logs)"
  shows "counts_of (map match_key (notice_stream qs)) (acc_matches notices)
       \<and> counts_of (map match_key (log_stream qs)) (acc_matches logs)
       \<and> acc_total logs = int (length (log_stream qs))
       \<and> acc_total notices = sum_list (map (\<lambda>q. activeMatchCount (ruleEvaluation (queued_record q)))
            (filter (\<lambda>q. notificationsEnabled (ruleOutput q)) qs))"
proof -
  have "counts_of [] []" by (simp add: counts_of_def)
  from counts_of_fold [OF this] show ?thesis
    using aggregate_records_spec [of qs accumulator accumulator] assms
    by (simp add: accumulator_def)
qed

definition sample_rules :: "bool \<Rightarrow> rule_preferences" where
  "sample_rules notify = \<lparr>logLevel = Level_Warn, loggingEnabled = True, notificationsEnabled = notify\<rparr>"

definition sample_evaluation :: live_rule_evaluation where
  "sample_evaluation = \<lparr>activeMatchCount = 2,
     activeMatches = [\<lparr>match_level = Warn, match_name = ''A''\<rparr>, \<lparr>match_level = Warn, match_name = ''a''\<rparr>],
     durationMicros = 1, errorCount = 0, evaluation_errors = [], evaluatedRules = 2,
     highestActiveSeverity = Some Warn, omittedEvidence = 0, omittedRules = 0,
     evaluation_reason = None, evaluation_state = ''evaluated'', suppressedMatchCount = 0,
     suppressedMatches = []\<rparr>"

definition sample_message :: "js_string \<Rightarrow> kafka_explored_message" where
  "sample_message payload = \<lparr>msg_provenance = None, msg_structured = None, msg_original = None,
     msg_headers = [], msg_id = ''0'', msg_key = None, msg_offset = ''0'', msg_originalByteSize = 1,
     msg_recordByteSize = None, msg_partition = 0, msg_payload = Some payload,
     msg_payloadTruncated = None, msg_preview = [], msg_timestamp = ''t'', msg_topic = ''orders'',
     msg_truncated = False, ruleEvaluation = sample_evaluation\<rparr>"

definition sample_queued :: "js_string \<Rightarrow> queued_message" where
  "sample_queued payload =
     \<lparr>enqueuedAtMs = 5, queued_record = sample_message payload, ruleOutput = sample_rules True\<rparr>"

lemma lower_char_a: "lower_char (CHR ''A'') = CHR ''a''" "lower_char (CHR ''a'') = CHR ''a''"
  by code_simp+

text \<open>Two records, each matched by the rule written \<open>A\<close> and \<open>a\<close>: one rule, four matches.\<close>

theorem rule_outputs_exact_witness:
  "map (notice_count \<circ> snd) (acc_matches (snd (aggregate_records
      [sample_queued ''x'', sample_queued ''y''] (accumulator, accumulator)))) = [4]
   \<and> acc_total (snd (aggregate_records [sample_queued ''x'', sample_queued ''y'']
        (accumulator, accumulator))) = 4"
proof -
  obtain n l where run: "aggregate_records [sample_queued ''x'', sample_queued ''y''] (accumulator, accumulator) = (n, l)"
    by (cases "aggregate_records [sample_queued ''x'', sample_queued ''y''] (accumulator, accumulator)") auto
  have stream: "map match_key (log_stream [sample_queued ''x'', sample_queued ''y'']) =
      [identity ''a'' Warn, identity ''a'' Warn, identity ''a'' Warn, identity ''a'' Warn]"
    by (simp add: log_stream_def reported_def sample_queued_def sample_message_def sample_evaluation_def
        sample_rules_def match_key_def identity_def lower_string_def lower_char_a)
  have "length (log_stream [sample_queued ''x'', sample_queued ''y'']) = 4"
    using arg_cong [OF stream, of length] by simp
  then show ?thesis
    using rule_outputs_exact [OF run]
    unfolding run stream counts_of_def by (auto simp: first_keys_def)
qed

end
