(* ===== verification/Bounded_Queue.thy ===== *)
theory Bounded_Queue
  imports Prelude
begin

text \<open>
  The contract the bounded display buffers share. A buffer that evicts its oldest entries until a
  bound holds again is specified by the list it keeps: the longest suffix of everything that ever
  arrived which fits the bound. The facade's message queue and the NATS record buffer are both
  interpretations of the locale below.
\<close>

section \<open>The longest suffix that fits\<close>

fun trim :: "('a list \<Rightarrow> bool) \<Rightarrow> 'a list \<Rightarrow> 'a list" where
  "trim fits [] = []"
| "trim fits (x # xs) = (if fits (x # xs) then x # xs else trim fits xs)"

lemma trim_fits: "fits [] \<Longrightarrow> fits (trim fits xs)"
  by (induction xs) auto

lemma trim_fits_id [simp]: "fits xs \<Longrightarrow> trim fits xs = xs"
  by (cases xs) auto

lemma length_trim [simp]: "length (trim fits xs) \<le> length xs"
  by (induction xs) auto

lemma trim_is_drop: "trim fits xs = drop (length xs - length (trim fits xs)) xs"
proof (induction xs)
  case Nil
  then show ?case by simp
next
  case (Cons x xs)
  then show ?case by (auto simp: Suc_diff_le)
qed

lemma trim_longest:
  assumes "fits (drop k xs)"
  shows "length (drop k xs) \<le> length (trim fits xs)"
  using assms
proof (induction xs arbitrary: k)
  case Nil
  then show ?case by simp
next
  case (Cons x xs)
  show ?case
  proof (cases k)
    case 0
    with Cons.prems show ?thesis by simp
  next
    case (Suc j)
    with Cons show ?thesis by (auto simp: le_diff_conv)
  qed
qed

lemma trim_append:
  assumes "\<And>ys zs. fits (ys @ zs) \<Longrightarrow> fits ys"
  shows "trim fits (trim fits xs @ ys) = trim fits (xs @ ys)"
proof (induction xs)
  case Nil
  then show ?case by simp
next
  case (Cons x xs)
  show ?case
  proof (cases "fits (x # xs)")
    case True
    then show ?thesis by simp
  next
    case False
    then have "\<not> fits ((x # xs) @ ys)" using assms by blast
    with False Cons show ?thesis by simp
  qed
qed

section \<open>The interface\<close>

text \<open>
  \<open>ok n q\<close>: the buffer \<open>q\<close> is consistent and its counters have room for \<open>n\<close> more admissions;
  \<open>admissible\<close> entries are those the provider does not refuse outright.
\<close>

locale evicting_queue =
  fixes fits :: "'e list \<Rightarrow> bool"
    and admissible :: "'e \<Rightarrow> bool"
    and items :: "'q \<Rightarrow> 'e list"
    and dropped :: "'q \<Rightarrow> int"
    and admit :: "'e \<Rightarrow> 'q \<Rightarrow> 'q"
    and ok :: "nat \<Rightarrow> 'q \<Rightarrow> bool"
  assumes fits_prefix: "fits (ys @ zs) \<Longrightarrow> fits ys"
    and fits_items: "ok n q \<Longrightarrow> fits (items q)"
    and admit_ok: "ok (Suc n) q \<Longrightarrow> admissible e \<Longrightarrow> ok n (admit e q)"
    and admit_items: "ok (Suc n) q \<Longrightarrow> admissible e \<Longrightarrow> items (admit e q) = trim fits (items q @ [e])"
    and admit_dropped: "ok (Suc n) q \<Longrightarrow> admissible e \<Longrightarrow>
      dropped (admit e q) + int (length (items (admit e q))) =
      dropped q + int (length (items q)) + 1"
begin

lemma admit_all_ok:
  "ok (length es + n) q \<Longrightarrow> list_all admissible es \<Longrightarrow> ok n (fold admit es q)"
  by (induction es arbitrary: q) (auto simp: admit_ok)

lemma admit_all_items:
  "ok (length es + n) q \<Longrightarrow> list_all admissible es \<Longrightarrow>
   items (fold admit es q) = trim fits (items q @ es)"
proof (induction es arbitrary: q)
  case Nil
  then show ?case using fits_items [of n q] by simp
next
  case (Cons e es)
  then have "items (fold admit (e # es) q) = trim fits (trim fits (items q @ [e]) @ es)"
    by (simp add: admit_ok admit_items)
  also have "\<dots> = trim fits ((items q @ [e]) @ es)"
    using fits_prefix by (rule trim_append)
  finally show ?case by simp
qed

lemma admit_all_dropped:
  "ok (length es + n) q \<Longrightarrow> list_all admissible es \<Longrightarrow>
   dropped (fold admit es q) + int (length (items (fold admit es q))) =
     dropped q + int (length (items q)) + int (length es)"
proof (induction es arbitrary: q)
  case Nil
  then show ?case by simp
next
  case (Cons e es)
  then have "ok (length es + n) (admit e q)" by (simp add: admit_ok)
  with Cons admit_dropped [of "length es + n" q e] show ?case by simp
qed

lemma admit_all_bound:
  "ok (length es + n) q \<Longrightarrow> list_all admissible es \<Longrightarrow> fits (items (fold admit es q))"
  using fits_items [of n] admit_all_ok [of es n q] by blast

end

end
