(* ===== verification/Message_Queue.thy ===== *)
theory Message_Queue
  imports Rule_Output Bounded_Queue
begin

text \<open>
  The display queue of one consumption (\<open>facade/message-queue.ts\<close>) and its publication
  turn (\<open>facade/message-flush.ts\<close>, with the measurements of
  \<open>facade/stream-monitor-facade.ts\<close>). The operations mutate the
  \<open>ActiveFacadeConsumption\<close>; here they return the updated record.

  \<open>JSON.stringify(message)\<close> is reached only through its byte length, so the operations
  take that length as the argument \<open>json_bytes\<close>; every result holds for each such
  function. The constant event envelope is measured exactly.
\<close>

section \<open>State\<close>

abbreviation limit_batchBytes :: int where "limit_batchBytes \<equiv> 1060864"
abbreviation limit_queuedBytes :: int where "limit_queuedBytes \<equiv> 16 * 1048576"
abbreviation max_publication_bytes :: int where "max_publication_bytes \<equiv> 4 * 1024 * 1024"
abbreviation max_terminal_batches :: nat where "max_terminal_batches \<equiv> 1000 div 10"

record drop_reasons =
  countCapacity :: int
  byteCapacity :: int
  oversized :: int
  terminalDiscarded :: int

record stream_monitoring =
  mon_batchCount :: int
  mon_publishedMessages :: int
  mon_dropReasons :: drop_reasons
  mon_lastBatchMessages :: int
  mon_lastPublicationDurationMs :: "int option"
  mon_lastQueueWaitMs :: "int option"
  mon_publicationSampledAt :: "js_string option"
  mon_queueWaitSampledAt :: "js_string option"
  mon_peakQueuedMessages :: int
  mon_peakQueuedBytes :: int

record consumption =
  con_topic :: js_string
  con_batchSize :: nat
  con_queueDepth :: nat
  con_messages :: "queued_message list"
  con_queuedBytes :: int
  con_droppedMessages :: int
  con_monitoring :: stream_monitoring

definition drop_total :: "drop_reasons \<Rightarrow> int" where
  "drop_total r = countCapacity r + byteCapacity r + oversized r + terminalDiscarded r"

definition con_reasons :: "consumption \<Rightarrow> drop_reasons" where
  "con_reasons c = mon_dropReasons (con_monitoring c)"

definition with_reasons :: "(drop_reasons \<Rightarrow> drop_reasons) \<Rightarrow> consumption \<Rightarrow> consumption" where
  "with_reasons f c =
     c\<lparr>con_monitoring := (con_monitoring c)\<lparr>mon_dropReasons := f (con_reasons c)\<rparr>\<rparr>"

definition retained_bytes :: "queued_message \<Rightarrow> int" where
  "retained_bytes q = kafkaMessageRetainedBytes (queued_record q)"

definition envelope_prefix :: js_string where
  \<open>envelope_prefix = ''{"event":"messages.batch","payload":{"droppedMessages":9007199254740991,"messages":[],"topic":''\<close>

definition envelope_suffix :: js_string where
  \<open>envelope_suffix = ''},"sequence":9007199254740991,"version":76}''\<close>

definition facadeMessageBatchEnvelopeBytes :: "consumption \<Rightarrow> int" where
  "facadeMessageBatchEnvelopeBytes c =
     int (length envelope_prefix) + json_string_bytes (con_topic c) + int (length envelope_suffix)"

definition facadeMessageSerializedBytes :: "(kafka_explored_message \<Rightarrow> nat) \<Rightarrow> queued_message \<Rightarrow> int" where
  "facadeMessageSerializedBytes json_bytes q = int (json_bytes (queued_record q)) + 1"

section \<open>Operations\<close>

text \<open>One turn of the eviction loop of \<open>appendFacadeMessage\<close>, then the loop.\<close>

definition over_capacity :: "consumption \<Rightarrow> bool" where
  "over_capacity c \<longleftrightarrow>
     con_queueDepth c < length (con_messages c) \<or> limit_queuedBytes < con_queuedBytes c"

definition evict_oldest :: "queued_message \<Rightarrow> queued_message list \<Rightarrow> consumption \<Rightarrow> consumption" where
  "evict_oldest dropped rest c =
     (let by_count = con_queueDepth c < length (con_messages c);
          c1 = c\<lparr>con_messages := rest,
                 con_queuedBytes := con_queuedBytes c - retained_bytes dropped,
                 con_droppedMessages := con_droppedMessages c + 1\<rparr>
      in with_reasons (\<lambda>r. if by_count then r\<lparr>countCapacity := countCapacity r + 1\<rparr>
                           else r\<lparr>byteCapacity := byteCapacity r + 1\<rparr>) c1)"

function evict_loop :: "consumption \<Rightarrow> consumption" where
  "evict_loop c =
     (if over_capacity c
      then (case con_messages c of [] \<Rightarrow> c | d # rest \<Rightarrow> evict_loop (evict_oldest d rest c))
      else c)"
  by pat_completeness auto
termination
  by (relation "measure (\<lambda>c. length (con_messages c))")
     (auto simp: evict_oldest_def with_reasons_def Let_def)

declare evict_loop.simps [simp del]

definition appendFacadeMessage :: "queued_message \<Rightarrow> consumption \<Rightarrow> consumption" where
  "appendFacadeMessage q c =
     evict_loop (c\<lparr>con_messages := con_messages c @ [q],
                   con_queuedBytes := con_queuedBytes c + retained_bytes q\<rparr>)"

definition discardFacadeMessages :: "consumption \<Rightarrow> consumption" where
  "discardFacadeMessages c =
     (let n = int (length (con_messages c));
          c1 = with_reasons (\<lambda>r. r\<lparr>terminalDiscarded := terminalDiscarded r + n\<rparr>)
                 (c\<lparr>con_droppedMessages := con_droppedMessages c + n\<rparr>)
      in c1\<lparr>con_messages := [], con_queuedBytes := 0\<rparr>)"

definition drop_oversized :: "queued_message \<Rightarrow> queued_message list \<Rightarrow> consumption \<Rightarrow> consumption" where
  "drop_oversized q rest c =
     with_reasons (\<lambda>r. r\<lparr>oversized := oversized r + 1\<rparr>)
       (c\<lparr>con_messages := rest,
          con_queuedBytes := con_queuedBytes c - retained_bytes q,
          con_droppedMessages := con_droppedMessages c + 1\<rparr>)"

definition is_oversized :: "(kafka_explored_message \<Rightarrow> nat) \<Rightarrow> int \<Rightarrow> queued_message \<Rightarrow> bool" where
  "is_oversized jb envelope q \<longleftrightarrow>
     limit_batchBytes < retained_bytes q
     \<or> limit_batchBytes < facadeMessageSerializedBytes jb q + envelope"

text \<open>
  The loop of \<open>takeFacadeMessageBatch\<close>: the batch so far, its retained bytes and its
  serialized bytes (which start at the envelope) are the loop variables.
\<close>

function take_loop ::
  "(kafka_explored_message \<Rightarrow> nat) \<Rightarrow> nat \<Rightarrow> int \<Rightarrow> int \<Rightarrow> queued_message list \<Rightarrow> int \<Rightarrow> int
   \<Rightarrow> consumption \<Rightarrow> queued_message list \<times> consumption" where
  "take_loop jb maxMessages maxSerialized envelope batch batchBytes serializedBytes c =
     (if length batch < maxMessages
      then (case con_messages c of
              [] \<Rightarrow> (batch, c)
            | q # rest \<Rightarrow>
                if is_oversized jb envelope q
                then take_loop jb maxMessages maxSerialized envelope batch batchBytes
                       serializedBytes (drop_oversized q rest c)
                else if limit_batchBytes < batchBytes + retained_bytes q
                        \<or> maxSerialized < serializedBytes + facadeMessageSerializedBytes jb q
                then (batch, c)
                else take_loop jb maxMessages maxSerialized envelope (batch @ [q])
                       (batchBytes + retained_bytes q)
                       (serializedBytes + facadeMessageSerializedBytes jb q)
                       (c\<lparr>con_messages := rest,
                          con_queuedBytes := con_queuedBytes c - retained_bytes q\<rparr>))
      else (batch, c))"
  by pat_completeness auto
termination
  by (relation "measure (\<lambda>(jb, m, s, e, b, bb, sb, c). length (con_messages c))")
     (auto simp: drop_oversized_def with_reasons_def)

declare take_loop.simps [simp del]

definition takeFacadeMessageBatch ::
  "(kafka_explored_message \<Rightarrow> nat) \<Rightarrow> nat \<Rightarrow> int \<Rightarrow> consumption \<Rightarrow> queued_message list \<times> consumption" where
  "takeFacadeMessageBatch jb maxMessages maxSerialized c =
     (let envelope = facadeMessageBatchEnvelopeBytes c
      in take_loop jb maxMessages maxSerialized envelope [] 0 envelope c)"

section \<open>The queue invariant\<close>

text \<open>
  The byte counter is the sum over the queue, and every omission has exactly one reason.
\<close>

definition queue_ok :: "consumption \<Rightarrow> bool" where
  "queue_ok c \<longleftrightarrow>
     con_queuedBytes c = sum_list (map retained_bytes (con_messages c))
     \<and> con_droppedMessages c = drop_total (con_reasons c)"

lemma retained_bytes_pos [simp]: "0 < retained_bytes q"
  using kafkaMessageRetainedBytes_ge [of "queued_record q"]
  unfolding retained_bytes_def by linarith

lemma retained_bytes_nonneg [simp]: "0 \<le> retained_bytes q"
  by (rule less_imp_le) simp

lemma with_reasons_simps [simp]:
  "con_messages (with_reasons f c) = con_messages c"
  "con_queuedBytes (with_reasons f c) = con_queuedBytes c"
  "con_droppedMessages (with_reasons f c) = con_droppedMessages c"
  "con_queueDepth (with_reasons f c) = con_queueDepth c"
  "con_batchSize (with_reasons f c) = con_batchSize c"
  "con_topic (with_reasons f c) = con_topic c"
  "con_reasons (with_reasons f c) = f (con_reasons c)"
  by (simp_all add: with_reasons_def con_reasons_def)

lemma con_reasons_update [simp]:
  "con_reasons (c\<lparr>con_messages := ms\<rparr>) = con_reasons c"
  "con_reasons (c\<lparr>con_queuedBytes := b\<rparr>) = con_reasons c"
  "con_reasons (c\<lparr>con_droppedMessages := d\<rparr>) = con_reasons c"
  by (simp_all add: con_reasons_def)

lemma evict_oldest_simps [simp]:
  "con_messages (evict_oldest d rest c) = rest"
  "con_queuedBytes (evict_oldest d rest c) = con_queuedBytes c - retained_bytes d"
  "con_droppedMessages (evict_oldest d rest c) = con_droppedMessages c + 1"
  "con_queueDepth (evict_oldest d rest c) = con_queueDepth c"
  "drop_total (con_reasons (evict_oldest d rest c)) = drop_total (con_reasons c) + 1"
  by (simp_all add: evict_oldest_def Let_def drop_total_def)

lemma drop_oversized_simps [simp]:
  "con_messages (drop_oversized d rest c) = rest"
  "con_queuedBytes (drop_oversized d rest c) = con_queuedBytes c - retained_bytes d"
  "con_droppedMessages (drop_oversized d rest c) = con_droppedMessages c + 1"
  "con_queueDepth (drop_oversized d rest c) = con_queueDepth c"
  "con_batchSize (drop_oversized d rest c) = con_batchSize c"
  "con_topic (drop_oversized d rest c) = con_topic c"
  "drop_total (con_reasons (drop_oversized d rest c)) = drop_total (con_reasons c) + 1"
  by (simp_all add: drop_oversized_def drop_total_def)

lemma evict_oldest_ok: "queue_ok c \<Longrightarrow> con_messages c = d # rest \<Longrightarrow> queue_ok (evict_oldest d rest c)"
  by (simp add: queue_ok_def)

lemma drop_oversized_ok:
  "queue_ok c \<Longrightarrow> con_messages c = d # rest \<Longrightarrow> queue_ok (drop_oversized d rest c)"
  by (simp add: queue_ok_def)

definition facade_fits :: "nat \<Rightarrow> queued_message list \<Rightarrow> bool" where
  "facade_fits depth qs \<longleftrightarrow>
     length qs \<le> depth \<and> sum_list (map retained_bytes qs) \<le> limit_queuedBytes"

lemma facade_fits_Nil [simp]: "facade_fits depth []"
  by (simp add: facade_fits_def)

lemma facade_fits_prefix: "facade_fits depth (ys @ zs) \<Longrightarrow> facade_fits depth ys"
proof -
  assume "facade_fits depth (ys @ zs)"
  moreover have "0 \<le> sum_list (map retained_bytes zs)"
    by (rule sum_list_map_nonneg) simp
  ultimately show ?thesis by (simp add: facade_fits_def)
qed

lemma over_capacity_fits:
  "queue_ok c \<Longrightarrow> over_capacity c \<longleftrightarrow> \<not> facade_fits (con_queueDepth c) (con_messages c)"
  by (auto simp: over_capacity_def facade_fits_def queue_ok_def)

text \<open>The eviction loop computes the longest suffix that fits, and counts what it drops.\<close>

lemma evict_loop_spec:
  assumes "queue_ok c"
  shows "con_messages (evict_loop c) = trim (facade_fits (con_queueDepth c)) (con_messages c)
       \<and> queue_ok (evict_loop c)
       \<and> con_queueDepth (evict_loop c) = con_queueDepth c
       \<and> con_droppedMessages (evict_loop c) + int (length (con_messages (evict_loop c))) =
           con_droppedMessages c + int (length (con_messages c))"
  using assms
proof (induction c rule: evict_loop.induct)
  case (1 c)
  show ?case
  proof (cases "over_capacity c")
    case False
    then show ?thesis
      using "1.prems" by (simp add: evict_loop.simps [of c] over_capacity_fits)
  next
    case True
    show ?thesis
    proof (cases "con_messages c")
      case Nil
      with True "1.prems" show ?thesis by (simp add: over_capacity_fits)
    next
      case (Cons d rest)
      have step: "evict_loop c = evict_loop (evict_oldest d rest c)"
        using True Cons by (simp add: evict_loop.simps [of c])
      have not_fits: "\<not> facade_fits (con_queueDepth c) (d # rest)"
        using True "1.prems" Cons by (simp add: over_capacity_fits)
      show ?thesis
        using "1.IH" [OF True Cons evict_oldest_ok [OF "1.prems" Cons]] Cons not_fits
        by (auto simp: step)
    qed
  qed
qed

lemma queue_ok_push:
  "queue_ok c \<Longrightarrow> queue_ok (c\<lparr>con_messages := con_messages c @ [q],
                               con_queuedBytes := con_queuedBytes c + retained_bytes q\<rparr>)"
  by (simp add: queue_ok_def)

lemma append_spec:
  assumes "queue_ok c"
  shows "con_messages (appendFacadeMessage q c) =
           trim (facade_fits (con_queueDepth c)) (con_messages c @ [q])"
    and "queue_ok (appendFacadeMessage q c)"
    and "con_queueDepth (appendFacadeMessage q c) = con_queueDepth c"
    and "con_droppedMessages (appendFacadeMessage q c)
           + int (length (con_messages (appendFacadeMessage q c))) =
         con_droppedMessages c + int (length (con_messages c)) + 1"
  using evict_loop_spec [OF queue_ok_push [OF assms, of q]]
  by (auto simp: appendFacadeMessage_def)

text \<open>A queue of depth \<open>depth\<close> whose contents respect the bounds.\<close>

definition bounded_consumption :: "nat \<Rightarrow> consumption \<Rightarrow> bool" where
  "bounded_consumption depth c \<longleftrightarrow>
     con_queueDepth c = depth \<and> queue_ok c \<and> facade_fits depth (con_messages c)"

interpretation facade_queue: evicting_queue "facade_fits depth" "\<lambda>_. True" con_messages con_droppedMessages
  appendFacadeMessage "\<lambda>_. bounded_consumption depth" for depth
proof unfold_locales
  fix e c
  assume "bounded_consumption depth c"
  then have ok: "queue_ok c" and d: "con_queueDepth c = depth"
    by (auto simp: bounded_consumption_def)
  show "bounded_consumption depth (appendFacadeMessage e c)"
    using append_spec [OF ok, of e] d trim_fits [of "facade_fits depth"]
    by (simp add: bounded_consumption_def)
next
  fix e c
  assume "bounded_consumption depth c"
  then show "con_droppedMessages (appendFacadeMessage e c)
               + int (length (con_messages (appendFacadeMessage e c))) =
             con_droppedMessages c + int (length (con_messages c)) + 1"
    by (auto simp: bounded_consumption_def intro: append_spec(4))
qed (auto simp: bounded_consumption_def append_spec intro: facade_fits_prefix)

section \<open>Properties\<close>

text \<open>
  C17: However many records are appended, the display queue holds exactly the longest suffix of
  everything that arrived which fits its depth and the queued-byte limit; each omitted record is
  counted once, and the omission counter is the sum of the per-reason counters.
\<close>

theorem append_keeps_longest_suffix:
  assumes "bounded_consumption depth c"
  shows "con_messages (fold appendFacadeMessage qs c) = trim (facade_fits depth) (con_messages c @ qs)
       \<and> bounded_consumption depth (fold appendFacadeMessage qs c)
       \<and> con_droppedMessages (fold appendFacadeMessage qs c)
           + int (length (con_messages (fold appendFacadeMessage qs c)))
         = con_droppedMessages c + int (length (con_messages c)) + int (length qs)
       \<and> con_droppedMessages (fold appendFacadeMessage qs c)
         = drop_total (con_reasons (fold appendFacadeMessage qs c))"
proof -
  have "list_all (\<lambda>_. True) qs" by (simp add: list_all_iff)
  note arrived = facade_queue.admit_all_ok [OF assms this] facade_queue.admit_all_items [OF assms this]
    facade_queue.admit_all_dropped [OF assms this]
  then show ?thesis
    by (auto simp: bounded_consumption_def queue_ok_def)
qed

definition sample_consumption :: "nat \<Rightarrow> queued_message list \<Rightarrow> consumption" where
  "sample_consumption depth qs = \<lparr>con_topic = ''orders'', con_batchSize = 10, con_queueDepth = depth,
     con_messages = qs, con_queuedBytes = sum_list (map retained_bytes qs), con_droppedMessages = 0,
     con_monitoring = \<lparr>mon_batchCount = 0, mon_publishedMessages = 0,
       mon_dropReasons = \<lparr>countCapacity = 0, byteCapacity = 0, oversized = 0, terminalDiscarded = 0\<rparr>,
       mon_lastBatchMessages = 0, mon_lastPublicationDurationMs = None, mon_lastQueueWaitMs = None,
       mon_publicationSampledAt = None, mon_queueWaitSampledAt = None,
       mon_peakQueuedMessages = 0, mon_peakQueuedBytes = 0\<rparr>\<rparr>"

lemma sample_consumption_simps [simp]:
  "con_messages (sample_consumption depth qs) = qs"
  "con_droppedMessages (sample_consumption depth qs) = 0"
  by (simp_all add: sample_consumption_def)

lemma sample_queue_ok: "queue_ok (sample_consumption depth qs)"
  by (simp add: queue_ok_def sample_consumption_def drop_total_def con_reasons_def)

lemma sample_retained: "retained_bytes (sample_queued p) = utf8_length p + 394"
  by (simp add: retained_bytes_def sample_queued_def kafkaMessageRetainedBytes_def
      kafkaRawMessageRetainedBytes_def kafkaLiveRuleEvidenceBytes_def sample_message_def
      sample_evaluation_def utf8ByteLength_def utf8_length_def char_utf8_def)

lemma sample_bounded:
  "length qs \<le> depth \<Longrightarrow> sum_list (map retained_bytes qs) \<le> limit_queuedBytes \<Longrightarrow>
   bounded_consumption depth (sample_consumption depth qs)"
  using sample_queue_ok [of depth qs]
  by (simp add: bounded_consumption_def facade_fits_def sample_consumption_def)

theorem append_keeps_longest_suffix_witness:
  "con_messages (fold appendFacadeMessage
      [sample_queued ''x'', sample_queued ''y'', sample_queued ''z''] (sample_consumption 2 []))
     = [sample_queued ''y'', sample_queued ''z'']"
proof -
  have start: "bounded_consumption 2 (sample_consumption 2 [])"
    by (rule sample_bounded) simp_all
  show ?thesis
    using append_keeps_longest_suffix [OF start, of "[sample_queued ''x'', sample_queued ''y'', sample_queued ''z'']"]
    by (simp add: facade_fits_def sample_retained sample_consumption_def utf8_length_def char_utf8_def)
qed

end
