(* ===== verification/Message_Flush.thy ===== *)
theory Message_Flush
  imports Message_Queue
begin

text \<open>
  The publication turn of \<open>facade/message-flush.ts\<close>. The host callbacks are inputs: the
  two readings of the monotonic clock, the sample timestamp, and \<open>paused k\<close>, the answer of
  \<open>isPresentationPaused\<close> after \<open>k\<close> publications of this turn. The published events and the
  rule outputs are part of the result; sequence numbers are assigned by the host.
\<close>

section \<open>The turn\<close>

record batch_event =
  event_droppedMessages :: int
  event_messages :: "kafka_explored_message list"
  event_topic :: js_string

record flush_bindings =
  started_at :: int
  completed_at :: int
  sampled_at :: js_string
  paused :: "nat \<Rightarrow> bool"

record flush_state =
  fl_con :: consumption
  fl_published :: nat
  fl_batchCount :: nat
  fl_lastBatch :: nat
  fl_oldest :: "int option"
  fl_remaining :: int
  fl_delivered :: "queued_message list"
  fl_events :: "batch_event list"

definition batch_cost :: "(kafka_explored_message \<Rightarrow> nat) \<Rightarrow> int \<Rightarrow> queued_message list \<Rightarrow> int" where
  "batch_cost jb envelope batch =
     envelope + sum_list (map (facadeMessageSerializedBytes jb) batch)"

definition publish_batch ::
  "(kafka_explored_message \<Rightarrow> nat) \<Rightarrow> int \<Rightarrow> queued_message list \<Rightarrow> consumption \<Rightarrow> flush_state \<Rightarrow> flush_state" where
  "publish_batch jb envelope batch c s =
     s\<lparr>fl_con := c,
       fl_oldest := (case fl_oldest s of Some t \<Rightarrow> Some t
                     | None \<Rightarrow> (case batch of [] \<Rightarrow> None | q # _ \<Rightarrow> Some (enqueuedAtMs q))),
       fl_delivered := fl_delivered s @ batch,
       fl_published := fl_published s + length batch,
       fl_batchCount := fl_batchCount s + 1,
       fl_lastBatch := length batch,
       fl_remaining := fl_remaining s - batch_cost jb envelope batch,
       fl_events := fl_events s @ [\<lparr>event_droppedMessages = con_droppedMessages c,
                                    event_messages = map queued_record batch,
                                    event_topic = con_topic c\<rparr>]\<rparr>"

definition batch_limit :: "bool \<Rightarrow> nat" where
  "batch_limit drainAll = (if drainAll then max_terminal_batches else 4)"

definition flush_continues :: "(nat \<Rightarrow> bool) \<Rightarrow> bool \<Rightarrow> flush_state \<Rightarrow> bool" where
  "flush_continues pause drainAll s \<longleftrightarrow>
     con_messages (fl_con s) \<noteq> [] \<and> \<not> pause (fl_batchCount s)
     \<and> fl_batchCount s < batch_limit drainAll
     \<and> (drainAll \<or> fl_published s < con_batchSize (fl_con s))"

definition turn_batch ::
  "(kafka_explored_message \<Rightarrow> nat) \<Rightarrow> bool \<Rightarrow> flush_state \<Rightarrow> queued_message list \<times> consumption" where
  "turn_batch jb drainAll s =
     takeFacadeMessageBatch jb
       (if drainAll then con_batchSize (fl_con s) else con_batchSize (fl_con s) - fl_published s)
       (min limit_batchBytes (fl_remaining s)) (fl_con s)"

function flush_loop ::
  "(kafka_explored_message \<Rightarrow> nat) \<Rightarrow> (nat \<Rightarrow> bool) \<Rightarrow> bool \<Rightarrow> int \<Rightarrow> flush_state \<Rightarrow> flush_state" where
  "flush_loop jb pause drainAll envelope s =
     (if flush_continues pause drainAll s
      then (let (batch, c) = turn_batch jb drainAll s in
            if batch = [] then s\<lparr>fl_con := c\<rparr>
            else flush_loop jb pause drainAll envelope (publish_batch jb envelope batch c s))
      else s)"
  by pat_completeness auto
termination
  by (relation "measure (\<lambda>(jb, p, d, e, s). batch_limit d - fl_batchCount s)")
     (auto simp: publish_batch_def flush_continues_def)

declare flush_loop.simps [simp del]

definition flush_start :: "consumption \<Rightarrow> flush_state" where
  "flush_start c = \<lparr>fl_con = c, fl_published = 0, fl_batchCount = 0, fl_lastBatch = 0,
                    fl_oldest = None, fl_remaining = max_publication_bytes,
                    fl_delivered = [], fl_events = []\<rparr>"

definition recordStreamFlush ::
  "int \<Rightarrow> int \<Rightarrow> int \<Rightarrow> int \<Rightarrow> int option \<Rightarrow> js_string \<Rightarrow> consumption \<Rightarrow> consumption" where
  "recordStreamFlush batchCount published lastBatch duration wait sampled c =
     (if published = 0 then c
      else let m = con_monitoring c in
        c\<lparr>con_monitoring := m\<lparr>
            mon_publishedMessages := mon_publishedMessages m + published,
            mon_batchCount := mon_batchCount m + batchCount,
            mon_lastBatchMessages := lastBatch,
            mon_lastPublicationDurationMs := Some duration,
            mon_lastQueueWaitMs := wait,
            mon_publicationSampledAt := Some sampled,
            mon_queueWaitSampledAt := Some sampled\<rparr>\<rparr>)"

definition recordStreamQueueBounds :: "consumption \<Rightarrow> consumption" where
  "recordStreamQueueBounds c =
     (let m = con_monitoring c in
      c\<lparr>con_monitoring := m\<lparr>
          mon_peakQueuedMessages := max (mon_peakQueuedMessages m) (int (length (con_messages c))),
          mon_peakQueuedBytes := max (mon_peakQueuedBytes m) (con_queuedBytes c)\<rparr>\<rparr>)"

record flush_result =
  res_completedAtMs :: int
  res_publishedMessages :: nat
  res_events :: "batch_event list"
  res_outputs :: output_aggregate
  res_consumption :: consumption

definition flushFacadeMessages ::
  "(kafka_explored_message \<Rightarrow> nat) \<Rightarrow> bool \<Rightarrow> flush_bindings \<Rightarrow> consumption \<Rightarrow> flush_result" where
  "flushFacadeMessages jb drainAll b c =
     (let envelope = facadeMessageBatchEnvelopeBytes c;
          s = flush_loop jb (paused b) drainAll envelope (flush_start c);
          c1 = (if drainAll then discardFacadeMessages (fl_con s) else fl_con s);
          outputs = aggregateFacadeRuleOutputs (con_topic c) (fl_delivered s);
          c2 = recordStreamFlush (int (fl_batchCount s)) (int (fl_published s))
                 (int (fl_lastBatch s)) (max 0 (completed_at b - started_at b))
                 (case fl_oldest s of None \<Rightarrow> None | Some t \<Rightarrow> Some (max 0 (started_at b - t)))
                 (sampled_at b) c1
      in \<lparr>res_completedAtMs = completed_at b,
          res_publishedMessages = fl_published s,
          res_events = fl_events s,
          res_outputs = outputs,
          res_consumption = c2\<rparr>)"

section \<open>Taking one batch\<close>

text \<open>
  What \<open>take_loop\<close> does to the queue: it consumes a prefix, appends to the batch the records of
  the prefix that are not oversized, and accounts for the others.
\<close>

definition taken_prefix ::
  "(kafka_explored_message \<Rightarrow> nat) \<Rightarrow> int \<Rightarrow> queued_message list \<Rightarrow> consumption
   \<Rightarrow> queued_message list \<Rightarrow> consumption \<Rightarrow> bool" where
  "taken_prefix jb envelope batch c batch' c' \<longleftrightarrow>
     (\<exists>n \<le> length (con_messages c).
        con_messages c' = drop n (con_messages c)
        \<and> batch' = batch @ filter (\<lambda>q. \<not> is_oversized jb envelope q) (take n (con_messages c)))"

definition taken_account ::
  "queued_message list \<Rightarrow> consumption \<Rightarrow> queued_message list \<Rightarrow> consumption \<Rightarrow> bool" where
  "taken_account batch c batch' c' \<longleftrightarrow>
     con_droppedMessages c' + int (length (con_messages c')) + int (length batch') =
         con_droppedMessages c + int (length (con_messages c)) + int (length batch)
     \<and> con_queueDepth c' = con_queueDepth c \<and> con_batchSize c' = con_batchSize c
     \<and> con_topic c' = con_topic c \<and> (queue_ok c \<longrightarrow> queue_ok c')"

definition taken ::
  "(kafka_explored_message \<Rightarrow> nat) \<Rightarrow> int \<Rightarrow> queued_message list \<Rightarrow> consumption
   \<Rightarrow> queued_message list \<Rightarrow> consumption \<Rightarrow> bool" where
  "taken jb envelope batch c batch' c' \<longleftrightarrow>
     taken_prefix jb envelope batch c batch' c' \<and> taken_account batch c batch' c'"

lemma taken_refl [simp]: "taken jb envelope batch c batch c"
  by (auto simp: taken_def taken_prefix_def taken_account_def intro: exI [of _ 0])

lemma taken_oversized:
  assumes "con_messages c = q # rest" and "is_oversized jb envelope q"
    and "taken jb envelope batch (drop_oversized q rest c) batch' c'"
  shows "taken jb envelope batch c batch' c'"
proof -
  obtain n where "n \<le> length rest" "con_messages c' = drop n rest"
    "batch' = batch @ filter (\<lambda>q. \<not> is_oversized jb envelope q) (take n rest)"
    using assms(3) by (auto simp: taken_def taken_prefix_def)
  then show ?thesis
    using assms drop_oversized_ok [of c q rest]
    by (auto simp: taken_def taken_prefix_def taken_account_def intro!: exI [of _ "Suc n"])
qed

lemma taken_kept:
  assumes "con_messages c = q # rest" and "\<not> is_oversized jb envelope q"
    and "taken jb envelope (batch @ [q])
           (c\<lparr>con_messages := rest, con_queuedBytes := con_queuedBytes c - retained_bytes q\<rparr>) batch' c'"
  shows "taken jb envelope batch c batch' c'"
proof -
  obtain n where "n \<le> length rest" "con_messages c' = drop n rest"
    "batch' = batch @ [q] @ filter (\<lambda>q. \<not> is_oversized jb envelope q) (take n rest)"
    using assms(3) by (auto simp: taken_def taken_prefix_def)
  then show ?thesis
    using assms
    by (auto simp: taken_def taken_prefix_def taken_account_def queue_ok_def intro!: exI [of _ "Suc n"])
qed

text \<open>The two running totals of the loop, and the bounds they guard.\<close>

definition loop_totals ::
  "(kafka_explored_message \<Rightarrow> nat) \<Rightarrow> nat \<Rightarrow> int \<Rightarrow> int \<Rightarrow> queued_message list \<Rightarrow> int \<Rightarrow> int \<Rightarrow> bool" where
  "loop_totals jb maxMessages maxSerialized envelope batch batchBytes serializedBytes \<longleftrightarrow>
     batchBytes = sum_list (map retained_bytes batch)
     \<and> serializedBytes = batch_cost jb envelope batch
     \<and> length batch \<le> maxMessages \<and> batchBytes \<le> limit_batchBytes
     \<and> (batch \<noteq> [] \<longrightarrow> serializedBytes \<le> maxSerialized)"

lemma take_loop_taken:
  "take_loop jb m ms envelope batch bb sb c = (batch', c') \<Longrightarrow> taken jb envelope batch c batch' c'"
proof (induction jb m ms envelope batch bb sb c rule: take_loop.induct)
  case (1 jb m ms envelope batch bb sb c)
  show ?case
  proof (cases "length batch < m \<and> con_messages c \<noteq> []")
    case False
    then have "batch' = batch" "c' = c"
      using "1.prems" by (auto simp: take_loop.simps [of jb m ms envelope batch bb sb c]
                               split: if_splits list.splits)
    then show ?thesis by simp
  next
    case True
    then obtain q rest where ms: "con_messages c = q # rest" and lt: "length batch < m"
      by (cases "con_messages c") auto
    show ?thesis
      using "1.IH" [OF lt ms] "1.prems" lt ms taken_oversized [OF ms] taken_kept [OF ms]
      by (simp add: take_loop.simps [of jb m ms envelope batch bb sb c] split: if_splits)
  qed
qed

lemma take_loop_totals:
  "take_loop jb m ms envelope batch bb sb c = (batch', c') \<Longrightarrow>
   loop_totals jb m ms envelope batch bb sb \<Longrightarrow>
   \<exists>bb' sb'. loop_totals jb m ms envelope batch' bb' sb'"
proof (induction jb m ms envelope batch bb sb c rule: take_loop.induct)
  case (1 jb m ms envelope batch bb sb c)
  show ?case
  proof (cases "length batch < m \<and> con_messages c \<noteq> []")
    case False
    then have "batch' = batch"
      using "1.prems"(1) by (auto simp: take_loop.simps [of jb m ms envelope batch bb sb c]
                               split: if_splits list.splits)
    then show ?thesis using "1.prems"(2) by blast
  next
    case True
    then obtain q rest where ms: "con_messages c = q # rest" and lt: "length batch < m"
      by (cases "con_messages c") auto
    have grow: "loop_totals jb m ms envelope (batch @ [q]) (bb + retained_bytes q)
                  (sb + facadeMessageSerializedBytes jb q)"
      if "\<not> (limit_batchBytes < bb + retained_bytes q \<or> ms < sb + facadeMessageSerializedBytes jb q)"
      using that "1.prems"(2) lt by (auto simp: loop_totals_def batch_cost_def)
    show ?thesis
      using "1.IH" [OF lt ms] "1.prems" lt ms grow
      by (simp add: take_loop.simps [of jb m ms envelope batch bb sb c] split: if_splits) auto
  qed
qed

text \<open>The facts about one batch that the turn relies on.\<close>

definition batch_bounds ::
  "(kafka_explored_message \<Rightarrow> nat) \<Rightarrow> nat \<Rightarrow> int \<Rightarrow> int \<Rightarrow> queued_message list \<Rightarrow> bool" where
  "batch_bounds jb maxMessages maxSerialized envelope batch \<longleftrightarrow>
     length batch \<le> maxMessages
     \<and> sum_list (map retained_bytes batch) \<le> limit_batchBytes
     \<and> (batch \<noteq> [] \<longrightarrow> batch_cost jb envelope batch \<le> maxSerialized)"

lemma takeFacadeMessageBatch_spec:
  assumes "takeFacadeMessageBatch jb m ms c = (batch, c')"
  shows "taken jb (facadeMessageBatchEnvelopeBytes c) [] c batch c'"
    and "batch_bounds jb m ms (facadeMessageBatchEnvelopeBytes c) batch"
proof -
  let ?env = "facadeMessageBatchEnvelopeBytes c"
  have run: "take_loop jb m ms ?env [] 0 ?env c = (batch, c')"
    using assms by (simp add: takeFacadeMessageBatch_def Let_def)
  then show "taken jb ?env [] c batch c'" by (rule take_loop_taken)
  have "loop_totals jb m ms ?env [] 0 ?env"
    by (simp add: loop_totals_def batch_cost_def)
  then obtain bb sb where "loop_totals jb m ms ?env batch bb sb"
    using take_loop_totals [OF run] by blast
  then show "batch_bounds jb m ms ?env batch"
    by (auto simp: loop_totals_def batch_bounds_def)
qed

section \<open>The invariant of a turn\<close>

definition event_bytes :: "(kafka_explored_message \<Rightarrow> nat) \<Rightarrow> int \<Rightarrow> batch_event \<Rightarrow> int" where
  "event_bytes jb envelope e =
     envelope + sum_list (map (\<lambda>m. int (jb m) + 1) (event_messages e))"

definition event_in_bounds ::
  "(kafka_explored_message \<Rightarrow> nat) \<Rightarrow> consumption \<Rightarrow> batch_event \<Rightarrow> bool" where
  "event_in_bounds jb c e \<longleftrightarrow>
     event_messages e \<noteq> [] \<and> length (event_messages e) \<le> con_batchSize c
     \<and> sum_list (map kafkaMessageRetainedBytes (event_messages e)) \<le> limit_batchBytes
     \<and> event_bytes jb (facadeMessageBatchEnvelopeBytes c) e \<le> limit_batchBytes"

definition turn_bounds ::
  "(kafka_explored_message \<Rightarrow> nat) \<Rightarrow> bool \<Rightarrow> consumption \<Rightarrow> flush_state \<Rightarrow> bool" where
  "turn_bounds jb drainAll c0 s \<longleftrightarrow>
     (\<forall>e \<in> set (fl_events s). event_in_bounds jb c0 e)
     \<and> fl_batchCount s = length (fl_events s) \<and> fl_batchCount s \<le> batch_limit drainAll
     \<and> 0 \<le> fl_remaining s
     \<and> fl_remaining s + sum_list (map (event_bytes jb (facadeMessageBatchEnvelopeBytes c0)) (fl_events s))
         = max_publication_bytes
     \<and> (\<not> drainAll \<longrightarrow> fl_published s \<le> con_batchSize c0)"

definition turn_content ::
  "(kafka_explored_message \<Rightarrow> nat) \<Rightarrow> consumption \<Rightarrow> flush_state \<Rightarrow> bool" where
  "turn_content jb c0 s \<longleftrightarrow>
     taken jb (facadeMessageBatchEnvelopeBytes c0) [] c0 (fl_delivered s) (fl_con s)
     \<and> fl_published s = length (fl_delivered s)
     \<and> concat (map event_messages (fl_events s)) = map queued_record (fl_delivered s)"

lemma taken_trans:
  assumes "taken jb envelope [] c0 xs c" and "taken jb envelope [] c ys c'"
  shows "taken jb envelope [] c0 (xs @ ys) c'"
proof -
  obtain n where n: "n \<le> length (con_messages c0)" "con_messages c = drop n (con_messages c0)"
    "xs = filter (\<lambda>q. \<not> is_oversized jb envelope q) (take n (con_messages c0))"
    using assms(1) by (auto simp: taken_def taken_prefix_def)
  obtain k where k: "k \<le> length (con_messages c)" "con_messages c' = drop k (con_messages c)"
    "ys = filter (\<lambda>q. \<not> is_oversized jb envelope q) (take k (con_messages c))"
    using assms(2) by (auto simp: taken_def taken_prefix_def)
  have "con_messages c' = drop (n + k) (con_messages c0)" "n + k \<le> length (con_messages c0)"
    using n k by (simp_all add: add.commute)
  moreover have "xs @ ys = filter (\<lambda>q. \<not> is_oversized jb envelope q) (take (n + k) (con_messages c0))"
    using n k by (simp add: take_add)
  ultimately have "taken_prefix jb envelope [] c0 (xs @ ys) c'"
    by (auto simp: taken_prefix_def)
  moreover have "taken_account [] c0 (xs @ ys) c'"
    using assms by (auto simp: taken_def taken_account_def)
  ultimately show ?thesis by (simp add: taken_def)
qed

lemma taken_envelope:
  "taken jb envelope [] c xs c' \<Longrightarrow> facadeMessageBatchEnvelopeBytes c' = facadeMessageBatchEnvelopeBytes c"
  by (simp add: taken_def taken_account_def facadeMessageBatchEnvelopeBytes_def)

lemma batch_cost_event:
  "event_bytes jb envelope \<lparr>event_droppedMessages = d, event_messages = map queued_record batch,
                           event_topic = t\<rparr> = batch_cost jb envelope batch"
  by (simp add: event_bytes_def batch_cost_def facadeMessageSerializedBytes_def [abs_def] comp_def)

lemma retained_batch:
  "sum_list (map kafkaMessageRetainedBytes (map queued_record batch)) = sum_list (map retained_bytes batch)"
  by (simp add: retained_bytes_def [abs_def] comp_def)

lemma turn_content_step:
  assumes inv: "turn_content jb c0 s" and turn: "turn_batch jb drainAll s = (batch, c)"
  shows "turn_content jb c0 (publish_batch jb (facadeMessageBatchEnvelopeBytes c0) batch c s)"
    and "taken jb (facadeMessageBatchEnvelopeBytes c0) [] c0 (fl_delivered s @ batch) c"
proof -
  have t0: "taken jb (facadeMessageBatchEnvelopeBytes c0) [] c0 (fl_delivered s) (fl_con s)"
    using inv by (simp add: turn_content_def)
  have "taken jb (facadeMessageBatchEnvelopeBytes (fl_con s)) [] (fl_con s) batch c"
    using turn unfolding turn_batch_def by (rule takeFacadeMessageBatch_spec(1))
  then show t: "taken jb (facadeMessageBatchEnvelopeBytes c0) [] c0 (fl_delivered s @ batch) c"
    using taken_trans [OF t0] taken_envelope [OF t0] by simp
  then show "turn_content jb c0 (publish_batch jb (facadeMessageBatchEnvelopeBytes c0) batch c s)"
    using inv by (simp add: turn_content_def publish_batch_def)
qed

lemma turn_bounds_step:
  assumes inv: "turn_content jb c0 s" "turn_bounds jb drainAll c0 s"
    and cont: "flush_continues pause drainAll s"
    and turn: "turn_batch jb drainAll s = (batch, c)" and "batch \<noteq> []"
  shows "turn_bounds jb drainAll c0 (publish_batch jb (facadeMessageBatchEnvelopeBytes c0) batch c s)"
proof -
  let ?env = "facadeMessageBatchEnvelopeBytes c0"
  have t0: "taken jb ?env [] c0 (fl_delivered s) (fl_con s)"
    using inv by (simp add: turn_content_def)
  have size: "con_batchSize (fl_con s) = con_batchSize c0"
    using t0 by (simp add: taken_def taken_account_def)
  have "batch_bounds jb
      (if drainAll then con_batchSize (fl_con s) else con_batchSize (fl_con s) - fl_published s)
      (min limit_batchBytes (fl_remaining s)) (facadeMessageBatchEnvelopeBytes (fl_con s)) batch"
    using turn unfolding turn_batch_def by (rule takeFacadeMessageBatch_spec(2))
  then have bounds: "length batch \<le> (if drainAll then con_batchSize c0 else con_batchSize c0 - fl_published s)"
    "sum_list (map retained_bytes batch) \<le> limit_batchBytes"
    "batch_cost jb ?env batch \<le> limit_batchBytes" "batch_cost jb ?env batch \<le> fl_remaining s"
    using \<open>batch \<noteq> []\<close> by (auto simp: batch_bounds_def size taken_envelope [OF t0])
  have "event_in_bounds jb c0 \<lparr>event_droppedMessages = con_droppedMessages c,
          event_messages = map queued_record batch, event_topic = con_topic c\<rparr>"
    using bounds \<open>batch \<noteq> []\<close>
    by (auto simp: event_in_bounds_def batch_cost_event retained_batch simp del: map_map split: if_splits)
  then show ?thesis
    using inv(2) bounds cont
    by (auto simp: turn_bounds_def publish_batch_def flush_continues_def batch_cost_event)
qed

lemma flush_loop_invariant:
  assumes "turn_content jb c0 s" and "turn_bounds jb drainAll c0 s"
  shows "turn_content jb c0 (flush_loop jb pause drainAll (facadeMessageBatchEnvelopeBytes c0) s)
       \<and> turn_bounds jb drainAll c0 (flush_loop jb pause drainAll (facadeMessageBatchEnvelopeBytes c0) s)"
  using assms
proof (induction "batch_limit drainAll - fl_batchCount s" arbitrary: s rule: less_induct)
  case less
  let ?env = "facadeMessageBatchEnvelopeBytes c0"
  obtain batch c where turn: "turn_batch jb drainAll s = (batch, c)"
    by (cases "turn_batch jb drainAll s") auto
  consider "\<not> flush_continues pause drainAll s"
    | "flush_continues pause drainAll s" "batch = []"
    | "flush_continues pause drainAll s" "batch \<noteq> []"
    by blast
  then show ?case
  proof cases
    case 1
    then show ?thesis using less.prems by (simp add: flush_loop.simps [of jb pause drainAll ?env s])
  next
    case 2
    then have "flush_loop jb pause drainAll ?env s = s\<lparr>fl_con := c\<rparr>"
      using turn by (simp add: flush_loop.simps [of jb pause drainAll ?env s])
    then show ?thesis
      using less.prems turn_content_step(2) [OF less.prems(1) turn] 2
      by (simp add: turn_content_def turn_bounds_def)
  next
    case 3
    let ?s = "publish_batch jb ?env batch c s"
    have "batch_limit drainAll - fl_batchCount ?s < batch_limit drainAll - fl_batchCount s"
      using 3 by (auto simp: publish_batch_def flush_continues_def)
    then have "turn_content jb c0 (flush_loop jb pause drainAll ?env ?s)
             \<and> turn_bounds jb drainAll c0 (flush_loop jb pause drainAll ?env ?s)"
      using turn_content_step(1) [OF less.prems(1) turn] turn_bounds_step [OF less.prems 3(1) turn 3(2)]
      by (rule less.hyps)
    then show ?thesis
      using 3 turn by (simp add: flush_loop.simps [of jb pause drainAll ?env s])
  qed
qed

lemma turn_start:
  "turn_content jb c (flush_start c)" "turn_bounds jb drainAll c (flush_start c)"
  by (simp_all add: turn_content_def turn_bounds_def flush_start_def)

lemma discard_simps [simp]:
  "con_messages (discardFacadeMessages c) = []"
  "con_queuedBytes (discardFacadeMessages c) = 0"
  "con_droppedMessages (discardFacadeMessages c) = con_droppedMessages c + int (length (con_messages c))"
  "queue_ok c \<Longrightarrow> queue_ok (discardFacadeMessages c)"
  by (simp_all add: discardFacadeMessages_def Let_def queue_ok_def drop_total_def)

lemma recordStreamFlush_simps [simp]:
  "con_messages (recordStreamFlush b p l d w t c) = con_messages c"
  "con_queuedBytes (recordStreamFlush b p l d w t c) = con_queuedBytes c"
  "con_droppedMessages (recordStreamFlush b p l d w t c) = con_droppedMessages c"
  "con_reasons (recordStreamFlush b p l d w t c) = con_reasons c"
  by (simp_all add: recordStreamFlush_def Let_def con_reasons_def)

lemma flush_simps:
  "res_publishedMessages (flushFacadeMessages jb drainAll b c) =
     fl_published (flush_loop jb (paused b) drainAll (facadeMessageBatchEnvelopeBytes c) (flush_start c))"
  "res_events (flushFacadeMessages jb drainAll b c) =
     fl_events (flush_loop jb (paused b) drainAll (facadeMessageBatchEnvelopeBytes c) (flush_start c))"
  by (simp_all add: flushFacadeMessages_def Let_def)

section \<open>Properties\<close>

text \<open>
  C30: One publication turn is bounded whatever the queue holds: every published batch is nonempty,
  holds at most one batch size of records and respects the batch byte limit both in retained and in
  serialized bytes; the whole turn serializes at most 4 MiB in at most 4 batches (100 for the
  terminal drain), and an ordinary turn publishes at most one batch size of records.
\<close>

theorem flush_turn_bounded:
  "(\<forall>e \<in> set (res_events (flushFacadeMessages jb drainAll b c)). event_in_bounds jb c e)
   \<and> sum_list (map (event_bytes jb (facadeMessageBatchEnvelopeBytes c))
        (res_events (flushFacadeMessages jb drainAll b c))) \<le> max_publication_bytes
   \<and> length (res_events (flushFacadeMessages jb drainAll b c)) \<le> batch_limit drainAll
   \<and> (drainAll \<or> res_publishedMessages (flushFacadeMessages jb drainAll b c) \<le> con_batchSize c)"
  using flush_loop_invariant [OF turn_start(1) [where jb = jb and c = c]
      turn_start(2) [where drainAll = drainAll], where pause = "paused b"]
  by (cases drainAll) (auto simp: turn_bounds_def flush_simps)

definition sample_bindings :: flush_bindings where
  "sample_bindings = \<lparr>started_at = 10, completed_at = 12, sampled_at = ''t'', paused = (\<lambda>k. False)\<rparr>"

theorem flush_turn_bounded_witness:
  "length (res_events (flushFacadeMessages (\<lambda>m. 100) False sample_bindings
      (sample_consumption 4 [sample_queued ''x'', sample_queued ''y'']))) \<le> 4
   \<and> res_publishedMessages (flushFacadeMessages (\<lambda>m. 100) False sample_bindings
      (sample_consumption 4 [sample_queued ''x'', sample_queued ''y''])) \<le> 10"
  using flush_turn_bounded [where jb = "\<lambda>m. 100" and drainAll = False and b = sample_bindings
      and c = "sample_consumption 4 [sample_queued ''x'', sample_queued ''y'']"]
  by (simp add: batch_limit_def sample_consumption_def)

text \<open>
  C27: No record is lost, duplicated or reordered by a turn without being counted: the published
  records are the deliverable ones of a prefix of the queue, in queue order; an ordinary turn
  leaves the rest queued, the terminal drain empties the queue; and published, dropped and still
  queued records add up to what was there. The counters stay consistent.
\<close>

theorem flush_turn_conserves:
  assumes "queue_ok c"
  shows "\<exists>n \<le> length (con_messages c).
      concat (map event_messages (res_events (flushFacadeMessages jb drainAll b c))) =
        map queued_record (filter (\<lambda>q. \<not> is_oversized jb (facadeMessageBatchEnvelopeBytes c) q)
                             (take n (con_messages c)))
      \<and> con_messages (res_consumption (flushFacadeMessages jb drainAll b c)) =
          (if drainAll then [] else drop n (con_messages c))
      \<and> con_droppedMessages (res_consumption (flushFacadeMessages jb drainAll b c))
          + int (length (con_messages (res_consumption (flushFacadeMessages jb drainAll b c))))
          + int (res_publishedMessages (flushFacadeMessages jb drainAll b c))
        = con_droppedMessages c + int (length (con_messages c))
      \<and> queue_ok (res_consumption (flushFacadeMessages jb drainAll b c))"
proof -
  let ?env = "facadeMessageBatchEnvelopeBytes c"
  define s where "s = flush_loop jb (paused b) drainAll ?env (flush_start c)"
  have content: "turn_content jb c s"
    using flush_loop_invariant [OF turn_start] by (simp add: s_def)
  then have account: "taken_account [] c (fl_delivered s) (fl_con s)"
    and "taken_prefix jb ?env [] c (fl_delivered s) (fl_con s)"
    by (simp_all add: turn_content_def taken_def)
  then obtain n where n: "n \<le> length (con_messages c)" "con_messages (fl_con s) = drop n (con_messages c)"
    "fl_delivered s = filter (\<lambda>q. \<not> is_oversized jb ?env q) (take n (con_messages c))"
    by (auto simp: taken_prefix_def)
  have ok: "queue_ok (fl_con s)" using account assms by (simp add: taken_account_def)
  have res: "res_consumption (flushFacadeMessages jb drainAll b c) =
      recordStreamFlush (int (fl_batchCount s)) (int (fl_published s)) (int (fl_lastBatch s))
        (max 0 (completed_at b - started_at b))
        (case fl_oldest s of None \<Rightarrow> None | Some t \<Rightarrow> Some (max 0 (started_at b - t))) (sampled_at b)
        (if drainAll then discardFacadeMessages (fl_con s) else fl_con s)"
    by (simp add: flushFacadeMessages_def Let_def s_def)
  have "queue_ok (res_consumption (flushFacadeMessages jb drainAll b c))"
    using ok discard_simps(4) [OF ok] by (simp add: res queue_ok_def)
  then show ?thesis
    using n content account
    by (intro exI [of _ n])
       (auto simp: turn_content_def taken_account_def res flush_simps s_def [symmetric])
qed

theorem flush_turn_conserves_witness:
  "con_messages (res_consumption (flushFacadeMessages (\<lambda>m. 100) True sample_bindings
     (sample_consumption 4 [sample_queued ''x'', sample_queued ''y'']))) = []
   \<and> con_droppedMessages (res_consumption (flushFacadeMessages (\<lambda>m. 100) True sample_bindings
       (sample_consumption 4 [sample_queued ''x'', sample_queued ''y''])))
     + int (res_publishedMessages (flushFacadeMessages (\<lambda>m. 100) True sample_bindings
       (sample_consumption 4 [sample_queued ''x'', sample_queued ''y'']))) = 2"
  using flush_turn_conserves [OF sample_queue_ok [of 4 "[sample_queued ''x'', sample_queued ''y'']"],
      where jb = "\<lambda>m. 100" and drainAll = True and b = sample_bindings]
  by auto

end
