(* ===== verification/Js_Value.thy ===== *)
theory Js_Value
  imports Prelude
begin

text \<open>
  The JavaScript values a decoded JSON document can hold, with the parts of the language the rule
  evaluator relies on: binary64 numbers (decimal literals rounded to nearest, ties to even;
  comparison; \<open>Object.is\<close>; shortest printing), \<open>Object.hasOwn\<close> and \<open>Object.values\<close> of
  objects and arrays, and \<open>String(value)\<close>.
\<close>

section \<open>Numbers\<close>

text \<open>
  A finite number is a sign, a mantissa and a binary exponent; \<open>num_of\<close> keeps the mantissa odd or
  zero, so equal terms are the same value and \<open>Object.is\<close> is equality: it separates \<open>-0\<close> from
  \<open>0\<close>.
\<close>

datatype js_num = Finite bool nat int | Infinite bool | NaN

fun is_finite :: "js_num \<Rightarrow> bool" where
  "is_finite (Finite s m e) = True"
| "is_finite _ = False"

fun bit_length :: "nat \<Rightarrow> nat" where
  "bit_length n = (if n = 0 then 0 else Suc (bit_length (n div 2)))"

declare bit_length.simps [simp del]

function odd_part :: "nat \<Rightarrow> int \<Rightarrow> nat \<times> int" where
  "odd_part m e = (if m = 0 then (0, 0) else if even m then odd_part (m div 2) (e + 1) else (m, e))"
  by pat_completeness auto
termination
  by (relation "measure (\<lambda>(m, e). m)") auto

declare odd_part.simps [simp del]

text \<open>The fraction \<open>n / d\<close> rounded to an integer, ties to even.\<close>

definition round_half_even :: "nat \<Rightarrow> nat \<Rightarrow> nat" where
  "round_half_even n d =
     (let q = n div d; r = n mod d
      in if 2 * r > d \<or> (2 * r = d \<and> odd q) then q + 1 else q)"

definition round_binary64 :: "bool \<Rightarrow> nat \<Rightarrow> nat \<Rightarrow> js_num" where
  "round_binary64 neg n d =
     (if n = 0 then Finite neg 0 0
      else let k = int (bit_length n) - int (bit_length d);
               at_least = (if k \<ge> 0 then d * 2 ^ nat k \<le> n else d \<le> n * 2 ^ nat (- k));
               l = (if at_least then k else k - 1);
               e = max (l - 52) (- 1074);
               m = (if e \<ge> 0 then round_half_even n (d * 2 ^ nat e)
                    else round_half_even (n * 2 ^ nat (- e)) d)
           in if e \<ge> 0 \<and> m * 2 ^ nat e \<ge> 2 ^ 1024 then Infinite neg
              else let (m', e') = odd_part m e in Finite neg m' e')"

definition decimal_num :: "bool \<Rightarrow> nat \<Rightarrow> int \<Rightarrow> js_num" where
  "decimal_num neg digits e =
     (if e \<ge> 0 then round_binary64 neg (digits * 10 ^ nat e) 1
      else round_binary64 neg digits (10 ^ nat (- e)))"

definition num_of_int :: "int \<Rightarrow> js_num" where
  "num_of_int n = round_binary64 (n < 0) (nat \<bar>n\<bar>) 1"

text \<open>\<open>a < b\<close> on finite numbers.\<close>

definition signed :: "bool \<Rightarrow> nat \<Rightarrow> int" where
  "signed neg m = (if neg then - int m else int m)"

fun num_less :: "js_num \<Rightarrow> js_num \<Rightarrow> bool" where
  "num_less (Finite s m e) (Finite t n f) =
     (let g = min e f in signed s m * 2 ^ nat (e - g) < signed t n * 2 ^ nat (f - g))"
| "num_less _ _ = False"

fun num_eq :: "js_num \<Rightarrow> js_num \<Rightarrow> bool" where
  "num_eq (Finite s m e) (Finite t n f) =
     (let g = min e f in signed s m * 2 ^ nat (e - g) = signed t n * 2 ^ nat (f - g))"
| "num_eq _ _ = False"

text \<open>The shortest decimal digits \<open>s\<close> and the point position \<open>n\<close> that read back as the number.\<close>

function leading_zeros :: "nat \<Rightarrow> nat \<Rightarrow> nat" where
  "leading_zeros a b = (if a = 0 \<or> b \<le> a * 10 then 0 else Suc (leading_zeros (a * 10) b))"
  by pat_completeness auto
termination
  by (relation "measure (\<lambda>(a, b). b - a)") auto

declare leading_zeros.simps [simp del]

definition point_position :: "nat \<Rightarrow> nat \<Rightarrow> int" where
  "point_position a b =
     (if b \<le> a then int (length (nat_string (a div b))) else - int (leading_zeros a b))"

definition scaled_floor :: "nat \<Rightarrow> nat \<Rightarrow> int \<Rightarrow> nat" where
  "scaled_floor a b p = (if p \<ge> 0 then a * 10 ^ nat p div b else a div (b * 10 ^ nat (- p)))"

definition nearer_floor :: "nat \<Rightarrow> nat \<Rightarrow> int \<Rightarrow> bool" where
  "nearer_floor a b p =
     (if p \<ge> 0 then 2 * (a * 10 ^ nat p mod b) \<le> b
      else 2 * (a mod (b * 10 ^ nat (- p))) \<le> b * 10 ^ nat (- p))"

fun shortest_digits :: "nat \<Rightarrow> nat \<Rightarrow> js_num \<Rightarrow> int \<Rightarrow> nat \<Rightarrow> nat \<Rightarrow> nat \<times> int" where
  "shortest_digits a b x n k 0 = (scaled_floor a b (17 - n), n)"
| "shortest_digits a b x n k (Suc more) =
     (let s = scaled_floor a b (int k - n);
          low = decimal_num False s (n - int k) = x;
          high = decimal_num False (s + 1) (n - int k) = x
      in if low \<and> (nearer_floor a b (int k - n) \<or> \<not> high) then (s, n)
         else if high then (if s + 1 = 10 ^ k then (10 ^ (k - 1), n + 1) else (s + 1, n))
         else shortest_digits a b x n (Suc k) more)"

definition print_decimal :: "js_string \<Rightarrow> int \<Rightarrow> js_string" where
  "print_decimal ds n =
     (let k = int (length ds) in
      if k \<le> n \<and> n \<le> 21 then ds @ replicate (nat (n - k)) (CHR ''0'')
      else if 0 < n \<and> n \<le> 21 then take (nat n) ds @ ''.'' @ drop (nat n) ds
      else if - 6 < n \<and> n \<le> 0 then ''0.'' @ replicate (nat (- n)) (CHR ''0'') @ ds
      else let e = n - 1; sign = (if e < 0 then ''-'' else ''+''); mag = nat_string (nat \<bar>e\<bar>)
           in if k = 1 then ds @ ''e'' @ sign @ mag
              else take 1 ds @ ''.'' @ drop 1 ds @ ''e'' @ sign @ mag)"

fun num_string :: "js_num \<Rightarrow> js_string" where
  "num_string NaN = ''NaN''"
| "num_string (Infinite neg) = (if neg then ''-Infinity'' else ''Infinity'')"
| "num_string (Finite neg m e) =
     (if m = 0 then ''0''
      else let a = (if e \<ge> 0 then m * 2 ^ nat e else m);
               b = (if e \<ge> 0 then 1 else 2 ^ nat (- e));
               n = point_position a b;
               (s, p) = shortest_digits a b (Finite False m e) n 1 17
           in (if neg then ''-'' else '''') @ print_decimal (nat_string s) p)"

section \<open>Values\<close>

text \<open>
  A decoded JSON document. An object lists its own properties with distinct keys in the order of
  \<open>Object.values\<close>.
\<close>

datatype json =
    JNull
  | JBool bool
  | JNum js_num
  | JStr js_string
  | JArr "json list"
  | JObj "(js_string \<times> json) list"

text \<open>\<open>Object.values\<close> where \<open>objectValue\<close> is defined (objects and arrays).\<close>

fun own_values :: "json \<Rightarrow> json list option" where
  "own_values (JArr xs) = Some xs"
| "own_values (JObj ps) = Some (map snd ps)"
| "own_values _ = None"

definition is_index_text :: "js_string \<Rightarrow> nat \<Rightarrow> bool" where
  "is_index_text name i \<longleftrightarrow> name = nat_string i"

fun find_index :: "js_string \<Rightarrow> nat \<Rightarrow> json list \<Rightarrow> json option" where
  "find_index name i [] = None"
| "find_index name i (x # xs) =
     (if is_index_text name i then Some x else find_index name (Suc i) xs)"

text \<open>
  \<open>Object.hasOwn(object, name)\<close> followed by \<open>object[name]\<close>: an array owns its elements under
  their index texts and its \<open>length\<close>.
\<close>

fun own_property :: "json \<Rightarrow> js_string \<Rightarrow> json option" where
  "own_property (JObj ps) name = map_of ps name"
| "own_property (JArr xs) name =
     (if name = ''length'' then Some (JNum (num_of_int (int (length xs)))) else find_index name 0 xs)"
| "own_property _ name = None"

text \<open>
  \<open>String(value)\<close>; None is the TypeError of an object whose own \<open>toString\<close> hides the inherited one.
  Inside an array null prints as the empty text.
\<close>

fun string_of :: "json \<Rightarrow> js_string option"
and strings_of :: "json list \<Rightarrow> js_string list option" where
  "string_of JNull = Some ''null''"
| "string_of (JBool b) = Some (if b then ''true'' else ''false'')"
| "string_of (JNum n) = Some (num_string n)"
| "string_of (JStr s) = Some s"
| "string_of (JArr xs) = map_option (join '','') (strings_of xs)"
| "string_of (JObj ps) =
     (if ''toString'' \<in> set (map fst ps) then None else Some ''[object Object]'')"
| "strings_of [] = Some []"
| "strings_of (x # xs) =
     (case (if x = JNull then Some [] else string_of x) of None \<Rightarrow> None
      | Some s \<Rightarrow> map_option ((#) s) (strings_of xs))"

fun text_includes :: "js_string \<Rightarrow> js_string \<Rightarrow> bool" where
  "text_includes [] t = (t = [])"
| "text_includes (c # s) t = (take (length t) (c # s) = t \<or> text_includes s t)"

lemma text_includes_iff: "text_includes s t \<longleftrightarrow> (\<exists>u v. s = u @ t @ v)"
proof (induction s)
  case Nil
  then show ?case by auto
next
  case (Cons c s)
  have "take (length t) (c # s) = t \<longleftrightarrow> (\<exists>v. c # s = t @ v)"
    by (metis append_eq_conv_conj append_take_drop_id)
  then show ?case using Cons by (auto simp: Cons_eq_append_conv)
qed

end
