(* ===== verification/Rule_Parser.thy ===== *)
theory Rule_Parser
  imports Js_Value
begin

text \<open>
  The live-rule expression language: its syntax (\<open>contracts/rule-expression-types.ts\<close>) and its
  recursive-descent parser (\<open>contracts/rule-expression-parser.ts\<close>).

  The parser object's \<open>source\<close>, \<open>index\<close> and \<open>conditionCount\<close> are the state: the source still to
  read, the index reached, and the count. A method returns an error or a value with the new state.
  The mutually recursive methods take fuel; \<open>compile_never_out_of_fuel\<close> below shows that the
  fuel given by the entry points always suffices. The engine behind \<open>new RegExp\<close> is the
  parameter \<open>re_valid\<close>, which says whether a source and flags are accepted.
\<close>

section \<open>Syntax\<close>

datatype rule_operator =
    Op_Contains | Op_Equals | Op_Exists | Op_Greater | Op_Greater_Equal
  | Op_Less | Op_Less_Equal | Op_Matches | Op_Not_Equals

datatype rule_scalar = Scalar_String js_string | Scalar_Number js_num | Scalar_Bool bool | Scalar_Null

datatype rule_operand = Scalar rule_scalar | Regex js_string js_string
  \<comment> \<open>source and flags\<close>

datatype path_origin = Current | Root

text \<open>\<open>RulePath\<close>, \<open>RulePathSegment\<close> and \<open>RuleCondition\<close> refer to each other: a filter segment holds a
  condition, and a condition a path.\<close>

datatype rule_path = Rule_Path path_origin "rule_segment list"
and rule_segment =
    Property js_string
  | Index nat
  | Wildcard
  | Recursive_Property js_string
  | Filter rule_condition
and rule_condition = Condition rule_path rule_operator "rule_operand option"

datatype rule_expression =
    Cond rule_condition
  | And rule_expression rule_expression
  | Or rule_expression rule_expression

section \<open>Parser state and errors\<close>

abbreviation limit_conditions :: nat where "limit_conditions \<equiv> 64"
abbreviation limit_diagnostic :: nat where "limit_diagnostic \<equiv> 2048"
abbreviation limit_expression :: nat where "limit_expression \<equiv> 4096"
abbreviation limit_grouping :: nat where "limit_grouping \<equiv> 16"
abbreviation limit_segments :: nat where "limit_segments \<equiv> 64"
abbreviation limit_regex :: nat where "limit_regex \<equiv> 256"

datatype parse_error =
    Expression_Error nat js_string
      \<comment> \<open>KafkaRuleExpressionError: its position and message\<close>
  | Out_Of_Fuel

record parser =
  rest :: js_string
  index :: nat
  conditionCount :: nat

type_synonym 'a parsed = "parse_error + 'a \<times> parser"

definition boundedDiagnostic :: "nat \<Rightarrow> js_string \<Rightarrow> js_string" where
  "boundedDiagnostic position detail =
     take limit_diagnostic (''Position '' @ nat_string position @ '': '' @ detail)"

definition expression_error :: "nat \<Rightarrow> js_string \<Rightarrow> parse_error" where
  "expression_error position detail = Expression_Error position (boundedDiagnostic position detail)"

definition fail :: "js_string \<Rightarrow> parser \<Rightarrow> 'a parsed" where
  "fail detail p = Inl (expression_error (index p) detail)"

definition fail_at :: "nat \<Rightarrow> js_string \<Rightarrow> 'a parsed" where
  "fail_at position detail = Inl (expression_error position detail)"

definition and_then :: "'a parsed \<Rightarrow> ('a \<Rightarrow> parser \<Rightarrow> 'b parsed) \<Rightarrow> 'b parsed" where
  "and_then r f = (case r of Inl e \<Rightarrow> Inl e | Inr (a, p) \<Rightarrow> f a p)"

section \<open>Characters and tokens\<close>

definition is_space :: "char \<Rightarrow> bool" where
  "is_space c \<longleftrightarrow> (of_char c :: nat) \<in> {9, 10, 11, 12, 13, 32, 160}"

definition is_digit :: "char \<Rightarrow> bool" where
  "is_digit c \<longleftrightarrow> 48 \<le> (of_char c :: nat) \<and> (of_char c :: nat) \<le> 57"

definition is_letter :: "char \<Rightarrow> bool" where
  "is_letter c \<longleftrightarrow> (65 \<le> (of_char c :: nat) \<and> (of_char c :: nat) \<le> 90)
                 \<or> (97 \<le> (of_char c :: nat) \<and> (of_char c :: nat) \<le> 122)"

definition is_word :: "char \<Rightarrow> bool" where
  "is_word c \<longleftrightarrow> is_letter c \<or> is_digit c \<or> c = CHR ''_'' \<or> c = CHR ''-''"

definition advance :: "nat \<Rightarrow> parser \<Rightarrow> parser" where
  "advance k p = p\<lparr>rest := drop k (rest p), index := index p + k\<rparr>"

definition peek :: "parser \<Rightarrow> char option" where
  "peek p = (case rest p of [] \<Rightarrow> None | c # _ \<Rightarrow> Some c)"

definition startsWith :: "js_string \<Rightarrow> parser \<Rightarrow> bool" where
  "startsWith token p \<longleftrightarrow> take (length token) (rest p) = token"

definition atEnd :: "parser \<Rightarrow> bool" where
  "atEnd p \<longleftrightarrow> rest p = []"

definition skipWhitespace :: "parser \<Rightarrow> parser" where
  "skipWhitespace p = advance (length (takeWhile is_space (rest p))) p"

text \<open>\<open>consume\<close> and \<open>consumeWord\<close> return the new state when the token was there.\<close>

definition consume :: "js_string \<Rightarrow> parser \<Rightarrow> parser option" where
  "consume token p = (if startsWith token p then Some (advance (length token) p) else None)"

definition consumeWord :: "js_string \<Rightarrow> parser \<Rightarrow> parser option" where
  "consumeWord token p =
     (if \<not> startsWith token p then None
      else case drop (length token) (rest p) of
             [] \<Rightarrow> Some (advance (length token) p)
           | c # _ \<Rightarrow> if is_word c then None else Some (advance (length token) p))"

definition expect :: "js_string \<Rightarrow> js_string \<Rightarrow> parser \<Rightarrow> unit parsed" where
  "expect token detail p = (case consume token p of Some q \<Rightarrow> Inr ((), q) | None \<Rightarrow> fail detail p)"

definition countCondition :: "parser \<Rightarrow> unit parsed" where
  "countCondition p =
     (let q = p\<lparr>conditionCount := conditionCount p + 1\<rparr> in
      if conditionCount q > limit_conditions then fail ''Expression exceeds 64 conditions.'' q
      else Inr ((), q))"

definition conditionEnded :: "parser \<Rightarrow> bool" where
  "conditionEnded p \<longleftrightarrow>
     atEnd p \<or> peek p = Some (CHR '')'') \<or> startsWith ''&&'' p \<or> startsWith ''||'' p"

definition parseIdentifier :: "js_string \<Rightarrow> parser \<Rightarrow> js_string parsed" where
  "parseIdentifier message p =
     (case rest p of
        [] \<Rightarrow> fail message p
      | c # cs \<Rightarrow>
          if is_letter c \<or> c = CHR ''_''
          then (let name = c # takeWhile is_word cs in Inr (name, advance (length name) p))
          else fail message p)"

section \<open>Literals\<close>

text \<open>
  \<open>/^-?(?:0|[1-9]\d*)(?:\.\d+)?(?:[eE][+-]?\d+)?/\<close>: each optional part is taken only when complete.
\<close>

definition take_digits :: "js_string \<Rightarrow> js_string" where
  "take_digits s = takeWhile is_digit s"

definition integer_part :: "js_string \<Rightarrow> js_string" where
  "integer_part s =
     (case s of [] \<Rightarrow> []
      | c # cs \<Rightarrow> if c = CHR ''0'' then [c] else if is_digit c then c # take_digits cs else [])"

definition fraction_part :: "js_string \<Rightarrow> js_string" where
  "fraction_part s =
     (case s of [] \<Rightarrow> []
      | c # cs \<Rightarrow> if c = CHR ''.'' \<and> take_digits cs \<noteq> [] then c # take_digits cs else [])"

definition exponent_sign :: "js_string \<Rightarrow> js_string" where
  "exponent_sign s =
     (case s of [] \<Rightarrow> [] | c # cs \<Rightarrow> if c = CHR ''+'' \<or> c = CHR ''-'' then [c] else [])"

definition exponent_part :: "js_string \<Rightarrow> js_string" where
  "exponent_part s =
     (case s of [] \<Rightarrow> []
      | c # cs \<Rightarrow>
          let sign = exponent_sign cs; ds = take_digits (drop (length sign) cs)
          in if (c = CHR ''e'' \<or> c = CHR ''E'') \<and> ds \<noteq> [] then c # sign @ ds else [])"

definition digits_value :: "js_string \<Rightarrow> nat" where
  "digits_value ds = foldl (\<lambda>n c. 10 * n + (of_char c - 48)) 0 ds"

record number_lexeme =
  lex_negative :: bool
  lex_integer :: js_string
  lex_fraction :: js_string
  lex_exponent :: js_string

definition match_number :: "js_string \<Rightarrow> number_lexeme option" where
  "match_number s =
     (let neg = (take 1 s = ''-'');
          s1 = (if neg then drop 1 s else s);
          i = integer_part s1;
          s2 = drop (length i) s1;
          f = fraction_part s2;
          s3 = drop (length f) s2
      in if i = [] then None
         else Some \<lparr>lex_negative = neg, lex_integer = i, lex_fraction = f,
                    lex_exponent = exponent_part s3\<rparr>)"

definition lexeme_length :: "number_lexeme \<Rightarrow> nat" where
  "lexeme_length l = (if lex_negative l then 1 else 0) + length (lex_integer l)
     + length (lex_fraction l) + length (lex_exponent l)"

text \<open>\<open>Number(lexeme)\<close>.\<close>

definition lexeme_number :: "number_lexeme \<Rightarrow> js_num" where
  "lexeme_number l =
     (let fraction = drop 1 (lex_fraction l);
          sign = exponent_sign (drop 1 (lex_exponent l));
          magnitude = digits_value (drop (1 + length sign) (lex_exponent l));
          ex = (if sign = ''-'' then - int magnitude else int magnitude)
      in decimal_num (lex_negative l) (digits_value (lex_integer l @ fraction))
           (ex - int (length fraction)))"

definition parseNumber :: "parser \<Rightarrow> js_num option parsed" where
  "parseNumber p =
     (case match_number (rest p) of
        None \<Rightarrow> Inr (None, p)
      | Some l \<Rightarrow>
          let value = lexeme_number l in
          if \<not> is_finite value then fail ''Numeric operand must be finite.'' p
          else Inr (Some value, advance (lexeme_length l) p))"

text \<open>
  \<open>parseQuotedString\<close>. A double-quoted literal is re-read by \<open>JSON.parse\<close>, which on the text the
  scanner has accepted fails exactly on a raw control character and on the escape of a single
  quote; \<open>json_ok\<close> records that neither has occurred.
\<close>

definition escape_value :: "char \<Rightarrow> char option" where
  "escape_value c =
     (if c = CHR 0x27 \<or> c = CHR 0x22 \<or> c = CHR 0x5C then Some c
      else if c = CHR ''b'' then Some (CHR 0x08)
      else if c = CHR ''f'' then Some (CHR 0x0C)
      else if c = CHR ''n'' then Some (CHR 0x0A)
      else if c = CHR ''r'' then Some (CHR 0x0D)
      else if c = CHR ''t'' then Some (CHR 0x09)
      else None)"

fun quoted_loop ::
  "char \<Rightarrow> nat \<Rightarrow> js_string \<Rightarrow> bool \<Rightarrow> nat \<Rightarrow> js_string \<Rightarrow> parse_error + js_string \<times> nat" where
  "quoted_loop quote start value json_ok used [] =
     Inl (expression_error start ''Unterminated string literal.'')"
| "quoted_loop quote start value json_ok used (c # cs) =
     (if c = quote
      then (if quote = CHR 0x22 \<and> \<not> json_ok
            then Inl (expression_error start ''String literal contains an invalid escape.'')
            else Inr (value, used + 1))
      else if c \<noteq> CHR 0x5C
      then quoted_loop quote start (value @ [c]) (json_ok \<and> 32 \<le> (of_char c :: nat)) (used + 1) cs
      else case cs of
             [] \<Rightarrow> Inl (expression_error start ''Unterminated string escape.'')
           | d # ds \<Rightarrow>
               (case escape_value d of
                  None \<Rightarrow> Inl (expression_error start ''String literal contains an invalid escape.'')
                | Some r \<Rightarrow> quoted_loop quote start (value @ [r]) (json_ok \<and> d \<noteq> CHR 0x27)
                              (used + 2) ds))"

definition parseQuotedString :: "parser \<Rightarrow> js_string parsed" where
  "parseQuotedString p =
     (case rest p of
        [] \<Rightarrow> fail ''Expected a quoted string.'' p
      | c # cs \<Rightarrow>
          if c = CHR 0x22 \<or> c = CHR 0x27
          then (case quoted_loop c (index p) [] True 1 cs of
                  Inl e \<Rightarrow> Inl e
                | Inr (value, used) \<Rightarrow> Inr (value, advance used p))
          else fail ''Expected a quoted string.'' p)"

text \<open>
  \<open>safeRegex\<close>: the scan that refuses unbounded repetition, capturing groups, lookarounds, optional
  repetition and backreferences outside character classes. \<open>prev\<close> is \<open>source[offset - 1]\<close>.
\<close>

fun regex_scan :: "char option \<Rightarrow> bool \<Rightarrow> bool \<Rightarrow> js_string \<Rightarrow> js_string option" where
  "regex_scan prev escaped inClass [] = None"
| "regex_scan prev escaped inClass (c # cs) =
     (if escaped
      then (if (49 \<le> (of_char c :: nat) \<and> (of_char c :: nat) \<le> 57) \<or> c = CHR ''k''
            then Some ''Regular-expression backreferences are not supported.''
            else regex_scan (Some c) False inClass cs)
      else if c = CHR 0x5C then regex_scan (Some c) True inClass cs
      else if c = CHR ''['' then regex_scan (Some c) False True cs
      else if c = CHR '']'' then regex_scan (Some c) False False cs
      else if inClass then regex_scan (Some c) False True cs
      else if c = CHR ''*'' \<or> c = CHR ''+'' \<or> c = CHR 0x7B
      then Some ''Unbounded regular-expression repetition is not supported.''
      else if c = CHR ''('' \<and> take 2 cs \<noteq> ''?:''
      then Some ''Only non-capturing regular-expression groups are supported.''
      else if c = CHR ''?'' \<and> \<not> (prev = Some (CHR ''('') \<and> take 1 cs = '':'')
      then Some ''Regular-expression lookarounds and optional repetition are not supported.''
      else regex_scan (Some c) False False cs)"

definition valid_flags :: "js_string \<Rightarrow> bool" where
  "valid_flags flags \<longleftrightarrow> distinct flags \<and> set flags \<subseteq> set ''imsu''"

definition safeRegex ::
  "(js_string \<Rightarrow> js_string \<Rightarrow> bool) \<Rightarrow> js_string \<Rightarrow> js_string \<Rightarrow> parser \<Rightarrow> rule_operand parsed" where
  "safeRegex re_valid source flags p =
     (if length source > limit_regex then fail ''Regular expression exceeds 256 characters.'' p
      else if \<not> valid_flags flags
      then fail ''Regular-expression flags may contain i, m, s, or u at most once.'' p
      else case regex_scan None False False source of
             Some detail \<Rightarrow> fail detail p
           | None \<Rightarrow>
               if re_valid source flags then Inr (Regex source flags, p)
               else fail ''Regular expression is invalid.'' p)"

text \<open>The offset of the closing slash of a regular-expression literal, if there is one.\<close>

fun regex_end :: "bool \<Rightarrow> bool \<Rightarrow> nat \<Rightarrow> js_string \<Rightarrow> nat option" where
  "regex_end escaped inClass used [] = None"
| "regex_end escaped inClass used (c # cs) =
     (if escaped then regex_end False inClass (used + 1) cs
      else if c = CHR 0x5C then regex_end True inClass (used + 1) cs
      else if c = CHR ''['' then regex_end False True (used + 1) cs
      else if c = CHR '']'' then regex_end False False (used + 1) cs
      else if c = CHR ''/'' \<and> \<not> inClass then Some used
      else regex_end False inClass (used + 1) cs)"

definition parseRegexLiteral ::
  "(js_string \<Rightarrow> js_string \<Rightarrow> bool) \<Rightarrow> parser \<Rightarrow> rule_operand parsed" where
  "parseRegexLiteral re_valid p =
     and_then (expect ''/'' ''Expected a regular-expression literal.'' p) (\<lambda>_ q.
       case regex_end False False 0 (rest q) of
         None \<Rightarrow> fail ''Unterminated regular-expression literal.'' (advance (length (rest q)) q)
       | Some n \<Rightarrow>
           let source = take n (rest q);
               after = advance (n + 1) q;
               flags = takeWhile is_letter (rest after)
           in safeRegex re_valid source flags (advance (length flags) after))"

section \<open>Operators and operands\<close>

fun first_token :: "(js_string \<times> rule_operator) list \<Rightarrow> (js_string \<Rightarrow> parser \<Rightarrow> parser option)
                    \<Rightarrow> parser \<Rightarrow> (rule_operator \<times> parser) option" where
  "first_token [] take_token p = None"
| "first_token ((token, operator) # others) take_token p =
     (case take_token token p of
        Some q \<Rightarrow> Some (operator, q)
      | None \<Rightarrow> first_token others take_token p)"

definition symbolic_tokens :: "(js_string \<times> rule_operator) list" where
  "symbolic_tokens =
     [(''>='', Op_Greater_Equal), (''<='', Op_Less_Equal), (''=='', Op_Equals),
      (''!='', Op_Not_Equals), (''>'', Op_Greater), (''<'', Op_Less)]"

definition named_tokens :: "(js_string \<times> rule_operator) list" where
  "named_tokens = [(''contains'', Op_Contains), (''matches'', Op_Matches), (''exists'', Op_Exists)]"

definition parseOperator :: "parser \<Rightarrow> rule_operator parsed" where
  "parseOperator p0 =
     (let p = skipWhitespace p0 in
      case first_token symbolic_tokens consume p of
        Some r \<Rightarrow> Inr r
      | None \<Rightarrow>
          (case first_token named_tokens consumeWord p of
             Some r \<Rightarrow> Inr r
           | None \<Rightarrow> fail ''Expected one of ==, !=, >, >=, <, <=, contains, matches, or exists.'' p))"

fun operator_text :: "rule_operator \<Rightarrow> js_string" where
  "operator_text Op_Contains = ''contains''"
| "operator_text Op_Equals = ''equals''"
| "operator_text Op_Exists = ''exists''"
| "operator_text Op_Greater = ''greater-than''"
| "operator_text Op_Greater_Equal = ''greater-than-or-equal''"
| "operator_text Op_Less = ''less-than''"
| "operator_text Op_Less_Equal = ''less-than-or-equal''"
| "operator_text Op_Matches = ''matches''"
| "operator_text Op_Not_Equals = ''not-equals''"

fun keyword_scalar :: "(js_string \<times> rule_scalar) list \<Rightarrow> parser \<Rightarrow> (rule_scalar \<times> parser) option" where
  "keyword_scalar [] p = None"
| "keyword_scalar ((token, v) # others) p =
     (case consumeWord token p of Some q \<Rightarrow> Some (v, q) | None \<Rightarrow> keyword_scalar others p)"

definition parseOperand ::
  "(js_string \<Rightarrow> js_string \<Rightarrow> bool) \<Rightarrow> rule_operator \<Rightarrow> parser \<Rightarrow> rule_operand parsed" where
  "parseOperand re_valid operator p0 =
     (let p = skipWhitespace p0 in
      if peek p = Some (CHR ''/'')
      then (if operator \<noteq> Op_Matches
            then fail ''Regular-expression literals are valid only with matches.'' p
            else parseRegexLiteral re_valid p)
      else if peek p = Some (CHR 0x22) \<or> peek p = Some (CHR 0x27)
      then and_then (parseQuotedString p) (\<lambda>value q.
             if operator = Op_Matches then safeRegex re_valid value [] q
             else Inr (Scalar (Scalar_String value), q))
      else case keyword_scalar [(''true'', Scalar_Bool True), (''false'', Scalar_Bool False),
                                (''null'', Scalar_Null)] p of
        Some (v, q) \<Rightarrow>
          if operator = Op_Matches
          then fail ''matches requires a string or regular-expression operand.'' q
          else Inr (Scalar v, q)
      | None \<Rightarrow>
          and_then (parseNumber p) (\<lambda>numeric q.
            case numeric of
              Some n \<Rightarrow>
                if operator = Op_Matches \<or> operator = Op_Contains
                then fail (operator_text operator @ '' requires a string operand.'') q
                else Inr (Scalar (Scalar_Number n), q)
            | None \<Rightarrow> fail ''Expected a JSON scalar or safe regular-expression literal.'' q))"

section \<open>Paths, conditions and expressions\<close>

text \<open>The tail shared by \<open>parseCondition\<close> and \<open>parseFilterCondition\<close> after their end test.\<close>

definition condition_tail ::
  "(js_string \<Rightarrow> js_string \<Rightarrow> bool) \<Rightarrow> rule_path \<Rightarrow> parser \<Rightarrow> rule_condition parsed" where
  "condition_tail re_valid path p =
     and_then (parseOperator p) (\<lambda>operator q.
       if operator = Op_Exists then Inr (Condition path Op_Exists None, q)
       else and_then (parseOperand re_valid operator q) (\<lambda>operand r.
              Inr (Condition path operator (Some operand), r)))"

definition array_index :: "parser \<Rightarrow> rule_segment parsed" where
  "array_index p =
     (let ds = take_digits (rest p); q = advance (length ds) p in
      if ds = [] then fail ''Expected a quoted property, non-negative index, wildcard, or array filter.'' p
      else if int (digits_value ds) > max_safe_integer
      then fail_at (index p) ''Array index must be a safe non-negative integer.''
      else and_then (expect '']'' ''Expected ']' after array index.'' (skipWhitespace q))
             (\<lambda>_ r. Inr (Index (digits_value ds), r)))"

fun origin_token :: "path_origin \<Rightarrow> js_string" where
  "origin_token Root = ''$''"
| "origin_token Current = ''@''"

fun parsePath ::
    "(js_string \<Rightarrow> js_string \<Rightarrow> bool) \<Rightarrow> nat \<Rightarrow> path_origin \<Rightarrow> parser \<Rightarrow> rule_path parsed"
and path_loop ::
    "(js_string \<Rightarrow> js_string \<Rightarrow> bool) \<Rightarrow> nat \<Rightarrow> rule_segment list \<Rightarrow> parser \<Rightarrow> rule_segment list parsed"
and path_step ::
    "(js_string \<Rightarrow> js_string \<Rightarrow> bool) \<Rightarrow> nat \<Rightarrow> parser \<Rightarrow> rule_segment option parsed"
and parseBracketSegment ::
    "(js_string \<Rightarrow> js_string \<Rightarrow> bool) \<Rightarrow> nat \<Rightarrow> parser \<Rightarrow> rule_segment parsed"
and parseFilterCondition ::
    "(js_string \<Rightarrow> js_string \<Rightarrow> bool) \<Rightarrow> nat \<Rightarrow> parser \<Rightarrow> rule_condition parsed" where
  "parsePath rv 0 origin p = Inl Out_Of_Fuel"
| "parsePath rv (Suc n) origin p =
     and_then (expect (origin_token origin) (''Path must start with '' @ origin_token origin @ ''.'')
                 (skipWhitespace p))
       (\<lambda>_ q. and_then (path_loop rv n [] q) (\<lambda>segments r. Inr (Rule_Path origin segments, r)))"
| "path_loop rv 0 segments p = Inl Out_Of_Fuel"
| "path_loop rv (Suc n) segments p =
     and_then (path_step rv n p) (\<lambda>step q.
       case step of
         None \<Rightarrow> Inr (segments, q)
       | Some segment \<Rightarrow>
           if length (segments @ [segment]) > limit_segments
           then fail ''Path exceeds 64 segments.'' q
           else path_loop rv n (segments @ [segment]) q)"
| "path_step rv 0 p = Inl Out_Of_Fuel"
| "path_step rv (Suc n) p =
     (if startsWith ''..'' p
      then and_then (parseIdentifier ''Expected a property after recursive descent.'' (advance 2 p))
             (\<lambda>name q. Inr (Some (Recursive_Property name), q))
      else case consume ''.'' p of
        Some q \<Rightarrow>
          (case consume ''*'' q of
             Some r \<Rightarrow> Inr (Some Wildcard, r)
           | None \<Rightarrow> and_then (parseIdentifier ''Expected a property after '.'.'' q)
                       (\<lambda>name r. Inr (Some (Property name), r)))
      | None \<Rightarrow>
          (case consume ''['' p of
             Some q \<Rightarrow> and_then (parseBracketSegment rv n q) (\<lambda>segment r. Inr (Some segment, r))
           | None \<Rightarrow> Inr (None, p)))"
| "parseBracketSegment rv 0 p = Inl Out_Of_Fuel"
| "parseBracketSegment rv (Suc n) p0 =
     (let p = skipWhitespace p0 in
      case consume ''*'' p of
        Some q \<Rightarrow> and_then (expect '']'' ''Expected ']' after wildcard.'' (skipWhitespace q))
                    (\<lambda>_ r. Inr (Wildcard, r))
      | None \<Rightarrow>
          (case consume ''?('' p of
             Some q \<Rightarrow>
               and_then (parseFilterCondition rv n q) (\<lambda>condition r.
                 and_then (expect '')'' ''Expected ')' after array filter.'' (skipWhitespace r)) (\<lambda>_ s.
                   and_then (expect '']'' ''Expected ']' after array filter.'' (skipWhitespace s)) (\<lambda>_ t.
                     Inr (Filter condition, t))))
           | None \<Rightarrow>
               if peek p = Some (CHR 0x22) \<or> peek p = Some (CHR 0x27)
               then and_then (parseQuotedString p) (\<lambda>name q.
                      and_then (expect '']'' ''Expected ']' after property.'' (skipWhitespace q))
                        (\<lambda>_ r. Inr (Property name, r)))
               else array_index p))"
| "parseFilterCondition rv 0 p = Inl Out_Of_Fuel"
| "parseFilterCondition rv (Suc n) p =
     and_then (countCondition p) (\<lambda>_ q.
       and_then (parsePath rv n Current q) (\<lambda>path r0.
         let r = skipWhitespace r0 in
         if peek r = Some (CHR '')'') then Inr (Condition path Op_Exists None, r)
         else condition_tail rv path r))"

definition parseCondition ::
  "(js_string \<Rightarrow> js_string \<Rightarrow> bool) \<Rightarrow> nat \<Rightarrow> parser \<Rightarrow> rule_condition parsed" where
  "parseCondition rv n p =
     and_then (countCondition p) (\<lambda>_ q.
       and_then (parsePath rv n Root q) (\<lambda>path r0.
         let r = skipWhitespace r0 in
         if conditionEnded r then Inr (Condition path Op_Exists None, r)
         else condition_tail rv path r))"

function (sequential) parseOr ::
    "(js_string \<Rightarrow> js_string \<Rightarrow> bool) \<Rightarrow> nat \<Rightarrow> nat \<Rightarrow> parser \<Rightarrow> rule_expression parsed"
and or_loop ::
    "(js_string \<Rightarrow> js_string \<Rightarrow> bool) \<Rightarrow> nat \<Rightarrow> nat \<Rightarrow> rule_expression \<Rightarrow> parser \<Rightarrow> rule_expression parsed"
and parseAnd ::
    "(js_string \<Rightarrow> js_string \<Rightarrow> bool) \<Rightarrow> nat \<Rightarrow> nat \<Rightarrow> parser \<Rightarrow> rule_expression parsed"
and and_loop ::
    "(js_string \<Rightarrow> js_string \<Rightarrow> bool) \<Rightarrow> nat \<Rightarrow> nat \<Rightarrow> rule_expression \<Rightarrow> parser \<Rightarrow> rule_expression parsed"
and parsePrimary ::
    "(js_string \<Rightarrow> js_string \<Rightarrow> bool) \<Rightarrow> nat \<Rightarrow> nat \<Rightarrow> parser \<Rightarrow> rule_expression parsed" where
  "parseOr rv 0 depth p = Inl Out_Of_Fuel"
| "parseOr rv (Suc n) depth p =
     and_then (parseAnd rv n depth p) (\<lambda>expression q. or_loop rv n depth expression q)"
| "or_loop rv 0 depth expression p = Inl Out_Of_Fuel"
| "or_loop rv (Suc n) depth expression p0 =
     (let p = skipWhitespace p0 in
      case consume ''||'' p of
        None \<Rightarrow> Inr (expression, p)
      | Some q \<Rightarrow> and_then (parseAnd rv n depth q)
                    (\<lambda>right r. or_loop rv n depth (Or expression right) r))"
| "parseAnd rv 0 depth p = Inl Out_Of_Fuel"
| "parseAnd rv (Suc n) depth p =
     and_then (parsePrimary rv n depth p) (\<lambda>expression q. and_loop rv n depth expression q)"
| "and_loop rv 0 depth expression p = Inl Out_Of_Fuel"
| "and_loop rv (Suc n) depth expression p0 =
     (let p = skipWhitespace p0 in
      case consume ''&&'' p of
        None \<Rightarrow> Inr (expression, p)
      | Some q \<Rightarrow> and_then (parsePrimary rv n depth q)
                    (\<lambda>right r. and_loop rv n depth (And expression right) r))"
| "parsePrimary rv 0 depth p = Inl Out_Of_Fuel"
| "parsePrimary rv (Suc n) depth p0 =
     (let p = skipWhitespace p0 in
      case consume ''('' p of
        None \<Rightarrow> and_then (parseCondition rv n p) (\<lambda>c q. Inr (Cond c, q))
      | Some q \<Rightarrow>
          if depth + 1 > limit_grouping then fail ''Grouping exceeds depth 16.'' q
          else and_then (parseOr rv n (depth + 1) q) (\<lambda>expression r.
                 and_then (expect '')'' ''Expected a closing parenthesis.'' (skipWhitespace r))
                   (\<lambda>_ s. Inr (expression, s))))"
  by pat_completeness auto
termination
  by (relation "measure (case_sum
        (case_sum (\<lambda>(rv, n, depth, p). n) (\<lambda>(rv, n, depth, expression, p). n))
        (case_sum (\<lambda>(rv, n, depth, p). n)
          (case_sum (\<lambda>(rv, n, depth, expression, p). n) (\<lambda>(rv, n, depth, p). n))))") auto

section \<open>Entry points\<close>

text \<open>\<open>JSON.stringify\<close> of a one-character text, for the unexpected-token message.\<close>

definition hex_digit :: "nat \<Rightarrow> char" where
  "hex_digit d = (if d < 10 then char_of (48 + d) else char_of (87 + d))"

definition json_char :: "char \<Rightarrow> js_string" where
  "json_char c =
     (let n = (of_char c :: nat) in
      if n = 34 \<or> n = 92 then [CHR 0x5C, c]
      else if n = 8 then [CHR 0x5C, CHR ''b'']
      else if n = 9 then [CHR 0x5C, CHR ''t'']
      else if n = 10 then [CHR 0x5C, CHR ''n'']
      else if n = 12 then [CHR 0x5C, CHR ''f'']
      else if n = 13 then [CHR 0x5C, CHR ''r'']
      else if n < 32 then [CHR 0x5C, CHR ''u'', CHR ''0'', CHR ''0'', hex_digit (n div 16), hex_digit (n mod 16)]
      else [c])"

definition start_parser :: "js_string \<Rightarrow> parser" where
  "start_parser source = \<lparr>rest = source, index = 0, conditionCount = 0\<rparr>"

definition parse_fuel :: "js_string \<Rightarrow> nat" where
  "parse_fuel source = 8 * length source + 8"

definition compileKafkaRuleExpression ::
  "(js_string \<Rightarrow> js_string \<Rightarrow> bool) \<Rightarrow> js_string \<Rightarrow> parse_error + rule_expression" where
  "compileKafkaRuleExpression rv source =
     (if length source = 0 then Inl (expression_error 0 ''Expression is required.'')
      else if length source > limit_expression
      then Inl (expression_error 0 ''Expression exceeds 4096 characters.'')
      else case parseOr rv (parse_fuel source) 0 (start_parser source) of
        Inl e \<Rightarrow> Inl e
      | Inr (expression, p0) \<Rightarrow>
          let p = skipWhitespace p0 in
          (case rest p of
             [] \<Rightarrow> Inr expression
           | c # _ \<Rightarrow> Inl (expression_error (index p)
                        (''Unexpected token '' @ [CHR 0x22] @ json_char c @ [CHR 0x22] @ ''.''))))"

definition validateKafkaRuleExpression ::
  "(js_string \<Rightarrow> js_string \<Rightarrow> bool) \<Rightarrow> js_string \<Rightarrow> js_string option" where
  "validateKafkaRuleExpression rv expression =
     (case compileKafkaRuleExpression rv expression of
        Inr _ \<Rightarrow> None
      | Inl (Expression_Error position message) \<Rightarrow> Some message
      | Inl Out_Of_Fuel \<Rightarrow> Some (boundedDiagnostic 0 ''Expression validation failed.''))"

definition is_projection_segment :: "rule_segment \<Rightarrow> bool" where
  "is_projection_segment s = (case s of Property _ \<Rightarrow> True | Index _ \<Rightarrow> True | _ \<Rightarrow> False)"

definition compileKafkaProjectionPath ::
  "(js_string \<Rightarrow> js_string \<Rightarrow> bool) \<Rightarrow> js_string \<Rightarrow> parse_error + rule_segment list" where
  "compileKafkaProjectionPath rv source =
     (if length source > 256 then Inl (expression_error 0 ''Projection path exceeds its character limit.'')
      else case parsePath rv (parse_fuel source) Root (start_parser source) of
        Inl e \<Rightarrow> Inl e
      | Inr (Rule_Path origin segments, p0) \<Rightarrow>
          let p = skipWhitespace p0 in
          if \<not> atEnd p then Inl (expression_error (index p) ''A projection must contain only a field path.'')
          else if length segments > 16
          then Inl (expression_error 0 ''Projection path exceeds its segment limit.'')
          else if \<not> list_all is_projection_segment segments
          then Inl (expression_error 0 ''Projection paths support only properties and array indices.'')
          else Inr segments)"

end
