(* ===== verification/Rule_Eval.thy ===== *)
theory Rule_Eval
  imports Rule_Parser
begin

text \<open>
  The evaluator of compiled rule expressions (\<open>contracts/rule-expression-evaluator.ts\<close>) over a
  decoded JSON document. Every visited value is paid for from a work budget, which may be backed by
  a shared one; running out is an error that leaves the budgets as they were charged.

  The engine behind \<open>RegExp\<close> is a parameter: \<open>rv\<close> accepts a source and flags, and \<open>rt\<close> says
  whether the pattern occurs in a text.
\<close>

section \<open>Work budgets\<close>

record work_budget =
  maximum :: int
  remaining :: int

text \<open>A budget and the shared budgets behind it, nearest first.\<close>

type_synonym budgets = "work_budget list"

datatype eval_error =
    Work_Exceeded int
  | Not_Convertible
      \<comment> \<open>the TypeError of \<open>String(value)\<close>\<close>
  | Invalid_Regex

type_synonym 'a eval = "budgets \<Rightarrow> (eval_error + 'a) \<times> budgets"

definition ret :: "'a \<Rightarrow> 'a eval" where
  "ret a bs = (Inr a, bs)"

definition throw :: "eval_error \<Rightarrow> 'a eval" where
  "throw e bs = (Inl e, bs)"

definition bind_eval :: "'a eval \<Rightarrow> ('a \<Rightarrow> 'b eval) \<Rightarrow> 'b eval" where
  "bind_eval m f bs = (case m bs of (Inl e, cs) \<Rightarrow> (Inl e, cs) | (Inr a, cs) \<Rightarrow> f a cs)"

definition new_budget :: "int \<Rightarrow> budgets \<Rightarrow> budgets" where
  "new_budget limit shared = \<lparr>maximum = limit, remaining = limit\<rparr> # shared"

definition exhausted :: "work_budget \<Rightarrow> bool" where
  "exhausted b \<longleftrightarrow> remaining b < 0"

definition spent :: "work_budget \<Rightarrow> int" where
  "spent b = maximum b - remaining b"

fun spend :: "int \<Rightarrow> unit eval" where
  "spend units [] = (Inr (), [])"
| "spend units (b # shared) =
     (case spend units shared of
        (Inl e, shared') \<Rightarrow> (Inl e, b # shared')
      | (Inr u, shared') \<Rightarrow>
          let b' = b\<lparr>remaining := remaining b - units\<rparr> in
          (if exhausted b' then Inl (Work_Exceeded (maximum b)) else Inr (), b' # shared'))"

abbreviation evaluation_work :: int where "evaluation_work \<equiv> 250000"

section \<open>Comparing one value\<close>

fun scalar_json :: "rule_scalar \<Rightarrow> json" where
  "scalar_json (Scalar_String s) = JStr s"
| "scalar_json (Scalar_Number n) = JNum n"
| "scalar_json (Scalar_Bool b) = JBool b"
| "scalar_json Scalar_Null = JNull"

definition scalar :: "rule_operand option \<Rightarrow> json option" where
  "scalar operand = (case operand of Some (Scalar s) \<Rightarrow> Some (scalar_json s) | _ \<Rightarrow> None)"

definition finite_test :: "(js_num \<Rightarrow> js_num \<Rightarrow> bool) \<Rightarrow> json \<Rightarrow> json option \<Rightarrow> bool" where
  "finite_test test actual expected =
     (case actual of
        JNum a \<Rightarrow> (case expected of
            Some (JNum b) \<Rightarrow> is_finite a \<and> is_finite b \<and> test a b
          | _ \<Rightarrow> False)
      | _ \<Rightarrow> False)"

definition string_value :: "json \<Rightarrow> js_string eval" where
  "string_value v = (case string_of v of Some s \<Rightarrow> ret s | None \<Rightarrow> throw Not_Convertible)"

definition expected_text :: "json option \<Rightarrow> js_string eval" where
  "expected_text expected = (case expected of Some v \<Rightarrow> string_value v | None \<Rightarrow> ret ''undefined'')"

definition compare_value ::
  "(js_string \<Rightarrow> js_string \<Rightarrow> js_string \<Rightarrow> bool) \<Rightarrow> rule_operator \<Rightarrow> rule_operand option \<Rightarrow> json \<Rightarrow> bool eval" where
  "compare_value rt operator operand v =
     (let expected = scalar operand in
      case operator of
        Op_Equals \<Rightarrow> ret (Some v = expected)
      | Op_Not_Equals \<Rightarrow> ret (Some v = expected)
      | Op_Contains \<Rightarrow>
          bind_eval (string_value v) (\<lambda>text.
            bind_eval (expected_text expected) (\<lambda>t. ret (text_includes text t)))
      | Op_Matches \<Rightarrow>
          (case operand of
             Some (Regex source flags) \<Rightarrow> bind_eval (string_value v) (\<lambda>text. ret (rt source flags text))
           | _ \<Rightarrow> ret False)
      | Op_Greater \<Rightarrow> ret (finite_test (\<lambda>a b. num_less b a) v expected)
      | Op_Greater_Equal \<Rightarrow> ret (finite_test (\<lambda>a b. num_less b a \<or> num_eq a b) v expected)
      | Op_Less \<Rightarrow> ret (finite_test num_less v expected)
      | Op_Less_Equal \<Rightarrow> ret (finite_test (\<lambda>a b. num_less a b \<or> num_eq a b) v expected)
      | Op_Exists \<Rightarrow> ret False)"

definition compare ::
  "(js_string \<Rightarrow> js_string \<Rightarrow> js_string \<Rightarrow> bool) \<Rightarrow> rule_operator \<Rightarrow> rule_operand option \<Rightarrow> json \<Rightarrow> bool eval" where
  "compare rt operator operand v =
     bind_eval (spend 1) (\<lambda>_.
       bind_eval (case v of JStr s \<Rightarrow> spend (int (length s)) | _ \<Rightarrow> ret ()) (\<lambda>_.
         compare_value rt operator operand v))"

fun any_match :: "(json \<Rightarrow> bool eval) \<Rightarrow> json list \<Rightarrow> bool eval" where
  "any_match test [] = ret False"
| "any_match test (v # vs) = bind_eval (test v) (\<lambda>hit. if hit then ret True else any_match test vs)"

text \<open>The candidates of a selected value: an array stands for its elements.\<close>

definition candidates :: "json \<Rightarrow> json list" where
  "candidates v = (case v of JArr xs \<Rightarrow> xs | _ \<Rightarrow> [v])"

definition regex_ready :: "(js_string \<Rightarrow> js_string \<Rightarrow> bool) \<Rightarrow> rule_operand option \<Rightarrow> unit eval" where
  "regex_ready rv operand =
     (case operand of
        Some (Regex source flags) \<Rightarrow> if rv source flags then ret () else throw Invalid_Regex
      | _ \<Rightarrow> ret ())"

text \<open>\<open>evaluateCondition\<close> once its path is resolved.\<close>

definition judge ::
  "(js_string \<Rightarrow> js_string \<Rightarrow> bool) \<Rightarrow> (js_string \<Rightarrow> js_string \<Rightarrow> js_string \<Rightarrow> bool) \<Rightarrow>
   rule_operator \<Rightarrow> rule_operand option \<Rightarrow> json list \<Rightarrow> bool eval" where
  "judge rv rt operator operand vs =
     (if operator = Op_Exists then ret (list_ex (\<lambda>v. v \<noteq> JNull) vs)
      else bind_eval (regex_ready rv operand) (\<lambda>_.
             bind_eval (any_match (compare rt operator operand) (concat (map candidates vs))) (\<lambda>hit.
               ret (if hit then operator \<noteq> Op_Not_Equals
                    else operator = Op_Not_Equals \<and> vs \<noteq> []))))"

section \<open>Walking a path\<close>

definition append_value :: "json \<Rightarrow> json list eval" where
  "append_value v = bind_eval (spend 1) (\<lambda>_. ret [v])"

fun gather :: "(json \<Rightarrow> json list eval) \<Rightarrow> json list \<Rightarrow> json list eval" where
  "gather f [] = ret []"
| "gather f (v # vs) = bind_eval (f v) (\<lambda>xs. bind_eval (gather f vs) (\<lambda>ys. ret (xs @ ys)))"

definition append_option :: "json option \<Rightarrow> json list eval" where
  "append_option found = (case found of Some x \<Rightarrow> append_value x | None \<Rightarrow> ret [])"

text \<open>
  The stack of the recursive segment, top first. An entry that is no object or array is dropped; one
  that is appends its own property and pushes its children, which are popped last to first.
\<close>

lemma size_list_rev: "size_list f (rev xs) = size_list f xs"
  by (induction xs) (auto simp: size_list_append)

lemma own_values_smaller:
  assumes "own_values v = Some cs"
  shows "size_list size cs < Suc (size v)"
proof (cases v)
  case (JObj ps)
  have "size_list size (map snd ps) \<le> size_list (size_prod (\<lambda>x. 0) size) ps"
    by (induction ps) auto
  with assms JObj show ?thesis by (auto simp: less_Suc_eq_le)
qed (use assms in auto)

function descend :: "js_string \<Rightarrow> json list \<Rightarrow> json list eval" where
  "descend name [] = ret []"
| "descend name (v # stack) =
     bind_eval (spend 1) (\<lambda>_.
       case own_values v of
         None \<Rightarrow> descend name stack
       | Some children \<Rightarrow>
           bind_eval (append_option (own_property v name)) (\<lambda>found.
             bind_eval (gather (\<lambda>_. bind_eval (spend 1) (\<lambda>_. ret [])) children) (\<lambda>_.
               bind_eval (descend name (rev children @ stack)) (\<lambda>others.
                 ret (found @ others)))))"
  by pat_completeness auto
termination
  by (relation "measure (\<lambda>(name, stack). size_list size stack)")
     (auto simp: size_list_append size_list_rev dest: own_values_smaller)

text \<open>
  \<open>resolvePath\<close> folds the segments over the selected values, stopping at an empty selection; a
  filter evaluates its condition on every element of an array, with the same root.
\<close>

definition select_plain :: "rule_segment \<Rightarrow> json \<Rightarrow> json list eval" where
  "select_plain segment v =
     (case segment of
        Property name \<Rightarrow> append_option (own_property v name)
      | Index i \<Rightarrow> (case v of
            JArr xs \<Rightarrow> (if i < length xs then append_value (xs ! i) else ret [])
          | _ \<Rightarrow> ret [])
      | Wildcard \<Rightarrow> (case own_values v of Some cs \<Rightarrow> gather append_value cs | None \<Rightarrow> ret [])
      | Recursive_Property name \<Rightarrow> descend name [v]
      | Filter c \<Rightarrow> ret [])"

definition keep_matching :: "(json \<Rightarrow> bool eval) \<Rightarrow> json \<Rightarrow> json list eval" where
  "keep_matching test v =
     (case v of
        JArr xs \<Rightarrow> gather (\<lambda>x. bind_eval (spend 1) (\<lambda>_.
                     bind_eval (test x) (\<lambda>hit. if hit then append_value x else ret []))) xs
      | _ \<Rightarrow> ret [])"

definition visit :: "(json \<Rightarrow> json list eval) \<Rightarrow> json \<Rightarrow> json list eval" where
  "visit f v = bind_eval (spend 1) (\<lambda>_. f v)"

fun resolvePath ::
    "(js_string \<Rightarrow> js_string \<Rightarrow> bool) \<Rightarrow> (js_string \<Rightarrow> js_string \<Rightarrow> js_string \<Rightarrow> bool) \<Rightarrow>
     rule_path \<Rightarrow> json \<Rightarrow> json \<Rightarrow> json list eval"
and resolve_segments ::
    "(js_string \<Rightarrow> js_string \<Rightarrow> bool) \<Rightarrow> (js_string \<Rightarrow> js_string \<Rightarrow> js_string \<Rightarrow> bool) \<Rightarrow>
     rule_segment list \<Rightarrow> json \<Rightarrow> json list \<Rightarrow> json list eval"
and select_segment ::
    "(js_string \<Rightarrow> js_string \<Rightarrow> bool) \<Rightarrow> (js_string \<Rightarrow> js_string \<Rightarrow> js_string \<Rightarrow> bool) \<Rightarrow>
     rule_segment \<Rightarrow> json \<Rightarrow> json \<Rightarrow> json list eval"
and evaluateCondition ::
    "(js_string \<Rightarrow> js_string \<Rightarrow> bool) \<Rightarrow> (js_string \<Rightarrow> js_string \<Rightarrow> js_string \<Rightarrow> bool) \<Rightarrow>
     rule_condition \<Rightarrow> json \<Rightarrow> json \<Rightarrow> bool eval" where
  "resolvePath rv rt (Rule_Path origin segments) root current =
     resolve_segments rv rt segments root [if origin = Root then root else current]"
| "resolve_segments rv rt [] root vs = ret vs"
| "resolve_segments rv rt (segment # segments) root vs =
     bind_eval (gather (visit (select_segment rv rt segment root)) vs) (\<lambda>next_values.
       if next_values = [] then ret [] else resolve_segments rv rt segments root next_values)"
| "select_segment rv rt (Filter c) root v = keep_matching (evaluateCondition rv rt c root) v"
| "select_segment rv rt (Property name) root v = select_plain (Property name) v"
| "select_segment rv rt (Index i) root v = select_plain (Index i) v"
| "select_segment rv rt Wildcard root v = select_plain Wildcard v"
| "select_segment rv rt (Recursive_Property name) root v = select_plain (Recursive_Property name) v"
| "evaluateCondition rv rt (Condition path operator operand) root current =
     bind_eval (resolvePath rv rt path root current) (judge rv rt operator operand)"

section \<open>Entry points\<close>

fun evaluate_node ::
  "(js_string \<Rightarrow> js_string \<Rightarrow> bool) \<Rightarrow> (js_string \<Rightarrow> js_string \<Rightarrow> js_string \<Rightarrow> bool) \<Rightarrow>
   rule_expression \<Rightarrow> json \<Rightarrow> bool eval" where
  "evaluate_node rv rt (And l r) sample =
     bind_eval (spend 1) (\<lambda>_. bind_eval (evaluate_node rv rt l sample) (\<lambda>b.
       if b then evaluate_node rv rt r sample else ret False))"
| "evaluate_node rv rt (Or l r) sample =
     bind_eval (spend 1) (\<lambda>_. bind_eval (evaluate_node rv rt l sample) (\<lambda>b.
       if b then ret True else evaluate_node rv rt r sample))"
| "evaluate_node rv rt (Cond c) sample =
     bind_eval (spend 1) (\<lambda>_. evaluateCondition rv rt c sample sample)"

text \<open>The result is the answer with the expression's own budget on top of the shared ones.\<close>

definition evaluateCompiledKafkaRuleExpression ::
  "(js_string \<Rightarrow> js_string \<Rightarrow> bool) \<Rightarrow> (js_string \<Rightarrow> js_string \<Rightarrow> js_string \<Rightarrow> bool) \<Rightarrow>
   rule_expression \<Rightarrow> json \<Rightarrow> bool eval" where
  "evaluateCompiledKafkaRuleExpression rv rt e sample shared =
     evaluate_node rv rt e sample (new_budget evaluation_work shared)"

definition readKafkaProjectionPath ::
  "(js_string \<Rightarrow> js_string \<Rightarrow> bool) \<Rightarrow> (js_string \<Rightarrow> js_string \<Rightarrow> js_string \<Rightarrow> bool) \<Rightarrow>
   rule_segment list \<Rightarrow> json \<Rightarrow> json option eval" where
  "readKafkaProjectionPath rv rt segments root =
     bind_eval (spend 1) (\<lambda>_.
       bind_eval (resolvePath rv rt (Rule_Path Root segments) root root) (\<lambda>vs.
         ret (case vs of [] \<Rightarrow> None | v # _ \<Rightarrow> Some v)))"

end
