(* ===== verification/Rule_Parsing.thy ===== *)
theory Rule_Parsing
  imports Rule_Parser
begin

text \<open>
  Total correctness of the rule parser: with the fuel of the entry points it always answers, every
  error position lies inside the source, and every accepted expression is well formed: the bounds on
  conditions and path segments hold, every regular expression has passed the safety scan, and
  operators and operands agree.
\<close>

section \<open>Well-formed syntax\<close>

fun conds_path :: "rule_path \<Rightarrow> nat" and conds_segment :: "rule_segment \<Rightarrow> nat"
and conds_condition :: "rule_condition \<Rightarrow> nat" where
  "conds_path (Rule_Path origin segments) = sum_list (map conds_segment segments)"
| "conds_segment (Filter c) = conds_condition c"
| "conds_segment (Property name) = 0"
| "conds_segment (Index i) = 0"
| "conds_segment Wildcard = 0"
| "conds_segment (Recursive_Property name) = 0"
| "conds_condition (Condition path operator operand) = Suc (conds_path path)"

fun conds :: "rule_expression \<Rightarrow> nat" where
  "conds (Cond c) = conds_condition c"
| "conds (And l r) = conds l + conds r"
| "conds (Or l r) = conds l + conds r"

definition safe_regex_operand :: "(js_string \<Rightarrow> js_string \<Rightarrow> bool) \<Rightarrow> js_string \<Rightarrow> js_string \<Rightarrow> bool" where
  "safe_regex_operand rv source flags \<longleftrightarrow>
     length source \<le> limit_regex \<and> valid_flags flags
     \<and> regex_scan None False False source = None \<and> rv source flags"

fun operand_agrees ::
  "(js_string \<Rightarrow> js_string \<Rightarrow> bool) \<Rightarrow> rule_operator \<Rightarrow> rule_operand option \<Rightarrow> bool" where
  "operand_agrees rv op None = (op = Op_Exists)"
| "operand_agrees rv op (Some (Regex source flags)) =
     (op = Op_Matches \<and> safe_regex_operand rv source flags)"
| "operand_agrees rv op (Some (Scalar (Scalar_Number n))) =
     (op \<notin> {Op_Exists, Op_Matches, Op_Contains} \<and> is_finite n)"
| "operand_agrees rv op (Some (Scalar v)) = (op \<notin> {Op_Exists, Op_Matches})"

fun wf_path :: "(js_string \<Rightarrow> js_string \<Rightarrow> bool) \<Rightarrow> path_origin \<Rightarrow> rule_path \<Rightarrow> bool"
and wf_segment :: "(js_string \<Rightarrow> js_string \<Rightarrow> bool) \<Rightarrow> rule_segment \<Rightarrow> bool"
and wf_condition :: "(js_string \<Rightarrow> js_string \<Rightarrow> bool) \<Rightarrow> path_origin \<Rightarrow> rule_condition \<Rightarrow> bool" where
  "wf_path rv origin (Rule_Path origin' segments) =
     (origin' = origin \<and> length segments \<le> limit_segments \<and> list_all (wf_segment rv) segments)"
| "wf_segment rv (Filter c) = wf_condition rv Current c"
| "wf_segment rv (Index i) = (int i \<le> max_safe_integer)"
| "wf_segment rv (Recursive_Property name) = (name \<noteq> [] \<and> list_all is_word name)"
| "wf_segment rv (Property name) = True"
| "wf_segment rv Wildcard = True"
| "wf_condition rv origin (Condition path operator operand) =
     (wf_path rv origin path \<and> operand_agrees rv operator operand)"

fun wf_expression :: "(js_string \<Rightarrow> js_string \<Rightarrow> bool) \<Rightarrow> rule_expression \<Rightarrow> bool" where
  "wf_expression rv (Cond c) = wf_condition rv Root c"
| "wf_expression rv (And l r) = (wf_expression rv l \<and> wf_expression rv r)"
| "wf_expression rv (Or l r) = (wf_expression rv l \<and> wf_expression rv r)"

section \<open>Triples for parser steps\<close>

text \<open>
  \<open>within T L p\<close>: the state \<open>p\<close> reads a source of length \<open>T\<close> and at most \<open>L\<close> characters are left.
  \<open>valid T Q r\<close>: the result is an error positioned inside the source, or a value satisfying \<open>Q\<close>.
\<close>

definition within :: "nat \<Rightarrow> nat \<Rightarrow> parser \<Rightarrow> bool" where
  "within T L p \<longleftrightarrow> index p + length (rest p) = T \<and> length (rest p) \<le> L \<and> conditionCount p \<le> limit_conditions"

definition error_within :: "nat \<Rightarrow> parse_error \<Rightarrow> bool" where
  "error_within T e \<longleftrightarrow> (\<exists>position detail. e = expression_error position detail \<and> position \<le> T)"

definition valid :: "nat \<Rightarrow> ('a \<Rightarrow> parser \<Rightarrow> bool) \<Rightarrow> 'a parsed \<Rightarrow> bool" where
  "valid T Q r \<longleftrightarrow> (case r of Inl e \<Rightarrow> error_within T e | Inr (a, p) \<Rightarrow> Q a p)"

lemma valid_Inr [simp]: "valid T Q (Inr (a, p)) = Q a p"
  by (simp add: valid_def)

lemma valid_Inl [simp]: "valid T Q (Inl e) = error_within T e"
  by (simp add: valid_def)

lemma error_within_expression [simp]: "position \<le> T \<Longrightarrow> error_within T (expression_error position detail)"
  by (auto simp: error_within_def)

lemma valid_fail [simp]: "index p \<le> T \<Longrightarrow> valid T Q (fail detail p)"
  by (simp add: fail_def)

lemma valid_fail_at [simp]: "position \<le> T \<Longrightarrow> valid T Q (fail_at position detail)"
  by (simp add: fail_at_def)

lemma valid_and_then:
  assumes "valid T Q r" and "\<And>a p. Q a p \<Longrightarrow> valid T R (f a p)"
  shows "valid T R (and_then r f)"
proof (cases r)
  case (Inl e)
  with assms(1) show ?thesis by (simp add: and_then_def)
next
  case (Inr ap)
  with assms show ?thesis by (cases ap) (simp add: and_then_def)
qed

lemma valid_mono: "valid T Q r \<Longrightarrow> (\<And>a p. Q a p \<Longrightarrow> R a p) \<Longrightarrow> valid T R r"
  by (auto simp: valid_def split: sum.splits)

lemma within_index [simp]: "within T L p \<Longrightarrow> index p \<le> T"
  by (auto simp: within_def)

lemma within_mono: "within T L p \<Longrightarrow> L \<le> M \<Longrightarrow> within T M p"
  by (auto simp: within_def)

lemma advance_simps [simp]:
  "conditionCount (advance k p) = conditionCount p"
  "rest (advance k p) = drop k (rest p)"
  "index (advance k p) = index p + k"
  by (simp_all add: advance_def)

lemma within_advance: "within T L p \<Longrightarrow> k \<le> length (rest p) \<Longrightarrow> within T (L - k) (advance k p)"
  by (auto simp: within_def)

lemma within_advance_le: "within T L p \<Longrightarrow> k \<le> length (rest p) \<Longrightarrow> within T L (advance k p)"
  by (auto simp: within_def)

lemma within_skip [simp]: "within T L p \<Longrightarrow> within T L (skipWhitespace p)"
  unfolding skipWhitespace_def by (rule within_advance_le) (auto simp: length_takeWhile_le)

lemma count_skip [simp]: "conditionCount (skipWhitespace p) = conditionCount p"
  by (simp add: skipWhitespace_def)

lemma startsWith_length: "startsWith token p \<Longrightarrow> length token \<le> length (rest p)"
  unfolding startsWith_def by (metis length_take min.cobounded1)

lemma consume_within:
  "consume token p = Some q \<Longrightarrow> within T L p \<Longrightarrow>
   within T (L - length token) q \<and> length token \<le> L \<and> conditionCount q = conditionCount p"
  using startsWith_length [of token p]
  by (auto simp: consume_def within_def split: if_splits)

lemma consumeWord_advance:
  "consumeWord token p = Some q \<Longrightarrow> startsWith token p \<and> q = advance (length token) p"
  by (auto simp: consumeWord_def split: if_splits list.splits)

lemma consumeWord_within:
  "consumeWord token p = Some q \<Longrightarrow> within T L p \<Longrightarrow>
   within T (L - length token) q \<and> length token \<le> L \<and> conditionCount q = conditionCount p"
  using startsWith_length [of token p]
  by (auto simp: within_def dest!: consumeWord_advance)

lemma valid_expect:
  assumes "within T L p"
  shows "valid T (\<lambda>_ q. within T (L - length token) q \<and> length token \<le> L
                        \<and> conditionCount q = conditionCount p) (expect token detail p)"
  using assms by (auto simp: expect_def dest: consume_within split: option.split)

lemma valid_identifier:
  assumes "within T L p"
  shows "valid T (\<lambda>name q. within T L q \<and> conditionCount q = conditionCount p
                            \<and> name \<noteq> [] \<and> list_all is_word name) (parseIdentifier message p)"
proof (cases "rest p")
  case Nil
  then show ?thesis using assms by (simp add: parseIdentifier_def)
next
  case (Cons c cs)
  have "length (c # takeWhile is_word cs) \<le> length (rest p)"
    using Cons by (simp add: length_takeWhile_le)
  then show ?thesis
    using assms Cons within_advance_le [of T L p "length (c # takeWhile is_word cs)"]
    by (auto simp: parseIdentifier_def is_word_def list_all_iff dest: set_takeWhileD)
qed

section \<open>Literals\<close>

lemma take_digits_le: "length (take_digits s) \<le> length s"
  by (simp add: take_digits_def length_takeWhile_le)

lemma match_number_length:
  assumes "match_number s = Some l"
  shows "lexeme_length l \<le> length s \<and> lex_integer l \<noteq> []"
proof -
  define s1 where "s1 = (if take 1 s = ''-'' then drop 1 s else s)"
  define s2 where "s2 = drop (length (integer_part s1)) s1"
  define s3 where "s3 = drop (length (fraction_part s2)) s2"
  have i: "length (integer_part t) \<le> length t" for t
    by (auto simp: integer_part_def take_digits_le split: list.split)
  have f: "length (fraction_part t) \<le> length t" for t
    by (auto simp: fraction_part_def take_digits_le split: list.split)
  have "length (exponent_sign cs) \<le> length cs" for cs
    by (auto simp: exponent_sign_def split: list.split)
  then have "length (exponent_sign cs) + length (take_digits (drop (length (exponent_sign cs)) cs)) \<le> length cs" for cs
    using take_digits_le [of "drop (length (exponent_sign cs)) cs"] by (simp add: le_diff_conv2)
  then have e: "length (exponent_part t) \<le> length t" for t
    by (auto simp: exponent_part_def Let_def split: list.split)
  have "(if take 1 s = ''-'' then 1 else 0) + length s1 \<le> length s"
    by (cases s) (auto simp: s1_def)
  moreover have "length (integer_part s1) + length s2 \<le> length s1"
    using i [of s1] by (simp add: s2_def)
  moreover have "length (fraction_part s2) + length s3 \<le> length s2"
    using f [of s2] by (simp add: s3_def)
  moreover have "integer_part s1 \<noteq> []"
    and "l = \<lparr>lex_negative = (take 1 s = ''-''), lex_integer = integer_part s1,
               lex_fraction = fraction_part s2, lex_exponent = exponent_part s3\<rparr>"
    using assms unfolding match_number_def Let_def
    by (simp_all only: s1_def [symmetric] s2_def [symmetric] s3_def [symmetric] split: if_splits) simp_all
  ultimately show ?thesis
    using e [of s3] by (simp add: lexeme_length_def)
qed

lemma valid_number:
  assumes "within T L p"
  shows "valid T (\<lambda>numeric q. within T L q \<and> conditionCount q = conditionCount p
                               \<and> (\<forall>n. numeric = Some n \<longrightarrow> is_finite n)) (parseNumber p)"
  using assms within_advance_le [of T L p]
  by (auto simp: parseNumber_def Let_def dest: match_number_length split: option.split)

lemma quoted_loop_used:
  "quoted_loop quote start acc ok used cs = Inr (v, used') \<Longrightarrow> used' \<le> used + length cs"
proof (induction quote start acc ok used cs arbitrary: v used' rule: quoted_loop.induct)
  case (1 quote start acc ok used)
  then show ?case by simp
next
  case (2 quote start acc ok used c cs)
  show ?case
  proof (cases "c = quote \<or> c \<noteq> CHR 0x5C")
    case True
    then show ?thesis using "2.prems" "2.IH"(1) [of v used'] by (auto split: if_splits)
  next
    case False
    then show ?thesis using "2.prems" "2.IH"(2) [of _ _ _ v used']
      by (fastforce split: list.splits option.splits)
  qed
qed

lemma quoted_loop_error:
  "quoted_loop quote start acc ok used cs = Inl e \<Longrightarrow> \<exists>detail. e = expression_error start detail"
proof (induction quote start acc ok used cs arbitrary: e rule: quoted_loop.induct)
  case (1 quote start acc ok used)
  then show ?case by auto
next
  case (2 quote start acc ok used c cs)
  show ?case
  proof (cases "c = quote \<or> c \<noteq> CHR 0x5C")
    case True
    then show ?thesis using "2.prems" "2.IH"(1) [of e] by (auto split: if_splits)
  next
    case False
    then show ?thesis using "2.prems" "2.IH"(2) [of _ _ _ e]
      by (fastforce split: list.splits option.splits)
  qed
qed

lemma valid_quoted:
  assumes "within T L p"
  shows "valid T (\<lambda>_ q. within T L q \<and> conditionCount q = conditionCount p) (parseQuotedString p)"
proof (cases "rest p")
  case Nil
  then show ?thesis using assms by (simp add: parseQuotedString_def)
next
  case (Cons c cs)
  show ?thesis
  proof (cases "quoted_loop c (index p) [] True 1 cs")
    case (Inl e)
    then show ?thesis
      using assms Cons quoted_loop_error [OF Inl] by (auto simp: parseQuotedString_def)
  next
    case (Inr r)
    obtain v used where r: "r = (v, used)" by (cases r)
    have "used \<le> length (rest p)"
      using quoted_loop_used [of c "index p" "[]" True 1 cs v used] Inr r Cons by simp
    then show ?thesis
      using assms Cons Inr r within_advance_le [OF assms] by (simp add: parseQuotedString_def)
  qed
qed

lemma valid_safeRegex:
  assumes "within T L p"
  shows "valid T (\<lambda>operand q. q = p \<and> (\<exists>source flags. operand = Regex source flags
                     \<and> safe_regex_operand rv source flags)) (safeRegex rv source flags p)"
  using assms by (auto simp: safeRegex_def safe_regex_operand_def split: option.split)

lemma regex_end_bound: "regex_end esc cls used cs = Some n \<Longrightarrow> n < used + length cs"
  by (induction esc cls used cs rule: regex_end.induct) (auto split: if_splits)

lemma valid_regex_literal:
  assumes "within T L p"
  shows "valid T (\<lambda>operand q. within T L q \<and> conditionCount q = conditionCount p
             \<and> (\<exists>source flags. operand = Regex source flags \<and> safe_regex_operand rv source flags))
           (parseRegexLiteral rv p)"
  unfolding parseRegexLiteral_def
proof (rule valid_and_then [OF valid_expect [OF assms]])
  fix a q
  assume "within T (L - length ''/'') q \<and> length ''/'' \<le> L \<and> conditionCount q = conditionCount p"
  then have q: "within T L q" "conditionCount q = conditionCount p"
    by (auto intro: within_mono)
  show "valid T (\<lambda>operand q. within T L q \<and> conditionCount q = conditionCount p
             \<and> (\<exists>source flags. operand = Regex source flags \<and> safe_regex_operand rv source flags))
          (case regex_end False False 0 (rest q) of
             None \<Rightarrow> fail ''Unterminated regular-expression literal.'' (advance (length (rest q)) q)
           | Some n \<Rightarrow> let source = take n (rest q); after = advance (n + 1) q;
                         flags = takeWhile is_letter (rest after)
                     in safeRegex rv source flags (advance (length flags) after))"
  proof (cases "regex_end False False 0 (rest q)")
    case None
    then show ?thesis using q by (simp add: within_def)
  next
    case (Some n)
    define after where "after = advance (n + 1) q"
    define final where "final = advance (length (takeWhile is_letter (rest after))) after"
    have "within T L after"
      using regex_end_bound [OF Some] q(1) unfolding after_def by (intro within_advance_le) auto
    then have "within T L final"
      unfolding final_def by (rule within_advance_le) (simp add: length_takeWhile_le)
    moreover have "conditionCount final = conditionCount p"
      using q(2) by (simp add: final_def after_def)
    ultimately have "valid T (\<lambda>operand q. within T L q \<and> conditionCount q = conditionCount p
             \<and> (\<exists>source flags. operand = Regex source flags \<and> safe_regex_operand rv source flags))
          (safeRegex rv (take n (rest q)) (takeWhile is_letter (rest after)) final)"
      by (intro valid_mono [OF valid_safeRegex]) auto
    then show ?thesis
      by (simp add: Some Let_def after_def final_def)
  qed
qed

section \<open>Operators and operands\<close>

lemma first_token_within:
  assumes "\<And>token q. take_token token p = Some q \<Longrightarrow> within T L q \<and> conditionCount q = conditionCount p"
    and "first_token tokens take_token p = Some (op, q)"
  shows "within T L q \<and> conditionCount q = conditionCount p"
  using assms by (induction tokens take_token p rule: first_token.induct) (auto split: option.splits)

lemma valid_operator:
  assumes "within T L p"
  shows "valid T (\<lambda>_ q. within T L q \<and> conditionCount q = conditionCount p) (parseOperator p)"
proof -
  have w: "within T L (skipWhitespace p)" using assms by simp
  have c: "consume token (skipWhitespace p) = Some q \<Longrightarrow>
      within T L q \<and> conditionCount q = conditionCount (skipWhitespace p)" for token q
    using consume_within [OF _ w, of token q] within_mono [of T "L - length token" q L] by simp
  have cw: "consumeWord token (skipWhitespace p) = Some q \<Longrightarrow>
      within T L q \<and> conditionCount q = conditionCount (skipWhitespace p)" for token q
    using consumeWord_within [OF _ w, of token q] within_mono [of T "L - length token" q L] by simp
  show ?thesis
    using first_token_within [of consume, OF c] first_token_within [of consumeWord, OF cw] w
    by (auto simp: parseOperator_def Let_def split: option.split)
qed

lemma keyword_scalar_within:
  "keyword_scalar tokens p = Some (v, q) \<Longrightarrow> within T L p \<Longrightarrow>
   within T L q \<and> conditionCount q = conditionCount p \<and> v \<in> set (map snd tokens)"
  by (induction tokens p rule: keyword_scalar.induct)
     (auto split: option.splits dest: consumeWord_within intro: within_mono)

lemma valid_operand:
  assumes w: "within T L p" and op: "operator \<noteq> Op_Exists"
  shows "valid T (\<lambda>operand q. within T L q \<and> conditionCount q = conditionCount p
                    \<and> operand_agrees rv operator (Some operand)) (parseOperand rv operator p)"
proof -
  let ?p = "skipWhitespace p"
  let ?keywords = "[(''true'', Scalar_Bool True), (''false'', Scalar_Bool False), (''null'', Scalar_Null)]"
  have w': "within T L ?p" using w by simp
  consider "peek ?p = Some (CHR ''/'')"
    | "peek ?p \<noteq> Some (CHR ''/'')" "peek ?p = Some (CHR 0x22) \<or> peek ?p = Some (CHR 0x27)"
    | v q where "peek ?p \<noteq> Some (CHR ''/'')" "\<not> (peek ?p = Some (CHR 0x22) \<or> peek ?p = Some (CHR 0x27))"
        "keyword_scalar ?keywords ?p = Some (v, q)"
    | "peek ?p \<noteq> Some (CHR ''/'')" "\<not> (peek ?p = Some (CHR 0x22) \<or> peek ?p = Some (CHR 0x27))"
        "keyword_scalar ?keywords ?p = None"
    by (cases "keyword_scalar ?keywords ?p") auto
  then show ?thesis
  proof cases
    case 1
    then show ?thesis
      using w' valid_regex_literal [OF w', of rv]
      by (auto simp: parseOperand_def Let_def elim!: valid_mono)
  next
    case 2
    have "valid T (\<lambda>operand q. within T L q \<and> conditionCount q = conditionCount p
                    \<and> operand_agrees rv operator (Some operand))
            (and_then (parseQuotedString ?p) (\<lambda>value q.
               if operator = Op_Matches then safeRegex rv value [] q
               else Inr (Scalar (Scalar_String value), q)))"
      by (rule valid_and_then [OF valid_quoted [OF w']])
         (use op in \<open>auto intro: valid_mono [OF valid_safeRegex]\<close>)
    with 2 show ?thesis by (simp add: parseOperand_def Let_def)
  next
    case 3
    have v: "v \<in> {Scalar_Bool True, Scalar_Bool False, Scalar_Null}"
      and q: "within T L q" "conditionCount q = conditionCount p"
      using keyword_scalar_within [OF 3(3) w'] by auto
    have "operand_agrees rv operator (Some (Scalar v)) = (operator \<noteq> Op_Matches)"
      using v op by auto
    with 3 q show ?thesis by (simp add: parseOperand_def Let_def del: keyword_scalar.simps)
  next
    case 4
    have "valid T (\<lambda>operand q. within T L q \<and> conditionCount q = conditionCount p
                    \<and> operand_agrees rv operator (Some operand))
            (and_then (parseNumber ?p) (\<lambda>numeric q.
            case numeric of
              Some n \<Rightarrow>
                if operator = Op_Matches \<or> operator = Op_Contains
                then fail (operator_text operator @ '' requires a string operand.'') q
                else Inr (Scalar (Scalar_Number n), q)
            | None \<Rightarrow> fail ''Expected a JSON scalar or safe regular-expression literal.'' q))"
      by (rule valid_and_then [OF valid_number [OF w']]) (use op in \<open>auto split: option.split\<close>)
    with 4 show ?thesis by (simp add: parseOperand_def Let_def del: keyword_scalar.simps)
  qed
qed

section \<open>Paths and filters\<close>

text \<open>\<open>ends T L p c w\<close>: the new state is still inside, has counted \<open>c a\<close> more conditions, and \<open>w a\<close>.\<close>

definition ends :: "nat \<Rightarrow> nat \<Rightarrow> parser \<Rightarrow> ('a \<Rightarrow> nat) \<Rightarrow> ('a \<Rightarrow> bool) \<Rightarrow> 'a \<Rightarrow> parser \<Rightarrow> bool" where
  "ends T L p c w a q \<longleftrightarrow> within T L q \<and> conditionCount q = conditionCount p + c a \<and> w a"

lemma valid_count:
  assumes "within T L p"
  shows "valid T (\<lambda>_ q. within T L q \<and> conditionCount q = Suc (conditionCount p)) (countCondition p)"
  using assms by (auto simp: countCondition_def Let_def within_def fail_def)

lemma valid_expect_le:
  assumes "within T L p"
  shows "valid T (\<lambda>_ q. within T L q \<and> conditionCount q = conditionCount p)
           (expect token detail (skipWhitespace p))"
proof (rule valid_mono [OF valid_expect])
  show "within T L (skipWhitespace p)" using assms by simp
next
  fix a :: unit and q
  assume "within T (L - length token) q \<and> length token \<le> L
          \<and> conditionCount q = conditionCount (skipWhitespace p)"
  then show "within T L q \<and> conditionCount q = conditionCount p"
    by (auto intro: within_mono)
qed

lemma valid_array_index:
  assumes "within T L p"
  shows "valid T (ends T L p conds_segment (wf_segment rv)) (array_index p)"
proof (cases "take_digits (rest p) = [] \<or> int (digits_value (take_digits (rest p))) > max_safe_integer")
  case True
  then show ?thesis using assms by (auto simp: array_index_def Let_def)
next
  case False
  define q where "q = advance (length (take_digits (rest p))) p"
  have q: "within T L q" "conditionCount q = conditionCount p"
    using within_advance_le [OF assms take_digits_le] by (simp_all add: q_def)
  have "valid T (ends T L p conds_segment (wf_segment rv))
         (and_then (expect '']'' ''Expected ']' after array index.'' (skipWhitespace q))
             (\<lambda>_ r. Inr (Index (digits_value (take_digits (rest p))), r)))"
    by (rule valid_and_then [OF valid_expect_le [OF q(1)]]) (use False q in \<open>simp add: ends_def\<close>)
  with False show ?thesis by (simp add: array_index_def Let_def q_def)
qed

lemma valid_condition_tail:
  assumes w: "within T L p" and path: "wf_path rv origin path"
    and c: "conditionCount p = Suc k + conds_path path"
  shows "valid T (\<lambda>a q. within T L q \<and> conditionCount q = k + conds_condition a \<and> wf_condition rv origin a)
           (condition_tail rv path p)"
  unfolding condition_tail_def
proof (rule valid_and_then [OF valid_operator [OF w]])
  fix operator q
  assume q: "within T L q \<and> conditionCount q = conditionCount p"
  show "valid T (\<lambda>a q. within T L q \<and> conditionCount q = k + conds_condition a \<and> wf_condition rv origin a)
          (if operator = Op_Exists then Inr (Condition path Op_Exists None, q)
           else and_then (parseOperand rv operator q)
                  (\<lambda>operand r. Inr (Condition path operator (Some operand), r)))"
  proof (cases "operator = Op_Exists")
    case True
    then show ?thesis using q path c by simp
  next
    case False
    have "valid T (\<lambda>a q. within T L q \<and> conditionCount q = k + conds_condition a \<and> wf_condition rv origin a)
           (and_then (parseOperand rv operator q)
                  (\<lambda>operand r. Inr (Condition path operator (Some operand), r)))"
      by (rule valid_and_then [OF valid_operand]) (use False q path c in auto)
    with False show ?thesis by simp
  qed
qed

lemma valid_step_leaf:
  assumes w: "within T L p" and k: "0 < k" "k \<le> length (rest p)"
    and f: "\<And>name. name \<noteq> [] \<Longrightarrow> list_all is_word name \<Longrightarrow> conds_segment (f name) = 0 \<and> wf_segment rv (f name)"
  shows "valid T (ends T (L - 1) p conds_segment (wf_segment rv))
           (and_then (parseIdentifier message (advance k p)) (\<lambda>name q. Inr (f name, q)))"
proof -
  have "within T (L - 1) (advance k p)"
    using within_advance [OF w k(2)] k(1) by (auto intro: within_mono)
  then show ?thesis
    by (intro valid_and_then [OF valid_identifier]) (auto simp: ends_def f)
qed

text \<open>What each method of the path grammar achieves with fuel \<open>n\<close>.\<close>

definition path_ok :: "nat \<Rightarrow> (js_string \<Rightarrow> js_string \<Rightarrow> bool) \<Rightarrow> nat \<Rightarrow> bool" where
  "path_ok T rv n \<longleftrightarrow> (\<forall>L p origin. within T L p \<longrightarrow> 8 * L + 1 \<le> n \<longrightarrow>
     valid T (ends T L p conds_path (wf_path rv origin)) (parsePath rv n origin p))"

definition segments_ok :: "(js_string \<Rightarrow> js_string \<Rightarrow> bool) \<Rightarrow> rule_segment list \<Rightarrow> bool" where
  "segments_ok rv ss \<longleftrightarrow> length ss \<le> limit_segments \<and> list_all (wf_segment rv) ss"

definition loop_ok :: "nat \<Rightarrow> (js_string \<Rightarrow> js_string \<Rightarrow> bool) \<Rightarrow> nat \<Rightarrow> bool" where
  "loop_ok T rv n \<longleftrightarrow> (\<forall>L p ss. within T L p \<longrightarrow> 8 * L + 2 \<le> n \<longrightarrow> segments_ok rv ss \<longrightarrow>
     valid T (\<lambda>ts q. within T L q \<and> segments_ok rv ts \<and>
        conditionCount q + sum_list (map conds_segment ss)
          = conditionCount p + sum_list (map conds_segment ts)) (path_loop rv n ss p))"

definition step_ends :: "nat \<Rightarrow> nat \<Rightarrow> parser \<Rightarrow> (js_string \<Rightarrow> js_string \<Rightarrow> bool) \<Rightarrow>
    rule_segment option \<Rightarrow> parser \<Rightarrow> bool" where
  "step_ends T L p rv s q \<longleftrightarrow> (case s of
       None \<Rightarrow> within T L q \<and> conditionCount q = conditionCount p
     | Some g \<Rightarrow> 0 < L \<and> ends T (L - 1) p conds_segment (wf_segment rv) g q)"

definition step_ok :: "nat \<Rightarrow> (js_string \<Rightarrow> js_string \<Rightarrow> bool) \<Rightarrow> nat \<Rightarrow> bool" where
  "step_ok T rv n \<longleftrightarrow> (\<forall>L p. within T L p \<longrightarrow> 8 * L + 1 \<le> n \<longrightarrow>
     valid T (step_ends T L p rv) (path_step rv n p))"

definition bracket_ok :: "nat \<Rightarrow> (js_string \<Rightarrow> js_string \<Rightarrow> bool) \<Rightarrow> nat \<Rightarrow> bool" where
  "bracket_ok T rv n \<longleftrightarrow> (\<forall>L p. within T L p \<longrightarrow> 8 * L + 1 \<le> n \<longrightarrow>
     valid T (ends T L p conds_segment (wf_segment rv)) (parseBracketSegment rv n p))"

definition filter_ok :: "nat \<Rightarrow> (js_string \<Rightarrow> js_string \<Rightarrow> bool) \<Rightarrow> nat \<Rightarrow> bool" where
  "filter_ok T rv n \<longleftrightarrow> (\<forall>L p. within T L p \<longrightarrow> 8 * L + 2 \<le> n \<longrightarrow>
     valid T (ends T L p conds_condition (wf_condition rv Current)) (parseFilterCondition rv n p))"

lemma path_ok_Suc:
  assumes "loop_ok T rv n"
  shows "path_ok T rv (Suc n)"
  unfolding path_ok_def
proof (intro allI impI)
  fix L p origin
  assume w: "within T L p" and n: "8 * L + 1 \<le> Suc n"
  have ws: "within T L (skipWhitespace p)" using w by simp
  have one: "length (origin_token origin) = 1" by (cases origin) auto
  show "valid T (ends T L p conds_path (wf_path rv origin)) (parsePath rv (Suc n) origin p)"
    unfolding parsePath.simps
  proof (rule valid_and_then [OF valid_expect [OF ws]])
    fix a :: unit and q
    assume "within T (L - length (origin_token origin)) q \<and> length (origin_token origin) \<le> L
            \<and> conditionCount q = conditionCount (skipWhitespace p)"
    then have q: "within T (L - 1) q" "1 \<le> L" "conditionCount q = conditionCount p"
      using one by auto
    have "8 * (L - 1) + 2 \<le> n" using n q(2) by linarith
    moreover have "segments_ok rv []" by (simp add: segments_ok_def)
    ultimately have "valid T (\<lambda>ts r. within T (L - 1) r \<and> segments_ok rv ts \<and>
        conditionCount r + sum_list (map conds_segment [])
          = conditionCount q + sum_list (map conds_segment ts)) (path_loop rv n [] q)"
      using assms q(1) unfolding loop_ok_def by blast
    then show "valid T (ends T L p conds_path (wf_path rv origin))
        (and_then (path_loop rv n [] q) (\<lambda>segments r. Inr (Rule_Path origin segments, r)))"
      by (rule valid_and_then) (use q in \<open>auto simp: ends_def segments_ok_def intro: within_mono\<close>)
  qed
qed

lemma loop_ok_Suc:
  assumes step: "step_ok T rv n" and loop: "loop_ok T rv n"
  shows "loop_ok T rv (Suc n)"
  unfolding loop_ok_def
proof (intro allI impI)
  fix L p ss
  assume w: "within T L p" and n: "8 * L + 2 \<le> Suc n" and ss: "segments_ok rv ss"
  let ?Q = "\<lambda>ts q. within T L q \<and> segments_ok rv ts \<and>
        conditionCount q + sum_list (map conds_segment ss)
          = conditionCount p + sum_list (map conds_segment ts)"
  have v: "valid T (step_ends T L p rv) (path_step rv n p)"
    using step w n unfolding step_ok_def by simp
  show "valid T ?Q (path_loop rv (Suc n) ss p)"
    unfolding path_loop.simps
  proof (rule valid_and_then [OF v])
    fix s q
    assume s: "step_ends T L p rv s q"
    show "valid T ?Q (case s of None \<Rightarrow> Inr (ss, q)
       | Some segment \<Rightarrow> if length (ss @ [segment]) > limit_segments
           then fail ''Path exceeds 64 segments.'' q else path_loop rv n (ss @ [segment]) q)"
    proof (cases s)
      case None
      then show ?thesis using s ss by (simp add: step_ends_def)
    next
      case (Some g)
      then have q: "0 < L" "within T (L - 1) q" "wf_segment rv g"
          "conditionCount q = conditionCount p + conds_segment g"
        using s by (auto simp: step_ends_def ends_def)
      show ?thesis
      proof (cases "length (ss @ [g]) > limit_segments")
        case True
        then show ?thesis using Some within_index [OF q(2)] by simp
      next
        case False
        then have "segments_ok rv (ss @ [g])"
          using ss q(3) by (auto simp: segments_ok_def)
        moreover have "8 * (L - 1) + 2 \<le> n" using n q(1) by linarith
        ultimately have "valid T (\<lambda>ts r. within T (L - 1) r \<and> segments_ok rv ts \<and>
           conditionCount r + sum_list (map conds_segment (ss @ [g]))
             = conditionCount q + sum_list (map conds_segment ts)) (path_loop rv n (ss @ [g]) q)"
          using loop q(2) unfolding loop_ok_def by blast
        then have "valid T ?Q (path_loop rv n (ss @ [g]) q)"
          by (rule valid_mono) (use q in \<open>auto intro: within_mono\<close>)
        then show ?thesis using Some False by simp
      qed
    qed
  qed
qed


lemma step_ok_Suc:
  assumes bracket: "bracket_ok T rv n"
  shows "step_ok T rv (Suc n)"
  unfolding step_ok_def
proof (intro allI impI)
  fix L p
  assume w: "within T L p" and n: "8 * L + 1 \<le> Suc n"
  let ?Q = "step_ends T L p rv"
  have leaf: "valid T ?Q (and_then (parseIdentifier message (advance k p)) (\<lambda>name q. Inr (Some (f name), q)))"
    if k: "0 < k" "k \<le> length (rest p)"
      and f: "\<And>name. name \<noteq> [] \<Longrightarrow> list_all is_word name \<Longrightarrow>
                conds_segment (f name) = 0 \<and> wf_segment rv (f name)" for message k f
  proof -
    have a: "within T (L - 1) (advance k p)" and L: "0 < L"
      using within_advance [OF w k(2)] k w by (auto intro: within_mono simp: within_def)
    show ?thesis
      by (rule valid_and_then [OF valid_identifier [OF a]]) (use L f in \<open>auto simp: step_ends_def ends_def\<close>)
  qed
  show "valid T ?Q (path_step rv (Suc n) p)"
  proof (cases "startsWith ''..'' p")
    case True
    then show ?thesis
      using leaf [of 2 Recursive_Property "''Expected a property after recursive descent.''"]
        startsWith_length [OF True] by simp
  next
    case no_descent: False
    show ?thesis
    proof (cases "consume ''.'' p")
      case (Some q)
      have q: "q = advance 1 p" "1 \<le> length (rest p)"
        using Some startsWith_length [of "''.''" p] by (auto simp: consume_def split: if_splits)
      show ?thesis
      proof (cases "consume ''*'' q")
        case (Some r)
        have "within T (L - 1) q" "0 < L"
          using w q within_advance [OF w q(2)] by (auto simp: within_def)
        then have "?Q (Some Wildcard) r"
          using consume_within [OF Some, of T "L - 1"] q
          by (auto simp: step_ends_def ends_def intro: within_mono)
        then show ?thesis using no_descent Some \<open>consume ''.'' p = Some q\<close> by simp
      next
        case None
        then show ?thesis
          using no_descent Some leaf [of 1 Property "''Expected a property after '.'.''"] q by simp
      qed
    next
      case no_dot: None
      show ?thesis
      proof (cases "consume ''['' p")
        case None
        then show ?thesis using no_descent no_dot w by (simp add: step_ends_def)
      next
        case (Some q)
        have q: "within T (L - 1) q" "0 < L" "conditionCount q = conditionCount p"
          using consume_within [OF Some w] by auto
        have "8 * (L - 1) + 1 \<le> n" using n q(2) by linarith
        then have "valid T (ends T (L - 1) q conds_segment (wf_segment rv)) (parseBracketSegment rv n q)"
          using bracket q(1) unfolding bracket_ok_def by blast
        then have "valid T ?Q (and_then (parseBracketSegment rv n q) (\<lambda>segment r. Inr (Some segment, r)))"
          by (rule valid_and_then) (use q in \<open>auto simp: step_ends_def ends_def\<close>)
        then show ?thesis using no_descent no_dot Some by simp
      qed
    qed
  qed
qed

lemma bracket_ok_Suc:
  assumes filter: "filter_ok T rv n"
  shows "bracket_ok T rv (Suc n)"
  unfolding bracket_ok_def
proof (intro allI impI)
  fix L p0
  assume w0: "within T L p0" and n: "8 * L + 1 \<le> Suc n"
  define p where "p = skipWhitespace p0"
  have w: "within T L p" and c: "conditionCount p = conditionCount p0"
    using w0 by (simp_all add: p_def)
  let ?Q = "ends T L p0 conds_segment (wf_segment rv)"
  have close: "valid T ?Q (and_then (expect token detail (skipWhitespace q)) (\<lambda>_ r. Inr (g, r)))"
    if "within T L q" "conditionCount q = conditionCount p + conds_segment g" "wf_segment rv g"
    for token detail q g
    by (rule valid_and_then [OF valid_expect_le [OF that(1)]]) (use that c in \<open>simp add: ends_def\<close>)
  have e: "parseBracketSegment rv (Suc n) p0 =
     (case consume ''*'' p of
        Some q \<Rightarrow> and_then (expect '']'' ''Expected ']' after wildcard.'' (skipWhitespace q))
                    (\<lambda>_ r. Inr (Wildcard, r))
      | None \<Rightarrow>
          (case consume ''?('' p of
             Some q \<Rightarrow>
               and_then (parseFilterCondition rv n q) (\<lambda>condition r.
                 and_then (expect '')'' ''Expected ')' after array filter.'' (skipWhitespace r)) (\<lambda>_ s.
                   and_then (expect '']'' ''Expected ']' after array filter.'' (skipWhitespace s)) (\<lambda>_ t.
                     Inr (Filter condition, t))))
           | None \<Rightarrow>
               if peek p = Some (CHR 0x22) \<or> peek p = Some (CHR 0x27)
               then and_then (parseQuotedString p) (\<lambda>name q.
                      and_then (expect '']'' ''Expected ']' after property.'' (skipWhitespace q))
                        (\<lambda>_ r. Inr (Property name, r)))
               else array_index p))"
    unfolding parseBracketSegment.simps Let_def p_def [symmetric] ..
  show "valid T ?Q (parseBracketSegment rv (Suc n) p0)"
  proof (cases "consume ''*'' p")
    case (Some q)
    have "within T L q" "conditionCount q = conditionCount p"
      using consume_within [OF Some w] by (auto intro: within_mono)
    then show ?thesis unfolding e using Some close [of q Wildcard] by simp
  next
    case no_star: None
    show ?thesis
    proof (cases "consume ''?('' p")
      case (Some q)
      have q: "within T (L - 2) q" "2 \<le> L" "conditionCount q = conditionCount p"
        using consume_within [OF Some w] by (auto simp: numeral_2_eq_2)
      have "8 * (L - 2) + 2 \<le> n" using n q(2) by linarith
      then have f: "valid T (ends T (L - 2) q conds_condition (wf_condition rv Current)) (parseFilterCondition rv n q)"
        using filter q(1) unfolding filter_ok_def by blast
      have "valid T ?Q (and_then (parseFilterCondition rv n q) (\<lambda>condition r.
                 and_then (expect '')'' ''Expected ')' after array filter.'' (skipWhitespace r)) (\<lambda>_ s.
                   and_then (expect '']'' ''Expected ']' after array filter.'' (skipWhitespace s)) (\<lambda>_ t.
                     Inr (Filter condition, t)))))"
      proof (rule valid_and_then [OF f])
        fix condition r
        assume "ends T (L - 2) q conds_condition (wf_condition rv Current) condition r"
        then have r: "within T L r" "conditionCount r = conditionCount p + conds_segment (Filter condition)"
            "wf_segment rv (Filter condition)"
          using q(3) by (auto simp: ends_def intro: within_mono)
        show "valid T ?Q (and_then (expect '')'' ''Expected ')' after array filter.'' (skipWhitespace r)) (\<lambda>_ s.
                   and_then (expect '']'' ''Expected ']' after array filter.'' (skipWhitespace s)) (\<lambda>_ t.
                     Inr (Filter condition, t))))"
          by (rule valid_and_then [OF valid_expect_le [OF r(1)]], rule close) (use r in auto)
      qed
      then show ?thesis unfolding e using no_star Some by simp
    next
      case no_filter: None
      show ?thesis
      proof (cases "peek p = Some (CHR 0x22) \<or> peek p = Some (CHR 0x27)")
        case True
        have "valid T ?Q (and_then (parseQuotedString p) (\<lambda>name q.
                      and_then (expect '']'' ''Expected ']' after property.'' (skipWhitespace q))
                        (\<lambda>_ r. Inr (Property name, r))))"
          by (rule valid_and_then [OF valid_quoted [OF w]], rule close) auto
        then show ?thesis unfolding e using no_star no_filter True by simp
      next
        case False
        have "valid T ?Q (array_index p)"
          by (rule valid_mono [OF valid_array_index [OF w]]) (simp add: ends_def c)
        then show ?thesis unfolding e using no_star no_filter False by simp
      qed
    qed
  qed
qed

lemma filter_ok_Suc:
  assumes path: "path_ok T rv n"
  shows "filter_ok T rv (Suc n)"
  unfolding filter_ok_def parseFilterCondition.simps
proof (intro allI impI, rule valid_and_then [OF valid_count], assumption)
  fix L p a q
  assume w: "within T L p" and n: "8 * L + 2 \<le> Suc n"
    and q: "within T L q \<and> conditionCount q = Suc (conditionCount p)"
  have "valid T (ends T L q conds_path (wf_path rv Current)) (parsePath rv n Current q)"
    using path q n unfolding path_ok_def by simp
  then show "valid T (ends T L p conds_condition (wf_condition rv Current))
      (and_then (parsePath rv n Current q) (\<lambda>path r0.
         let r = skipWhitespace r0 in
         if peek r = Some (CHR '')'') then Inr (Condition path Op_Exists None, r)
         else condition_tail rv path r))"
  proof (rule valid_and_then)
    fix path r
    assume "ends T L q conds_path (wf_path rv Current) path r"
    then have r: "within T L (skipWhitespace r)" "wf_path rv Current path"
        "conditionCount (skipWhitespace r) = Suc (conditionCount p) + conds_path path"
      using q by (auto simp: ends_def)
    have "valid T (ends T L p conds_condition (wf_condition rv Current)) (condition_tail rv path (skipWhitespace r))"
      by (rule valid_mono [OF valid_condition_tail [OF r]]) (simp add: ends_def)
    then show "valid T (ends T L p conds_condition (wf_condition rv Current))
        (let r = skipWhitespace r in if peek r = Some (CHR '')'') then Inr (Condition path Op_Exists None, r)
         else condition_tail rv path r)"
      using r by (simp add: ends_def Let_def)
  qed
qed

lemma path_grammar_ok:
  "path_ok T rv n \<and> loop_ok T rv n \<and> step_ok T rv n \<and> bracket_ok T rv n \<and> filter_ok T rv n"
proof (induction n)
  case 0
  show ?case
    by (simp add: path_ok_def loop_ok_def step_ok_def bracket_ok_def filter_ok_def)
next
  case (Suc n)
  then show ?case
    by (simp add: path_ok_Suc loop_ok_Suc step_ok_Suc bracket_ok_Suc filter_ok_Suc)
qed


section \<open>Conditions, conjunctions and disjunctions\<close>

lemma valid_parseCondition:
  assumes w: "within T L p" and n: "8 * L + 1 \<le> n"
  shows "valid T (ends T L p conds_condition (wf_condition rv Root)) (parseCondition rv n p)"
  unfolding parseCondition_def
proof (rule valid_and_then [OF valid_count [OF w]])
  fix a q
  assume q: "within T L q \<and> conditionCount q = Suc (conditionCount p)"
  have "valid T (ends T L q conds_path (wf_path rv Root)) (parsePath rv n Root q)"
    using path_grammar_ok [of T rv n] q n unfolding path_ok_def by simp
  then show "valid T (ends T L p conds_condition (wf_condition rv Root))
      (and_then (parsePath rv n Root q) (\<lambda>path r0.
         let r = skipWhitespace r0 in
         if conditionEnded r then Inr (Condition path Op_Exists None, r)
         else condition_tail rv path r))"
  proof (rule valid_and_then)
    fix path r
    assume "ends T L q conds_path (wf_path rv Root) path r"
    then have r: "within T L (skipWhitespace r)" "wf_path rv Root path"
        "conditionCount (skipWhitespace r) = Suc (conditionCount p) + conds_path path"
      using q by (auto simp: ends_def)
    have "valid T (ends T L p conds_condition (wf_condition rv Root)) (condition_tail rv path (skipWhitespace r))"
      by (rule valid_mono [OF valid_condition_tail [OF r]]) (simp add: ends_def)
    then show "valid T (ends T L p conds_condition (wf_condition rv Root))
        (let r = skipWhitespace r in if conditionEnded r then Inr (Condition path Op_Exists None, r)
         else condition_tail rv path r)"
      using r by (simp add: ends_def Let_def)
  qed
qed

definition parses :: "nat \<Rightarrow> (js_string \<Rightarrow> js_string \<Rightarrow> bool) \<Rightarrow> nat \<Rightarrow> nat \<Rightarrow> (parser \<Rightarrow> rule_expression parsed) \<Rightarrow> bool" where
  "parses T rv n slack parse \<longleftrightarrow> (\<forall>L p. within T L p \<longrightarrow> 8 * L + slack \<le> n \<longrightarrow>
     valid T (ends T L p conds (wf_expression rv)) (parse p))"

definition continues :: "nat \<Rightarrow> (js_string \<Rightarrow> js_string \<Rightarrow> bool) \<Rightarrow> nat \<Rightarrow> nat \<Rightarrow>
    (rule_expression \<Rightarrow> parser \<Rightarrow> rule_expression parsed) \<Rightarrow> bool" where
  "continues T rv n slack parse \<longleftrightarrow> (\<forall>L p e k. within T L p \<longrightarrow> 8 * L + slack \<le> n \<longrightarrow>
     wf_expression rv e \<longrightarrow> conditionCount p = k + conds e \<longrightarrow>
     valid T (\<lambda>a q. within T L q \<and> conditionCount q = k + conds a \<and> wf_expression rv a) (parse e p))"

text \<open>Both binary levels are an operand followed by a loop over one operator token.\<close>

lemma operand_then_loop:
  assumes operand: "parses T rv n s parse" and loop: "continues T rv n t proceed" and st: "t \<le> s"
  shows "parses T rv (Suc n) (Suc s) (\<lambda>p. and_then (parse p) proceed)"
  unfolding parses_def
proof (intro allI impI)
  fix L p
  assume w: "within T L p" and n: "8 * L + Suc s \<le> Suc n"
  have "valid T (ends T L p conds (wf_expression rv)) (parse p)"
    using operand w n unfolding parses_def by simp
  then show "valid T (ends T L p conds (wf_expression rv)) (and_then (parse p) proceed)"
  proof (rule valid_and_then)
    fix e q
    assume "ends T L p conds (wf_expression rv) e q"
    then show "valid T (ends T L p conds (wf_expression rv)) (proceed e q)"
      using loop n st unfolding continues_def ends_def by auto
  qed
qed

lemma loop_step:
  assumes operand: "parses T rv n s parse" and loop: "continues T rv n 1 proceed"
    and s: "s \<le> 8" and token: "1 \<le> length token"
    and op: "\<And>l r. conds (op l r) = conds l + conds r \<and>
                   (wf_expression rv (op l r) \<longleftrightarrow> wf_expression rv l \<and> wf_expression rv r)"
  shows "continues T rv (Suc n) 1 (\<lambda>e p0.
     let p = skipWhitespace p0 in
      case consume token p of
        None \<Rightarrow> Inr (e, p)
      | Some q \<Rightarrow> and_then (parse q) (\<lambda>right r. proceed (op e right) r))"
  unfolding continues_def
proof (intro allI impI)
  fix L p0 e k
  assume w0: "within T L p0" and n: "8 * L + 1 \<le> Suc n" and e: "wf_expression rv e"
    and k: "conditionCount p0 = k + conds e"
  let ?p = "skipWhitespace p0"
  let ?Q = "\<lambda>a q. within T L q \<and> conditionCount q = k + conds a \<and> wf_expression rv a"
  have w: "within T L ?p" using w0 by simp
  show "valid T ?Q (let p = skipWhitespace p0 in
      case consume token p of
        None \<Rightarrow> Inr (e, p)
      | Some q \<Rightarrow> and_then (parse q) (\<lambda>right r. proceed (op e right) r))"
  proof (cases "consume token ?p")
    case None
    then show ?thesis using w e k by (simp add: Let_def)
  next
    case (Some q)
    have q: "within T (L - 1) q" "1 \<le> L" "conditionCount q = k + conds e"
      using consume_within [OF Some w] token k by (auto intro: within_mono)
    have "8 * (L - 1) + s \<le> n" using n q(2) s by linarith
    then have "valid T (ends T (L - 1) q conds (wf_expression rv)) (parse q)"
      using operand q(1) unfolding parses_def by simp
    then have "valid T ?Q (and_then (parse q) (\<lambda>right r. proceed (op e right) r))"
    proof (rule valid_and_then)
      fix right r
      assume r: "ends T (L - 1) q conds (wf_expression rv) right r"
      have "8 * (L - 1) + 1 \<le> n" using n q(2) by linarith
      then have "valid T (\<lambda>a q. within T (L - 1) q \<and> conditionCount q = k + conds a \<and> wf_expression rv a)
              (proceed (op e right) r)"
        using loop r q(3) e op unfolding continues_def ends_def by auto
      then show "valid T ?Q (proceed (op e right) r)"
        by (rule valid_mono) (auto intro: within_mono)
    qed
    then show ?thesis using Some by (simp add: Let_def)
  qed
qed

lemma primary_step:
  assumes or: "\<And>depth. parses T rv n 4 (parseOr rv n depth)"
  shows "parses T rv (Suc n) 2 (parsePrimary rv (Suc n) depth)"
  unfolding parses_def
proof (intro allI impI)
  fix L p0
  assume w0: "within T L p0" and n: "8 * L + 2 \<le> Suc n"
  let ?p = "skipWhitespace p0"
  let ?Q = "ends T L p0 conds (wf_expression rv)"
  have w: "within T L ?p" using w0 by simp
  show "valid T ?Q (parsePrimary rv (Suc n) depth p0)"
  proof (cases "consume ''('' ?p")
    case None
    have "valid T (ends T L ?p conds_condition (wf_condition rv Root)) (parseCondition rv n ?p)"
      by (rule valid_parseCondition [OF w]) (use n in simp)
    then have "valid T ?Q (and_then (parseCondition rv n ?p) (\<lambda>c q. Inr (Cond c, q)))"
      by (rule valid_and_then) (simp add: ends_def)
    then show ?thesis using None by (simp add: Let_def)
  next
    case (Some q)
    have q: "within T (L - 1) q" "1 \<le> L" "conditionCount q = conditionCount p0"
      using consume_within [OF Some w] by auto
    have "8 * (L - 1) + 4 \<le> n" using n q(2) by linarith
    then have v: "valid T (ends T (L - 1) q conds (wf_expression rv)) (parseOr rv n (depth + 1) q)"
      using or q(1) unfolding parses_def by simp
    have "valid T ?Q (and_then (parseOr rv n (depth + 1) q) (\<lambda>expression r.
                 and_then (expect '')'' ''Expected a closing parenthesis.'' (skipWhitespace r))
                   (\<lambda>_ s. Inr (expression, s))))"
    proof (rule valid_and_then [OF v])
      fix e r
      assume "ends T (L - 1) q conds (wf_expression rv) e r"
      then have r: "within T L r" "conditionCount r = conditionCount p0 + conds e" "wf_expression rv e"
        using q(3) by (auto simp: ends_def intro: within_mono)
      show "valid T ?Q (and_then (expect '')'' ''Expected a closing parenthesis.'' (skipWhitespace r))
                   (\<lambda>_ s. Inr (e, s)))"
        by (rule valid_and_then [OF valid_expect_le [OF r(1)]]) (use r in \<open>simp add: ends_def\<close>)
    qed
    then show ?thesis using Some within_index [OF q(1)] by (simp add: Let_def)
  qed
qed

lemma expression_grammar_ok:
  "parses T rv n 4 (parseOr rv n depth) \<and> continues T rv n 1 (or_loop rv n depth) \<and>
   parses T rv n 3 (parseAnd rv n depth) \<and> continues T rv n 1 (and_loop rv n depth) \<and>
   parses T rv n 2 (parsePrimary rv n depth)"
proof (induction n arbitrary: depth)
  case 0
  show ?case by (simp add: parses_def continues_def)
next
  case (Suc n)
  have "parses T rv (Suc n) (Suc 3) (\<lambda>p. and_then (parseAnd rv n depth p) (or_loop rv n depth))"
    using Suc.IH by (intro operand_then_loop [where t = 1]) auto
  moreover have "parses T rv (Suc n) (Suc 2) (\<lambda>p. and_then (parsePrimary rv n depth p) (and_loop rv n depth))"
    using Suc.IH by (intro operand_then_loop [where t = 1]) auto
  moreover have "continues T rv (Suc n) 1 (\<lambda>e p0. let p = skipWhitespace p0 in
      case consume ''||'' p of None \<Rightarrow> Inr (e, p)
      | Some q \<Rightarrow> and_then (parseAnd rv n depth q) (\<lambda>right r. or_loop rv n depth (Or e right) r))"
    using Suc.IH by (intro loop_step [where s = 3]) auto
  moreover have "continues T rv (Suc n) 1 (\<lambda>e p0. let p = skipWhitespace p0 in
      case consume ''&&'' p of None \<Rightarrow> Inr (e, p)
      | Some q \<Rightarrow> and_then (parsePrimary rv n depth q) (\<lambda>right r. and_loop rv n depth (And e right) r))"
    using Suc.IH by (intro loop_step [where s = 2]) auto
  moreover have "parses T rv (Suc n) 2 (parsePrimary rv (Suc n) depth)"
    using Suc.IH by (intro primary_step) blast
  ultimately show ?case
    by (simp add: parses_def continues_def)
qed

section \<open>The entry points\<close>

lemma within_start: "length source \<le> L \<Longrightarrow> within (length source) L (start_parser source)"
  by (simp add: within_def start_parser_def)

lemma conds_positive: "0 < conds e" "0 < conds_condition c"
proof -
  show c: "0 < conds_condition c" for c by (cases c) simp
  show "0 < conds e" by (induction e) (auto simp: c)
qed

lemma boundedDiagnostic_length: "length (boundedDiagnostic position detail) \<le> limit_diagnostic"
  by (simp add: boundedDiagnostic_def)

lemma parseOr_total:
  "valid (length source) (\<lambda>e q. within (length source) (length source) q \<and> conditionCount q = conds e
        \<and> wf_expression rv e)
     (parseOr rv (parse_fuel source) depth (start_parser source))"
proof -
  have "valid (length source) (ends (length source) (length source) (start_parser source) conds (wf_expression rv))
          (parseOr rv (parse_fuel source) depth (start_parser source))"
    using expression_grammar_ok [of "length source" rv "parse_fuel source" depth]
    unfolding parses_def by (simp add: within_start parse_fuel_def)
  then show ?thesis
    by (rule valid_mono) (simp add: ends_def start_parser_def)
qed

lemma parsePath_total:
  "valid (length source) (\<lambda>path q. within (length source) (length source) q \<and> wf_path rv origin path)
     (parsePath rv (parse_fuel source) origin (start_parser source))"
proof -
  have "valid (length source) (ends (length source) (length source) (start_parser source) conds_path (wf_path rv origin))
          (parsePath rv (parse_fuel source) origin (start_parser source))"
    using path_grammar_ok [of "length source" rv "parse_fuel source"]
    unfolding path_ok_def by (simp add: within_start parse_fuel_def)
  then show ?thesis
    by (rule valid_mono) (simp add: ends_def)
qed

lemma compile_result:
  "(\<exists>position detail. compileKafkaRuleExpression rv source = Inl (expression_error position detail)
       \<and> position \<le> length source
       \<and> length (boundedDiagnostic position detail) \<le> 2048)
   \<or> (\<exists>e. compileKafkaRuleExpression rv source = Inr e
       \<and> 0 < length source \<and> length source \<le> 4096
       \<and> wf_expression rv e \<and> 1 \<le> conds e \<and> conds e \<le> 64)"
proof (cases "length source = 0 \<or> length source > limit_expression")
  case True
  then show ?thesis
    using boundedDiagnostic_length by (auto simp: compileKafkaRuleExpression_def)
next
  case short: False
  show ?thesis
  proof (cases "parseOr rv (parse_fuel source) 0 (start_parser source)")
    case (Inl e)
    then show ?thesis
      using short parseOr_total [of source rv 0] boundedDiagnostic_length
      by (auto simp: compileKafkaRuleExpression_def error_within_def)
  next
    case (Inr r)
    obtain e p0 where r: "r = (e, p0)" by (cases r)
    have e: "within (length source) (length source) p0" "conditionCount p0 = conds e" "wf_expression rv e"
      using parseOr_total [of source rv 0] Inr r by simp_all
    have i: "index (skipWhitespace p0) \<le> length source"
      using within_index [OF within_skip [OF e(1)]] .
    show ?thesis
    proof (cases "rest (skipWhitespace p0)")
      case Nil
      moreover have "conds e \<le> 64" using e by (simp add: within_def)
      moreover have "1 \<le> conds e" using conds_positive(1) [of e] by simp
      ultimately show ?thesis using short Inr r e(3) by (simp add: compileKafkaRuleExpression_def Let_def)
    next
      case (Cons c cs)
      then show ?thesis
        using short Inr r i boundedDiagnostic_length
        by (auto simp: compileKafkaRuleExpression_def Let_def)
    qed
  qed
qed

lemma compile_wf:
  assumes "compileKafkaRuleExpression rv source = Inr e"
  shows "wf_expression rv e"
  using compile_result [of rv source] assms by auto

text \<open>
  C28: Compiling a rule expression always answers. A refusal is a diagnostic of at most 2048
  characters whose position lies inside the source; an accepted source of at most 4096 characters
  gives an expression with between 1 and 64 conditions (filters included), at most 64 segments in
  every path, paths rooted at \<open>$\<close> outside and at \<open>@\<close> inside filters, safe array indices, only
  scanned and bounded regular expressions, and operands that fit their operators.
\<close>

theorem compile_total_and_well_formed:
  "(\<exists>position detail. compileKafkaRuleExpression rv source = Inl (expression_error position detail)
       \<and> position \<le> length source
       \<and> length (boundedDiagnostic position detail) \<le> 2048)
   \<or> (\<exists>e. compileKafkaRuleExpression rv source = Inr e
       \<and> 0 < length source \<and> length source \<le> 4096
       \<and> wf_expression rv e \<and> 1 \<le> conds e \<and> conds e \<le> 64)"
  by (rule compile_result)

text \<open>
  Compiling a projection path always answers, and what it accepts is at most 16 properties and
  safe array indices: no wildcard, filter or recursive segment gets through.
\<close>

theorem projection_total_and_plain:
  "(\<exists>position detail. compileKafkaProjectionPath rv source = Inl (expression_error position detail)
       \<and> position \<le> length source)
   \<or> (\<exists>segments. compileKafkaProjectionPath rv source = Inr segments \<and> length source \<le> 256
       \<and> length segments \<le> 16
       \<and> list_all (\<lambda>s. is_projection_segment s \<and> wf_segment rv s) segments)"
proof (cases "length source > 256")
  case True
  then show ?thesis by (auto simp: compileKafkaProjectionPath_def)
next
  case short: False
  show ?thesis
  proof (cases "parsePath rv (parse_fuel source) Root (start_parser source)")
    case (Inl e)
    then show ?thesis
      using short parsePath_total [of source rv Root]
      by (auto simp: compileKafkaProjectionPath_def error_within_def)
  next
    case (Inr r)
    obtain segments p0 where r: "r = (Rule_Path Root segments, p0)"
      using parsePath_total [of source rv Root] Inr
      by (cases r; cases "fst r") auto
    have e: "within (length source) (length source) p0" "list_all (wf_segment rv) segments"
      using parsePath_total [of source rv Root] Inr r by simp_all
    have i: "index (skipWhitespace p0) \<le> length source"
      using within_index [OF within_skip [OF e(1)]] .
    show ?thesis
      using short Inr r i e(2)
      by (auto simp: compileKafkaProjectionPath_def Let_def list_all_iff)
  qed
qed

end
