(* ===== verification/Rule_Semantics.thy ===== *)
theory Rule_Semantics
  imports Complex_Main Rule_Eval Rule_Parsing
begin

text \<open>
  What a rule expression means, and that the budgeted evaluator computes it: a declarative semantics
  of paths (as sets of selected values), conditions and expressions, a triple for budgeted
  evaluations, and the agreement of the two.
\<close>

section \<open>Reference semantics\<close>

text \<open>The real number a finite binary64 value stands for.\<close>

fun num_value :: "js_num \<Rightarrow> real" where
  "num_value (Finite neg m e) = real_of_int (signed neg m) * 2 powr real_of_int e"
| "num_value _ = 0"

inductive descendant :: "json \<Rightarrow> json \<Rightarrow> bool" where
  descendant_self: "descendant v v"
| descendant_child: "own_values v = Some cs \<Longrightarrow> c \<in> set cs \<Longrightarrow> descendant c w \<Longrightarrow> descendant v w"

inductive_simps descendant_leaf: "descendant JNull w" "descendant (JBool b) w"
  "descendant (JNum n) w" "descendant (JStr s) w"

definition compares :: "(real \<Rightarrow> real \<Rightarrow> bool) \<Rightarrow> json \<Rightarrow> json option \<Rightarrow> bool" where
  "compares test v expected \<longleftrightarrow>
     (\<exists>a b. v = JNum a \<and> expected = Some (JNum b) \<and> is_finite a \<and> is_finite b
            \<and> test (num_value a) (num_value b))"

definition operand_text :: "rule_operand option \<Rightarrow> js_string option" where
  "operand_text operand = (case scalar operand of None \<Rightarrow> Some ''undefined'' | Some v \<Rightarrow> string_of v)"

fun satisfies ::
  "(js_string \<Rightarrow> js_string \<Rightarrow> js_string \<Rightarrow> bool) \<Rightarrow> rule_operator \<Rightarrow> rule_operand option \<Rightarrow> json \<Rightarrow> bool" where
  "satisfies rt Op_Equals operand v = (scalar operand = Some v)"
| "satisfies rt Op_Not_Equals operand v = (scalar operand = Some v)"
| "satisfies rt Op_Contains operand v =
     (\<exists>s t before after. string_of v = Some s \<and> operand_text operand = Some t \<and> s = before @ t @ after)"
| "satisfies rt Op_Matches operand v =
     (\<exists>source flags s. operand = Some (Regex source flags) \<and> string_of v = Some s \<and> rt source flags s)"
| "satisfies rt Op_Greater operand v = compares (\<lambda>a b. a > b) v (scalar operand)"
| "satisfies rt Op_Greater_Equal operand v = compares (\<lambda>a b. a \<ge> b) v (scalar operand)"
| "satisfies rt Op_Less operand v = compares (\<lambda>a b. a < b) v (scalar operand)"
| "satisfies rt Op_Less_Equal operand v = compares (\<lambda>a b. a \<le> b) v (scalar operand)"
| "satisfies rt Op_Exists operand v = (v \<noteq> JNull)"

definition elements :: "json \<Rightarrow> json set" where
  "elements v = (case v of JArr xs \<Rightarrow> set xs | _ \<Rightarrow> {})"

definition candidate_set :: "json set \<Rightarrow> json set" where
  "candidate_set S = {c. \<exists>v \<in> S. if \<exists>xs. v = JArr xs then c \<in> elements v else c = v}"

definition verdict ::
  "(js_string \<Rightarrow> js_string \<Rightarrow> js_string \<Rightarrow> bool) \<Rightarrow> rule_operator \<Rightarrow> rule_operand option \<Rightarrow> json set \<Rightarrow> bool" where
  "verdict rt operator operand S =
     (if operator = Op_Exists then \<exists>v \<in> S. v \<noteq> JNull
      else if operator = Op_Not_Equals
           then S \<noteq> {} \<and> (\<forall>c \<in> candidate_set S. \<not> satisfies rt operator operand c)
      else \<exists>c \<in> candidate_set S. satisfies rt operator operand c)"

definition plain_values :: "rule_segment \<Rightarrow> json \<Rightarrow> json set" where
  "plain_values segment v =
     (case segment of
        Property name \<Rightarrow> {x. own_property v name = Some x}
      | Index i \<Rightarrow> {x. \<exists>xs. v = JArr xs \<and> i < length xs \<and> x = xs ! i}
      | Wildcard \<Rightarrow> {x. \<exists>cs. own_values v = Some cs \<and> x \<in> set cs}
      | Recursive_Property name \<Rightarrow> {x. \<exists>w. descendant v w \<and> own_property w name = Some x}
      | Filter c \<Rightarrow> {})"

fun path_values :: "(js_string \<Rightarrow> js_string \<Rightarrow> js_string \<Rightarrow> bool) \<Rightarrow> rule_path \<Rightarrow> json \<Rightarrow> json \<Rightarrow> json set"
and segments_values ::
    "(js_string \<Rightarrow> js_string \<Rightarrow> js_string \<Rightarrow> bool) \<Rightarrow> rule_segment list \<Rightarrow> json \<Rightarrow> json set \<Rightarrow> json set"
and segment_values ::
    "(js_string \<Rightarrow> js_string \<Rightarrow> js_string \<Rightarrow> bool) \<Rightarrow> rule_segment \<Rightarrow> json \<Rightarrow> json \<Rightarrow> json set"
and condition_holds ::
    "(js_string \<Rightarrow> js_string \<Rightarrow> js_string \<Rightarrow> bool) \<Rightarrow> rule_condition \<Rightarrow> json \<Rightarrow> json \<Rightarrow> bool" where
  "path_values rt (Rule_Path origin segments) doc current =
     segments_values rt segments doc {if origin = Root then doc else current}"
| "segments_values rt [] doc S = S"
| "segments_values rt (segment # segments) doc S =
     segments_values rt segments doc (\<Union>v \<in> S. segment_values rt segment doc v)"
| "segment_values rt (Filter c) doc v = {x \<in> elements v. condition_holds rt c doc x}"
| "segment_values rt (Property name) doc v = plain_values (Property name) v"
| "segment_values rt (Index i) doc v = plain_values (Index i) v"
| "segment_values rt Wildcard doc v = plain_values Wildcard v"
| "segment_values rt (Recursive_Property name) doc v = plain_values (Recursive_Property name) v"
| "condition_holds rt (Condition path operator operand) doc current =
     verdict rt operator operand (path_values rt path doc current)"

fun expression_holds ::
  "(js_string \<Rightarrow> js_string \<Rightarrow> js_string \<Rightarrow> bool) \<Rightarrow> rule_expression \<Rightarrow> json \<Rightarrow> bool" where
  "expression_holds rt (And l r) sample = (expression_holds rt l sample \<and> expression_holds rt r sample)"
| "expression_holds rt (Or l r) sample = (expression_holds rt l sample \<or> expression_holds rt r sample)"
| "expression_holds rt (Cond c) sample = condition_holds rt c sample sample"

section \<open>Triples for budgeted evaluations\<close>

text \<open>
  \<open>evals Q m\<close>: a result satisfies \<open>Q\<close> and has cost every budget of the chain the same amount,
  leaving none exhausted when anything was charged; an error never gives work back, and running
  out of work names a budget that is exhausted.
\<close>

definition charge :: "int \<Rightarrow> work_budget \<Rightarrow> work_budget" where
  "charge k b = b\<lparr>remaining := remaining b - k\<rparr>"

definition charged :: "work_budget \<Rightarrow> work_budget \<Rightarrow> bool" where
  "charged b c \<longleftrightarrow> maximum c = maximum b \<and> remaining c \<le> remaining b"

definition paid :: "int \<Rightarrow> budgets \<Rightarrow> budgets \<Rightarrow> bool" where
  "paid k bs cs \<longleftrightarrow> 0 \<le> k \<and> cs = map (charge k) bs \<and> (0 < k \<longrightarrow> (\<forall>c \<in> set cs. \<not> exhausted c))"

definition stopped :: "eval_error \<Rightarrow> budgets \<Rightarrow> budgets \<Rightarrow> bool" where
  "stopped e bs cs \<longleftrightarrow> list_all2 charged bs cs
     \<and> (\<forall>n. e = Work_Exceeded n \<longrightarrow> (\<exists>c \<in> set cs. exhausted c \<and> maximum c = n))"

definition evals :: "('a \<Rightarrow> bool) \<Rightarrow> 'a eval \<Rightarrow> bool" where
  "evals Q m \<longleftrightarrow> (\<forall>bs. case m bs of
       (Inr a, cs) \<Rightarrow> Q a \<and> (\<exists>k. paid k bs cs)
     | (Inl e, cs) \<Rightarrow> stopped e bs cs)"

lemma charge_zero [simp]: "charge 0 b = b"
  by (simp add: charge_def)

lemma charge_charge [simp]: "charge k (charge j b) = charge (j + k) b"
  by (simp add: charge_def)

lemma charged_refl [simp]: "charged b b"
  by (simp add: charged_def)

lemma charged_trans: "charged a b \<Longrightarrow> charged b c \<Longrightarrow> charged a c"
  by (simp add: charged_def)

lemma paid_charged: "paid k bs cs \<Longrightarrow> list_all2 charged bs cs"
  by (auto simp: paid_def list_all2_map2 charge_def charged_def intro!: list.rel_refl_strong)

lemma paid_zero: "paid 0 bs bs"
  by (simp add: paid_def map_idI)

lemma paid_trans: "paid j as bs \<Longrightarrow> paid k bs cs \<Longrightarrow> paid (j + k) as cs"
  by (cases "k = 0") (auto simp: paid_def o_def map_idI)

lemma stopped_after:
  assumes "paid k as bs" and "stopped e bs cs"
  shows "stopped e as cs"
proof -
  have "list_all2 charged as cs"
    using paid_charged [OF assms(1)] assms(2) unfolding stopped_def
    by (auto intro: list_all2_trans [of charged charged charged] charged_trans)
  then show ?thesis using assms(2) by (simp add: stopped_def)
qed

lemma evals_mono: "evals P m \<Longrightarrow> (\<And>a. P a \<Longrightarrow> Q a) \<Longrightarrow> evals Q m"
  unfolding evals_def by (fastforce split: prod.splits sum.splits)

lemma evals_ret [intro!]: "Q a \<Longrightarrow> evals Q (ret a)"
  by (auto simp: evals_def ret_def intro: paid_zero)

lemma evals_throw: "(\<And>n. e \<noteq> Work_Exceeded n) \<Longrightarrow> evals Q (throw e)"
  by (auto simp: evals_def throw_def stopped_def intro!: list.rel_refl_strong)

lemma evals_bind:
  assumes m: "evals P m" and f: "\<And>a. P a \<Longrightarrow> evals Q (f a)"
  shows "evals Q (bind_eval m f)"
  unfolding evals_def
proof
  fix bs
  obtain r cs where r: "m bs = (r, cs)" by fastforce
  show "case bind_eval m f bs of (Inr a, cs) \<Rightarrow> Q a \<and> (\<exists>k. paid k bs cs) | (Inl e, cs) \<Rightarrow> stopped e bs cs"
  proof (cases r)
    case (Inl e)
    then show ?thesis
      using m [unfolded evals_def, rule_format, of bs] r by (simp add: bind_eval_def)
  next
    case (Inr a)
    then obtain j where j: "P a" "paid j bs cs"
      using m [unfolded evals_def, rule_format, of bs] r by auto
    obtain r' ds where r': "f a cs = (r', ds)" by fastforce
    then show ?thesis
      using f [OF j(1), unfolded evals_def, rule_format, of cs] Inr r j(2)
      by (cases r') (auto simp: bind_eval_def intro: stopped_after paid_trans)
  qed
qed

lemma spend_run:
  assumes "0 \<le> u"
  shows "case spend u bs of (Inr a, cs) \<Rightarrow> cs = map (charge u) bs \<and> (\<forall>c \<in> set cs. \<not> exhausted c)
         | (Inl e, cs) \<Rightarrow> stopped e bs cs"
proof (induction bs)
  case Nil
  then show ?case by simp
next
  case (Cons b bs)
  show ?case
  proof (cases "spend u bs")
    case (Pair r cs)
    then show ?thesis
      using Cons assms paid_charged [of u bs cs]
      by (cases r) (auto simp: stopped_def Let_def charge_def charged_def exhausted_def paid_def
          list_all2_map2 intro!: list.rel_refl_strong)
  qed
qed

lemma evals_spend:
  assumes "0 \<le> u"
  shows "evals (\<lambda>_. True) (spend u)"
  unfolding evals_def paid_def
  using spend_run [OF assms] assms by (fastforce split: prod.splits sum.splits)

text \<open>A run that first pays one unit has cost at least one.\<close>

lemma evals_paid_first:
  assumes "evals Q m" and "bind_eval (spend 1) (\<lambda>_. m) bs = (Inr a, cs)"
  shows "Q a \<and> (\<exists>k. 1 \<le> k \<and> paid k bs cs)"
proof -
  obtain ds where ds: "spend 1 bs = (Inr (), ds)" "m ds = (Inr a, cs)"
    using assms(2) by (auto simp: bind_eval_def split: prod.splits sum.splits)
  then have "paid 1 bs ds" using spend_run [of 1 bs] by (simp add: paid_def)
  moreover obtain k where "Q a" "paid k ds cs"
    using assms(1) [unfolded evals_def, rule_format, of ds] ds(2) by auto
  moreover have "0 \<le> k" using \<open>paid k ds cs\<close> by (simp add: paid_def)
  ultimately show ?thesis using paid_trans [of 1 bs ds k cs] by (intro conjI exI [of _ "1 + k"]) auto
qed

lemma evals_spend_then: "0 \<le> u \<Longrightarrow> evals Q m \<Longrightarrow> evals Q (bind_eval (spend u) (\<lambda>_. m))"
  by (rule evals_bind [OF evals_spend]) auto

section \<open>Comparisons agree\<close>

lemma num_scaled:
  assumes "g \<le> e"
  shows "num_value (Finite neg m e) = real_of_int (signed neg m * 2 ^ nat (e - g)) * 2 powr real_of_int g"
proof -
  have "(2 :: real) powr real_of_int e = 2 powr real_of_int (e - g) * 2 powr real_of_int g"
    by (simp flip: powr_add)
  also have "(2 :: real) powr real_of_int (e - g) = 2 ^ nat (e - g)"
    using assms by (simp flip: powr_realpow)
  finally show ?thesis by simp
qed

lemma num_less_value:
  assumes "is_finite a" "is_finite b"
  shows "num_less a b \<longleftrightarrow> num_value a < num_value b"
proof -
  obtain s m e t n f where ab: "a = Finite s m e" "b = Finite t n f"
    using assms by (cases a; cases b) auto
  show ?thesis
    unfolding ab num_less.simps Let_def
    by (simp add: num_scaled [of "min e f" e] num_scaled [of "min e f" f] del: num_value.simps of_int_mult of_int_power)
qed

lemma num_eq_value:
  assumes "is_finite a" "is_finite b"
  shows "num_eq a b \<longleftrightarrow> num_value a = num_value b"
proof -
  obtain s m e t n f where ab: "a = Finite s m e" "b = Finite t n f"
    using assms by (cases a; cases b) auto
  show ?thesis
    unfolding ab num_eq.simps Let_def
    by (simp add: num_scaled [of "min e f" e] num_scaled [of "min e f" f] del: num_value.simps of_int_mult of_int_power)
qed

lemma finite_test_compares:
  assumes "\<And>a b. is_finite a \<Longrightarrow> is_finite b \<Longrightarrow> test a b \<longleftrightarrow> rtest (num_value a) (num_value b)"
  shows "finite_test test v expected = compares rtest v expected"
  unfolding finite_test_def compares_def using assms
  by (auto split: json.splits option.splits)

lemma finite_tests:
  "finite_test (\<lambda>a b. num_less b a) v expected = compares (\<lambda>a b. a > b) v expected"
  "finite_test (\<lambda>a b. num_less b a \<or> num_eq a b) v expected = compares (\<lambda>a b. a \<ge> b) v expected"
  "finite_test num_less v expected = compares (\<lambda>a b. a < b) v expected"
  "finite_test (\<lambda>a b. num_less a b \<or> num_eq a b) v expected = compares (\<lambda>a b. a \<le> b) v expected"
  by (rule finite_test_compares, force simp: num_less_value num_eq_value)+

lemma evals_string: "evals (\<lambda>s. string_of v = Some s) (string_value v)"
  by (auto simp: string_value_def intro: evals_throw split: option.split)

lemma evals_expected_text: "evals (\<lambda>t. operand_text operand = Some t) (expected_text (scalar operand))"
  by (auto simp: expected_text_def operand_text_def string_value_def intro: evals_throw split: option.split)

lemma evals_compare_value:
  assumes "operator \<noteq> Op_Exists"
  shows "evals (\<lambda>b. b = satisfies rt operator operand v) (compare_value rt operator operand v)"
proof (cases "operator = Op_Contains")
  case True
  have "evals (\<lambda>b. b = satisfies rt operator operand v)
          (bind_eval (string_value v) (\<lambda>text.
            bind_eval (expected_text (scalar operand)) (\<lambda>t. ret (text_includes text t))))"
    by (rule evals_bind [OF evals_string], rule evals_bind [OF evals_expected_text])
       (auto simp: True text_includes_iff)
  then show ?thesis by (simp add: True compare_value_def)
next
  case not_contains: False
  show ?thesis
  proof (cases "operator = Op_Matches")
    case True
    have "evals (\<lambda>b. b = satisfies rt operator operand v)
        (bind_eval (string_value v) (\<lambda>text. ret (rt source flags text)))" if "operand = Some (Regex source flags)" for source flags
      by (rule evals_bind [OF evals_string]) (auto simp: True that)
    then show ?thesis
      by (auto simp: True compare_value_def split: option.split rule_operand.split)
  next
    case False
    then show ?thesis
      using assms not_contains
      by (cases operator)
         (auto simp: compare_value_def finite_tests)
  qed
qed

lemma evals_compare:
  assumes "operator \<noteq> Op_Exists"
  shows "evals (\<lambda>b. b = satisfies rt operator operand v) (compare rt operator operand v)"
  unfolding compare_def
  by (rule evals_spend_then, simp, rule evals_bind [where P = "\<lambda>_. True"])
     (auto split: json.split intro: evals_spend evals_compare_value [OF assms])

section \<open>Selections agree\<close>

lemma evals_any_match:
  assumes "\<And>v. evals (\<lambda>b. b = P v) (test v)"
  shows "evals (\<lambda>b. b = (\<exists>v \<in> set vs. P v)) (any_match test vs)"
proof (induction vs)
  case Nil
  then show ?case by auto
next
  case (Cons v vs)
  show ?case
    unfolding any_match.simps
    by (rule evals_bind [OF assms]) (auto intro: evals_mono [OF Cons])
qed

lemma evals_gather:
  assumes "\<And>v. v \<in> set vs \<Longrightarrow> evals (\<lambda>xs. set xs = F v) (f v)"
  shows "evals (\<lambda>xs. set xs = (\<Union>v \<in> set vs. F v)) (gather f vs)"
  using assms
proof (induction vs)
  case Nil
  then show ?case by auto
next
  case (Cons v vs)
  show ?case
    unfolding gather.simps
    by (rule evals_bind [OF Cons.prems], simp, rule evals_bind [OF Cons.IH]) (auto intro: Cons.prems)
qed

lemma evals_append: "evals (\<lambda>xs. set xs = {v}) (append_value v)"
  unfolding append_value_def by (rule evals_spend_then) auto

lemma evals_append_option: "evals (\<lambda>xs. set xs = {x. found = Some x}) (append_option found)"
  by (cases found) (auto simp: append_option_def intro: evals_mono [OF evals_append])

lemma set_candidates: "set (concat (map candidates vs)) = candidate_set (set vs)"
  by (auto simp: candidate_set_def candidates_def elements_def split: json.splits if_splits)

lemma evals_judge: "evals (\<lambda>b. b = verdict rt operator operand (set vs)) (judge rv rt operator operand vs)"
proof (cases "operator = Op_Exists")
  case True
  then show ?thesis by (auto simp: judge_def verdict_def list_ex_iff)
next
  case False
  have r: "evals (\<lambda>_. True) (regex_ready rv operand)"
    by (auto simp: regex_ready_def intro: evals_throw split: option.split rule_operand.split)
  have "evals (\<lambda>b. b = verdict rt operator operand (set vs))
     (bind_eval (regex_ready rv operand) (\<lambda>_.
             bind_eval (any_match (compare rt operator operand) (concat (map candidates vs))) (\<lambda>hit.
               ret (if hit then operator \<noteq> Op_Not_Equals
                    else operator = Op_Not_Equals \<and> vs \<noteq> []))))"
    by (rule evals_bind [OF r], rule evals_bind [OF evals_any_match [OF evals_compare [OF False]]])
       (auto simp: verdict_def False set_candidates simp del: set_concat)
  with False show ?thesis by (simp add: judge_def)
qed

text \<open>The stack visits exactly the descendants of its entries.\<close>

lemma descendant_cases:
  "descendant v w \<longleftrightarrow> v = w \<or> (\<exists>cs c. own_values v = Some cs \<and> c \<in> set cs \<and> descendant c w)"
  by (auto elim: descendant.cases intro: descendant.intros)

lemma own_property_leaf: "own_values v = None \<Longrightarrow> own_property v name = None"
  by (cases v) auto

lemma evals_descend:
  "evals (\<lambda>xs. set xs = {x. \<exists>v \<in> set stack. \<exists>w. descendant v w \<and> own_property w name = Some x})
     (descend name stack)"
proof (induction name stack rule: descend.induct)
  case (1 name)
  then show ?case by auto
next
  case (2 name v stack)
  show ?case
  proof (cases "own_values v")
    case None
    have "descendant v w \<longleftrightarrow> w = v" for w
      using None by (subst descendant_cases) auto
    then have "evals (\<lambda>xs. set xs = {x. \<exists>u \<in> set (v # stack). \<exists>w. descendant u w \<and> own_property w name = Some x})
        (descend name stack)"
      using own_property_leaf [OF None] by (intro evals_mono [OF "2.IH"(1) [OF None]]) auto
    then show ?thesis using None by (auto intro: evals_spend_then)
  next
    case (Some cs)
    have s: "evals (\<lambda>xs. True) (gather (\<lambda>_. bind_eval (spend 1) (\<lambda>_. ret [])) cs)"
      by (rule evals_mono [OF evals_gather [where F = "\<lambda>_. {}"]]) (auto intro: evals_spend_then)
    have "evals (\<lambda>xs. set xs = {x. \<exists>u \<in> set (v # stack). \<exists>w. descendant u w \<and> own_property w name = Some x})
       (bind_eval (append_option (own_property v name)) (\<lambda>found.
             bind_eval (gather (\<lambda>_. bind_eval (spend 1) (\<lambda>_. ret [])) cs) (\<lambda>_.
               bind_eval (descend name (rev cs @ stack)) (\<lambda>others. ret (found @ others)))))"
    proof (rule evals_bind [OF evals_append_option], rule evals_bind [OF s], rule evals_bind [OF "2.IH"(2) [OF Some]])
      fix found others :: "json list"
      assume f: "set found = {x. own_property v name = Some x}"
        and o: "set others = {x. \<exists>u \<in> set (rev cs @ stack). \<exists>w. descendant u w \<and> own_property w name = Some x}"
      have "descendant v w \<longleftrightarrow> v = w \<or> (\<exists>c \<in> set cs. descendant c w)" for w
        using Some by (subst descendant_cases) auto
      then show "evals (\<lambda>xs. set xs = {x. \<exists>u \<in> set (v # stack). \<exists>w. descendant u w \<and> own_property w name = Some x})
          (ret (found @ others))"
        using f o by (intro evals_ret) auto
    qed
    then show ?thesis using Some by (auto intro: evals_spend_then)
  qed
qed

lemma evals_select_plain: "evals (\<lambda>xs. set xs = plain_values segment v) (select_plain segment v)"
proof (cases segment)
  case (Index i)
  then show ?thesis
    by (auto simp: select_plain_def plain_values_def split: json.split intro: evals_mono [OF evals_append])
next
  case Wildcard
  have "evals (\<lambda>xs. set xs = set cs) (gather append_value cs)" for cs
    by (rule evals_mono [OF evals_gather [OF evals_append]]) auto
  then show ?thesis using Wildcard
    by (auto simp: select_plain_def plain_values_def split: option.split)
next
  case (Recursive_Property name)
  have "evals (\<lambda>xs. set xs = plain_values segment v) (descend name [v])"
    by (rule evals_mono [OF evals_descend]) (simp add: Recursive_Property plain_values_def)
  then show ?thesis by (simp add: Recursive_Property select_plain_def del: descend.simps)
qed (auto simp: select_plain_def plain_values_def intro: evals_mono [OF evals_append_option])

section \<open>The evaluator agrees with the semantics\<close>

lemma segments_values_empty [simp]: "segments_values rt segments doc {} = {}"
  by (induction segments) auto

lemma evals_keep_matching:
  assumes "\<And>x. evals (\<lambda>b. b = P x) (test x)"
  shows "evals (\<lambda>xs. set xs = {x \<in> elements v. P x}) (keep_matching test v)"
proof (cases v)
  case (JArr xs)
  have "evals (\<lambda>ys. set ys = (\<Union>x \<in> set xs. {y. y = x \<and> P x}))
         (gather (\<lambda>x. bind_eval (spend 1) (\<lambda>_.
                     bind_eval (test x) (\<lambda>hit. if hit then append_value x else ret []))) xs)"
    by (rule evals_gather, rule evals_spend_then, simp, rule evals_bind [OF assms])
       (auto intro: evals_mono [OF evals_append])
  then have "evals (\<lambda>ys. set ys = {x \<in> set xs. P x})
         (gather (\<lambda>x. bind_eval (spend 1) (\<lambda>_.
                     bind_eval (test x) (\<lambda>hit. if hit then append_value x else ret []))) xs)"
    by (rule evals_mono) auto
  then show ?thesis by (simp add: JArr keep_matching_def elements_def)
qed (auto simp: keep_matching_def elements_def)

lemma evals_resolve:
  "evals (\<lambda>xs. set xs = path_values rt path doc current) (resolvePath rv rt path doc current)"
  "evals (\<lambda>xs. set xs = segments_values rt segments doc (set vs)) (resolve_segments rv rt segments doc vs)"
  "evals (\<lambda>xs. set xs = segment_values rt segment doc v) (select_segment rv rt segment doc v)"
  "evals (\<lambda>b. b = condition_holds rt condition doc current) (evaluateCondition rv rt condition doc current)"
proof (induction rv rt path doc current and rv rt segments doc vs and rv rt segment doc v
    and rv rt condition doc current
    rule: resolvePath_resolve_segments_select_segment_evaluateCondition.induct)
  case (1 rv rt origin segments doc current)
  then show ?case by simp
next
  case (2 rv rt doc vs)
  then show ?case by auto
next
  case (3 rv rt segment segments doc vs)
  have "evals (\<lambda>xs. set xs = segment_values rt segment doc v) (visit (select_segment rv rt segment doc) v)" for v
    unfolding visit_def by (rule evals_spend_then) (auto intro: 3)
  then have g: "evals (\<lambda>xs. set xs = (\<Union>v \<in> set vs. segment_values rt segment doc v))
      (gather (visit (select_segment rv rt segment doc)) vs)"
    by (rule evals_gather)
  show ?case
    unfolding resolve_segments.simps
  proof (rule evals_bind [OF g])
    fix xs assume xs: "set xs = (\<Union>v \<in> set vs. segment_values rt segment doc v)"
    show "evals (\<lambda>ys. set ys = segments_values rt (segment # segments) doc (set vs))
        (if xs = [] then ret [] else resolve_segments rv rt segments doc xs)"
    proof (cases "xs = []")
      case True
      then show ?thesis using xs by (auto simp flip: xs)
    next
      case False
      then show ?thesis using 3(2) [of xs] by (simp flip: xs)
    qed
  qed
next
  case (4 rv rt c doc v)
  then show ?case by (simp add: evals_keep_matching)
next
  case (9 rv rt path operator operand doc current)
  then show ?case
    unfolding evaluateCondition.simps condition_holds.simps
    by (rule evals_bind) (metis evals_judge)
qed (simp_all add: evals_select_plain)

lemma evals_node: "evals (\<lambda>b. b = expression_holds rt e sample) (evaluate_node rv rt e sample)"
proof (induction e)
  case (Cond c)
  then show ?case by (auto intro: evals_spend_then evals_resolve(4))
next
  case (And l r)
  show ?case
    unfolding evaluate_node.simps
    by (rule evals_spend_then, simp, rule evals_bind [OF And.IH(1)]) (auto intro: evals_mono [OF And.IH(2)])
next
  case (Or l r)
  show ?case
    unfolding evaluate_node.simps
    by (rule evals_spend_then, simp, rule evals_bind [OF Or.IH(1)]) (auto intro: evals_mono [OF Or.IH(2)])
qed

text \<open>What a triple says of one run.\<close>

lemma evals_result:
  assumes "evals Q m" and "m bs = (Inr a, cs)"
  shows "Q a \<and> (\<exists>k. paid k bs cs)"
  using assms(1) [unfolded evals_def, rule_format, of bs] assms(2) by simp

lemma evals_error:
  assumes "evals Q m" and "m bs = (Inl e, cs)"
  shows "stopped e bs cs"
  using assms(1) [unfolded evals_def, rule_format, of bs] assms(2) by simp

definition sample_doc :: json where
  "sample_doc = JObj [(''a'', JArr [JObj [(''b'', JNum (Finite False 3 0))], JNull]), (''c'', JStr ''xyz'')]"

definition sample_rule :: rule_expression where
  "sample_rule =
     And (Cond (Condition (Rule_Path Root [Property ''a'',
             Filter (Condition (Rule_Path Current [Property ''b'']) Op_Greater
                       (Some (Scalar (Scalar_Number (Finite False 1 1)))))]) Op_Exists None))
         (Cond (Condition (Rule_Path Root [Recursive_Property ''c'']) Op_Contains
                  (Some (Scalar (Scalar_String ''yz'')))))"

definition no_regex :: "js_string \<Rightarrow> js_string \<Rightarrow> bool" where
  "no_regex source flags = False"

definition never_found :: "js_string \<Rightarrow> js_string \<Rightarrow> js_string \<Rightarrow> bool" where
  "never_found source flags text = False"

lemma sample_run:
  "evaluateCompiledKafkaRuleExpression no_regex never_found sample_rule sample_doc [\<lparr>maximum = 100, remaining = 90\<rparr>]
   = (Inr True, [\<lparr>maximum = 250000, remaining = 249970\<rparr>, \<lparr>maximum = 100, remaining = 60\<rparr>])"
  by code_simp

lemma sample_stop:
  "evaluateCompiledKafkaRuleExpression no_regex never_found sample_rule sample_doc [\<lparr>maximum = 100, remaining = 5\<rparr>]
   = (Inl (Work_Exceeded 100), [\<lparr>maximum = 250000, remaining = 249995\<rparr>, \<lparr>maximum = 100, remaining = -1\<rparr>])"
  by code_simp


section \<open>A compiled expression never meets an invalid regular expression\<close>

definition never :: "eval_error \<Rightarrow> 'a eval \<Rightarrow> bool" where
  "never e m \<longleftrightarrow> (\<forall>bs. fst (m bs) \<noteq> Inl e)"

lemma never_ret [simp]: "never e (ret a)"
  by (simp add: never_def ret_def)

lemma never_throw [simp]: "never e (throw d) \<longleftrightarrow> d \<noteq> e"
  by (auto simp: never_def throw_def)

lemma never_bind:
  assumes "never e m" and "\<And>a. never e (f a)"
  shows "never e (bind_eval m f)"
  unfolding never_def
proof
  fix bs
  obtain r cs where r: "m bs = (r, cs)" by fastforce
  then show "fst (bind_eval m f bs) \<noteq> Inl e"
    using assms(1) [unfolded never_def, rule_format, of bs] assms(2) [unfolded never_def]
    by (cases r) (auto simp: bind_eval_def)
qed

lemma never_spend [simp]: "never Invalid_Regex (spend u)"
  unfolding never_def
proof
  show "fst (spend u bs) \<noteq> Inl Invalid_Regex" for bs
    by (induction bs) (auto simp: Let_def split: prod.splits sum.splits)
qed

lemma never_gather: "(\<And>v. never e (f v)) \<Longrightarrow> never e (gather f vs)"
  by (induction vs) (auto intro!: never_bind)

lemma never_any_match: "(\<And>v. never e (f v)) \<Longrightarrow> never e (any_match f vs)"
  by (induction vs) (auto intro!: never_bind)

lemma never_append [simp]: "never Invalid_Regex (append_value v)" "never Invalid_Regex (append_option found)"
  by (auto simp: append_value_def append_option_def intro!: never_bind split: option.split)

lemma never_string [simp]: "never Invalid_Regex (string_value v)" "never Invalid_Regex (expected_text t)"
  by (auto simp: string_value_def expected_text_def split: option.split)

lemma never_compare: "never Invalid_Regex (compare rt operator operand v)"
  unfolding compare_def compare_value_def Let_def
  by (auto intro!: never_bind split: json.split rule_operator.split option.split rule_operand.split)

lemma never_descend: "never Invalid_Regex (descend name stack)"
  by (induction name stack rule: descend.induct)
     (auto intro!: never_bind never_gather split: option.split)

lemma never_select_plain: "never Invalid_Regex (select_plain segment v)"
  unfolding select_plain_def
  by (auto intro!: never_gather never_descend split: rule_segment.split json.split option.split simp del: descend.simps)

lemma never_judge:
  assumes "operand_agrees rv operator operand"
  shows "never Invalid_Regex (judge rv rt operator operand vs)"
proof -
  have "never Invalid_Regex (regex_ready rv operand)"
    using assms by (auto simp: regex_ready_def safe_regex_operand_def split: option.split rule_operand.split)
  then show ?thesis
    unfolding judge_def by (auto intro!: never_bind never_any_match never_compare)
qed

lemma never_resolve:
  "wf_path rv origin path \<Longrightarrow> never Invalid_Regex (resolvePath rv rt path doc current)"
  "list_all (wf_segment rv) segments \<Longrightarrow> never Invalid_Regex (resolve_segments rv rt segments doc vs)"
  "wf_segment rv segment \<Longrightarrow> never Invalid_Regex (select_segment rv rt segment doc v)"
  "wf_condition rv origin condition \<Longrightarrow> never Invalid_Regex (evaluateCondition rv rt condition doc current)"
proof (induction rv rt path doc current and rv rt segments doc vs and rv rt segment doc v
    and rv rt condition doc current arbitrary: origin and and and origin
    rule: resolvePath_resolve_segments_select_segment_evaluateCondition.induct)
  case (3 rv rt segment segments doc vs)
  then show ?case
    by (auto intro!: never_bind never_gather simp: visit_def)
next
  case (4 rv rt c doc v)
  then show ?case
    by (auto simp: keep_matching_def intro!: never_bind never_gather split: json.split)
next
  case (9 rv rt path operator operand doc current)
  then show ?case
    by (auto intro!: never_bind never_judge)
qed (auto simp: never_select_plain)

lemma never_node: "wf_expression rv e \<Longrightarrow> never Invalid_Regex (evaluate_node rv rt e sample)"
  by (induction e) (auto intro!: never_bind never_resolve(4))


section \<open>Properties\<close>

text \<open>
  C4: When the evaluator answers, the answer is the meaning of the expression on the document
  (paths as sets of selected values, comparisons on the reals the numbers stand for, substring and
  pattern tests on printed values), and the work charged is between 1 and 250000 units, charged
  equally to every shared budget, none of which is left exhausted.
\<close>

theorem evaluation_agrees:
  assumes "evaluateCompiledKafkaRuleExpression rv rt e sample shared = (Inr answer, budgets)"
  shows "answer = expression_holds rt e sample
     \<and> (\<exists>work. 1 \<le> work \<and> work \<le> 250000
          \<and> budgets = map (\<lambda>b. b\<lparr>remaining := remaining b - work\<rparr>) (new_budget 250000 shared)
          \<and> (\<forall>b \<in> set budgets. \<not> exhausted b))"
proof -
  obtain m where m: "evaluate_node rv rt e sample = bind_eval (spend 1) (\<lambda>_. m)"
      "evals (\<lambda>b. b = expression_holds rt e sample) m"
  proof (cases e)
    case (Cond c)
    then show ?thesis
      using evals_resolve(4) [of rt c sample sample rv] by (intro that) auto
  next
    case (And l r)
    show ?thesis
      by (rule that [where m = "bind_eval (evaluate_node rv rt l sample) (\<lambda>b.
            if b then evaluate_node rv rt r sample else ret False)"], simp add: And)
         (rule evals_bind [OF evals_node], auto simp: And intro: evals_mono [OF evals_node])
  next
    case (Or l r)
    show ?thesis
      by (rule that [where m = "bind_eval (evaluate_node rv rt l sample) (\<lambda>b.
            if b then ret True else evaluate_node rv rt r sample)"], simp add: Or)
         (rule evals_bind [OF evals_node], auto simp: Or intro: evals_mono [OF evals_node])
  qed
  have "bind_eval (spend 1) (\<lambda>_. m) (new_budget 250000 shared) = (Inr answer, budgets)"
    using assms m(1) by (simp add: evaluateCompiledKafkaRuleExpression_def)
  from evals_paid_first [OF m(2) this] obtain k
    where "answer = expression_holds rt e sample" "1 \<le> k" "paid k (new_budget 250000 shared) budgets"
    by blast
  moreover from this have "k \<le> 250000"
    by (auto simp: paid_def new_budget_def exhausted_def charge_def)
  ultimately show ?thesis
    by (intro conjI exI [of _ k]) (auto simp: paid_def charge_def [abs_def])
qed

theorem evaluation_agrees_witness:
  "expression_holds never_found sample_rule sample_doc"
  using evaluation_agrees [OF sample_run] by simp

text \<open>
  C32: An expression that compiled never fails for an invalid regular expression when it is
  evaluated; when its evaluation fails for lack of work, the message names the maximum of a budget
  that is exhausted, and a failure never gives work back to a budget.
\<close>

theorem compiled_evaluation_errors:
  assumes "compileKafkaRuleExpression rv source = Inr e"
    and "evaluateCompiledKafkaRuleExpression rv rt e sample shared = (Inl problem, budgets)"
  shows "problem \<noteq> Invalid_Regex
     \<and> (\<forall>n. problem = Work_Exceeded n \<longrightarrow> (\<exists>b \<in> set budgets. exhausted b \<and> maximum b = n))
     \<and> list_all2 (\<lambda>b c. maximum c = maximum b \<and> remaining c \<le> remaining b) (new_budget 250000 shared) budgets"
proof -
  have "wf_expression rv e"
    using compile_wf [OF assms(1)] by simp
  then have "never Invalid_Regex (evaluate_node rv rt e sample)" by (rule never_node)
  moreover have "stopped problem (new_budget 250000 shared) budgets"
    by (rule evals_error [OF evals_node]) (use assms(2) in \<open>simp add: evaluateCompiledKafkaRuleExpression_def\<close>)
  ultimately show ?thesis
    using assms(2) unfolding never_def evaluateCompiledKafkaRuleExpression_def stopped_def charged_def
    by (metis fst_conv)
qed

lemma sample_compiles:
  "compileKafkaRuleExpression no_regex ''$.a'' = Inr (Cond (Condition (Rule_Path Root [Property ''a'']) Op_Exists None))"
  by code_simp

lemma sample_stops:
  "evaluateCompiledKafkaRuleExpression no_regex never_found
     (Cond (Condition (Rule_Path Root [Property ''a'']) Op_Exists None)) sample_doc [\<lparr>maximum = 8, remaining = 1\<rparr>]
   = (Inl (Work_Exceeded 8), [\<lparr>maximum = 250000, remaining = 249999\<rparr>, \<lparr>maximum = 8, remaining = - 1\<rparr>])"
  by code_simp

theorem compiled_evaluation_errors_witness:
  "\<exists>b \<in> set [\<lparr>maximum = 250000, remaining = 249999\<rparr>, \<lparr>maximum = 8, remaining = - 1\<rparr>]. exhausted b \<and> maximum b = 8"
  using compiled_evaluation_errors [OF sample_compiles sample_stops] by blast

section \<open>Projections\<close>

text \<open>The value a projection path names: a missing property or index is not the value null.\<close>

fun project :: "rule_segment list \<Rightarrow> json \<Rightarrow> json option" where
  "project [] v = Some v"
| "project (segment # segments) v =
     (case segment of
        Property name \<Rightarrow> Option.bind (own_property v name) (project segments)
      | Index i \<Rightarrow> (case v of
            JArr xs \<Rightarrow> (if i < length xs then project segments (xs ! i) else None)
          | _ \<Rightarrow> None)
      | _ \<Rightarrow> None)"

lemma segments_values_project:
  "list_all is_projection_segment segments \<Longrightarrow>
   segments_values rt segments doc {v} = set_option (project segments v)"
proof (induction segments arbitrary: v)
  case Nil
  then show ?case by simp
next
  case (Cons segment segments)
  show ?case
  proof (cases segment)
    case (Property name)
    then show ?thesis
      using Cons by (cases "own_property v name") (simp_all add: plain_values_def)
  next
    case (Index i)
    show ?thesis
    proof (cases v)
      case (JArr xs)
      then have "plain_values segment v = (if i < length xs then {xs ! i} else {})"
        using Index by (auto simp: plain_values_def)
      then show ?thesis using Cons Index JArr by simp
    qed (use Cons Index in \<open>simp_all add: plain_values_def\<close>)
  qed (use Cons in \<open>simp_all add: is_projection_segment_def\<close>)
qed

text \<open>
  Reading a compiled projection path returns exactly the value at that path, found or missing
  (a JSON null that is present is found), at a positive cost that is charged equally to every budget.
\<close>

theorem projection_reads_path:
  assumes "list_all is_projection_segment segments"
    and "readKafkaProjectionPath rv rt segments doc bs = (Inr found, cs)"
  shows "found = project segments doc \<and> (\<exists>work. 1 \<le> work \<and> paid work bs cs)"
proof -
  have "evals (\<lambda>found. found = project segments doc)
     (bind_eval (resolvePath rv rt (Rule_Path Root segments) doc doc) (\<lambda>vs.
         ret (case vs of [] \<Rightarrow> None | v # _ \<Rightarrow> Some v)))"
  proof (rule evals_bind [OF evals_resolve(1)], rule evals_ret)
    fix vs
    assume "set vs = path_values rt (Rule_Path Root segments) doc doc"
    then have "set vs = set_option (project segments doc)"
      using segments_values_project [OF assms(1)] by simp
    then show "(case vs of [] \<Rightarrow> None | v # _ \<Rightarrow> Some v) = project segments doc"
      by (cases vs; cases "project segments doc") auto
  qed
  from evals_paid_first [OF this] assms(2) show ?thesis
    by (simp add: readKafkaProjectionPath_def)
qed

lemma sample_projection:
  "readKafkaProjectionPath no_regex never_found [Property ''a'', Index 1] sample_doc [\<lparr>maximum = 9, remaining = 9\<rparr>]
   = (Inr (Some JNull), [\<lparr>maximum = 9, remaining = 4\<rparr>])"
  by code_simp

theorem projection_reads_path_witness:
  "project [Property ''a'', Index 1] sample_doc = Some JNull"
  using projection_reads_path [OF _ sample_projection] by (simp add: is_projection_segment_def)

end
