(* ===== verification/Event_Queue.thy ===== *)
theory Event_Queue
  imports Prelude
begin

text \<open>
  The accounted delivery queue between a provider and one client
  (\<open>platform/node/accounted-provider-event-queue.ts\<close>): admitted events, the event in flight and
  their costs share one budget; overflow rejects or evicts the oldest records; every generation
  counts what was dropped from it.

  Events and records are type parameters, as in the source. An entry object is identified by a
  number, and a generation object by its number, with its counter in the queue. A thrown exception
  is a None where the operation catches it.
\<close>

section \<open>Data\<close>

datatype delivery_failure =
    Event_Limit | Byte_Limit | Record_Limit | Record_Byte_Limit | Event_Validation

record delivery_costs =
  cost_events :: int
  cost_serializedBytes :: int
  cost_records :: int
  cost_recordBytes :: int

record delivery_limits =
  maxEvents :: int
  maxSerializedBytes :: int
  maxRecords :: int
  maxRecordBytes :: "int option"

text \<open>
  \<open>p_event_bytes\<close> and \<open>p_record_bytes\<close> are \<open>serializedBytes\<close> of an event and of a record.
\<close>

record ('e, 'r) delivery_policy =
  p_records :: "'e \<Rightarrow> 'r list option"
  p_retainedRecordBytes :: "'r \<Rightarrow> int"
  p_withRecords :: "'e \<Rightarrow> 'r list \<Rightarrow> 'e"
  p_startsGeneration :: "'e \<Rightarrow> bool"
  p_decorateDrops :: "'e \<Rightarrow> int \<Rightarrow> 'e option"
  p_decorationReserveBytes :: "'e \<Rightarrow> int"
  p_replacementKey :: "'e \<Rightarrow> js_string option"
  p_event_bytes :: "'e \<Rightarrow> int"
  p_record_bytes :: "'r \<Rightarrow> int"

datatype overflow = Reject | Evict_Oldest_Pending_Records

record ('e, 'r) queue_options =
  o_limits :: delivery_limits
  o_overflow :: overflow
  o_policy :: "('e, 'r) delivery_policy"

record record_cost =
  rc_serialized :: int
  rc_retained :: int

record ('e, 'r) queue_entry =
  en_id :: nat
  en_event :: 'e
  en_records :: "'r list option"
  en_recordCosts :: "record_cost list"
  en_serializedBytes :: int
  en_recordBytes :: int
  en_generation :: nat
  en_replacementKey :: "js_string option"

record ('e, 'r) event_queue =
  q_pending :: "('e, 'r) queue_entry list"
  q_inflight :: "('e, 'r) queue_entry option"
  q_generation :: nat
  q_dropped :: "nat \<Rightarrow> int"
  q_bytes :: int
  q_records :: int
  q_recordBytes :: int
  q_closed :: bool
  q_next_id :: nat

definition nonNegativeInteger :: "int \<Rightarrow> int option" where
  "nonNegativeInteger v = (if is_safe_integer v \<and> 0 \<le> v then Some v else None)"

definition positiveInteger :: "int \<Rightarrow> int option" where
  "positiveInteger v = Option.bind (nonNegativeInteger v) (\<lambda>v. if v = 0 then None else Some v)"

text \<open>The constructor checks its limits; None is the RangeError.\<close>

definition new_queue :: "('e, 'r) queue_options \<Rightarrow> ('e, 'r) event_queue option" where
  "new_queue opts =
     (let l = o_limits opts in
      if positiveInteger (maxEvents l) = None \<or> positiveInteger (maxSerializedBytes l) = None
         \<or> positiveInteger (maxRecords l) = None
         \<or> (case maxRecordBytes l of None \<Rightarrow> False | Some m \<Rightarrow> positiveInteger m = None)
      then None
      else Some \<lparr>q_pending = [], q_inflight = None, q_generation = 0, q_dropped = (\<lambda>_. 0),
                 q_bytes = 0, q_records = 0, q_recordBytes = 0, q_closed = False, q_next_id = 0\<rparr>)"

definition in_flight :: "('e, 'r) event_queue \<Rightarrow> int" where
  "in_flight q = (if q_inflight q = None then 0 else 1)"

definition costs :: "('e, 'r) event_queue \<Rightarrow> delivery_costs" where
  "costs q = \<lparr>cost_events = int (length (q_pending q)) + in_flight q, cost_serializedBytes = q_bytes q,
              cost_records = q_records q, cost_recordBytes = q_recordBytes q\<rparr>"

section \<open>Admission\<close>

text \<open>\<open>assertProjection\<close>: the event still projects to exactly these records.\<close>

definition assertProjection :: "('e, 'r) delivery_policy \<Rightarrow> 'e \<Rightarrow> 'r list option \<Rightarrow> bool" where
  "assertProjection p event records \<longleftrightarrow>
     (case records of
        None \<Rightarrow> p_records p event = None
      | Some rs \<Rightarrow> (case p_records p event of
            None \<Rightarrow> False
          | Some projected \<Rightarrow> length projected = length rs \<and> list_all2 (=) projected rs))"

definition record_cost_of :: "('e, 'r) queue_options \<Rightarrow> 'r \<Rightarrow> record_cost option" where
  "record_cost_of opts r =
     map_option (\<lambda>retained.
         \<lparr>rc_serialized = (if o_overflow opts = Reject then 0 else p_record_bytes (o_policy opts) r),
          rc_retained = retained\<rparr>)
       (nonNegativeInteger (p_retainedRecordBytes (o_policy opts) r))"

fun collect :: "'a option list \<Rightarrow> 'a list option" where
  "collect [] = Some []"
| "collect (x # xs) = Option.bind x (\<lambda>a. map_option ((#) a) (collect xs))"

definition measure_event ::
  "('e, 'r) queue_options \<Rightarrow> nat \<Rightarrow> nat \<Rightarrow> 'e \<Rightarrow> ('e, 'r) queue_entry option" where
  "measure_event opts entry_id gen event =
     (let p = o_policy opts;
          records = p_records p event;
          retained = (case records of None \<Rightarrow> event | Some rs \<Rightarrow> p_withRecords p event rs)
      in if \<not> assertProjection p retained records then None
         else Option.bind (collect (map (record_cost_of opts) (case records of None \<Rightarrow> [] | Some rs \<Rightarrow> rs))) (\<lambda>costs.
           if records \<noteq> None \<and> p_replacementKey p event \<noteq> None then None
           else Option.bind (nonNegativeInteger (sum_list (map rc_retained costs))) (\<lambda>record_bytes.
             Option.bind (nonNegativeInteger (p_decorationReserveBytes p retained)) (\<lambda>reserve.
               map_option (\<lambda>serialized.
                   \<lparr>en_id = entry_id, en_event = retained, en_records = records, en_recordCosts = costs,
                    en_serializedBytes = serialized, en_recordBytes = record_bytes,
                    en_generation = gen, en_replacementKey = p_replacementKey p event\<rparr>)
                 (nonNegativeInteger (p_event_bytes p retained + reserve))))))"

definition limitFailure :: "delivery_limits \<Rightarrow> ('e, 'r) event_queue \<Rightarrow> delivery_failure option" where
  "limitFailure l q =
     (if int (length (q_pending q)) + in_flight q > maxEvents l then Some Event_Limit
      else if q_bytes q > maxSerializedBytes l then Some Byte_Limit
      else if q_records q > maxRecords l then Some Record_Limit
      else case maxRecordBytes l of
             Some m \<Rightarrow> if q_recordBytes q > m then Some Record_Byte_Limit else None
           | None \<Rightarrow> None)"

definition releaseCosts :: "('e, 'r) queue_entry \<Rightarrow> ('e, 'r) event_queue \<Rightarrow> ('e, 'r) event_queue" where
  "releaseCosts entry q =
     q\<lparr>q_bytes := q_bytes q - en_serializedBytes entry,
       q_records := q_records q - int (length (en_recordCosts entry)),
       q_recordBytes := q_recordBytes q - en_recordBytes entry\<rparr>"

definition drop_count :: "nat \<Rightarrow> int \<Rightarrow> ('e, 'r) event_queue \<Rightarrow> ('e, 'r) event_queue option" where
  "drop_count gen n q =
     map_option (\<lambda>sum. q\<lparr>q_dropped := (q_dropped q)(gen := sum)\<rparr>)
       (nonNegativeInteger (q_dropped q gen + n))"

text \<open>
  An entry found in the queue is given with the entries around it, as \<open>extract\<close> of the list library
  returns it. \<open>splice_out\<close> takes it out; \<open>remove_at\<close> is \<open>remove\<close>, where None is the RangeError of
  the drop counter.
\<close>

definition splice_out ::
  "('e, 'r) queue_entry list \<Rightarrow> ('e, 'r) queue_entry \<Rightarrow> ('e, 'r) queue_entry list
   \<Rightarrow> ('e, 'r) event_queue \<Rightarrow> ('e, 'r) event_queue" where
  "splice_out before entry after q = releaseCosts entry (q\<lparr>q_pending := before @ after\<rparr>)"

definition remove_at ::
  "('e, 'r) queue_entry list \<Rightarrow> ('e, 'r) queue_entry \<Rightarrow> ('e, 'r) queue_entry list \<Rightarrow> bool
   \<Rightarrow> ('e, 'r) event_queue \<Rightarrow> ('e, 'r) event_queue option" where
  "remove_at before entry after dropped q =
     (if dropped
      then map_option (splice_out before entry after)
             (drop_count (en_generation entry) (int (length (en_recordCosts entry))) q)
      else Some (splice_out before entry after q))"

text \<open>\<open>if (this.pending.includes(entry)) this.remove(entry, false)\<close>.\<close>

definition discard :: "nat \<Rightarrow> ('e, 'r) event_queue \<Rightarrow> ('e, 'r) event_queue" where
  "discard i q =
     (case List.extract (\<lambda>e. en_id e = i) (q_pending q) of
        None \<Rightarrow> q
      | Some (before, entry, after) \<Rightarrow> splice_out before entry after q)"

section \<open>Trimming\<close>

text \<open>
  The loop of \<open>trimPrefix\<close> over the record costs: the count and costs removed so far. It stops when
  the whole entry would go (first component True) or the budgets hold again.
\<close>

fun trim_count ::
  "delivery_limits \<Rightarrow> ('e, 'r) event_queue \<Rightarrow> nat \<Rightarrow> nat \<Rightarrow> int \<Rightarrow> int \<Rightarrow> record_cost list
   \<Rightarrow> bool \<times> nat \<times> int \<times> int" where
  "trim_count l q full count enc ret [] = (False, count, enc, ret)"
| "trim_count l q full count enc ret (c # cs) =
     (let n = Suc count; enc' = enc + rc_serialized c; ret' = ret + rc_retained c in
      if n = full then (True, n, enc', ret')
      else if q_bytes q - enc' - int n \<le> maxSerializedBytes l
              \<and> q_records q - int n \<le> maxRecords l
              \<and> (case maxRecordBytes l of None \<Rightarrow> True | Some m \<Rightarrow> q_recordBytes q - ret' \<le> m)
      then (False, n, enc', ret')
      else trim_count l q full n enc' ret' cs)"

definition shorten ::
  "('e, 'r) delivery_policy \<Rightarrow> nat \<Rightarrow> int \<Rightarrow> int \<Rightarrow> 'r list
   \<Rightarrow> ('e, 'r) queue_entry list \<Rightarrow> ('e, 'r) queue_entry \<Rightarrow> ('e, 'r) queue_entry list
   \<Rightarrow> ('e, 'r) event_queue \<Rightarrow> ('e, 'r) event_queue option" where
  "shorten p count enc ret records before entry after q =
     (let remaining = drop count records;
          retained = p_withRecords p (en_event entry) remaining;
          removed = enc + int count;
          entry' = entry\<lparr>en_event := retained, en_records := Some remaining,
                         en_recordCosts := drop count (en_recordCosts entry),
                         en_serializedBytes := en_serializedBytes entry - removed,
                         en_recordBytes := en_recordBytes entry - ret\<rparr>
      in Option.bind (drop_count (en_generation entry) (int count) q) (\<lambda>q'.
           if \<not> assertProjection p retained (Some remaining) then None
           else Some (q'\<lparr>q_pending := before @ entry' # after,
                         q_bytes := q_bytes q' - removed,
                         q_records := q_records q' - int count,
                         q_recordBytes := q_recordBytes q' - ret\<rparr>)))"

definition trimPrefix ::
  "('e, 'r) queue_options
   \<Rightarrow> ('e, 'r) queue_entry list \<Rightarrow> ('e, 'r) queue_entry \<Rightarrow> ('e, 'r) queue_entry list
   \<Rightarrow> ('e, 'r) event_queue \<Rightarrow> ('e, 'r) event_queue option" where
  "trimPrefix opts before entry after q =
     (case en_records entry of
        None \<Rightarrow> None
      | Some records \<Rightarrow>
          let (whole, count, enc, ret) =
                trim_count (o_limits opts) q (length records) 0 0 0 (en_recordCosts entry) in
          if whole then remove_at before entry after True q
          else shorten (o_policy opts) count enc ret records before entry after q)"

definition candidate :: "delivery_failure \<Rightarrow> nat \<Rightarrow> ('e, 'r) queue_entry \<Rightarrow> bool" where
  "candidate failure incoming e \<longleftrightarrow>
     en_records e \<noteq> None \<and>
     (if failure = Event_Limit then en_id e \<noteq> incoming else en_recordCosts e \<noteq> [])"

definition trim_turn ::
  "('e, 'r) queue_options \<Rightarrow> delivery_failure
   \<Rightarrow> ('e, 'r) queue_entry list \<Rightarrow> ('e, 'r) queue_entry \<Rightarrow> ('e, 'r) queue_entry list
   \<Rightarrow> ('e, 'r) event_queue \<Rightarrow> ('e, 'r) event_queue option" where
  "trim_turn opts failure before previous after q =
     (if failure = Event_Limit then remove_at before previous after True q
      else trimPrefix opts before previous after q)"

text \<open>
  The loop of \<open>trim\<close>. Its result says whether it threw (None) or the failure it returns, with the
  queue it leaves. Every turn removes an entry or at least one of its records.
\<close>

definition queue_load :: "('e, 'r) event_queue \<Rightarrow> nat" where
  "queue_load q = length (q_pending q) + sum_list (map (\<lambda>e. length (en_recordCosts e)) (q_pending q))"

lemma trim_count_spec:
  "trim_count l q full count enc ret cs = (whole, n, enc', ret') \<Longrightarrow>
   \<exists>k \<le> length cs. n = count + k \<and> enc' = enc + sum_list (map rc_serialized (take k cs))
     \<and> ret' = ret + sum_list (map rc_retained (take k cs))
     \<and> (cs \<noteq> [] \<longrightarrow> 0 < k) \<and> (whole \<longrightarrow> n = full)
     \<and> (\<not> whole \<longrightarrow> count < full \<longrightarrow> full \<le> count + length cs \<longrightarrow> n < full)"
proof (induction cs arbitrary: count enc ret)
  case Nil
  then show ?case by auto
next
  case (Cons c cs)
  define m enc1 ret1 where m: "m = Suc count" "enc1 = enc + rc_serialized c" "ret1 = ret + rc_retained c"
  define fits where "fits \<longleftrightarrow> q_bytes q - enc1 - int m \<le> maxSerializedBytes l
              \<and> q_records q - int m \<le> maxRecords l
              \<and> (case maxRecordBytes l of None \<Rightarrow> True | Some x \<Rightarrow> q_recordBytes q - ret1 \<le> x)"
  have e: "trim_count l q full count enc ret (c # cs) =
      (if m = full then (True, m, enc1, ret1) else if fits then (False, m, enc1, ret1)
       else trim_count l q full m enc1 ret1 cs)"
    by (simp only: trim_count.simps Let_def m fits_def)
  show ?case
  proof (cases "m = full \<or> fits")
    case True
    then have "n = m \<and> enc' = enc1 \<and> ret' = ret1 \<and> (whole \<longleftrightarrow> m = full)"
      using Cons.prems unfolding e by (auto split: if_splits)
    then show ?thesis by (intro exI [of _ 1]) (auto simp: m)
  next
    case False
    then have "trim_count l q full m enc1 ret1 cs = (whole, n, enc', ret')"
      using Cons.prems unfolding e by simp
    from Cons.IH [OF this] obtain k where "k \<le> length cs" "n = m + k"
        "enc' = enc1 + sum_list (map rc_serialized (take k cs))"
        "ret' = ret1 + sum_list (map rc_retained (take k cs))"
        "whole \<longrightarrow> n = full" "\<not> whole \<longrightarrow> m < full \<longrightarrow> full \<le> m + length cs \<longrightarrow> n < full"
      by blast
    then show ?thesis using False by (intro exI [of _ "Suc k"]) (auto simp: m)
  qed
qed

lemma trim_turn_progress:
  assumes "List.extract (candidate failure incoming) (q_pending q) = Some (before, previous, after)"
    and "trim_turn opts failure before previous after q = Some q'"
  shows "queue_load q' < queue_load q"
proof -
  have p: "q_pending q = before @ previous # after" "candidate failure incoming previous"
    using assms(1) by (auto simp: extract_Some_iff)
  have removed: "queue_load q' < queue_load q" if "remove_at before previous after True q = Some q'"
    using that p(1)
    by (auto simp: remove_at_def drop_count_def splice_out_def releaseCosts_def queue_load_def)
  show ?thesis
  proof (cases "failure = Event_Limit")
    case True
    then show ?thesis using assms(2) removed by (simp add: trim_turn_def)
  next
    case False
    then have c: "en_recordCosts previous \<noteq> []" using p(2) by (simp add: candidate_def)
    obtain records where r: "en_records previous = Some records"
      using p(2) by (auto simp: candidate_def)
    obtain whole n enc ret where t: "trim_count (o_limits opts) q (length records) 0 0 0 (en_recordCosts previous)
        = (whole, n, enc, ret)" by (metis prod_cases4)
    have "0 < n" using trim_count_spec [OF t] c by auto
    then show ?thesis
      using assms(2) False r t removed p(1) c
      by (auto simp: trim_turn_def trimPrefix_def shorten_def drop_count_def Let_def queue_load_def
          bind_eq_Some_conv split: if_splits)
  qed
qed

function trim_loop ::
  "('e, 'r) queue_options \<Rightarrow> nat \<Rightarrow> delivery_failure option \<Rightarrow> ('e, 'r) event_queue
   \<Rightarrow> delivery_failure option option \<times> ('e, 'r) event_queue" where
  "trim_loop opts incoming None q = (Some None, q)"
| "trim_loop opts incoming (Some failure) q =
     (case List.extract (candidate failure incoming) (q_pending q) of
        None \<Rightarrow> (Some (Some failure), q)
      | Some (before, previous, after) \<Rightarrow>
          (case trim_turn opts failure before previous after q of
             None \<Rightarrow> (None, q)
           | Some q' \<Rightarrow> trim_loop opts incoming (limitFailure (o_limits opts) q') q'))"
  by pat_completeness auto
termination
  by (relation "measure (\<lambda>(opts, incoming, failure, q). queue_load q)") (auto dest: trim_turn_progress)

definition trim_queue ::
  "('e, 'r) queue_options \<Rightarrow> ('e, 'r) queue_entry \<Rightarrow> ('e, 'r) event_queue
   \<Rightarrow> delivery_failure option option \<times> ('e, 'r) event_queue" where
  "trim_queue opts incoming q =
     (let failure = limitFailure (o_limits opts) q in
      if failure = None \<or> en_records incoming = None then (Some failure, q)
      else trim_loop opts (en_id incoming) failure q)"

section \<open>The operations\<close>

text \<open>
  The start of a new generation: every pending record batch is dropped (when overflow evicts), then
  the counter restarts. The flag says whether the loop finished without a RangeError.
\<close>

function drop_batches :: "('e, 'r) event_queue \<Rightarrow> bool \<times> ('e, 'r) event_queue" where
  "drop_batches q =
     (case List.extract (\<lambda>e. en_records e \<noteq> None) (q_pending q) of
        None \<Rightarrow> (True, q)
      | Some (before, previous, after) \<Rightarrow>
          (case remove_at before previous after True q of
             None \<Rightarrow> (False, q)
           | Some q' \<Rightarrow> drop_batches q'))"
  by pat_completeness auto
termination
  by (relation "measure (\<lambda>q. length (q_pending q))")
     (auto simp: remove_at_def drop_count_def splice_out_def releaseCosts_def extract_Some_iff)

declare drop_batches.simps [simp del]

definition start_generation ::
  "('e, 'r) queue_options \<Rightarrow> 'e \<Rightarrow> ('e, 'r) event_queue \<Rightarrow> bool \<times> ('e, 'r) event_queue" where
  "start_generation opts event q =
     (if \<not> p_startsGeneration (o_policy opts) event then (True, q)
      else let (done, q') = (if o_overflow opts = Evict_Oldest_Pending_Records then drop_batches q else (True, q))
           in if done then (True, q'\<lparr>q_generation := q_generation q' + 1\<rparr>) else (False, q'))"

definition replace_unsent :: "js_string option \<Rightarrow> ('e, 'r) event_queue \<Rightarrow> ('e, 'r) event_queue" where
  "replace_unsent key q =
     (if key = None then q
      else case List.extract (\<lambda>e. en_replacementKey e = key) (q_pending q) of
             None \<Rightarrow> q
           | Some (before, previous, after) \<Rightarrow> splice_out before previous after q)"

definition push_entry :: "('e, 'r) queue_entry \<Rightarrow> ('e, 'r) event_queue \<Rightarrow> ('e, 'r) event_queue option" where
  "push_entry entry q =
     Option.bind (nonNegativeInteger (q_bytes q + en_serializedBytes entry)) (\<lambda>bytes.
       Option.bind (nonNegativeInteger (q_records q + int (length (en_recordCosts entry)))) (\<lambda>records.
         map_option (\<lambda>record_bytes.
             q\<lparr>q_pending := q_pending q @ [entry], q_bytes := bytes, q_records := records,
               q_recordBytes := record_bytes, q_next_id := q_next_id q + 1\<rparr>)
           (nonNegativeInteger (q_recordBytes q + en_recordBytes entry))))"

definition settle ::
  "('e, 'r) queue_options \<Rightarrow> ('e, 'r) queue_entry \<Rightarrow> ('e, 'r) event_queue
   \<Rightarrow> delivery_failure option \<times> ('e, 'r) event_queue" where
  "settle opts entry q =
     (case (if o_overflow opts = Reject then (Some (limitFailure (o_limits opts) q), q)
            else trim_queue opts entry q) of
        (None, q') \<Rightarrow> (Some Event_Validation, discard (en_id entry) q')
      | (Some failure, q') \<Rightarrow> (failure, if failure = None then q' else discard (en_id entry) q'))"

definition enqueue_event ::
  "('e, 'r) queue_options \<Rightarrow> 'e \<Rightarrow> ('e, 'r) event_queue \<Rightarrow> delivery_failure option \<times> ('e, 'r) event_queue" where
  "enqueue_event opts event q =
     (if q_closed q then (Some Event_Validation, q)
      else case measure_event opts (q_next_id q) 0 event of
             None \<Rightarrow> (Some Event_Validation, q)
           | Some measured \<Rightarrow>
               (case start_generation opts event q of
                  (False, q1) \<Rightarrow> (Some Event_Validation, q1)
                | (True, q1) \<Rightarrow>
                    let entry = measured\<lparr>en_generation := q_generation q1\<rparr>;
                        q2 = replace_unsent (en_replacementKey entry) q1
                    in case push_entry entry q2 of
                         None \<Rightarrow> (Some Event_Validation, q2)
                       | Some q3 \<Rightarrow> settle opts entry q3))"

datatype 'e delivery_begin = Begin_Empty | Begin_Failure delivery_failure | Begin_Lease 'e nat

definition begin_delivery ::
  "('e, 'r) queue_options \<Rightarrow> ('e, 'r) event_queue \<Rightarrow> 'e delivery_begin \<times> ('e, 'r) event_queue" where
  "begin_delivery opts q =
     (if q_closed q \<or> q_inflight q \<noteq> None then (Begin_Empty, q)
      else case q_pending q of
             [] \<Rightarrow> (Begin_Empty, q)
           | entry # others \<Rightarrow>
               (case p_decorateDrops (o_policy opts) (en_event entry) (q_dropped q (en_generation entry)) of
                  None \<Rightarrow> (Begin_Failure Event_Validation, q)
                | Some event \<Rightarrow>
                    if \<not> assertProjection (o_policy opts) event (en_records entry)
                       \<or> (event \<noteq> en_event entry \<and> p_event_bytes (o_policy opts) event > en_serializedBytes entry)
                    then (Begin_Failure Event_Validation, q)
                    else (Begin_Lease event (en_id entry),
                          q\<lparr>q_pending := others, q_inflight := Some entry\<rparr>)))"

text \<open>The \<open>complete\<close> of the lease on entry \<open>i\<close>.\<close>

definition complete_delivery :: "nat \<Rightarrow> ('e, 'r) event_queue \<Rightarrow> ('e, 'r) event_queue" where
  "complete_delivery i q =
     (case q_inflight q of
        None \<Rightarrow> q
      | Some entry \<Rightarrow>
          if q_closed q \<or> en_id entry \<noteq> i then q
          else releaseCosts entry (q\<lparr>q_inflight := None\<rparr>))"

definition close_queue :: "('e, 'r) event_queue \<Rightarrow> ('e, 'r) event_queue" where
  "close_queue q =
     (if q_closed q then q
      else q\<lparr>q_closed := True, q_pending := [], q_inflight := None, q_bytes := 0, q_records := 0,
             q_recordBytes := 0\<rparr>)"

end
