(* ===== verification/Event_Accounting.thy ===== *)
theory Event_Accounting
  imports Event_Queue
begin

text \<open>
  The accounting of the delivery queue. The laws its comments ask of a policy are the locale
  \<open>lawful_policy\<close>; under them the queue's counters are the sums over its entries, its limits hold
  between operations, eviction drops the oldest records and counts each of them once, and a
  decorated event always fits its reservation. The NATS policy interprets the locale in
  \<open>Nats_Delivery\<close>.
\<close>

section \<open>What the queue holds\<close>

definition entries :: "('e, 'r) event_queue \<Rightarrow> ('e, 'r) queue_entry list" where
  "entries q = q_pending q @ (case q_inflight q of None \<Rightarrow> [] | Some e \<Rightarrow> [e])"

definition entry_records :: "('e, 'r) queue_entry \<Rightarrow> 'r list" where
  "entry_records e = (case en_records e of None \<Rightarrow> [] | Some rs \<Rightarrow> rs)"

definition pending_records :: "('e, 'r) event_queue \<Rightarrow> 'r list" where
  "pending_records q = concat (map entry_records (q_pending q))"

definition dropped_total :: "('e, 'r) event_queue \<Rightarrow> int" where
  "dropped_total q = sum_list (map (q_dropped q) [0..<Suc (q_generation q)])"

definition record_count :: "('e, 'r) queue_entry \<Rightarrow> int" where
  "record_count e = int (length (en_recordCosts e))"

definition sums_ok :: "('e, 'r) event_queue \<Rightarrow> bool" where
  "sums_ok q \<longleftrightarrow>
     q_bytes q = sum_list (map en_serializedBytes (entries q))
     \<and> q_records q = sum_list (map record_count (entries q))
     \<and> q_recordBytes q = sum_list (map en_recordBytes (entries q))"

definition ids_ok :: "('e, 'r) event_queue \<Rightarrow> bool" where
  "ids_ok q \<longleftrightarrow> distinct (map en_id (entries q)) \<and> (\<forall>e \<in> set (entries q). en_id e < q_next_id q)"

definition generations_ok :: "('e, 'r) event_queue \<Rightarrow> bool" where
  "generations_ok q \<longleftrightarrow>
     (\<forall>e \<in> set (entries q). en_generation e \<le> q_generation q)
     \<and> (\<forall>g. 0 \<le> q_dropped q g) \<and> (\<forall>g > q_generation q. q_dropped q g = 0)"

definition within_limits :: "delivery_limits \<Rightarrow> ('e, 'r) event_queue \<Rightarrow> bool" where
  "within_limits l q \<longleftrightarrow>
     int (length (entries q)) \<le> maxEvents l \<and> q_bytes q \<le> maxSerializedBytes l
     \<and> q_records q \<le> maxRecords l
     \<and> (case maxRecordBytes l of None \<Rightarrow> True | Some m \<Rightarrow> q_recordBytes q \<le> m)"

lemma length_entries: "int (length (entries q)) = int (length (q_pending q)) + in_flight q"
  by (simp add: entries_def in_flight_def split: option.split)

lemma limitFailure_within: "limitFailure l q = None \<longleftrightarrow> within_limits l q"
  by (auto simp: limitFailure_def within_limits_def length_entries split: option.splits if_splits)

text \<open>The costs of everything but one entry; nothing the trimming does makes them grow.\<close>

definition entry_costs :: "(('e, 'r) queue_entry \<Rightarrow> int) set" where
  "entry_costs = {\<lambda>e. 1, en_serializedBytes, record_count, en_recordBytes}"

definition others_cost :: "nat \<Rightarrow> (('e, 'r) queue_entry \<Rightarrow> int) \<Rightarrow> ('e, 'r) queue_entry list \<Rightarrow> int" where
  "others_cost i f es = sum_list (map f (filter (\<lambda>e. en_id e \<noteq> i) es))"

definition lighter :: "('e, 'r) queue_entry list \<Rightarrow> ('e, 'r) queue_entry list \<Rightarrow> bool" where
  "lighter es fs \<longleftrightarrow> (\<forall>i. \<forall>f \<in> entry_costs. others_cost i f es \<le> others_cost i f fs)"

lemma others_cost_simps [simp]:
  "others_cost i f [] = 0"
  "others_cost i f (e # es) = (if en_id e = i then 0 else f e) + others_cost i f es"
  "others_cost i f (es @ fs) = others_cost i f es + others_cost i f fs"
  by (simp_all add: others_cost_def)

lemma lighter_refl: "lighter es es"
  by (simp add: lighter_def)

lemma lighter_trans: "lighter es fs \<Longrightarrow> lighter fs gs \<Longrightarrow> lighter es gs"
  unfolding lighter_def by (meson order_trans)

lemma others_cost_absent: "i \<notin> set (map en_id es) \<Longrightarrow> others_cost i f es = sum_list (map f es)"
  by (induction es) auto

lemma drops_sum:
  assumes "g \<le> n"
  shows "sum_list (map (d(g := d g + k)) [0..<Suc n]) = sum_list (map d [0..<Suc n]) + (k :: int)"
proof -
  have "[0..<Suc n] = [0..<g] @ g # [Suc g..<Suc n]"
    using assms upt_add_eq_append [of 0 g "Suc n - g"] by (simp add: upt_conv_Cons)
  then show ?thesis
    by (simp del: upt_Suc)
qed

section \<open>Lawful policies\<close>

text \<open>
  \<open>withRecords\<close> changes only the record array, so cutting a record removes its encoding and one
  comma; \<open>decorateDrops\<close> returns the event or a decorated one within the reserve.
\<close>

locale lawful_policy =
  fixes p :: "('e, 'r) delivery_policy"
  assumes records_with: "p_records p e = Some rs \<Longrightarrow> p_records p (p_withRecords p e rs') = Some rs'"
    and bytes_with: "p_records p e = Some rs \<Longrightarrow> k < length rs \<Longrightarrow>
      p_event_bytes p (p_withRecords p e (drop k rs))
        + sum_list (map (p_record_bytes p) (take k rs)) + int k = p_event_bytes p e"
    and reserve_with: "p_records p e = Some rs \<Longrightarrow>
      p_decorationReserveBytes p (p_withRecords p e rs') = p_decorationReserveBytes p e"
    and event_bytes_nonneg: "0 \<le> p_event_bytes p e"
    and record_bytes_nonneg: "0 \<le> p_record_bytes p r"
    and decorated_records: "p_decorateDrops p e d = Some e' \<Longrightarrow> p_records p e' = p_records p e"
    and decorated_bytes: "p_decorateDrops p e d = Some e' \<Longrightarrow> 0 \<le> p_decorationReserveBytes p e \<Longrightarrow>
      e' = e \<or> p_event_bytes p e' \<le> p_event_bytes p e + p_decorationReserveBytes p e"
begin

definition entry_ok :: "overflow \<Rightarrow> ('e, 'r) queue_entry \<Rightarrow> bool" where
  "entry_ok mode e \<longleftrightarrow>
     en_records e = p_records p (en_event e)
     \<and> length (en_recordCosts e) = length (entry_records e)
     \<and> (mode = Evict_Oldest_Pending_Records \<longrightarrow>
          map rc_serialized (en_recordCosts e) = map (p_record_bytes p) (entry_records e))
     \<and> (\<forall>c \<in> set (en_recordCosts e). 0 \<le> rc_retained c)
     \<and> en_recordBytes e = sum_list (map rc_retained (en_recordCosts e))
     \<and> 0 \<le> p_decorationReserveBytes p (en_event e)
     \<and> en_serializedBytes e = p_event_bytes p (en_event e) + p_decorationReserveBytes p (en_event e)
     \<and> (en_replacementKey e \<noteq> None \<longrightarrow> en_records e = None)"

definition queue_ok :: "overflow \<Rightarrow> ('e, 'r) event_queue \<Rightarrow> bool" where
  "queue_ok mode q \<longleftrightarrow>
     (\<forall>e \<in> set (entries q). entry_ok mode e) \<and> sums_ok q \<and> ids_ok q \<and> generations_ok q
     \<and> (q_closed q \<longrightarrow> entries q = [])"

lemma entry_costs_nonneg: "entry_ok mode e \<Longrightarrow> f \<in> entry_costs \<Longrightarrow> 0 \<le> f e"
  using event_bytes_nonneg [of "en_event e"]
  by (auto simp: entry_ok_def entry_costs_def record_count_def intro!: sum_list_nonneg)

lemma assert_iff: "assertProjection p e rs \<longleftrightarrow> p_records p e = rs"
  unfolding assertProjection_def by (auto simp: list_all2_eq list_all2_lengthD split: option.splits)

text \<open>Cutting a proper prefix keeps an entry consistent.\<close>

lemma shorten_entry:
  assumes ok: "entry_ok Evict_Oldest_Pending_Records e" and rs: "en_records e = Some rs"
    and k: "k < length rs"
  defines "e' \<equiv> e\<lparr>en_event := p_withRecords p (en_event e) (drop k rs), en_records := Some (drop k rs),
      en_recordCosts := drop k (en_recordCosts e),
      en_serializedBytes := en_serializedBytes e
        - (sum_list (map rc_serialized (take k (en_recordCosts e))) + int k),
      en_recordBytes := en_recordBytes e - sum_list (map rc_retained (take k (en_recordCosts e)))\<rparr>"
  shows "entry_ok Evict_Oldest_Pending_Records e' \<and> en_id e' = en_id e \<and> en_generation e' = en_generation e
     \<and> (\<forall>f \<in> entry_costs. f e' \<le> f e)"
proof -
  have r: "p_records p (en_event e) = Some rs" using ok rs by (simp add: entry_ok_def)
  have s: "map rc_serialized (en_recordCosts e) = map (p_record_bytes p) rs"
    using ok rs by (simp add: entry_ok_def entry_records_def)
  then have t: "map rc_serialized (take k (en_recordCosts e)) = map (p_record_bytes p) (take k rs)"
    by (simp flip: take_map)
  have d: "map rc_serialized (drop k (en_recordCosts e)) = map (p_record_bytes p) (drop k rs)"
    using s by (simp flip: drop_map)
  have nonneg: "0 \<le> sum_list (map (p_record_bytes p) (take k rs))"
    by (rule sum_list_map_nonneg) (rule record_bytes_nonneg)
  have retained: "0 \<le> sum_list (map rc_retained (take k (en_recordCosts e)))"
    using ok by (intro sum_list_map_nonneg) (auto simp: entry_ok_def dest: in_set_takeD)
  have "entry_ok Evict_Oldest_Pending_Records e'"
    using ok rs k records_with [OF r] bytes_with [OF r k] reserve_with [OF r] t d
    by (auto simp: e'_def entry_ok_def entry_records_def sum_list_map_drop dest: in_set_dropD)
  then show ?thesis
    using nonneg retained t by (auto simp: e'_def entry_costs_def record_count_def)
qed

end


section \<open>Taking out and trimming entries\<close>

definition same_context :: "('e, 'r) event_queue \<Rightarrow> ('e, 'r) event_queue \<Rightarrow> bool" where
  "same_context q' q \<longleftrightarrow> q_inflight q' = q_inflight q \<and> q_generation q' = q_generation q
     \<and> q_next_id q' = q_next_id q \<and> q_closed q' = q_closed q"

text \<open>The records that went, and were counted: a prefix of the pending ones.\<close>

definition evicts :: "('e, 'r) event_queue \<Rightarrow> ('e, 'r) event_queue \<Rightarrow> bool" where
  "evicts q' q \<longleftrightarrow> (\<exists>k \<le> length (pending_records q).
     pending_records q' = drop k (pending_records q) \<and> dropped_total q' = dropped_total q + int k)"

definition last_only :: "nat \<Rightarrow> ('e, 'r) event_queue \<Rightarrow> bool" where
  "last_only i q \<longleftrightarrow> i \<notin> set (map en_id (butlast (q_pending q)))"

lemma evicts_refl: "evicts q q"
  by (auto simp: evicts_def)

lemma evicts_trans: "evicts q2 q1 \<Longrightarrow> evicts q1 q0 \<Longrightarrow> evicts q2 q0"
  unfolding evicts_def
proof (elim exE conjE)
  fix k j
  assume "k \<le> length (pending_records q1)" "pending_records q2 = drop k (pending_records q1)"
    "dropped_total q2 = dropped_total q1 + int k"
    "j \<le> length (pending_records q0)" "pending_records q1 = drop j (pending_records q0)"
    "dropped_total q1 = dropped_total q0 + int j"
  then show "\<exists>k \<le> length (pending_records q0). pending_records q2 = drop k (pending_records q0)
      \<and> dropped_total q2 = dropped_total q0 + int k"
    by (intro exI [of _ "j + k"]) (auto simp: drop_drop add.commute)
qed

context lawful_policy
begin

lemma entry_records_length: "entry_ok mode e \<Longrightarrow> length (entry_records e) = length (en_recordCosts e)"
  by (simp add: entry_ok_def)

lemma splice_ok:
  assumes ok: "queue_ok mode q" and p: "q_pending q = before @ e # after"
  shows "queue_ok mode (splice_out before e after q)
     \<and> same_context (splice_out before e after q) q
     \<and> lighter (q_pending (splice_out before e after q)) (q_pending q)"
proof -
  let ?q = "splice_out before e after q"
  have s: "q_pending ?q = before @ after" "q_inflight ?q = q_inflight q" "q_generation ?q = q_generation q"
      "q_next_id ?q = q_next_id q" "q_closed ?q = q_closed q" "q_dropped ?q = q_dropped q"
      "q_bytes ?q = q_bytes q - en_serializedBytes e" "q_records ?q = q_records q - record_count e"
      "q_recordBytes ?q = q_recordBytes q - en_recordBytes e"
    by (simp_all add: splice_out_def releaseCosts_def record_count_def)
  have sub: "set (entries ?q) \<subseteq> set (entries q)" using s p by (auto simp: entries_def)
  have "sums_ok ?q" using ok s p by (simp add: queue_ok_def sums_ok_def entries_def)
  moreover have "ids_ok ?q" using ok s p by (auto simp: queue_ok_def ids_ok_def entries_def)
  moreover have "generations_ok ?q" using ok s sub by (auto simp: queue_ok_def generations_ok_def)
  moreover have "\<forall>e \<in> set (entries ?q). entry_ok mode e" using ok sub by (auto simp: queue_ok_def)
  moreover have "q_closed ?q \<longrightarrow> entries ?q = []" using ok s p by (auto simp: queue_ok_def entries_def)
  moreover have "entry_ok mode e" using ok p by (simp add: queue_ok_def entries_def)
  then have "lighter (q_pending ?q) (q_pending q)"
    using s(1) p entry_costs_nonneg by (auto simp: lighter_def)
  ultimately show ?thesis using s by (simp add: queue_ok_def same_context_def)
qed

lemma drop_count_ok:
  assumes ok: "queue_ok mode q" and d: "drop_count g (int n) q = Some q'" and g: "g \<le> q_generation q"
  shows "queue_ok mode q' \<and> same_context q' q \<and> q_pending q' = q_pending q
     \<and> dropped_total q' = dropped_total q + int n"
proof -
  have q': "q' = q\<lparr>q_dropped := (q_dropped q)(g := q_dropped q g + int n)\<rparr>"
    using d by (auto simp: drop_count_def nonNegativeInteger_def split: if_splits)
  have e: "entries q' = entries q" by (simp add: q' entries_def)
  have "queue_ok mode q'"
    using ok g unfolding queue_ok_def e
    by (auto simp: q' sums_ok_def ids_ok_def generations_ok_def e [unfolded q'])
  then show ?thesis
    using drops_sum [OF g, of "q_dropped q" "int n"] by (simp add: q' same_context_def dropped_total_def)
qed

lemma remove_turn:
  assumes ok: "queue_ok mode q" and p: "q_pending q = before @ e # after"
    and r: "remove_at before e after True q = Some q'"
    and front: "concat (map entry_records before) = []"
  shows "queue_ok mode q' \<and> same_context q' q \<and> lighter (q_pending q') (q_pending q) \<and> evicts q' q
     \<and> q_pending q' = before @ after"
proof -
  obtain q1 where d: "drop_count (en_generation e) (int (length (en_recordCosts e))) q = Some q1"
      and q': "q' = splice_out before e after q1"
    using r by (auto simp: remove_at_def)
  have e: "entry_ok mode e" "en_generation e \<le> q_generation q"
    using ok p by (auto simp: queue_ok_def entries_def generations_ok_def)
  note q1 = drop_count_ok [OF ok d e(2)]
  then have s: "queue_ok mode q'" "same_context q' q1" "lighter (q_pending q') (q_pending q1)"
    using splice_ok [of mode q1 before e after] p q' by auto
  have pe: "q_pending q' = before @ after" by (simp add: q' splice_out_def releaseCosts_def)
  have dr: "dropped_total q' = dropped_total q1"
    by (simp add: q' splice_out_def releaseCosts_def dropped_total_def)
  have "pending_records q = entry_records e @ concat (map entry_records after)"
    using p front by (simp add: pending_records_def)
  moreover have "pending_records q' = concat (map entry_records after)"
    using pe front by (simp add: pending_records_def)
  ultimately have "evicts q' q"
    using q1 dr entry_records_length [OF e(1)]
    by (auto simp: evicts_def intro!: exI [of _ "length (entry_records e)"])
  then show ?thesis using s q1 pe by (simp add: same_context_def)
qed

lemma lighter_replace:
  assumes "entry_ok mode e" and "en_id e' = en_id e" and "\<forall>f \<in> entry_costs. f e' \<le> f e"
  shows "lighter (before @ e' # after) (before @ e # after)"
  using assms by (auto simp: lighter_def)

lemma shorten_turn:
  assumes ok: "queue_ok Evict_Oldest_Pending_Records q" and p: "q_pending q = before @ e # after"
    and rs: "en_records e = Some rs" and k: "k < length rs"
    and r: "shorten p k (sum_list (map rc_serialized (take k (en_recordCosts e)))) 
              (sum_list (map rc_retained (take k (en_recordCosts e)))) rs before e after q = Some q'"
    and front: "concat (map entry_records before) = []"
  shows "queue_ok Evict_Oldest_Pending_Records q' \<and> same_context q' q
     \<and> lighter (q_pending q') (q_pending q) \<and> evicts q' q
     \<and> (\<exists>e'. q_pending q' = before @ e' # after \<and> en_id e' = en_id e)"
proof -
  define enc ret where er: "enc = sum_list (map rc_serialized (take k (en_recordCosts e)))"
    "ret = sum_list (map rc_retained (take k (en_recordCosts e)))"
  define e' where "e' = e\<lparr>en_event := p_withRecords p (en_event e) (drop k rs), en_records := Some (drop k rs),
      en_recordCosts := drop k (en_recordCosts e),
      en_serializedBytes := en_serializedBytes e - (enc + int k),
      en_recordBytes := en_recordBytes e - ret\<rparr>"
  have e: "entry_ok Evict_Oldest_Pending_Records e" "en_generation e \<le> q_generation q"
    using ok p by (auto simp: queue_ok_def entries_def generations_ok_def)
  have e': "entry_ok Evict_Oldest_Pending_Records e'" "en_id e' = en_id e" "en_generation e' = en_generation e"
      "\<forall>f \<in> entry_costs. f e' \<le> f e"
    using shorten_entry [OF e(1) rs k] by (simp_all add: e'_def er)
  obtain q1 where d: "drop_count (en_generation e) (int k) q = Some q1"
      and q': "q' = q1\<lparr>q_pending := before @ e' # after, q_bytes := q_bytes q1 - (enc + int k),
                      q_records := q_records q1 - int k, q_recordBytes := q_recordBytes q1 - ret\<rparr>"
    using r by (auto simp: shorten_def Let_def bind_eq_Some_conv er [symmetric] e'_def split: if_splits)
  note q1 = drop_count_ok [OF ok d e(2)]
  have len: "length (en_recordCosts e) = length rs" "record_count e' = record_count e - int k"
    using e(1) rs k by (auto simp: entry_ok_def entry_records_def e'_def record_count_def)
  have ent: "entries q1 = before @ e # after @ (case q_inflight q of None \<Rightarrow> [] | Some e \<Rightarrow> [e])"
      "entries q' = before @ e' # after @ (case q_inflight q of None \<Rightarrow> [] | Some e \<Rightarrow> [e])"
    using q1 p by (simp_all add: entries_def q' same_context_def)
  have "sums_ok q'"
    using q1 len unfolding queue_ok_def sums_ok_def ent by (simp add: q' e'_def record_count_def)
  moreover have "ids_ok q'" using q1 e' unfolding queue_ok_def ids_ok_def ent by (auto simp: q')
  moreover have "generations_ok q'" using q1 e' unfolding queue_ok_def generations_ok_def ent by (auto simp: q')
  moreover have "\<forall>e \<in> set (entries q'). entry_ok Evict_Oldest_Pending_Records e"
    using q1 e' unfolding queue_ok_def ent by auto
  moreover have "q_closed q' \<longrightarrow> entries q' = []" using q1 unfolding queue_ok_def ent by (auto simp: q')
  ultimately have okq: "queue_ok Evict_Oldest_Pending_Records q'" by (simp add: queue_ok_def)
  have "pending_records q = rs @ concat (map entry_records after)"
    using p front rs by (simp add: pending_records_def entry_records_def)
  moreover have "pending_records q' = drop k rs @ concat (map entry_records after)"
    using front by (simp add: pending_records_def entry_records_def q' e'_def)
  moreover have "dropped_total q' = dropped_total q + int k"
    using q1 by (simp add: q' dropped_total_def)
  ultimately have "evicts q' q" using k by (auto simp: evicts_def intro!: exI [of _ k])
  moreover have "lighter (q_pending q') (q_pending q)"
    using lighter_replace [OF e(1) e'(2,4)] p by (simp add: q')
  ultimately show ?thesis using okq q1 e' by (auto simp: q' same_context_def)
qed

end


section \<open>The trimming loop\<close>

context lawful_policy
begin

text \<open>No record is pending before the first candidate, so what goes is the oldest.\<close>

lemma front_empty:
  assumes ok: "queue_ok mode q" and x: "List.extract (candidate failure i) (q_pending q) = Some (before, e, after)"
    and l: "last_only i q"
  shows "concat (map entry_records before) = []"
proof -
  have p: "q_pending q = before @ e # after" and c: "\<forall>b \<in> set before. \<not> candidate failure i b"
    using x by (auto simp: extract_Some_iff)
  have "entry_records b = []" if b: "b \<in> set before" for b
  proof -
    have "en_id b \<noteq> i" using b l p by (cases after rule: rev_cases) (auto simp: last_only_def butlast_append)
    then have "en_records b = None \<or> en_recordCosts b = []"
      using c b by (auto simp: candidate_def split: if_splits)
    moreover have "entry_ok mode b" using ok p b by (auto simp: queue_ok_def entries_def)
    ultimately show ?thesis by (auto simp: entry_ok_def entry_records_def)
  qed
  then show ?thesis by auto
qed

lemma trim_turn_ok:
  assumes mode: "o_overflow opts = Evict_Oldest_Pending_Records" and policy: "o_policy opts = p"
    and ok: "queue_ok Evict_Oldest_Pending_Records q"
    and x: "List.extract (candidate failure i) (q_pending q) = Some (before, e, after)"
    and l: "last_only i q" and t: "trim_turn opts failure before e after q = Some q'"
  shows "queue_ok Evict_Oldest_Pending_Records q' \<and> same_context q' q
     \<and> lighter (q_pending q') (q_pending q) \<and> evicts q' q \<and> last_only i q'"
proof -
  have p: "q_pending q = before @ e # after" and c: "candidate failure i e"
    using x by (auto simp: extract_Some_iff)
  note front = front_empty [OF ok x l]
  have l1: "last_only i q'" if "q_pending q' = before @ after"
    using l that p by (cases after rule: rev_cases) (auto simp: last_only_def butlast_append split: if_splits dest: in_set_butlastD)
  have l2: "last_only i q'" if "q_pending q' = before @ e' # after" "en_id e' = en_id e" for e'
    using l that p by (auto simp: last_only_def butlast_append split: if_splits)
  show ?thesis
  proof (cases "remove_at before e after True q = Some q'")
    case True
    then show ?thesis using remove_turn [OF ok p True front] l1 by blast
  next
    case False
    then obtain rs whole k enc ret where rs: "en_records e = Some rs" and f: "failure \<noteq> Event_Limit"
        and tc: "trim_count (o_limits opts) q (length rs) 0 0 0 (en_recordCosts e) = (whole, k, enc, ret)"
        and s: "\<not> whole" "shorten (o_policy opts) k enc ret rs before e after q = Some q'"
      using t by (auto simp: trim_turn_def trimPrefix_def split: option.splits prod.splits if_splits)
    have e: "entry_ok Evict_Oldest_Pending_Records e" using ok p by (simp add: queue_ok_def entries_def)
    then have len: "length (en_recordCosts e) = length rs" "en_recordCosts e \<noteq> []"
      using rs c f by (auto simp: entry_ok_def entry_records_def candidate_def)
    have k: "k < length rs" "enc = sum_list (map rc_serialized (take k (en_recordCosts e)))"
        "ret = sum_list (map rc_retained (take k (en_recordCosts e)))"
      using trim_count_spec [OF tc] s(1) len by auto
    show ?thesis
      using shorten_turn [OF ok p rs k(1) s(2) [unfolded policy k(2,3)] front] l2 by blast
  qed
qed

lemma trim_loop_ok:
  assumes "o_overflow opts = Evict_Oldest_Pending_Records" and "o_policy opts = p"
    and "queue_ok Evict_Oldest_Pending_Records q" and "last_only i q"
    and "failure = limitFailure (o_limits opts) q"
    and "trim_loop opts i failure q = (result, q')"
  shows "queue_ok Evict_Oldest_Pending_Records q' \<and> same_context q' q
     \<and> lighter (q_pending q') (q_pending q) \<and> evicts q' q
     \<and> (\<forall>verdict. result = Some verdict \<longrightarrow> verdict = limitFailure (o_limits opts) q')"
  using assms
proof (induction opts i failure q rule: trim_loop.induct)
  case (1 opts i q)
  then show ?case by (auto simp: same_context_def lighter_refl evicts_refl)
next
  case (2 opts i failure q)
  show ?case
  proof (cases "List.extract (candidate failure i) (q_pending q)")
    case None
    then have "result = Some (Some failure) \<and> q' = q" using 2(7) by simp
    then show ?thesis using 2(4,6) by (simp add: same_context_def lighter_refl evicts_refl)
  next
    case (Some found)
    obtain before e after where f: "found = (before, e, after)" by (cases found)
    show ?thesis
    proof (cases "trim_turn opts failure before e after q")
      case None
      then have "result = None \<and> q' = q" using 2(7) Some f by simp
      then show ?thesis using 2(4) by (simp add: same_context_def lighter_refl evicts_refl)
    next
      case turn: (Some q1)
      note t = trim_turn_ok [OF 2(2,3,4) Some [unfolded f] 2(5) turn]
      have "trim_loop opts i (limitFailure (o_limits opts) q1) q1 = (result, q')"
        using 2(7) Some f turn by simp
      from 2(1) [OF Some f [symmetric] refl turn 2(2,3) _ _ refl this] t
      have "queue_ok Evict_Oldest_Pending_Records q' \<and> same_context q' q1
         \<and> lighter (q_pending q') (q_pending q1) \<and> evicts q' q1
         \<and> (\<forall>verdict. result = Some verdict \<longrightarrow> verdict = limitFailure (o_limits opts) q')"
        by blast
      then show ?thesis using t lighter_trans evicts_trans by (auto simp: same_context_def)
    qed
  qed
qed

section \<open>Starting a generation, replacing and pushing\<close>

lemma drop_batches_ok:
  assumes "queue_ok mode q" and "drop_batches q = (finished, q')"
  shows "queue_ok mode q' \<and> same_context q' q \<and> lighter (q_pending q') (q_pending q) \<and> evicts q' q
     \<and> (finished \<longrightarrow> (\<forall>e \<in> set (q_pending q'). en_records e = None))"
  using assms
proof (induction q rule: drop_batches.induct)
  case (1 q)
  show ?case
  proof (cases "List.extract (\<lambda>e. en_records e \<noteq> None) (q_pending q)")
    case None
    then have "drop_batches q = (True, q)" by (subst drop_batches.simps) (simp only: option.case)
    moreover have "\<forall>e \<in> set (q_pending q). en_records e = None" using None by (simp only: extract_None_iff) auto
    ultimately show ?thesis
      using "1.prems" by (simp add: same_context_def lighter_refl evicts_refl)
  next
    case (Some found)
    obtain before e after where f: "found = (before, e, after)" by (cases found)
    then have p: "q_pending q = before @ e # after" and b: "\<forall>x \<in> set before. en_records x = None"
      using Some by (auto simp: extract_Some_iff)
    have front: "concat (map entry_records before) = []" using b by (auto simp: entry_records_def)
    show ?thesis
    proof (cases "remove_at before e after True q")
      case None
      then have "drop_batches q = (False, q)"
        using Some f by (subst drop_batches.simps) (simp only: option.case prod.case)
      then show ?thesis
        using "1.prems" by (simp add: same_context_def lighter_refl evicts_refl)
    next
      case turn: (Some q1)
      note t = remove_turn [OF "1.prems"(1) p turn front]
      have "drop_batches q1 = (finished, q')"
        using "1.prems"(2) unfolding drop_batches.simps [of q] by (simp only: Some f turn option.case prod.case)
      from "1.IH" [OF Some f [symmetric] refl turn _ this] t show ?thesis
        using lighter_trans evicts_trans by (auto simp: same_context_def)
    qed
  qed
qed

lemma next_generation_ok:
  assumes "queue_ok mode q"
  shows "queue_ok mode (q\<lparr>q_generation := q_generation q + 1\<rparr>)
     \<and> pending_records (q\<lparr>q_generation := q_generation q + 1\<rparr>) = pending_records q
     \<and> dropped_total (q\<lparr>q_generation := q_generation q + 1\<rparr>) = dropped_total q"
  using assms
  by (auto simp: queue_ok_def sums_ok_def ids_ok_def generations_ok_def entries_def dropped_total_def
      pending_records_def le_SucI)

definition carries_on :: "overflow \<Rightarrow> ('e, 'r) event_queue \<Rightarrow> ('e, 'r) event_queue \<Rightarrow> bool" where
  "carries_on mode q' q \<longleftrightarrow> queue_ok mode q' \<and> q_inflight q' = q_inflight q \<and> q_next_id q' = q_next_id q
     \<and> q_closed q' = q_closed q \<and> lighter (q_pending q') (q_pending q) \<and> evicts q' q"

lemma carries_on_trans: "carries_on mode q2 q1 \<Longrightarrow> carries_on mode q1 q0 \<Longrightarrow> carries_on mode q2 q0"
  unfolding carries_on_def using lighter_trans evicts_trans by metis

lemma start_generation_ok:
  assumes ok: "queue_ok mode q" and s: "start_generation opts event q = (finished, q')"
  shows "carries_on mode q' q"
proof -
  have next_gen: "carries_on mode (q1\<lparr>q_generation := q_generation q1 + 1\<rparr>) q" if "carries_on mode q1 q" for q1
    using that next_generation_ok [of mode q1] by (auto simp: carries_on_def evicts_def)
  have self: "carries_on mode q q" using ok by (simp add: carries_on_def lighter_refl evicts_refl)
  show ?thesis
  proof (cases "p_startsGeneration (o_policy opts) event \<and> o_overflow opts = Evict_Oldest_Pending_Records")
    case False
    then show ?thesis using s self next_gen by (auto simp: start_generation_def split: if_splits)
  next
    case True
    obtain fin q1 where d: "drop_batches q = (fin, q1)" by fastforce
    have "carries_on mode q1 q" using drop_batches_ok [OF ok d] by (simp add: carries_on_def same_context_def)
    then show ?thesis using s True d next_gen by (auto simp: start_generation_def split: if_splits)
  qed
qed

lemma replace_unsent_ok:
  assumes ok: "queue_ok mode q"
  shows "carries_on mode (replace_unsent key q) q"
proof (cases "List.extract (\<lambda>e. en_replacementKey e = key) (q_pending q)")
  case None
  then show ?thesis using ok by (simp add: replace_unsent_def carries_on_def lighter_refl evicts_refl)
next
  case (Some found)
  obtain before e after where f: "found = (before, e, after)" by (cases found)
  have p: "q_pending q = before @ e # after" and k: "en_replacementKey e = key"
    using Some f by (auto simp: extract_Some_iff)
  show ?thesis
  proof (cases "key = None")
    case True
    then show ?thesis using ok by (simp add: replace_unsent_def carries_on_def lighter_refl evicts_refl)
  next
    case False
    have "entry_ok mode e" using ok p by (simp add: queue_ok_def entries_def)
    then have "entry_records e = []" using False k by (auto simp: entry_ok_def entry_records_def)
    then have "pending_records (splice_out before e after q) = pending_records q"
      using p by (simp add: pending_records_def splice_out_def releaseCosts_def)
    moreover have "dropped_total (splice_out before e after q) = dropped_total q"
      by (simp add: dropped_total_def splice_out_def releaseCosts_def)
    ultimately show ?thesis
      using splice_ok [OF ok p] Some f False
      by (auto simp: replace_unsent_def carries_on_def same_context_def evicts_def)
  qed
qed

lemma push_ok:
  assumes ok: "queue_ok mode q" and e: "entry_ok mode e" "en_generation e = q_generation q"
    and fresh: "en_id e = q_next_id q"
    and live: "\<not> q_closed q" and push: "push_entry e q = Some q'"
  shows "queue_ok mode q' \<and> same_context (q'\<lparr>q_next_id := q_next_id q\<rparr>) q \<and> q_pending q' = q_pending q @ [e]
     \<and> dropped_total q' = dropped_total q"
proof -
  have q': "q' = q\<lparr>q_pending := q_pending q @ [e], q_bytes := q_bytes q + en_serializedBytes e,
       q_records := q_records q + record_count e, q_recordBytes := q_recordBytes q + en_recordBytes e,
       q_next_id := q_next_id q + 1\<rparr>"
    using push by (auto simp: push_entry_def bind_eq_Some_conv nonNegativeInteger_def record_count_def split: if_splits)
  have ent: "set (entries q') = insert e (set (entries q))"
      "entries q' = q_pending q @ e # (case q_inflight q of None \<Rightarrow> [] | Some x \<Rightarrow> [x])"
    by (auto simp: q' entries_def)
  have "sums_ok q'" using ok unfolding queue_ok_def sums_ok_def ent(2) by (simp add: q' entries_def)
  moreover have "ids_ok q'"
    using ok unfolding queue_ok_def ids_ok_def ent(1) unfolding ent(2)
    by (auto simp: q' fresh entries_def less_Suc_eq)
  moreover have "generations_ok q'" using ok e(2) unfolding queue_ok_def generations_ok_def ent(1) by (simp add: q')
  ultimately have "queue_ok mode q'"
    using ok e(1) live unfolding queue_ok_def ent(1) by (simp add: q')
  then show ?thesis by (simp add: q' same_context_def dropped_total_def)
qed

end


section \<open>The operations keep the limits\<close>

definition total_cost :: "(('e, 'r) queue_entry \<Rightarrow> int) \<Rightarrow> ('e, 'r) event_queue \<Rightarrow> int" where
  "total_cost f q = sum_list (map f (entries q))"

lemma within_limits_mono:
  assumes "sums_ok q'" "sums_ok q" and "\<forall>f \<in> entry_costs. total_cost f q' \<le> total_cost f q"
    and "within_limits l q"
  shows "within_limits l q'"
proof -
  have "int (length (entries q')) \<le> int (length (entries q))"
    using assms(3) by (auto simp: entry_costs_def total_cost_def sum_list_triv)
  moreover have "q_bytes q' \<le> q_bytes q" "q_records q' \<le> q_records q" "q_recordBytes q' \<le> q_recordBytes q"
    using assms(1-3) by (auto simp: entry_costs_def total_cost_def sums_ok_def)
  ultimately show ?thesis using assms(4) by (auto simp: within_limits_def split: option.splits)
qed

lemma lighter_pending:
  assumes "lighter (q_pending q') (q_pending q)" and "ids_ok q'" "ids_ok q"
    and "q_inflight q' = q_inflight q" and "q_next_id q' = q_next_id q"
  shows "\<forall>f \<in> entry_costs. total_cost f q' \<le> total_cost f q"
proof
  fix f :: "('a, 'b) queue_entry \<Rightarrow> int"
  assume f: "f \<in> entry_costs"
  have a: "q_next_id q \<notin> set (map en_id (q_pending q'))" "q_next_id q \<notin> set (map en_id (q_pending q))"
    using assms(2,3,5) by (auto simp: ids_ok_def entries_def)
  then have "sum_list (map f (q_pending q')) \<le> sum_list (map f (q_pending q))"
    using assms(1) f others_cost_absent [OF a(1), of f] others_cost_absent [OF a(2), of f]
    unfolding lighter_def by metis
  then show "total_cost f q' \<le> total_cost f q"
    using assms(4) by (simp add: total_cost_def entries_def)
qed

context lawful_policy
begin

lemma discard_ok:
  assumes ok: "queue_ok mode q"
  shows "queue_ok mode (discard i q) \<and> same_context (discard i q) q
     \<and> (\<forall>f \<in> entry_costs. sum_list (map f (q_pending (discard i q))) = others_cost i f (q_pending q))"
proof (cases "List.extract (\<lambda>e. en_id e = i) (q_pending q)")
  case None
  then have "i \<notin> set (map en_id (q_pending q))" by (auto simp: extract_None_iff)
  then show ?thesis
    using ok None others_cost_absent [of i "q_pending q"] by (simp add: discard_def same_context_def)
next
  case (Some found)
  obtain before e after where f: "found = (before, e, after)" by (cases found)
  have p: "q_pending q = before @ e # after" and e: "en_id e = i"
    using Some f by (auto simp: extract_Some_iff)
  have "distinct (map en_id (before @ e # after))"
    using ok p by (auto simp: queue_ok_def ids_ok_def entries_def)
  then have "i \<notin> set (map en_id (before @ after))" using e by auto
  then have "sum_list (map f (before @ after)) = others_cost i f (q_pending q)" for f
    using others_cost_absent [of i "before @ after" f] p e by simp
  then show ?thesis
    using splice_ok [OF ok p] Some f by (simp add: discard_def splice_out_def releaseCosts_def)
qed

text \<open>An admission that does not fit leaves the other entries no heavier than they were.\<close>

definition admits :: "('e, 'r) queue_options \<Rightarrow> ('e, 'r) queue_entry \<Rightarrow> delivery_failure option
    \<Rightarrow> ('e, 'r) event_queue \<Rightarrow> ('e, 'r) event_queue \<Rightarrow> bool" where
  "admits opts e failure q' q \<longleftrightarrow>
     queue_ok (o_overflow opts) q' \<and> within_limits (o_limits opts) q' \<and> q_inflight q' = q_inflight q
     \<and> q_closed q' = q_closed q
     \<and> (failure = None \<longrightarrow>
          (\<exists>k \<le> length (pending_records q @ entry_records e).
             pending_records q' = drop k (pending_records q @ entry_records e)
             \<and> dropped_total q' = dropped_total q + int k
             \<and> (o_overflow opts = Reject \<longrightarrow> k = 0)))"

lemma settle_ok:
  assumes policy: "o_policy opts = p" and ok: "queue_ok (o_overflow opts) q"
    and within: "within_limits (o_limits opts) q"
    and e: "entry_ok (o_overflow opts) e" "en_generation e = q_generation q"
    and fresh: "en_id e = q_next_id q"
    and live: "\<not> q_closed q" and push: "push_entry e q = Some q1"
    and settle: "settle opts e q1 = (failure, q')"
  shows "admits opts e failure q' q"
proof -
  note q1 = push_ok [OF ok e fresh live push]
  have p1: "q_pending q1 = q_pending q @ [e]" using q1 by blast
  have absent: "en_id e \<notin> set (map en_id (q_pending q))" using ok
    by (auto simp: fresh queue_ok_def ids_ok_def entries_def)
  have records: "pending_records q1 = pending_records q @ entry_records e"
    by (simp add: pending_records_def p1)
  obtain verdict q2 where v: "(if o_overflow opts = Reject then (Some (limitFailure (o_limits opts) q1), q1)
            else trim_queue opts e q1) = (verdict, q2)" by fastforce
  have q2: "queue_ok (o_overflow opts) q2 \<and> same_context q2 q1 \<and> lighter (q_pending q2) (q_pending q1)
      \<and> evicts q2 q1 \<and> (verdict = Some None \<longrightarrow> within_limits (o_limits opts) q2)
      \<and> (o_overflow opts = Reject \<longrightarrow> q2 = q1)"
  proof (cases "o_overflow opts = Reject \<or> limitFailure (o_limits opts) q1 = None \<or> en_records e = None")
    case True
    then have "verdict = Some (limitFailure (o_limits opts) q1) \<and> q2 = q1"
      using v by (auto simp: trim_queue_def Let_def split: if_splits)
    then show ?thesis
      using q1 by (auto simp: same_context_def lighter_refl evicts_refl limitFailure_within)
  next
    case False
    then have mode: "o_overflow opts = Evict_Oldest_Pending_Records" by (cases "o_overflow opts") auto
    have "last_only (en_id e) q1" using absent by (simp add: last_only_def p1)
    moreover have "trim_loop opts (en_id e) (limitFailure (o_limits opts) q1) q1 = (verdict, q2)"
      using v False by (auto simp: trim_queue_def Let_def)
    ultimately show ?thesis
      using trim_loop_ok [OF mode policy _ _ refl, of q1 "en_id e" verdict q2] q1 mode
      by (auto simp flip: limitFailure_within)
  qed
  have q': "q' = (if verdict = Some None then q2 else discard (en_id e) q2) \<and> (failure = None \<longrightarrow> verdict = Some None)"
    using settle v by (auto simp: settle_def split: option.splits if_splits)
  show ?thesis
  proof (cases "verdict = Some None")
    case True
    then show ?thesis
      using q' q1 q2 records by (auto simp: admits_def same_context_def evicts_def)
  next
    case False
    note d = discard_ok [of "o_overflow opts" q2 "en_id e"]
    have "\<forall>f \<in> entry_costs. total_cost f q' \<le> total_cost f q"
    proof
      fix f :: "('e, 'r) queue_entry \<Rightarrow> int"
      assume f: "f \<in> entry_costs"
      have "sum_list (map f (q_pending q')) = others_cost (en_id e) f (q_pending q2)"
        using d q2 q' False f by simp
      also have "\<dots> \<le> others_cost (en_id e) f (q_pending q1)"
        using q2 f by (simp add: lighter_def)
      also have "\<dots> = sum_list (map f (q_pending q))"
        using others_cost_absent [OF absent] by (simp add: p1)
      finally show "total_cost f q' \<le> total_cost f q"
        using d q1 q2 q' False by (simp add: total_cost_def entries_def same_context_def)
    qed
    moreover have "queue_ok (o_overflow opts) q'" using d q2 q' False by simp
    ultimately have "within_limits (o_limits opts) q'"
      using ok within within_limits_mono [of q' q] by (simp add: queue_ok_def)
    then show ?thesis
      using d q1 q2 q' False by (auto simp: admits_def same_context_def)
  qed
qed

lemma collect_Some: "collect xs = Some ys \<longleftrightarrow> xs = map Some ys"
  by (induction xs arbitrary: ys) (auto simp: bind_eq_Some_conv)

lemma measured_ok:
  assumes policy: "o_policy opts = p" and m: "measure_event opts i g event = Some e"
  shows "entry_ok (o_overflow opts) e \<and> en_id e = i
     \<and> entry_records e = (case p_records p event of None \<Rightarrow> [] | Some rs \<Rightarrow> rs)"
proof -
  define rs where "rs = (case p_records p event of None \<Rightarrow> [] | Some rs \<Rightarrow> rs)"
  obtain cs rb reserve serialized where
      a: "assertProjection p (case p_records p event of None \<Rightarrow> event | Some rs \<Rightarrow> p_withRecords p event rs) (p_records p event)"
    and cs: "map (record_cost_of opts) rs = map Some cs"
    and key: "p_records p event = None \<or> p_replacementKey p event = None"
    and rb: "nonNegativeInteger (sum_list (map rc_retained cs)) = Some rb"
    and reserve: "nonNegativeInteger (p_decorationReserveBytes p (case p_records p event of None \<Rightarrow> event | Some rs \<Rightarrow> p_withRecords p event rs)) = Some reserve"
    and serialized: "nonNegativeInteger (p_event_bytes p (case p_records p event of None \<Rightarrow> event | Some rs \<Rightarrow> p_withRecords p event rs) + reserve) = Some serialized"
    and e: "e = \<lparr>en_id = i, en_event = (case p_records p event of None \<Rightarrow> event | Some rs \<Rightarrow> p_withRecords p event rs),
        en_records = p_records p event, en_recordCosts = cs, en_serializedBytes = serialized,
        en_recordBytes = rb, en_generation = g, en_replacementKey = p_replacementKey p event\<rparr>"
    using m unfolding measure_event_def Let_def policy rs_def
    by (fastforce simp: bind_eq_Some_conv collect_Some split: if_splits)
  have len: "length cs = length rs" using cs by (metis length_map)
  have one: "rc_retained c \<ge> 0 \<and> (o_overflow opts = Evict_Oldest_Pending_Records \<longrightarrow> rc_serialized c = p_record_bytes p r)"
    if "record_cost_of opts r = Some c" for r c
    using that by (auto simp: record_cost_of_def nonNegativeInteger_def policy split: if_splits)
  have nth: "record_cost_of opts (rs ! j) = Some (cs ! j)" if "j < length rs" for j
    using cs len that by (metis nth_map)
  have "\<forall>c \<in> set cs. 0 \<le> rc_retained c"
    using nth one len by (metis in_set_conv_nth)
  moreover have "o_overflow opts = Evict_Oldest_Pending_Records \<longrightarrow> map rc_serialized cs = map (p_record_bytes p) rs"
    using nth one len by (auto intro!: nth_equalityI)
  ultimately show ?thesis
    using a key rb reserve serialized e len
    by (auto simp: entry_ok_def entry_records_def rs_def assert_iff nonNegativeInteger_def split: if_splits)
qed

end


section \<open>Reachable queues\<close>

inductive delivery_reachable :: "('e, 'r) queue_options \<Rightarrow> ('e, 'r) event_queue \<Rightarrow> bool"
  for opts :: "('e, 'r) queue_options" where
  reach_new: "new_queue opts = Some q \<Longrightarrow> delivery_reachable opts q"
| reach_enqueue: "delivery_reachable opts q \<Longrightarrow> enqueue_event opts event q = (failure, q') \<Longrightarrow>
    delivery_reachable opts q'"
| reach_begin: "delivery_reachable opts q \<Longrightarrow> begin_delivery opts q = (lease, q') \<Longrightarrow>
    delivery_reachable opts q'"
| reach_complete: "delivery_reachable opts q \<Longrightarrow> delivery_reachable opts (complete_delivery i q)"
| reach_close: "delivery_reachable opts q \<Longrightarrow> delivery_reachable opts (close_queue q)"

context lawful_policy
begin

definition bounded_queue :: "('e, 'r) queue_options \<Rightarrow> ('e, 'r) event_queue \<Rightarrow> bool" where
  "bounded_queue opts q \<longleftrightarrow> queue_ok (o_overflow opts) q \<and> within_limits (o_limits opts) q"

lemma carries_on_within:
  assumes "carries_on mode q' q" and "queue_ok mode q" and "within_limits l q"
  shows "within_limits l q'"
  using assms lighter_pending [of q' q] within_limits_mono [of q' q l]
  by (auto simp: carries_on_def queue_ok_def)

definition offered :: "'e \<Rightarrow> 'r list" where
  "offered event = (case p_records p event of None \<Rightarrow> [] | Some rs \<Rightarrow> rs)"

lemma entry_generation [simp]:
  "entry_ok mode (e\<lparr>en_generation := g\<rparr>) = entry_ok mode e"
  "entry_records (e\<lparr>en_generation := g\<rparr>) = entry_records e"
  by (simp_all add: entry_ok_def entry_records_def)

lemma replace_unsent_records:
  assumes ok: "queue_ok mode q"
  shows "pending_records (replace_unsent key q) = pending_records q"
proof (cases "key = None \<or> List.extract (\<lambda>e. en_replacementKey e = key) (q_pending q) = None")
  case True
  then show ?thesis by (auto simp: replace_unsent_def)
next
  case False
  then obtain before e after where f: "List.extract (\<lambda>e. en_replacementKey e = key) (q_pending q) = Some (before, e, after)"
      and key: "key \<noteq> None" by auto
  have p: "q_pending q = before @ e # after" and k: "en_replacementKey e = key"
    using f by (auto simp: extract_Some_iff)
  have "entry_ok mode e" using ok p by (simp add: queue_ok_def entries_def)
  then have "entry_records e = []" using key k by (auto simp: entry_ok_def entry_records_def)
  then show ?thesis
    using f key p by (simp add: replace_unsent_def pending_records_def splice_out_def releaseCosts_def)
qed

lemma reject_keeps_pending:
  assumes "o_overflow opts = Reject" and "start_generation opts event q = (finished, q1)"
  shows "q_pending q1 = q_pending q"
  using assms by (auto simp: start_generation_def split: if_splits)

lemma enqueue_ok:
  assumes policy: "o_policy opts = p" and bounded: "bounded_queue opts q"
    and enqueue: "enqueue_event opts event q = (failure, q')"
  shows "bounded_queue opts q'
     \<and> (failure = None \<longrightarrow> (\<exists>k \<le> length (pending_records q @ offered event).
           pending_records q' = drop k (pending_records q @ offered event)
           \<and> dropped_total q' = dropped_total q + int k
           \<and> (o_overflow opts = Reject \<longrightarrow> k = 0)))"
proof (cases "q_closed q \<or> measure_event opts (q_next_id q) 0 event = None")
  case True
  then have "failure = Some Event_Validation \<and> q' = q"
    using enqueue unfolding enqueue_event_def by (auto split: if_splits)
  then show ?thesis using bounded by simp
next
  case False
  then obtain measured where m: "measure_event opts (q_next_id q) 0 event = Some measured" and live: "\<not> q_closed q"
    by auto
  have q: "queue_ok (o_overflow opts) q" "within_limits (o_limits opts) q"
    using bounded by (simp_all add: bounded_queue_def)
  obtain finished q1 where s: "start_generation opts event q = (finished, q1)" by fastforce
  note q1 = start_generation_ok [OF q(1) s]
  define e where "e = measured\<lparr>en_generation := q_generation q1\<rparr>"
  have e: "entry_ok (o_overflow opts) e" "en_id e = q_next_id q" "entry_records e = offered event"
      "en_generation e = q_generation q1"
    using measured_ok [OF policy m] by (simp_all add: e_def offered_def)
  define q2 where "q2 = replace_unsent (en_replacementKey e) q1"
  have "carries_on (o_overflow opts) q2 q1"
    using q1 replace_unsent_ok [of "o_overflow opts" q1] by (simp add: q2_def carries_on_def)
  then have q2: "carries_on (o_overflow opts) q2 q" using q1 by (rule carries_on_trans)
  have gen: "q_generation q2 = q_generation q1"
    by (auto simp: q2_def replace_unsent_def splice_out_def releaseCosts_def split: option.split)
  have within: "within_limits (o_limits opts) q1" "within_limits (o_limits opts) q2"
    using carries_on_within q q1 q2 by blast+
  have shape: "(failure, q') =
      (if \<not> finished then (Some Event_Validation, q1)
       else case push_entry e q2 of None \<Rightarrow> (Some Event_Validation, q2) | Some q3 \<Rightarrow> settle opts e q3)"
    using enqueue live m s by (auto simp: enqueue_event_def Let_def e_def q2_def split: if_splits option.splits)
  show ?thesis
  proof (cases "finished \<and> push_entry e q2 \<noteq> None")
    case False
    then have "failure = Some Event_Validation \<and> (q' = q1 \<or> q' = q2)"
      using shape by (auto split: if_splits option.splits)
    then show ?thesis using q1 q2 within by (auto simp: bounded_queue_def carries_on_def)
  next
    case True
    then obtain q3 where push: "push_entry e q2 = Some q3" and settle: "settle opts e q3 = (failure, q')"
      using shape by auto
    have a: "admits opts e failure q' q2"
      by (rule settle_ok [OF policy _ within(2) e(1) _ _ _ push settle])
         (use q2 e gen live in \<open>simp_all add: carries_on_def\<close>)
    obtain j where j: "j \<le> length (pending_records q)" "pending_records q2 = drop j (pending_records q)"
        "dropped_total q2 = dropped_total q + int j"
      using q2 by (auto simp: carries_on_def evicts_def)
    show ?thesis
    proof (intro conjI impI)
      show "bounded_queue opts q'" using a by (simp add: admits_def bounded_queue_def)
    next
      assume "failure = None"
      then obtain k where "k \<le> length (pending_records q2 @ offered event)"
          "pending_records q' = drop k (pending_records q2 @ offered event)"
          "dropped_total q' = dropped_total q2 + int k" "o_overflow opts = Reject \<longrightarrow> k = 0"
        using a e(3) by (auto simp: admits_def)
      moreover have "o_overflow opts = Reject \<longrightarrow> j = 0"
      proof
        assume "o_overflow opts = Reject"
        then have "pending_records q1 = pending_records q"
          using reject_keeps_pending [OF _ s] by (simp add: pending_records_def)
        then have "pending_records q2 = pending_records q"
          using q1 replace_unsent_records [of "o_overflow opts" q1] by (simp add: q2_def carries_on_def)
        then have "length (drop j (pending_records q)) = length (pending_records q)" using j(2) by simp
        then show "j = 0" using j(1) by (cases "pending_records q") auto
      qed
      ultimately show "\<exists>k \<le> length (pending_records q @ offered event).
           pending_records q' = drop k (pending_records q @ offered event)
           \<and> dropped_total q' = dropped_total q + int k
           \<and> (o_overflow opts = Reject \<longrightarrow> k = 0)"
        using j by (intro exI [of _ "j + k"]) (auto simp: drop_drop add.commute)
    qed
  qed
qed

lemma begin_ok:
  assumes bounded: "bounded_queue opts q" and b: "begin_delivery opts q = (lease, q')"
  shows "bounded_queue opts q' \<and> dropped_total q' = dropped_total q"
proof (cases "q' = q")
  case True
  then show ?thesis using bounded by simp
next
  case False
  then obtain e es where p: "q_pending q = e # es" "q_inflight q = None" "\<not> q_closed q"
      and q': "q' = q\<lparr>q_pending := es, q_inflight := Some e\<rparr>"
    using b by (auto simp: begin_delivery_def split: if_splits list.splits option.splits)
  have ent: "entries q = e # es" "entries q' = es @ [e]"
    using p by (simp_all add: entries_def q')
  have "sums_ok q'" using bounded unfolding bounded_queue_def queue_ok_def sums_ok_def ent by (simp add: q')
  moreover have "ids_ok q'" using bounded unfolding bounded_queue_def queue_ok_def ids_ok_def ent by (auto simp: q')
  moreover have "generations_ok q'"
    using bounded unfolding bounded_queue_def queue_ok_def generations_ok_def ent by (simp add: q')
  moreover have "\<forall>x \<in> set (entries q'). entry_ok (o_overflow opts) x"
    using bounded unfolding bounded_queue_def queue_ok_def ent by simp
  moreover have "within_limits (o_limits opts) q'"
    using bounded unfolding bounded_queue_def within_limits_def ent by (auto simp: q' split: option.split)
  ultimately show ?thesis
    using p by (simp add: bounded_queue_def queue_ok_def q' dropped_total_def)
qed

text \<open>A decorated event fits the reservation, so only the decoration itself can fail.\<close>

lemma begin_fits:
  assumes policy: "o_policy opts = p" and bounded: "bounded_queue opts q"
    and b: "begin_delivery opts q = (Begin_Failure reason, q')"
  shows "\<exists>e es. q_pending q = e # es \<and> p_decorateDrops p (en_event e) (q_dropped q (en_generation e)) = None"
proof -
  obtain e es where p: "q_pending q = e # es"
    using b by (auto simp: begin_delivery_def split: if_splits list.splits)
  have e: "entry_ok (o_overflow opts) e"
    using bounded p by (simp add: bounded_queue_def queue_ok_def entries_def)
  show ?thesis
  proof (cases "p_decorateDrops p (en_event e) (q_dropped q (en_generation e))")
    case None
    then show ?thesis using p by blast
  next
    case (Some event)
    have "assertProjection p event (en_records e)"
      using e decorated_records [OF Some] by (simp add: assert_iff entry_ok_def)
    moreover have "event = en_event e \<or> p_event_bytes p event \<le> en_serializedBytes e"
      using e decorated_bytes [OF Some] by (simp add: entry_ok_def)
    ultimately show ?thesis
      using b p Some policy by (auto simp: begin_delivery_def split: if_splits)
  qed
qed

lemma complete_ok:
  assumes "bounded_queue opts q"
  shows "bounded_queue opts (complete_delivery i q) \<and> dropped_total (complete_delivery i q) = dropped_total q"
proof (cases "complete_delivery i q = q")
  case True
  then show ?thesis using assms by simp
next
  case False
  then obtain e where p: "q_inflight q = Some e" "\<not> q_closed q"
      and q': "complete_delivery i q = releaseCosts e (q\<lparr>q_inflight := None\<rparr>)"
    by (auto simp: complete_delivery_def split: option.splits if_splits)
  define q1 where "q1 = complete_delivery i q"
  have ent: "entries q = q_pending q @ [e]" "entries q1 = q_pending q"
    using p by (simp_all add: entries_def q1_def q' releaseCosts_def)
  have ok: "queue_ok (o_overflow opts) q" "within_limits (o_limits opts) q"
    using assms by (simp_all add: bounded_queue_def)
  have s: "sums_ok q1" using ok(1) unfolding queue_ok_def sums_ok_def ent
    by (simp add: q1_def q' releaseCosts_def record_count_def)
  moreover have "ids_ok q1" using ok(1) unfolding queue_ok_def ids_ok_def ent by (simp add: q1_def q' releaseCosts_def)
  moreover have "generations_ok q1"
    using ok(1) unfolding queue_ok_def generations_ok_def ent by (simp add: q1_def q' releaseCosts_def)
  moreover have "\<forall>x \<in> set (entries q1). entry_ok (o_overflow opts) x"
    using ok(1) unfolding queue_ok_def ent by simp
  moreover have "q_closed q1 = q_closed q" by (simp add: q1_def q' releaseCosts_def)
  ultimately have "queue_ok (o_overflow opts) q1" using p(2) by (simp add: queue_ok_def)
  moreover have e: "entry_ok (o_overflow opts) e" using ok(1) ent by (simp add: queue_ok_def)
  then have "\<forall>f \<in> entry_costs. total_cost f q1 \<le> total_cost f q"
    using entry_costs_nonneg unfolding total_cost_def ent by simp
  then have "within_limits (o_limits opts) q1"
    using within_limits_mono [OF s _ _ ok(2)] ok(1) by (simp add: queue_ok_def)
  ultimately show ?thesis by (simp add: bounded_queue_def q1_def q' releaseCosts_def dropped_total_def)
qed

lemma empty_ok:
  assumes "0 < maxEvents l" "0 < maxSerializedBytes l" "0 < maxRecords l"
    and "\<And>m. maxRecordBytes l = Some m \<Longrightarrow> 0 < m"
    and "entries q = []" "q_bytes q = 0" "q_records q = 0" "q_recordBytes q = 0" "generations_ok q"
  shows "queue_ok mode q \<and> within_limits l q"
  using assms by (auto simp: queue_ok_def sums_ok_def ids_ok_def within_limits_def split: option.split)

lemma reachable_bounded:
  assumes policy: "o_policy opts = p" and reach: "delivery_reachable opts q"
  shows "bounded_queue opts q
     \<and> 0 < maxEvents (o_limits opts) \<and> 0 < maxSerializedBytes (o_limits opts) \<and> 0 < maxRecords (o_limits opts)
     \<and> (\<forall>m. maxRecordBytes (o_limits opts) = Some m \<longrightarrow> 0 < m)"
  using reach
proof induction
  case (reach_new q)
  let ?l = "o_limits opts"
  have l: "0 < maxEvents ?l" "0 < maxSerializedBytes ?l" "0 < maxRecords ?l"
      "maxRecordBytes ?l = Some m \<Longrightarrow> 0 < m" for m
    using reach_new by (auto simp: new_queue_def Let_def positiveInteger_def nonNegativeInteger_def split: if_splits)
  have q: "entries q = []" "q_bytes q = 0" "q_records q = 0" "q_recordBytes q = 0" "generations_ok q"
    using reach_new by (auto simp: new_queue_def Let_def entries_def generations_ok_def split: if_splits)
  show ?case using empty_ok [OF l q] l by (auto simp: bounded_queue_def)
next
  case (reach_enqueue q event failure q')
  then show ?case using enqueue_ok [OF policy] by blast
next
  case (reach_begin q lease q')
  then show ?case using begin_ok by blast
next
  case (reach_complete q i)
  then show ?case using complete_ok by blast
next
  case (reach_close q)
  then have g: "generations_ok (close_queue q)"
    by (auto simp: bounded_queue_def queue_ok_def generations_ok_def close_queue_def entries_def)
  show ?case
  proof (cases "q_closed q")
    case True
    then show ?thesis using reach_close by (simp add: close_queue_def)
  next
    case False
    then have q: "entries (close_queue q) = []" "q_bytes (close_queue q) = 0" "q_records (close_queue q) = 0"
        "q_recordBytes (close_queue q) = 0"
      by (simp_all add: close_queue_def entries_def)
    show ?thesis using empty_ok [OF _ _ _ _ q g] reach_close.IH by (auto simp: bounded_queue_def)
  qed
qed

end

end
