(* ===== verification/Nats_Buffer.thy ===== *)
theory Nats_Buffer
  imports Bounded_Queue
begin

text \<open>
  The record buffer of a NATS subscription (\<open>nats/application/record-buffer.ts\<close>): admission with
  eviction, the publication loop, closing, and the timer. It is the second interpretation of the
  \<open>evicting_queue\<close> contract.

  A counter that would leave the safe integers is an error; the buffer is returned as that error
  leaves it. The callback \<open>publish\<close> is a parameter saying, for each batch, whether it returns,
  closes the buffer, or throws.
\<close>

section \<open>Records and their bytes\<close>

record nats_header =
  hdr_name :: js_string
  hdr_values :: "js_string list"

datatype nats_encoding = Utf8 | Base64

record nats_copied_message =
  nm_subject :: js_string
  nm_reply :: "js_string option"
  nm_headers :: "nats_header list"
  nm_headersTruncated :: bool
  nm_payload_encoding :: nats_encoding
  nm_payload_data :: js_string
  nm_payloadBytes :: nat
  nm_preview :: js_string
  nm_receivedAt :: js_string

record nats_record = nats_copied_message +
  nr_generation :: js_string
  nr_id :: js_string

datatype nats_message_receipt =
    Receipt_Record nats_copied_message
  | Receipt_Omitted js_string nat

abbreviation nats_queued_records :: nat where "nats_queued_records \<equiv> 1000"
abbreviation nats_queued_bytes :: int where "nats_queued_bytes \<equiv> 8 * 1024 * 1024"
abbreviation nats_batch_records :: nat where "nats_batch_records \<equiv> 200"
abbreviation nats_batch_bytes :: int where "nats_batch_bytes \<equiv> 1024 * 1024"
abbreviation nats_identifier_characters :: nat where "nats_identifier_characters \<equiv> 128"

text \<open>The length of \<open>JSON.stringify\<close>: members and elements are separated by one comma each.\<close>

definition json_members :: "int list \<Rightarrow> int" where
  "json_members bs = 2 + sum_list bs + int (length bs - 1)"

definition member_bytes :: "js_string \<times> int \<Rightarrow> int" where
  "member_bytes m = json_string_bytes (fst m) + 1 + snd m"

definition json_object :: "(js_string \<times> int) list \<Rightarrow> int" where
  "json_object ms = json_members (map member_bytes ms)"

definition json_bool :: "bool \<Rightarrow> int" where
  "json_bool b = (if b then 4 else 5)"

definition json_nat :: "nat \<Rightarrow> int" where
  "json_nat n = int (length (nat_string n))"

fun encoding_text :: "nats_encoding \<Rightarrow> js_string" where
  "encoding_text Utf8 = ''utf8''"
| "encoding_text Base64 = ''base64''"

definition header_json :: "nats_header \<Rightarrow> int" where
  "header_json h = json_object
     [(''name'', json_string_bytes (hdr_name h)),
      (''values'', json_members (map json_string_bytes (hdr_values h)))]"

definition natsRecordRetainedBytes :: "nats_record \<Rightarrow> int" where
  "natsRecordRetainedBytes r = json_object
     ([(''subject'', json_string_bytes (nm_subject r))]
      @ (case nm_reply r of None \<Rightarrow> [] | Some reply \<Rightarrow> [(''reply'', json_string_bytes reply)])
      @ [(''headers'', json_members (map header_json (nm_headers r))),
         (''headersTruncated'', json_bool (nm_headersTruncated r)),
         (''payload'', json_object
            [(''encoding'', json_string_bytes (encoding_text (nm_payload_encoding r))),
             (''data'', json_string_bytes (nm_payload_data r))]),
         (''payloadBytes'', json_nat (nm_payloadBytes r)),
         (''preview'', json_string_bytes (nm_preview r)),
         (''receivedAt'', json_string_bytes (nm_receivedAt r)),
         (''timestampProvenance'', json_string_bytes ''host-received''),
         (''generation'', json_string_bytes (nr_generation r)),
         (''id'', json_string_bytes (nr_id r))])"

definition batchEnvelopeBytes :: "js_string \<Rightarrow> int" where
  "batchEnvelopeBytes generation =
     (let maximum = json_nat 9007199254740991 in json_object
        [(''version'', json_nat 2),
         (''sequence'', maximum),
         (''event'', json_string_bytes ''records.batch''),
         (''operation'', json_string_bytes ''connection.disconnect''),
         (''correlationId'', json_string_bytes (replicate nats_identifier_characters (CHR ''x''))),
         (''payload'', json_object
            [(''generation'', json_string_bytes generation),
             (''records'', json_members []),
             (''counters'', json_object
                [(''receivedRecords'', maximum), (''applicationOmittedRecords'', maximum),
                 (''publishedRecords'', maximum), (''queuedRecords'', json_nat nats_queued_records),
                 (''queuedBytes'', json_nat (nat nats_queued_bytes)),
                 (''transportOmittedRecords'', maximum)])])])"

section \<open>State\<close>

datatype nats_failure = Counters_Limit | Publish_Failed | Generation_Invalid

record nats_counters =
  receivedRecords :: int
  applicationOmittedRecords :: int
  publishedRecords :: int
  queuedRecords :: int
  queuedBytes :: int
  transportOmittedRecords :: int

definition emptyNatsCounters :: nats_counters where
  "emptyNatsCounters = \<lparr>receivedRecords = 0, applicationOmittedRecords = 0, publishedRecords = 0,
     queuedRecords = 0, queuedBytes = 0, transportOmittedRecords = 0\<rparr>"

record retained_record =
  ret_record :: nats_record
  ret_bytes :: int

record nats_batch =
  batch_generation :: js_string
  batch_records :: "nats_record list"
  batch_counters :: nats_counters

record nats_buffer =
  nb_generation :: js_string
  nb_pending :: "retained_record list"
  nb_envelopeBytes :: int
  nb_queuedBytes :: int
  nb_received :: int
  nb_omitted :: int
  nb_published :: int
  nb_timer :: bool
  nb_closed :: bool
  nb_presenting :: bool

definition increment :: "int \<Rightarrow> int \<Rightarrow> int option" where
  "increment v amount = (if is_safe_integer (v + amount) then Some (v + amount) else None)"

definition identifier_start :: "char \<Rightarrow> bool" where
  "identifier_start c \<longleftrightarrow> (let n = (of_char c :: nat) in
     (48 \<le> n \<and> n \<le> 57) \<or> (65 \<le> n \<and> n \<le> 90) \<or> (97 \<le> n \<and> n \<le> 122))"

definition identifier_char :: "char \<Rightarrow> bool" where
  "identifier_char c \<longleftrightarrow> identifier_start c \<or> c = CHR ''.'' \<or> c = CHR ''_'' \<or> c = CHR ''-''"

definition natsIdentifier :: "js_string \<Rightarrow> bool" where
  "natsIdentifier s \<longleftrightarrow> s \<noteq> [] \<and> length s \<le> nats_identifier_characters
     \<and> utf8_length s \<le> int nats_identifier_characters
     \<and> identifier_start (hd s) \<and> list_all identifier_char s"

definition new_buffer :: "js_string \<Rightarrow> nats_failure + nats_buffer" where
  "new_buffer generation =
     (if \<not> natsIdentifier generation \<or>
         length generation + 1 + length (nat_string 9007199254740991) > nats_identifier_characters
      then Inl Generation_Invalid
      else Inr \<lparr>nb_generation = generation, nb_pending = [],
                nb_envelopeBytes = batchEnvelopeBytes generation, nb_queuedBytes = 0,
                nb_received = 0, nb_omitted = 0, nb_published = 0,
                nb_timer = False, nb_closed = False, nb_presenting = False\<rparr>)"

definition counters :: "nats_buffer \<Rightarrow> nats_counters" where
  "counters b = \<lparr>receivedRecords = nb_received b, applicationOmittedRecords = nb_omitted b,
     publishedRecords = nb_published b, queuedRecords = int (length (nb_pending b)),
     queuedBytes = nb_queuedBytes b, transportOmittedRecords = 0\<rparr>"

section \<open>Admission\<close>

text \<open>An operation returns the failure it throws, if any, and the buffer it leaves.\<close>

type_synonym nats_result = "nats_failure option \<times> nats_buffer"

definition count_omitted :: "int \<Rightarrow> nats_buffer \<Rightarrow> nats_result" where
  "count_omitted amount b =
     (case increment (nb_omitted b) amount of
        None \<Rightarrow> (Some Counters_Limit, b)
      | Some n \<Rightarrow> (None, b\<lparr>nb_omitted := n\<rparr>))"

definition no_room :: "int \<Rightarrow> nats_buffer \<Rightarrow> bool" where
  "no_room bytes b \<longleftrightarrow>
     length (nb_pending b) \<ge> nats_queued_records \<or> nb_queuedBytes b + bytes > nats_queued_bytes"

definition shift_oldest :: "retained_record \<Rightarrow> retained_record list \<Rightarrow> nats_buffer \<Rightarrow> nats_buffer" where
  "shift_oldest removed others b =
     b\<lparr>nb_pending := others, nb_queuedBytes := nb_queuedBytes b - ret_bytes removed\<rparr>"

function make_room :: "int \<Rightarrow> nats_buffer \<Rightarrow> nats_result" where
  "make_room bytes b =
     (if no_room bytes b
      then (case nb_pending b of
              [] \<Rightarrow> (None, b)
            | removed # others \<Rightarrow>
                (case count_omitted 1 (shift_oldest removed others b) of
                   (Some e, b') \<Rightarrow> (Some e, b')
                 | (None, b') \<Rightarrow> make_room bytes b'))
      else (None, b))"
  by pat_completeness auto
termination
  by (relation "measure (\<lambda>(bytes, b). length (nb_pending b))")
     (auto simp: count_omitted_def shift_oldest_def split: option.splits)

declare make_room.simps [simp del]

definition enqueue :: "retained_record \<Rightarrow> nats_buffer \<Rightarrow> nats_result" where
  "enqueue entry b =
     (case make_room (ret_bytes entry) b of
        (Some e, b') \<Rightarrow> (Some e, b')
      | (None, b') \<Rightarrow> (None, b'\<lparr>nb_pending := nb_pending b' @ [entry],
                             nb_queuedBytes := nb_queuedBytes b' + ret_bytes entry\<rparr>))"

definition stamp :: "nats_copied_message \<Rightarrow> nats_buffer \<Rightarrow> nats_record" where
  "stamp message b =
     nats_copied_message.extend message
       \<lparr>nr_generation = nb_generation b, nr_id = nb_generation b @ ''.'' @ int_string (nb_received b)\<rparr>"

definition retain_record :: "nats_copied_message \<Rightarrow> nats_buffer \<Rightarrow> retained_record" where
  "retain_record message b =
     (let stamped = stamp message b
      in \<lparr>ret_record = stamped, ret_bytes = natsRecordRetainedBytes stamped\<rparr>)"

definition too_large :: "int \<Rightarrow> nats_buffer \<Rightarrow> bool" where
  "too_large bytes b \<longleftrightarrow> bytes + nb_envelopeBytes b > nats_batch_bytes \<or> bytes > nats_queued_bytes"

definition schedule :: "nats_buffer \<Rightarrow> nats_buffer" where
  "schedule b = b\<lparr>nb_timer := True\<rparr>"

definition admit_record :: "nats_copied_message \<Rightarrow> nats_buffer \<Rightarrow> nats_result" where
  "admit_record message b =
     (let entry = retain_record message b in
      if too_large (ret_bytes entry) b then count_omitted 1 b else enqueue entry b)"

definition accept :: "nats_message_receipt \<Rightarrow> nats_buffer \<Rightarrow> nats_result" where
  "accept receipt b0 =
     (if nb_closed b0 then (None, b0)
      else case increment (nb_received b0) 1 of
        None \<Rightarrow> (Some Counters_Limit, b0)
      | Some received \<Rightarrow>
          let b = b0\<lparr>nb_received := received\<rparr>;
              (failure, b') = (case receipt of
                 Receipt_Omitted reason bytes \<Rightarrow> count_omitted 1 b
               | Receipt_Record message \<Rightarrow> admit_record message b)
          in (failure, if failure = None \<and> nb_presenting b' then schedule b' else b'))"

definition startPublishing :: "nats_buffer \<Rightarrow> nats_buffer" where
  "startPublishing b =
     (if nb_closed b then b
      else let b' = b\<lparr>nb_presenting := True\<rparr> in if nb_received b' > 0 then schedule b' else b')"

definition close :: "nats_buffer \<Rightarrow> nats_result" where
  "close b =
     (if nb_closed b then (None, b)
      else let b' = b\<lparr>nb_closed := True, nb_timer := False\<rparr> in
           case count_omitted (int (length (nb_pending b'))) b' of
             (Some e, b'') \<Rightarrow> (Some e, b'')
           | (None, b'') \<Rightarrow> (None, b''\<lparr>nb_pending := [], nb_queuedBytes := 0\<rparr>))"

section \<open>Publication\<close>

text \<open>The prefix that fits one batch: its length and retained bytes.\<close>

fun batch_prefix :: "nat \<Rightarrow> int \<Rightarrow> int \<Rightarrow> retained_record list \<Rightarrow> nat \<times> int" where
  "batch_prefix count bytes kept [] = (count, kept)"
| "batch_prefix count bytes kept (entry # entries) =
     (let addition = ret_bytes entry + (if count = 0 then 0 else 1) in
      if count \<ge> nats_batch_records \<or> bytes + addition > nats_batch_bytes then (count, kept)
      else batch_prefix (count + 1) (bytes + addition) (kept + ret_bytes entry) entries)"

definition take_batch :: "nats_buffer \<Rightarrow> (nats_failure + nats_batch) \<times> nats_buffer" where
  "take_batch b =
     (let (count, kept) = batch_prefix 0 (nb_envelopeBytes b) 0 (nb_pending b);
          records = map ret_record (take count (nb_pending b));
          b' = b\<lparr>nb_pending := drop count (nb_pending b), nb_queuedBytes := nb_queuedBytes b - kept\<rparr>
      in case increment (nb_published b') (int count) of
           None \<Rightarrow> (Inl Counters_Limit, b')
         | Some published \<Rightarrow>
             let b'' = b'\<lparr>nb_published := published\<rparr>
             in (Inr \<lparr>batch_generation = nb_generation b'', batch_records = records,
                      batch_counters = counters b''\<rparr>, b''))"

text \<open>What the publisher does with a batch: return, close the buffer, throw, or both.\<close>

datatype publish_reply = Published | Closed_Buffer | Threw | Closed_And_Threw

type_synonym flush_result = "nats_failure option \<times> nats_batch list \<times> nats_buffer"

partial_function (option) nats_flush_loop ::
  "(nats_batch \<Rightarrow> publish_reply) \<Rightarrow> nats_batch list \<Rightarrow> nats_buffer \<Rightarrow> flush_result option" where
  "nats_flush_loop publish out b =
     (case take_batch b of
        (Inl e, b') \<Rightarrow> Some (Some e, out, b')
      | (Inr batch, b') \<Rightarrow>
          (case publish batch of
             Threw \<Rightarrow> Some (Some Publish_Failed, out @ [batch], b')
           | Closed_Buffer \<Rightarrow>
               (case close b' of
                  (Some e, b'') \<Rightarrow> Some (Some e, out @ [batch], b'')
                | (None, b'') \<Rightarrow> Some (None, out @ [batch], b''))
           | Closed_And_Threw \<Rightarrow>
               (case close b' of
                  (Some e, b'') \<Rightarrow> Some (Some e, out @ [batch], b'')
                | (None, b'') \<Rightarrow> Some (Some Publish_Failed, out @ [batch], b''))
           | Published \<Rightarrow>
               if \<not> nb_closed b' \<and> nb_pending b' \<noteq> [] then nats_flush_loop publish (out @ [batch]) b'
               else Some (None, out @ [batch], b')))"

declare nats_flush_loop.simps [code]

text \<open>The timer fires: it is disarmed and the buffer is flushed; the failure goes to \<open>fail\<close>.\<close>

definition timer_fires :: "(nats_batch \<Rightarrow> publish_reply) \<Rightarrow> nats_buffer \<Rightarrow> flush_result option" where
  "timer_fires publish b = nats_flush_loop publish [] (b\<lparr>nb_timer := False\<rparr>)"

text \<open>\<open>parseNatsSubscriptionCounters\<close>: what the client accepts as counters.\<close>

definition parseNatsSubscriptionCounters :: "nats_counters \<Rightarrow> bool" where
  "parseNatsSubscriptionCounters c \<longleftrightarrow>
     (\<forall>v \<in> {receivedRecords c, applicationOmittedRecords c, publishedRecords c, transportOmittedRecords c}.
        0 \<le> v \<and> v \<le> max_safe_integer)
     \<and> 0 \<le> queuedRecords c \<and> queuedRecords c \<le> int nats_queued_records
     \<and> 0 \<le> queuedBytes c \<and> queuedBytes c \<le> nats_queued_bytes
     \<and> (let accounted = applicationOmittedRecords c + publishedRecords c + queuedRecords c in
        is_safe_integer accounted
        \<and> applicationOmittedRecords c \<le> receivedRecords c \<and> publishedRecords c \<le> receivedRecords c
        \<and> queuedRecords c \<le> receivedRecords c \<and> accounted \<le> receivedRecords c)"

section \<open>The buffer invariant\<close>

definition entries_bytes :: "retained_record list \<Rightarrow> int" where
  "entries_bytes es = sum_list (map ret_bytes es)"

definition nats_fits :: "retained_record list \<Rightarrow> bool" where
  "nats_fits es \<longleftrightarrow> length es \<le> nats_queued_records \<and> entries_bytes es \<le> nats_queued_bytes
     \<and> list_all (\<lambda>e. 0 \<le> ret_bytes e) es"

definition sendable :: "int \<Rightarrow> retained_record \<Rightarrow> bool" where
  "sendable envelope e \<longleftrightarrow>
     0 \<le> ret_bytes e \<and> ret_bytes e = natsRecordRetainedBytes (ret_record e)
     \<and> ret_bytes e + envelope \<le> nats_batch_bytes \<and> ret_bytes e \<le> nats_queued_bytes"

text \<open>\<open>room n b\<close>: consistent, with \<open>n\<close> more records countable.\<close>

definition buffer_room :: "int \<Rightarrow> nat \<Rightarrow> nats_buffer \<Rightarrow> bool" where
  "buffer_room envelope n b \<longleftrightarrow>
     nb_envelopeBytes b = envelope
     \<and> nb_queuedBytes b = entries_bytes (nb_pending b)
     \<and> nats_fits (nb_pending b) \<and> list_all (sendable (nb_envelopeBytes b)) (nb_pending b)
     \<and> 0 \<le> nb_omitted b \<and> 0 \<le> nb_published b
     \<and> nb_received b = nb_omitted b + nb_published b + int (length (nb_pending b))
     \<and> nb_received b + int n \<le> max_safe_integer
     \<and> (nb_closed b \<longrightarrow> nb_pending b = [])"

abbreviation buffer_ok :: "nats_buffer \<Rightarrow> bool" where
  "buffer_ok b \<equiv> buffer_room (nb_envelopeBytes b) 0 b"

lemma entries_bytes_simps [simp]:
  "entries_bytes [] = 0" "entries_bytes (e # es) = ret_bytes e + entries_bytes es"
  "entries_bytes (es @ fs) = entries_bytes es + entries_bytes fs"
  by (simp_all add: entries_bytes_def)

lemma entries_bytes_nonneg: "list_all (\<lambda>e. 0 \<le> ret_bytes e) es \<Longrightarrow> 0 \<le> entries_bytes es"
  by (induction es) auto

lemma nats_fits_prefix: "nats_fits (es @ fs) \<Longrightarrow> nats_fits es"
  using entries_bytes_nonneg [of fs] by (auto simp: nats_fits_def)

lemma nats_fits_Nil [simp]: "nats_fits []"
  by (simp add: nats_fits_def)

lemma trim_suffix_all: "list_all P xs \<Longrightarrow> list_all P (trim fits xs)"
  by (induction xs) auto

lemma trim_snoc:
  assumes "fits [e]"
  shows "\<exists>zs. trim fits (ys @ [e]) = zs @ [e] \<and> length zs \<le> length ys"
proof (induction ys)
  case Nil
  then show ?case using assms by simp
next
  case (Cons y ys)
  then obtain zs where "trim fits (ys @ [e]) = zs @ [e]" "length zs \<le> length ys" by blast
  then show ?case by (cases "fits (y # ys @ [e])") auto
qed

lemma increment_ok: "0 \<le> v \<Longrightarrow> 0 \<le> k \<Longrightarrow> v + k \<le> max_safe_integer \<Longrightarrow> increment v k = Some (v + k)"
  by (simp add: increment_def is_safe_integer_def)

text \<open>The eviction loop leaves what the contract says, and counts what it drops.\<close>

lemma make_room_spec:
  assumes "nb_queuedBytes b = entries_bytes (nb_pending b)"
    and "list_all (\<lambda>e. 0 \<le> ret_bytes e) (nb_pending b)"
    and "0 \<le> nb_omitted b" and "nb_omitted b + int (length (nb_pending b)) \<le> max_safe_integer"
    and "0 \<le> ret_bytes entry" "ret_bytes entry \<le> nats_queued_bytes"
    and "trim nats_fits (nb_pending b @ [entry]) = zs @ [entry]"
  shows "make_room (ret_bytes entry) b =
     (None, b\<lparr>nb_pending := zs, nb_queuedBytes := entries_bytes zs,
              nb_omitted := nb_omitted b + int (length (nb_pending b)) - int (length zs)\<rparr>)"
  using assms
proof (induction "nb_pending b" arbitrary: b)
  case Nil
  then have "\<not> no_room (ret_bytes entry) b" by (simp add: no_room_def flip: Nil.hyps)
  moreover have "nats_fits [entry]" using Nil by (simp add: nats_fits_def)
  ultimately show ?case
    using Nil by (simp add: make_room.simps [of _ b] flip: Nil.hyps)
next
  case (Cons d ds)
  have room: "no_room (ret_bytes entry) b \<longleftrightarrow> \<not> nats_fits (nb_pending b @ [entry])"
    using Cons.prems by (auto simp: no_room_def nats_fits_def)
  show ?case
  proof (cases "no_room (ret_bytes entry) b")
    case False
    then have "zs = nb_pending b" using room Cons.prems by simp
    then show ?thesis using False Cons.prems(1) by (simp add: make_room.simps [of _ b])
  next
    case True
    define c where "c = (shift_oldest d ds b)\<lparr>nb_omitted := nb_omitted b + 1\<rparr>"
    have p: "nb_pending b = d # ds" using Cons.hyps(2) by simp
    have "count_omitted 1 (shift_oldest d ds b) = (None, c)"
      using Cons.prems p by (simp add: count_omitted_def c_def shift_oldest_def increment_ok)
    then have "make_room (ret_bytes entry) b = make_room (ret_bytes entry) c"
      using True p by (simp add: make_room.simps [of _ b])
    also have "\<dots> = (None, c\<lparr>nb_pending := zs, nb_queuedBytes := entries_bytes zs,
              nb_omitted := nb_omitted c + int (length (nb_pending c)) - int (length zs)\<rparr>)"
    proof (rule Cons.hyps(1))
      show "ds = nb_pending c" by (simp add: c_def shift_oldest_def)
      show "trim nats_fits (nb_pending c @ [entry]) = zs @ [entry]"
        using Cons.prems(7) True room p by (simp add: c_def shift_oldest_def)
    qed (use Cons.prems p in \<open>auto simp: c_def shift_oldest_def\<close>)
    finally show ?thesis
      using p by (simp add: c_def shift_oldest_def)
  qed
qed

text \<open>Admission of one record that can be sent: the second provider of the queue contract.\<close>

definition admit_entry :: "retained_record \<Rightarrow> nats_buffer \<Rightarrow> nats_buffer" where
  "admit_entry e b = snd (enqueue e (b\<lparr>nb_received := nb_received b + 1\<rparr>))"

lemma enqueue_spec:
  assumes ok: "buffer_room envelope (Suc n) b" and e: "sendable envelope e" and live: "\<not> nb_closed b"
  defines "ys \<equiv> trim nats_fits (nb_pending b @ [e])"
  shows "enqueue e (b\<lparr>nb_received := nb_received b + 1\<rparr>) =
     (None, b\<lparr>nb_received := nb_received b + 1, nb_pending := ys, nb_queuedBytes := entries_bytes ys,
       nb_omitted := nb_omitted b + int (length (nb_pending b)) + 1 - int (length ys)\<rparr>)"
proof -
  have "nats_fits [e]" using e by (simp add: nats_fits_def sendable_def)
  then obtain zs where zs: "ys = zs @ [e]" "length zs \<le> length (nb_pending b)"
    using trim_snoc [of nats_fits e "nb_pending b"] unfolding ys_def by blast
  have "make_room (ret_bytes e) (b\<lparr>nb_received := nb_received b + 1\<rparr>) =
     (None, b\<lparr>nb_received := nb_received b + 1, nb_pending := zs, nb_queuedBytes := entries_bytes zs,
              nb_omitted := nb_omitted b + int (length (nb_pending b)) - int (length zs)\<rparr>)"
  proof (subst make_room_spec [where zs = zs])
    show "nb_queuedBytes (b\<lparr>nb_received := nb_received b + 1\<rparr>)
          = entries_bytes (nb_pending (b\<lparr>nb_received := nb_received b + 1\<rparr>))"
      using ok by (simp add: buffer_room_def)
    show "list_all (\<lambda>e. 0 \<le> ret_bytes e) (nb_pending (b\<lparr>nb_received := nb_received b + 1\<rparr>))"
      using ok by (simp add: buffer_room_def nats_fits_def)
    show "trim nats_fits (nb_pending (b\<lparr>nb_received := nb_received b + 1\<rparr>) @ [e]) = zs @ [e]"
      using zs(1) by (simp add: ys_def)
  qed (use ok e in \<open>simp_all add: buffer_room_def sendable_def\<close>)
  then show ?thesis by (simp add: enqueue_def zs(1))
qed


definition live_buffer :: "int \<Rightarrow> nat \<Rightarrow> nats_buffer \<Rightarrow> bool" where
  "live_buffer envelope n b \<longleftrightarrow> buffer_room envelope n b \<and> \<not> nb_closed b"

lemma length_trim_le: "length (trim fits xs) \<le> length xs"
  by simp

lemma admit_entry_spec:
  assumes "live_buffer envelope (Suc n) b" and "sendable envelope e"
  shows "nb_pending (admit_entry e b) = trim nats_fits (nb_pending b @ [e])
     \<and> live_buffer envelope n (admit_entry e b)
     \<and> nb_omitted (admit_entry e b) + int (length (nb_pending (admit_entry e b)))
       = nb_omitted b + int (length (nb_pending b)) + 1"
proof -
  define ys where "ys = trim nats_fits (nb_pending b @ [e])"
  have ok: "buffer_room envelope (Suc n) b" "\<not> nb_closed b"
    using assms by (simp_all add: live_buffer_def)
  have le: "length ys \<le> length (nb_pending b) + 1"
    using length_trim_le [of nats_fits "nb_pending b @ [e]"] by (simp add: ys_def)
  have "list_all (sendable envelope) (nb_pending b @ [e])"
    using ok assms(2) by (auto simp: buffer_room_def)
  then have all: "list_all (sendable envelope) ys" unfolding ys_def by (rule trim_suffix_all)
  have fit: "nats_fits ys" unfolding ys_def by (rule trim_fits) simp
  have e: "admit_entry e b = b\<lparr>nb_received := nb_received b + 1, nb_pending := ys, nb_queuedBytes := entries_bytes ys,
       nb_omitted := nb_omitted b + int (length (nb_pending b)) + 1 - int (length ys)\<rparr>"
    by (simp add: admit_entry_def enqueue_spec [OF ok(1) assms(2) ok(2)] ys_def)
  have "buffer_room envelope n (admit_entry e b)"
    unfolding e using ok le all fit by (auto simp: buffer_room_def)
  then show ?thesis unfolding live_buffer_def using ok(2) by (simp add: e ys_def)
qed

interpretation nats_queue: evicting_queue nats_fits "sendable envelope" nb_pending nb_omitted
  admit_entry "live_buffer envelope" for envelope
proof unfold_locales
  fix n b
  assume "live_buffer envelope n b"
  then show "nats_fits (nb_pending b)" by (simp add: live_buffer_def buffer_room_def)
next
  fix n b e
  assume "live_buffer envelope (Suc n) b" and "sendable envelope e"
  from admit_entry_spec [OF this]
  show "live_buffer envelope n (admit_entry e b)"
    and "nb_pending (admit_entry e b) = trim nats_fits (nb_pending b @ [e])"
    and "nb_omitted (admit_entry e b) + int (length (nb_pending (admit_entry e b)))
         = nb_omitted b + int (length (nb_pending b)) + 1"
    by blast+
qed (rule nats_fits_prefix)

section \<open>Publication keeps the invariant\<close>

lemma batch_prefix_spec:
  assumes "list_all (\<lambda>e. 0 \<le> ret_bytes e) es" and "count \<le> nats_batch_records"
  shows "\<exists>k. batch_prefix count bytes kept es = (count + k, kept + entries_bytes (take k es))
     \<and> k \<le> length es \<and> count + k \<le> nats_batch_records
     \<and> (bytes \<le> nats_batch_bytes \<longrightarrow>
         bytes + entries_bytes (take k es) + int (count + k - 1) - int (count - 1) \<le> nats_batch_bytes)
     \<and> (count = 0 \<longrightarrow> es \<noteq> [] \<longrightarrow> bytes + ret_bytes (hd es) \<le> nats_batch_bytes \<longrightarrow> 0 < k)"
  using assms
proof (induction es arbitrary: count bytes kept)
  case Nil
  then show ?case by (intro exI [of _ 0]) simp
next
  case (Cons e es)
  let ?a = "ret_bytes e + (if count = 0 then 0 else 1)"
  show ?case
  proof (cases "count \<ge> nats_batch_records \<or> bytes + ?a > nats_batch_bytes")
    case True
    then show ?thesis using Cons.prems
      by (intro exI [of _ 0]) (auto simp: Let_def)
  next
    case False
    then obtain k where k: "batch_prefix (count + 1) (bytes + ?a) (kept + ret_bytes e) es
          = (count + 1 + k, kept + ret_bytes e + entries_bytes (take k es))"
        "k \<le> length es" "count + 1 + k \<le> nats_batch_records"
        "bytes + ?a + entries_bytes (take k es) + int (count + 1 + k - 1) - int (count + 1 - 1) \<le> nats_batch_bytes"
      using Cons.IH [of "count + 1" "bytes + ?a" "kept + ret_bytes e"] Cons.prems by auto
    show ?thesis
      using False k by (intro exI [of _ "Suc k"]) (auto simp: Let_def split: if_splits)
  qed
qed

lemma entries_bytes_take_drop: "entries_bytes (drop k es) = entries_bytes es - entries_bytes (take k es)"
  by (simp add: entries_bytes_def sum_list_map_drop)

lemma nats_fits_drop: "nats_fits es \<Longrightarrow> nats_fits (drop k es)"
proof -
  assume "nats_fits es"
  moreover from this have "0 \<le> entries_bytes (take k es)"
    by (intro entries_bytes_nonneg) (auto simp: nats_fits_def list_all_iff dest: in_set_takeD)
  ultimately show ?thesis
    by (auto simp: nats_fits_def entries_bytes_take_drop list_all_iff dest: in_set_dropD)
qed

text \<open>One batch: a non-empty prefix of a non-empty queue, within the batch bounds.\<close>

definition batch_of :: "nats_buffer \<Rightarrow> nat \<Rightarrow> nats_batch \<Rightarrow> nats_buffer \<Rightarrow> bool" where
  "batch_of b k batch b' \<longleftrightarrow>
     k \<le> length (nb_pending b) \<and> k \<le> nats_batch_records \<and> (nb_pending b \<noteq> [] \<longrightarrow> 0 < k)
     \<and> (nb_pending b \<noteq> [] \<longrightarrow>
          nb_envelopeBytes b + entries_bytes (take k (nb_pending b)) + int (k - 1) \<le> nats_batch_bytes)
     \<and> batch_records batch = map ret_record (take k (nb_pending b))
     \<and> batch_generation batch = nb_generation b \<and> batch_counters batch = counters b'
     \<and> nb_pending b' = drop k (nb_pending b) \<and> nb_published b' = nb_published b + int k
     \<and> nb_received b' = nb_received b \<and> nb_omitted b' = nb_omitted b
     \<and> nb_closed b' = nb_closed b \<and> buffer_room (nb_envelopeBytes b) 0 b'
     \<and> nb_envelopeBytes b' = nb_envelopeBytes b"

lemma take_batch_spec:
  assumes ok: "buffer_ok b"
  shows "\<exists>k batch b'. take_batch b = (Inr batch, b') \<and> batch_of b k batch b'"
proof -
  have "list_all (\<lambda>e. 0 \<le> ret_bytes e) (nb_pending b)"
    using ok by (simp add: buffer_room_def nats_fits_def)
  then obtain k where k: "batch_prefix 0 (nb_envelopeBytes b) 0 (nb_pending b) = (k, entries_bytes (take k (nb_pending b)))"
      "k \<le> length (nb_pending b)" "k \<le> nats_batch_records"
      "nb_envelopeBytes b \<le> nats_batch_bytes \<longrightarrow>
         nb_envelopeBytes b + entries_bytes (take k (nb_pending b)) + int (k - 1) \<le> nats_batch_bytes"
      "nb_pending b \<noteq> [] \<longrightarrow> nb_envelopeBytes b + ret_bytes (hd (nb_pending b)) \<le> nats_batch_bytes \<longrightarrow> 0 < k"
    using batch_prefix_spec [of "nb_pending b" 0 "nb_envelopeBytes b" 0] by auto
  define b' where "b' = b\<lparr>nb_pending := drop k (nb_pending b),
      nb_queuedBytes := nb_queuedBytes b - entries_bytes (take k (nb_pending b)),
      nb_published := nb_published b + int k\<rparr>"
  define batch where "batch = \<lparr>batch_generation = nb_generation b,
      batch_records = map ret_record (take k (nb_pending b)), batch_counters = counters b'\<rparr>"
  have "increment (nb_published b) (int k) = Some (nb_published b + int k)"
    using ok k(2) by (intro increment_ok) (auto simp: buffer_room_def)
  then have "take_batch b = (Inr batch, b')"
    using k(1) by (simp add: take_batch_def Let_def batch_def b'_def)
  moreover have "nb_pending b \<noteq> [] \<longrightarrow> sendable (nb_envelopeBytes b) (hd (nb_pending b))"
    using ok by (cases "nb_pending b") (auto simp: buffer_room_def)
  then have "nb_pending b \<noteq> [] \<longrightarrow> nb_envelopeBytes b + ret_bytes (hd (nb_pending b)) \<le> nats_batch_bytes
      \<and> nb_envelopeBytes b \<le> nats_batch_bytes"
    by (auto simp: sendable_def)
  moreover have "buffer_room (nb_envelopeBytes b) 0 b'"
    using ok k(2) nats_fits_drop [of "nb_pending b" k]
    by (auto simp: buffer_room_def b'_def entries_bytes_take_drop list_all_iff dest: in_set_dropD)
  ultimately have "batch_of b k batch b'"
    using k by (auto simp: batch_of_def batch_def b'_def)
  with \<open>take_batch b = (Inr batch, b')\<close> show ?thesis by blast
qed


lemma json_object_nonneg: "(\<And>m. m \<in> set ms \<Longrightarrow> 0 \<le> snd m) \<Longrightarrow> 0 \<le> json_object ms"
  unfolding json_object_def json_members_def
  using sum_list_map_nonneg [of ms member_bytes] by (simp add: member_bytes_def)

lemma json_list_nonneg: "(\<And>b. b \<in> set bs \<Longrightarrow> 0 \<le> b) \<Longrightarrow> 0 \<le> json_members bs"
  by (simp add: json_members_def sum_list_nonneg)

lemma header_json_nonneg: "0 \<le> header_json h"
  unfolding header_json_def by (rule json_object_nonneg) (auto intro!: json_list_nonneg)

lemma natsRecordRetainedBytes_nonneg: "0 \<le> natsRecordRetainedBytes r"
  unfolding natsRecordRetainedBytes_def
  by (rule json_object_nonneg)
     (auto simp: json_bool_def json_nat_def header_json_nonneg split: option.splits
       intro!: json_list_nonneg json_object_nonneg)

section \<open>What each operation does\<close>

definition admitted :: "nats_message_receipt \<Rightarrow> nats_buffer \<Rightarrow> retained_record list" where
  "admitted receipt b =
     (case receipt of
        Receipt_Omitted reason bytes \<Rightarrow> nb_pending b
      | Receipt_Record message \<Rightarrow>
          let entry = retain_record message (b\<lparr>nb_received := nb_received b + 1\<rparr>) in
          if too_large (ret_bytes entry) b then nb_pending b
          else trim nats_fits (nb_pending b @ [entry]))"

lemma buffer_room_weaken: "buffer_room envelope (Suc n) b \<Longrightarrow> buffer_room envelope n b"
  by (auto simp: buffer_room_def)

lemma accept_live:
  assumes ok: "buffer_ok b" and live: "\<not> nb_closed b" and room: "nb_received b < max_safe_integer"
  shows "\<exists>b'. accept receipt b = (None, b') \<and> buffer_ok b' \<and> nb_envelopeBytes b' = nb_envelopeBytes b
     \<and> nb_received b' = nb_received b + 1 \<and> nb_pending b' = admitted receipt b
     \<and> nb_published b' = nb_published b \<and> nb_closed b' = nb_closed b
     \<and> nb_timer b' = (nb_timer b \<or> nb_presenting b)"
proof -
  define c where "c = b\<lparr>nb_received := nb_received b + 1\<rparr>"
  have inc: "increment (nb_received b) 1 = Some (nb_received b + 1)"
    using ok room by (intro increment_ok) (auto simp: buffer_room_def)
  have omit: "count_omitted 1 c = (None, c\<lparr>nb_omitted := nb_omitted b + 1\<rparr>)"
    using ok room by (simp add: count_omitted_def c_def buffer_room_def increment_ok)
  have omit_ok: "buffer_ok (c\<lparr>nb_omitted := nb_omitted b + 1\<rparr>)"
    using ok room live by (auto simp: buffer_room_def c_def)
  have room1: "buffer_room (nb_envelopeBytes b) (Suc 0) b"
    using ok room by (auto simp: buffer_room_def)
  have core: "\<exists>d. (case receipt of Receipt_Omitted reason bytes \<Rightarrow> count_omitted 1 c
               | Receipt_Record message \<Rightarrow> admit_record message c) = (None, d)
     \<and> buffer_ok d \<and> nb_envelopeBytes d = nb_envelopeBytes b \<and> nb_received d = nb_received b + 1
     \<and> nb_pending d = admitted receipt b \<and> nb_published d = nb_published b \<and> nb_closed d = nb_closed b
     \<and> nb_timer d = nb_timer b \<and> nb_presenting d = nb_presenting b"
  proof (cases receipt)
    case (Receipt_Omitted reason bytes)
    then show ?thesis using omit omit_ok by (simp add: admitted_def c_def)
  next
    case (Receipt_Record message)
    define e where "e = retain_record message c"
    show ?thesis
    proof (cases "too_large (ret_bytes e) b")
      case True
      then have "too_large (ret_bytes e) c" by (simp add: too_large_def c_def)
      then show ?thesis
        using Receipt_Record True omit omit_ok
        by (simp add: admitted_def admit_record_def e_def Let_def) (simp add: c_def)
    next
      case False
      have s: "sendable (nb_envelopeBytes b) e"
        using False natsRecordRetainedBytes_nonneg
        by (auto simp: too_large_def sendable_def e_def retain_record_def Let_def)
      have l: "live_buffer (nb_envelopeBytes b) (Suc 0) b" using room1 live by (simp add: live_buffer_def)
      have "\<not> too_large (ret_bytes e) c" using False by (simp add: too_large_def c_def)
      then have r: "admit_record message c = (None, admit_entry e b)"
        using enqueue_spec [OF room1 s live]
        by (simp add: admit_record_def e_def Let_def) (simp add: admit_entry_def c_def)
      have "live_buffer (nb_envelopeBytes b) 0 (admit_entry e b)"
        and p: "nb_pending (admit_entry e b) = trim nats_fits (nb_pending b @ [e])"
        using admit_entry_spec [OF l s] by blast+
      then have "buffer_room (nb_envelopeBytes b) 0 (admit_entry e b)" by (simp add: live_buffer_def)
      then show ?thesis
        using r p False Receipt_Record enqueue_spec [OF room1 s live]
        by (simp add: admitted_def e_def [unfolded c_def, symmetric] Let_def) (simp add: admit_entry_def)
    qed
  qed
  then obtain d where d: "(case receipt of Receipt_Omitted reason bytes \<Rightarrow> count_omitted 1 c
               | Receipt_Record message \<Rightarrow> admit_record message c) = (None, d)"
     "buffer_ok d" "nb_envelopeBytes d = nb_envelopeBytes b" "nb_received d = nb_received b + 1"
     "nb_pending d = admitted receipt b" "nb_published d = nb_published b" "nb_closed d = nb_closed b"
     "nb_timer d = nb_timer b" "nb_presenting d = nb_presenting b" by blast
  have "accept receipt b = (None, if nb_presenting d then schedule d else d)"
    using live inc d(1) by (simp add: accept_def c_def [symmetric] Let_def)
  then show ?thesis
    using d by (auto simp: schedule_def buffer_room_def)
qed

lemma close_spec:
  assumes "buffer_ok b"
  shows "\<exists>b'. close b = (None, b') \<and> buffer_ok b' \<and> nb_closed b' \<and> nb_pending b' = []
     \<and> nb_published b' = nb_published b \<and> nb_received b' = nb_received b
     \<and> nb_envelopeBytes b' = nb_envelopeBytes b \<and> (\<not> nb_closed b \<longrightarrow> \<not> nb_timer b')"
proof (cases "nb_closed b")
  case True
  then show ?thesis using assms by (simp add: close_def buffer_room_def)
next
  case False
  have "increment (nb_omitted b) (int (length (nb_pending b))) = Some (nb_omitted b + int (length (nb_pending b)))"
    using assms by (intro increment_ok) (auto simp: buffer_room_def)
  then show ?thesis
    using False assms by (simp add: close_def Let_def count_omitted_def buffer_room_def)
qed

lemma counters_accepted: "buffer_ok b \<Longrightarrow> parseNatsSubscriptionCounters (counters b)"
  using entries_bytes_nonneg [of "nb_pending b"]
  by (auto simp: buffer_room_def parseNatsSubscriptionCounters_def counters_def Let_def
      is_safe_integer_def nats_fits_def)

text \<open>A batch the transport accepts.\<close>

definition batch_fits :: "int \<Rightarrow> nats_batch \<Rightarrow> bool" where
  "batch_fits envelope batch \<longleftrightarrow>
     length (batch_records batch) \<le> nats_batch_records
     \<and> parseNatsSubscriptionCounters (batch_counters batch)
     \<and> (batch_records batch = [] \<or>
        envelope + sum_list (map natsRecordRetainedBytes (batch_records batch))
          + int (length (batch_records batch) - 1) \<le> nats_batch_bytes)"

lemma batch_of_fits:
  assumes "buffer_ok b" and "batch_of b k batch b'"
  shows "batch_fits (nb_envelopeBytes b) batch"
proof -
  have "list_all (sendable (nb_envelopeBytes b)) (nb_pending b)"
    using assms(1) by (simp add: buffer_room_def)
  then have m: "map ret_bytes (take k (nb_pending b)) = map natsRecordRetainedBytes (map ret_record (take k (nb_pending b)))"
    by (auto simp: list_all_iff sendable_def dest: in_set_takeD)
  have r: "batch_records batch = map ret_record (take k (nb_pending b))"
    using assms(2) by (simp add: batch_of_def)
  have "entries_bytes (take k (nb_pending b)) = sum_list (map natsRecordRetainedBytes (batch_records batch))"
    unfolding entries_bytes_def r by (simp only: m)
  moreover have "parseNatsSubscriptionCounters (batch_counters batch)"
    using assms(2) counters_accepted [of b'] by (simp add: batch_of_def)
  ultimately show ?thesis
    using assms(2) by (auto simp: batch_fits_def batch_of_def min_def)
qed

lemma nats_flush_loop_spec:
  assumes "buffer_ok b"
  shows "\<exists>failure more_out b'. nats_flush_loop publish out b = Some (failure, out @ more_out, b')
     \<and> buffer_ok b' \<and> nb_envelopeBytes b' = nb_envelopeBytes b \<and> failure \<in> {None, Some Publish_Failed}
     \<and> more_out \<noteq> [] \<and> list_all (batch_fits (nb_envelopeBytes b)) more_out
     \<and> (\<exists>k \<le> length (nb_pending b). concat (map batch_records more_out) = map ret_record (take k (nb_pending b))
          \<and> nb_published b' = nb_published b + int k)
     \<and> nb_received b' = nb_received b
     \<and> (failure = None \<longrightarrow> nb_pending b' = [])"
  using assms
proof (induction "length (nb_pending b)" arbitrary: b out rule: less_induct)
  case less
  obtain k batch c where t: "take_batch b = (Inr batch, c)" and c: "batch_of b k batch c"
    using take_batch_spec [OF less.prems] by blast
  have fits: "batch_fits (nb_envelopeBytes b) batch" using less.prems c by (rule batch_of_fits)
  have okb: "buffer_room (nb_envelopeBytes b) 0 c" using c by (simp add: batch_of_def)
  then have ok: "buffer_ok c" using c by (simp add: batch_of_def)
  show ?case
  proof (cases "publish batch")
    case Threw
    then have "nats_flush_loop publish out b = Some (Some Publish_Failed, out @ [batch], c)"
      by (subst nats_flush_loop.simps) (simp add: t)
    then show ?thesis using c fits okb
      by (intro exI [of _ "Some Publish_Failed"] exI [of _ "[batch]"] exI [of _ c])
         (auto simp: batch_of_def intro!: exI [of _ k])
  next
    case Closed_Buffer
    obtain d where d: "close c = (None, d)" "buffer_ok d" "nb_pending d = []" "nb_published d = nb_published c"
        "nb_envelopeBytes d = nb_envelopeBytes c" "nb_received d = nb_received c"
      using close_spec [OF ok] by blast
    then have "nats_flush_loop publish out b = Some (None, out @ [batch], d)"
      using Closed_Buffer by (subst nats_flush_loop.simps) (simp add: t)
    moreover have "nb_envelopeBytes d = nb_envelopeBytes b" using d c by (simp add: batch_of_def)
    then have "buffer_room (nb_envelopeBytes b) 0 d" using d by simp
    ultimately show ?thesis using c fits d
      by (intro exI [of _ None] exI [of _ "[batch]"] exI [of _ d])
         (auto simp: batch_of_def intro!: exI [of _ k])
  next
    case Closed_And_Threw
    obtain d where d: "close c = (None, d)" "buffer_ok d" "nb_pending d = []" "nb_published d = nb_published c"
        "nb_envelopeBytes d = nb_envelopeBytes c" "nb_received d = nb_received c"
      using close_spec [OF ok] by blast
    then have "nats_flush_loop publish out b = Some (Some Publish_Failed, out @ [batch], d)"
      using Closed_And_Threw by (subst nats_flush_loop.simps) (simp add: t)
    moreover have "nb_envelopeBytes d = nb_envelopeBytes b" using d c by (simp add: batch_of_def)
    then have "buffer_room (nb_envelopeBytes b) 0 d" using d by simp
    ultimately show ?thesis using c fits d
      by (intro exI [of _ "Some Publish_Failed"] exI [of _ "[batch]"] exI [of _ d])
         (auto simp: batch_of_def intro!: exI [of _ k])
  next
    case Published
    show ?thesis
    proof (cases "\<not> nb_closed c \<and> nb_pending c \<noteq> []")
      case False
      then have "nats_flush_loop publish out b = Some (None, out @ [batch], c)"
        using Published by (subst nats_flush_loop.simps) (auto simp: t)
      moreover have "nb_pending c = []" using False ok by (auto simp: buffer_room_def)
      ultimately show ?thesis using c fits okb
        by (intro exI [of _ None] exI [of _ "[batch]"] exI [of _ c])
           (auto simp: batch_of_def intro!: exI [of _ k])
    next
      case True
      then have l: "nats_flush_loop publish out b = nats_flush_loop publish (out @ [batch]) c"
        using Published by (subst nats_flush_loop.simps) (simp add: t)
      have "length (nb_pending c) < length (nb_pending b)"
        using c True by (auto simp: batch_of_def)
      from less.hyps [OF this ok, of "out @ [batch]"] obtain failure rest d j where
        d: "nats_flush_loop publish (out @ [batch]) c = Some (failure, (out @ [batch]) @ rest, d)"
          "buffer_ok d" "nb_envelopeBytes d = nb_envelopeBytes c" "failure \<in> {None, Some Publish_Failed}"
          "list_all (batch_fits (nb_envelopeBytes c)) rest" "j \<le> length (nb_pending c)"
          "concat (map batch_records rest) = map ret_record (take j (nb_pending c))"
          "nb_published d = nb_published c + int j" "nb_received d = nb_received c"
          "failure = None \<longrightarrow> nb_pending d = []" by blast
      have okd: "buffer_room (nb_envelopeBytes b) 0 d"
        using d(2) unfolding d(3) using c by (simp add: batch_of_def)
      have "take k (nb_pending b) @ take j (drop k (nb_pending b)) = take (k + j) (nb_pending b)"
        by (simp add: take_add)
      then have "concat (map batch_records (batch # rest)) = map ret_record (take (k + j) (nb_pending b))"
        using c d(7) by (simp add: batch_of_def flip: map_append)
      then show ?thesis
        using l d c fits okd
        by (intro exI [of _ failure] exI [of _ "batch # rest"] exI [of _ d])
           (auto simp: batch_of_def intro!: exI [of _ "k + j"])
    qed
  qed
qed

section \<open>Runs\<close>

text \<open>The session's calls and the timer, in any order; a disarmed timer does not fire.\<close>

datatype nats_event =
    Accept nats_message_receipt
  | Start_Publishing
  | Close
  | Timer "nats_batch \<Rightarrow> publish_reply"

fun nats_step :: "nats_event \<Rightarrow> nats_buffer \<Rightarrow> flush_result option" where
  "nats_step (Accept receipt) b = (case accept receipt b of (failure, b') \<Rightarrow> Some (failure, [], b'))"
| "nats_step Start_Publishing b = Some (None, [], startPublishing b)"
| "nats_step Close b = (case close b of (failure, b') \<Rightarrow> Some (failure, [], b'))"
| "nats_step (Timer publish) b = (if nb_timer b then timer_fires publish b else Some (None, [], b))"

fun nats_run :: "nats_event list \<Rightarrow> nats_buffer \<Rightarrow> (nats_batch list \<times> nats_buffer) option" where
  "nats_run [] b = Some ([], b)"
| "nats_run (event # events) b =
     (case nats_step event b of
        None \<Rightarrow> None
      | Some (failure, out, b') \<Rightarrow>
          (case nats_run events b' of
             None \<Rightarrow> None
           | Some (out', b'') \<Rightarrow> Some (out @ out', b'')))"

lemma accept_cases:
  assumes "buffer_ok b"
  shows "accept receipt b = (None, b) \<or> accept receipt b = (Some Counters_Limit, b)
    \<or> (\<exists>b'. accept receipt b = (None, b') \<and> buffer_ok b' \<and> nb_envelopeBytes b' = nb_envelopeBytes b
            \<and> nb_published b' = nb_published b)"
proof (cases "nb_closed b \<or> nb_received b \<ge> max_safe_integer")
  case True
  then show ?thesis
    using assms by (auto simp: accept_def increment_def is_safe_integer_def)
next
  case False
  then show ?thesis using accept_live [OF assms, of receipt] by auto
qed

lemma nats_step_spec:
  assumes ok: "buffer_ok b"
  shows "\<exists>failure out b'. nats_step event b = Some (failure, out, b') \<and> buffer_ok b'
     \<and> nb_envelopeBytes b' = nb_envelopeBytes b \<and> list_all (batch_fits (nb_envelopeBytes b)) out
     \<and> nb_published b' = nb_published b + int (length (concat (map batch_records out)))"
proof (cases event)
  case (Accept receipt)
  then show ?thesis using accept_cases [OF ok, of receipt] ok by auto
next
  case Start_Publishing
  then show ?thesis
    using ok by (auto simp: startPublishing_def schedule_def buffer_room_def Let_def)
next
  case Close
  then show ?thesis using close_spec [OF ok] by auto
next
  case (Timer publish)
  have ok': "buffer_ok (b\<lparr>nb_timer := False\<rparr>)" using ok by (simp add: buffer_room_def)
  obtain failure out b' k where r: "nats_flush_loop publish [] (b\<lparr>nb_timer := False\<rparr>) = Some (failure, out, b')"
      "buffer_ok b'" "nb_envelopeBytes b' = nb_envelopeBytes b" "list_all (batch_fits (nb_envelopeBytes b)) out"
      "concat (map batch_records out) = map ret_record (take k (nb_pending b))"
      "nb_published b' = nb_published b + int k" "k \<le> length (nb_pending b)"
    using nats_flush_loop_spec [OF ok', of publish "[]"] by auto
  then show ?thesis
    using Timer ok by (simp add: timer_fires_def)
qed

lemma nats_run_spec:
  assumes "buffer_ok b"
  shows "\<exists>out b'. nats_run events b = Some (out, b') \<and> buffer_ok b'
     \<and> nb_envelopeBytes b' = nb_envelopeBytes b \<and> list_all (batch_fits (nb_envelopeBytes b)) out
     \<and> nb_published b' = nb_published b + int (length (concat (map batch_records out)))"
  using assms
proof (induction events arbitrary: b)
  case Nil
  then show ?case by simp
next
  case (Cons event events)
  obtain failure out b1 where s: "nats_step event b = Some (failure, out, b1)" "buffer_ok b1"
      "nb_envelopeBytes b1 = nb_envelopeBytes b" "list_all (batch_fits (nb_envelopeBytes b)) out"
      "nb_published b1 = nb_published b + int (length (concat (map batch_records out)))"
    using nats_step_spec [OF Cons.prems, of event] by blast
  obtain out' b2 where r: "nats_run events b1 = Some (out', b2)" "buffer_ok b2"
      "nb_envelopeBytes b2 = nb_envelopeBytes b1" "list_all (batch_fits (nb_envelopeBytes b1)) out'"
      "nb_published b2 = nb_published b1 + int (length (concat (map batch_records out')))"
    using Cons.IH [OF s(2)] by blast
  show ?case using s r by (intro exI [of _ "out @ out'"] exI [of _ b2]) simp
qed

lemma new_buffer_ok:
  assumes "new_buffer generation = Inr b"
  shows "buffer_ok b \<and> nb_envelopeBytes b = batchEnvelopeBytes generation \<and> nb_published b = 0"
  using assms by (auto simp: new_buffer_def buffer_room_def split: if_splits)

section \<open>Properties\<close>

text \<open>
  C19: Whatever the session does with a new buffer, in whatever order receipts, publication, closing
  and timer turns come and whatever the publisher does, every operation returns (the flush loop
  terminates), every published batch has at most 200 records, counters the client accepts and a wire
  size of at most 1 MiB, and every received record is published, omitted or still queued, once.
\<close>

theorem nats_run_conserves:
  assumes "new_buffer generation = Inr b"
  shows "\<exists>out b'. nats_run events b = Some (out, b')
     \<and> list_all (batch_fits (batchEnvelopeBytes generation)) out
     \<and> nb_published b' = int (length (concat (map batch_records out)))
     \<and> nb_received b' = nb_omitted b' + nb_published b' + int (length (nb_pending b'))
     \<and> length (nb_pending b') \<le> 1000 \<and> nb_queuedBytes b' \<le> 8 * 1024 * 1024
     \<and> nb_queuedBytes b' = sum_list (map (natsRecordRetainedBytes \<circ> ret_record) (nb_pending b'))"
proof -
  note b = new_buffer_ok [OF assms]
  obtain out b' where r: "nats_run events b = Some (out, b')" "buffer_ok b'"
      "nb_envelopeBytes b' = nb_envelopeBytes b" "list_all (batch_fits (nb_envelopeBytes b)) out"
      "nb_published b' = nb_published b + int (length (concat (map batch_records out)))"
    using nats_run_spec [of b events] b by blast
  have "map ret_bytes (nb_pending b') = map (natsRecordRetainedBytes \<circ> ret_record) (nb_pending b')"
    using r(2) by (auto simp: buffer_room_def sendable_def list_all_iff)
  then have "nb_queuedBytes b' = sum_list (map (natsRecordRetainedBytes \<circ> ret_record) (nb_pending b'))"
    using r(2) by (simp only: buffer_room_def entries_bytes_def)
  then show ?thesis
    using r b by (auto simp: buffer_room_def nats_fits_def)
qed

lemma sample_buffer:
  "new_buffer ''g1'' = Inr \<lparr>nb_generation = ''g1'', nb_pending = [],
     nb_envelopeBytes = batchEnvelopeBytes ''g1'', nb_queuedBytes = 0,
     nb_received = 0, nb_omitted = 0, nb_published = 0,
     nb_timer = False, nb_closed = False, nb_presenting = False\<rparr>"
proof -
  have "natsIdentifier ''g1''" by code_simp
  moreover have "length (nat_string 9007199254740991) = 16" by (simp add: nat_string.simps)
  ultimately show ?thesis by (simp add: new_buffer_def)
qed

theorem nats_run_conserves_witness:
  "\<exists>out b'. nats_run [Accept (Receipt_Omitted ''payload-limit'' 9), Start_Publishing, Timer (\<lambda>_. Published), Close]
      \<lparr>nb_generation = ''g1'', nb_pending = [],
     nb_envelopeBytes = batchEnvelopeBytes ''g1'', nb_queuedBytes = 0,
     nb_received = 0, nb_omitted = 0, nb_published = 0,
     nb_timer = False, nb_closed = False, nb_presenting = False\<rparr> = Some (out, b')
     \<and> nb_received b' = nb_omitted b' + nb_published b' + int (length (nb_pending b'))"
  using nats_run_conserves [OF sample_buffer] by blast

text \<open>
  C33: Once a consistent buffer's timer fires, the flush returns; unless the publisher throws it
  leaves nothing queued; and the batches hold a prefix of the queued records, in order, counted as
  published.
\<close>

theorem nats_flush_delivers_in_order:
  assumes "buffer_ok b"
  shows "\<exists>failure out b' k. timer_fires publish b = Some (failure, out, b')
     \<and> failure \<in> {None, Some Publish_Failed} \<and> out \<noteq> []
     \<and> concat (map batch_records out) = map ret_record (take k (nb_pending b))
     \<and> k \<le> length (nb_pending b) \<and> nb_published b' = nb_published b + int k
     \<and> (failure = None \<longrightarrow> nb_pending b' = [])"
proof -
  have "buffer_ok (b\<lparr>nb_timer := False\<rparr>)" using assms by (simp add: buffer_room_def)
  from nats_flush_loop_spec [OF this, of publish "[]"] show ?thesis
    unfolding timer_fires_def by (simp, blast)
qed

definition sample_retained :: "nat \<Rightarrow> retained_record" where
  "sample_retained n =
     (let r = \<lparr>nm_subject = ''s'', nm_reply = None, nm_headers = [], nm_headersTruncated = False,
            nm_payload_encoding = Utf8, nm_payload_data = nat_string n, nm_payloadBytes = 1,
            nm_preview = ''p'', nm_receivedAt = ''t'', nr_generation = ''g1'', nr_id = ''g1.'' @ nat_string n\<rparr>
      in \<lparr>ret_record = r, ret_bytes = natsRecordRetainedBytes r\<rparr>)"

definition sample_queue :: nats_buffer where
  "sample_queue = \<lparr>nb_generation = ''g1'', nb_pending = [sample_retained 1, sample_retained 2],
     nb_envelopeBytes = batchEnvelopeBytes ''g1'',
     nb_queuedBytes = ret_bytes (sample_retained 1) + ret_bytes (sample_retained 2),
     nb_received = 2, nb_omitted = 0, nb_published = 0,
     nb_timer = True, nb_closed = False, nb_presenting = True\<rparr>"

lemma sample_sizes:
  "json_nat 9007199254740991 = 16" "json_nat (nat nats_queued_bytes) = 7" "json_nat nats_queued_records = 4"
  "json_nat 2 = 1" "json_nat 1 = 1"
  by (simp_all add: json_nat_def nat_string.simps)

lemma sample_text: "nat_string 1 = ''1''" "nat_string 2 = ''2''"
  by code_simp+

lemma sample_envelope: "batchEnvelopeBytes ''g1'' = 506"
proof -
  have "json_string_bytes (replicate nats_identifier_characters (CHR ''x'')) = 130" by code_simp
  then show ?thesis
    unfolding batchEnvelopeBytes_def Let_def sample_sizes by (simp only:) code_simp
qed

lemma sample_bytes: "ret_bytes (sample_retained 1) = 210" "ret_bytes (sample_retained 2) = 210"
  unfolding sample_retained_def sample_text Let_def retained_record.simps natsRecordRetainedBytes_def
    nats_copied_message.simps nats_record.simps sample_sizes
  by code_simp+

lemma sample_buffer_ok: "buffer_ok sample_queue"
  using sample_bytes
  by (simp add: sample_queue_def buffer_room_def nats_fits_def sendable_def sample_envelope)
     (simp add: sample_retained_def Let_def)

theorem nats_flush_delivers_in_order_witness:
  "\<exists>out b'. timer_fires (\<lambda>_. Threw) sample_queue = Some (None, out, b')
      \<or> timer_fires (\<lambda>_. Threw) sample_queue = Some (Some Publish_Failed, out, b')"
  using nats_flush_delivers_in_order [OF sample_buffer_ok, of "\<lambda>_. Threw"] by fastforce

text \<open>
  Accepting a receipt on a consistent live buffer counts it, omits an undeliverable one without
  touching the queue, keeps otherwise the longest suffix of the queue and the new record that fits
  1000 records and 8 MiB, and arms the timer exactly when publication has started.
\<close>

theorem nats_accept_keeps_longest_suffix:
  assumes "buffer_ok b" and "\<not> nb_closed b" and "nb_received b < 9007199254740991"
  shows "\<exists>b'. accept receipt b = (None, b') \<and> buffer_ok b'
     \<and> nb_received b' = nb_received b + 1 \<and> nb_pending b' = admitted receipt b
     \<and> nb_timer b' = (nb_timer b \<or> nb_presenting b)"
  using accept_live [of b receipt] assms by auto

theorem nats_accept_keeps_longest_suffix_witness:
  "\<exists>b'. accept (Receipt_Omitted ''metadata-limit'' 3) sample_queue = (None, b') \<and> nb_received b' = 3"
proof -
  have "\<not> nb_closed sample_queue" "nb_received sample_queue = 2" by (simp_all add: sample_queue_def)
  then show ?thesis
    using nats_accept_keeps_longest_suffix [OF sample_buffer_ok, of "Receipt_Omitted ''metadata-limit'' 3"] by auto
qed

end
