(* ===== verification/Delivery_Policies.thy ===== *)
theory Delivery_Policies
  imports Event_Accounting Nats_Buffer Message_Limits Rule_Parser
begin

text \<open>
  The delivery policies of the two providers (\<open>platform/node/nats-delivery-policy.ts\<close>,
  \<open>platform/node/kafka-delivery-policy.ts\<close>, \<open>createControlDeliveryPolicy\<close>) and the Kafka SSE
  queue (\<open>platform/node/kafka-sse-event-queue.ts\<close>). All of them interpret \<open>lawful_policy\<close>, which
  gives the properties of the queues the server really builds.

  An event is modelled by what the policies read; the bytes of its other members are numbers. The
  JSON length of a Kafka message is the parameter \<open>jb\<close>.
\<close>

section \<open>Numbers in JSON\<close>

definition json_int :: "int \<Rightarrow> int" where
  "json_int v = int (length (int_string v))"

lemma json_int_nonneg [simp]: "0 \<le> json_int v"
  by (simp add: json_int_def)

lemma nat_string_length: "0 < k \<Longrightarrow> n < 10 ^ k \<Longrightarrow> length (nat_string n) \<le> k"
proof (induction k arbitrary: n)
  case 0
  then show ?case by simp
next
  case (Suc k)
  show ?case
  proof (cases "n < 10")
    case True
    then show ?thesis by (simp add: nat_string.simps [of n])
  next
    case False
    then have "0 < k" using Suc.prems by (cases k) auto
    moreover have "n div 10 < 10 ^ k" using Suc.prems(2) by (simp add: div_less_iff_less_mult)
    ultimately have "length (nat_string (n div 10)) \<le> k" by (rule Suc.IH)
    then show ?thesis using False by (simp add: nat_string.simps [of n])
  qed
qed

lemma json_int_safe: "is_safe_integer v \<Longrightarrow> 0 \<le> v \<Longrightarrow> json_int v \<le> 16"
  using nat_string_length [of 16 "nat v"]
  by (simp add: json_int_def int_string_def is_safe_integer_def nat_less_iff)

section \<open>Decorating with an omission counter\<close>

text \<open>
  The shared shape of \<open>decorateDrops\<close>: a throw when the amount leaves the safe integers, the event
  itself when nothing was dropped, else the event with the amount.
\<close>

definition decorate_with :: "int \<Rightarrow> int \<Rightarrow> (int \<Rightarrow> 'e) \<Rightarrow> 'e \<Rightarrow> 'e option" where
  "decorate_with current dropped update event =
     (let amount = current + dropped in
      if \<not> is_safe_integer amount \<or> amount < 0 then None
      else if dropped = 0 then Some event else Some (update amount))"

definition reserve_for :: "int \<Rightarrow> int" where
  "reserve_for current = 16 - json_int current"

lemma decorate_with_cases:
  "decorate_with current dropped update event = Some e \<Longrightarrow>
   e = event \<or> (\<exists>amount. e = update amount \<and> json_int amount \<le> 16)"
  by (auto simp: decorate_with_def Let_def json_int_safe split: if_splits)

text \<open>A JSON array loses one record and one comma per record cut from its front.\<close>

lemma json_members_drop:
  assumes "k < length rs"
  shows "json_members (map f (drop k rs)) + sum_list (map f (take k rs)) + int k = json_members (map f rs)"
  using assms by (simp add: json_members_def sum_list_map_drop)

section \<open>NATS events\<close>

datatype nats_body =
    Records_Batch nats_batch
  | Subscription_Changed bool nats_counters nat
      \<comment> \<open>whether the state is loading, the counters, the bytes of the other payload members\<close>
  | Other_Body nat

record nats_wire_event =
  ne_context :: nat
  ne_body :: nats_body

definition counters_json :: "nats_counters \<Rightarrow> int" where
  "counters_json c = json_object
     [(''receivedRecords'', json_int (receivedRecords c)),
      (''applicationOmittedRecords'', json_int (applicationOmittedRecords c)),
      (''publishedRecords'', json_int (publishedRecords c)), (''queuedRecords'', json_int (queuedRecords c)),
      (''queuedBytes'', json_int (queuedBytes c)),
      (''transportOmittedRecords'', json_int (transportOmittedRecords c))]"

definition nats_event_bytes :: "nats_wire_event \<Rightarrow> int" where
  "nats_event_bytes e = int (ne_context e) +
     (case ne_body e of
        Records_Batch b \<Rightarrow> json_object
          [(''generation'', json_string_bytes (batch_generation b)),
           (''records'', json_members (map natsRecordRetainedBytes (batch_records b))),
           (''counters'', counters_json (batch_counters b))]
      | Subscription_Changed loading c other \<Rightarrow> int other + counters_json c
      | Other_Body other \<Rightarrow> int other)"

definition nats_with_records :: "nats_wire_event \<Rightarrow> nats_record list \<Rightarrow> nats_wire_event" where
  "nats_with_records e records =
     (case ne_body e of
        Records_Batch b \<Rightarrow> e\<lparr>ne_body := Records_Batch (b\<lparr>batch_records := records\<rparr>)\<rparr>
      | _ \<Rightarrow> e)"

definition nats_with_omitted :: "nats_wire_event \<Rightarrow> int \<Rightarrow> nats_wire_event" where
  "nats_with_omitted e amount =
     (case ne_body e of
        Records_Batch b \<Rightarrow>
          e\<lparr>ne_body := Records_Batch (b\<lparr>batch_counters := (batch_counters b)\<lparr>transportOmittedRecords := amount\<rparr>\<rparr>)\<rparr>
      | Subscription_Changed loading c other \<Rightarrow>
          e\<lparr>ne_body := Subscription_Changed loading (c\<lparr>transportOmittedRecords := amount\<rparr>) other\<rparr>
      | Other_Body other \<Rightarrow> e)"

definition nats_omitted :: "nats_wire_event \<Rightarrow> int option" where
  "nats_omitted e =
     (case ne_body e of
        Records_Batch b \<Rightarrow> Some (transportOmittedRecords (batch_counters b))
      | Subscription_Changed loading c other \<Rightarrow> Some (transportOmittedRecords c)
      | Other_Body other \<Rightarrow> None)"

definition createNatsDeliveryPolicy :: "(nats_wire_event, nats_record) delivery_policy" where
  "createNatsDeliveryPolicy = \<lparr>
     p_records = (\<lambda>e. case ne_body e of Records_Batch b \<Rightarrow> Some (batch_records b) | _ \<Rightarrow> None),
     p_retainedRecordBytes = natsRecordRetainedBytes,
     p_withRecords = nats_with_records,
     p_startsGeneration = (\<lambda>e. case ne_body e of Subscription_Changed loading c other \<Rightarrow> loading | _ \<Rightarrow> False),
     p_decorateDrops = (\<lambda>e dropped. case nats_omitted e of
         None \<Rightarrow> Some e
       | Some current \<Rightarrow> decorate_with current dropped (nats_with_omitted e) e),
     p_decorationReserveBytes = (\<lambda>e. case nats_omitted e of None \<Rightarrow> 0 | Some current \<Rightarrow> reserve_for current),
     p_replacementKey = (\<lambda>e. None),
     p_event_bytes = nats_event_bytes,
     p_record_bytes = natsRecordRetainedBytes\<rparr>"

lemma counters_json_nonneg: "0 \<le> counters_json c"
  unfolding counters_json_def by (rule json_object_nonneg) auto

lemma batch_payload_nonneg:
  "0 \<le> json_object [(''generation'', json_string_bytes g), (''records'', json_members (map natsRecordRetainedBytes rs)),
       (''counters'', counters_json c)]"
proof (rule json_object_nonneg)
  have "0 \<le> json_members (map natsRecordRetainedBytes rs)"
    by (rule json_list_nonneg) (auto simp: natsRecordRetainedBytes_nonneg)
  then show "0 \<le> snd m" if "m \<in> set [(''generation'', json_string_bytes g),
      (''records'', json_members (map natsRecordRetainedBytes rs)), (''counters'', counters_json c)]" for m
    using that counters_json_nonneg by auto
qed

lemma counters_json_update:
  "counters_json (c\<lparr>transportOmittedRecords := v\<rparr>) =
   counters_json c - json_int (transportOmittedRecords c) + json_int v"
  by (simp add: counters_json_def json_object_def json_members_def member_bytes_def)

lemma nats_decorated:
  assumes "nats_omitted e = Some current"
  shows "nats_event_bytes (nats_with_omitted e v) = nats_event_bytes e - json_int current + json_int v
     \<and> p_records createNatsDeliveryPolicy (nats_with_omitted e v) = p_records createNatsDeliveryPolicy e"
  using assms
  by (auto simp: nats_omitted_def nats_with_omitted_def nats_event_bytes_def createNatsDeliveryPolicy_def
      counters_json_update json_object_def json_members_def member_bytes_def split: nats_body.splits)

interpretation nats_delivery: lawful_policy createNatsDeliveryPolicy
proof unfold_locales
  fix e :: nats_wire_event and rs rs' :: "nats_record list"
  assume "p_records createNatsDeliveryPolicy e = Some rs"
  then show "p_records createNatsDeliveryPolicy (p_withRecords createNatsDeliveryPolicy e rs') = Some rs'"
    and "p_decorationReserveBytes createNatsDeliveryPolicy (p_withRecords createNatsDeliveryPolicy e rs')
         = p_decorationReserveBytes createNatsDeliveryPolicy e"
    by (auto simp: createNatsDeliveryPolicy_def nats_with_records_def nats_omitted_def split: nats_body.splits)
next
  fix e :: nats_wire_event and rs :: "nats_record list" and k
  assume "p_records createNatsDeliveryPolicy e = Some rs" and k: "k < length rs"
  then obtain b where "ne_body e = Records_Batch b" "batch_records b = rs"
    by (auto simp: createNatsDeliveryPolicy_def split: nats_body.splits)
  then show "p_event_bytes createNatsDeliveryPolicy (p_withRecords createNatsDeliveryPolicy e (drop k rs))
      + sum_list (map (p_record_bytes createNatsDeliveryPolicy) (take k rs)) + int k
      = p_event_bytes createNatsDeliveryPolicy e"
    using json_members_drop [OF k, of natsRecordRetainedBytes]
    by (simp add: createNatsDeliveryPolicy_def nats_with_records_def nats_event_bytes_def json_object_def
        member_bytes_def) (simp add: json_members_def)
next
  fix e :: nats_wire_event
  show "0 \<le> p_event_bytes createNatsDeliveryPolicy e"
    using batch_payload_nonneg
    by (auto simp: createNatsDeliveryPolicy_def nats_event_bytes_def counters_json_nonneg
        split: nats_body.split intro!: add_nonneg_nonneg)
next
  fix r :: nats_record
  show "0 \<le> p_record_bytes createNatsDeliveryPolicy r"
    by (simp add: createNatsDeliveryPolicy_def natsRecordRetainedBytes_nonneg)
next
  fix e e' :: nats_wire_event and d
  assume d: "p_decorateDrops createNatsDeliveryPolicy e d = Some e'"
  have c: "e' = e \<or> (\<exists>current amount. nats_omitted e = Some current \<and> e' = nats_with_omitted e amount \<and> json_int amount \<le> 16)"
    using d by (auto simp: createNatsDeliveryPolicy_def split: option.splits dest!: decorate_with_cases)
  then show "p_records createNatsDeliveryPolicy e' = p_records createNatsDeliveryPolicy e"
    using nats_decorated by auto
  show "e' = e \<or> p_event_bytes createNatsDeliveryPolicy e' \<le> p_event_bytes createNatsDeliveryPolicy e
      + p_decorationReserveBytes createNatsDeliveryPolicy e"
    using c nats_decorated by (auto simp: createNatsDeliveryPolicy_def reserve_for_def)
qed

section \<open>Kafka events\<close>

datatype kafka_body =
    Messages_Batch int "kafka_explored_message list" js_string
      \<comment> \<open>droppedMessages, messages, topic\<close>
  | Consumption_State int bool nat
      \<comment> \<open>droppedMessages, whether the state is loading, the bytes of the other payload members\<close>
  | Stream_Metrics "js_string option" bool nat
      \<comment> \<open>operationId, whether the state is loading, the bytes of the payload\<close>
  | Other_Host nat

record host_event =
  he_context :: nat
  he_body :: kafka_body

definition host_event_bytes :: "(kafka_explored_message \<Rightarrow> nat) \<Rightarrow> host_event \<Rightarrow> int" where
  "host_event_bytes jb e = int (he_context e) +
     (case he_body e of
        Messages_Batch dropped messages topic \<Rightarrow> json_object
          [(''droppedMessages'', json_int dropped),
           (''messages'', json_members (map (int \<circ> jb) messages)),
           (''topic'', json_string_bytes topic)]
      | Consumption_State dropped loading other \<Rightarrow>
          int other + member_bytes (''droppedMessages'', json_int dropped)
      | Stream_Metrics op loading other \<Rightarrow> int other
      | Other_Host other \<Rightarrow> int other)"

definition host_records :: "host_event \<Rightarrow> kafka_explored_message list option" where
  "host_records e = (case he_body e of Messages_Batch dropped messages topic \<Rightarrow> Some messages | _ \<Rightarrow> None)"

definition host_with_records :: "host_event \<Rightarrow> kafka_explored_message list \<Rightarrow> host_event" where
  "host_with_records e messages =
     (case he_body e of
        Messages_Batch dropped old topic \<Rightarrow> e\<lparr>he_body := Messages_Batch dropped messages topic\<rparr>
      | _ \<Rightarrow> e)"

definition host_dropped :: "host_event \<Rightarrow> int option" where
  "host_dropped e =
     (case he_body e of
        Messages_Batch dropped messages topic \<Rightarrow> Some dropped
      | Consumption_State dropped loading other \<Rightarrow> Some dropped
      | _ \<Rightarrow> None)"

definition host_with_dropped :: "host_event \<Rightarrow> int \<Rightarrow> host_event" where
  "host_with_dropped e amount =
     (case he_body e of
        Messages_Batch dropped messages topic \<Rightarrow> e\<lparr>he_body := Messages_Batch amount messages topic\<rparr>
      | Consumption_State dropped loading other \<Rightarrow> e\<lparr>he_body := Consumption_State amount loading other\<rparr>
      | _ \<Rightarrow> e)"

text \<open>\<open>JSON.stringify\<close> of a string or null.\<close>

definition json_literal :: "js_string option \<Rightarrow> js_string" where
  "json_literal v = (case v of None \<Rightarrow> ''null''
     | Some s \<Rightarrow> [CHR 0x22] @ concat (map json_char s) @ [CHR 0x22])"

definition createKafkaIpcDeliveryPolicy ::
  "(kafka_explored_message \<Rightarrow> nat) \<Rightarrow> (host_event, kafka_explored_message) delivery_policy" where
  "createKafkaIpcDeliveryPolicy jb = \<lparr>
     p_records = host_records, p_retainedRecordBytes = kafkaMessageRetainedBytes,
     p_withRecords = host_with_records, p_startsGeneration = (\<lambda>e. False),
     p_decorateDrops = (\<lambda>e dropped. Some e), p_decorationReserveBytes = (\<lambda>e. 0),
     p_replacementKey = (\<lambda>e. case he_body e of
         Stream_Metrics op loading other \<Rightarrow> if loading then None else Some (json_literal op)
       | _ \<Rightarrow> None),
     p_event_bytes = host_event_bytes jb, p_record_bytes = (\<lambda>m. int (jb m))\<rparr>"

definition createKafkaSseDeliveryPolicy ::
  "(kafka_explored_message \<Rightarrow> nat) \<Rightarrow> (host_event, kafka_explored_message) delivery_policy" where
  "createKafkaSseDeliveryPolicy jb = \<lparr>
     p_records = host_records, p_retainedRecordBytes = kafkaMessageRetainedBytes,
     p_withRecords = host_with_records,
     p_startsGeneration = (\<lambda>e. case he_body e of Consumption_State dropped loading other \<Rightarrow> loading | _ \<Rightarrow> False),
     p_decorateDrops = (\<lambda>e dropped. case host_dropped e of
         None \<Rightarrow> Some e
       | Some current \<Rightarrow> decorate_with current dropped (host_with_dropped e) e),
     p_decorationReserveBytes = (\<lambda>e. case host_dropped e of None \<Rightarrow> 0 | Some current \<Rightarrow> reserve_for current),
     p_replacementKey = (\<lambda>e. None),
     p_event_bytes = host_event_bytes jb, p_record_bytes = (\<lambda>m. int (jb m))\<rparr>"

definition createControlDeliveryPolicy :: "('e \<Rightarrow> nat) \<Rightarrow> ('e, 'r) delivery_policy" where
  "createControlDeliveryPolicy bytes = \<lparr>
     p_records = (\<lambda>e. None), p_retainedRecordBytes = (\<lambda>r. 0), p_withRecords = (\<lambda>e rs. e),
     p_startsGeneration = (\<lambda>e. False), p_decorateDrops = (\<lambda>e dropped. Some e),
     p_decorationReserveBytes = (\<lambda>e. 0), p_replacementKey = (\<lambda>e. None),
     p_event_bytes = (\<lambda>e. int (bytes e)), p_record_bytes = (\<lambda>r. 0)\<rparr>"

lemma host_batch_nonneg:
  "0 \<le> json_object [(''droppedMessages'', json_int d), (''messages'', json_members (map (int \<circ> jb) ms)),
       (''topic'', json_string_bytes t)]"
proof (rule json_object_nonneg)
  have "0 \<le> json_members (map (int \<circ> jb) ms)" by (rule json_list_nonneg) auto
  then show "0 \<le> snd m" if "m \<in> set [(''droppedMessages'', json_int d),
      (''messages'', json_members (map (int \<circ> jb) ms)), (''topic'', json_string_bytes t)]" for m
    using that by auto
qed

lemma host_event_bytes_nonneg: "0 \<le> host_event_bytes jb e"
  using host_batch_nonneg [of _ jb]
  by (auto simp: host_event_bytes_def member_bytes_def split: kafka_body.split intro!: add_nonneg_nonneg)

lemma host_with_records_laws:
  assumes "host_records e = Some rs"
  shows "host_records (host_with_records e rs') = Some rs'"
    and "host_dropped (host_with_records e rs') = host_dropped e"
    and "k < length rs \<Longrightarrow> host_event_bytes jb (host_with_records e (drop k rs))
           + sum_list (map (\<lambda>m. int (jb m)) (take k rs)) + int k = host_event_bytes jb e"
proof -
  obtain d t where b: "he_body e = Messages_Batch d rs t"
    using assms by (auto simp: host_records_def split: kafka_body.splits)
  show "host_records (host_with_records e rs') = Some rs'"
    and "host_dropped (host_with_records e rs') = host_dropped e"
    using b by (simp_all add: host_records_def host_with_records_def host_dropped_def)
  assume k: "k < length rs"
  show "host_event_bytes jb (host_with_records e (drop k rs))
           + sum_list (map (\<lambda>m. int (jb m)) (take k rs)) + int k = host_event_bytes jb e"
    using json_members_drop [OF k, of "int \<circ> jb"] b
    by (simp add: host_with_records_def host_event_bytes_def json_object_def member_bytes_def o_def)
       (simp add: json_members_def)
qed

lemma host_decorated:
  assumes "host_dropped e = Some current"
  shows "host_event_bytes jb (host_with_dropped e v) = host_event_bytes jb e - json_int current + json_int v
     \<and> host_records (host_with_dropped e v) = host_records e"
  using assms
  by (auto simp: host_dropped_def host_with_dropped_def host_event_bytes_def host_records_def json_object_def
      json_members_def member_bytes_def split: kafka_body.splits)

interpretation kafka_ipc: lawful_policy "createKafkaIpcDeliveryPolicy jb" for jb
  by unfold_locales
     (auto simp: createKafkaIpcDeliveryPolicy_def host_with_records_laws host_event_bytes_nonneg)

interpretation kafka_sse: lawful_policy "createKafkaSseDeliveryPolicy jb" for jb
proof unfold_locales
  fix e e' :: host_event and d
  assume d: "p_decorateDrops (createKafkaSseDeliveryPolicy jb) e d = Some e'"
  have c: "e' = e \<or> (\<exists>current amount. host_dropped e = Some current \<and> e' = host_with_dropped e amount \<and> json_int amount \<le> 16)"
    using d by (auto simp: createKafkaSseDeliveryPolicy_def split: option.splits dest!: decorate_with_cases)
  then show "p_records (createKafkaSseDeliveryPolicy jb) e' = p_records (createKafkaSseDeliveryPolicy jb) e"
    using host_decorated by (auto simp: createKafkaSseDeliveryPolicy_def)
  show "e' = e \<or> p_event_bytes (createKafkaSseDeliveryPolicy jb) e' \<le> p_event_bytes (createKafkaSseDeliveryPolicy jb) e
      + p_decorationReserveBytes (createKafkaSseDeliveryPolicy jb) e"
    using c host_decorated by (auto simp: createKafkaSseDeliveryPolicy_def reserve_for_def)
qed (auto simp: createKafkaSseDeliveryPolicy_def host_with_records_laws host_event_bytes_nonneg split: option.split)

interpretation control_delivery: lawful_policy "createControlDeliveryPolicy bytes" for bytes
  by unfold_locales (auto simp: createControlDeliveryPolicy_def)

text \<open>\<open>SseClientEventQueue\<close>: the limits and the policy it is built with.\<close>

record sse_options =
  sse_maxEvents :: int
  sse_maxMessageBytes :: int
  sse_maxMessages :: int
  sse_maxSerializedBytes :: "int option"

definition sse_queue_options ::
  "(kafka_explored_message \<Rightarrow> nat) \<Rightarrow> sse_options \<Rightarrow> (host_event, kafka_explored_message) queue_options" where
  "sse_queue_options jb s = \<lparr>
     o_limits = \<lparr>maxEvents = sse_maxEvents s,
       maxSerializedBytes = (case sse_maxSerializedBytes s of None \<Rightarrow> 8 * 1024 * 1024 | Some b \<Rightarrow> b),
       maxRecords = sse_maxMessages s, maxRecordBytes = Some (sse_maxMessageBytes s)\<rparr>,
     o_overflow = Evict_Oldest_Pending_Records,
     o_policy = createKafkaSseDeliveryPolicy jb\<rparr>"


text \<open>What the policies read, as rewrite rules.\<close>

lemma sse_fields [simp]:
  "p_records (createKafkaSseDeliveryPolicy jb) = host_records"
  "p_event_bytes (createKafkaSseDeliveryPolicy jb) = host_event_bytes jb"
  "p_decorationReserveBytes (createKafkaSseDeliveryPolicy jb) e
     = (case host_dropped e of None \<Rightarrow> 0 | Some n \<Rightarrow> reserve_for n)"
  "p_decorateDrops (createKafkaSseDeliveryPolicy jb) e d
     = (case host_dropped e of None \<Rightarrow> Some e | Some n \<Rightarrow> decorate_with n d (host_with_dropped e) e)"
  by (simp_all add: createKafkaSseDeliveryPolicy_def)

lemma ipc_fields [simp]: "p_records (createKafkaIpcDeliveryPolicy jb) = host_records"
  by (simp add: createKafkaIpcDeliveryPolicy_def)

lemma nats_fields [simp]:
  "p_event_bytes createNatsDeliveryPolicy = nats_event_bytes"
  "p_decorationReserveBytes createNatsDeliveryPolicy e
     = (case nats_omitted e of None \<Rightarrow> 0 | Some n \<Rightarrow> reserve_for n)"
  by (simp_all add: createNatsDeliveryPolicy_def)

section \<open>Properties\<close>

definition sample_jb :: "kafka_explored_message \<Rightarrow> nat" where
  "sample_jb m = 100"

definition sample_sse :: sse_options where
  "sample_sse = \<lparr>sse_maxEvents = 10, sse_maxMessageBytes = 1000, sse_maxMessages = 2, sse_maxSerializedBytes = None\<rparr>"

definition sample_sse_queue :: "host_event list \<Rightarrow> (host_event, kafka_explored_message) event_queue" where
  "sample_sse_queue es = fold (\<lambda>e q. snd (enqueue_event (sse_queue_options sample_jb sample_sse) e q)) es
     (the (new_queue (sse_queue_options sample_jb sample_sse)))"

lemma sample_sse_reachable: "delivery_reachable (sse_queue_options sample_jb sample_sse) (sample_sse_queue es)"
proof -
  have "new_queue (sse_queue_options sample_jb sample_sse) =
      Some (the (new_queue (sse_queue_options sample_jb sample_sse)))"
    by (simp add: new_queue_def sse_queue_options_def sample_sse_def Let_def positiveInteger_def
        nonNegativeInteger_def is_safe_integer_def)
  then have r: "delivery_reachable (sse_queue_options sample_jb sample_sse)
      (the (new_queue (sse_queue_options sample_jb sample_sse)))" by (rule reach_new)
  have "delivery_reachable (sse_queue_options sample_jb sample_sse) q \<Longrightarrow>
      delivery_reachable (sse_queue_options sample_jb sample_sse)
        (fold (\<lambda>e q. snd (enqueue_event (sse_queue_options sample_jb sample_sse) e q)) es q)" for q
  proof (induction es arbitrary: q)
    case (Cons e es)
    then show ?case
      using reach_enqueue [OF Cons.prems, of e "fst (enqueue_event (sse_queue_options sample_jb sample_sse) e q)"] by simp
  qed simp
  then show ?thesis using r by (simp add: sample_sse_queue_def)
qed

definition sample_batch :: host_event where
  "sample_batch = \<lparr>he_context = 40, he_body = Messages_Batch 0 [] ''t''\<rparr>"



text \<open>
  When an SSE client queue admits an event, what is then pending is the most recent part of the
  pending messages followed by the event's own: only a prefix of the oldest has gone, and the
  generations' drop counters have grown by exactly its length.
\<close>

theorem sse_queue_evicts_oldest:
  assumes "delivery_reachable (sse_queue_options jb s) q"
    and "enqueue_event (sse_queue_options jb s) event q = (None, q')"
  shows "\<exists>k. k \<le> length (pending_records q) + (case host_records event of None \<Rightarrow> 0 | Some ms \<Rightarrow> length ms)
     \<and> pending_records q' = drop k (pending_records q @ (case host_records event of None \<Rightarrow> [] | Some ms \<Rightarrow> ms))
     \<and> dropped_total q' = dropped_total q + int k"
proof -
  have p: "o_policy (sse_queue_options jb s) = createKafkaSseDeliveryPolicy jb" by (simp add: sse_queue_options_def)
  have "kafka_sse.bounded_queue jb (sse_queue_options jb s) q"
    using kafka_sse.reachable_bounded [OF p assms(1)] by blast
  from kafka_sse.enqueue_ok [OF p this assms(2)] obtain k where
      "k \<le> length (pending_records q @ kafka_sse.offered jb event)"
      "pending_records q' = drop k (pending_records q @ kafka_sse.offered jb event)"
      "dropped_total q' = dropped_total q + int k" by blast
  then show ?thesis
    by (intro exI [of _ k]) (auto simp: kafka_sse.offered_def split: option.splits)
qed

lemma sample_admitted:
  "enqueue_event (sse_queue_options sample_jb sample_sse) sample_batch (sample_sse_queue []) =
   (None, sample_sse_queue [sample_batch])"
proof -
  have "fst (enqueue_event (sse_queue_options sample_jb sample_sse) sample_batch (sample_sse_queue [])) = None"
    by code_simp
  then show ?thesis by (simp add: sample_sse_queue_def prod_eq_iff)
qed

theorem sse_queue_evicts_oldest_witness:
  "\<exists>k. dropped_total (sample_sse_queue [sample_batch]) = dropped_total (sample_sse_queue []) + int k"
  using sse_queue_evicts_oldest [OF sample_sse_reachable sample_admitted] by blast

text \<open>
  Starting a delivery from a reachable SSE client queue fails only when the omission counter of
  the oldest event would leave the safe integers: a decorated event never exceeds the bytes that were
  reserved for it.
\<close>

theorem sse_begin_fails_only_on_counter:
  assumes "delivery_reachable (sse_queue_options jb s) q"
    and "begin_delivery (sse_queue_options jb s) q = (Begin_Failure reason, q')"
  shows "\<exists>e es current. q_pending q = e # es \<and> host_dropped (en_event e) = Some current
     \<and> \<not> (0 \<le> current + q_dropped q (en_generation e)
          \<and> current + q_dropped q (en_generation e) \<le> 9007199254740991)"
proof -
  have p: "o_policy (sse_queue_options jb s) = createKafkaSseDeliveryPolicy jb" by (simp add: sse_queue_options_def)
  have "kafka_sse.bounded_queue jb (sse_queue_options jb s) q"
    using kafka_sse.reachable_bounded [OF p assms(1)] by blast
  from kafka_sse.begin_fits [OF p this assms(2)] obtain e es where
      e: "q_pending q = e # es"
      "p_decorateDrops (createKafkaSseDeliveryPolicy jb) (en_event e) (q_dropped q (en_generation e)) = None"
    by blast
  then obtain current where "host_dropped (en_event e) = Some current"
      "decorate_with current (q_dropped q (en_generation e)) (host_with_dropped (en_event e)) (en_event e) = None"
    by (auto split: option.splits)
  then show ?thesis
    using e(1) by (auto simp: decorate_with_def Let_def is_safe_integer_def split: if_splits)
qed

definition sample_saturated :: host_event where
  "sample_saturated = \<lparr>he_context = 40, he_body = Consumption_State (-1) False 5\<rparr>"

lemma sample_begin_fails:
  "begin_delivery (sse_queue_options sample_jb sample_sse) (sample_sse_queue [sample_saturated]) =
   (Begin_Failure Event_Validation, snd (begin_delivery (sse_queue_options sample_jb sample_sse) (sample_sse_queue [sample_saturated])))"
proof -
  have "fst (begin_delivery (sse_queue_options sample_jb sample_sse) (sample_sse_queue [sample_saturated]))
      = Begin_Failure Event_Validation" by code_simp
  then show ?thesis by (simp add: prod_eq_iff)
qed

theorem sse_begin_fails_only_on_counter_witness:
  "\<exists>e es. q_pending (sample_sse_queue [sample_saturated]) = e # es"
  using sse_begin_fails_only_on_counter [OF sample_sse_reachable sample_begin_fails] by blast

text \<open>
  An IPC queue that rejects on overflow never omits a message: an admitted event leaves exactly
  the pending messages followed by its own, and no drop counter moves.
\<close>

theorem ipc_queue_never_omits:
  assumes "o_policy opts = createKafkaIpcDeliveryPolicy jb" and "o_overflow opts = Reject"
    and "delivery_reachable opts q" and "enqueue_event opts event q = (None, q')"
  shows "pending_records q' = pending_records q @ (case host_records event of None \<Rightarrow> [] | Some ms \<Rightarrow> ms)
     \<and> dropped_total q' = dropped_total q"
proof -
  have "kafka_ipc.bounded_queue jb opts q"
    using kafka_ipc.reachable_bounded [OF assms(1,3)] by blast
  from kafka_ipc.enqueue_ok [OF assms(1) this assms(4)] assms(2) show ?thesis
    by (auto simp: kafka_ipc.offered_def)
qed

definition sample_ipc :: "(host_event, kafka_explored_message) queue_options" where
  "sample_ipc = \<lparr>o_limits = \<lparr>maxEvents = 5, maxSerializedBytes = 9999, maxRecords = 5, maxRecordBytes = None\<rparr>,
     o_overflow = Reject, o_policy = createKafkaIpcDeliveryPolicy sample_jb\<rparr>"

definition sample_ipc_queue :: "(host_event, kafka_explored_message) event_queue" where
  "sample_ipc_queue = the (new_queue sample_ipc)"

lemma sample_ipc_reachable: "delivery_reachable sample_ipc sample_ipc_queue"
  by (rule reach_new) (simp add: sample_ipc_queue_def new_queue_def sample_ipc_def Let_def positiveInteger_def
        nonNegativeInteger_def is_safe_integer_def)

lemma sample_ipc_admitted:
  "enqueue_event sample_ipc sample_batch sample_ipc_queue =
   (None, snd (enqueue_event sample_ipc sample_batch sample_ipc_queue))"
proof -
  have "fst (enqueue_event sample_ipc sample_batch sample_ipc_queue) = None"
    by code_simp
  then show ?thesis by (simp add: prod_eq_iff)
qed

theorem ipc_queue_never_omits_witness:
  "dropped_total (snd (enqueue_event sample_ipc sample_batch sample_ipc_queue)) = dropped_total sample_ipc_queue"
  using ipc_queue_never_omits [OF _ _ sample_ipc_reachable sample_ipc_admitted]
  by (simp add: sample_ipc_def)

text \<open>
  Every reachable delivery queue with the NATS policy, whatever its limits and overflow rule,
  keeps its limits and accounts its retained events exactly.
\<close>

theorem nats_queue_within_limits:
  assumes "o_policy opts = createNatsDeliveryPolicy" and "delivery_reachable opts q"
  shows "within_limits (o_limits opts) q
     \<and> q_bytes q = sum_list (map (\<lambda>e. nats_event_bytes (en_event e)
          + (case nats_omitted (en_event e) of None \<Rightarrow> 0 | Some n \<Rightarrow> reserve_for n)) (entries q))"
proof -
  have b: "nats_delivery.queue_ok (o_overflow opts) q" "within_limits (o_limits opts) q"
    using nats_delivery.reachable_bounded [OF assms] by (simp_all add: nats_delivery.bounded_queue_def)
  have m: "map en_serializedBytes (entries q) = map (\<lambda>e. nats_event_bytes (en_event e)
          + (case nats_omitted (en_event e) of None \<Rightarrow> 0 | Some n \<Rightarrow> reserve_for n)) (entries q)"
    using b(1) by (auto simp: nats_delivery.queue_ok_def nats_delivery.entry_ok_def)
  have "q_bytes q = sum_list (map en_serializedBytes (entries q))"
    using b(1) by (simp add: nats_delivery.queue_ok_def sums_ok_def)
  note sums = this [unfolded m]
  show ?thesis by (intro conjI sums b)
qed

definition sample_nats_options :: "(nats_wire_event, nats_record) queue_options" where
  "sample_nats_options = \<lparr>o_limits = \<lparr>maxEvents = 5, maxSerializedBytes = 9999, maxRecords = 5, maxRecordBytes = Some 7\<rparr>,
     o_overflow = Evict_Oldest_Pending_Records, o_policy = createNatsDeliveryPolicy\<rparr>"

lemma sample_nats_reachable: "delivery_reachable sample_nats_options (the (new_queue sample_nats_options))"
  by (rule reach_new) (simp add: new_queue_def sample_nats_options_def Let_def positiveInteger_def
        nonNegativeInteger_def is_safe_integer_def)

theorem nats_queue_within_limits_witness:
  "within_limits (o_limits sample_nats_options) (the (new_queue sample_nats_options))"
  using nats_queue_within_limits [OF _ sample_nats_reachable] by (simp add: sample_nats_options_def)

end
