(* ===== verification/Fetch_Plan.thy ===== *)
theory Fetch_Plan
  imports Prelude
begin

text \<open>
  Planning a bounded read (\<open>engine/fetch-plan.ts\<close>): from the broker's partition offsets, the
  request's mode and an optional checkpoint to the start and end offset of every partition.

  The broker is the parameter \<open>lookup\<close>: its \<open>n\<close>th call with a timestamp returns the offsets of
  the topic's partitions, or None when it throws. Nothing relates one call to the next, so the
  results hold for a broker whose offsets move while the plan is made. The functions return the
  number of calls made beside their result.
\<close>

section \<open>Requests, plans, coverage\<close>

record kafka_search_filter =
  sf_expression :: "js_string option"
  sf_key :: js_string
  sf_value :: js_string
  sf_offset :: js_string
  sf_offsetExact :: "int option"
    \<comment> \<open>the decimal text as its value\<close>
  sf_timestamp :: js_string
  sf_partition :: "nat option"

datatype fetch_mode = Tail | Newest | Earliest | Time_Window int int
  \<comment> \<open>start and end of the window in milliseconds\<close>

record fetch_request =
  rq_topic :: js_string
  rq_maxMessages :: int
  rq_search :: "kafka_search_filter option"
  rq_mode :: fetch_mode

text \<open>A \<open>Map\<close> from partitions to offsets lists its entries in insertion order.\<close>

type_synonym offset_map = "(nat \<times> int) list"

record fetch_plan =
  pl_continuous :: bool
  pl_endOffsets :: "offset_map option"
  pl_maxMessages :: int
  pl_request :: fetch_request
  pl_startOffsets :: offset_map

datatype read_reason =
    Reading | Range_Complete | Result_Limit | Scan_Limit | Byte_Limit_Reached | Fetch_Limit
  | Deadline | Cancelled | Failed

record partition_coverage =
  pc_partition :: nat
  pc_startOffset :: int
  pc_endOffset :: int
  pc_nextOffset :: int

record read_coverage =
  cv_reason :: read_reason
  cv_scannedRecords :: int
  cv_scannedBytes :: int
  cv_matchedRecords :: int
  cv_unavailableRecords :: int
  cv_partitions :: "partition_coverage list"

record read_checkpoint =
  ck_clusterId :: js_string
  ck_topicId :: js_string
  ck_partitionCount :: nat
  ck_coverage :: read_coverage

datatype checkpoint_reason = Identity_Changed | Partitions_Changed | Retention_Changed | Invalid

datatype plan_error =
    Inconsistent_Maps
  | Inconsistent_Offsets nat
  | Checkpoint_Error checkpoint_reason
  | Lookup_Failed

abbreviation query_partitions :: nat where "query_partitions \<equiv> 2048"
abbreviation query_scan_records :: int where "query_scan_records \<equiv> 10000"
abbreviation query_scan_bytes :: int where "query_scan_bytes \<equiv> 32 * 1048576"
abbreviation max_offset :: int where "max_offset \<equiv> 9223372036854775807"
abbreviation earliest_timestamp :: int where "earliest_timestamp \<equiv> - 2"
abbreviation latest_timestamp :: int where "latest_timestamp \<equiv> - 1"
abbreviation initial_window :: int where "initial_window \<equiv> 60 * 60 * 1000"
abbreviation max_window :: int where "max_window \<equiv> 30 * 24 * 60 * 60 * 1000"
abbreviation search_steps :: nat where "search_steps \<equiv> 10"

text \<open>
  \<open>parseKafkaReadCoverage\<close> on a value of the right shape: ordered half-open offsets of distinct
  partitions, counters that add up, and a complete range that is complete.
\<close>

definition partition_coverage_ok :: "partition_coverage \<Rightarrow> bool" where
  "partition_coverage_ok c \<longleftrightarrow>
     0 \<le> pc_startOffset c \<and> pc_startOffset c \<le> pc_nextOffset c \<and> pc_nextOffset c \<le> pc_endOffset c
     \<and> pc_endOffset c \<le> max_offset \<and> is_safe_integer (int (pc_partition c))"

definition parseKafkaReadCoverage :: "read_coverage \<Rightarrow> bool" where
  "parseKafkaReadCoverage c \<longleftrightarrow>
     length (cv_partitions c) \<le> query_partitions
     \<and> list_all partition_coverage_ok (cv_partitions c)
     \<and> distinct (map pc_partition (cv_partitions c))
     \<and> 0 \<le> cv_scannedRecords c \<and> is_safe_integer (cv_scannedRecords c)
     \<and> 0 \<le> cv_scannedBytes c \<and> is_safe_integer (cv_scannedBytes c)
     \<and> 0 \<le> cv_matchedRecords c \<and> is_safe_integer (cv_matchedRecords c)
     \<and> 0 \<le> cv_unavailableRecords c \<and> is_safe_integer (cv_unavailableRecords c)
     \<and> cv_matchedRecords c + cv_unavailableRecords c \<le> cv_scannedRecords c
     \<and> (cv_reason c = Range_Complete \<longrightarrow> list_all (\<lambda>p. pc_nextOffset p = pc_endOffset p) (cv_partitions c))"

section \<open>Bounds\<close>

record topic_bounds =
  tb_high :: "int list"
  tb_low :: "int list"

type_synonym lookup = "nat \<Rightarrow> int \<Rightarrow> int list option"

text \<open>The first inconsistent partition, if there is one.\<close>

fun inconsistent_partition :: "nat \<Rightarrow> int list \<Rightarrow> int list \<Rightarrow> nat option" where
  "inconsistent_partition p (l # low) (h # high) =
     (if l < 0 \<or> h < l then Some p else inconsistent_partition (Suc p) low high)"
| "inconsistent_partition p _ _ = None"

definition assertOffsetBounds :: "int list \<Rightarrow> int list \<Rightarrow> plan_error option" where
  "assertOffsetBounds low high =
     (if length low \<noteq> length high \<or> length low > query_partitions then Some Inconsistent_Maps
      else map_option Inconsistent_Offsets (inconsistent_partition 0 low high))"

definition clampOffset :: "int \<Rightarrow> int \<Rightarrow> int \<Rightarrow> int" where
  "clampOffset candidate low high =
     (let normalized = (if candidate < 0 then high else candidate)
      in if normalized < low then low else if normalized > high then high else normalized)"

definition offsetsMap :: "int list \<Rightarrow> offset_map" where
  "offsetsMap offsets = enumerate 0 offsets"

definition selected_entry :: "kafka_search_filter \<Rightarrow> offset_map \<Rightarrow> nat \<times> int \<Rightarrow> (nat \<times> int \<times> int) list" where
  "selected_entry search ends entry =
     (case entry of (p, low) \<Rightarrow>
       if sf_partition search \<noteq> None \<and> sf_partition search \<noteq> Some p then []
       else let high = (case map_of ends p of Some h \<Rightarrow> h | None \<Rightarrow> low) in
            case sf_offsetExact search of
              None \<Rightarrow> [(p, low, high)]
            | Some exact \<Rightarrow>
                let start = (if exact < low then low else if exact > high then high else exact)
                in [(p, start, if exact \<ge> low \<and> exact < high then exact + 1 else start)])"

definition selectedPartitionPlan :: "fetch_plan \<Rightarrow> fetch_plan" where
  "selectedPartitionPlan plan =
     (case (rq_search (pl_request plan), pl_endOffsets plan) of
        (Some search, Some ends) \<Rightarrow>
          if sf_offsetExact search = None \<and> sf_partition search = None then plan
          else let selected = concat (map (selected_entry search ends) (pl_startOffsets plan))
               in plan\<lparr>pl_startOffsets := map (\<lambda>(p, s, e). (p, s)) selected,
                       pl_endOffsets := Some (map (\<lambda>(p, s, e). (p, e)) selected)\<rparr>
      | _ \<Rightarrow> plan)"

definition loadTopicBounds :: "lookup \<Rightarrow> plan_error + topic_bounds" where
  "loadTopicBounds lookup =
     (case (lookup 0 earliest_timestamp, lookup 1 latest_timestamp) of
        (Some low, Some high) \<Rightarrow>
          (case assertOffsetBounds low high of
             Some e \<Rightarrow> Inl e
           | None \<Rightarrow> Inr \<lparr>tb_high = high, tb_low = low\<rparr>)
      | _ \<Rightarrow> Inl Lookup_Failed)"

section \<open>Recent offsets\<close>

definition candidate_at :: "int list \<Rightarrow> topic_bounds \<Rightarrow> nat \<Rightarrow> int" where
  "candidate_at candidates b p =
     clampOffset (if p < length candidates then candidates ! p else tb_high b ! p) (tb_low b ! p) (tb_high b ! p)"

definition countCandidates :: "int list \<Rightarrow> topic_bounds \<Rightarrow> int" where
  "countCandidates candidates b =
     min max_safe_integer (sum_list (map (\<lambda>p. tb_high b ! p - candidate_at candidates b p) [0..<length (tb_high b)]))"

definition clampRecentOffsets :: "int list \<Rightarrow> topic_bounds \<Rightarrow> int \<Rightarrow> int list" where
  "clampRecentOffsets candidates b span =
     map (\<lambda>p. let high = tb_high b ! p; low = tb_low b ! p;
                  candidate = candidate_at candidates b p;
                  floor = (if high - low > span then high - span else low)
              in if candidate < floor then floor else candidate) [0..<length (tb_high b)]"

definition available_records :: "topic_bounds \<Rightarrow> int" where
  "available_records b = sum_list (map (\<lambda>p. tb_high b ! p - tb_low b ! p) [0..<length (tb_high b)])"

definition checked_lookup :: "lookup \<Rightarrow> topic_bounds \<Rightarrow> nat \<Rightarrow> int \<Rightarrow> plan_error + int list" where
  "checked_lookup lookup b n timestamp =
     (case lookup n timestamp of
        None \<Rightarrow> Inl Lookup_Failed
      | Some offsets \<Rightarrow> if length offsets \<noteq> length (tb_high b) then Inl Inconsistent_Maps else Inr offsets)"

text \<open>The widening loop: the window, both timestamps and the older offsets; and the calls made.\<close>

record recent_search =
  rs_window :: int
  rs_older :: int
  rs_recent :: int
  rs_offsets :: "int list"

partial_function (option) widen ::
  "lookup \<Rightarrow> topic_bounds \<Rightarrow> int \<Rightarrow> int \<Rightarrow> nat \<Rightarrow> recent_search \<Rightarrow> ((plan_error + recent_search) \<times> nat) option" where
  "widen lookup b maximum nowMs n s =
     (if countCandidates (rs_offsets s) b < maximum \<and> rs_window s < max_window
      then let window = min (rs_window s * 2) max_window;
               older = max 0 (nowMs - window)
           in (case checked_lookup lookup b n older of
                 Inl e \<Rightarrow> Some (Inl e, Suc n)
               | Inr offsets \<Rightarrow>
                   widen lookup b maximum nowMs (Suc n)
                     \<lparr>rs_window = window, rs_older = older, rs_recent = rs_older s, rs_offsets = offsets\<rparr>)
      else Some (Inr s, n))"

text \<open>The binary search over timestamps, with the steps left.\<close>

fun bisect :: "lookup \<Rightarrow> topic_bounds \<Rightarrow> int \<Rightarrow> nat \<Rightarrow> nat \<Rightarrow> int \<Rightarrow> int \<Rightarrow> int list \<Rightarrow> (plan_error + int list) \<times> nat" where
  "bisect lookup b maximum 0 n older recent selected = (Inr selected, n)"
| "bisect lookup b maximum (Suc steps) n older recent selected =
     (let midpoint = (older + recent) div 2 in
      if midpoint = older \<or> midpoint = recent then (Inr selected, n)
      else case checked_lookup lookup b n midpoint of
        Inl e \<Rightarrow> (Inl e, Suc n)
      | Inr offsets \<Rightarrow>
          if countCandidates offsets b \<ge> maximum
          then bisect lookup b maximum steps (Suc n) midpoint recent offsets
          else bisect lookup b maximum steps (Suc n) older midpoint selected)"

definition resolveRecentOffsets ::
  "lookup \<Rightarrow> topic_bounds \<Rightarrow> int \<Rightarrow> int \<Rightarrow> nat \<Rightarrow> ((plan_error + int list) \<times> nat) option" where
  "resolveRecentOffsets lookup b maximum nowMs n =
     (if available_records b \<le> maximum then Some (Inr (tb_low b), n)
      else let recent = max 0 (nowMs - initial_window) in
      (case checked_lookup lookup b n recent of
         Inl e \<Rightarrow> Some (Inl e, Suc n)
       | Inr offsets \<Rightarrow>
           (case widen lookup b maximum nowMs (Suc n)
                   \<lparr>rs_window = initial_window, rs_older = recent, rs_recent = recent, rs_offsets = offsets\<rparr> of
              None \<Rightarrow> None
            | Some (Inl e, m) \<Rightarrow> Some (Inl e, m)
            | Some (Inr s, m) \<Rightarrow>
                if countCandidates (rs_offsets s) b < maximum
                then Some (Inr (clampRecentOffsets (tb_low b) b maximum), m)
                else (case bisect lookup b maximum search_steps m (rs_older s) (rs_recent s) (rs_offsets s) of
                        (Inl e, k) \<Rightarrow> Some (Inl e, k)
                      | (Inr selected, k) \<Rightarrow> Some (Inr (clampRecentOffsets selected b maximum), k)))))"

section \<open>Plans\<close>

fun resume_partitions ::
  "topic_bounds \<Rightarrow> partition_coverage list \<Rightarrow> checkpoint_reason + (nat \<times> int \<times> int) list" where
  "resume_partitions b [] = Inr []"
| "resume_partitions b (c # cs) =
     (if \<not> pc_partition c < length (tb_high b) then Inl Partitions_Changed
      else if tb_low b ! pc_partition c > pc_nextOffset c \<or> tb_high b ! pc_partition c < pc_endOffset c
      then Inl Retention_Changed
      else case resume_partitions b cs of
        Inl e \<Rightarrow> Inl e
      | Inr rest \<Rightarrow> Inr ((pc_partition c, pc_nextOffset c, pc_endOffset c) # rest))"

definition resume_plan :: "fetch_request \<Rightarrow> topic_bounds \<Rightarrow> read_checkpoint \<Rightarrow> plan_error + fetch_plan" where
  "resume_plan request b checkpoint =
     (if rq_mode request = Tail then Inl (Checkpoint_Error Invalid)
      else if \<not> parseKafkaReadCoverage (ck_coverage checkpoint) then Inl (Checkpoint_Error Invalid)
      else if length (tb_high b) \<noteq> ck_partitionCount checkpoint then Inl (Checkpoint_Error Partitions_Changed)
      else case resume_partitions b (cv_partitions (ck_coverage checkpoint)) of
        Inl e \<Rightarrow> Inl (Checkpoint_Error e)
      | Inr ranges \<Rightarrow>
          Inr \<lparr>pl_continuous = False, pl_endOffsets = Some (map (\<lambda>(p, s, e). (p, e)) ranges),
               pl_maxMessages = rq_maxMessages request, pl_request = request,
               pl_startOffsets = map (\<lambda>(p, s, e). (p, s)) ranges\<rparr>)"

definition make_plan :: "fetch_request \<Rightarrow> bool \<Rightarrow> int list \<Rightarrow> int list option \<Rightarrow> fetch_plan" where
  "make_plan request continuous start ends = selectedPartitionPlan
     \<lparr>pl_continuous = continuous, pl_endOffsets = map_option offsetsMap ends,
      pl_maxMessages = rq_maxMessages request, pl_request = request,
      pl_startOffsets = offsetsMap start\<rparr>"

definition window_plan :: "lookup \<Rightarrow> fetch_request \<Rightarrow> topic_bounds \<Rightarrow> int \<Rightarrow> int \<Rightarrow> plan_error + fetch_plan" where
  "window_plan lookup request b startTime endTime =
     (case (lookup 2 startTime, lookup 3 endTime) of
        (Some starts, Some ends) \<Rightarrow>
          if length starts \<noteq> length (tb_high b) \<or> length ends \<noteq> length (tb_high b) then Inl Inconsistent_Maps
          else let start = map (candidate_at starts b) [0..<length (tb_high b)];
                   windowEnd = map (\<lambda>p. let end = candidate_at ends b p
                                        in if end < start ! p then start ! p else end) [0..<length (tb_high b)]
               in Inr (make_plan request False start (Some windowEnd))
      | _ \<Rightarrow> Inl Lookup_Failed)"

definition resolveKafkaFetchPlan ::
  "lookup \<Rightarrow> fetch_request \<Rightarrow> int \<Rightarrow> read_checkpoint option \<Rightarrow> ((plan_error + fetch_plan) \<times> nat) option" where
  "resolveKafkaFetchPlan lookup request nowMs checkpoint =
     (case loadTopicBounds lookup of
        Inl e \<Rightarrow> Some (Inl e, 2)
      | Inr b \<Rightarrow>
          (case checkpoint of
             Some c \<Rightarrow> Some (resume_plan request b c, 2)
           | None \<Rightarrow>
               (case rq_mode request of
                  Earliest \<Rightarrow> Some (Inr (make_plan request False (tb_low b) (Some (tb_high b))), 2)
                | Time_Window startTime endTime \<Rightarrow> Some (window_plan lookup request b startTime endTime, 4)
                | _ \<Rightarrow>
                    (case resolveRecentOffsets lookup b
                            (if rq_search request = None then rq_maxMessages request else query_scan_records)
                            nowMs 2 of
                       None \<Rightarrow> None
                     | Some (Inl e, n) \<Rightarrow> Some (Inl e, n)
                     | Some (Inr start, n) \<Rightarrow>
                         Some (Inr (make_plan request (rq_mode request = Tail) start
                                 (if rq_mode request = Tail then None else Some (tb_high b))), n)))))"

end
