(* ===== verification/Search_Filter.thy ===== *)
theory Search_Filter
  imports Rule_Eval Message_Limits Fetch_Plan
begin

text \<open>
  Which records a search keeps: the plain criteria (\<open>contracts/query-search.ts\<close>), the compiled
  predicate with its rule expression (\<open>contracts/query-predicate.ts\<close>) and the bounded reading of
  a JSON sample (\<open>contracts/rule-sample.ts\<close>). A predicate has three answers: a field that cannot be
  read makes a record unavailable and never a negative match.

  \<open>JSON.parse\<close> is the parameter \<open>jp\<close>, where None is its SyntaxError; \<open>rv\<close> and \<open>rt\<close> are the
  regular expressions of the evaluator.
\<close>

section \<open>Reading a sample\<close>

record sample_limits =
  sl_bytes :: int
  sl_depth :: nat
  sl_nodes :: nat

datatype sample_error = Too_Many_Bytes | Malformed | Too_Many_Nodes | Too_Deep

datatype sample_failure_reason = Limit_Exceeded | Sample_Malformed

fun failure_reason :: "sample_error \<Rightarrow> sample_failure_reason" where
  "failure_reason Malformed = Sample_Malformed"
| "failure_reason _ = Limit_Exceeded"

definition default_sample_limits :: sample_limits where
  "default_sample_limits = \<lparr>sl_bytes = 1048576, sl_depth = 64, sl_nodes = 100000\<rparr>"

definition live_sample_limits :: sample_limits where
  "live_sample_limits = \<lparr>sl_bytes = 262144, sl_depth = 64, sl_nodes = 25000\<rparr>"

definition children :: "json \<Rightarrow> json list" where
  "children v = (case own_values v of Some vs \<Rightarrow> vs | None \<Rightarrow> [])"

lemma size_pair: "(k, c) \<in> set ps \<Longrightarrow> size c < Suc (size_list (size_prod (\<lambda>x. 0) size) ps)"
  by (induction ps) auto

lemma size_child: "c \<in> set (children v) \<Longrightarrow> size c < size v"
  by (cases v) (auto simp: children_def size_pair dest: size_list_estimation' [where f = size] intro: le_imp_less_Suc)

text \<open>
  The walk over the decoded value with an explicit stack, its top first: the number of values
  taken so far, and the first limit that is passed.
\<close>

definition push_children :: "nat \<Rightarrow> json \<Rightarrow> (nat \<times> json) list \<Rightarrow> (nat \<times> json) list" where
  "push_children d v stack = rev (map (Pair (Suc d)) (children v)) @ stack"

function sample_walk :: "sample_limits \<Rightarrow> nat \<Rightarrow> (nat \<times> json) list \<Rightarrow> sample_error option" where
  "sample_walk limits nodes [] = None"
| "sample_walk limits nodes ((d, v) # stack) =
     (if Suc nodes > sl_nodes limits then Some Too_Many_Nodes
      else if d > sl_depth limits then Some Too_Deep
      else sample_walk limits (Suc nodes) (push_children d v stack))"
  by pat_completeness auto

termination
  by (relation "measure (\<lambda>(limits, nodes, stack). Suc (sl_nodes limits) - nodes)") auto

definition parseKafkaRuleSample ::
  "(js_string \<Rightarrow> json option) \<Rightarrow> js_string \<Rightarrow> sample_limits \<Rightarrow> sample_error + json" where
  "parseKafkaRuleSample jp sample limits =
     (if utf8_length sample > sl_bytes limits then Inl Too_Many_Bytes
      else case jp sample of
        None \<Rightarrow> Inl Malformed
      | Some parsed \<Rightarrow> (case sample_walk limits 0 [(0, parsed)] of
                          Some e \<Rightarrow> Inl e
                        | None \<Rightarrow> Inr parsed))"

section \<open>Plain criteria\<close>

definition trim :: "js_string \<Rightarrow> js_string" where
  "trim s = rev (dropWhile is_space (rev (dropWhile is_space s)))"

record search_message =
  sm_structured :: "structured_record option"
  sm_key :: "js_string option"
  sm_payload :: "js_string option"
  sm_offset :: js_string
  sm_timestamp :: js_string
  sm_partition :: nat
  sm_truncated :: bool

definition contains_criterion :: "js_string option \<Rightarrow> js_string \<Rightarrow> bool" where
  "contains_criterion v criterion \<longleftrightarrow>
     length (trim criterion) = 0
     \<or> (case v of None \<Rightarrow> False | Some s \<Rightarrow> text_includes (lower_string s) (lower_string (trim criterion)))"

definition matchesKafkaSearchFilter :: "search_message \<Rightarrow> kafka_search_filter \<Rightarrow> bool" where
  "matchesKafkaSearchFilter message search \<longleftrightarrow>
     (sf_partition search = None \<or> sf_partition search = Some (sm_partition message))
     \<and> (case sf_offsetExact search of None \<Rightarrow> True | Some exact \<Rightarrow> int_string exact = sm_offset message)
     \<and> contains_criterion (sm_key message) (sf_key search)
     \<and> contains_criterion (sm_payload message) (sf_value search)
     \<and> contains_criterion (Some (sm_offset message)) (sf_offset search)
     \<and> contains_criterion (Some (sm_timestamp message)) (sf_timestamp search)"

section \<open>The compiled predicate\<close>

datatype search_match = Matched | Not_Matched | Match_Unavailable

definition field_hidden :: "record_field \<Rightarrow> bool" where
  "field_hidden field = (case field of Error_Field _ _ _ _ \<Rightarrow> True | Masked_Field _ _ \<Rightarrow> True | _ \<Rightarrow> False)"

definition field_has_json :: "record_field \<Rightarrow> bool" where
  "field_has_json field = (case field of Decoded _ _ (Some _) _ \<Rightarrow> True | _ \<Rightarrow> False)"

definition search_expression :: "kafka_search_filter \<Rightarrow> js_string option" where
  "search_expression search =
     (case map_option trim (sf_expression search) of
        Some (c # cs) \<Rightarrow> Some (c # cs)
      | _ \<Rightarrow> None)"

definition structured_unavailable ::
  "kafka_search_filter \<Rightarrow> rule_expression option \<Rightarrow> structured_record \<Rightarrow> bool" where
  "structured_unavailable search compiled structured \<longleftrightarrow>
     (length (trim (sf_key search)) > 0 \<and> field_hidden (sr_key structured))
     \<or> ((length (trim (sf_value search)) > 0 \<or> compiled \<noteq> None) \<and> field_hidden (sr_value structured))
     \<or> (compiled \<noteq> None \<and> \<not> field_has_json (sr_value structured))"

definition judge_sample ::
  "(js_string \<Rightarrow> js_string \<Rightarrow> bool) \<Rightarrow> (js_string \<Rightarrow> js_string \<Rightarrow> js_string \<Rightarrow> bool) \<Rightarrow> (js_string \<Rightarrow> json option) \<Rightarrow>
   rule_expression \<Rightarrow> js_string \<Rightarrow> budgets \<Rightarrow> search_match \<times> budgets" where
  "judge_sample rv rt jp expression payload budgets =
     (case parseKafkaRuleSample jp payload live_sample_limits of
        Inl _ \<Rightarrow> (Match_Unavailable, budgets)
      | Inr sample \<Rightarrow>
          (case evaluateCompiledKafkaRuleExpression rv rt expression sample budgets of
             (Inl _, after) \<Rightarrow> (Match_Unavailable, tl after)
           | (Inr b, after) \<Rightarrow> (if b then Matched else Not_Matched, tl after)))"

definition budget_exhausted :: "budgets \<Rightarrow> bool" where
  "budget_exhausted budgets = (case budgets of [] \<Rightarrow> False | b # _ \<Rightarrow> exhausted b)"

definition search_predicate ::
  "(js_string \<Rightarrow> js_string \<Rightarrow> bool) \<Rightarrow> (js_string \<Rightarrow> js_string \<Rightarrow> js_string \<Rightarrow> bool) \<Rightarrow> (js_string \<Rightarrow> json option) \<Rightarrow>
   kafka_search_filter \<Rightarrow> rule_expression option \<Rightarrow> search_message \<Rightarrow> budgets \<Rightarrow> search_match \<times> budgets" where
  "search_predicate rv rt jp search compiled message budgets =
     (if (case sm_structured message of None \<Rightarrow> False
          | Some structured \<Rightarrow> structured_unavailable search compiled structured)
      then (Match_Unavailable, budgets)
      else if \<not> matchesKafkaSearchFilter message search then (Not_Matched, budgets)
      else case compiled of
        None \<Rightarrow> (Matched, budgets)
      | Some expression \<Rightarrow>
          (case sm_payload message of
             None \<Rightarrow> (Match_Unavailable, budgets)
           | Some payload \<Rightarrow>
               if budget_exhausted budgets \<or> sm_truncated message then (Match_Unavailable, budgets)
               else judge_sample rv rt jp expression payload budgets))"

definition compileKafkaSearchFilter ::
  "(js_string \<Rightarrow> js_string \<Rightarrow> bool) \<Rightarrow> kafka_search_filter \<Rightarrow> parse_error + rule_expression option" where
  "compileKafkaSearchFilter rv search =
     (case search_expression search of
        None \<Rightarrow> Inr None
      | Some expression \<Rightarrow> map_sum id Some (compileKafkaRuleExpression rv expression))"

section \<open>Size and depth of a value\<close>

function json_nodes :: "json \<Rightarrow> nat" where
  "json_nodes v = Suc (sum_list (map json_nodes (children v)))"
  by pat_completeness auto
termination by (relation "measure size") (auto simp: size_child)

function json_depth :: "json \<Rightarrow> nat" where
  "json_depth v = foldr (\<lambda>c. max (Suc (json_depth c))) (children v) 0"
  by pat_completeness auto
termination by (relation "measure size") (auto simp: size_child)

declare json_nodes.simps [simp del] json_depth.simps [simp del]

lemma foldr_max_le: "foldr (\<lambda>c. max (Suc (f c))) cs 0 \<le> (n :: nat) \<longleftrightarrow> (\<forall>c \<in> set cs. Suc (f c) \<le> n)"
  by (induction cs) auto

lemma json_depth_le: "d + json_depth v \<le> n \<longleftrightarrow> d \<le> n \<and> (\<forall>c \<in> set (children v). Suc d + json_depth c \<le> n)"
proof -
  have "d + json_depth v \<le> n \<longleftrightarrow> d \<le> n \<and> json_depth v \<le> n - d" by auto
  also have "\<dots> \<longleftrightarrow> d \<le> n \<and> (\<forall>c \<in> set (children v). Suc (json_depth c) \<le> n - d)"
    by (subst json_depth.simps) (simp only: foldr_max_le)
  finally show ?thesis by fastforce
qed

lemma walk_exact:
  "sample_walk limits nodes stack = None \<longleftrightarrow>
     nodes + sum_list (map (\<lambda>a. json_nodes (snd a)) stack) \<le> max nodes (sl_nodes limits)
     \<and> (\<forall>(d, v) \<in> set stack. d + json_depth v \<le> sl_depth limits)"
proof (induction limits nodes stack rule: sample_walk.induct)
  case (1 limits nodes)
  then show ?case by simp
next
  case (2 limits nodes d v stack)
  have n: "json_nodes v = Suc (sum_list (map json_nodes (children v)))" by (subst json_nodes.simps) simp
  have pushed: "sum_list (map (\<lambda>a. json_nodes (snd a)) (push_children d v stack)) =
      sum_list (map json_nodes (children v)) + sum_list (map (\<lambda>a. json_nodes (snd a)) stack)"
    by (simp add: push_children_def rev_map [symmetric] sum_list_rev comp_def)
  show ?case
  proof (cases "Suc nodes > sl_nodes limits \<or> d > sl_depth limits")
    case True
    then show ?thesis using n by (auto simp: json_depth_le)
  next
    case False
    have stacked: "(\<forall>(e, w) \<in> set (push_children d v stack). e + json_depth w \<le> sl_depth limits) \<longleftrightarrow>
        (\<forall>c \<in> set (children v). Suc d + json_depth c \<le> sl_depth limits)
        \<and> (\<forall>(e, w) \<in> set stack. e + json_depth w \<le> sl_depth limits)"
      by (simp add: push_children_def ball_Un)
    have "sample_walk limits nodes ((d, v) # stack) = None \<longleftrightarrow>
        Suc nodes + (sum_list (map json_nodes (children v)) + sum_list (map (\<lambda>a. json_nodes (snd a)) stack))
          \<le> max (Suc nodes) (sl_nodes limits)
        \<and> (\<forall>c \<in> set (children v). Suc d + json_depth c \<le> sl_depth limits)
        \<and> (\<forall>(e, w) \<in> set stack. e + json_depth w \<le> sl_depth limits)"
      using 2 False by (simp add: pushed stacked)
    also have "\<dots> \<longleftrightarrow> nodes + sum_list (map (\<lambda>a. json_nodes (snd a)) ((d, v) # stack)) \<le> max nodes (sl_nodes limits)
        \<and> (\<forall>(e, w) \<in> set ((d, v) # stack). e + json_depth w \<le> sl_depth limits)"
      using False n json_depth_le [of d v "sl_depth limits"] by auto
    finally show ?thesis .
  qed
qed

declare sample_walk.simps [simp del]

section \<open>Properties\<close>

text \<open>
  C36: A sample is accepted exactly within its limits. The stack walk over the decoded value agrees
  with the recursive count of its values and with its nesting depth: reading succeeds if and only
  if the text is within its bytes, it is JSON, and the value has at most the allowed number of
  values and the allowed depth; only a text that is not JSON is called malformed.
\<close>

theorem sample_limits_exact:
  "(parseKafkaRuleSample jp sample limits = Inr v \<longleftrightarrow>
      utf8_length sample \<le> sl_bytes limits \<and> jp sample = Some v
      \<and> json_nodes v \<le> sl_nodes limits \<and> json_depth v \<le> sl_depth limits)
   \<and> (parseKafkaRuleSample jp sample limits = Inl Malformed \<longleftrightarrow>
      utf8_length sample \<le> sl_bytes limits \<and> jp sample = None)"
proof -
  have walk: "sample_walk limits 0 [(0, w)] = None \<longleftrightarrow> json_nodes w \<le> sl_nodes limits \<and> json_depth w \<le> sl_depth limits" for w
    by (simp add: walk_exact)
  have malformed: "sample_walk limits n stack \<noteq> Some Malformed" for n stack
    by (induction limits n stack rule: sample_walk.induct) (simp_all add: sample_walk.simps)
  show ?thesis
  proof (cases "jp sample")
    case (Some w)
    then show ?thesis
      using walk [of w] malformed [of 0 "[(0, w)]"]
      by (cases "sample_walk limits 0 [(0, w)]") (auto simp: parseKafkaRuleSample_def)
  qed (simp add: parseKafkaRuleSample_def)
qed

text \<open>The expression was evaluated to \<open>b\<close> on the whole decoded payload.\<close>

definition expression_answer ::
  "(js_string \<Rightarrow> js_string \<Rightarrow> bool) \<Rightarrow> (js_string \<Rightarrow> js_string \<Rightarrow> js_string \<Rightarrow> bool) \<Rightarrow> (js_string \<Rightarrow> json option) \<Rightarrow>
   rule_expression \<Rightarrow> search_message \<Rightarrow> budgets \<Rightarrow> bool \<Rightarrow> bool" where
  "expression_answer rv rt jp e message budgets b \<longleftrightarrow>
     \<not> budget_exhausted budgets \<and> \<not> sm_truncated message
     \<and> (\<exists>payload sample. sm_payload message = Some payload
        \<and> parseKafkaRuleSample jp payload live_sample_limits = Inr sample
        \<and> fst (evaluateCompiledKafkaRuleExpression rv rt e sample budgets) = Inr b)"

definition readable :: "kafka_search_filter \<Rightarrow> rule_expression option \<Rightarrow> search_message \<Rightarrow> bool" where
  "readable search compiled message \<longleftrightarrow>
     (case sm_structured message of None \<Rightarrow> True | Some s \<Rightarrow> \<not> structured_unavailable search compiled s)"

lemma judge_sample_result:
  "fst (judge_sample rv rt jp e payload budgets) = (if b then Matched else Not_Matched) \<longleftrightarrow>
     (\<exists>sample. parseKafkaRuleSample jp payload live_sample_limits = Inr sample
        \<and> fst (evaluateCompiledKafkaRuleExpression rv rt e sample budgets) = Inr b)"
  by (cases b) (auto simp: judge_sample_def split: sum.splits prod.splits)

lemmas judge_sample_results =
  judge_sample_result [of _ _ _ _ _ _ True, simplified] judge_sample_result [of _ _ _ _ _ _ False, simplified]

text \<open>
  A search answers only on evidence. A record matches exactly when no field the search looks
  at is masked or undecoded, the plain criteria hold, and the expression, if there is one,
  evaluates to true on the whole payload; it is a negative match exactly when those fields are
  readable and a plain criterion fails or the expression evaluates to false. A payload that is
  missing, truncated, malformed, too large or too expensive is never a negative match.
\<close>

theorem search_answers_are_evidence:
  "(fst (search_predicate rv rt jp search compiled message budgets) = Matched \<longleftrightarrow>
      readable search compiled message \<and> matchesKafkaSearchFilter message search
      \<and> (case compiled of None \<Rightarrow> True | Some e \<Rightarrow> expression_answer rv rt jp e message budgets True))
   \<and> (fst (search_predicate rv rt jp search compiled message budgets) = Not_Matched \<longleftrightarrow>
      readable search compiled message
      \<and> (if matchesKafkaSearchFilter message search
         then (case compiled of None \<Rightarrow> False | Some e \<Rightarrow> expression_answer rv rt jp e message budgets False)
         else True))"
  by (cases "sm_structured message"; cases compiled; cases "sm_payload message")
     (simp_all add: search_predicate_def judge_sample_results expression_answer_def readable_def)

end
