(* ===== verification/Read_Tracker.thy ===== *)
theory Read_Tracker
  imports Search_Filter
begin

text \<open>
  The tracker of a bounded read (\<open>engine/read-coverage.ts\<close>): which offsets were traversed, what was
  matched, when the read ends, and the checkpoint that never passes a yielded record whose owner
  has not acknowledged it.

  The offsets of the plan's partitions are a map, read by key. A record carries the identity of its
  object, since acknowledgements compare objects; \<open>iso_date\<close> is \<open>new Date(ms).toISOString()\<close>, with None
  for its RangeError. A thrown error of \<open>accept\<close> is None.
\<close>

section \<open>Records and state\<close>

text \<open>A buffer: its \<open>byteLength\<close> and its \<open>toString("utf8")\<close>.\<close>

record raw_bytes =
  rb_length :: nat
  rb_text :: js_string

record raw_message =
  rm_identity :: nat
  rm_topic :: js_string
  rm_partition :: nat
  rm_offset :: int
  rm_timestamp :: int
  rm_key :: "raw_bytes option"
  rm_value :: "raw_bytes option"
  rm_headers :: "(raw_bytes \<times> raw_bytes option) list"
    \<comment> \<open>\<open>headerEntries\<close>, or the entries of the header map\<close>

record pending_yield =
  py_message :: raw_message
  py_before :: read_coverage
  py_advanced :: bool

record read_tracker =
  rt_plan :: fetch_plan
  rt_expression :: "rule_expression option"
  rt_reason :: read_reason
  rt_scannedRecords :: int
  rt_scannedBytes :: int
  rt_matchedRecords :: int
  rt_unavailableRecords :: int
  rt_next :: "nat \<rightharpoonup> int"
  rt_pending :: "pending_yield option"

section \<open>Operations\<close>

definition finished :: "read_tracker \<Rightarrow> bool" where
  "finished t \<longleftrightarrow> rt_reason t \<noteq> Reading"

definition finish_read :: "read_reason \<Rightarrow> read_tracker \<Rightarrow> read_tracker" where
  "finish_read reason t = (if \<not> finished t \<or> reason = Failed then t\<lparr>rt_reason := reason\<rparr> else t)"

definition end_of :: "fetch_plan \<Rightarrow> nat \<Rightarrow> int option" where
  "end_of plan p = (case pl_endOffsets plan of None \<Rightarrow> None | Some ends \<Rightarrow> map_of ends p)"

definition checkRangeComplete :: "read_tracker \<Rightarrow> read_tracker" where
  "checkRangeComplete t =
     (case pl_endOffsets (rt_plan t) of
        None \<Rightarrow> t
      | Some ends \<Rightarrow>
          if list_all (\<lambda>(p, e). (case rt_next t p of Some n \<Rightarrow> n | None \<Rightarrow> - 1) \<ge> e) ends
          then finish_read Range_Complete t else t)"

definition new_tracker :: "(js_string \<Rightarrow> js_string \<Rightarrow> bool) \<Rightarrow> fetch_plan \<Rightarrow> parse_error + read_tracker" where
  "new_tracker rv plan =
     (case (case rq_search (pl_request plan) of None \<Rightarrow> Inr None | Some search \<Rightarrow> compileKafkaSearchFilter rv search) of
        Inl e \<Rightarrow> Inl e
      | Inr compiled \<Rightarrow>
          Inr (checkRangeComplete
            \<lparr>rt_plan = plan, rt_expression = compiled, rt_reason = Reading, rt_scannedRecords = 0,
             rt_scannedBytes = 0, rt_matchedRecords = 0, rt_unavailableRecords = 0,
             rt_next = map_of (pl_startOffsets plan), rt_pending = None\<rparr>))"

definition partition_snapshot :: "read_tracker \<Rightarrow> nat \<times> int \<Rightarrow> partition_coverage" where
  "partition_snapshot t entry =
     (case entry of (p, start) \<Rightarrow>
       \<lparr>pc_partition = p, pc_startOffset = start,
        pc_endOffset = (case end_of (rt_plan t) p of Some e \<Rightarrow> e | None \<Rightarrow> start),
        pc_nextOffset = (case rt_next t p of Some n \<Rightarrow> n | None \<Rightarrow> start)\<rparr>)"

definition snapshot :: "read_tracker \<Rightarrow> read_coverage" where
  "snapshot t =
     \<lparr>cv_reason = rt_reason t, cv_scannedRecords = rt_scannedRecords t, cv_scannedBytes = rt_scannedBytes t,
      cv_matchedRecords = rt_matchedRecords t, cv_unavailableRecords = rt_unavailableRecords t,
      cv_partitions = map (partition_snapshot t) (pl_startOffsets (rt_plan t))\<rparr>"

definition acknowledge :: "raw_message \<Rightarrow> read_tracker \<Rightarrow> read_tracker" where
  "acknowledge m t =
     (case rt_pending t of
        None \<Rightarrow> t
      | Some y \<Rightarrow> if rm_identity (py_message y) = rm_identity m \<and> \<not> py_advanced y then t\<lparr>rt_pending := None\<rparr> else t)"

definition checkpoint :: "read_tracker \<Rightarrow> read_coverage" where
  "checkpoint t =
     (case rt_pending t of None \<Rightarrow> snapshot t | Some y \<Rightarrow> py_before y)
       \<lparr>cv_reason := (if rt_pending t \<noteq> None \<and> rt_reason t = Range_Complete then Cancelled else rt_reason t)\<rparr>"

definition length_of :: "raw_bytes option \<Rightarrow> int" where
  "length_of b = (case b of None \<Rightarrow> 0 | Some b \<Rightarrow> int (rb_length b))"

definition record_bytes :: "raw_message \<Rightarrow> int" where
  "record_bytes m = length_of (rm_key m) + length_of (rm_value m)
     + sum_list (map (\<lambda>(k, v). int (rb_length k) + length_of v) (rm_headers m))"

definition in_time :: "fetch_mode \<Rightarrow> int \<Rightarrow> bool" where
  "in_time mode timestamp =
     (case mode of Time_Window startTime endTime \<Rightarrow> startTime \<le> timestamp \<and> timestamp < endTime | _ \<Rightarrow> True)"

abbreviation message_bytes :: int where "message_bytes \<equiv> 1048576"

definition looks_at_value :: "kafka_search_filter \<Rightarrow> bool" where
  "looks_at_value search \<longleftrightarrow>
     length (trim (sf_value search)) > 0
     \<or> (case sf_expression search of None \<Rightarrow> False | Some e \<Rightarrow> length (trim e) > 0)"

definition looks_at_key :: "kafka_search_filter \<Rightarrow> bool" where
  "looks_at_key search \<longleftrightarrow> length (trim (sf_key search)) > 0"

definition omitted_field :: "kafka_search_filter \<Rightarrow> raw_message \<Rightarrow> bool" where
  "omitted_field search m \<longleftrightarrow>
     (looks_at_value search \<and> length_of (rm_value m) > message_bytes)
     \<or> (looks_at_key search \<and> length_of (rm_key m) > message_bytes)"

definition raw_search_message :: "(int \<Rightarrow> js_string option) \<Rightarrow> kafka_search_filter \<Rightarrow> raw_message \<Rightarrow> search_message option" where
  "raw_search_message iso_date search m =
     (case iso_date (rm_timestamp m) of
        None \<Rightarrow> None
      | Some timestamp \<Rightarrow>
          Some \<lparr>sm_structured = None,
                sm_key = (if \<not> looks_at_key search then None else map_option rb_text (rm_key m)),
                sm_payload = (if \<not> looks_at_value search then None else map_option rb_text (rm_value m)),
                sm_offset = int_string (rm_offset m), sm_timestamp = timestamp,
                sm_partition = rm_partition m, sm_truncated = False\<rparr>)"

text \<open>Whether a record matches, and whether that could not be decided; None is a thrown error.\<close>

definition judge_record ::
  "(js_string \<Rightarrow> js_string \<Rightarrow> bool) \<Rightarrow> (js_string \<Rightarrow> js_string \<Rightarrow> js_string \<Rightarrow> bool) \<Rightarrow> (js_string \<Rightarrow> json option) \<Rightarrow>
   (int \<Rightarrow> js_string option) \<Rightarrow> read_tracker \<Rightarrow> raw_message \<Rightarrow> search_message option \<Rightarrow> (bool \<times> bool) option" where
  "judge_record rv rt jp iso_date t m prepared =
     (if \<not> in_time (rq_mode (pl_request (rt_plan t))) (rm_timestamp m) then Some (False, False)
      else case rq_search (pl_request (rt_plan t)) of
        None \<Rightarrow> Some (True, False)
      | Some search \<Rightarrow>
          if omitted_field search m then Some (False, True)
          else (case (case prepared of Some message \<Rightarrow> Some message
                      | None \<Rightarrow> raw_search_message iso_date search m) of
                  None \<Rightarrow> None
                | Some message \<Rightarrow>
                    let result = fst (search_predicate rv rt jp search (rt_expression t) message [])
                    in Some (result = Matched, result = Match_Unavailable)))"

definition mark_advanced :: "read_tracker \<Rightarrow> read_tracker" where
  "mark_advanced t = t\<lparr>rt_pending := map_option (py_advanced_update (\<lambda>_. True)) (rt_pending t)\<rparr>"

definition hold_match :: "raw_message \<Rightarrow> read_tracker \<Rightarrow> read_tracker" where
  "hold_match m t =
     (case rt_pending t of
        None \<Rightarrow> t\<lparr>rt_pending := Some \<lparr>py_message = m, py_before = snapshot t, py_advanced = False\<rparr>,
                  rt_matchedRecords := rt_matchedRecords t + 1\<rparr>
      | Some _ \<Rightarrow> t\<lparr>rt_matchedRecords := rt_matchedRecords t + 1\<rparr>)"

definition finish_limits :: "read_tracker \<Rightarrow> read_tracker" where
  "finish_limits t =
     (let t = (if rt_matchedRecords t \<ge> pl_maxMessages (rt_plan t) then finish_read Result_Limit t else t)
      in if rt_scannedRecords t \<ge> query_scan_records then finish_read Scan_Limit t else t)"

definition traverse :: "raw_message \<Rightarrow> read_tracker \<Rightarrow> read_tracker" where
  "traverse m t = finish_limits (checkRangeComplete
     (t\<lparr>rt_next := (rt_next t)(rm_partition m \<mapsto> rm_offset m + 1),
        rt_scannedRecords := rt_scannedRecords t + 1,
        rt_scannedBytes := rt_scannedBytes t + record_bytes m\<rparr>))"

definition accept_in_range ::
  "(bool \<times> bool) option \<Rightarrow> read_tracker \<Rightarrow> raw_message \<Rightarrow> read_tracker \<times> bool option" where
  "accept_in_range judged t m =
     (if rt_scannedBytes t + record_bytes m > query_scan_bytes then (finish_read Byte_Limit_Reached t, Some False)
      else case judged of
        None \<Rightarrow> (t, None)
      | Some (match, unavailable) \<Rightarrow>
          let t = (if unavailable then t\<lparr>rt_unavailableRecords := rt_unavailableRecords t + 1\<rparr> else t);
              t = (if match then hold_match m t else t)
          in (traverse m t, Some match))"

definition accept_record ::
  "(js_string \<Rightarrow> js_string \<Rightarrow> bool) \<Rightarrow> (js_string \<Rightarrow> js_string \<Rightarrow> js_string \<Rightarrow> bool) \<Rightarrow> (js_string \<Rightarrow> json option) \<Rightarrow>
   (int \<Rightarrow> js_string option) \<Rightarrow> read_tracker \<Rightarrow> raw_message \<Rightarrow> search_message option \<Rightarrow> read_tracker \<times> bool option" where
  "accept_record rv rt jp iso_date t m prepared =
     (if finished t \<or> rm_topic m \<noteq> rq_topic (pl_request (rt_plan t)) then (t, Some False)
      else case (rt_next t (rm_partition m), end_of (rt_plan t) (rm_partition m)) of
        (Some next, Some end) \<Rightarrow>
          if rm_offset m < next then (t, Some False)
          else let t = mark_advanced t in
            if rm_offset m \<ge> end
            then (checkRangeComplete (t\<lparr>rt_next := (rt_next t)(rm_partition m \<mapsto> end)\<rparr>), Some False)
            else accept_in_range (judge_record rv rt jp iso_date t m prepared) t m
      | _ \<Rightarrow> (t, Some False))"

end
