(* ===== verification/Fetch_Plans.thy ===== *)
theory Fetch_Plans
  imports Fetch_Plan
begin

text \<open>
  Read plans are sound: planning always returns after at most 23 broker calls, and a plan reads,
  for each of its partitions, a range inside the broker's bounds; a recent read never reaches
  further back than its budget, and a resumed read continues exactly at its checkpoint.
\<close>

section \<open>Sound plans\<close>

definition bounds_ok :: "topic_bounds \<Rightarrow> bool" where
  "bounds_ok b \<longleftrightarrow> length (tb_low b) = length (tb_high b) \<and> length (tb_high b) \<le> query_partitions
     \<and> (\<forall>p < length (tb_high b). 0 \<le> tb_low b ! p \<and> tb_low b ! p \<le> tb_high b ! p)"

definition range_ok :: "topic_bounds \<Rightarrow> nat \<times> int \<Rightarrow> nat \<times> int \<Rightarrow> bool" where
  "range_ok b s e \<longleftrightarrow> fst s = fst e \<and> snd s \<le> snd e \<and> snd e \<le> tb_high b ! fst s"

definition plan_ok :: "topic_bounds \<Rightarrow> fetch_plan \<Rightarrow> bool" where
  "plan_ok b plan \<longleftrightarrow>
     distinct (map fst (pl_startOffsets plan))
     \<and> (\<forall>(p, s) \<in> set (pl_startOffsets plan). p < length (tb_high b) \<and> tb_low b ! p \<le> s \<and> s \<le> tb_high b ! p)
     \<and> (case pl_endOffsets plan of None \<Rightarrow> True | Some ends \<Rightarrow> list_all2 (range_ok b) (pl_startOffsets plan) ends)"

lemma inconsistent_partition_None:
  "inconsistent_partition k low high = None \<Longrightarrow> length low = length high \<Longrightarrow>
   \<forall>p < length high. 0 \<le> low ! p \<and> low ! p \<le> high ! p"
proof (induction k low high rule: inconsistent_partition.induct)
  case (1 k l low h high)
  then show ?case by (auto simp: nth_Cons split: if_splits nat.splits)
qed auto

lemma bounds_loaded:
  assumes "loadTopicBounds lookup = Inr b"
  shows "bounds_ok b \<and> lookup 0 (- 2) = Some (tb_low b) \<and> lookup 1 (- 1) = Some (tb_high b)"
  using assms inconsistent_partition_None [of 0]
  by (auto simp: loadTopicBounds_def assertOffsetBounds_def bounds_ok_def split: option.splits if_splits)

lemma clampOffset_bounds: "low \<le> high \<Longrightarrow> low \<le> clampOffset c low high \<and> clampOffset c low high \<le> high"
  by (auto simp: clampOffset_def Let_def)

lemma candidate_bounds:
  "bounds_ok b \<Longrightarrow> p < length (tb_high b) \<Longrightarrow>
   tb_low b ! p \<le> candidate_at cs b p \<and> candidate_at cs b p \<le> tb_high b ! p"
  unfolding candidate_at_def bounds_ok_def using clampOffset_bounds by blast

section \<open>The searches return\<close>

lemma widen_returns:
  "0 < rs_window s \<Longrightarrow> max_window \<le> rs_window s * 2 ^ k \<Longrightarrow>
   \<exists>r m. widen lookup b maximum nowMs n s = Some (r, m) \<and> m \<le> n + k"
proof (induction k arbitrary: n s)
  case 0
  then have "\<not> rs_window s < max_window" by simp
  then show ?case by (subst widen.simps) simp
next
  case (Suc k)
  show ?case
  proof (cases "countCandidates (rs_offsets s) b < maximum \<and> rs_window s < max_window")
    case False
    then have "widen lookup b maximum nowMs n s = Some (Inr s, n)" by (subst widen.simps) (simp only: if_False)
    then show ?thesis by simp
  next
    case True
    define window where "window = min (rs_window s * 2) max_window"
    define older where "older = max 0 (nowMs - window)"
    show ?thesis
    proof (cases "checked_lookup lookup b n older")
      case (Inl e)
      then have "widen lookup b maximum nowMs n s = Some (Inl e, Suc n)"
        using True by (subst widen.simps) (simp add: Let_def window_def older_def)
      then show ?thesis by simp
    next
      case (Inr offsets)
      define t where "t = \<lparr>rs_window = window, rs_older = older, rs_recent = rs_older s, rs_offsets = offsets\<rparr>"
      have w: "widen lookup b maximum nowMs n s = widen lookup b maximum nowMs (Suc n) t"
        using True Inr by (subst widen.simps) (simp add: Let_def window_def older_def t_def)
      have "max_window \<le> rs_window t * 2 ^ k"
      proof (cases "rs_window s * 2 \<le> max_window")
        case True
        then show ?thesis using Suc.prems(2) by (simp add: t_def window_def min_def mult.assoc)
      next
        case False
        then have "rs_window t = max_window" by (simp add: t_def window_def)
        then show ?thesis by simp
      qed
      moreover have "0 < rs_window t" using Suc.prems(1) by (simp add: t_def window_def)
      ultimately obtain r m where "widen lookup b maximum nowMs (Suc n) t = Some (r, m)" "m \<le> Suc n + k"
        using Suc.IH by blast
      then show ?thesis using w by auto
    qed
  qed
qed

lemma bisect_calls:
  "bisect lookup b maximum steps n older recent selected = (r, m) \<Longrightarrow> m \<le> n + steps"
proof (induction lookup b maximum steps n older recent selected rule: bisect.induct)
  case (2 lookup b maximum steps n older recent selected)
  then show ?case by (fastforce simp: Let_def split: if_splits sum.splits)
qed simp

lemma clampRecentOffsets_bounds:
  assumes "bounds_ok b" and "p < length (tb_high b)" and "0 \<le> span"
  shows "tb_low b ! p \<le> clampRecentOffsets cs b span ! p \<and> clampRecentOffsets cs b span ! p \<le> tb_high b ! p
     \<and> tb_high b ! p - clampRecentOffsets cs b span ! p \<le> span"
  using candidate_bounds [OF assms(1,2), of cs] assms(2,3)
  by (auto simp: clampRecentOffsets_def Let_def)

definition recent_ok :: "topic_bounds \<Rightarrow> int \<Rightarrow> int list \<Rightarrow> bool" where
  "recent_ok b span start \<longleftrightarrow> length start = length (tb_high b)
     \<and> (\<forall>p < length (tb_high b). tb_low b ! p \<le> start ! p \<and> start ! p \<le> tb_high b ! p
          \<and> tb_high b ! p - start ! p \<le> span)"

lemma low_recent:
  assumes ok: "bounds_ok b" and "available_records b \<le> span"
  shows "recent_ok b span (tb_low b)"
proof -
  have "tb_high b ! p - tb_low b ! p \<le> available_records b" if "p < length (tb_high b)" for p
    unfolding available_records_def
    using ok that
    by (intro sum_list_map_member_le [where f = "\<lambda>p. tb_high b ! p - tb_low b ! p"]) (auto simp: bounds_ok_def)
  then show ?thesis using assms by (force simp: recent_ok_def bounds_ok_def)
qed

lemma clamp_recent: "bounds_ok b \<Longrightarrow> 0 \<le> span \<Longrightarrow> recent_ok b span (clampRecentOffsets cs b span)"
  using clampRecentOffsets_bounds by (auto simp: recent_ok_def clampRecentOffsets_def)

lemma resolveRecentOffsets_spec:
  assumes ok: "bounds_ok b"
  shows "\<exists>r m. resolveRecentOffsets lookup b span nowMs n = Some (r, m) \<and> m \<le> n + 21
     \<and> (\<forall>start. r = Inr start \<longrightarrow> 0 \<le> span \<longrightarrow> recent_ok b span start)"
proof (cases "available_records b \<le> span")
  case True
  then show ?thesis using low_recent [OF ok] by (simp add: resolveRecentOffsets_def)
next
  case far: False
  let ?recent = "max 0 (nowMs - initial_window)"
  show ?thesis
  proof (cases "checked_lookup lookup b n ?recent")
    case (Inl e)
    then show ?thesis using far by (simp add: resolveRecentOffsets_def Let_def)
  next
    case (Inr offsets)
    define s where "s = \<lparr>rs_window = initial_window, rs_older = ?recent, rs_recent = ?recent, rs_offsets = offsets\<rparr>"
    obtain r m where w: "widen lookup b span nowMs (Suc n) s = Some (r, m)" "m \<le> Suc n + 10"
      using widen_returns [of s 10 lookup b span nowMs "Suc n"] by (auto simp: s_def)
    have e: "resolveRecentOffsets lookup b span nowMs n =
        (case r of Inl e \<Rightarrow> Some (Inl e, m)
         | Inr s \<Rightarrow>
             if countCandidates (rs_offsets s) b < span
             then Some (Inr (clampRecentOffsets (tb_low b) b span), m)
             else (case bisect lookup b span search_steps m (rs_older s) (rs_recent s) (rs_offsets s) of
                        (Inl e, k) \<Rightarrow> Some (Inl e, k)
                      | (Inr selected, k) \<Rightarrow> Some (Inr (clampRecentOffsets selected b span), k)))"
      using far Inr w(1) by (simp add: resolveRecentOffsets_def Let_def s_def split: sum.split)
    show ?thesis
    proof (cases r)
      case (Inl e')
      then show ?thesis using e w(2) by simp
    next
      case r: (Inr t)
      show ?thesis
      proof (cases "countCandidates (rs_offsets t) b < span")
        case True
        then show ?thesis using e r w(2) clamp_recent [OF ok] by simp
      next
        case False
        obtain q k where q: "bisect lookup b span search_steps m (rs_older t) (rs_recent t) (rs_offsets t) = (q, k)"
          by fastforce
        have "k \<le> n + 21" using bisect_calls [OF q] w(2) by simp
        then show ?thesis
          using e r False q clamp_recent [OF ok] by (cases q) simp_all
      qed
    qed
  qed
qed


section \<open>Restricting a plan\<close>

text \<open>The partition the request names, and the range it leaves of an entry.\<close>

lemma selected_entry_ok:
  assumes "(p, s, e) \<in> set (selected_entry search ends (q, low))" and "map_of ends q = Some high" and "low \<le> high"
  shows "p = q \<and> low \<le> s \<and> s \<le> e \<and> e \<le> high"
  using assms by (auto simp: selected_entry_def Let_def split: if_splits option.splits)

lemma selected_entry_length: "length (selected_entry search ends entry) \<le> 1"
  by (auto simp: selected_entry_def Let_def split: prod.split option.split)

lemma selected_entry_fst: "x \<in> set (selected_entry search ends entry) \<Longrightarrow> fst x = fst entry"
  by (auto simp: selected_entry_def Let_def split: prod.splits option.splits if_splits)

lemma distinct_selected:
  "distinct (map fst entries) \<Longrightarrow> distinct (map fst (concat (map (selected_entry search ends) entries)))"
proof (induction entries)
  case (Cons entry entries)
  have one: "distinct (map fst (selected_entry search ends entry))"
    using selected_entry_length [of search ends entry]
    by (cases "selected_entry search ends entry") auto
  have heads: "fst ` set (selected_entry search ends e) \<subseteq> {fst e}" for e
    using selected_entry_fst by blast
  have tails: "fst ` set (concat (map (selected_entry search ends) entries)) \<subseteq> fst ` set entries"
  proof
    fix p assume "p \<in> fst ` set (concat (map (selected_entry search ends) entries))"
    then obtain e x where "e \<in> set entries" "x \<in> set (selected_entry search ends e)" "p = fst x" by auto
    then show "p \<in> fst ` set entries" using selected_entry_fst [of x search ends e] by simp
  qed
  have notin: "fst entry \<notin> fst ` set entries" using Cons.prems by simp
  have "p \<notin> fst ` set (concat (map (selected_entry search ends) entries))"
    if "p \<in> fst ` set (selected_entry search ends entry)" for p
  proof -
    have "p = fst entry" using subsetD [OF heads that] by simp
    then show ?thesis using notin contra_subsetD [OF tails] by simp
  qed
  then have "fst ` set (selected_entry search ends entry) \<inter> fst ` set (concat (map (selected_entry search ends) entries)) = {}"
    by (meson disjoint_iff)
  then show ?case using one Cons by (simp add: image_Un)
qed simp

lemma plan_okI:
  assumes "distinct (map fst ranges)"
    and "\<And>p s e. (p, s, e) \<in> set ranges \<Longrightarrow> p < length (tb_high b) \<and> tb_low b ! p \<le> s \<and> s \<le> e \<and> e \<le> tb_high b ! p"
    and "pl_startOffsets plan = map (\<lambda>(p, s, e). (p, s)) ranges"
    and "pl_endOffsets plan = Some (map (\<lambda>(p, s, e). (p, e)) ranges)"
  shows "plan_ok b plan"
proof -
  have d: "map fst (pl_startOffsets plan) = map fst ranges" using assms(3) by (simp add: comp_def split_beta)
  have s: "\<forall>(p, s) \<in> set (pl_startOffsets plan). p < length (tb_high b) \<and> tb_low b ! p \<le> s \<and> s \<le> tb_high b ! p"
    using assms(2,3) by fastforce
  have "list_all2 (range_ok b) (map (\<lambda>(p, s, e). (p, s)) ranges) (map (\<lambda>(p, s, e). (p, e)) ranges)"
    using assms(2) by (auto simp: list.rel_map range_ok_def intro!: list.rel_refl_strong)
  then show ?thesis unfolding plan_ok_def d using s assms(1,3,4) by simp
qed

lemma enumerate_nth: "(p, s) \<in> set (enumerate 0 xs) \<Longrightarrow> p < length xs \<and> s = xs ! p"
  by (auto simp: in_set_enumerate_eq)

lemma distinct_offsets: "distinct (map fst (offsetsMap xs))"
  by (simp add: offsetsMap_def)

lemma map_of_offsets: "p < length xs \<Longrightarrow> map_of (offsetsMap xs) p = Some (xs ! p)"
  by (rule map_of_is_SomeI [OF distinct_offsets]) (simp add: offsetsMap_def in_set_enumerate_eq)

definition starts_ok :: "topic_bounds \<Rightarrow> int list \<Rightarrow> bool" where
  "starts_ok b start \<longleftrightarrow> length start = length (tb_high b)
     \<and> (\<forall>p < length (tb_high b). tb_low b ! p \<le> start ! p \<and> start ! p \<le> tb_high b ! p)"

definition ends_ok :: "topic_bounds \<Rightarrow> int list \<Rightarrow> int list \<Rightarrow> bool" where
  "ends_ok b start ends \<longleftrightarrow> length ends = length (tb_high b)
     \<and> (\<forall>p < length (tb_high b). start ! p \<le> ends ! p \<and> ends ! p \<le> tb_high b ! p)"

lemma make_plan_selected:
  assumes "rq_search request = Some search" and "\<not> (sf_offsetExact search = None \<and> sf_partition search = None)"
  shows "make_plan request continuous start (Some ends) =
     \<lparr>pl_continuous = continuous,
      pl_endOffsets = Some (map (\<lambda>(p, s, e). (p, e)) (concat (map (selected_entry search (offsetsMap ends)) (offsetsMap start)))),
      pl_maxMessages = rq_maxMessages request, pl_request = request,
      pl_startOffsets = map (\<lambda>(p, s, e). (p, s)) (concat (map (selected_entry search (offsetsMap ends)) (offsetsMap start)))\<rparr>"
  using assms by (auto simp: make_plan_def selectedPartitionPlan_def Let_def)

lemma make_plan_plain:
  assumes "rq_search request = None \<or> ends = None
     \<or> (sf_offsetExact (the (rq_search request)) = None \<and> sf_partition (the (rq_search request)) = None)"
  shows "make_plan request continuous start ends =
     \<lparr>pl_continuous = continuous, pl_endOffsets = map_option offsetsMap ends,
      pl_maxMessages = rq_maxMessages request, pl_request = request, pl_startOffsets = offsetsMap start\<rparr>"
  using assms by (auto simp: make_plan_def selectedPartitionPlan_def split: option.split)

lemma offsetsMap_nth: "offsetsMap xs = map (\<lambda>p. (p, xs ! p)) [0..<length xs]"
  by (auto simp: offsetsMap_def nth_enumerate_eq intro!: nth_equalityI)

lemma make_plan_ok:
  assumes s: "starts_ok b start" and e: "\<And>es. ends = Some es \<Longrightarrow> ends_ok b start es"
  shows "plan_ok b (make_plan request continuous start ends)"
proof (cases "rq_search request = None \<or> ends = None
     \<or> (sf_offsetExact (the (rq_search request)) = None \<and> sf_partition (the (rq_search request)) = None)")
  case True
  note plain = make_plan_plain [OF True]
  show ?thesis
  proof (cases ends)
    case None
    then show ?thesis
      using s unfolding plain by (auto simp: plan_ok_def starts_ok_def offsetsMap_nth comp_def)
  next
    case (Some es)
    have n: "length start = length es" using s e [OF Some] by (simp add: starts_ok_def ends_ok_def)
    show ?thesis
    proof (rule plan_okI [where ranges = "map (\<lambda>p. (p, start ! p, es ! p)) [0..<length start]"])
      show "distinct (map fst (map (\<lambda>p. (p, start ! p, es ! p)) [0..<length start]))" by (simp add: comp_def)
      show "p < length (tb_high b) \<and> tb_low b ! p \<le> x \<and> x \<le> y \<and> y \<le> tb_high b ! p"
        if "(p, x, y) \<in> set (map (\<lambda>p. (p, start ! p, es ! p)) [0..<length start])" for p x y
        using that s e [OF Some] by (auto simp: starts_ok_def ends_ok_def)
    qed (simp_all add: plain [unfolded Some] Some offsetsMap_nth n comp_def)
  qed
next
  case False
  then obtain search es where r: "rq_search request = Some search" "ends = Some es"
    "\<not> (sf_offsetExact search = None \<and> sf_partition search = None)" by auto
  let ?ranges = "concat (map (selected_entry search (offsetsMap es)) (offsetsMap start))"
  show ?thesis
  proof (rule plan_okI [where ranges = ?ranges])
    show "distinct (map fst ?ranges)" by (rule distinct_selected [OF distinct_offsets])
    show "p < length (tb_high b) \<and> tb_low b ! p \<le> x \<and> x \<le> y \<and> y \<le> tb_high b ! p"
      if m: "(p, x, y) \<in> set ?ranges" for p x y
    proof -
      obtain q low where q: "(q, low) \<in> set (offsetsMap start)"
        "(p, x, y) \<in> set (selected_entry search (offsetsMap es) (q, low))" using m by auto
      have ql: "q < length (tb_high b)" "low = start ! q"
        using q(1) s enumerate_nth [of q low start] by (simp_all add: offsetsMap_def starts_ok_def)
      have "map_of (offsetsMap es) q = Some (es ! q)"
        using ql e [OF r(2)] by (simp add: ends_ok_def map_of_offsets)
      moreover have "tb_low b ! q \<le> low" "low \<le> es ! q" "es ! q \<le> tb_high b ! q"
        using ql s e [OF r(2)] by (simp_all add: starts_ok_def ends_ok_def)
      ultimately show ?thesis using selected_entry_ok [OF q(2)] ql by fastforce
    qed
  qed (simp_all add: r make_plan_selected)
qed


section \<open>Resolved plans\<close>

abbreviation recent_budget :: "fetch_request \<Rightarrow> int" where
  "recent_budget request \<equiv> (if rq_search request = None then rq_maxMessages request else query_scan_records)"

text \<open>A recent plan is made from start offsets within the budget.\<close>

lemma resolve_recent:
  assumes b: "loadTopicBounds lookup = Inr b" and mode: "rq_mode request = Tail \<or> rq_mode request = Newest"
    and r: "resolveKafkaFetchPlan lookup request nowMs None = Some (Inr plan, n)"
  obtains start where "resolveRecentOffsets lookup b (recent_budget request) nowMs 2 = Some (Inr start, n)"
    and "0 \<le> rq_maxMessages request \<longrightarrow> recent_ok b (recent_budget request) start"
    and "plan = make_plan request (rq_mode request = Tail) start
           (if rq_mode request = Tail then None else Some (tb_high b))"
proof -
  have ok: "bounds_ok b" using bounds_loaded [OF b] by simp
  obtain q m where q: "resolveRecentOffsets lookup b (recent_budget request) nowMs 2 = Some (q, m)"
    "\<forall>start. q = Inr start \<longrightarrow> 0 \<le> recent_budget request \<longrightarrow> recent_ok b (recent_budget request) start"
    using resolveRecentOffsets_spec [OF ok] by metis
  have e: "resolveKafkaFetchPlan lookup request nowMs None =
      (case q of Inl e \<Rightarrow> Some (Inl e, m)
       | Inr start \<Rightarrow> Some (Inr (make_plan request (rq_mode request = Tail) start
                            (if rq_mode request = Tail then None else Some (tb_high b))), m))"
    using mode b q(1) by (auto simp: resolveKafkaFetchPlan_def split: sum.split)
  show thesis
    using that q e r by (cases q) auto
qed

lemma recent_starts: "recent_ok b span start \<Longrightarrow> starts_ok b start"
  by (auto simp: recent_ok_def starts_ok_def)

lemma high_ends: "bounds_ok b \<Longrightarrow> starts_ok b start \<Longrightarrow> ends_ok b start (tb_high b)"
  by (auto simp: bounds_ok_def starts_ok_def ends_ok_def)

lemma low_starts: "bounds_ok b \<Longrightarrow> starts_ok b (tb_low b)"
  by (auto simp: bounds_ok_def starts_ok_def)

lemma candidate_starts: "bounds_ok b \<Longrightarrow> starts_ok b (map (candidate_at cs b) [0..<length (tb_high b)])"
  using candidate_bounds by (auto simp: starts_ok_def)

lemma window_plan_ok:
  assumes ok: "bounds_ok b" and r: "window_plan lookup request b startTime endTime = Inr plan"
  shows "plan_ok b plan"
proof -
  let ?n = "length (tb_high b)"
  obtain starts ends where e: "plan = make_plan request False (map (candidate_at starts b) [0..<?n])
      (Some (map (\<lambda>p. let end = candidate_at ends b p
                       in if end < map (candidate_at starts b) [0..<?n] ! p
                          then map (candidate_at starts b) [0..<?n] ! p else end) [0..<?n]))"
    using r by (auto simp: window_plan_def Let_def split: option.splits if_splits)
  show ?thesis
    unfolding e
    by (rule make_plan_ok [OF candidate_starts [OF ok]])
       (use candidate_bounds [OF ok] in \<open>auto simp: ends_ok_def Let_def\<close>)
qed

lemma resume_partitions_result:
  "resume_partitions b cs = Inr ranges \<longleftrightarrow>
     list_all (\<lambda>c. pc_partition c < length (tb_high b) \<and> tb_low b ! pc_partition c \<le> pc_nextOffset c
                   \<and> pc_endOffset c \<le> tb_high b ! pc_partition c) cs
     \<and> ranges = map (\<lambda>c. (pc_partition c, pc_nextOffset c, pc_endOffset c)) cs"
proof (induction cs arbitrary: ranges)
  case (Cons c cs)
  show ?case
  proof (cases "resume_partitions b cs")
    case (Inl e)
    then show ?thesis
      using Cons.IH [of "map (\<lambda>c. (pc_partition c, pc_nextOffset c, pc_endOffset c)) cs"] by auto
  next
    case (Inr rest)
    then show ?thesis using Cons.IH [of rest] by auto
  qed
qed auto

lemma resume_plan_result:
  "resume_plan request b c = Inr plan \<longleftrightarrow>
     rq_mode request \<noteq> Tail \<and> parseKafkaReadCoverage (ck_coverage c) \<and> length (tb_high b) = ck_partitionCount c
     \<and> list_all (\<lambda>c. pc_partition c < length (tb_high b) \<and> tb_low b ! pc_partition c \<le> pc_nextOffset c
                   \<and> pc_endOffset c \<le> tb_high b ! pc_partition c) (cv_partitions (ck_coverage c))
     \<and> plan = \<lparr>pl_continuous = False,
               pl_endOffsets = Some (map (\<lambda>c. (pc_partition c, pc_endOffset c)) (cv_partitions (ck_coverage c))),
               pl_maxMessages = rq_maxMessages request, pl_request = request,
               pl_startOffsets = map (\<lambda>c. (pc_partition c, pc_nextOffset c)) (cv_partitions (ck_coverage c))\<rparr>"
proof (cases "resume_partitions b (cv_partitions (ck_coverage c))")
  case (Inl e)
  moreover have "\<not> list_all (\<lambda>c. pc_partition c < length (tb_high b) \<and> tb_low b ! pc_partition c \<le> pc_nextOffset c
                   \<and> pc_endOffset c \<le> tb_high b ! pc_partition c) (cv_partitions (ck_coverage c))"
    using Inl resume_partitions_result [of b "cv_partitions (ck_coverage c)"] by auto
  ultimately show ?thesis by (auto simp: resume_plan_def)
next
  case (Inr ranges)
  then show ?thesis
    using resume_partitions_result [of b "cv_partitions (ck_coverage c)" ranges]
    by (auto simp: resume_plan_def comp_def)
qed

lemma resume_plan_ok:
  assumes "resume_plan request b c = Inr plan"
  shows "plan_ok b plan"
proof (rule plan_okI [where ranges = "map (\<lambda>c. (pc_partition c, pc_nextOffset c, pc_endOffset c)) (cv_partitions (ck_coverage c))"])
  show "distinct (map fst (map (\<lambda>c. (pc_partition c, pc_nextOffset c, pc_endOffset c)) (cv_partitions (ck_coverage c))))"
    using assms by (simp add: resume_plan_result parseKafkaReadCoverage_def comp_def)
qed (use assms in \<open>auto simp: resume_plan_result parseKafkaReadCoverage_def list_all_iff partition_coverage_ok_def comp_def\<close>)

lemma make_plan_fields [simp]:
  "pl_request (make_plan request continuous start ends) = request"
  "pl_maxMessages (make_plan request continuous start ends) = rq_maxMessages request"
  "pl_continuous (make_plan request continuous start ends) = continuous"
  "(pl_endOffsets (make_plan request continuous start ends) = None) = (ends = None)"
  by (auto simp: make_plan_def selectedPartitionPlan_def Let_def split: option.split)

lemma window_plan_made:
  assumes "window_plan lookup request b startTime endTime = Inr plan"
  shows "\<exists>start ends. plan = make_plan request False start (Some ends)"
proof (cases "lookup 2 startTime")
  case None
  then show ?thesis using assms by (simp add: window_plan_def)
next
  case starts: (Some starts)
  show ?thesis
  proof (cases "lookup 3 endTime")
    case None
    then show ?thesis using assms starts by (simp add: window_plan_def)
  next
    case (Some ends)
    then show ?thesis using assms starts by (simp add: window_plan_def Let_def split: if_splits) blast
  qed
qed

lemma plan_header:
  assumes "loadTopicBounds lookup = Inr b" and "resolveKafkaFetchPlan lookup request nowMs checkpoint = Some (Inr plan, n)"
  shows "pl_request plan = request \<and> pl_maxMessages plan = rq_maxMessages request
     \<and> (pl_continuous plan \<longleftrightarrow> rq_mode request = Tail) \<and> (pl_endOffsets plan = None \<longleftrightarrow> rq_mode request = Tail)"
proof (cases checkpoint)
  case (Some c)
  then show ?thesis using assms by (simp add: resolveKafkaFetchPlan_def resume_plan_result)
next
  case None
  show ?thesis
  proof (cases "rq_mode request = Tail \<or> rq_mode request = Newest")
    case True
    then obtain start where "plan = make_plan request (rq_mode request = Tail) start
        (if rq_mode request = Tail then None else Some (tb_high b))"
      using resolve_recent [OF assms(1) True assms(2) [unfolded None]] by metis
    then show ?thesis by simp
  next
    case recent: False
    show ?thesis
    proof (cases "rq_mode request")
      case Earliest
      then have "plan = make_plan request False (tb_low b) (Some (tb_high b))"
        using assms None by (simp add: resolveKafkaFetchPlan_def)
      then show ?thesis using Earliest by simp
    next
      case (Time_Window s e)
      then have "window_plan lookup request b s e = Inr plan"
        using assms None by (simp add: resolveKafkaFetchPlan_def)
      then obtain start ends where "plan = make_plan request False start (Some ends)"
        using window_plan_made by blast
      then show ?thesis using Time_Window by simp
    qed (use recent in auto)
  qed
qed

lemma plan_ok_resolved:
  assumes b: "loadTopicBounds lookup = Inr b" and r: "resolveKafkaFetchPlan lookup request nowMs checkpoint = Some (Inr plan, n)"
    and m: "0 \<le> rq_maxMessages request"
  shows "plan_ok b plan"
proof (cases checkpoint)
  case (Some c)
  then show ?thesis using b r by (auto simp: resolveKafkaFetchPlan_def intro: resume_plan_ok)
next
  case None
  have ok: "bounds_ok b" using bounds_loaded [OF b] by simp
  show ?thesis
  proof (cases "rq_mode request = Tail \<or> rq_mode request = Newest")
    case True
    then obtain start where start: "recent_ok b (recent_budget request) start"
      and p: "plan = make_plan request (rq_mode request = Tail) start
                (if rq_mode request = Tail then None else Some (tb_high b))"
      using resolve_recent [OF b True r [unfolded None]] m by auto
    have s: "starts_ok b start" using start by (rule recent_starts)
    show ?thesis unfolding p by (rule make_plan_ok [OF s]) (use high_ends [OF ok s] in \<open>auto split: if_splits\<close>)
  next
    case False
    then show ?thesis
    proof (cases "rq_mode request")
      case Earliest
      then have "plan = make_plan request False (tb_low b) (Some (tb_high b))"
        using b r None by (simp add: resolveKafkaFetchPlan_def)
      then show ?thesis
        using make_plan_ok [OF low_starts [OF ok], of "Some (tb_high b)"] high_ends [OF ok low_starts [OF ok]] by auto
    next
      case (Time_Window s e)
      then have "window_plan lookup request b s e = Inr plan"
        using b r None by (simp add: resolveKafkaFetchPlan_def)
      then show ?thesis by (rule window_plan_ok [OF ok])
    qed (use False in auto)
  qed
qed


section \<open>Properties\<close>

text \<open>
  C34: Planning a read always returns, whatever the broker answers: the widening window and the
  timestamp search end, after at most 23 broker calls in all.
\<close>

theorem plan_resolves_within_budget:
  "\<exists>r n. resolveKafkaFetchPlan lookup request nowMs checkpoint = Some (r, n) \<and> n \<le> 23"
proof (cases "loadTopicBounds lookup")
  case (Inl e)
  then show ?thesis by (simp add: resolveKafkaFetchPlan_def)
next
  case (Inr b)
  have ok: "bounds_ok b" using bounds_loaded [OF Inr] by simp
  obtain r n where "resolveRecentOffsets lookup b (recent_budget request) nowMs 2 = Some (r, n)" "n \<le> 23"
    using resolveRecentOffsets_spec [OF ok, of lookup "recent_budget request" nowMs 2] by auto
  then show ?thesis
    using Inr by (cases checkpoint; cases "rq_mode request"; cases r) (simp_all add: resolveKafkaFetchPlan_def)
qed

text \<open>
  C18: Every plan reads within the broker's answer. When planning returns a plan, the broker gave
  its earliest and latest offsets, the plan lists each partition at most once with a start
  between them, ends no earlier than it starts and no later than the latest offset, and only a
  tail is unbounded and continuous.
\<close>

theorem plans_stay_in_bounds:
  assumes "resolveKafkaFetchPlan lookup request nowMs checkpoint = Some (Inr plan, n)"
    and "0 \<le> rq_maxMessages request"
  shows "\<exists>b. lookup 0 (- 2) = Some (tb_low b) \<and> lookup 1 (- 1) = Some (tb_high b) \<and> bounds_ok b \<and> plan_ok b plan
     \<and> pl_request plan = request \<and> pl_maxMessages plan = rq_maxMessages request
     \<and> (pl_continuous plan \<longleftrightarrow> rq_mode request = Tail) \<and> (pl_endOffsets plan = None \<longleftrightarrow> rq_mode request = Tail)"
proof (cases "loadTopicBounds lookup")
  case (Inl e)
  then show ?thesis using assms by (simp add: resolveKafkaFetchPlan_def)
next
  case (Inr b)
  show ?thesis
    using bounds_loaded [OF Inr] plan_ok_resolved [OF Inr assms] plan_header [OF Inr assms(1)] by (intro exI [of _ b]) simp
qed

lemma selected_starts:
  assumes ok: "bounds_ok b" and s: "starts_ok b start" and ends: "ends = None \<or> ends = Some (tb_high b)"
    and m: "(p, x) \<in> set (pl_startOffsets (make_plan request continuous start ends))"
  shows "p < length (tb_high b) \<and> start ! p \<le> x"
proof (cases "rq_search request = None \<or> ends = None
     \<or> (sf_offsetExact (the (rq_search request)) = None \<and> sf_partition (the (rq_search request)) = None)")
  case True
  then show ?thesis using m s make_plan_plain [OF True] by (auto simp: offsetsMap_nth starts_ok_def)
next
  case False
  then obtain search where f: "rq_search request = Some search" "ends = Some (tb_high b)"
    "\<not> (sf_offsetExact search = None \<and> sf_partition search = None)" using ends by auto
  obtain q low e where q: "(q, low) \<in> set (offsetsMap start)"
    "(p, x, e) \<in> set (selected_entry search (offsetsMap (tb_high b)) (q, low))"
    using m f by (auto simp: make_plan_selected)
  have ql: "q < length (tb_high b)" "low = start ! q"
    using q(1) s enumerate_nth [of q low start] by (simp_all add: offsetsMap_def starts_ok_def)
  then have "low \<le> tb_high b ! q" using s by (simp add: starts_ok_def)
  then show ?thesis using selected_entry_ok [OF q(2) map_of_offsets [OF ql(1)]] ql by simp
qed

text \<open>
  A tail or a newest-first read never reaches further back than its budget: every partition
  it reads starts at most \<open>maxMessages\<close> records before the latest offset (10,000 for a search),
  and when the whole topic fits the budget and nothing narrows the read, it starts at the earliest
  offset of every partition.
\<close>

theorem recent_plan_within_budget:
  assumes "rq_mode request = Tail \<or> rq_mode request = Newest" and "0 \<le> rq_maxMessages request"
    and "loadTopicBounds lookup = Inr b"
    and "resolveKafkaFetchPlan lookup request nowMs None = Some (Inr plan, n)"
  shows "list_all (\<lambda>(p, s). p < length (tb_high b) \<and> tb_high b ! p - s \<le> recent_budget request) (pl_startOffsets plan)
     \<and> (available_records b \<le> recent_budget request \<and> rq_search request = None \<longrightarrow>
         n = 2 \<and> pl_startOffsets plan = offsetsMap (tb_low b))"
proof -
  have ok: "bounds_ok b" using bounds_loaded [OF assms(3)] by simp
  obtain start where start: "resolveRecentOffsets lookup b (recent_budget request) nowMs 2 = Some (Inr start, n)"
    "recent_ok b (recent_budget request) start"
    and p: "plan = make_plan request (rq_mode request = Tail) start
              (if rq_mode request = Tail then None else Some (tb_high b))"
    by (rule resolve_recent [OF assms(3,1,4)]) (use assms(2) in auto)
  have ends: "(if rq_mode request = Tail then None else Some (tb_high b)) = None
      \<or> (if rq_mode request = Tail then None else Some (tb_high b)) = Some (tb_high b)" by simp
  have in_budget: "p < length (tb_high b) \<and> tb_high b ! p - s \<le> recent_budget request"
    if "(p, s) \<in> set (pl_startOffsets plan)" for p s
  proof -
    have "p < length (tb_high b) \<and> start ! p \<le> s"
      by (rule selected_starts [OF ok recent_starts [OF start(2)] ends that [unfolded p]])
    moreover from this have "tb_high b ! p - start ! p \<le> recent_budget request"
      using start(2) unfolding recent_ok_def by blast
    ultimately show ?thesis by linarith
  qed
  have "list_all (\<lambda>(p, s). p < length (tb_high b) \<and> tb_high b ! p - s \<le> recent_budget request) (pl_startOffsets plan)"
    using in_budget unfolding list_all_iff by blast
  moreover have "n = 2 \<and> pl_startOffsets plan = offsetsMap (tb_low b)"
    if "available_records b \<le> recent_budget request" "rq_search request = None"
    using start(1) that p by (simp add: resolveRecentOffsets_def make_plan_plain)
  ultimately show ?thesis by blast
qed

text \<open>
  C35: A read resumes exactly where its checkpoint stopped, or not at all. Planning from a
  checkpoint succeeds if and only if the request is not a tail, the checkpoint is well formed, the
  topic still has as many partitions, and every range the checkpoint still has to read lies
  within the broker's offsets; the plan then reads precisely those ranges.
\<close>

theorem checkpoint_resumes_exactly:
  "resolveKafkaFetchPlan lookup request nowMs (Some c) = Some (Inr plan, n) \<longleftrightarrow>
     n = 2 \<and> rq_mode request \<noteq> Tail \<and> parseKafkaReadCoverage (ck_coverage c)
     \<and> (\<exists>b. loadTopicBounds lookup = Inr b \<and> length (tb_high b) = ck_partitionCount c
          \<and> list_all (\<lambda>r. pc_partition r < length (tb_high b) \<and> tb_low b ! pc_partition r \<le> pc_nextOffset r
                \<and> pc_endOffset r \<le> tb_high b ! pc_partition r) (cv_partitions (ck_coverage c)))
     \<and> plan = \<lparr>pl_continuous = False,
               pl_endOffsets = Some (map (\<lambda>r. (pc_partition r, pc_endOffset r)) (cv_partitions (ck_coverage c))),
               pl_maxMessages = rq_maxMessages request, pl_request = request,
               pl_startOffsets = map (\<lambda>r. (pc_partition r, pc_nextOffset r)) (cv_partitions (ck_coverage c))\<rparr>"
  by (cases "loadTopicBounds lookup") (auto simp: resolveKafkaFetchPlan_def resume_plan_result)

text \<open>
  An exact offset costs one record a partition. From the earliest offsets, a search for the
  offset \<open>x\<close> reads exactly \<open>[x, x + 1)\<close> of each selected partition that holds it and nothing of
  any other.
\<close>

theorem exact_offset_reads_one_record:
  assumes "rq_mode request = Earliest" and "rq_search request = Some search" and "sf_offsetExact search = Some x"
    and "resolveKafkaFetchPlan lookup request nowMs None = Some (Inr plan, n)"
    and "loadTopicBounds lookup = Inr b" and "pl_endOffsets plan = Some ends"
    and "i < length (pl_startOffsets plan)" and "pl_startOffsets plan ! i = (p, s)" and "ends ! i = (q, e)"
  shows "p = q \<and> (sf_partition search = None \<or> sf_partition search = Some p)
     \<and> (if tb_low b ! p \<le> x \<and> x < tb_high b ! p then s = x \<and> e = x + 1 else s = e)"
proof -
  let ?ranges = "concat (map (selected_entry search (offsetsMap (tb_high b))) (offsetsMap (tb_low b)))"
  have ok: "bounds_ok b" using bounds_loaded [OF assms(5)] by simp
  have plan: "plan = make_plan request False (tb_low b) (Some (tb_high b))"
    using assms(1,4,5) by (simp add: resolveKafkaFetchPlan_def)
  have narrowed: "\<not> (sf_offsetExact search = None \<and> sf_partition search = None)" using assms(3) by simp
  have i: "i < length ?ranges"
    using assms(7) unfolding plan make_plan_selected [OF assms(2) narrowed] by simp
  obtain p' s' e' where r: "?ranges ! i = (p', s', e')" by (metis surj_pair)
  have eq: "p' = p" "s' = s" "p' = q" "e' = e"
    using assms(6,8,9) i r unfolding plan make_plan_selected [OF assms(2) narrowed] by auto
  have "(p, s, e) \<in> set ?ranges" using nth_mem [OF i] r eq by simp
  then obtain k low where k: "(k, low) \<in> set (offsetsMap (tb_low b))"
    "(p, s, e) \<in> set (selected_entry search (offsetsMap (tb_high b)) (k, low))" by auto
  have kl: "k < length (tb_high b)" "low = tb_low b ! k"
    using k(1) ok enumerate_nth [of k low "tb_low b"] by (simp_all add: offsetsMap_def bounds_ok_def)
  have sel: "p = k \<and> (sf_partition search = None \<or> sf_partition search = Some k)
      \<and> s = (if x < low then low else if x > tb_high b ! k then tb_high b ! k else x)
      \<and> e = (if low \<le> x \<and> x < tb_high b ! k then x + 1 else s)"
    using k(2) assms(3) map_of_offsets [OF kl(1)]
    by (auto simp: selected_entry_def Let_def split: if_splits)
  then show ?thesis using eq kl by (auto split: if_splits)
qed


section \<open>Witnesses\<close>

text \<open>A topic with two partitions: records 2 to 9 and 0 to 3; a search never moves the window.\<close>

definition sample_lookup :: lookup where
  "sample_lookup n timestamp =
     (if timestamp = - 2 then Some [2, 0] else if timestamp = - 1 then Some [10, 4] else Some [7, 3])"

definition sample_request :: "fetch_mode \<Rightarrow> kafka_search_filter option \<Rightarrow> fetch_request" where
  "sample_request mode search = \<lparr>rq_topic = [], rq_maxMessages = 4, rq_search = search, rq_mode = mode\<rparr>"

definition sample_search :: kafka_search_filter where
  "sample_search = \<lparr>sf_expression = None, sf_key = [], sf_value = [], sf_offset = [],
     sf_offsetExact = Some 3, sf_timestamp = [], sf_partition = None\<rparr>"

lemma sample_loaded: "loadTopicBounds sample_lookup = Inr \<lparr>tb_high = [10, 4], tb_low = [2, 0]\<rparr>"
  by (simp add: loadTopicBounds_def sample_lookup_def assertOffsetBounds_def)

lemma sample_counts: "countCandidates [7, 3] \<lparr>tb_high = [10, 4], tb_low = [2, 0]\<rparr> = 4"
  by (simp add: countCandidates_def candidate_at_def clampOffset_def upt_rec)

lemma sample_widen:
  "rs_offsets s = [7, 3] \<Longrightarrow> widen sample_lookup \<lparr>tb_high = [10, 4], tb_low = [2, 0]\<rparr> 4 now n s = Some (Inr s, n)"
  by (subst widen.simps) (simp add: sample_counts)

lemma bisect_point: "bisect lookup b maximum steps n t t selected = (Inr selected, n)"
  by (cases steps) simp_all

lemma sample_checked:
  "0 \<le> t \<Longrightarrow> checked_lookup sample_lookup \<lparr>tb_high = [10, 4], tb_low = [2, 0]\<rparr> n t = Inr [7, 3]"
  by (simp add: checked_lookup_def sample_lookup_def)

lemma sample_recent:
  "resolveRecentOffsets sample_lookup \<lparr>tb_high = [10, 4], tb_low = [2, 0]\<rparr> 4 0 2 = Some (Inr [7, 3], 3)"
  by (simp add: resolveRecentOffsets_def available_records_def sample_checked sample_widen sample_counts
      upt_rec bisect_point clampRecentOffsets_def candidate_at_def clampOffset_def Let_def)

lemma sample_newest:
  "resolveKafkaFetchPlan sample_lookup (sample_request Newest None) 0 None =
     Some (Inr (make_plan (sample_request Newest None) False [7, 3] (Some [10, 4])), 3)"
  by (simp add: resolveKafkaFetchPlan_def sample_loaded sample_request_def sample_recent)

theorem plans_stay_in_bounds_witness:
  "\<exists>b. sample_lookup 0 (- 2) = Some (tb_low b) \<and> bounds_ok b
     \<and> plan_ok b (make_plan (sample_request Newest None) False [7, 3] (Some [10, 4]))"
proof -
  have "0 \<le> rq_maxMessages (sample_request Newest None)" by (simp add: sample_request_def)
  from plans_stay_in_bounds [OF sample_newest this] show ?thesis by metis
qed

theorem recent_plan_within_budget_witness:
  "list_all (\<lambda>(p, s). p < 2 \<and> [10, 4] ! p - s \<le> 4)
     (pl_startOffsets (make_plan (sample_request Newest None) False [7, 3] (Some [10, 4])))"
proof -
  have "rq_mode (sample_request Newest None) = Tail \<or> rq_mode (sample_request Newest None) = Newest"
    and "0 \<le> rq_maxMessages (sample_request Newest None)"
    and "rq_search (sample_request Newest None) = None" "rq_maxMessages (sample_request Newest None) = 4"
    by (simp_all add: sample_request_def)
  from recent_plan_within_budget [OF this(1,2) sample_loaded sample_newest] this(3,4)
  show ?thesis by (simp add: numeral_2_eq_2)
qed

theorem exact_offset_reads_one_record_witness:
  "make_plan (sample_request Earliest (Some sample_search)) False [2, 0] (Some [10, 4]) =
     \<lparr>pl_continuous = False, pl_endOffsets = Some [(0, 4), (1, 4)], pl_maxMessages = 4,
      pl_request = sample_request Earliest (Some sample_search), pl_startOffsets = [(0, 3), (1, 3)]\<rparr>
   \<and> ((3::int) = 3 \<and> (4::int) = 3 + 1)"
proof
  let ?r = "sample_request Earliest (Some sample_search)"
  show plan: "make_plan ?r False [2, 0] (Some [10, 4]) =
     \<lparr>pl_continuous = False, pl_endOffsets = Some [(0, 4), (1, 4)], pl_maxMessages = 4,
      pl_request = ?r, pl_startOffsets = [(0, 3), (1, 3)]\<rparr>"
    by (simp add: make_plan_def selectedPartitionPlan_def sample_request_def sample_search_def offsetsMap_def
        selected_entry_def Let_def)
  have r: "resolveKafkaFetchPlan sample_lookup ?r 0 None = Some (Inr (make_plan ?r False [2, 0] (Some [10, 4])), 2)"
    by (simp add: resolveKafkaFetchPlan_def sample_loaded sample_request_def)
  have "(0::nat) = 0 \<and> (sf_partition sample_search = None \<or> sf_partition sample_search = Some 0)
     \<and> (if [2::int, 0] ! 0 \<le> 3 \<and> 3 < [10::int, 4] ! 0 then (3::int) = 3 \<and> (4::int) = 3 + 1 else (3::int) = 4)"
    by (rule exact_offset_reads_one_record [where i = 0 and ends = "[(0, 4), (1, 4)]", OF _ _ _ r [unfolded plan] sample_loaded, simplified])
       (simp_all add: sample_request_def sample_search_def)
  then show "(3::int) = 3 \<and> (4::int) = 3 + 1" by simp
qed

end
