(* ===== verification/Read_Coverage.thy ===== *)
theory Read_Coverage
  imports Read_Tracker Fetch_Plans
begin

text \<open>
  Bounded reads are accounted exactly and lose nothing. A tracker whose plan is sound keeps its
  counters within the read limits, its coverage is always one the checkpoint parser accepts, and
  every record that was yielded but not acknowledged lies in the range the checkpoint leaves to be
  read again.
\<close>

section \<open>Sound plans of a tracker\<close>

definition tracked :: "topic_bounds \<Rightarrow> fetch_plan \<Rightarrow> bool" where
  "tracked b plan \<longleftrightarrow> bounds_ok b \<and> list_all (\<lambda>h. h \<le> max_offset) (tb_high b) \<and> plan_ok b plan
     \<and> pl_endOffsets plan \<noteq> None \<and> 1 \<le> pl_maxMessages plan"

definition range_of :: "fetch_plan \<Rightarrow> nat \<Rightarrow> int \<Rightarrow> int \<Rightarrow> bool" where
  "range_of plan p s e \<longleftrightarrow> (p, s) \<in> set (pl_startOffsets plan) \<and> end_of plan p = Some e"

lemma list_all2_range:
  "list_all2 (range_ok b) ss es \<Longrightarrow> map fst ss = map fst es"
  by (induction rule: list_all2_induct) (auto simp: range_ok_def)

lemma tracked_range:
  assumes t: "tracked b plan" and m: "(p, s) \<in> set (pl_startOffsets plan)"
  shows "\<exists>e. end_of plan p = Some e \<and> 0 \<le> s \<and> s \<le> e \<and> e \<le> max_offset \<and> p < 2048"
proof -
  obtain ends where e: "pl_endOffsets plan = Some ends" and l: "list_all2 (range_ok b) (pl_startOffsets plan) ends"
    using t by (auto simp: tracked_def plan_ok_def)
  have d: "distinct (map fst (pl_startOffsets plan))" using t by (simp add: tracked_def plan_ok_def)
  then have de: "distinct (map fst ends)" using list_all2_range [OF l] by simp
  obtain i where i: "i < length (pl_startOffsets plan)" "pl_startOffsets plan ! i = (p, s)"
    using m by (auto simp: in_set_conv_nth)
  have r: "range_ok b (p, s) (ends ! i)" "i < length ends"
    using list_all2_nthD [OF l i(1)] list_all2_lengthD [OF l] i by simp_all
  obtain q x where q: "ends ! i = (q, x)" by fastforce
  then have x: "q = p" "s \<le> x" "x \<le> tb_high b ! p" using r(1) by (auto simp: range_ok_def)
  have "(p, x) \<in> set ends" using r(2) q x(1) nth_mem by fastforce
  then have "end_of plan p = Some x" using e de by (simp add: end_of_def)
  moreover have p: "p < length (tb_high b)" "0 \<le> s"
  proof -
    have "p < length (tb_high b) \<and> tb_low b ! p \<le> s"
      using t m unfolding tracked_def plan_ok_def by blast
    moreover from this have "0 \<le> tb_low b ! p"
      using t unfolding tracked_def bounds_ok_def by blast
    ultimately show "p < length (tb_high b)" "0 \<le> s" by linarith+
  qed
  moreover have "tb_high b ! p \<le> max_offset" "length (tb_high b) \<le> 2048"
    using t p(1) by (auto simp: tracked_def bounds_ok_def list_all_length)
  ultimately show ?thesis using x by fastforce
qed

lemma tracked_end:
  assumes t: "tracked b plan" and e: "end_of plan p = Some e"
  shows "\<exists>s. (p, s) \<in> set (pl_startOffsets plan)"
proof -
  obtain ends where ends: "pl_endOffsets plan = Some ends" and l: "list_all2 (range_ok b) (pl_startOffsets plan) ends"
    using t by (auto simp: tracked_def plan_ok_def)
  have "(p, e) \<in> set ends" using e ends by (auto simp: end_of_def dest: map_of_SomeD)
  then have "p \<in> fst ` set ends" by force
  then have "p \<in> fst ` set (pl_startOffsets plan)" using list_all2_range [OF l] by (metis set_map)
  then show ?thesis by auto
qed

lemma tracked_distinct: "tracked b plan \<Longrightarrow> distinct (map fst (pl_startOffsets plan))"
  by (simp add: tracked_def plan_ok_def)

lemma tracked_length:
  assumes "tracked b plan"
  shows "length (pl_startOffsets plan) \<le> 2048"
proof -
  have "set (map fst (pl_startOffsets plan)) \<subseteq> {..<2048}"
  proof
    fix p assume "p \<in> set (map fst (pl_startOffsets plan))"
    then obtain s where "(p, s) \<in> set (pl_startOffsets plan)" by auto
    then show "p \<in> {..<2048}" using tracked_range [OF assms] by fastforce
  qed
  then have "card (set (map fst (pl_startOffsets plan))) \<le> 2048"
    using card_mono [of "{..<2048}" "set (map fst (pl_startOffsets plan))"] by simp
  then show ?thesis using distinct_card [OF tracked_distinct [OF assms]] by simp
qed

section \<open>The fields an operation leaves alone\<close>

lemma finish_read_fields [simp]:
  "rt_plan (finish_read r t) = rt_plan t" "rt_expression (finish_read r t) = rt_expression t"
  "rt_scannedRecords (finish_read r t) = rt_scannedRecords t" "rt_scannedBytes (finish_read r t) = rt_scannedBytes t"
  "rt_matchedRecords (finish_read r t) = rt_matchedRecords t"
  "rt_unavailableRecords (finish_read r t) = rt_unavailableRecords t"
  "rt_next (finish_read r t) = rt_next t" "rt_pending (finish_read r t) = rt_pending t"
  by (simp_all add: finish_read_def)

lemma checkRangeComplete_fields [simp]:
  "rt_plan (checkRangeComplete t) = rt_plan t" "rt_expression (checkRangeComplete t) = rt_expression t"
  "rt_scannedRecords (checkRangeComplete t) = rt_scannedRecords t"
  "rt_scannedBytes (checkRangeComplete t) = rt_scannedBytes t"
  "rt_matchedRecords (checkRangeComplete t) = rt_matchedRecords t"
  "rt_unavailableRecords (checkRangeComplete t) = rt_unavailableRecords t"
  "rt_next (checkRangeComplete t) = rt_next t" "rt_pending (checkRangeComplete t) = rt_pending t"
  by (simp_all add: checkRangeComplete_def split: option.split)

lemma finish_limits_fields [simp]:
  "rt_plan (finish_limits t) = rt_plan t" "rt_expression (finish_limits t) = rt_expression t"
  "rt_scannedRecords (finish_limits t) = rt_scannedRecords t"
  "rt_scannedBytes (finish_limits t) = rt_scannedBytes t"
  "rt_matchedRecords (finish_limits t) = rt_matchedRecords t"
  "rt_unavailableRecords (finish_limits t) = rt_unavailableRecords t"
  "rt_next (finish_limits t) = rt_next t" "rt_pending (finish_limits t) = rt_pending t"
  by (simp_all add: finish_limits_def Let_def)

lemma mark_advanced_fields [simp]:
  "rt_plan (mark_advanced t) = rt_plan t" "rt_expression (mark_advanced t) = rt_expression t"
  "rt_reason (mark_advanced t) = rt_reason t"
  "rt_scannedRecords (mark_advanced t) = rt_scannedRecords t" "rt_scannedBytes (mark_advanced t) = rt_scannedBytes t"
  "rt_matchedRecords (mark_advanced t) = rt_matchedRecords t"
  "rt_unavailableRecords (mark_advanced t) = rt_unavailableRecords t" "rt_next (mark_advanced t) = rt_next t"
  by (simp_all add: mark_advanced_def)

lemma hold_match_fields [simp]:
  "rt_plan (hold_match m t) = rt_plan t" "rt_expression (hold_match m t) = rt_expression t"
  "rt_reason (hold_match m t) = rt_reason t"
  "rt_scannedRecords (hold_match m t) = rt_scannedRecords t" "rt_scannedBytes (hold_match m t) = rt_scannedBytes t"
  "rt_matchedRecords (hold_match m t) = rt_matchedRecords t + 1"
  "rt_unavailableRecords (hold_match m t) = rt_unavailableRecords t" "rt_next (hold_match m t) = rt_next t"
  by (simp_all add: hold_match_def split: option.split)

lemma traverse_fields [simp]:
  "rt_plan (traverse m t) = rt_plan t" "rt_expression (traverse m t) = rt_expression t"
  "rt_scannedRecords (traverse m t) = rt_scannedRecords t + 1"
  "rt_scannedBytes (traverse m t) = rt_scannedBytes t + record_bytes m"
  "rt_matchedRecords (traverse m t) = rt_matchedRecords t"
  "rt_unavailableRecords (traverse m t) = rt_unavailableRecords t"
  "rt_next (traverse m t) = (rt_next t)(rm_partition m \<mapsto> rm_offset m + 1)"
  "rt_pending (traverse m t) = rt_pending t"
  by (simp_all add: traverse_def)

lemma finish_read_reason:
  "rt_reason (finish_read r t) = (if rt_reason t = Reading \<or> r = Failed then r else rt_reason t)"
  by (simp add: finish_read_def finished_def)

section \<open>The invariant\<close>

definition range_traversed :: "read_tracker \<Rightarrow> bool" where
  "range_traversed t \<longleftrightarrow> (\<forall>p e. end_of (rt_plan t) p = Some e \<longrightarrow>
     e \<le> (case rt_next t p of Some n \<Rightarrow> n | None \<Rightarrow> - 1))"

definition base_inv :: "read_tracker \<Rightarrow> bool" where
  "base_inv t \<longleftrightarrow>
     dom (rt_next t) = fst ` set (pl_startOffsets (rt_plan t))
     \<and> (\<forall>p s e n. range_of (rt_plan t) p s e \<longrightarrow> rt_next t p = Some n \<longrightarrow> s \<le> n \<and> n \<le> e)
     \<and> 0 \<le> rt_matchedRecords t \<and> 0 \<le> rt_unavailableRecords t
     \<and> rt_matchedRecords t + rt_unavailableRecords t \<le> rt_scannedRecords t
     \<and> rt_scannedRecords t \<le> query_scan_records
     \<and> 0 \<le> rt_scannedBytes t \<and> rt_scannedBytes t \<le> query_scan_bytes
     \<and> rt_matchedRecords t \<le> pl_maxMessages (rt_plan t)
     \<and> (rt_reason t = Reading \<longrightarrow>
          rt_matchedRecords t < pl_maxMessages (rt_plan t) \<and> rt_scannedRecords t < query_scan_records)
     \<and> (rt_reason t = Range_Complete \<longrightarrow> range_traversed t)"

definition next_le :: "read_tracker \<Rightarrow> read_tracker \<Rightarrow> bool" where
  "next_le u t \<longleftrightarrow> rt_plan u = rt_plan t
     \<and> (\<forall>p n m. rt_next u p = Some n \<longrightarrow> rt_next t p = Some m \<longrightarrow> n \<le> m)"

definition tracker_inv :: "read_tracker \<Rightarrow> bool" where
  "tracker_inv t \<longleftrightarrow> base_inv t
     \<and> (\<forall>y. rt_pending t = Some y \<longrightarrow>
          (\<exists>u. py_before y = snapshot u \<and> base_inv u \<and> rt_reason u = Reading \<and> next_le u t))"

text \<open>
  What an accepted record does: the guards leave the tracker alone, or the pending record is passed
  and then the partition's end is reached, the byte limit stops the read, the judgement throws, or
  the record is traversed.
\<close>

definition count_unavailable :: "bool \<Rightarrow> read_tracker \<Rightarrow> read_tracker" where
  "count_unavailable b t = (if b then t\<lparr>rt_unavailableRecords := rt_unavailableRecords t + 1\<rparr> else t)"

lemma record_cases:
  assumes "accept_record rv rt jp iso_date t m prepared = (t', r)"
  obtains (ignored) "t' = t" "r = Some False"
  | (past_end) e n where "\<not> finished t" "end_of (rt_plan t) (rm_partition m) = Some e" "rt_next t (rm_partition m) = Some n"
      "n \<le> rm_offset m" "e \<le> rm_offset m"
      "t' = checkRangeComplete ((mark_advanced t)\<lparr>rt_next := (rt_next t)(rm_partition m \<mapsto> e)\<rparr>)" "r = Some False"
  | (too_large) "\<not> finished t" "t' = finish_read Byte_Limit_Reached (mark_advanced t)" "r = Some False"
  | (thrown) "t' = mark_advanced t" "r = None"
  | (taken) e n match unavailable where "\<not> finished t" "end_of (rt_plan t) (rm_partition m) = Some e"
      "rt_next t (rm_partition m) = Some n" "n \<le> rm_offset m" "rm_offset m < e"
      "rt_scannedBytes t + record_bytes m \<le> query_scan_bytes" "rm_topic m = rq_topic (pl_request (rt_plan t))"
      "judge_record rv rt jp iso_date (mark_advanced t) m prepared = Some (match, unavailable)"
      "t' = traverse m (if match then hold_match m (count_unavailable unavailable (mark_advanced t))
                        else count_unavailable unavailable (mark_advanced t))" "r = Some match"
proof (cases "finished t \<or> rm_topic m \<noteq> rq_topic (pl_request (rt_plan t))")
  case True
  then show thesis using assms ignored by (simp add: accept_record_def)
next
  case running: False
  show thesis
  proof (cases "rt_next t (rm_partition m)")
    case None
    then show thesis using assms ignored by (simp add: accept_record_def split: if_splits)
  next
    case n: (Some n)
    show thesis
    proof (cases "end_of (rt_plan t) (rm_partition m)")
      case None
      then show thesis using assms ignored n by (simp add: accept_record_def split: if_splits)
    next
      case e: (Some e)
      consider "rm_offset m < n" | "n \<le> rm_offset m" "e \<le> rm_offset m" | "n \<le> rm_offset m" "rm_offset m < e"
        by linarith
      then show thesis
      proof cases
        case 1
        then show thesis using assms ignored n e running by (simp add: accept_record_def)
      next
        case 2
        then show thesis using assms past_end n e running by (simp add: accept_record_def Let_def)
      next
        case 3
        have a: "accept_in_range (judge_record rv rt jp iso_date (mark_advanced t) m prepared) (mark_advanced t) m = (t', r)"
          using assms n e running 3 by (simp add: accept_record_def Let_def)
        show thesis
        proof (cases "rt_scannedBytes t + record_bytes m > query_scan_bytes")
          case True
          then show thesis using a too_large running by (simp add: accept_in_range_def)
        next
          case False
          then show thesis
            using a thrown taken [OF _ e n 3] running
            by (auto simp: accept_in_range_def count_unavailable_def Let_def split: option.splits prod.splits)
        qed
      qed
    qed
  qed
qed


section \<open>Every operation keeps the invariant\<close>

lemma judge_exclusive: "judge_record rv rt jp iso_date t m prepared = Some (match, unavailable) \<Longrightarrow> \<not> (match \<and> unavailable)"
  by (auto simp: judge_record_def Let_def split: if_splits option.splits)

lemma length_of_nonneg [simp]: "0 \<le> length_of b"
  by (simp add: length_of_def split: option.split)

lemma record_bytes_nonneg [simp]: "0 \<le> record_bytes m"
  unfolding record_bytes_def by (intro add_nonneg_nonneg sum_list_map_nonneg) (auto split: prod.split)

lemma checkRangeComplete_reason:
  "rt_reason (checkRangeComplete t) = Range_Complete \<Longrightarrow> rt_reason t = Range_Complete \<or> range_traversed t"
  by (auto simp: checkRangeComplete_def range_traversed_def end_of_def list_all_iff dest!: map_of_SomeD
      split: option.splits if_splits)

lemma checkRangeComplete_reading: "rt_reason (checkRangeComplete t) = Reading \<Longrightarrow> rt_reason t = Reading"
  by (auto simp: checkRangeComplete_def finish_read_reason split: option.splits if_splits)

lemma finish_limits_complete: "rt_reason (finish_limits t) = Range_Complete \<Longrightarrow> rt_reason t = Range_Complete"
  by (auto simp: finish_limits_def finish_read_reason Let_def split: if_splits)

lemma finish_limits_reading:
  "rt_reason (finish_limits t) = Reading \<Longrightarrow>
   rt_reason t = Reading \<and> rt_matchedRecords t < pl_maxMessages (rt_plan t) \<and> rt_scannedRecords t < query_scan_records"
  by (auto simp: finish_limits_def finish_read_reason Let_def split: if_splits)

lemma range_traversed_cong:
  "rt_next t = rt_next u \<Longrightarrow> rt_plan t = rt_plan u \<Longrightarrow> range_traversed t = range_traversed u"
  by (simp add: range_traversed_def)

text \<open>The bounds of one partition's offset after it moved.\<close>

lemma moved_bounds:
  assumes "base_inv t" and "end_of (rt_plan t) q = Some e" and "rt_next t q = Some n" and "n \<le> k" and "k \<le> e"
  shows "dom ((rt_next t)(q \<mapsto> k)) = fst ` set (pl_startOffsets (rt_plan t))"
    and "range_of (rt_plan t) p s e' \<Longrightarrow> ((rt_next t)(q \<mapsto> k)) p = Some x \<Longrightarrow> s \<le> x \<and> x \<le> e'"
proof -
  show "dom ((rt_next t)(q \<mapsto> k)) = fst ` set (pl_startOffsets (rt_plan t))"
    using assms(1,3) by (auto simp: base_inv_def)
  assume r: "range_of (rt_plan t) p s e'" and x: "((rt_next t)(q \<mapsto> k)) p = Some x"
  have b: "\<And>n. rt_next t p = Some n \<Longrightarrow> s \<le> n \<and> n \<le> e'" using assms(1) r by (simp add: base_inv_def)
  show "s \<le> x \<and> x \<le> e'"
  proof (cases "p = q")
    case True
    then have "e' = e" "s \<le> n" using r assms(2,3) b by (simp_all add: range_of_def)
    then show ?thesis using True x assms(4,5) by simp
  next
    case False
    then show ?thesis using x b by simp
  qed
qed

lemma moved_next_le:
  assumes "next_le u t" and "rt_next t q = Some n" and "n \<le> k" and "rt_plan t' = rt_plan t"
    and "rt_next t' = (rt_next t)(q \<mapsto> k)"
  shows "next_le u t'"
  using assms by (auto simp: next_le_def fun_upd_def split: if_splits) fastforce

lemma traverse_base:
  assumes i: "base_inv t" and r: "rt_reason t = Reading" and n: "rt_next t (rm_partition m) = Some n"
    and e: "end_of (rt_plan t) (rm_partition m) = Some e" and o: "n \<le> rm_offset m" "rm_offset m < e"
    and b: "rt_scannedBytes t + record_bytes m \<le> query_scan_bytes"
    and u: "rt_plan u = rt_plan t" "rt_reason u = Reading" "rt_next u = rt_next t"
      "rt_scannedRecords u = rt_scannedRecords t" "rt_scannedBytes u = rt_scannedBytes t"
      "rt_matchedRecords u = rt_matchedRecords t + (if x then 1 else 0)"
      "rt_unavailableRecords u = rt_unavailableRecords t + (if y then 1 else 0)" and xy: "\<not> (x \<and> y)"
  shows "base_inv (traverse m u)"
proof -
  have counters: "0 \<le> rt_matchedRecords t" "0 \<le> rt_unavailableRecords t"
    "rt_matchedRecords t + rt_unavailableRecords t \<le> rt_scannedRecords t" "rt_scannedRecords t < query_scan_records"
    "rt_matchedRecords t < pl_maxMessages (rt_plan t)" "0 \<le> rt_scannedBytes t"
    using i r by (simp_all add: base_inv_def)
  have reading: "rt_reason (traverse m u) = Reading \<Longrightarrow>
      rt_matchedRecords u < pl_maxMessages (rt_plan t) \<and> rt_scannedRecords u + 1 < query_scan_records"
    unfolding traverse_def by (drule finish_limits_reading) (simp add: u(1))
  have complete: "range_traversed (traverse m u)" if c: "rt_reason (traverse m u) = Range_Complete"
  proof -
    let ?v = "u\<lparr>rt_next := (rt_next u)(rm_partition m \<mapsto> rm_offset m + 1), rt_scannedRecords := rt_scannedRecords u + 1,
                 rt_scannedBytes := rt_scannedBytes u + record_bytes m\<rparr>"
    have "rt_reason ?v = Range_Complete \<or> range_traversed ?v"
      using finish_limits_complete [OF c [unfolded traverse_def]] by (rule checkRangeComplete_reason)
    then show ?thesis using u(2) by (simp add: range_traversed_def)
  qed
  have inside: "n \<le> rm_offset m + 1" "rm_offset m + 1 \<le> e" using o by simp_all
  note moved = moved_bounds [OF i e n inside]
  have c: "rt_matchedRecords u + rt_unavailableRecords u \<le> rt_scannedRecords t + 1" "0 \<le> rt_matchedRecords u"
    "0 \<le> rt_unavailableRecords u" "rt_matchedRecords u \<le> pl_maxMessages (rt_plan t)"
    using counters u(6,7) xy by (auto split: if_splits)
  have bytes: "0 \<le> rt_scannedBytes t + record_bytes m" using counters(6) record_bytes_nonneg [of m] by linarith
  show ?thesis
    unfolding base_inv_def traverse_fields u(1,3,4,5)
  proof (intro conjI allI impI)
    show "dom ((rt_next t)(rm_partition m \<mapsto> rm_offset m + 1)) = fst ` set (pl_startOffsets (rt_plan t))" by (rule moved(1))
    show "s \<le> x" "x \<le> e'"
      if "range_of (rt_plan t) p s e'" "((rt_next t)(rm_partition m \<mapsto> rm_offset m + 1)) p = Some x" for p s e' x
      using moved(2) [OF that] by simp_all
    show "0 \<le> rt_matchedRecords u" "0 \<le> rt_unavailableRecords u"
      "rt_matchedRecords u + rt_unavailableRecords u \<le> rt_scannedRecords t + 1"
      "rt_matchedRecords u \<le> pl_maxMessages (rt_plan t)" by (rule c)+
    show "rt_matchedRecords u < pl_maxMessages (rt_plan t)" "rt_scannedRecords t + 1 < query_scan_records"
      if "rt_reason (traverse m u) = Reading" using reading [OF that] u(4) by simp_all
    show "rt_scannedRecords t + 1 \<le> query_scan_records" using counters(4) by simp
    show "range_traversed (traverse m u)" if "rt_reason (traverse m u) = Range_Complete" by (rule complete [OF that])
  qed (rule bytes b)+
qed


lemma base_same:
  assumes "base_inv t" and "rt_plan u = rt_plan t" "rt_next u = rt_next t"
    "rt_scannedRecords u = rt_scannedRecords t" "rt_scannedBytes u = rt_scannedBytes t"
    "rt_matchedRecords u = rt_matchedRecords t" "rt_unavailableRecords u = rt_unavailableRecords t"
    and "rt_reason u = rt_reason t \<or> (rt_reason u \<noteq> Reading \<and> rt_reason u \<noteq> Range_Complete)"
  shows "base_inv u"
  using assms unfolding base_inv_def by (auto simp: range_traversed_def)

lemma mark_advanced_base: "base_inv t \<Longrightarrow> base_inv (mark_advanced t)"
  by (rule base_same [of t]) simp_all

lemma moved_base:
  assumes i: "base_inv t" and n: "rt_next t q = Some n" and e: "end_of (rt_plan t) q = Some e" and o: "n \<le> e"
    and u: "rt_plan u = rt_plan t" "rt_next u = rt_next t" "rt_scannedRecords u = rt_scannedRecords t"
      "rt_scannedBytes u = rt_scannedBytes t" "rt_matchedRecords u = rt_matchedRecords t"
      "rt_unavailableRecords u = rt_unavailableRecords t" "rt_reason u = rt_reason t" and r: "rt_reason t = Reading"
  shows "base_inv (checkRangeComplete (u\<lparr>rt_next := (rt_next t)(q \<mapsto> e)\<rparr>))"
proof -
  let ?v = "u\<lparr>rt_next := (rt_next t)(q \<mapsto> e)\<rparr>"
  note moved = moved_bounds [OF i e n o order_refl]
  have complete: "range_traversed (checkRangeComplete ?v)" if "rt_reason (checkRangeComplete ?v) = Range_Complete"
    using checkRangeComplete_reason [OF that] r u(7) by (simp add: range_traversed_def)
  show ?thesis
    unfolding base_inv_def checkRangeComplete_fields
    using moved i complete checkRangeComplete_reading [of ?v] r
    by (auto simp: u base_inv_def)
qed

lemma next_le_refl: "next_le t t"
  by (simp add: next_le_def)

lemma next_le_cong:
  "next_le u t \<Longrightarrow> rt_plan t' = rt_plan t \<Longrightarrow> rt_next t' = rt_next t \<Longrightarrow> next_le u t'"
  by (simp add: next_le_def)

lemma pending_marked: "rt_pending (mark_advanced t) = map_option (py_advanced_update (\<lambda>_. True)) (rt_pending t)"
  by (simp add: mark_advanced_def)

text \<open>The pending snapshot survives an operation that only moves offsets forward.\<close>

lemma pending_kept:
  assumes "tracker_inv t" and "base_inv t'" and "\<And>y. rt_pending t' = Some y \<Longrightarrow>
      (\<exists>x. rt_pending t = Some x \<and> py_before y = py_before x)"
    and "\<And>u. next_le u t \<Longrightarrow> next_le u t'"
  shows "tracker_inv t'"
  unfolding tracker_inv_def
proof (intro conjI allI impI)
  fix y assume "rt_pending t' = Some y"
  then obtain x where x: "rt_pending t = Some x" "py_before y = py_before x" using assms(3) by blast
  then obtain u where "py_before x = snapshot u" "base_inv u" "rt_reason u = Reading" "next_le u t"
    using assms(1) unfolding tracker_inv_def by blast
  then show "\<exists>u. py_before y = snapshot u \<and> base_inv u \<and> rt_reason u = Reading \<and> next_le u t'"
    using x(2) assms(4) by auto
qed (rule assms(2))

lemma acknowledge_fields [simp]:
  "rt_plan (acknowledge m t) = rt_plan t" "rt_next (acknowledge m t) = rt_next t"
  "rt_reason (acknowledge m t) = rt_reason t" "rt_scannedRecords (acknowledge m t) = rt_scannedRecords t"
  "rt_scannedBytes (acknowledge m t) = rt_scannedBytes t" "rt_matchedRecords (acknowledge m t) = rt_matchedRecords t"
  "rt_unavailableRecords (acknowledge m t) = rt_unavailableRecords t"
  by (simp_all add: acknowledge_def split: option.split)

lemma acknowledge_pending: "rt_pending (acknowledge m t) = Some y \<Longrightarrow> rt_pending t = Some y"
  by (cases "rt_pending t") (simp_all add: acknowledge_def split: if_splits)

lemma acknowledge_inv:
  assumes "tracker_inv t"
  shows "tracker_inv (acknowledge m t)"
proof (rule pending_kept [OF assms])
  show "base_inv (acknowledge m t)"
    by (rule base_same [of t]) (use assms in \<open>simp_all add: tracker_inv_def\<close>)
  show "next_le u (acknowledge m t)" if "next_le u t" for u
    using that by (rule next_le_cong) simp_all
  show "\<exists>x. rt_pending t = Some x \<and> py_before y = py_before x" if "rt_pending (acknowledge m t) = Some y" for y
    using acknowledge_pending [OF that] by simp
qed

lemma finish_inv:
  assumes "tracker_inv t" and "r \<noteq> Reading" "r \<noteq> Range_Complete"
  shows "tracker_inv (finish_read r t)"
proof (rule pending_kept [OF assms(1)])
  show "base_inv (finish_read r t)"
    by (rule base_same [of t]) (use assms in \<open>simp_all add: tracker_inv_def finish_read_reason\<close>)
  show "next_le u (finish_read r t)" if "next_le u t" for u
    using that by (rule next_le_cong) simp_all
qed simp

lemma accept_inv:
  assumes inv: "tracker_inv t" and "accept_record rv rt jp iso_date t m prepared = (t', r)"
  shows "tracker_inv t'"
  using assms(2)
proof (cases rule: record_cases)
  case ignored
  then show ?thesis using inv by simp
next
  case (past_end e n)
  have base: "base_inv t" using inv by (simp add: tracker_inv_def)
  obtain s where "range_of (rt_plan t) (rm_partition m) s e"
  proof -
    have "rm_partition m \<in> fst ` set (pl_startOffsets (rt_plan t))" using base past_end(3) by (auto simp: base_inv_def)
    then show thesis using past_end(2) that by (auto simp: range_of_def)
  qed
  then have ne: "n \<le> e" using base past_end(3) by (auto simp: base_inv_def)
  show ?thesis
    unfolding past_end
  proof (rule pending_kept [OF inv])
    show "base_inv (checkRangeComplete ((mark_advanced t)\<lparr>rt_next := (rt_next t)(rm_partition m \<mapsto> e)\<rparr>))"
      by (rule moved_base [OF base past_end(3,2) ne]) (use past_end(1) in \<open>simp_all add: finished_def\<close>)
    show "next_le u (checkRangeComplete ((mark_advanced t)\<lparr>rt_next := (rt_next t)(rm_partition m \<mapsto> e)\<rparr>))"
      if "next_le u t" for u
      by (rule moved_next_le [OF that past_end(3) ne]) simp_all
  qed (auto simp: pending_marked)
next
  case too_large
  have "base_inv (mark_advanced t)" using inv mark_advanced_base by (simp add: tracker_inv_def)
  then have "base_inv (finish_read Byte_Limit_Reached (mark_advanced t))"
    by (rule base_same [of "mark_advanced t"]) (auto simp: finish_read_reason)
  then show ?thesis
    unfolding too_large by (rule pending_kept [OF inv]) (auto simp: pending_marked elim: next_le_cong)
next
  case thrown
  have "base_inv (mark_advanced t)" using inv mark_advanced_base by (simp add: tracker_inv_def)
  then show ?thesis
    unfolding thrown by (rule pending_kept [OF inv]) (auto simp: pending_marked elim: next_le_cong)
next
  case (taken e n match unavailable)
  let ?c = "count_unavailable unavailable (mark_advanced t)"
  let ?u = "if match then hold_match m ?c else ?c"
  have base: "base_inv t" and reading: "rt_reason t = Reading"
    using inv taken(1) by (simp_all add: tracker_inv_def finished_def)
  have xy: "\<not> (match \<and> unavailable)" using judge_exclusive taken(8) by blast
  have c: "base_inv ?c" if match
    using that xy mark_advanced_base [OF base] by (simp add: count_unavailable_def)
  have b: "base_inv (traverse m ?u)"
    by (rule traverse_base [OF base reading taken(3,2,4,5,6), where x = match and y = unavailable])
       (use reading xy in \<open>auto simp: count_unavailable_def\<close>)
  have le: "next_le u (traverse m ?u)" if "next_le u t" for u
    by (rule moved_next_le [OF that taken(3), of "rm_offset m + 1"])
       (use taken(4) in \<open>auto simp: count_unavailable_def\<close>)
  show ?thesis
    unfolding taken(9)
  proof (cases "match \<and> rt_pending t = None")
    case True
    then have p: "rt_pending (traverse m ?u) = Some \<lparr>py_message = m, py_before = snapshot ?c, py_advanced = False\<rparr>"
      using xy by (simp add: hold_match_def count_unavailable_def pending_marked)
    have "next_le ?c (traverse m ?u)"
      using le [OF next_le_refl] True xy by (simp add: next_le_def count_unavailable_def)
    then show "tracker_inv (traverse m ?u)"
      unfolding tracker_inv_def using b p c True reading xy
      by (auto simp: count_unavailable_def)
  next
    case False
    show "tracker_inv (traverse m ?u)"
      by (rule pending_kept [OF inv b _ le])
         (use False in \<open>auto simp: hold_match_def count_unavailable_def pending_marked split: if_splits option.splits\<close>)
  qed
qed


lemma new_tracker_fields:
  assumes "new_tracker rv plan = Inr t"
  shows "rt_plan t = plan \<and> rt_next t = map_of (pl_startOffsets plan) \<and> rt_pending t = None"
  using assms by (auto simp: new_tracker_def split: sum.splits option.splits)

lemma new_tracker_inv:
  assumes t: "tracked b plan" and n: "new_tracker rv plan = Inr t"
  shows "tracker_inv t"
proof -
  obtain compiled where t': "t = checkRangeComplete
            \<lparr>rt_plan = plan, rt_expression = compiled, rt_reason = Reading, rt_scannedRecords = 0,
             rt_scannedBytes = 0, rt_matchedRecords = 0, rt_unavailableRecords = 0,
             rt_next = map_of (pl_startOffsets plan), rt_pending = None\<rparr>"
    using n by (auto simp: new_tracker_def split: sum.splits option.splits)
  let ?v = "\<lparr>rt_plan = plan, rt_expression = compiled, rt_reason = Reading, rt_scannedRecords = 0,
             rt_scannedBytes = 0, rt_matchedRecords = 0, rt_unavailableRecords = 0,
             rt_next = map_of (pl_startOffsets plan), rt_pending = None\<rparr>"
  have start: "s \<le> n \<and> n \<le> e" if "range_of plan p s e" "map_of (pl_startOffsets plan) p = Some n" for p s e n
  proof -
    have "n = s" using that map_of_is_SomeI [OF tracked_distinct [OF t], of p s] by (simp add: range_of_def)
    then show ?thesis using tracked_range [OF t, of p s] that(1) by (auto simp: range_of_def)
  qed
  have complete: "range_traversed (checkRangeComplete ?v)" if "rt_reason (checkRangeComplete ?v) = Range_Complete"
    using checkRangeComplete_reason [OF that] by (simp add: range_traversed_def)
  have "base_inv (checkRangeComplete ?v)"
    unfolding base_inv_def
    using start complete t by (auto simp: dom_map_of_conv_image_fst tracked_def)
  then show ?thesis by (simp add: tracker_inv_def t')
qed

section \<open>Coverage and checkpoints\<close>

lemma base_bounds:
  assumes "base_inv u" and "(p, s) \<in> set (pl_startOffsets (rt_plan u))" and "end_of (rt_plan u) p = Some e"
    and "rt_next u p = Some n"
  shows "s \<le> n \<and> n \<le> e"
  using assms unfolding base_inv_def range_of_def by blast

lemma partition_snapshot_ok:
  assumes t: "tracked b (rt_plan u)" and i: "base_inv u" and m: "(p, s) \<in> set (pl_startOffsets (rt_plan u))"
  shows "partition_coverage_ok (partition_snapshot u (p, s))"
    and "\<exists>n e. rt_next u p = Some n \<and> end_of (rt_plan u) p = Some e \<and> s \<le> n \<and> n \<le> e
       \<and> partition_snapshot u (p, s) = \<lparr>pc_partition = p, pc_startOffset = s, pc_endOffset = e, pc_nextOffset = n\<rparr>"
proof -
  obtain e where e: "end_of (rt_plan u) p = Some e" "0 \<le> s" "s \<le> e" "e \<le> max_offset" "p < 2048"
    using tracked_range [OF t m] by blast
  have "dom (rt_next u) = fst ` set (pl_startOffsets (rt_plan u))" using i by (simp add: base_inv_def)
  then have "p \<in> dom (rt_next u)" using m by force
  then obtain n where n: "rt_next u p = Some n" by blast
  then have b: "s \<le> n" "n \<le> e" using base_bounds [OF i m e(1)] by simp_all
  show "partition_coverage_ok (partition_snapshot u (p, s))"
    using e n b by (simp add: partition_coverage_ok_def partition_snapshot_def is_safe_integer_def)
  show "\<exists>n e. rt_next u p = Some n \<and> end_of (rt_plan u) p = Some e \<and> s \<le> n \<and> n \<le> e
       \<and> partition_snapshot u (p, s) = \<lparr>pc_partition = p, pc_startOffset = s, pc_endOffset = e, pc_nextOffset = n\<rparr>"
    using e n b by (simp add: partition_snapshot_def)
qed

lemma snapshot_partitions: "map pc_partition (cv_partitions (snapshot u)) = map fst (pl_startOffsets (rt_plan u))"
  by (auto simp: snapshot_def partition_snapshot_def)

lemma snapshot_parses:
  assumes t: "tracked b (rt_plan u)" and i: "base_inv u" and r: "reason = Range_Complete \<longrightarrow> range_traversed u"
  shows "parseKafkaReadCoverage ((snapshot u)\<lparr>cv_reason := reason\<rparr>)"
proof -
  have "list_all partition_coverage_ok (cv_partitions (snapshot u))"
    using partition_snapshot_ok(1) [OF t i] by (auto simp: snapshot_def list_all_iff)
  moreover have "distinct (map pc_partition (cv_partitions (snapshot u)))"
    unfolding snapshot_partitions by (rule tracked_distinct [OF t])
  moreover have "length (cv_partitions (snapshot u)) \<le> query_partitions"
    using tracked_length [OF t] by (simp add: snapshot_def)
  moreover have "list_all (\<lambda>p. pc_nextOffset p = pc_endOffset p) (cv_partitions (snapshot u))" if "reason = Range_Complete"
  proof -
    have tr: "range_traversed u" using r that by blast
    have "pc_nextOffset (partition_snapshot u (p, s)) = pc_endOffset (partition_snapshot u (p, s))"
      if "(p, s) \<in> set (pl_startOffsets (rt_plan u))" for p s
      using partition_snapshot_ok(2) [OF t i that] tr by (fastforce simp: range_traversed_def)
    then show ?thesis by (auto simp: snapshot_def list_all_iff)
  qed
  ultimately show ?thesis
    using i by (simp add: parseKafkaReadCoverage_def base_inv_def snapshot_def is_safe_integer_def)
qed

text \<open>A checkpoint is the snapshot of the tracker, or of an earlier one, with its own reason.\<close>

lemma checkpoint_snapshot:
  assumes inv: "tracker_inv u"
  shows "\<exists>v. checkpoint u = (snapshot v)\<lparr>cv_reason := cv_reason (checkpoint u)\<rparr> \<and> base_inv v \<and> rt_plan v = rt_plan u
    \<and> (cv_reason (checkpoint u) = Range_Complete \<longrightarrow> range_traversed v)"
proof (cases "rt_pending u")
  case None
  then show ?thesis
    using inv by (intro exI [of _ u]) (simp add: checkpoint_def snapshot_def tracker_inv_def base_inv_def)
next
  case (Some y)
  then obtain v where "py_before y = snapshot v" "base_inv v" "next_le v u"
    using inv unfolding tracker_inv_def by blast
  then show ?thesis
    using Some by (intro exI [of _ v]) (simp add: checkpoint_def next_le_def)
qed

lemma checkpoint_parses:
  assumes "tracker_inv u" and "tracked b (rt_plan u)"
  shows "parseKafkaReadCoverage (checkpoint u)"
proof -
  obtain v where v: "checkpoint u = (snapshot v)\<lparr>cv_reason := cv_reason (checkpoint u)\<rparr>" "base_inv v"
    "rt_plan v = rt_plan u" "cv_reason (checkpoint u) = Range_Complete \<longrightarrow> range_traversed v"
    using checkpoint_snapshot [OF assms(1)] by blast
  have "tracked b (rt_plan v)" using assms(2) v(3) by simp
  from snapshot_parses [OF this v(2,4)] v(1) show ?thesis by simp
qed

text \<open>The owner's calls on a tracker and what it was handed: the records \<open>accept\<close> answered true for.\<close>

datatype stop_reason = Cancel | Deadline_Passed | Fetch_Limit_Reached | Stream_Failed

fun stop_of :: "stop_reason \<Rightarrow> read_reason" where
  "stop_of Cancel = Cancelled"
| "stop_of Deadline_Passed = Deadline"
| "stop_of Fetch_Limit_Reached = Fetch_Limit"
| "stop_of Stream_Failed = Failed"

datatype tracker_op =
    Accept raw_message "search_message option"
  | Acknowledge raw_message
  | Stop stop_reason

fun run_tracker ::
  "(js_string \<Rightarrow> js_string \<Rightarrow> bool) \<Rightarrow> (js_string \<Rightarrow> js_string \<Rightarrow> js_string \<Rightarrow> bool) \<Rightarrow> (js_string \<Rightarrow> json option) \<Rightarrow>
   (int \<Rightarrow> js_string option) \<Rightarrow> read_tracker \<Rightarrow> tracker_op list \<Rightarrow> read_tracker \<times> raw_message list" where
  "run_tracker rv rt jp iso_date t [] = (t, [])"
| "run_tracker rv rt jp iso_date t (Acknowledge m # ops) = run_tracker rv rt jp iso_date (acknowledge m t) ops"
| "run_tracker rv rt jp iso_date t (Stop r # ops) = run_tracker rv rt jp iso_date (finish_read (stop_of r) t) ops"
| "run_tracker rv rt jp iso_date t (Accept m prepared # ops) =
     (case accept_record rv rt jp iso_date t m prepared of
        (t', answer) \<Rightarrow>
          (case run_tracker rv rt jp iso_date t' ops of
             (u, yielded) \<Rightarrow> (u, (if answer = Some True then m # yielded else yielded))))"

lemma accept_plan:
  "accept_record rv rt jp iso_date t m prepared = (t', r) \<Longrightarrow> rt_plan t' = rt_plan t"
  by (erule record_cases) (auto simp: count_unavailable_def)

lemma stop_of_external [simp]: "stop_of r \<noteq> Reading" "stop_of r \<noteq> Range_Complete"
  by (cases r; simp)+

lemma run_tracker_inv:
  assumes "tracker_inv t" and "run_tracker rv rt jp iso_date t ops = (u, ys)"
  shows "tracker_inv u \<and> rt_plan u = rt_plan t"
  using assms
proof (induction ops arbitrary: t ys)
  case (Cons op ops)
  show ?case
  proof (cases op)
    case (Accept m prepared)
    obtain t' r where a: "accept_record rv rt jp iso_date t m prepared = (t', r)" by fastforce
    then obtain zs where "run_tracker rv rt jp iso_date t' ops = (u, zs)"
      using Cons.prems(2) Accept by (auto split: prod.splits)
    then show ?thesis
      using Cons.IH accept_inv [OF Cons.prems(1) a] accept_plan [OF a] by metis
  next
    case (Acknowledge m)
    then show ?thesis using Cons.IH [of "acknowledge m t"] Cons.prems acknowledge_inv by simp
  next
    case (Stop r)
    then show ?thesis using Cons.IH [of "finish_read (stop_of r) t"] Cons.prems finish_inv by simp
  qed
qed simp


section \<open>Nothing unacknowledged is passed\<close>

text \<open>The records acknowledged in a list of calls, by identity.\<close>

fun acknowledged :: "tracker_op list \<Rightarrow> nat set" where
  "acknowledged [] = {}"
| "acknowledged (Acknowledge m # ops) = insert (rm_identity m) (acknowledged ops)"
| "acknowledged (op # ops) = acknowledged ops"

definition covers :: "read_coverage \<Rightarrow> raw_message \<Rightarrow> bool" where
  "covers c m \<longleftrightarrow> (\<exists>pc \<in> set (cv_partitions c).
     pc_partition pc = rm_partition m \<and> pc_nextOffset pc \<le> rm_offset m \<and> rm_offset m < pc_endOffset pc)"

definition held :: "read_tracker \<Rightarrow> nat set \<Rightarrow> raw_message set \<Rightarrow> bool" where
  "held t acked yielded \<longleftrightarrow> (\<forall>m \<in> yielded. rm_identity m \<notin> acked \<longrightarrow>
     (\<exists>y. rt_pending t = Some y \<and> covers (py_before y) m
        \<and> (\<not> py_advanced y \<longrightarrow> rm_identity m = rm_identity (py_message y))))"

lemma held_mono:
  assumes "held t A Y" and "\<And>y. rt_pending t = Some y \<Longrightarrow> \<exists>x. rt_pending u = Some x \<and> py_before x = py_before y
      \<and> (py_advanced x \<or> py_advanced x = py_advanced y \<and> py_message x = py_message y)"
  shows "held u A Y"
  using assms unfolding held_def by metis

lemma snapshot_covers:
  assumes t: "tracked b (rt_plan u)" and i: "base_inv u" and n: "rt_next u (rm_partition m) = Some n"
    and e: "end_of (rt_plan u) (rm_partition m) = Some e" and o: "n \<le> rm_offset m" "rm_offset m < e"
  shows "covers (snapshot u) m"
proof -
  obtain s where s: "(rm_partition m, s) \<in> set (pl_startOffsets (rt_plan u))" using tracked_end [OF t e] by blast
  have "partition_snapshot u (rm_partition m, s) \<in> set (cv_partitions (snapshot u))"
    using s by (auto simp: snapshot_def)
  then show ?thesis
    unfolding covers_def by (rule bexI [rotated]) (use n e o in \<open>simp add: partition_snapshot_def\<close>)
qed

lemma earlier_covers:
  assumes t: "tracked b (rt_plan t)" and i: "base_inv u" and le: "next_le u t" and bt: "base_inv t"
    and n: "rt_next t (rm_partition m) = Some n"
    and e: "end_of (rt_plan t) (rm_partition m) = Some e" and o: "n \<le> rm_offset m" "rm_offset m < e"
  shows "covers (snapshot u) m"
proof -
  have p: "rt_plan u = rt_plan t" using le by (simp add: next_le_def)
  have "dom (rt_next u) = dom (rt_next t)" using i bt p by (simp add: base_inv_def)
  then obtain k where k: "rt_next u (rm_partition m) = Some k" using n by blast
  then have "k \<le> n" using le n by (simp add: next_le_def)
  then show ?thesis using snapshot_covers [of b u m k e] t i k e o p by simp
qed

lemma acknowledge_held: "held t A Y \<Longrightarrow> held (acknowledge m t) (insert (rm_identity m) A) Y"
  by (cases "rt_pending t") (auto simp: held_def acknowledge_def)

lemma accept_held:
  assumes t: "tracked b (rt_plan t)" and inv: "tracker_inv t" and h: "held t A Y"
    and a: "accept_record rv rt jp iso_date t m prepared = (t', r)"
  shows "held t' A (if r = Some True then insert m Y else Y)"
  using a
proof (cases rule: record_cases)
  case (taken e n match unavailable)
  let ?c = "count_unavailable unavailable (mark_advanced t)"
  have base: "base_inv t" using inv by (simp add: tracker_inv_def)
  show ?thesis
  proof (cases match)
    case False
    then show ?thesis unfolding taken
      by (auto intro!: held_mono [OF h] simp: count_unavailable_def pending_marked)
  next
    case True
    have xy: "\<not> unavailable" using judge_exclusive taken(8) True by blast
    show ?thesis
    proof (cases "rt_pending t")
      case None
      have "\<not> (\<exists>y \<in> Y. rm_identity y \<notin> A)" using h None by (auto simp: held_def)
      moreover have "covers (snapshot ?c) m"
        by (rule snapshot_covers [where b = b and n = n and e = e])
           (use taken t mark_advanced_base [OF base] xy in \<open>simp_all add: count_unavailable_def\<close>)
      ultimately show ?thesis
        unfolding taken using True None xy
        by (auto simp: held_def hold_match_def count_unavailable_def pending_marked)
    next
      case (Some x)
      then obtain u where u: "py_before x = snapshot u" "base_inv u" "next_le u t"
        using inv unfolding tracker_inv_def by blast
      have new: "covers (py_before x) m"
        unfolding u(1) by (rule earlier_covers [OF t u(2,3) base taken(3,2,4,5)])
      have p: "rt_pending t' = Some (x\<lparr>py_advanced := True\<rparr>)"
        unfolding taken using True Some xy by (simp add: hold_match_def count_unavailable_def pending_marked)
      show ?thesis
        using h new Some p True taken(10) by (auto simp: held_def)
    qed
  qed
qed (auto intro!: held_mono [OF h] simp: pending_marked)

lemma run_held:
  assumes "tracked b (rt_plan t)" and "tracker_inv t" and "held t A Y"
    and "run_tracker rv rt jp iso_date t ops = (u, ys)"
  shows "held u (A \<union> acknowledged ops) (Y \<union> set ys)"
  using assms
proof (induction ops arbitrary: t ys A Y)
  case (Cons op ops)
  show ?case
  proof (cases op)
    case (Accept m prepared)
    obtain t' r where a: "accept_record rv rt jp iso_date t m prepared = (t', r)" by fastforce
    obtain zs where z: "run_tracker rv rt jp iso_date t' ops = (u, zs)" "ys = (if r = Some True then m # zs else zs)"
      using Cons.prems(4) Accept a by (auto split: prod.splits)
    have "held u (A \<union> acknowledged ops) ((if r = Some True then insert m Y else Y) \<union> set zs)"
      by (rule Cons.IH [OF _ accept_inv [OF Cons.prems(2) a] accept_held [OF Cons.prems(1,2,3) a] z(1)])
         (use Cons.prems(1) accept_plan [OF a] in simp)
    moreover have "(if r = Some True then insert m Y else Y) \<union> set zs = Y \<union> set ys" using z(2) by auto
    ultimately show ?thesis using Accept by simp
  next
    case (Acknowledge m)
    have "held u (insert (rm_identity m) A \<union> acknowledged ops) (Y \<union> set ys)"
      by (rule Cons.IH [OF _ acknowledge_inv [OF Cons.prems(2)] acknowledge_held [OF Cons.prems(3)]])
         (use Cons.prems(1,4) Acknowledge in simp_all)
    then show ?thesis using Acknowledge by simp
  next
    case (Stop r)
    have "held (finish_read (stop_of r) t) A Y" using Cons.prems(3) by (simp add: held_def)
    from Cons.IH [OF _ finish_inv [OF Cons.prems(2)] this] show ?thesis
      using Cons.prems(1,4) Stop by simp
  qed
qed simp


section \<open>What is yielded\<close>

definition yield_ok :: "read_tracker \<Rightarrow> raw_message \<Rightarrow> bool" where
  "yield_ok t m \<longleftrightarrow> rm_topic m = rq_topic (pl_request (rt_plan t))
     \<and> in_time (rq_mode (pl_request (rt_plan t))) (rm_timestamp m)
     \<and> (\<exists>n e. rt_next t (rm_partition m) = Some n \<and> end_of (rt_plan t) (rm_partition m) = Some e
          \<and> n \<le> rm_offset m \<and> rm_offset m < e)"

definition later :: "raw_message \<Rightarrow> raw_message \<Rightarrow> bool" where
  "later m k \<longleftrightarrow> (rm_partition m = rm_partition k \<longrightarrow> rm_offset m < rm_offset k)"

lemma yield_ok_back:
  assumes "next_le t u" and "dom (rt_next t) = dom (rt_next u)" and "yield_ok u m"
  shows "yield_ok t m"
proof -
  obtain k e where k: "rt_next u (rm_partition m) = Some k" "end_of (rt_plan u) (rm_partition m) = Some e"
    "k \<le> rm_offset m" "rm_offset m < e" using assms(3) by (auto simp: yield_ok_def)
  then obtain n where n: "rt_next t (rm_partition m) = Some n" using assms(2) by blast
  then have "n \<le> k" using assms(1) k(1) by (simp add: next_le_def)
  then have o: "n \<le> rm_offset m" using k(3) by (rule order_trans)
  have "rt_plan t = rt_plan u" using assms(1) by (simp add: next_le_def)
  then show ?thesis using assms(3) k n o by (simp add: yield_ok_def)
qed

lemma judge_in_time:
  "judge_record rv rt jp iso_date t m prepared = Some (True, u) \<Longrightarrow> in_time (rq_mode (pl_request (rt_plan t))) (rm_timestamp m)"
  by (auto simp: judge_record_def split: if_splits)

text \<open>One accepted record moves offsets forward, and a yield is paid for.\<close>

lemma accept_progress:
  assumes inv: "tracker_inv t" and a: "accept_record rv rt jp iso_date t m prepared = (t', r)"
  shows "next_le t t' \<and> dom (rt_next t) = dom (rt_next t')
     \<and> rt_matchedRecords t' = rt_matchedRecords t + (if r = Some True then 1 else 0)
     \<and> rt_scannedBytes t + (if r = Some True then record_bytes m else 0) \<le> rt_scannedBytes t'
     \<and> (r = Some True \<longrightarrow> yield_ok t m \<and> rt_next t' (rm_partition m) = Some (rm_offset m + 1))"
proof -
  have doms: "dom (rt_next t) = dom (rt_next t')"
    using inv accept_inv [OF inv a] accept_plan [OF a] by (simp add: tracker_inv_def base_inv_def)
  show ?thesis
    using a
  proof (cases rule: record_cases)
    case (past_end e n)
    have base: "base_inv t" using inv by (simp add: tracker_inv_def)
    have "rm_partition m \<in> dom (rt_next t)" using past_end(3) by blast
    then have "rm_partition m \<in> fst ` set (pl_startOffsets (rt_plan t))" using base by (simp add: base_inv_def)
    then obtain s where s: "(rm_partition m, s) \<in> set (pl_startOffsets (rt_plan t))" by auto
    have "n \<le> e" using base_bounds [OF base s past_end(2,3)] by simp
    then show ?thesis using doms past_end by (auto simp: next_le_def)
  next
    case (taken e n match unavailable)
    have "yield_ok t m" if match
      using taken judge_in_time [of rv rt jp iso_date "mark_advanced t" m prepared unavailable] that by (auto simp: yield_ok_def)
    then show ?thesis
      using doms taken record_bytes_nonneg [of m] by (auto simp: next_le_def count_unavailable_def)
  qed (use doms in \<open>auto simp: next_le_def\<close>)
qed

lemma run_yields:
  assumes "tracker_inv t" and "run_tracker rv rt jp iso_date t ops = (u, ys)"
  shows "(\<forall>m \<in> set ys. yield_ok t m) \<and> sorted_wrt later ys
     \<and> rt_matchedRecords u = rt_matchedRecords t + int (length ys)
     \<and> rt_scannedBytes t + sum_list (map record_bytes ys) \<le> rt_scannedBytes u"
  using assms
proof (induction ops arbitrary: t ys)
  case (Cons op ops)
  show ?case
  proof (cases op)
    case (Accept m prepared)
    obtain t' r where a: "accept_record rv rt jp iso_date t m prepared = (t', r)" by fastforce
    obtain zs where z: "run_tracker rv rt jp iso_date t' ops = (u, zs)" "ys = (if r = Some True then m # zs else zs)"
      using Cons.prems(2) Accept a by (auto split: prod.splits)
    note ih' = Cons.IH [OF accept_inv [OF Cons.prems(1) a] z(1)]
    note progress = accept_progress [OF Cons.prems(1) a]
    have from_start: "\<forall>k \<in> set zs. yield_ok t k" using ih' progress yield_ok_back by blast
    have ahead: "later m k" if "k \<in> set zs" "r = Some True" for k
    proof -
      have "yield_ok t' k" using ih' that by blast
      then show ?thesis using progress that(2) by (auto simp: yield_ok_def later_def)
    qed
    then show ?thesis using ih' progress z(2) from_start ahead by (auto simp: algebra_simps)
  next
    case (Acknowledge m)
    have same: "yield_ok (acknowledge m t) = yield_ok t" by (simp add: yield_ok_def fun_eq_iff)
    show ?thesis
      using Cons.IH [OF acknowledge_inv [OF Cons.prems(1), of m], of ys] Cons.prems(2) Acknowledge same by simp
  next
    case (Stop r)
    have same: "yield_ok (finish_read (stop_of r) t) = yield_ok t" by (simp add: yield_ok_def fun_eq_iff)
    show ?thesis
      using Cons.IH [OF finish_inv [OF Cons.prems(1), of "stop_of r"], of ys] Cons.prems(2) Stop same by simp
  qed
qed simp

section \<open>Properties\<close>

text \<open>
  C37: The coverage a bounded read reports is always valid. Whatever records arrive and whatever the
  owner acknowledges or stops, the snapshot and the checkpoint are accepted by the coverage parser
  (ordered offsets inside their ranges, consistent counters, a complete range that really is
  complete), and the read stays within 10,000 records, 32 MiB and \<open>maxMessages\<close> matches.
\<close>

theorem coverage_always_valid:
  assumes "tracked b plan" and "new_tracker rv plan = Inr t" and "run_tracker rv rt jp iso_date t ops = (u, ys)"
  shows "parseKafkaReadCoverage (snapshot u) \<and> parseKafkaReadCoverage (checkpoint u)
     \<and> rt_scannedRecords u \<le> query_scan_records \<and> rt_scannedBytes u \<le> query_scan_bytes
     \<and> rt_matchedRecords u \<le> pl_maxMessages plan"
proof -
  have plan: "rt_plan t = plan" using new_tracker_fields [OF assms(2)] by simp
  have inv: "tracker_inv u" and p: "rt_plan u = plan"
    using run_tracker_inv [OF new_tracker_inv [OF assms(1,2)] assms(3)] plan by simp_all
  have base: "base_inv u" using inv by (simp add: tracker_inv_def)
  have tu: "tracked b (rt_plan u)" using assms(1) p by simp
  have "parseKafkaReadCoverage ((snapshot u)\<lparr>cv_reason := rt_reason u\<rparr>)"
    by (rule snapshot_parses [OF tu base]) (use base in \<open>simp add: base_inv_def\<close>)
  then have snap: "parseKafkaReadCoverage (snapshot u)" by (simp add: snapshot_def)
  have "parseKafkaReadCoverage (checkpoint u)"
    by (rule checkpoint_parses [OF inv tu])
  then show ?thesis using snap base p by (simp add: base_inv_def)
qed

text \<open>
  C3: A checkpoint never passes a record its owner has not acknowledged. Every record that was
  yielded and not acknowledged lies in the remaining range of its partition in the checkpoint, so a
  read that resumes from the checkpoint yields it again.
\<close>

theorem unacknowledged_records_are_reread:
  assumes "tracked b plan" and "new_tracker rv plan = Inr t" and "run_tracker rv rt jp iso_date t ops = (u, ys)"
    and "m \<in> set ys" and "rm_identity m \<notin> acknowledged ops"
  shows "covers (checkpoint u) m"
proof -
  have plan: "rt_plan t = plan" using new_tracker_fields [OF assms(2)] by simp
  have "held t {} {}" by (simp add: held_def)
  from run_held [OF _ new_tracker_inv [OF assms(1,2)] this assms(3)] assms(1) plan
  have "held u (acknowledged ops) (set ys)" by simp
  then obtain y where "rt_pending u = Some y" "covers (py_before y) m" using assms(4,5) by (auto simp: held_def)
  then show ?thesis by (simp add: checkpoint_def covers_def)
qed

text \<open>
  C38: A bounded read yields only what was asked for, in order and once. Every yielded record is of
  the requested topic, inside the request's time window and inside its partition's planned range;
  within a partition the offsets strictly increase; and there are at most \<open>maxMessages\<close> of them, of
  at most 32 MiB in all.
\<close>

theorem yields_in_order_once:
  assumes "tracked b plan" and "new_tracker rv plan = Inr t" and "run_tracker rv rt jp iso_date t ops = (u, ys)"
  shows "sorted_wrt later ys \<and> int (length ys) \<le> pl_maxMessages plan
     \<and> sum_list (map record_bytes ys) \<le> query_scan_bytes
     \<and> list_all (\<lambda>m. rm_topic m = rq_topic (pl_request plan) \<and> in_time (rq_mode (pl_request plan)) (rm_timestamp m)
          \<and> (\<exists>s e. range_of plan (rm_partition m) s e \<and> s \<le> rm_offset m \<and> rm_offset m < e)) ys"
proof -
  have f: "rt_plan t = plan" "rt_next t = map_of (pl_startOffsets plan)" using new_tracker_fields [OF assms(2)] by simp_all
  have inv: "tracker_inv t" by (rule new_tracker_inv [OF assms(1,2)])
  note run = run_yields [OF inv assms(3)]
  have "0 \<le> rt_matchedRecords t" "0 \<le> rt_scannedBytes t" using inv by (simp_all add: tracker_inv_def base_inv_def)
  moreover have "base_inv u" "rt_plan u = plan"
    using run_tracker_inv [OF inv assms(3)] f(1) by (simp_all add: tracker_inv_def)
  then have "rt_matchedRecords u \<le> pl_maxMessages plan" "rt_scannedBytes u \<le> query_scan_bytes"
    by (simp_all add: base_inv_def)
  moreover have "list_all (\<lambda>m. rm_topic m = rq_topic (pl_request plan) \<and> in_time (rq_mode (pl_request plan)) (rm_timestamp m)
          \<and> (\<exists>s e. range_of plan (rm_partition m) s e \<and> s \<le> rm_offset m \<and> rm_offset m < e)) ys"
    unfolding list_all_iff
  proof
    fix m assume "m \<in> set ys"
    then have y: "yield_ok t m" using run by blast
    then obtain n e where n: "map_of (pl_startOffsets plan) (rm_partition m) = Some n"
      "end_of plan (rm_partition m) = Some e" "n \<le> rm_offset m" "rm_offset m < e"
      using f by (auto simp: yield_ok_def)
    then have "range_of plan (rm_partition m) n e" by (auto simp: range_of_def dest: map_of_SomeD)
    then show "rm_topic m = rq_topic (pl_request plan) \<and> in_time (rq_mode (pl_request plan)) (rm_timestamp m)
          \<and> (\<exists>s e. range_of plan (rm_partition m) s e \<and> s \<le> rm_offset m \<and> rm_offset m < e)"
      using y f(1) n(3,4) by (auto simp: yield_ok_def)
  qed
  ultimately show ?thesis using run by auto
qed


text \<open>
  C29: Resuming rereads what was not acknowledged. When a read from a checkpoint of an earlier
  tracker is planned, every record the earlier read yielded without an acknowledgement lies in the
  range the new plan reads of its partition.
\<close>

theorem resumed_plan_rereads:
  assumes "tracked b plan" and "new_tracker rv plan = Inr t" and "run_tracker rv rt jp iso_date t ops = (u, ys)"
    and "m \<in> set ys" and "rm_identity m \<notin> acknowledged ops" and "ck_coverage c = checkpoint u"
    and "resolveKafkaFetchPlan lookup request nowMs (Some c) = Some (Inr plan', n)"
  shows "\<exists>s e. range_of plan' (rm_partition m) s e \<and> s \<le> rm_offset m \<and> rm_offset m < e"
proof -
  have "held t {} {}" by (simp add: held_def)
  from run_held [OF _ new_tracker_inv [OF assms(1,2)] this assms(3)] assms(1) new_tracker_fields [OF assms(2)]
  have "held u (acknowledged ops) (set ys)" by simp
  then obtain y where y: "rt_pending u = Some y" "covers (py_before y) m" using assms(4,5) by (auto simp: held_def)
  then have "covers (checkpoint u) m" by (simp add: checkpoint_def covers_def)
  then obtain pc where pc: "pc \<in> set (cv_partitions (ck_coverage c))" "pc_partition pc = rm_partition m"
    "pc_nextOffset pc \<le> rm_offset m" "rm_offset m < pc_endOffset pc"
    using assms(6) by (auto simp: covers_def)
  obtain b' where r: "resume_plan request b' c = Inr plan'"
    using assms(7) by (auto simp: resolveKafkaFetchPlan_def split: sum.splits)
  have d: "distinct (map pc_partition (cv_partitions (ck_coverage c)))"
    using r by (simp add: resume_plan_result parseKafkaReadCoverage_def)
  have "map_of (map (\<lambda>c. (pc_partition c, pc_endOffset c)) (cv_partitions (ck_coverage c))) (rm_partition m) = Some (pc_endOffset pc)"
    using pc(1,2) d by (intro map_of_is_SomeI) (auto simp: comp_def image_iff intro!: bexI [of _ pc])
  moreover have "(rm_partition m, pc_nextOffset pc) \<in> set (pl_startOffsets plan')"
    using r pc(1,2) by (auto simp: resume_plan_result image_iff intro!: bexI [of _ pc])
  ultimately have "range_of plan' (rm_partition m) (pc_nextOffset pc) (pc_endOffset pc)"
    using r by (simp add: range_of_def end_of_def resume_plan_result)
  then show ?thesis using pc(3,4) by blast
qed

section \<open>Witnesses\<close>

text \<open>A read of the records 5 and 6 of one partition; both are yielded, the first is acknowledged.\<close>

definition small_plan :: fetch_plan where
  "small_plan = \<lparr>pl_continuous = False, pl_endOffsets = Some [(0, 8)], pl_maxMessages = 4,
     pl_request = sample_request Earliest None, pl_startOffsets = [(0, 5)]\<rparr>"

definition small_record :: "nat \<Rightarrow> raw_message" where
  "small_record k = \<lparr>rm_identity = k, rm_topic = [], rm_partition = 0, rm_offset = int k, rm_timestamp = 0,
     rm_key = None, rm_value = Some \<lparr>rb_length = 3, rb_text = ''abc''\<rparr>, rm_headers = []\<rparr>"

definition small_ops :: "tracker_op list" where
  "small_ops = [Accept (small_record 5) None, Acknowledge (small_record 5), Accept (small_record 6) None, Stop Cancel]"

definition small_tracker :: "read_reason \<Rightarrow> int \<Rightarrow> int \<Rightarrow> int \<Rightarrow> pending_yield option \<Rightarrow> read_tracker" where
  "small_tracker reason count bytes next pending =
     \<lparr>rt_plan = small_plan, rt_expression = None, rt_reason = reason, rt_scannedRecords = count, rt_scannedBytes = bytes,
      rt_matchedRecords = count, rt_unavailableRecords = 0, rt_next = [0 \<mapsto> next], rt_pending = pending\<rparr>"

lemma small_tracked: "tracked \<lparr>tb_high = [8], tb_low = [5]\<rparr> small_plan"
  by (simp add: tracked_def small_plan_def bounds_ok_def plan_ok_def range_ok_def)

lemma small_new: "new_tracker rv small_plan = Inr (small_tracker Reading 0 0 5 None)"
  by (simp add: new_tracker_def small_plan_def sample_request_def checkRangeComplete_def small_tracker_def fun_eq_iff)

lemma small_accept:
  assumes "0 \<le> next" "next < 7" and "0 \<le> count" "count < 3" "bytes < 1000"
  shows "accept_record rv rt jp iso_date (small_tracker Reading count bytes next None) (small_record (nat next)) None =
     (small_tracker Reading (count + 1) (bytes + 3) (next + 1)
        (Some \<lparr>py_message = small_record (nat next), py_before = snapshot (small_tracker Reading count bytes next None),
               py_advanced = False\<rparr>), Some True)"
  using assms
  by (simp add: accept_record_def small_tracker_def small_plan_def small_record_def finished_def sample_request_def end_of_def
      mark_advanced_def judge_record_def in_time_def accept_in_range_def record_bytes_def length_of_def hold_match_def
      traverse_def checkRangeComplete_def finish_limits_def Let_def fun_eq_iff)

lemma small_run:
  "run_tracker rv rt jp iso_date (small_tracker Reading 0 0 5 None) small_ops =
     (small_tracker Cancelled 2 6 7
        (Some \<lparr>py_message = small_record 6, py_before = snapshot (small_tracker Reading 1 3 6 None), py_advanced = False\<rparr>),
      [small_record 5, small_record 6])"
  using small_accept [of 5 0 0 rv rt jp iso_date] small_accept [of 6 1 3 rv rt jp iso_date]
  by (simp add: small_ops_def acknowledge_def finish_read_def finished_def small_tracker_def small_record_def)

theorem coverage_always_valid_witness:
  "parseKafkaReadCoverage (checkpoint (small_tracker Cancelled 2 6 7
     (Some \<lparr>py_message = small_record 6, py_before = snapshot (small_tracker Reading 1 3 6 None), py_advanced = False\<rparr>)))"
  using coverage_always_valid [OF small_tracked small_new [of "\<lambda>_ _. True"]
      small_run [of "\<lambda>_ _. True" "\<lambda>_ _ _. True" "\<lambda>_. None" "\<lambda>_. None"]] by simp

theorem unacknowledged_records_are_reread_witness:
  "covers (checkpoint (small_tracker Cancelled 2 6 7
     (Some \<lparr>py_message = small_record 6, py_before = snapshot (small_tracker Reading 1 3 6 None), py_advanced = False\<rparr>)))
     (small_record 6)"
proof -
  have "small_record 6 \<in> set [small_record 5, small_record 6]"
    and "rm_identity (small_record 6) \<notin> acknowledged small_ops"
    by (simp_all add: small_ops_def small_record_def)
  from unacknowledged_records_are_reread [OF small_tracked small_new [of "\<lambda>_ _. True"]
      small_run [of "\<lambda>_ _. True" "\<lambda>_ _ _. True" "\<lambda>_. None" "\<lambda>_. None"] this]
  show ?thesis .
qed

theorem yields_in_order_once_witness:
  "sorted_wrt later [small_record 5, small_record 6] \<and> (2::int) \<le> pl_maxMessages small_plan"
  using yields_in_order_once [OF small_tracked small_new [of "\<lambda>_ _. True"]
      small_run [of "\<lambda>_ _. True" "\<lambda>_ _ _. True" "\<lambda>_. None" "\<lambda>_. None"]] by simp

definition small_checkpoint :: read_checkpoint where
  "small_checkpoint = \<lparr>ck_clusterId = ''c'', ck_topicId = ''t'', ck_partitionCount = 1,
     ck_coverage = checkpoint (small_tracker Cancelled 2 6 7
       (Some \<lparr>py_message = small_record 6, py_before = snapshot (small_tracker Reading 1 3 6 None), py_advanced = False\<rparr>))\<rparr>"

lemma small_resume:
  "resolveKafkaFetchPlan (\<lambda>n t. Some [if t = - 2 then 6 else 9]) (sample_request Earliest None) 0 (Some small_checkpoint) =
     Some (Inr \<lparr>pl_continuous = False, pl_endOffsets = Some [(0, 8)], pl_maxMessages = 4,
                pl_request = sample_request Earliest None, pl_startOffsets = [(0, 6)]\<rparr>, 2)"
  by (simp add: resolveKafkaFetchPlan_def loadTopicBounds_def assertOffsetBounds_def resume_plan_def small_checkpoint_def
      checkpoint_def snapshot_def partition_snapshot_def small_tracker_def small_plan_def end_of_def
      parseKafkaReadCoverage_def partition_coverage_ok_def is_safe_integer_def sample_request_def)

theorem resumed_plan_rereads_witness:
  "\<exists>s e. range_of \<lparr>pl_continuous = False, pl_endOffsets = Some [(0, 8)], pl_maxMessages = 4,
        pl_request = sample_request Earliest None, pl_startOffsets = [(0, 6)]\<rparr> 0 s e \<and> s \<le> 6 \<and> 6 < e"
proof -
  have m: "small_record 6 \<in> set [small_record 5, small_record 6]"
    and a: "rm_identity (small_record 6) \<notin> acknowledged small_ops"
    and f: "rm_partition (small_record 6) = 0" "rm_offset (small_record 6) = 6"
    by (simp_all add: small_ops_def small_record_def)
  have c: "ck_coverage small_checkpoint = checkpoint (small_tracker Cancelled 2 6 7
       (Some \<lparr>py_message = small_record 6, py_before = snapshot (small_tracker Reading 1 3 6 None), py_advanced = False\<rparr>))"
    by (simp add: small_checkpoint_def)
  show ?thesis
    using resumed_plan_rereads [OF small_tracked small_new [of "\<lambda>_ _. True"]
      small_run [of "\<lambda>_ _. True" "\<lambda>_ _ _. True" "\<lambda>_. None" "\<lambda>_. None"] m a c small_resume] by (simp add: f)
qed

end
