(* ===== verification/Contract_Values.thy ===== *)
theory Contract_Values
  imports Js_Value "HOL-Library.Monad_Syntax"
begin

text \<open>
  The vocabulary of the contract parsers (\<open>contracts/validation-primitives.ts\<close>) over decoded JSON.
  A member is read as an option, None being \<open>undefined\<close>; a parser that throws
  \<open>HostContractValidationError\<close> (or any other error) is None, so the path and the wording of the
  message are left out. Every parser of the contracts returns a value that renders to JSON it
  accepts again: the locale \<open>contract\<close> states this, and each contract interprets it.
\<close>

type_synonym json_object = "(js_string \<times> json) list"

section \<open>Primitives\<close>

definition check :: "bool \<Rightarrow> unit option" where
  "check b = (if b then Some () else None)"

definition record_value :: "json option \<Rightarrow> json_object option" where
  "record_value v = (case v of Some (JObj fields) \<Rightarrow> Some fields | _ \<Rightarrow> None)"

definition exactKeys :: "json_object \<Rightarrow> js_string list \<Rightarrow> unit option" where
  "exactKeys fields allowed = check (list_all (\<lambda>(key, v). key \<in> set allowed) fields)"

definition emptyRecord :: "json option \<Rightarrow> unit option" where
  "emptyRecord v = do { fields \<leftarrow> record_value v; exactKeys fields [] }"

definition boundedText :: "json option \<Rightarrow> nat \<Rightarrow> js_string option" where
  "boundedText v maximum =
     (case v of Some (JStr s) \<Rightarrow> if length s > maximum then None else Some s | _ \<Rightarrow> None)"

definition boundedUtf8Text :: "json option \<Rightarrow> int \<Rightarrow> js_string option" where
  "boundedUtf8Text v maximum =
     (case v of Some (JStr s) \<Rightarrow> if utf8_length s > maximum then None else Some s | _ \<Rightarrow> None)"

definition nullableBoundedUtf8Text :: "json option \<Rightarrow> int \<Rightarrow> js_string option option" where
  "nullableBoundedUtf8Text v maximum =
     (if v = Some JNull then Some None else map_option Some (boundedUtf8Text v maximum))"

definition utf8Text :: "json option \<Rightarrow> int \<Rightarrow> js_string option" where
  "utf8Text v maximum =
     do { parsed \<leftarrow> boundedUtf8Text v maximum; check (length parsed \<noteq> 0); Some parsed }"

definition plain_text :: "json option \<Rightarrow> nat \<Rightarrow> js_string option" where
  "plain_text v maximum =
     do { parsed \<leftarrow> boundedText v maximum; check (length parsed \<noteq> 0); Some parsed }"

definition nullable :: "(json option \<Rightarrow> 'a option) \<Rightarrow> json option \<Rightarrow> 'a option option" where
  "nullable parse v = (if v = Some JNull then Some None else map_option Some (parse v))"

definition truth :: "json option \<Rightarrow> bool option" where
  "truth v = (case v of Some (JBool b) \<Rightarrow> Some b | _ \<Rightarrow> None)"

text \<open>The integer a number stands for (\<open>-0\<close> is 0), if it stands for one.\<close>

fun num_integer :: "js_num \<Rightarrow> int option" where
  "num_integer (Finite neg m e) =
     (if e \<ge> 0 then Some (signed neg (m * 2 ^ nat e))
      else if m mod 2 ^ nat (- e) = 0 then Some (signed neg (m div 2 ^ nat (- e))) else None)"
| "num_integer _ = None"

definition safeNonNegative :: "json option \<Rightarrow> int option" where
  "safeNonNegative v =
     (case v of
        Some (JNum x) \<Rightarrow>
          (case num_integer x of
             Some n \<Rightarrow> if is_safe_integer n \<and> 0 \<le> n then Some n else None
           | None \<Rightarrow> None)
      | _ \<Rightarrow> None)"

definition positiveBoundedInteger :: "json option \<Rightarrow> int \<Rightarrow> int option" where
  "positiveBoundedInteger v maximum =
     do { parsed \<leftarrow> safeNonNegative v; check (1 \<le> parsed \<and> parsed \<le> maximum); Some parsed }"

definition declaredValue :: "(js_string \<times> 'a) list \<Rightarrow> json option \<Rightarrow> 'a option" where
  "declaredValue declarations v = (case v of Some (JStr s) \<Rightarrow> map_of declarations s | _ \<Rightarrow> None)"

definition parse_all :: "(json option \<Rightarrow> 'a option) \<Rightarrow> json list \<Rightarrow> 'a list option" where
  "parse_all parse vs = those (map (\<lambda>v. parse (Some v)) vs)"

definition array_value :: "json option \<Rightarrow> json list option" where
  "array_value v = (case v of Some (JArr vs) \<Rightarrow> Some vs | _ \<Rightarrow> None)"

definition parseBoundedBrokers :: "json option \<Rightarrow> nat \<Rightarrow> nat \<Rightarrow> js_string list option" where
  "parseBoundedBrokers v maximumItems maximumCharacters =
     do { vs \<leftarrow> array_value v;
          check (length vs \<noteq> 0 \<and> length vs \<le> maximumItems);
          parse_all (\<lambda>broker. plain_text broker maximumCharacters) vs }"

definition optionalText :: "json_object \<Rightarrow> js_string \<Rightarrow> nat \<Rightarrow> js_string option option" where
  "optionalText fields key maximum =
     (case map_of fields key of None \<Rightarrow> Some None | Some v \<Rightarrow> map_option Some (plain_text (Some v) maximum))"

section \<open>Rendering\<close>

definition int_json :: "int \<Rightarrow> json" where
  "int_json n = JNum (num_of_int n)"

definition nullable_json :: "('a \<Rightarrow> json) \<Rightarrow> 'a option \<Rightarrow> json" where
  "nullable_json render v = (case v of None \<Rightarrow> JNull | Some x \<Rightarrow> render x)"

text \<open>A member that is left out when it is undefined.\<close>

definition optional_member :: "js_string \<Rightarrow> ('a \<Rightarrow> json) \<Rightarrow> 'a option \<Rightarrow> json_object" where
  "optional_member key render v = (case v of None \<Rightarrow> [] | Some x \<Rightarrow> [(key, render x)])"

text \<open>The UTF-8 bytes of \<open>JSON.stringify\<close>.\<close>

fun json_bytes :: "json \<Rightarrow> int" where
  "json_bytes JNull = 4"
| "json_bytes (JBool b) = (if b then 4 else 5)"
| "json_bytes (JNum n) = (if is_finite n then int (length (num_string n)) else 4)"
| "json_bytes (JStr s) = json_string_bytes s"
| "json_bytes (JArr vs) = 2 + sum_list (map json_bytes vs) + max 0 (int (length vs) - 1)"
| "json_bytes (JObj fs) = 2 + sum_list (map (\<lambda>(k, v). json_string_bytes k + 1 + json_bytes v) fs)
     + max 0 (int (length fs) - 1)"

section \<open>Integers survive rendering\<close>

lemma odd_part_value: "odd_part m e = (m', e') \<Longrightarrow> 0 < m \<Longrightarrow> e \<le> e' \<and> m = m' * 2 ^ nat (e' - e)"
proof (induction m e arbitrary: m' e' rule: odd_part.induct)
  case (1 m e)
  show ?case
  proof (cases "even m")
    case False
    then show ?thesis using 1(2,3) by (subst (asm) odd_part.simps) auto
  next
    case True
    then have o: "odd_part (m div 2) (e + 1) = (m', e')" using 1(2,3) by (subst (asm) odd_part.simps) auto
    have "0 < m div 2" using True 1(3) by (auto elim: evenE)
    from 1(1) [OF _ True o this] 1(3) have ih: "e + 1 \<le> e'" "m div 2 = m' * 2 ^ nat (e' - (e + 1))" by auto
    have "nat (e' - e) = Suc (nat (e' - (e + 1)))" using ih(1) by linarith
    moreover have "m = 2 * (m div 2)" using True by simp
    ultimately show ?thesis using ih by simp
  qed
qed

lemma round_half_even_exact: "d dvd n \<Longrightarrow> 0 < d \<Longrightarrow> round_half_even n d = n div d"
  by (auto simp: round_half_even_def Let_def)


lemma bit_length_bounds: "0 < n \<Longrightarrow> 0 < bit_length n \<and> 2 ^ (bit_length n - 1) \<le> n \<and> n < 2 ^ bit_length n"
proof (induction n rule: bit_length.induct)
  case (1 n)
  show ?case
  proof (cases "n div 2 = 0")
    case True
    then have "n = 1" using 1(2) by simp
    moreover have "bit_length 1 = 1" by (subst bit_length.simps) (simp add: bit_length.simps [of 0])
    ultimately show ?thesis by simp
  next
    case False
    then have ih: "0 < bit_length (n div 2)" "2 ^ (bit_length (n div 2) - 1) \<le> n div 2" "n div 2 < 2 ^ bit_length (n div 2)"
      using 1 by auto
    have b: "bit_length n = Suc (bit_length (n div 2))" using 1(2) by (subst bit_length.simps) simp
    have "(2::nat) ^ bit_length (n div 2) = 2 * 2 ^ (bit_length (n div 2) - 1)"
      using ih(1) by (metis Suc_diff_1 power_Suc)
    moreover have "n = 2 * (n div 2) + n mod 2" "n mod 2 < 2" by simp_all
    ultimately have "2 ^ bit_length (n div 2) \<le> n" "n < 2 * 2 ^ bit_length (n div 2)"
      using ih(2,3) by linarith+
    then show ?thesis using b by simp
  qed
qed

lemma bit_length_le: "0 < n \<Longrightarrow> n < 2 ^ k \<Longrightarrow> bit_length n \<le> k"
proof (rule ccontr)
  assume n: "0 < n" "n < 2 ^ k" and "\<not> bit_length n \<le> k"
  then have "(2::nat) ^ k \<le> 2 ^ (bit_length n - 1)" by (intro power_increasing) auto
  then show False using bit_length_bounds [OF n(1)] n(2) by linarith
qed

lemma scaled_value:
  assumes "odd_part (a * 2 ^ nat (- e)) e = (m, f)" and "e \<le> 0" and "0 < a"
  shows "num_integer (Finite neg m f) = Some (signed neg a)"
proof -
  have v: "e \<le> f" "a * 2 ^ nat (- e) = m * 2 ^ nat (f - e)" using odd_part_value [OF assms(1)] assms(3) by auto
  show ?thesis
  proof (cases "f \<ge> 0")
    case True
    then have "nat (f - e) = nat f + nat (- e)" using assms(2) by linarith
    then have "a = m * 2 ^ nat f" using v(2) by (simp add: power_add)
    then show ?thesis using True by simp
  next
    case False
    then have "nat (- e) = nat (- f) + nat (f - e)" using v(1) by linarith
    then have "m = a * 2 ^ nat (- f)" using v(2) by (simp add: power_add)
    then show ?thesis using False by simp
  qed
qed

lemma round_half_even_one [simp]: "round_half_even n (Suc 0) = n"
  by (simp add: round_half_even_def)

lemma num_of_int_integer:
  assumes "\<bar>n\<bar> \<le> max_safe_integer"
  shows "num_integer (num_of_int n) = Some n"
proof (cases "n = 0")
  case True
  then show ?thesis by (simp add: num_of_int_def round_binary64_def signed_def)
next
  case False
  define a where "a = nat \<bar>n\<bar>"
  have a: "0 < a" "a < 2 ^ 53" using assms False by (simp_all add: a_def)
  have b: "0 < bit_length a" "bit_length a \<le> 53" "2 ^ (bit_length a - 1) \<le> a"
    using bit_length_bounds [OF a(1)] bit_length_le [OF a] by simp_all
  have one: "bit_length 1 = 1" by (subst bit_length.simps) (simp add: bit_length.simps [of 0])
  define e where "e = int (bit_length a) - 53"
  have k: "nat (int (bit_length a) - 1) = bit_length a - 1" by simp
  have e0: "e \<le> 0" "max (int (bit_length a) - 1 - 52) (- 1074) = e" using b(1,2) by (simp_all add: e_def)
  have small: "\<not> (e \<ge> 0 \<and> (2::nat) ^ 1024 \<le> a * 2 ^ nat (- e) * 2 ^ nat e)"
  proof
    assume large: "e \<ge> 0 \<and> (2::nat) ^ 1024 \<le> a * 2 ^ nat (- e) * 2 ^ nat e"
    then have "e = 0" using e0(1) by simp
    then have "(2::nat) ^ 1024 \<le> a" using large by (simp del: power_numeral)
    moreover have "(2::nat) ^ 53 \<le> 2 ^ 1024" by (rule power_increasing) simp_all
    ultimately show False using a(2) by linarith
  qed
  have "round_binary64 (n < 0) a 1 = (let (m', e') = odd_part (a * 2 ^ nat (- e)) e in Finite (n < 0) m' e')"
    unfolding round_binary64_def Let_def one
    using a(1) b e0 small k by (auto simp: one)
  then have "num_integer (num_of_int n) = Some (signed (n < 0) a)"
    using scaled_value [OF _ e0(1) a(1)] by (cases "odd_part (a * 2 ^ nat (- e)) e") (simp add: num_of_int_def a_def)
  then show ?thesis by (simp add: signed_def a_def)
qed


section \<open>Contracts\<close>

text \<open>
  A contract parser returns a value whose rendering it parses back to the same value, and no value
  renders to null, which the nullable members use.
\<close>

locale contract =
  fixes parse :: "json option \<Rightarrow> 'a option"
    and render :: "'a \<Rightarrow> json"
  assumes stable: "parse v = Some x \<Longrightarrow> parse (Some (render x)) = Some x"
    and not_null: "render x \<noteq> JNull"
begin

lemma nullable_stable: "nullable parse v = Some y \<Longrightarrow> nullable parse (Some (nullable_json render y)) = Some y"
  using stable not_null by (auto simp: nullable_def nullable_json_def split: if_splits option.splits)

lemma all_stable: "parse_all parse vs = Some xs \<Longrightarrow> parse_all parse (map render xs) = Some xs"
proof (induction vs arbitrary: xs)
  case (Cons v vs)
  then obtain y ys where y: "parse (Some v) = Some y" "parse_all parse vs = Some ys" "xs = y # ys"
    by (auto simp: parse_all_def split: option.splits)
  then show ?case using stable [OF y(1)] Cons.IH [OF y(2)] by (simp add: parse_all_def)
qed (simp add: parse_all_def)

lemma all_length: "parse_all parse vs = Some xs \<Longrightarrow> length xs = length vs"
  by (induction vs arbitrary: xs) (auto simp: parse_all_def split: option.splits)

lemma all_parsed: "parse_all parse vs = Some xs \<Longrightarrow> x \<in> set xs \<Longrightarrow> \<exists>v. parse (Some v) = Some x"
  by (induction vs arbitrary: xs) (auto simp: parse_all_def split: option.splits)

end

text \<open>
  Of some contracts the rendering is accepted only when it reads back as the value it came from.
\<close>

locale exact_contract = contract +
  assumes exact: "parse (Some (render x)) = Some y \<Longrightarrow> y = x"
begin

lemma nullable_exact: "nullable parse (Some (nullable_json render x)) = Some y \<Longrightarrow> y = x"
  using exact not_null by (cases x) (auto simp: nullable_def nullable_json_def)

lemma all_exact: "parse_all parse (map render xs) = Some ys \<Longrightarrow> ys = xs"
proof (induction xs arbitrary: ys)
  case (Cons x xs)
  then show ?case using exact by (auto simp: parse_all_def split: option.splits)
qed (simp add: parse_all_def)

end

named_theorems contract_simps \<open>reading members back from rendered objects\<close>

lemma check_Some [simp]: "check b = Some u \<longleftrightarrow> b"
  by (simp add: check_def)

lemma exactKeys_Some [simp]: "exactKeys fields ks = Some u \<longleftrightarrow> list_all (\<lambda>(k, v). k \<in> set ks) fields"
  by (simp add: exactKeys_def)

lemmas [contract_simps] = bind_eq_Some_conv

lemma record_value_JObj [simp]: "record_value (Some (JObj fields)) = Some fields"
  by (simp add: record_value_def)

lemma array_value_JArr [simp]: "array_value (Some (JArr vs)) = Some vs"
  by (simp add: array_value_def)

lemma plain_text_Some [contract_simps]: "plain_text v n = Some s \<longleftrightarrow> v = Some (JStr s) \<and> length s \<le> n \<and> s \<noteq> []"
  by (auto simp: plain_text_def boundedText_def bind_eq_Some_conv split: option.splits json.splits)

lemma boundedText_Some [contract_simps]: "boundedText v n = Some s \<longleftrightarrow> v = Some (JStr s) \<and> length s \<le> n"
  by (auto simp: boundedText_def split: option.splits json.splits)

lemma truth_Some [contract_simps]: "truth v = Some b \<longleftrightarrow> v = Some (JBool b)"
  by (auto simp: truth_def split: option.splits json.splits)

lemma safeNonNegative_bounds: "safeNonNegative v = Some n \<Longrightarrow> 0 \<le> n \<and> n \<le> max_safe_integer"
  by (auto simp: safeNonNegative_def is_safe_integer_def split: option.splits json.splits if_splits)

lemma safeNonNegative_int: "0 \<le> n \<Longrightarrow> n \<le> max_safe_integer \<Longrightarrow> safeNonNegative (Some (int_json n)) = Some n"
  by (simp add: safeNonNegative_def int_json_def num_of_int_integer is_safe_integer_def)

lemma safeNonNegative_stable: "safeNonNegative v = Some n \<Longrightarrow> safeNonNegative (Some (int_json n)) = Some n"
  using safeNonNegative_bounds safeNonNegative_int by blast

lemma int_json_not_null [simp]: "int_json n \<noteq> JNull"
  by (simp add: int_json_def)

lemma positiveBoundedInteger_Some [contract_simps]:
  "positiveBoundedInteger v m = Some n \<longleftrightarrow> safeNonNegative v = Some n \<and> 1 \<le> n \<and> n \<le> m"
  by (auto simp: positiveBoundedInteger_def bind_eq_Some_conv)

interpretation texts: contract "\<lambda>v. plain_text v n" JStr for n
  by unfold_locales (auto simp: plain_text_Some)

interpretation bounded: contract "\<lambda>v. boundedText v n" JStr for n
  by unfold_locales (auto simp: boundedText_Some)

interpretation flags: contract truth JBool
  by unfold_locales (auto simp: truth_Some)

interpretation naturals: contract safeNonNegative int_json
  by unfold_locales (auto simp: safeNonNegative_stable)

interpretation positives: contract "\<lambda>v. positiveBoundedInteger v m" int_json for m
  by unfold_locales (auto simp: positiveBoundedInteger_Some safeNonNegative_stable)

text \<open>A declared value renders to the text it is declared with.\<close>

definition declared_text :: "(js_string \<times> 'a) list \<Rightarrow> 'a \<Rightarrow> js_string" where
  "declared_text declarations x =
     (case map_of (map prod.swap declarations) x of Some s \<Rightarrow> s | None \<Rightarrow> [])"

definition declared_json :: "(js_string \<times> 'a) list \<Rightarrow> 'a \<Rightarrow> json" where
  "declared_json declarations x = JStr (declared_text declarations x)"

lemma declared_stable:
  assumes "distinct (map snd declarations)" and "distinct (map fst declarations)"
    and "declaredValue declarations v = Some x"
  shows "declaredValue declarations (Some (declared_json declarations x)) = Some x"
proof -
  obtain s where s: "map_of declarations s = Some x" using assms(3) by (auto simp: declaredValue_def split: option.splits json.splits)
  then have "(x, s) \<in> set (map prod.swap declarations)" by (force dest: map_of_SomeD)
  moreover have "distinct (map fst (map prod.swap declarations))" using assms(1) by (simp add: comp_def)
  ultimately have "map_of (map prod.swap declarations) x = Some s" by simp
  then show ?thesis using s by (simp add: declaredValue_def declared_json_def declared_text_def)
qed

end
