(* ===== verification/Record_Contracts.thy ===== *)
theory Record_Contracts
  imports Contract_Values Message_Limits
begin

text \<open>
  Complete records and reviewed writes at the contract boundary: canonical Base64 and original
  records (\<open>contracts/record-bytes.ts\<close>), offsets (\<open>contracts/offset-reset.ts\<close>), write inputs and
  outcomes (\<open>contracts/reviewed-writes.ts\<close>). Bytes are natural numbers below 256.
\<close>

section \<open>Base64\<close>

definition base64_alphabet :: js_string where
  "base64_alphabet = ''ABCDEFGHIJKLMNOPQRSTUVWXYZabcdefghijklmnopqrstuvwxyz0123456789+/''"

definition base64_char :: "nat \<Rightarrow> char" where
  "base64_char n = base64_alphabet ! n"

fun position :: "char \<Rightarrow> js_string \<Rightarrow> nat option" where
  "position c [] = None"
| "position c (d # ds) = (if c = d then Some 0 else map_option Suc (position c ds))"

definition base64_value :: "char \<Rightarrow> nat option" where
  "base64_value c = position c base64_alphabet"

fun btoa :: "nat list \<Rightarrow> js_string" where
  "btoa [] = []"
| "btoa [a] = [base64_char (a div 4), base64_char (a mod 4 * 16), CHR ''='', CHR ''='']"
| "btoa [a, b] = [base64_char (a div 4), base64_char (a mod 4 * 16 + b div 16), base64_char (b mod 16 * 4), CHR ''='']"
| "btoa (a # b # c # bytes) =
     base64_char (a div 4) # base64_char (a mod 4 * 16 + b div 16) # base64_char (b mod 16 * 4 + c div 64)
     # base64_char (c mod 64) # btoa bytes"

text \<open>
  \<open>atob\<close>: ASCII whitespace is dropped, up to two padding characters of a text of full length are
  dropped, then the sextets are decoded and the left-over bits of the last group ignored.
\<close>

definition is_ascii_space :: "char \<Rightarrow> bool" where
  "is_ascii_space c \<longleftrightarrow> (of_char c :: nat) \<in> {9, 10, 12, 13, 32}"

definition strip_padding :: "js_string \<Rightarrow> js_string" where
  "strip_padding s =
     (if length s mod 4 = 0 \<and> s \<noteq> []
      then if last s = CHR ''=''
           then if butlast s \<noteq> [] \<and> last (butlast s) = CHR ''='' then butlast (butlast s) else butlast s
           else s
      else s)"

fun decode_sextets :: "nat list \<Rightarrow> nat list" where
  "decode_sextets (a # b # c # d # rest) =
     (a * 4 + b div 16) # (b mod 16 * 16 + c div 4) # (c mod 4 * 64 + d) # decode_sextets rest"
| "decode_sextets [a, b, c] = [a * 4 + b div 16, b mod 16 * 16 + c div 4]"
| "decode_sextets [a, b] = [a * 4 + b div 16]"
| "decode_sextets _ = []"

definition atob :: "js_string \<Rightarrow> nat list option" where
  "atob s =
     (let u = strip_padding (filter (\<lambda>c. \<not> is_ascii_space c) s)
      in if length u mod 4 = 1 then None else map_option decode_sextets (those (map base64_value u)))"

definition ends_with :: "js_string \<Rightarrow> js_string \<Rightarrow> bool" where
  "ends_with s t \<longleftrightarrow> length t \<le> length s \<and> drop (length s - length t) s = t"

definition base64ByteLength :: "js_string option \<Rightarrow> int" where
  "base64ByteLength v =
     (case v of None \<Rightarrow> 0
      | Some s \<Rightarrow> int (length s) div 4 * 3 - (if ends_with s ''=='' then 2 else if ends_with s ''='' then 1 else 0))"

definition parseRecordBase64 :: "json option \<Rightarrow> nat \<Rightarrow> js_string option" where
  "parseRecordBase64 v maximumBytes =
     do { parsed \<leftarrow> boundedText v ((maximumBytes + 2) div 3 * 4);
          decoded \<leftarrow> atob parsed;
          check (length decoded \<le> maximumBytes \<and> btoa decoded = parsed);
          Some parsed }"

section \<open>Original records\<close>

abbreviation original_bytes :: nat where "original_bytes \<equiv> 256 * 1024"
abbreviation original_headers :: nat where "original_headers \<equiv> 128"
abbreviation header_key_bytes :: nat where "header_key_bytes \<equiv> 512"
abbreviation header_value_bytes :: nat where "header_value_bytes \<equiv> 8192"

definition sameKafkaCompleteRecord :: "complete_record \<Rightarrow> complete_record \<Rightarrow> bool" where
  "sameKafkaCompleteRecord l r \<longleftrightarrow>
     complete_key l = complete_key r \<and> complete_value l = complete_value r
     \<and> length (complete_headers l) = length (complete_headers r)
     \<and> list_all (\<lambda>(h, k). header_key h = header_key k \<and> header_value h = header_value k)
         (zip (complete_headers l) (complete_headers r))"

definition kafkaOriginalRecordByteLength :: "complete_record \<Rightarrow> int" where
  "kafkaOriginalRecordByteLength r =
     base64ByteLength (complete_key r) + base64ByteLength (complete_value r)
     + sum_list (map (\<lambda>h. base64ByteLength (Some (header_key h)) + base64ByteLength (header_value h)) (complete_headers r))"

definition parse_header :: "json option \<Rightarrow> header_bytes option" where
  "parse_header v =
     do { header \<leftarrow> record_value v;
          exactKeys header [''key'', ''value''];
          key \<leftarrow> parseRecordBase64 (map_of header ''key'') header_key_bytes;
          val \<leftarrow> nullable (\<lambda>v. parseRecordBase64 v header_value_bytes) (map_of header ''value'');
          Some \<lparr>header_key = key, header_value = val\<rparr> }"

definition unavailable_reasons :: "(js_string \<times> unavailable_reason) list" where
  "unavailable_reasons = [(''size-limit'', Size_Limit), (''masked'', Masked), (''not-captured'', Not_Captured)]"

definition parse_complete :: "json_object \<Rightarrow> complete_record option" where
  "parse_complete input =
     do { exactKeys input [''state'', ''encoding'', ''key'', ''value'', ''headers''];
          check (map_of input ''state'' = Some (JStr ''complete'') \<and> map_of input ''encoding'' = Some (JStr ''base64''));
          headers \<leftarrow> array_value (map_of input ''headers'');
          check (length headers \<le> original_headers);
          key \<leftarrow> nullable (\<lambda>v. parseRecordBase64 v original_bytes) (map_of input ''key'');
          val \<leftarrow> nullable (\<lambda>v. parseRecordBase64 v original_bytes) (map_of input ''value'');
          parsed \<leftarrow> parse_all parse_header headers;
          check (kafkaOriginalRecordByteLength \<lparr>complete_key = key, complete_value = val, complete_headers = parsed\<rparr>
                 \<le> int original_bytes);
          Some \<lparr>complete_key = key, complete_value = val, complete_headers = parsed\<rparr> }"

definition parseKafkaOriginalRecord :: "json option \<Rightarrow> original_record option" where
  "parseKafkaOriginalRecord v =
     do { input \<leftarrow> record_value v;
          if map_of input ''state'' = Some (JStr ''unavailable'')
          then do { exactKeys input [''state'', ''reason''];
                    reason \<leftarrow> declaredValue unavailable_reasons (map_of input ''reason'');
                    Some (Unavailable reason) }
          else map_option Complete (parse_complete input) }"

text \<open>A record parsed as an original and complete, as its callers require.\<close>

definition parse_complete_record :: "json option \<Rightarrow> int \<Rightarrow> complete_record option" where
  "parse_complete_record v maximum =
     do { original \<leftarrow> parseKafkaOriginalRecord v;
          case original of
            Complete r \<Rightarrow> if kafkaOriginalRecordByteLength r > maximum then None else Some r
          | Unavailable _ \<Rightarrow> None }"

definition header_bytes_json :: "header_bytes \<Rightarrow> json" where
  "header_bytes_json h = JObj [(''key'', JStr (header_key h)), (''value'', nullable_json JStr (header_value h))]"

definition complete_json :: "complete_record \<Rightarrow> json" where
  "complete_json r = JObj [(''state'', JStr ''complete''), (''encoding'', JStr ''base64''),
     (''key'', nullable_json JStr (complete_key r)), (''value'', nullable_json JStr (complete_value r)),
     (''headers'', JArr (map header_bytes_json (complete_headers r)))]"

section \<open>Offsets and topics\<close>

definition decimal_digit :: "char \<Rightarrow> bool" where
  "decimal_digit c \<longleftrightarrow> 48 \<le> (of_char c :: nat) \<and> (of_char c :: nat) \<le> 57"

definition decimal_text :: "js_string \<Rightarrow> bool" where
  "decimal_text s \<longleftrightarrow> s = ''0'' \<or> (s \<noteq> [] \<and> hd s \<noteq> CHR ''0'' \<and> list_all decimal_digit s)"

definition decimal_value :: "js_string \<Rightarrow> nat" where
  "decimal_value s = foldl (\<lambda>n c. n * 10 + (of_char c - 48)) 0 s"

definition offsetPosition :: "json option \<Rightarrow> js_string option" where
  "offsetPosition v =
     do { s \<leftarrow> plain_text v 19;
          check (decimal_text s \<and> decimal_value s \<le> 9223372036854775807);
          Some s }"

definition topic_char :: "char \<Rightarrow> bool" where
  "topic_char c \<longleftrightarrow> (let n = (of_char c :: nat) in
     (97 \<le> n \<and> n \<le> 122) \<or> (65 \<le> n \<and> n \<le> 90) \<or> (48 \<le> n \<and> n \<le> 57) \<or> n \<in> {45, 46, 95})"

definition topic_name :: "json option \<Rightarrow> js_string option" where
  "topic_name v =
     do { topic \<leftarrow> plain_text v 249;
          check (list_all topic_char topic \<and> topic \<noteq> ''.'' \<and> topic \<noteq> ''..'');
          Some topic }"

section \<open>Reviewed writes\<close>

record config_entry =
  cfg_name :: js_string
  cfg_value :: js_string

datatype write_input =
    Record_Write "js_string option" js_string int complete_record
      \<comment> \<open>timestamp, topic, partition, record\<close>
  | Topic_Write js_string int int "config_entry list"
      \<comment> \<open>topic, partitions, replication factor, configs\<close>

record write_review =
  wr_planId :: js_string
  wr_connectionName :: js_string
  wr_expiresAt :: js_string
  wr_input :: write_input

datatype outcome_state = Acknowledged | Rejected | Unknown

datatype verification = Verified | Verification_Unavailable | Not_Applicable

record write_receipt =
  rcp_topic :: js_string
  rcp_partition :: int
  rcp_offset :: js_string

record write_outcome =
  out_state :: outcome_state
  out_detail :: js_string
  out_receipt :: "write_receipt option"
  out_verification :: verification

record write_destination =
  dst_clusterId :: js_string
  dst_topicId :: js_string
  dst_partitions :: int

definition outcome_states :: "(js_string \<times> outcome_state) list" where
  "outcome_states = [(''acknowledged'', Acknowledged), (''rejected'', Rejected), (''unknown'', Unknown)]"

definition verifications :: "(js_string \<times> verification) list" where
  "verifications = [(''verified'', Verified), (''unavailable'', Verification_Unavailable), (''not-applicable'', Not_Applicable)]"

definition parse_config :: "json option \<Rightarrow> config_entry option" where
  "parse_config v =
     do { entry \<leftarrow> record_value v;
          exactKeys entry [''name'', ''value''];
          name \<leftarrow> plain_text (map_of entry ''name'') 128;
          val \<leftarrow> boundedText (map_of entry ''value'') 1024;
          Some \<lparr>cfg_name = name, cfg_value = val\<rparr> }"

text \<open>A member that may be undefined.\<close>

definition optional_value :: "(json option \<Rightarrow> 'a option) \<Rightarrow> json option \<Rightarrow> 'a option option" where
  "optional_value parse v = (case v of None \<Rightarrow> Some None | Some w \<Rightarrow> map_option Some (parse (Some w)))"

definition parseKafkaWriteInput :: "json option \<Rightarrow> write_input option" where
  "parseKafkaWriteInput v =
     do { input \<leftarrow> record_value v;
          topic \<leftarrow> topic_name (map_of input ''topic'');
          if map_of input ''kind'' = Some (JStr ''record'')
          then do { exactKeys input [''kind'', ''topic'', ''partition'', ''record'', ''timestamp''];
                    bytes \<leftarrow> parse_complete_record (map_of input ''record'') 65536;
                    timestamp \<leftarrow> optional_value offsetPosition (map_of input ''timestamp'');
                    part \<leftarrow> safeNonNegative (map_of input ''partition'');
                    Some (Record_Write timestamp topic part bytes) }
          else do { check (map_of input ''kind'' = Some (JStr ''topic''));
                    exactKeys input [''kind'', ''topic'', ''partitions'', ''replicationFactor'', ''configs''];
                    items \<leftarrow> array_value (map_of input ''configs'');
                    check (length items \<le> 32);
                    configs \<leftarrow> parse_all parse_config items;
                    check (distinct (map cfg_name configs));
                    partitions \<leftarrow> positiveBoundedInteger (map_of input ''partitions'') 1000;
                    replication \<leftarrow> positiveBoundedInteger (map_of input ''replicationFactor'') 32;
                    Some (Topic_Write topic partitions replication configs) } }"

definition parseKafkaWriteReview :: "json option \<Rightarrow> write_review option" where
  "parseKafkaWriteReview v =
     do { input \<leftarrow> record_value v;
          exactKeys input [''planId'', ''connectionName'', ''expiresAt'', ''input''];
          planId \<leftarrow> plain_text (map_of input ''planId'') 128;
          connectionName \<leftarrow> plain_text (map_of input ''connectionName'') 256;
          expiresAt \<leftarrow> plain_text (map_of input ''expiresAt'') 64;
          write \<leftarrow> parseKafkaWriteInput (map_of input ''input'');
          Some \<lparr>wr_planId = planId, wr_connectionName = connectionName, wr_expiresAt = expiresAt, wr_input = write\<rparr> }"

definition parse_receipt :: "json option \<Rightarrow> write_receipt option" where
  "parse_receipt v =
     do { receipt \<leftarrow> record_value v;
          exactKeys receipt [''topic'', ''partition'', ''offset''];
          topic \<leftarrow> plain_text (map_of receipt ''topic'') 249;
          part \<leftarrow> safeNonNegative (map_of receipt ''partition'');
          offset \<leftarrow> plain_text (map_of receipt ''offset'') 32;
          Some \<lparr>rcp_topic = topic, rcp_partition = part, rcp_offset = offset\<rparr> }"

definition parseKafkaWriteOutcome :: "json option \<Rightarrow> write_outcome option" where
  "parseKafkaWriteOutcome v =
     do { input \<leftarrow> record_value v;
          exactKeys input [''state'', ''detail'', ''receipt'', ''verification''];
          receipt \<leftarrow> nullable parse_receipt (map_of input ''receipt'');
          state \<leftarrow> declaredValue outcome_states (map_of input ''state'');
          detail \<leftarrow> plain_text (map_of input ''detail'') 2048;
          verification \<leftarrow> declaredValue verifications (map_of input ''verification'');
          Some \<lparr>out_state = state, out_detail = detail, out_receipt = receipt, out_verification = verification\<rparr> }"

definition receipt_json :: "write_receipt \<Rightarrow> json" where
  "receipt_json r = JObj [(''topic'', JStr (rcp_topic r)), (''partition'', int_json (rcp_partition r)),
     (''offset'', JStr (rcp_offset r))]"

definition outcome_json :: "write_outcome \<Rightarrow> json" where
  "outcome_json r = JObj [(''state'', declared_json outcome_states (out_state r)), (''detail'', JStr (out_detail r)),
     (''receipt'', nullable_json receipt_json (out_receipt r)),
     (''verification'', declared_json verifications (out_verification r))]"

definition original_json :: "original_record \<Rightarrow> json" where
  "original_json r =
     (case r of
        Complete c \<Rightarrow> complete_json c
      | Unavailable reason \<Rightarrow> JObj [(''state'', JStr ''unavailable''), (''reason'', declared_json unavailable_reasons reason)])"

definition config_json :: "config_entry \<Rightarrow> json" where
  "config_json c = JObj [(''name'', JStr (cfg_name c)), (''value'', JStr (cfg_value c))]"

definition write_json :: "write_input \<Rightarrow> json" where
  "write_json w =
     (case w of
        Record_Write timestamp topic part bytes \<Rightarrow>
          JObj ([(''kind'', JStr ''record'')] @ optional_member ''timestamp'' JStr timestamp
            @ [(''topic'', JStr topic), (''partition'', int_json part), (''record'', complete_json bytes)])
      | Topic_Write topic partitions replication configs \<Rightarrow>
          JObj [(''kind'', JStr ''topic''), (''topic'', JStr topic), (''partitions'', int_json partitions),
            (''replicationFactor'', int_json replication), (''configs'', JArr (map config_json configs))])"

section \<open>Records and outcomes are contracts\<close>

lemma parseRecordBase64_Some:
  "parseRecordBase64 v n = Some s \<longleftrightarrow>
     v = Some (JStr s) \<and> length s \<le> (n + 2) div 3 * 4 \<and> (\<exists>bs. atob s = Some bs \<and> length bs \<le> n \<and> btoa bs = s)"
  by (auto simp: parseRecordBase64_def contract_simps)

interpretation base64: contract "\<lambda>v. parseRecordBase64 v n" JStr for n
  by unfold_locales (auto simp: parseRecordBase64_Some)

interpretation offsets: contract offsetPosition JStr
  by unfold_locales (auto simp: offsetPosition_def contract_simps)

interpretation topics: contract topic_name JStr
  by unfold_locales (auto simp: topic_name_def contract_simps)

interpretation headers: contract parse_header header_bytes_json
  by unfold_locales
     (auto simp: parse_header_def header_bytes_json_def contract_simps base64.stable base64.nullable_stable)


lemma declared_stables [contract_simps]:
  "declaredValue outcome_states v = Some s \<Longrightarrow> declaredValue outcome_states (Some (declared_json outcome_states s)) = Some s"
  "declaredValue verifications v = Some t \<Longrightarrow> declaredValue verifications (Some (declared_json verifications t)) = Some t"
  "declaredValue unavailable_reasons v = Some u \<Longrightarrow>
   declaredValue unavailable_reasons (Some (declared_json unavailable_reasons u)) = Some u"
  by (rule declared_stable; simp add: outcome_states_def verifications_def unavailable_reasons_def)+

interpretation configs: contract parse_config config_json
  by unfold_locales (auto simp: parse_config_def config_json_def contract_simps)

interpretation receipts: contract parse_receipt receipt_json
  by unfold_locales (auto simp: parse_receipt_def receipt_json_def contract_simps naturals.stable)

interpretation outcomes: contract parseKafkaWriteOutcome outcome_json
  by unfold_locales
     (auto simp: parseKafkaWriteOutcome_def outcome_json_def contract_simps receipts.nullable_stable)

lemma parse_complete_stable:
  assumes "parse_complete ob = Some r"
  shows "\<exists>fs. complete_json r = JObj fs \<and> parse_complete fs = Some r \<and> map_of fs ''state'' = Some (JStr ''complete'')"
  using assms
  by (auto simp: parse_complete_def complete_json_def contract_simps base64.nullable_stable headers.all_stable
      headers.all_length)

interpretation originals: contract parseKafkaOriginalRecord original_json
proof
  fix v x assume "parseKafkaOriginalRecord v = Some x"
  then obtain input where i: "(if map_of input ''state'' = Some (JStr ''unavailable'')
          then do { exactKeys input [''state'', ''reason''];
                    reason \<leftarrow> declaredValue unavailable_reasons (map_of input ''reason'');
                    Some (Unavailable reason) }
          else map_option Complete (parse_complete input)) = Some x"
    unfolding parseKafkaOriginalRecord_def bind_eq_Some_conv by blast
  show "parseKafkaOriginalRecord (Some (original_json x)) = Some x"
  proof (cases x)
    case (Complete c)
    then have "parse_complete input = Some c" using i by (auto simp: contract_simps split: if_splits)
    from parse_complete_stable [OF this] show ?thesis
      using Complete by (auto simp: parseKafkaOriginalRecord_def original_json_def)
  next
    case (Unavailable reason)
    then have "declaredValue unavailable_reasons (map_of input ''reason'') = Some reason"
      using i by (auto simp: contract_simps split: if_splits)
    from declared_stables(3) [OF this] show ?thesis
      using Unavailable by (auto simp: parseKafkaOriginalRecord_def original_json_def contract_simps)
  qed
qed (simp add: original_json_def complete_json_def split: original_record.split)

lemma parse_complete_record_Some:
  "parse_complete_record v n = Some r \<longleftrightarrow>
     parseKafkaOriginalRecord v = Some (Complete r) \<and> kafkaOriginalRecordByteLength r \<le> n"
  by (cases "parseKafkaOriginalRecord v") (auto simp: parse_complete_record_def split: original_record.splits)

interpretation completes: contract "\<lambda>v. parse_complete_record v n" complete_json for n
  by unfold_locales
     (auto simp: parse_complete_record_Some complete_json_def dest: originals.stable [of _ "Complete _", unfolded original_json_def, simplified])

lemma optional_member_of:
  "optional_value parse v = Some x \<Longrightarrow> contract parse render \<Longrightarrow>
   optional_value parse (map_option render x) = Some x"
  by (auto simp: optional_value_def contract_def split: option.splits)

lemma map_of_optional [simp]:
  "map_of (optional_member k render x @ fs) j = (if j = k \<and> x \<noteq> None then map_option render x else map_of fs j)"
  by (auto simp: optional_member_def split: option.split)

lemma optional_member_keys [simp]:
  "list_all P (optional_member k render x) \<longleftrightarrow> (case x of None \<Rightarrow> True | Some y \<Rightarrow> P (k, render y))"
  by (simp add: optional_member_def split: option.split)

lemma offsets_optional:
  "optional_value offsetPosition v = Some x \<Longrightarrow> optional_value offsetPosition (map_option JStr x) = Some x"
  using optional_member_of offsets.contract_axioms by blast

interpretation writes: contract parseKafkaWriteInput write_json
proof
  fix v x assume "parseKafkaWriteInput v = Some x"
  then obtain input topic where t: "topic_name (map_of input ''topic'') = Some topic"
    and i: "(if map_of input ''kind'' = Some (JStr ''record'')
          then do { exactKeys input [''kind'', ''topic'', ''partition'', ''record'', ''timestamp''];
                    bytes \<leftarrow> parse_complete_record (map_of input ''record'') 65536;
                    timestamp \<leftarrow> optional_value offsetPosition (map_of input ''timestamp'');
                    part \<leftarrow> safeNonNegative (map_of input ''partition'');
                    Some (Record_Write timestamp topic part bytes) }
          else do { check (map_of input ''kind'' = Some (JStr ''topic''));
                    exactKeys input [''kind'', ''topic'', ''partitions'', ''replicationFactor'', ''configs''];
                    items \<leftarrow> array_value (map_of input ''configs'');
                    check (length items \<le> 32);
                    configs \<leftarrow> parse_all parse_config items;
                    check (distinct (map cfg_name configs));
                    partitions \<leftarrow> positiveBoundedInteger (map_of input ''partitions'') 1000;
                    replication \<leftarrow> positiveBoundedInteger (map_of input ''replicationFactor'') 32;
                    Some (Topic_Write topic partitions replication configs) }) = Some x"
    unfolding parseKafkaWriteInput_def bind_eq_Some_conv by blast
  show "parseKafkaWriteInput (Some (write_json x)) = Some x"
  proof (cases "map_of input ''kind'' = Some (JStr ''record'')")
    case True
    then obtain bytes timestamp part where
      w: "parse_complete_record (map_of input ''record'') 65536 = Some bytes"
         "optional_value offsetPosition (map_of input ''timestamp'') = Some timestamp"
         "safeNonNegative (map_of input ''partition'') = Some part"
      and x: "x = Record_Write timestamp topic part bytes"
      using i by (auto simp: bind_eq_Some_conv)
    show ?thesis
      using topics.stable [OF t] completes.stable [OF w(1)] offsets_optional [OF w(2)] naturals.stable [OF w(3)]
      by (cases timestamp) (simp_all add: x parseKafkaWriteInput_def write_json_def optional_member_def exactKeys_def check_def)
  next
    case False
    then show ?thesis
      using i topics.stable [OF t] configs.all_stable configs.all_length
      by (auto simp: parseKafkaWriteInput_def write_json_def contract_simps naturals.stable)
  qed
qed (simp add: write_json_def split: write_input.split)


section \<open>Canonical Base64\<close>

lemma position_nth: "position c s = Some i \<Longrightarrow> i < length s \<and> s ! i = c"
  by (induction s arbitrary: i) (auto split: if_splits)

lemma position_distinct: "distinct s \<Longrightarrow> i < length s \<Longrightarrow> position (s ! i) s = Some i"
proof (induction s arbitrary: i)
  case (Cons c s)
  then show ?case by (cases i) auto
qed simp

lemma alphabet: "distinct base64_alphabet \<and> length base64_alphabet = 64"
  by (simp add: base64_alphabet_def)

lemma base64_value_char: "n < 64 \<Longrightarrow> base64_value (base64_char n) = Some n"
  using alphabet by (simp add: base64_value_def base64_char_def position_distinct)

lemma base64_char_plain: "n < 64 \<Longrightarrow> \<not> is_ascii_space (base64_char n) \<and> base64_char n \<noteq> CHR ''=''"
proof -
  assume "n < 64"
  then have "base64_char n \<in> set base64_alphabet" using alphabet by (simp add: base64_char_def)
  moreover have "list_all (\<lambda>c. \<not> is_ascii_space c \<and> c \<noteq> CHR ''='') base64_alphabet"
    by (simp add: base64_alphabet_def is_ascii_space_def)
  ultimately show ?thesis by (auto simp: list_all_iff)
qed

text \<open>The sextets of a byte list, and the padding that completes the last group.\<close>

fun sextets :: "nat list \<Rightarrow> nat list" where
  "sextets [] = []"
| "sextets [a] = [a div 4, a mod 4 * 16]"
| "sextets [a, b] = [a div 4, a mod 4 * 16 + b div 16, b mod 16 * 4]"
| "sextets (a # b # c # bytes) =
     a div 4 # (a mod 4 * 16 + b div 16) # (b mod 16 * 4 + c div 64) # (c mod 64) # sextets bytes"

definition padding :: "nat list \<Rightarrow> nat" where
  "padding bs = (3 - length bs mod 3) mod 3"

lemma padding_Cons3 [simp]: "padding (a # b # c # bs) = padding bs"
  by (simp add: padding_def)

lemma btoa_sextets: "btoa bs = map base64_char (sextets bs) @ replicate (padding bs) (CHR ''='')"
  by (induction bs rule: btoa.induct) (simp_all add: padding_def numeral_2_eq_2)

lemma sextets_less: "list_all (\<lambda>b. b < 256) bs \<Longrightarrow> list_all (\<lambda>n. n < 64) (sextets bs)"
proof (induction bs rule: sextets.induct)
  case (4 a b c bytes)
  then have "b mod 16 * 4 + c div 64 < 64" "a mod 4 * 16 + b div 16 < 64" by auto
  then show ?case using 4 by auto
qed auto

lemma sextets_length: "4 * (length bs div 3) + (if length bs mod 3 = 0 then 0 else Suc (length bs mod 3)) = length (sextets bs)"
proof (induction bs rule: sextets.induct)
  case (4 a b c bytes)
  have "Suc (Suc (Suc (length bytes))) div 3 = Suc (length bytes div 3)"
    "Suc (Suc (Suc (length bytes))) mod 3 = length bytes mod 3" by presburger+
  then show ?case using 4 by (cases "length bytes mod 3 = 0") simp_all
qed auto

lemma decode_sextets: "list_all (\<lambda>b. b < 256) bs \<Longrightarrow> decode_sextets (sextets bs) = bs"
  by (induction bs rule: sextets.induct) auto

lemma those_values: "list_all (\<lambda>n. n < 64) xs \<Longrightarrow> those (map base64_value (map base64_char xs)) = Some xs"
  by (induction xs) (auto simp: base64_value_char)

lemma strip_padding_replicate:
  assumes "list_all (\<lambda>c. c \<noteq> CHR ''='') s" and "p \<le> 2" and "(length s + p) mod 4 = 0" and "s = [] \<longrightarrow> p = 0"
  shows "strip_padding (s @ replicate p (CHR ''='')) = s"
proof -
  consider "p = 0" | "p = 1" | "p = 2" using assms(2) by linarith
  then show ?thesis
  proof cases
    case 1
    have "s \<noteq> [] \<Longrightarrow> last s \<noteq> CHR ''=''" using assms(1) by (auto simp: list_all_iff)
    then show ?thesis using 1 by (simp add: strip_padding_def)
  next
    case 2
    then have "s \<noteq> []" using assms(4) by auto
    then have "last s \<noteq> CHR ''=''" using assms(1) by (auto simp: list_all_iff)
    then show ?thesis using 2 assms(3) by (simp add: strip_padding_def butlast_append)
  next
    case 3
    then show ?thesis using assms(3) by (simp add: strip_padding_def butlast_append numeral_2_eq_2)
  qed
qed

lemma atob_btoa:
  assumes "list_all (\<lambda>b. b < 256) bs"
  shows "atob (btoa bs) = Some bs"
proof -
  let ?s = "map base64_char (sextets bs)"
  note less = sextets_less [OF assms]
  have plain: "list_all (\<lambda>c. \<not> is_ascii_space c \<and> c \<noteq> CHR ''='') ?s"
    using less base64_char_plain by (auto simp: list_all_iff)
  have nospace: "filter (\<lambda>c. \<not> is_ascii_space c) (btoa bs) = btoa bs"
    using plain unfolding btoa_sextets by (auto simp: filter_id_conv list_all_iff is_ascii_space_def)
  have len: "length (sextets bs) = 4 * (length bs div 3) + (if length bs mod 3 = 0 then 0 else Suc (length bs mod 3))"
    using sextets_length [of bs] by simp
  define q where "q = length bs div 3"
  consider "length bs mod 3 = 0" | "length bs mod 3 = 1" | "length bs mod 3 = 2" by linarith
  then have "(length (sextets bs) = 4 * q \<and> padding bs = 0) \<or> (length (sextets bs) = 4 * q + 2 \<and> padding bs = 2)
      \<or> (length (sextets bs) = 4 * q + 3 \<and> padding bs = 1)"
    by cases (simp_all add: len padding_def q_def)
  then have shape: "padding bs \<le> 2" "(length ?s + padding bs) mod 4 = 0" "length ?s mod 4 \<noteq> 1" "?s = [] \<longrightarrow> padding bs = 0"
    by (auto; presburger?)+
  have "strip_padding (btoa bs) = ?s"
    unfolding btoa_sextets
    by (rule strip_padding_replicate) (use plain shape in \<open>auto simp: list_all_iff\<close>)
  then show ?thesis
    using shape(3) nospace those_values [OF less] decode_sextets [OF assms] by (simp add: atob_def Let_def)
qed

lemma btoa_length: "length (btoa bs) = 4 * ((length bs + 2) div 3)"
proof (induction bs rule: btoa.induct)
  case (4 a b c bytes)
  have "(Suc (Suc (Suc (length bytes))) + 2) div 3 = Suc ((length bytes + 2) div 3)" by presburger
  then show ?case using 4 by simp
qed auto

lemma ends_with_padding:
  assumes "list_all (\<lambda>b. b < 256) bs"
  shows "ends_with (btoa bs) ''=='' = (padding bs = 2)" and "ends_with (btoa bs) ''='' = (0 < padding bs)"
proof -
  have sextet: "\<And>c. c \<in> set (map base64_char (sextets bs)) \<Longrightarrow> c \<noteq> CHR ''=''"
    using sextets_less [OF assms] base64_char_plain by (auto simp: list_all_iff)
  let ?s = "map base64_char (sextets bs)"
  have last: "drop (length ?s - n) ?s \<noteq> replicate n (CHR ''='')" if "0 < n" "n \<le> length ?s" for n
  proof
    assume e: "drop (length ?s - n) ?s = replicate n (CHR ''='')"
    have "CHR ''='' \<in> set (drop (length ?s - n) ?s)" using e that(1) by simp
    then show False using in_set_dropD sextet by fast
  qed
  have p: "padding bs \<in> {0, 1, 2}" by (auto simp: padding_def)
  have long: "padding bs = 1 \<longrightarrow> 1 \<le> length (sextets bs)" using sextets_length [of bs] by (auto simp: padding_def split: if_splits)
  have l1: "last ?s \<noteq> CHR ''=''" if "?s \<noteq> []" using last_in_set [OF that] sextet by blast
  show "ends_with (btoa bs) ''=='' = (padding bs = 2)"
    using p last [of 2] last [of 1] long unfolding btoa_sextets ends_with_def
    by (auto simp: numeral_2_eq_2)
  show "ends_with (btoa bs) ''='' = (0 < padding bs)"
    using p last [of 1] unfolding btoa_sextets ends_with_def by (auto simp: numeral_2_eq_2)
qed

lemma base64ByteLength_exact:
  assumes "list_all (\<lambda>b. b < 256) bs"
  shows "base64ByteLength (Some (btoa bs)) = int (length bs)"
proof -
  consider "length bs mod 3 = 0" | "length bs mod 3 = 1" | "length bs mod 3 = 2" by linarith
  then show ?thesis
  proof cases
    case 1
    then have "padding bs = 0" "(length bs + 2) div 3 * 3 = length bs" by (simp add: padding_def, presburger)
    then show ?thesis using ends_with_padding [OF assms] by (simp add: base64ByteLength_def btoa_length)
  next
    case 2
    then have "padding bs = 2" "(length bs + 2) div 3 * 3 = length bs + 2" by (simp add: padding_def, presburger)
    then show ?thesis using ends_with_padding [OF assms] by (simp add: base64ByteLength_def btoa_length)
  next
    case 3
    then have "padding bs = 1" "(length bs + 2) div 3 * 3 = length bs + 1" by (simp add: padding_def, presburger)
    then show ?thesis using ends_with_padding [OF assms] by (simp add: base64ByteLength_def btoa_length)
  qed
qed

lemma position_less: "position c s = Some i \<Longrightarrow> i < length s"
  using position_nth by blast

lemma those_less: "those (map base64_value cs) = Some xs \<Longrightarrow> list_all (\<lambda>n. n < 64) xs"
proof (induction cs arbitrary: xs)
  case (Cons c cs)
  obtain i ys where i: "base64_value c = Some i" "those (map base64_value cs) = Some ys" "xs = i # ys"
    using Cons.prems by (auto split: option.splits)
  have "i < 64" using position_less [OF i(1) [unfolded base64_value_def]] alphabet by simp
  then show ?case using Cons.IH [OF i(2)] i(3) by simp
qed simp

lemma decode_less: "list_all (\<lambda>n. n < 64) xs \<Longrightarrow> list_all (\<lambda>b. b < 256) (decode_sextets xs)"
proof (induction xs rule: decode_sextets.induct)
  case (1 a b c d rest)
  then have "b div 16 < 4" "c div 4 < 16" by auto
  moreover have "b mod 16 < 16" "c mod 4 < 4" "a < 64" "d < 64" using 1(2) by simp_all
  ultimately have "a * 4 + b div 16 < 256" "b mod 16 * 16 + c div 4 < 256" "c mod 4 * 64 + d < 256"
    by linarith+
  then show ?case using 1 by simp
next
  case (2 a b c)
  then have "b div 16 < 4" "c div 4 < 16" by auto
  moreover have "b mod 16 < 16" by simp
  ultimately have "a * 4 + b div 16 < 256" "b mod 16 * 16 + c div 4 < 256" using 2 by simp_all
  then show ?case by simp
next
  case (3 a b)
  then have "b div 16 < 4" by auto
  then have "a * 4 + b div 16 < 256" using 3 by simp
  then show ?case by simp
qed auto

lemma atob_less: "atob s = Some bs \<Longrightarrow> list_all (\<lambda>b. b < 256) bs"
  using those_less decode_less by (auto simp: atob_def Let_def split: if_splits)

text \<open>The bytes a parsed text stands for.\<close>

definition bytes_of :: "js_string \<Rightarrow> nat list" where
  "bytes_of s = (case atob s of Some bs \<Rightarrow> bs | None \<Rightarrow> [])"

lemma parsed_base64:
  assumes "parseRecordBase64 v n = Some s"
  shows "s = btoa (bytes_of s) \<and> list_all (\<lambda>b. b < 256) (bytes_of s) \<and> length (bytes_of s) \<le> n
     \<and> base64ByteLength (Some s) = int (length (bytes_of s))"
proof -
  obtain bs where b: "atob s = Some bs" "length bs \<le> n" "btoa bs = s"
    using assms by (auto simp: parseRecordBase64_Some)
  have "list_all (\<lambda>b. b < 256) bs" by (rule atob_less [OF b(1)])
  then show ?thesis using b base64ByteLength_exact [of bs] by (simp add: bytes_of_def)
qed

record record_bytes_view =
  vw_key :: "nat list option"
  vw_value :: "nat list option"
  vw_headers :: "(nat list \<times> nat list option) list"

definition record_view :: "complete_record \<Rightarrow> record_bytes_view" where
  "record_view r = \<lparr>vw_key = map_option bytes_of (complete_key r), vw_value = map_option bytes_of (complete_value r),
     vw_headers = map (\<lambda>h. (bytes_of (header_key h), map_option bytes_of (header_value h))) (complete_headers r)\<rparr>"

definition view_length :: "record_bytes_view \<Rightarrow> nat" where
  "view_length v = (case vw_key v of None \<Rightarrow> 0 | Some k \<Rightarrow> length k) + (case vw_value v of None \<Rightarrow> 0 | Some k \<Rightarrow> length k)
     + sum_list (map (\<lambda>(k, w). length k + (case w of None \<Rightarrow> 0 | Some w \<Rightarrow> length w)) (vw_headers v))"

definition canonical :: "js_string \<Rightarrow> bool" where
  "canonical s \<longleftrightarrow> s = btoa (bytes_of s) \<and> base64ByteLength (Some s) = int (length (bytes_of s))"

definition canonical_option :: "js_string option \<Rightarrow> bool" where
  "canonical_option s \<longleftrightarrow> (case s of None \<Rightarrow> True | Some s \<Rightarrow> canonical s)"

definition canonical_record :: "complete_record \<Rightarrow> bool" where
  "canonical_record r \<longleftrightarrow> canonical_option (complete_key r) \<and> canonical_option (complete_value r)
     \<and> list_all (\<lambda>h. canonical (header_key h) \<and> canonical_option (header_value h)) (complete_headers r)"

lemma nullable_canonical: "nullable (\<lambda>v. parseRecordBase64 v n) w = Some s \<Longrightarrow> canonical_option s"
  using parsed_base64 by (auto simp: nullable_def canonical_option_def canonical_def split: if_splits)

lemma header_canonical: "parse_header v = Some h \<Longrightarrow> canonical (header_key h) \<and> canonical_option (header_value h)"
  using parsed_base64 nullable_canonical by (fastforce simp: parse_header_def contract_simps canonical_def)

lemma complete_canonical:
  assumes "parse_complete ob = Some r"
  shows "canonical_record r"
proof -
  obtain hs key val parsed where p: "nullable (\<lambda>v. parseRecordBase64 v original_bytes) (map_of ob ''key'') = Some key"
    "nullable (\<lambda>v. parseRecordBase64 v original_bytes) (map_of ob ''value'') = Some val"
    "parse_all parse_header hs = Some parsed"
    and r: "r = \<lparr>complete_key = key, complete_value = val, complete_headers = parsed\<rparr>"
    using assms by (auto simp: parse_complete_def contract_simps)
  have "canonical (header_key h) \<and> canonical_option (header_value h)" if "h \<in> set parsed" for h
    using headers.all_parsed [OF p(3) that] header_canonical by blast
  then show ?thesis
    using nullable_canonical [OF p(1)] nullable_canonical [OF p(2)] by (simp add: r canonical_record_def list_all_iff)
qed

lemma original_canonical: "parseKafkaOriginalRecord v = Some (Complete r) \<Longrightarrow> canonical_record r"
  using complete_canonical by (auto simp: parseKafkaOriginalRecord_def contract_simps split: if_splits)

lemma canonical_eq: "canonical s \<Longrightarrow> canonical t \<Longrightarrow> s = t \<longleftrightarrow> bytes_of s = bytes_of t"
  unfolding canonical_def by metis

lemma canonical_option_eq:
  "canonical_option s \<Longrightarrow> canonical_option t \<Longrightarrow> s = t \<longleftrightarrow> map_option bytes_of s = map_option bytes_of t"
  using canonical_eq by (cases s; cases t) (auto simp: canonical_option_def)


lemma header_list_eq:
  "list_all (\<lambda>h. canonical (header_key h) \<and> canonical_option (header_value h)) hs \<Longrightarrow>
   list_all (\<lambda>h. canonical (header_key h) \<and> canonical_option (header_value h)) ks \<Longrightarrow>
   length hs = length ks \<and> list_all (\<lambda>(h, k). header_key h = header_key k \<and> header_value h = header_value k) (zip hs ks)
   \<longleftrightarrow> map (\<lambda>h. (bytes_of (header_key h), map_option bytes_of (header_value h))) hs
     = map (\<lambda>h. (bytes_of (header_key h), map_option bytes_of (header_value h))) ks"
proof (induction hs arbitrary: ks)
  case Nil
  then show ?case by auto
next
  case (Cons h hs)
  show ?case
  proof (cases ks)
    case (Cons k rest)
    then show ?thesis
      using Cons.IH [of rest] Cons.prems canonical_eq [of "header_key h" "header_key k"]
        canonical_option_eq [of "header_value h" "header_value k"] by auto
  qed simp
qed

lemma canonical_option_length:
  "canonical_option s \<Longrightarrow> base64ByteLength s = (case map_option bytes_of s of None \<Rightarrow> 0 | Some b \<Rightarrow> int (length b))"
  by (cases s) (auto simp: canonical_option_def canonical_def base64ByteLength_def)

lemma headers_length:
  "list_all (\<lambda>h. canonical (header_key h) \<and> canonical_option (header_value h)) hs \<Longrightarrow>
   sum_list (map (\<lambda>h. base64ByteLength (Some (header_key h)) + base64ByteLength (header_value h)) hs) =
   int (sum_list (map (\<lambda>(k, w). length k + (case w of None \<Rightarrow> 0 | Some w \<Rightarrow> length w))
     (map (\<lambda>h. (bytes_of (header_key h), map_option bytes_of (header_value h))) hs)))"
proof (induction hs)
  case (Cons h hs)
  then show ?case
    using canonical_option_length [of "header_value h"] by (cases "header_value h") (simp_all add: canonical_def)
qed simp

text \<open>
  Original records are compared and counted by their bytes without decoding them. Two records
  the boundary accepted are the same exactly when their decoded keys, values and headers are
  the same bytes, and the byte count of a record is the length of those bytes, at most 256 KiB.
\<close>

theorem original_records_compare_by_bytes:
  assumes "parseKafkaOriginalRecord v = Some (Complete l)" and "parseKafkaOriginalRecord w = Some (Complete r)"
  shows "(sameKafkaCompleteRecord l r \<longleftrightarrow> record_view l = record_view r)
     \<and> kafkaOriginalRecordByteLength l = int (view_length (record_view l))
     \<and> view_length (record_view l) \<le> original_bytes"
proof -
  have l: "canonical_record l" and r: "canonical_record r" using assms original_canonical by blast+
  have "kafkaOriginalRecordByteLength l \<le> int original_bytes"
    using assms(1) by (auto simp: parseKafkaOriginalRecord_def parse_complete_def contract_simps split: if_splits)
  moreover have "kafkaOriginalRecordByteLength l = int (view_length (record_view l))"
  proof -
    have c: "canonical_option (complete_key l)" "canonical_option (complete_value l)"
      "list_all (\<lambda>h. canonical (header_key h) \<and> canonical_option (header_value h)) (complete_headers l)"
      using l by (simp_all add: canonical_record_def)
    show ?thesis
      using canonical_option_length [OF c(1)] canonical_option_length [OF c(2)] headers_length [OF c(3)]
      by (cases "complete_key l"; cases "complete_value l")
         (simp_all add: kafkaOriginalRecordByteLength_def view_length_def record_view_def)
  qed
  moreover have "sameKafkaCompleteRecord l r \<longleftrightarrow> record_view l = record_view r"
    using l r canonical_option_eq header_list_eq [of "complete_headers l" "complete_headers r"]
    unfolding sameKafkaCompleteRecord_def record_view_def canonical_record_def by auto
  ultimately show ?thesis by simp
qed

text \<open>A record with a key of one byte and a header.\<close>

definition sample_complete :: complete_record where
  "sample_complete = \<lparr>complete_key = Some ''QQ=='', complete_value = None,
     complete_headers = [\<lparr>header_key = ''QUI='', header_value = None\<rparr>]\<rparr>"

lemma sample_texts: "atob ''QQ=='' = Some [65]" "atob ''QUI='' = Some [65, 66]"
  by (simp_all add: atob_def strip_padding_def is_ascii_space_def base64_value_def base64_alphabet_def Let_def)

lemma sample_btoa: "btoa [65] = ''QQ==''" "btoa [65, 66] = ''QUI=''"
  by (simp_all add: base64_char_def base64_alphabet_def)

lemma sample_parses: "parseKafkaOriginalRecord (Some (complete_json sample_complete)) = Some (Complete sample_complete)"
  by (simp add: parseKafkaOriginalRecord_def complete_json_def sample_complete_def parse_complete_def nullable_json_def
      nullable_def parse_all_def parse_header_def header_bytes_json_def parseRecordBase64_def boundedText_def sample_texts
      base64_char_def base64_alphabet_def exactKeys_def check_def kafkaOriginalRecordByteLength_def base64ByteLength_def ends_with_def)

theorem original_records_compare_by_bytes_witness:
  "sameKafkaCompleteRecord sample_complete sample_complete \<and> view_length (record_view sample_complete) = 3
     \<and> kafkaOriginalRecordByteLength sample_complete = 3"
  using original_records_compare_by_bytes [OF sample_parses sample_parses]
  by (simp add: record_view_def view_length_def sample_complete_def bytes_of_def sample_texts)

end
