(* ===== verification/Record_Batches.thy ===== *)
theory Record_Batches
  imports Record_Contracts
begin

text \<open>
  Batches of reviewed records at the contract boundary (\<open>contracts/schema-samples.ts\<close>): the bounds
  on their records, the review and the outcome.
\<close>

abbreviation batch_count :: nat where "batch_count \<equiv> 50"
abbreviation batch_record_bytes :: int where "batch_record_bytes \<equiv> 16384"
abbreviation batch_bytes :: int where "batch_bytes \<equiv> 524288"
abbreviation batch_rate :: int where "batch_rate \<equiv> 10"

record batch_input =
  bi_timestamps :: "js_string option list option"
  bi_topic :: js_string
  bi_partition :: int
  bi_ratePerSecond :: int
  bi_records :: "complete_record list"

record batch_review =
  br_planId :: js_string
  br_connectionName :: js_string
  br_expiresAt :: js_string
  br_input :: batch_input

datatype batch_stop =
    Batch_Complete | Cancelled | Connection_Changed | Destination_Changed | Journal_Unavailable | Write_Failed | Deadline

record batch_outcome =
  bo_total :: int
  bo_unsent :: int
  bo_outcomes :: "write_outcome list"
  bo_stopReason :: batch_stop

definition stop_reasons :: "(js_string \<times> batch_stop) list" where
  "stop_reasons = [(''complete'', Batch_Complete), (''cancelled'', Cancelled), (''connection-changed'', Connection_Changed),
     (''destination-changed'', Destination_Changed), (''journal-unavailable'', Journal_Unavailable),
     (''write-failed'', Write_Failed), (''deadline'', Deadline)]"

section \<open>Parsers\<close>

fun bounded_walk :: "int \<Rightarrow> json list \<Rightarrow> complete_record list option" where
  "bounded_walk bytes [] = Some []"
| "bounded_walk bytes (v # vs) =
     do { parsed \<leftarrow> parse_complete_record (Some v) batch_record_bytes;
          check (bytes + kafkaOriginalRecordByteLength parsed \<le> batch_bytes);
          rest \<leftarrow> bounded_walk (bytes + kafkaOriginalRecordByteLength parsed) vs;
          Some (parsed # rest) }"

definition boundedRecords :: "json option \<Rightarrow> complete_record list option" where
  "boundedRecords v =
     do { vs \<leftarrow> array_value v;
          check (1 \<le> length vs \<and> length vs \<le> batch_count);
          bounded_walk 0 vs }"

definition parse_timestamps :: "nat \<Rightarrow> json option \<Rightarrow> js_string option list option" where
  "parse_timestamps n v =
     do { ts \<leftarrow> array_value v;
          check (length ts = n);
          parse_all (nullable offsetPosition) ts }"

text \<open>The write input the destination and the first record are checked as.\<close>

definition destination_json :: "json option \<Rightarrow> json option \<Rightarrow> complete_record \<Rightarrow> json" where
  "destination_json topic part r =
     JObj ([(''kind'', JStr ''record'')] @ optional_member ''topic'' id topic @ optional_member ''partition'' id part
       @ [(''record'', complete_json r)])"

definition parseRecordBatchInput :: "json option \<Rightarrow> batch_input option" where
  "parseRecordBatchInput v =
     do { input \<leftarrow> record_value v;
          exactKeys input [''topic'', ''partition'', ''ratePerSecond'', ''records'', ''timestamps''];
          records \<leftarrow> boundedRecords (map_of input ''records'');
          timestamps \<leftarrow> optional_value (parse_timestamps (length records)) (map_of input ''timestamps'');
          validated \<leftarrow> parseKafkaWriteInput
                        (Some (destination_json (map_of input ''topic'') (map_of input ''partition'') (hd records)));
          case validated of
            Topic_Write _ _ _ _ \<Rightarrow> None
          | Record_Write _ topic part _ \<Rightarrow>
              do { rate \<leftarrow> positiveBoundedInteger (map_of input ''ratePerSecond'') batch_rate;
                   Some \<lparr>bi_timestamps = timestamps, bi_topic = topic, bi_partition = part,
                     bi_ratePerSecond = rate, bi_records = records\<rparr> } }"

definition parseRecordBatchReview :: "json option \<Rightarrow> batch_review option" where
  "parseRecordBatchReview v =
     do { input \<leftarrow> record_value v;
          exactKeys input [''planId'', ''connectionName'', ''expiresAt'', ''input''];
          planId \<leftarrow> plain_text (map_of input ''planId'') 128;
          connectionName \<leftarrow> plain_text (map_of input ''connectionName'') 256;
          expiresAt \<leftarrow> plain_text (map_of input ''expiresAt'') 64;
          batch \<leftarrow> parseRecordBatchInput (map_of input ''input'');
          Some \<lparr>br_planId = planId, br_connectionName = connectionName, br_expiresAt = expiresAt, br_input = batch\<rparr> }"

definition parseRecordBatchOutcome :: "json option \<Rightarrow> batch_outcome option" where
  "parseRecordBatchOutcome v =
     do { input \<leftarrow> record_value v;
          exactKeys input [''total'', ''unsent'', ''outcomes'', ''stopReason''];
          total \<leftarrow> positiveBoundedInteger (map_of input ''total'') (int batch_count);
          unsent \<leftarrow> safeNonNegative (map_of input ''unsent'');
          items \<leftarrow> array_value (map_of input ''outcomes'');
          check (int (length items) + unsent = total);
          reason \<leftarrow> declaredValue stop_reasons (map_of input ''stopReason'');
          outcomes \<leftarrow> parse_all parseKafkaWriteOutcome items;
          check (reason = Batch_Complete \<longrightarrow> unsent = 0 \<and> list_all (\<lambda>r. out_state r = Acknowledged) outcomes);
          Some \<lparr>bo_total = total, bo_unsent = unsent, bo_outcomes = outcomes, bo_stopReason = reason\<rparr> }"

section \<open>Rendering\<close>

definition timestamps_json :: "js_string option list \<Rightarrow> json" where
  "timestamps_json ts = JArr (map (nullable_json JStr) ts)"

definition batch_json :: "batch_input \<Rightarrow> json" where
  "batch_json b =
     JObj (optional_member ''timestamps'' timestamps_json (bi_timestamps b)
       @ [(''topic'', JStr (bi_topic b)), (''partition'', int_json (bi_partition b)),
          (''records'', JArr (map complete_json (bi_records b))), (''ratePerSecond'', int_json (bi_ratePerSecond b))])"

definition batch_review_json :: "batch_review \<Rightarrow> json" where
  "batch_review_json r =
     JObj [(''planId'', JStr (br_planId r)), (''connectionName'', JStr (br_connectionName r)),
       (''expiresAt'', JStr (br_expiresAt r)), (''input'', batch_json (br_input r))]"

definition batch_outcome_members :: "batch_outcome \<Rightarrow> json_object" where
  "batch_outcome_members r =
     [(''total'', int_json (bo_total r)), (''unsent'', int_json (bo_unsent r)),
      (''outcomes'', JArr (map outcome_json (bo_outcomes r))),
      (''stopReason'', declared_json stop_reasons (bo_stopReason r))]"

section \<open>Batches are contracts\<close>

lemma bounded_walk_stable: "bounded_walk n vs = Some rs \<Longrightarrow> bounded_walk n (map complete_json rs) = Some rs"
  by (induction n vs arbitrary: rs rule: bounded_walk.induct) (auto simp: bind_eq_Some_conv completes.stable)

lemma bounded_walk_length: "bounded_walk n vs = Some rs \<Longrightarrow> length rs = length vs"
  by (induction n vs arbitrary: rs rule: bounded_walk.induct) (auto simp: bind_eq_Some_conv)

lemma bounded_walk_parsed:
  "bounded_walk n vs = Some rs \<Longrightarrow> r \<in> set rs \<Longrightarrow> \<exists>v. parse_complete_record (Some v) batch_record_bytes = Some r"
  by (induction n vs arbitrary: rs rule: bounded_walk.induct) (auto simp: bind_eq_Some_conv)

lemma boundedRecords_Some:
  assumes "boundedRecords v = Some rs"
  shows "boundedRecords (Some (JArr (map complete_json rs))) = Some rs"
    and "1 \<le> length rs" and "length rs \<le> batch_count"
  using assms bounded_walk_stable bounded_walk_length
  by (fastforce simp: boundedRecords_def bind_eq_Some_conv)+

interpretation record_lists: contract boundedRecords "\<lambda>rs. JArr (map complete_json rs)"
  by unfold_locales (auto intro: boundedRecords_Some(1))

lemma timestamps_stable: "parse_timestamps n v = Some ts \<Longrightarrow> parse_timestamps n (Some (timestamps_json ts)) = Some ts"
proof -
  have "parse_all (nullable offsetPosition) vs = Some ts \<Longrightarrow>
    length ts = length vs \<and> parse_all (nullable offsetPosition) (map (nullable_json JStr) ts) = Some ts" for vs ts
  proof (induction vs arbitrary: ts)
    case (Cons v vs)
    then obtain y ys where y: "nullable offsetPosition (Some v) = Some y" "parse_all (nullable offsetPosition) vs = Some ys"
      "ts = y # ys" by (auto simp: parse_all_def split: option.splits)
    then show ?case using offsets.nullable_stable [OF y(1)] Cons.IH [OF y(2)] by (simp add: parse_all_def)
  qed (simp add: parse_all_def)
  moreover assume "parse_timestamps n v = Some ts"
  ultimately show ?thesis by (auto simp: parse_timestamps_def timestamps_json_def bind_eq_Some_conv)
qed

interpretation timestamp_lists: contract "parse_timestamps n" timestamps_json for n
  by unfold_locales (auto simp: timestamps_json_def dest: timestamps_stable [unfolded timestamps_json_def])

lemma map_of_optional_last [simp]:
  "map_of (optional_member k render x) j = (if j = k then map_option render x else None)"
  by (simp add: optional_member_def split: option.split)

lemma destination_parses:
  "parseKafkaWriteInput (Some (destination_json topic part r)) = Some w \<longleftrightarrow>
     (\<exists>t p c. topic_name topic = Some t \<and> safeNonNegative part = Some p
       \<and> parse_complete_record (Some (complete_json r)) 65536 = Some c \<and> w = Record_Write None t p c)"
proof -
  have "optional_member k id None = []" and "optional_member k id (Some v) = [(k, v)]" for k and v :: json
    by (simp_all add: optional_member_def)
  then show ?thesis
    by (cases topic; cases part)
       (auto simp: parseKafkaWriteInput_def destination_json_def bind_eq_Some_conv optional_value_def)
qed


lemma batch_parts:
  assumes "parseRecordBatchInput v = Some b"
  obtains input where "record_value v = Some input"
    and "boundedRecords (map_of input ''records'') = Some (bi_records b)"
    and "optional_value (parse_timestamps (length (bi_records b))) (map_of input ''timestamps'') = Some (bi_timestamps b)"
    and "topic_name (map_of input ''topic'') = Some (bi_topic b)"
    and "safeNonNegative (map_of input ''partition'') = Some (bi_partition b)"
    and "positiveBoundedInteger (map_of input ''ratePerSecond'') batch_rate = Some (bi_ratePerSecond b)"
    and "\<exists>c. parse_complete_record (Some (complete_json (hd (bi_records b)))) 65536 = Some c"
proof -
  obtain input records timestamps validated where i: "record_value v = Some input"
    "boundedRecords (map_of input ''records'') = Some records"
    "optional_value (parse_timestamps (length records)) (map_of input ''timestamps'') = Some timestamps"
    "parseKafkaWriteInput (Some (destination_json (map_of input ''topic'') (map_of input ''partition'') (hd records)))
       = Some validated"
    and rest: "(case validated of
            Topic_Write _ _ _ _ \<Rightarrow> None
          | Record_Write _ topic part _ \<Rightarrow>
              do { rate \<leftarrow> positiveBoundedInteger (map_of input ''ratePerSecond'') batch_rate;
                   Some \<lparr>bi_timestamps = timestamps, bi_topic = topic, bi_partition = part,
                     bi_ratePerSecond = rate, bi_records = records\<rparr> }) = Some b"
    using assms unfolding parseRecordBatchInput_def bind_eq_Some_conv by blast
  obtain t p c where w: "topic_name (map_of input ''topic'') = Some t" "safeNonNegative (map_of input ''partition'') = Some p"
    "parse_complete_record (Some (complete_json (hd records))) 65536 = Some c" "validated = Record_Write None t p c"
    using i(4) unfolding destination_parses by blast
  obtain rate where r: "positiveBoundedInteger (map_of input ''ratePerSecond'') batch_rate = Some rate"
    and b: "b = \<lparr>bi_timestamps = timestamps, bi_topic = t, bi_partition = p, bi_ratePerSecond = rate, bi_records = records\<rparr>"
    using rest w(4) by (auto simp: bind_eq_Some_conv)
  show ?thesis by (rule that) (use i w r in \<open>auto simp: b\<close>)
qed

lemma batch_stable: "parseRecordBatchInput v = Some b \<Longrightarrow> parseRecordBatchInput (Some (batch_json b)) = Some b"
proof -
  assume "parseRecordBatchInput v = Some b"
  then obtain input where p: "boundedRecords (map_of input ''records'') = Some (bi_records b)"
    "optional_value (parse_timestamps (length (bi_records b))) (map_of input ''timestamps'') = Some (bi_timestamps b)"
    "topic_name (map_of input ''topic'') = Some (bi_topic b)"
    "safeNonNegative (map_of input ''partition'') = Some (bi_partition b)"
    "positiveBoundedInteger (map_of input ''ratePerSecond'') batch_rate = Some (bi_ratePerSecond b)"
    "\<exists>c. parse_complete_record (Some (complete_json (hd (bi_records b)))) 65536 = Some c"
    using batch_parts by metis
  obtain c where c: "parse_complete_record (Some (complete_json (hd (bi_records b)))) 65536 = Some c" using p(6) by blast
  have ts: "optional_value (parse_timestamps (length (bi_records b))) (map_option timestamps_json (bi_timestamps b)) =
     Some (bi_timestamps b)"
    by (rule optional_member_of [OF p(2) timestamp_lists.contract_axioms])
  have w: "parseKafkaWriteInput (Some (destination_json (Some (JStr (bi_topic b))) (Some (int_json (bi_partition b)))
      (hd (bi_records b)))) = Some (Record_Write None (bi_topic b) (bi_partition b) c)"
    using topics.stable [OF p(3)] naturals.stable [OF p(4)] c unfolding destination_parses by blast
  show ?thesis
    using boundedRecords_Some(1) [OF p(1)] ts w positives.stable [OF p(5)]
    by (cases "bi_timestamps b")
       (simp_all add: parseRecordBatchInput_def batch_json_def exactKeys_def check_def optional_member_def)
qed

interpretation batches: contract parseRecordBatchInput batch_json
  by unfold_locales (auto simp: batch_json_def dest: batch_stable [unfolded batch_json_def])

interpretation batch_reviews: contract parseRecordBatchReview batch_review_json
  by unfold_locales
     (auto simp: parseRecordBatchReview_def batch_review_json_def contract_simps batches.stable)

lemma stop_reasons_stable [contract_simps]:
  "declaredValue stop_reasons v = Some s \<Longrightarrow> declaredValue stop_reasons (Some (declared_json stop_reasons s)) = Some s"
  by (rule declared_stable; simp add: stop_reasons_def)

interpretation batch_outcomes: contract parseRecordBatchOutcome "\<lambda>r. JObj (batch_outcome_members r)"
  by unfold_locales
     (auto simp: parseRecordBatchOutcome_def batch_outcome_members_def bind_eq_Some_conv positives.stable naturals.stable
       outcomes.all_stable outcomes.all_length stop_reasons_stable)

end
