(* ===== verification/Structured_Replay.thy ===== *)
theory Structured_Replay
  imports Record_Contracts
begin

text \<open>
  Structured edits of replayed records (\<open>contracts/structured-replay.ts\<close>): JSON Pointer patches,
  writer selections and mappings, and the check that a stored review describes its actual bytes and
  its selected writers.

  \<open>jp\<close> is \<open>JSON.parse\<close> on a text (None is its SyntaxError) and \<open>jt\<close> says whether bytes decode as
  UTF-8 to a text \<open>JSON.parse\<close> accepts.
\<close>

abbreviation max_patches :: nat where "max_patches \<equiv> 16"
abbreviation max_mappings :: nat where "max_mappings \<equiv> 50"
abbreviation max_patch_path :: nat where "max_patch_path \<equiv> 512"
abbreviation max_patch_bytes :: nat where "max_patch_bytes \<equiv> 16384"

datatype record_format = Json_Format | Avro_Format | Protobuf_Format

datatype registry_type = Avro_Schema | Json_Schema | Protobuf_Schema

datatype json_patch = Set_Patch js_string js_string | Remove_Patch js_string

record writer_selection =
  ws_subject :: js_string
  ws_version :: int
  ws_messageType :: js_string

record writer_mapping =
  wm_format :: record_format
  wm_sourceId :: "int option"
  wm_target :: "writer_selection option"

record structured_field =
  sf_codec :: "record_format option"
    \<comment> \<open>None is \<open>auto\<close>\<close>
  sf_patches :: "json_patch list"
  sf_mappings :: "writer_mapping list"

record structured_transform =
  st_key :: "structured_field option"
  st_value :: "structured_field option"

record target_writer =
  tw_selection :: writer_selection
  tw_id :: int
  tw_schemaType :: registry_type
  tw_fingerprint :: js_string

record field_encoding =
  fe_source :: "record_format \<times> int option"
  fe_target :: "target_writer option"

record record_encoding =
  re_key :: "field_encoding option"
  re_value :: "field_encoding option"

definition record_formats :: "(js_string \<times> record_format) list" where
  "record_formats = [(''json'', Json_Format), (''avro'', Avro_Format), (''protobuf'', Protobuf_Format)]"

definition field_codecs :: "(js_string \<times> record_format option) list" where
  "field_codecs = (''auto'', None) # map (\<lambda>(s, f). (s, Some f)) record_formats"

definition registry_types :: "(js_string \<times> registry_type) list" where
  "registry_types = [(''AVRO'', Avro_Schema), (''JSON'', Json_Schema), (''PROTOBUF'', Protobuf_Schema)]"

section \<open>Patches\<close>

fun replace_pair :: "char \<Rightarrow> char \<Rightarrow> char \<Rightarrow> js_string \<Rightarrow> js_string" where
  "replace_pair x y z (a # b # s) = (if a = x \<and> b = y then z # replace_pair x y z s else a # replace_pair x y z (b # s))"
| "replace_pair x y z s = s"

fun split_char :: "char \<Rightarrow> js_string \<Rightarrow> js_string list" where
  "split_char x [] = [[]]"
| "split_char x (c # s) =
     (if c = x then [] # split_char x s
      else case split_char x s of [] \<Rightarrow> [[c]] | part # parts \<Rightarrow> (c # part) # parts)"

fun tilde_escapes :: "js_string \<Rightarrow> bool" where
  "tilde_escapes [] = True"
| "tilde_escapes (c # s) =
     ((c = CHR ''~'' \<longrightarrow> (case s of [] \<Rightarrow> False | d # _ \<Rightarrow> d = CHR ''0'' \<or> d = CHR ''1'')) \<and> tilde_escapes s)"

definition unsafe_names :: "js_string list" where
  "unsafe_names = [''__proto__'', ''prototype'', ''constructor'']"

definition replayPatchSegments :: "js_string \<Rightarrow> js_string list option" where
  "replayPatchSegments path =
     (if path = [] then Some []
      else if hd path \<noteq> CHR ''/'' \<or> length path > max_patch_path \<or> \<not> tilde_escapes path then None
      else let segments = map (\<lambda>p. replace_pair (CHR ''~'') (CHR ''0'') (CHR ''~'')
                                     (replace_pair (CHR ''~'') (CHR ''1'') (CHR ''/'') p))
                            (split_char (CHR ''/'') (tl path))
           in if length segments > 16 \<or> list_ex (\<lambda>p. p \<in> set unsafe_names) segments then None else Some segments)"

definition patch_number :: "js_num \<Rightarrow> bool" where
  "patch_number n \<longleftrightarrow> is_finite n \<and> (case num_integer n of None \<Rightarrow> True | Some i \<Rightarrow> is_safe_integer i)"

definition member_names :: "json \<Rightarrow> js_string list" where
  "member_names v = (case v of JObj ms \<Rightarrow> map fst ms | _ \<Rightarrow> [])"

definition member_values :: "json \<Rightarrow> json list" where
  "member_values v = (case own_values v of Some vs \<Rightarrow> vs | None \<Rightarrow> [])"

text \<open>The walk with an explicit stack, its top first.\<close>

function patch_walk :: "nat \<Rightarrow> (nat \<times> json) list \<Rightarrow> bool" where
  "patch_walk nodes [] = True"
| "patch_walk nodes ((d, v) # pending) =
     (if Suc nodes > 2048 \<or> d > 16 then False
      else if (case v of JNum n \<Rightarrow> \<not> patch_number n | _ \<Rightarrow> False) then False
      else if list_ex (\<lambda>name. name \<in> set unsafe_names) (member_names v) then False
      else patch_walk (Suc nodes) (rev (map (Pair (Suc d)) (member_values v)) @ pending))"
  by pat_completeness auto

termination
  by (relation "measure (\<lambda>(nodes, pending). 2049 - nodes)") auto

definition parseReplayPatchJson :: "(js_string \<Rightarrow> json option) \<Rightarrow> js_string \<Rightarrow> json option" where
  "parseReplayPatchJson jp source =
     do { check (utf8_length source \<le> int max_patch_bytes);
          v \<leftarrow> jp source;
          check (patch_walk 0 [(0, v)]);
          Some v }"

definition parse_patch :: "(js_string \<Rightarrow> json option) \<Rightarrow> json option \<Rightarrow> json_patch option" where
  "parse_patch jp v =
     do { p \<leftarrow> record_value v;
          is_set \<leftarrow> declaredValue [(''set'', True), (''remove'', False)] (map_of p ''op'');
          exactKeys p (if is_set then [''op'', ''path'', ''json''] else [''op'', ''path'']);
          path \<leftarrow> boundedText (map_of p ''path'') max_patch_path;
          segments \<leftarrow> replayPatchSegments path;
          if \<not> is_set then do { check (path \<noteq> []); Some (Remove_Patch path) }
          else do { json \<leftarrow> plain_text (map_of p ''json'') max_patch_bytes;
                    v \<leftarrow> parseReplayPatchJson jp json;
                    Some (Set_Patch path json) } }"

section \<open>Writers and fields\<close>

definition selection_members :: "json_object \<Rightarrow> writer_selection option" where
  "selection_members w =
     do { subject \<leftarrow> plain_text (map_of w ''subject'') 512;
          version \<leftarrow> positiveBoundedInteger (map_of w ''version'') 10000;
          messageType \<leftarrow> boundedText (map_of w ''messageType'') 512;
          Some \<lparr>ws_subject = subject, ws_version = version, ws_messageType = messageType\<rparr> }"

definition parse_selection :: "json option \<Rightarrow> writer_selection option" where
  "parse_selection v =
     do { w \<leftarrow> record_value v;
          exactKeys w [''subject'', ''version'', ''messageType''];
          selection_members w }"

definition sourceWriter :: "json option \<Rightarrow> json option \<Rightarrow> (record_format \<times> int option) option" where
  "sourceWriter fmt ident =
     do { format \<leftarrow> declaredValue record_formats fmt;
          i \<leftarrow> nullable (\<lambda>v. positiveBoundedInteger v 0x7fffffff) ident;
          check ((format = Json_Format) = (i = None));
          Some (format, i) }"

definition parse_mapping :: "json option \<Rightarrow> writer_mapping option" where
  "parse_mapping v =
     do { m \<leftarrow> record_value v;
          exactKeys m [''format'', ''sourceId'', ''target''];
          source \<leftarrow> sourceWriter (map_of m ''format'') (map_of m ''sourceId'');
          check (fst source = Json_Format \<or> map_of m ''target'' \<noteq> Some JNull);
          target \<leftarrow> nullable parse_selection (map_of m ''target'');
          Some \<lparr>wm_format = fst source, wm_sourceId = snd source, wm_target = target\<rparr> }"

definition parse_field :: "(js_string \<Rightarrow> json option) \<Rightarrow> json option \<Rightarrow> structured_field option" where
  "parse_field jp v =
     do { f \<leftarrow> record_value v;
          exactKeys f [''codec'', ''patches'', ''mappings''];
          ps \<leftarrow> array_value (map_of f ''patches'');
          ms \<leftarrow> array_value (map_of f ''mappings'');
          check (length ps \<le> max_patches \<and> length ms \<noteq> 0 \<and> length ms \<le> max_mappings);
          mappings \<leftarrow> parse_all parse_mapping ms;
          check (distinct (map (\<lambda>m. (wm_format m, wm_sourceId m)) mappings));
          codec \<leftarrow> declaredValue field_codecs (map_of f ''codec'');
          patches \<leftarrow> parse_all (parse_patch jp) ps;
          Some \<lparr>sf_codec = codec, sf_patches = patches, sf_mappings = mappings\<rparr> }"

definition parseStructuredReplayTransform ::
  "(js_string \<Rightarrow> json option) \<Rightarrow> json option \<Rightarrow> structured_transform option" where
  "parseStructuredReplayTransform jp v =
     do { t \<leftarrow> record_value v;
          exactKeys t [''key'', ''value''];
          key \<leftarrow> nullable (parse_field jp) (map_of t ''key'');
          val \<leftarrow> nullable (parse_field jp) (map_of t ''value'');
          check (key \<noteq> None \<or> val \<noteq> None);
          Some \<lparr>st_key = key, st_value = val\<rparr> }"

section \<open>Writer evidence\<close>

definition fingerprint_digit :: "char \<Rightarrow> bool" where
  "fingerprint_digit c \<longleftrightarrow> (let n = (of_char c :: nat) in (97 \<le> n \<and> n \<le> 102) \<or> (48 \<le> n \<and> n \<le> 57))"

definition parse_target :: "json option \<Rightarrow> target_writer option" where
  "parse_target v =
     do { t \<leftarrow> record_value v;
          exactKeys t [''subject'', ''version'', ''messageType'', ''id'', ''schemaType'', ''fingerprint''];
          fingerprint \<leftarrow> plain_text (map_of t ''fingerprint'') 64;
          check (length fingerprint = 64 \<and> list_all fingerprint_digit fingerprint);
          schemaType \<leftarrow> declaredValue registry_types (map_of t ''schemaType'');
          selected \<leftarrow> selection_members t;
          check ((schemaType = Protobuf_Schema) = (ws_messageType selected \<noteq> []));
          i \<leftarrow> positiveBoundedInteger (map_of t ''id'') 0x7fffffff;
          Some \<lparr>tw_selection = selected, tw_id = i, tw_schemaType = schemaType, tw_fingerprint = fingerprint\<rparr> }"

definition parse_field_encoding :: "json option \<Rightarrow> field_encoding option" where
  "parse_field_encoding v =
     do { f \<leftarrow> record_value v;
          exactKeys f [''source'', ''target''];
          s \<leftarrow> record_value (map_of f ''source'');
          exactKeys s [''format'', ''id''];
          source \<leftarrow> sourceWriter (map_of s ''format'') (map_of s ''id'');
          target \<leftarrow> nullable parse_target (map_of f ''target'');
          check (target = None \<longrightarrow> fst source = Json_Format);
          Some \<lparr>fe_source = source, fe_target = target\<rparr> }"

definition parseReplayRecordEncoding :: "json option \<Rightarrow> record_encoding option" where
  "parseReplayRecordEncoding v =
     do { e \<leftarrow> record_value v;
          exactKeys e [''key'', ''value''];
          key \<leftarrow> nullable parse_field_encoding (map_of e ''key'');
          val \<leftarrow> nullable parse_field_encoding (map_of e ''value'');
          Some \<lparr>re_key = key, re_value = val\<rparr> }"

text \<open>\<open>wireId\<close>: None is the exception of \<open>atob\<close>, \<open>Some None\<close> is null.\<close>

definition wireId :: "js_string \<Rightarrow> int option option" where
  "wireId bytes =
     (case atob bytes of
        None \<Rightarrow> None
      | Some (0 # a # b # c # d # rest) \<Rightarrow> Some (Some (int (((a * 256 + b) * 256 + c) * 256 + d)))
      | Some _ \<Rightarrow> Some None)"

definition drop_leading_dot :: "js_string \<Rightarrow> js_string" where
  "drop_leading_dot s = (case s of c # r \<Rightarrow> if c = CHR ''.'' then r else s | [] \<Rightarrow> s)"

definition writer_agrees :: "writer_selection \<Rightarrow> target_writer \<Rightarrow> bool" where
  "writer_agrees selected t \<longleftrightarrow>
     ws_subject selected = ws_subject (tw_selection t) \<and> ws_version selected = ws_version (tw_selection t)
     \<and> (ws_messageType selected = []
        \<or> drop_leading_dot (ws_messageType selected) = drop_leading_dot (ws_messageType (tw_selection t)))"

text \<open>The output of one field: a binary frame of the destination writer, or plain JSON.\<close>

definition output_agrees :: "(nat list \<Rightarrow> bool) \<Rightarrow> target_writer option \<Rightarrow> js_string \<Rightarrow> bool" where
  "output_agrees jt target after =
     (case target of
        Some t \<Rightarrow>
          if tw_schemaType t \<noteq> Json_Schema then wireId after = Some (Some (tw_id t))
          else wireId after = Some None \<and> jt (bytes_of after)
      | None \<Rightarrow> wireId after = Some None \<and> jt (bytes_of after))"

definition validate_field ::
  "(nat list \<Rightarrow> bool) \<Rightarrow> structured_field option \<Rightarrow> field_encoding option \<Rightarrow> js_string option \<Rightarrow> js_string option \<Rightarrow> bool" where
  "validate_field jt selected encoded before after =
     (case (selected, before) of
        (Some field, Some bytes) \<Rightarrow>
          (case (encoded, after) of
             (Some e, Some out) \<Rightarrow>
               (sf_codec field \<noteq> None \<longrightarrow> sf_codec field = Some (fst (fe_source e)))
               \<and> wireId bytes = Some (snd (fe_source e))
               \<and> (case find (\<lambda>m. (wm_format m, wm_sourceId m) = fe_source e) (sf_mappings field) of
                    None \<Rightarrow> False
                  | Some m \<Rightarrow>
                      (wm_target m = None) = (fe_target e = None)
                      \<and> (case (wm_target m, fe_target e) of (Some s, Some t) \<Rightarrow> writer_agrees s t | _ \<Rightarrow> True))
               \<and> output_agrees jt (fe_target e) out
           | _ \<Rightarrow> False)
      | _ \<Rightarrow> encoded = None \<and> (selected \<noteq> None \<longrightarrow> after = None))"

definition validateReplayEncoding ::
  "(nat list \<Rightarrow> bool) \<Rightarrow> complete_record \<Rightarrow> complete_record \<Rightarrow> structured_transform \<Rightarrow> record_encoding \<Rightarrow> unit option" where
  "validateReplayEncoding jt original output transform evidence =
     check (validate_field jt (st_key transform) (re_key evidence) (complete_key original) (complete_key output)
       \<and> validate_field jt (st_value transform) (re_value evidence) (complete_value original) (complete_value output))"

section \<open>Rendering\<close>

definition patch_json :: "json_patch \<Rightarrow> json" where
  "patch_json p =
     (case p of
        Set_Patch path json \<Rightarrow> JObj [(''op'', JStr ''set''), (''path'', JStr path), (''json'', JStr json)]
      | Remove_Patch path \<Rightarrow> JObj [(''op'', JStr ''remove''), (''path'', JStr path)])"

definition selection_fields :: "writer_selection \<Rightarrow> json_object" where
  "selection_fields s = [(''subject'', JStr (ws_subject s)), (''version'', int_json (ws_version s)),
     (''messageType'', JStr (ws_messageType s))]"

definition selection_json :: "writer_selection \<Rightarrow> json" where
  "selection_json s = JObj (selection_fields s)"

definition mapping_json :: "writer_mapping \<Rightarrow> json" where
  "mapping_json m = JObj [(''format'', declared_json record_formats (wm_format m)),
     (''sourceId'', nullable_json int_json (wm_sourceId m)), (''target'', nullable_json selection_json (wm_target m))]"

definition field_json :: "structured_field \<Rightarrow> json" where
  "field_json f = JObj [(''codec'', declared_json field_codecs (sf_codec f)),
     (''mappings'', JArr (map mapping_json (sf_mappings f))), (''patches'', JArr (map patch_json (sf_patches f)))]"

definition structured_json :: "structured_transform \<Rightarrow> json" where
  "structured_json t = JObj [(''key'', nullable_json field_json (st_key t)), (''value'', nullable_json field_json (st_value t))]"

definition target_json :: "target_writer \<Rightarrow> json" where
  "target_json t = JObj (selection_fields (tw_selection t) @ [(''id'', int_json (tw_id t)),
     (''schemaType'', declared_json registry_types (tw_schemaType t)), (''fingerprint'', JStr (tw_fingerprint t))])"

definition field_encoding_json :: "field_encoding \<Rightarrow> json" where
  "field_encoding_json e = JObj [(''source'', JObj [(''format'', declared_json record_formats (fst (fe_source e))),
       (''id'', nullable_json int_json (snd (fe_source e)))]),
     (''target'', nullable_json target_json (fe_target e))]"

definition encoding_json :: "record_encoding \<Rightarrow> json" where
  "encoding_json e = JObj [(''key'', nullable_json field_encoding_json (re_key e)),
     (''value'', nullable_json field_encoding_json (re_value e))]"


section \<open>Structured transforms and evidence are contracts\<close>

lemma format_stables [contract_simps]:
  "declaredValue record_formats v = Some f \<Longrightarrow> declaredValue record_formats (Some (declared_json record_formats f)) = Some f"
  "declaredValue field_codecs v = Some c \<Longrightarrow> declaredValue field_codecs (Some (declared_json field_codecs c)) = Some c"
  "declaredValue registry_types v = Some t \<Longrightarrow> declaredValue registry_types (Some (declared_json registry_types t)) = Some t"
  by (rule declared_stable; simp add: record_formats_def field_codecs_def registry_types_def)+

lemma declared_not_null [simp]: "declared_json table x \<noteq> JNull"
  by (simp add: declared_json_def)

interpretation patches: contract "parse_patch jp" patch_json for jp
proof
  fix v x assume "parse_patch jp v = Some x"
  then obtain p path segments is_set where
    path: "boundedText (map_of p ''path'') max_patch_path = Some path" "replayPatchSegments path = Some segments"
    and rest: "(if \<not> is_set then do { check (path \<noteq> []); Some (Remove_Patch path) }
          else do { json \<leftarrow> plain_text (map_of p ''json'') max_patch_bytes;
                    v \<leftarrow> parseReplayPatchJson jp json;
                    Some (Set_Patch path json) }) = Some x"
    unfolding parse_patch_def bind_eq_Some_conv by blast
  have ops: "declaredValue [(''set'', True), (''remove'', False)] (Some (JStr ''set'')) = Some True"
    "declaredValue [(''set'', True), (''remove'', False)] (Some (JStr ''remove'')) = Some False"
    by (simp_all add: declaredValue_def)
  show "parse_patch jp (Some (patch_json x)) = Some x"
  proof (cases is_set)
    case True
    then obtain json v where j: "plain_text (map_of p ''json'') max_patch_bytes = Some json"
      "parseReplayPatchJson jp json = Some v" "x = Set_Patch path json"
      using rest by (auto simp: bind_eq_Some_conv)
    show ?thesis
      using bounded.stable [OF path(1)] path(2) texts.stable [OF j(1)] j(2)
      by (simp add: j(3) parse_patch_def patch_json_def ops exactKeys_def check_def)
  next
    case False
    then have "path \<noteq> []" "x = Remove_Patch path" using rest by (auto simp: bind_eq_Some_conv)
    then show ?thesis
      using bounded.stable [OF path(1)] path(2) by (simp add: parse_patch_def patch_json_def ops exactKeys_def check_def)
  qed
qed (simp add: patch_json_def split: json_patch.split)

lemma selection_members_stable:
  assumes "selection_members w = Some s"
  shows "selection_members (selection_fields s @ fs) = Some s"
  using assms by (auto simp: selection_members_def selection_fields_def contract_simps positives.stable naturals.stable)

interpretation selections: contract parse_selection selection_json
proof
  fix v x assume "parse_selection v = Some x"
  then obtain w where "selection_members w = Some x" by (auto simp: parse_selection_def contract_simps)
  from selection_members_stable [OF this, of "[]"]
  show "parse_selection (Some (selection_json x)) = Some x"
    by (simp add: parse_selection_def selection_json_def) (simp add: exactKeys_def selection_fields_def check_def)
qed (simp add: selection_json_def)

lemma sourceWriter_stable:
  assumes "sourceWriter a b = Some (f, i)"
  shows "sourceWriter (Some (declared_json record_formats f)) (Some (nullable_json int_json i)) = Some (f, i)"
  using assms by (auto simp: sourceWriter_def bind_eq_Some_conv format_stables positives.nullable_stable)

interpretation mappings: contract parse_mapping mapping_json
proof
  fix v x assume "parse_mapping v = Some x"
  then obtain m source target where s: "sourceWriter (map_of m ''format'') (map_of m ''sourceId'') = Some source"
    "fst source = Json_Format \<or> map_of m ''target'' \<noteq> Some JNull"
    "nullable parse_selection (map_of m ''target'') = Some target"
    and x: "x = \<lparr>wm_format = fst source, wm_sourceId = snd source, wm_target = target\<rparr>"
    by (auto simp: parse_mapping_def bind_eq_Some_conv)
  have "fst source = Json_Format \<or> nullable_json selection_json target \<noteq> JNull"
    using s(2,3) selections.not_null by (auto simp: nullable_def nullable_json_def)
  then show "parse_mapping (Some (mapping_json x)) = Some x"
    using sourceWriter_stable [of _ _ "fst source" "snd source"] s(1) selections.nullable_stable [OF s(3)]
    by (simp add: x parse_mapping_def mapping_json_def exactKeys_def check_def)
qed (simp add: mapping_json_def)

lemma mappings_nonempty: "parse_all parse_mapping vs = Some [] \<Longrightarrow> vs = []"
  using mappings.all_length by fastforce

interpretation fields: contract "parse_field jp" field_json for jp
proof
  fix v x assume "parse_field jp v = Some x"
  then show "parse_field jp (Some (field_json x)) = Some x"
    by (auto simp: parse_field_def field_json_def bind_eq_Some_conv mappings.all_stable mappings.all_length
        patches.all_stable patches.all_length format_stables dest: mappings_nonempty)
qed (simp add: field_json_def)

interpretation structured: contract "parseStructuredReplayTransform jp" structured_json for jp
  by unfold_locales
     (auto simp: parseStructuredReplayTransform_def structured_json_def bind_eq_Some_conv fields.nullable_stable)

lemma selection_fields_of [simp]:
  "k \<notin> {''subject'', ''version'', ''messageType''} \<Longrightarrow> map_of (selection_fields s @ fs) k = map_of fs k"
  by (simp add: selection_fields_def)

interpretation targets: contract parse_target target_json
proof
  fix v x assume "parse_target v = Some x"
  then obtain t fingerprint schemaType selected i where
    p: "plain_text (map_of t ''fingerprint'') 64 = Some fingerprint"
    "length fingerprint = 64 \<and> list_all fingerprint_digit fingerprint"
    "declaredValue registry_types (map_of t ''schemaType'') = Some schemaType"
    "selection_members t = Some selected"
    "(schemaType = Protobuf_Schema) = (ws_messageType selected \<noteq> [])"
    "positiveBoundedInteger (map_of t ''id'') 0x7fffffff = Some i"
    and x: "x = \<lparr>tw_selection = selected, tw_id = i, tw_schemaType = schemaType, tw_fingerprint = fingerprint\<rparr>"
    unfolding parse_target_def bind_eq_Some_conv check_Some by blast
  have "exactKeys (selection_fields selected @ [(''id'', u), (''schemaType'', v), (''fingerprint'', w)])
      [''subject'', ''version'', ''messageType'', ''id'', ''schemaType'', ''fingerprint''] = Some ()" for u v w
    by (simp add: exactKeys_def check_def selection_fields_def)
  then show "parse_target (Some (target_json x)) = Some x"
    using texts.stable [OF p(1)] p(2) format_stables(3) [OF p(3)] selection_members_stable [OF p(4)] p(5)
      positives.stable [OF p(6)]
    by (simp add: x parse_target_def target_json_def exactKeys_def check_def del: map_of_append)
qed (simp add: target_json_def)

interpretation field_encodings: contract parse_field_encoding field_encoding_json
proof
  fix v x assume "parse_field_encoding v = Some x"
  then show "parse_field_encoding (Some (field_encoding_json x)) = Some x"
    by (auto simp: parse_field_encoding_def field_encoding_json_def bind_eq_Some_conv sourceWriter_stable
        targets.nullable_stable)
qed (simp add: field_encoding_json_def)

interpretation encodings: contract parseReplayRecordEncoding encoding_json
  by unfold_locales
     (auto simp: parseReplayRecordEncoding_def encoding_json_def bind_eq_Some_conv field_encodings.nullable_stable)

end
