(* ===== verification/Record_Replay.thy ===== *)
theory Record_Replay
  imports Record_Batches Structured_Replay
begin

text \<open>
  Replayed records (\<open>contracts/record-replay.ts\<close>): the declarative transform, the reviewed input, the
  batch it gives and the outcome. \<open>jp\<close> and \<open>jt\<close> are \<open>JSON.parse\<close> as in \<open>Structured_Replay\<close>. The
  decoded text of a value is a list of UTF-16 code units.
\<close>

section \<open>UTF-8 and UTF-16\<close>

text \<open>\<open>TextDecoder\<close> with \<open>fatal\<close> and \<open>ignoreBOM\<close>: the scalar_point values, None is its TypeError.\<close>

definition continuation_byte :: "nat \<Rightarrow> bool" where
  "continuation_byte b \<longleftrightarrow> 128 \<le> b \<and> b < 192"

fun utf8_points :: "nat list \<Rightarrow> nat list option" where
  "utf8_points [] = Some []"
| "utf8_points (a # bs) =
     (if a < 128 then map_option ((#) a) (utf8_points bs)
      else if 194 \<le> a \<and> a < 224 then
        (case bs of
           b # rest \<Rightarrow>
             if continuation_byte b then map_option ((#) ((a - 192) * 64 + (b - 128))) (utf8_points rest) else None
         | _ \<Rightarrow> None)
      else if 224 \<le> a \<and> a < 240 then
        (case bs of
           b # c # rest \<Rightarrow>
             let p = ((a - 224) * 64 + (b - 128)) * 64 + (c - 128)
             in if continuation_byte b \<and> continuation_byte c \<and> 2048 \<le> p \<and> \<not> (55296 \<le> p \<and> p < 57344)
                then map_option ((#) p) (utf8_points rest) else None
         | _ \<Rightarrow> None)
      else if 240 \<le> a \<and> a < 245 then
        (case bs of
           b # c # d # rest \<Rightarrow>
             let p = (((a - 240) * 64 + (b - 128)) * 64 + (c - 128)) * 64 + (d - 128)
             in if continuation_byte b \<and> continuation_byte c \<and> continuation_byte d \<and> 65536 \<le> p \<and> p < 1114112
                then map_option ((#) p) (utf8_points rest) else None
         | _ \<Rightarrow> None)
      else None)"

definition point_units :: "nat \<Rightarrow> nat list" where
  "point_units p = (if p < 65536 then [p] else [55296 + (p - 65536) div 1024, 56320 + (p - 65536) mod 1024])"

definition decode_text :: "nat list \<Rightarrow> nat list option" where
  "decode_text bytes = map_option (\<lambda>ps. concat (map point_units ps)) (utf8_points bytes)"

text \<open>\<open>TextEncoder\<close>: an unpaired surrogate becomes U+FFFD.\<close>

definition point_bytes :: "nat \<Rightarrow> nat list" where
  "point_bytes p =
     (if p < 128 then [p]
      else if p < 2048 then [192 + p div 64, 128 + p mod 64]
      else if p < 65536 then [224 + p div 4096, 128 + p div 64 mod 64, 128 + p mod 64]
      else [240 + p div 262144, 128 + p div 4096 mod 64, 128 + p div 64 mod 64, 128 + p mod 64])"

definition high_surrogate :: "nat \<Rightarrow> bool" where
  "high_surrogate u \<longleftrightarrow> 55296 \<le> u \<and> u < 56320"

definition low_surrogate :: "nat \<Rightarrow> bool" where
  "low_surrogate u \<longleftrightarrow> 56320 \<le> u \<and> u < 57344"

fun encode_text :: "nat list \<Rightarrow> nat list" where
  "encode_text [] = []"
| "encode_text (u # us) =
     (if high_surrogate u then
        (case us of
           v # rest \<Rightarrow>
             if low_surrogate v then point_bytes (65536 + (u - 55296) * 1024 + (v - 56320)) @ encode_text rest
             else point_bytes 65533 @ encode_text us
         | [] \<Rightarrow> point_bytes 65533)
      else if low_surrogate u then point_bytes 65533 @ encode_text us
      else point_bytes u @ encode_text us)"

text \<open>\<open>split\<close> on a non-empty text and \<open>join\<close>.\<close>

function split_text :: "nat list \<Rightarrow> nat list \<Rightarrow> nat list list" where
  "split_text sep [] = [[]]"
| "split_text sep (u # us) =
     (if sep \<noteq> [] \<and> take (length sep) (u # us) = sep then [] # split_text sep (drop (length sep) (u # us))
      else (case split_text sep us of [] \<Rightarrow> [[u]] | part # parts \<Rightarrow> (u # part) # parts))"
  by pat_completeness auto

termination
  by (relation "measure (\<lambda>(sep, us). length us)") (auto simp: Suc_diff_le[symmetric] length_greater_0_conv[symmetric] simp del: length_greater_0_conv)

fun join_text :: "nat list \<Rightarrow> nat list list \<Rightarrow> nat list" where
  "join_text sep [] = []"
| "join_text sep [part] = part"
| "join_text sep (part # next # parts) = part @ sep @ join_text sep (next # parts)"

text \<open>The code units of a modelled string, and back.\<close>

definition units_of :: "js_string \<Rightarrow> nat list" where
  "units_of s = map of_char s"

definition text_of :: "nat list \<Rightarrow> js_string" where
  "text_of us = map char_of us"

lemma text_of_units [simp]: "text_of (units_of s) = s"
  by (simp add: text_of_def units_of_def comp_def)

section \<open>Data\<close>

record replay_record =
  rr_topic :: js_string
  rr_partition :: int
  rr_offset :: js_string
  rr_timestampMs :: "js_string option"
  rr_original :: complete_record

record replay_transform =
  rt_key :: "js_string option option"
  rt_removeHeaders :: "js_string list"
  rt_appendHeaders :: "header_bytes list"
  rt_valueText :: "(nat list \<times> nat list) option"
    \<comment> \<open>search and replacement, as UTF-16 code units\<close>
  rt_structured :: "structured_transform option"

record replay_input =
  ri_targetProfile :: "(js_string \<times> int) option"
    \<comment> \<open>id and revision\<close>
  ri_topic :: js_string
  ri_partition :: int
  ri_ratePerSecond :: int
  ri_records :: "replay_record list"
  ri_transform :: replay_transform

record replay_review =
  rv_planId :: js_string
  rv_sourceName :: js_string
  rv_targetName :: js_string
  rv_expiresAt :: js_string
  rv_input :: replay_input
  rv_batch :: batch_input
  rv_destination :: write_destination
  rv_encoding :: "record_encoding list option"

datatype journal_state = Journal_Confirmed | Journal_Lost
datatype durability = Durable | Session_Only | No_Storage
datatype cleanup_state = Cleanup_Pending | Cleanup_Complete | Cleanup_Unavailable

record replay_outcome =
  ro_batch :: batch_outcome
  ro_cleanup :: cleanup_state
  ro_journal :: "(js_string \<times> journal_state \<times> durability) option"
    \<comment> \<open>job id, journal state, durability\<close>

definition final_cleanups :: "(js_string \<times> cleanup_state) list" where
  "final_cleanups = [(''complete'', Cleanup_Complete), (''unavailable'', Cleanup_Unavailable)]"

definition journal_states :: "(js_string \<times> journal_state) list" where
  "journal_states = [(''confirmed'', Journal_Confirmed), (''unavailable'', Journal_Lost)]"

definition durabilities :: "(js_string \<times> durability) list" where
  "durabilities = [(''durable'', Durable), (''session'', Session_Only), (''unavailable'', No_Storage)]"

definition replayConfirmation :: "replay_review \<Rightarrow> js_string" where
  "replayConfirmation r =
     rv_targetName r @ '' / '' @ ri_topic (rv_input r) @ '' / '' @ int_string (ri_partition (rv_input r))"

definition UNCHANGED_REPLAY_TRANSFORM :: replay_transform where
  "UNCHANGED_REPLAY_TRANSFORM = \<lparr>rt_key = None, rt_removeHeaders = [], rt_appendHeaders = [], rt_valueText = None,
     rt_structured = None\<rparr>"

section \<open>The transform\<close>

definition parse_key_edit :: "json option \<Rightarrow> js_string option option" where
  "parse_key_edit v =
     do { k \<leftarrow> record_value v;
          exactKeys k [''value''];
          nullable (\<lambda>v. parseRecordBase64 v 16384) (map_of k ''value'') }"

definition parse_text_edit :: "json option \<Rightarrow> (nat list \<times> nat list) option" where
  "parse_text_edit v =
     do { t \<leftarrow> record_value v;
          exactKeys t [''search'', ''replacement''];
          search \<leftarrow> plain_text (map_of t ''search'') 256;
          replacement \<leftarrow> boundedText (map_of t ''replacement'') 1024;
          Some (units_of search, units_of replacement) }"

text \<open>The record that carries the headers to append.\<close>

definition envelope_json :: "json list \<Rightarrow> json" where
  "envelope_json headers = JObj [(''state'', JStr ''complete''), (''encoding'', JStr ''base64''), (''key'', JNull),
     (''value'', JNull), (''headers'', JArr headers)]"

definition parseReplayTransform :: "(js_string \<Rightarrow> json option) \<Rightarrow> json option \<Rightarrow> replay_transform option" where
  "parseReplayTransform jp v =
     do { t \<leftarrow> record_value v;
          exactKeys t [''key'', ''removeHeaders'', ''appendHeaders'', ''valueText'', ''structured''];
          key \<leftarrow> nullable parse_key_edit (map_of t ''key'');
          removed \<leftarrow> array_value (map_of t ''removeHeaders'');
          appended \<leftarrow> array_value (map_of t ''appendHeaders'');
          check (length removed \<le> 16 \<and> length appended \<le> 16);
          envelope \<leftarrow> parseKafkaOriginalRecord (Some (envelope_json appended));
          headers \<leftarrow> (case envelope of Complete r \<Rightarrow> Some (complete_headers r) | Unavailable _ \<Rightarrow> None);
          valueText \<leftarrow> nullable parse_text_edit (map_of t ''valueText'');
          structured \<leftarrow> optional_value (parseStructuredReplayTransform jp) (map_of t ''structured'');
          check (case structured of
                   None \<Rightarrow> True
                 | Some s \<Rightarrow> \<not> (st_key s \<noteq> None \<and> key \<noteq> None) \<and> \<not> (st_value s \<noteq> None \<and> valueText \<noteq> None));
          removeHeaders \<leftarrow> parse_all (\<lambda>k. parseRecordBase64 k 512) removed;
          Some \<lparr>rt_key = key, rt_removeHeaders = removeHeaders, rt_appendHeaders = headers, rt_valueText = valueText,
            rt_structured = structured\<rparr> }"

definition encode_base64 :: "nat list \<Rightarrow> js_string" where
  "encode_base64 text = btoa (encode_text text)"

definition replace_text :: "nat list \<times> nat list \<Rightarrow> js_string \<Rightarrow> js_string option" where
  "replace_text edit val =
     do { bytes \<leftarrow> atob val;
          decoded \<leftarrow> decode_text bytes;
          let parts = split_text (fst edit) decoded;
          check (int (length decoded) + (int (length parts) - 1) * (int (length (snd edit)) - int (length (fst edit))) \<le> 16384);
          Some (encode_base64 (join_text (snd edit) parts)) }"

definition transformReplayRecord :: "complete_record \<Rightarrow> replay_transform \<Rightarrow> complete_record option" where
  "transformReplayRecord original transform =
     do { check (rt_structured transform = None);
          val \<leftarrow> (case (rt_valueText transform, complete_value original) of
                    (Some edit, Some val) \<Rightarrow> map_option Some (replace_text edit val)
                  | _ \<Rightarrow> Some (complete_value original));
          Some \<lparr>complete_key = (case rt_key transform of None \<Rightarrow> complete_key original | Some key \<Rightarrow> key),
            complete_value = val,
            complete_headers = filter (\<lambda>h. header_key h \<notin> set (rt_removeHeaders transform)) (complete_headers original)
              @ rt_appendHeaders transform\<rparr> }"


section \<open>Inputs, reviews and outcomes\<close>

definition parse_replay_record :: "json option \<Rightarrow> replay_record option" where
  "parse_replay_record v =
     do { r \<leftarrow> record_value v;
          exactKeys r [''topic'', ''partition'', ''offset'', ''timestampMs'', ''original''];
          original \<leftarrow> parseKafkaOriginalRecord (map_of r ''original'');
          complete \<leftarrow> (case original of Complete c \<Rightarrow> Some c | Unavailable _ \<Rightarrow> None);
          topic \<leftarrow> plain_text (map_of r ''topic'') 249;
          part \<leftarrow> safeNonNegative (map_of r ''partition'');
          offset \<leftarrow> offsetPosition (map_of r ''offset'');
          timestamp \<leftarrow> nullable offsetPosition (map_of r ''timestampMs'');
          Some \<lparr>rr_topic = topic, rr_partition = part, rr_offset = offset, rr_timestampMs = timestamp,
            rr_original = complete\<rparr> }"

definition replay_identity :: "replay_record \<Rightarrow> js_string" where
  "replay_identity r = rr_topic r @ '':'' @ int_string (rr_partition r) @ '':'' @ rr_offset r"

definition parse_profile :: "json option \<Rightarrow> (js_string \<times> int) option" where
  "parse_profile v =
     do { p \<leftarrow> record_value v;
          exactKeys p [''id'', ''revision''];
          i \<leftarrow> plain_text (map_of p ''id'') 128;
          revision \<leftarrow> positiveBoundedInteger (map_of p ''revision'') max_safe_integer;
          Some (i, revision) }"

text \<open>The batch a replay is checked as, its members read from the replay.\<close>

definition replay_batch_json ::
  "json option \<Rightarrow> json option \<Rightarrow> json option \<Rightarrow> complete_record list \<Rightarrow> js_string option list \<Rightarrow> json" where
  "replay_batch_json topic part rate records timestamps =
     JObj (optional_member ''topic'' id topic @ optional_member ''partition'' id part
       @ optional_member ''ratePerSecond'' id rate
       @ [(''records'', JArr (map complete_json records)), (''timestamps'', timestamps_json timestamps)])"

definition parseRecordReplayInput :: "(js_string \<Rightarrow> json option) \<Rightarrow> json option \<Rightarrow> replay_input option" where
  "parseRecordReplayInput jp v =
     do { r \<leftarrow> record_value v;
          exactKeys r [''targetProfile'', ''topic'', ''partition'', ''ratePerSecond'', ''records'', ''transform''];
          items \<leftarrow> array_value (map_of r ''records'');
          check (length items \<noteq> 0 \<and> length items \<le> batch_count);
          records \<leftarrow> parse_all parse_replay_record items;
          check (distinct (map replay_identity records));
          batch \<leftarrow> parseRecordBatchInput (Some (replay_batch_json (map_of r ''topic'') (map_of r ''partition'')
                     (map_of r ''ratePerSecond'') (map rr_original records) (map rr_timestampMs records)));
          profile \<leftarrow> nullable parse_profile (map_of r ''targetProfile'');
          transform \<leftarrow> parseReplayTransform jp (map_of r ''transform'');
          Some \<lparr>ri_targetProfile = profile, ri_topic = bi_topic batch, ri_partition = bi_partition batch,
            ri_ratePerSecond = bi_ratePerSecond batch, ri_records = records, ri_transform = transform\<rparr> }"

definition replayBatch :: "replay_input \<Rightarrow> batch_input option" where
  "replayBatch r =
     do { check (rt_structured (ri_transform r) = None);
          outputs \<leftarrow> those (map (\<lambda>x. transformReplayRecord (rr_original x) (ri_transform r)) (ri_records r));
          parseRecordBatchInput (Some (replay_batch_json (Some (JStr (ri_topic r))) (Some (int_json (ri_partition r)))
            (Some (int_json (ri_ratePerSecond r))) outputs (map rr_timestampMs (ri_records r)))) }"

definition parse_destination :: "json option \<Rightarrow> write_destination option" where
  "parse_destination v =
     do { d \<leftarrow> record_value v;
          exactKeys d [''clusterId'', ''topicId'', ''partitions''];
          clusterId \<leftarrow> plain_text (map_of d ''clusterId'') 256;
          topicId \<leftarrow> plain_text (map_of d ''topicId'') 256;
          partitions \<leftarrow> positiveBoundedInteger (map_of d ''partitions'') 100000;
          Some \<lparr>dst_clusterId = clusterId, dst_topicId = topicId, dst_partitions = partitions\<rparr> }"

definition parse_evidence :: "nat \<Rightarrow> json option \<Rightarrow> record_encoding list option" where
  "parse_evidence n v =
     do { items \<leftarrow> array_value v;
          check (length items = n);
          parse_all parseReplayRecordEncoding items }"

text \<open>One reviewed record against the batch: its writers, and its bytes outside the structured fields.\<close>

definition output_reviewed ::
  "(nat list \<Rightarrow> bool) \<Rightarrow> replay_transform \<Rightarrow> structured_transform \<Rightarrow> replay_record \<Rightarrow> complete_record \<Rightarrow> record_encoding \<Rightarrow>
   unit option" where
  "output_reviewed jt transform structured source output evidence =
     do { validateReplayEncoding jt (rr_original source) output structured evidence;
          ordinary \<leftarrow> transformReplayRecord (rr_original source) (transform\<lparr>rt_structured := None\<rparr>);
          check ((st_key structured = None \<longrightarrow> complete_key ordinary = complete_key output)
            \<and> (st_value structured = None \<longrightarrow> complete_value ordinary = complete_value output)
            \<and> complete_headers ordinary = complete_headers output) }"

definition structured_batch ::
  "(nat list \<Rightarrow> bool) \<Rightarrow> replay_input \<Rightarrow> batch_input \<Rightarrow> structured_transform \<Rightarrow> record_encoding list \<Rightarrow> unit option" where
  "structured_batch jt input batch structured encoding =
     do { check (length (bi_records batch) = length (ri_records input) \<and> bi_topic batch = ri_topic input
            \<and> bi_partition batch = ri_partition input \<and> bi_ratePerSecond batch = ri_ratePerSecond input
            \<and> bi_timestamps batch = Some (map rr_timestampMs (ri_records input)));
          checks \<leftarrow> those (map (\<lambda>(source, output, evidence). output_reviewed jt (ri_transform input) structured source output evidence)
            (zip (ri_records input) (zip (bi_records batch) encoding)));
          Some () }"

definition reviewed_evidence ::
  "(nat list \<Rightarrow> bool) \<Rightarrow> replay_input \<Rightarrow> batch_input \<Rightarrow> record_encoding list option \<Rightarrow> unit option" where
  "reviewed_evidence jt input batch encoding =
     (case (rt_structured (ri_transform input), encoding) of
        (Some structured, Some evidence) \<Rightarrow> structured_batch jt input batch structured evidence
      | _ \<Rightarrow> Some ())"

definition parseRecordReplayReview ::
  "(js_string \<Rightarrow> json option) \<Rightarrow> (nat list \<Rightarrow> bool) \<Rightarrow> json option \<Rightarrow> replay_review option" where
  "parseRecordReplayReview jp jt v =
     do { r \<leftarrow> record_value v;
          exactKeys r [''planId'', ''sourceName'', ''targetName'', ''expiresAt'', ''input'', ''batch'', ''destination'',
            ''encoding''];
          destination \<leftarrow> parse_destination (map_of r ''destination'');
          input \<leftarrow> parseRecordReplayInput jp (map_of r ''input'');
          encoding \<leftarrow> optional_value (parse_evidence (length (ri_records input))) (map_of r ''encoding'');
          check ((rt_structured (ri_transform input) \<noteq> None) = (encoding \<noteq> None));
          batch \<leftarrow> parseRecordBatchInput (map_of r ''batch'');
          reviewed_evidence jt input batch encoding;
          planId \<leftarrow> plain_text (map_of r ''planId'') 128;
          sourceName \<leftarrow> plain_text (map_of r ''sourceName'') 256;
          targetName \<leftarrow> plain_text (map_of r ''targetName'') 256;
          expiresAt \<leftarrow> plain_text (map_of r ''expiresAt'') 64;
          Some \<lparr>rv_planId = planId, rv_sourceName = sourceName, rv_targetName = targetName, rv_expiresAt = expiresAt,
            rv_input = input, rv_batch = batch, rv_destination = destination, rv_encoding = encoding\<rparr> }"

definition parse_journal_members :: "json_object \<Rightarrow> (js_string \<times> journal_state \<times> durability) option option" where
  "parse_journal_members r =
     (if map_of r ''jobId'' = None then Some None
      else do { jobId \<leftarrow> plain_text (map_of r ''jobId'') 128;
                journal \<leftarrow> declaredValue journal_states (map_of r ''journal'');
                durability \<leftarrow> declaredValue durabilities (map_of r ''durability'');
                Some (Some (jobId, journal, durability)) })"

definition parseRecordReplayOutcome :: "json option \<Rightarrow> replay_outcome option" where
  "parseRecordReplayOutcome v =
     do { r \<leftarrow> record_value v;
          exactKeys r [''total'', ''unsent'', ''outcomes'', ''stopReason'', ''cleanup'', ''jobId'', ''journal'', ''durability''];
          check ((map_of r ''jobId'' = None) = (map_of r ''journal'' = None)
            \<and> (map_of r ''jobId'' = None) = (map_of r ''durability'' = None));
          batch \<leftarrow> parseRecordBatchOutcome (Some (JObj (optional_member ''total'' id (map_of r ''total'')
            @ optional_member ''unsent'' id (map_of r ''unsent'') @ optional_member ''outcomes'' id (map_of r ''outcomes'')
            @ optional_member ''stopReason'' id (map_of r ''stopReason''))));
          cleanup \<leftarrow> declaredValue final_cleanups (map_of r ''cleanup'');
          journal \<leftarrow> parse_journal_members r;
          Some \<lparr>ro_batch = batch, ro_cleanup = cleanup, ro_journal = journal\<rparr> }"

section \<open>Rendering\<close>

definition text_edit_json :: "nat list \<times> nat list \<Rightarrow> json" where
  "text_edit_json edit = JObj [(''search'', JStr (text_of (fst edit))), (''replacement'', JStr (text_of (snd edit)))]"

definition key_edit_json :: "js_string option \<Rightarrow> json" where
  "key_edit_json key = JObj [(''value'', nullable_json JStr key)]"

definition transform_json :: "replay_transform \<Rightarrow> json" where
  "transform_json t =
     JObj ([(''key'', nullable_json key_edit_json (rt_key t)), (''valueText'', nullable_json text_edit_json (rt_valueText t)),
        (''removeHeaders'', JArr (map JStr (rt_removeHeaders t))),
        (''appendHeaders'', JArr (map header_bytes_json (rt_appendHeaders t)))]
       @ optional_member ''structured'' structured_json (rt_structured t))"

definition replay_record_json :: "replay_record \<Rightarrow> json" where
  "replay_record_json r =
     JObj [(''topic'', JStr (rr_topic r)), (''partition'', int_json (rr_partition r)), (''offset'', JStr (rr_offset r)),
       (''timestampMs'', nullable_json JStr (rr_timestampMs r)), (''original'', complete_json (rr_original r))]"

definition profile_json :: "js_string \<times> int \<Rightarrow> json" where
  "profile_json p = JObj [(''id'', JStr (fst p)), (''revision'', int_json (snd p))]"

definition replay_input_json :: "replay_input \<Rightarrow> json" where
  "replay_input_json r =
     JObj [(''targetProfile'', nullable_json profile_json (ri_targetProfile r)), (''topic'', JStr (ri_topic r)),
       (''partition'', int_json (ri_partition r)), (''ratePerSecond'', int_json (ri_ratePerSecond r)),
       (''records'', JArr (map replay_record_json (ri_records r))), (''transform'', transform_json (ri_transform r))]"

definition destination_record_json :: "write_destination \<Rightarrow> json" where
  "destination_record_json d =
     JObj [(''clusterId'', JStr (dst_clusterId d)), (''topicId'', JStr (dst_topicId d)),
       (''partitions'', int_json (dst_partitions d))]"

definition evidence_json :: "record_encoding list \<Rightarrow> json" where
  "evidence_json es = JArr (map encoding_json es)"

definition review_json :: "replay_review \<Rightarrow> json" where
  "review_json r =
     JObj ([(''planId'', JStr (rv_planId r)), (''sourceName'', JStr (rv_sourceName r)), (''targetName'', JStr (rv_targetName r)),
        (''expiresAt'', JStr (rv_expiresAt r)), (''input'', replay_input_json (rv_input r)), (''batch'', batch_json (rv_batch r)),
        (''destination'', destination_record_json (rv_destination r))]
       @ optional_member ''encoding'' evidence_json (rv_encoding r))"

definition replay_outcome_json :: "replay_outcome \<Rightarrow> json" where
  "replay_outcome_json r =
     JObj (batch_outcome_members (ro_batch r) @ [(''cleanup'', declared_json final_cleanups (ro_cleanup r))]
       @ (case ro_journal r of None \<Rightarrow> []
          | Some (jobId, journal, durability) \<Rightarrow>
              [(''jobId'', JStr jobId), (''journal'', declared_json journal_states journal),
               (''durability'', declared_json durabilities durability)]))"


section \<open>Replays are contracts\<close>

lemma replay_stables [contract_simps]:
  "declaredValue final_cleanups v = Some c \<Longrightarrow> declaredValue final_cleanups (Some (declared_json final_cleanups c)) = Some c"
  "declaredValue journal_states v = Some j \<Longrightarrow> declaredValue journal_states (Some (declared_json journal_states j)) = Some j"
  "declaredValue durabilities v = Some d \<Longrightarrow> declaredValue durabilities (Some (declared_json durabilities d)) = Some d"
  by (rule declared_stable; simp add: final_cleanups_def journal_states_def durabilities_def)+

interpretation key_edits: contract parse_key_edit key_edit_json
  by unfold_locales (auto simp: parse_key_edit_def key_edit_json_def bind_eq_Some_conv base64.nullable_stable)

interpretation text_edits: contract parse_text_edit text_edit_json
  by unfold_locales
     (auto simp: parse_text_edit_def text_edit_json_def bind_eq_Some_conv texts.stable bounded.stable)

lemma envelope_headers:
  "parseKafkaOriginalRecord (Some (envelope_json vs)) = Some (Complete r) \<Longrightarrow>
   length (complete_headers r) = length vs \<and>
   parseKafkaOriginalRecord (Some (envelope_json (map header_bytes_json (complete_headers r)))) = Some (Complete r)"
proof -
  assume "parseKafkaOriginalRecord (Some (envelope_json vs)) = Some (Complete r)"
  then obtain hs where h: "parse_all parse_header vs = Some hs"
    and r: "r = \<lparr>complete_key = None, complete_value = None, complete_headers = hs\<rparr>"
    and n: "length vs \<le> original_headers" "kafkaOriginalRecordByteLength r \<le> int original_bytes"
    by (auto simp: parseKafkaOriginalRecord_def parse_complete_def envelope_json_def bind_eq_Some_conv nullable_def)
  show ?thesis
    using headers.all_stable [OF h] headers.all_length [OF h] n
    by (simp add: r parseKafkaOriginalRecord_def parse_complete_def envelope_json_def nullable_def check_def exactKeys_def)
qed

interpretation transforms: contract "parseReplayTransform jp" transform_json for jp
proof
  fix v x assume "parseReplayTransform jp v = Some x"
  then obtain t key removed appended envelope hs valueText structured removeHeaders where
    p: "nullable parse_key_edit (map_of t ''key'') = Some key"
    "length removed \<le> 16 \<and> length appended \<le> 16"
    "parseKafkaOriginalRecord (Some (envelope_json appended)) = Some envelope"
    "(case envelope of Complete r \<Rightarrow> Some (complete_headers r) | Unavailable _ \<Rightarrow> None) = Some hs"
    "nullable parse_text_edit (map_of t ''valueText'') = Some valueText"
    "optional_value (parseStructuredReplayTransform jp) (map_of t ''structured'') = Some structured"
    "case structured of
       None \<Rightarrow> True
     | Some s \<Rightarrow> \<not> (st_key s \<noteq> None \<and> key \<noteq> None) \<and> \<not> (st_value s \<noteq> None \<and> valueText \<noteq> None)"
    "parse_all (\<lambda>k. parseRecordBase64 k 512) removed = Some removeHeaders"
    and x: "x = \<lparr>rt_key = key, rt_removeHeaders = removeHeaders, rt_appendHeaders = hs, rt_valueText = valueText,
            rt_structured = structured\<rparr>"
    unfolding parseReplayTransform_def bind_eq_Some_conv check_Some by blast
  obtain r where r: "envelope = Complete r" "hs = complete_headers r" using p(4) by (auto split: original_record.splits)
  have opt: "optional_value (parseStructuredReplayTransform jp) (map_option structured_json structured) = Some structured"
    by (rule optional_member_of [OF p(6) structured.contract_axioms])
  show "parseReplayTransform jp (Some (transform_json x)) = Some x"
    using key_edits.nullable_stable [OF p(1)] p(2) envelope_headers [OF p(3) [unfolded r(1)]]
      text_edits.nullable_stable [OF p(5)] opt p(7) base64.all_stable [OF p(8)] base64.all_length [OF p(8)]
    by (cases structured)
       (simp_all add: x r parseReplayTransform_def transform_json_def exactKeys_def check_def optional_member_def)
qed (simp add: transform_json_def)

lemma replay_record_Some:
  "parseKafkaOriginalRecord v = Some (Complete r) \<Longrightarrow> parseKafkaOriginalRecord (Some (complete_json r)) = Some (Complete r)"
  using originals.stable [of v "Complete r"] by (simp add: original_json_def)

lemma only_complete:
  "(case r of Complete c \<Rightarrow> Some c | Unavailable _ \<Rightarrow> None) = Some c \<longleftrightarrow> r = Complete c"
  by (simp split: original_record.split)

interpretation replay_records: contract parse_replay_record replay_record_json
  by unfold_locales
     (auto simp: parse_replay_record_def replay_record_json_def bind_eq_Some_conv texts.stable naturals.stable offsets.stable
       offsets.nullable_stable replay_record_Some only_complete)

interpretation profiles: contract parse_profile profile_json
  by unfold_locales
     (auto simp: parse_profile_def profile_json_def bind_eq_Some_conv texts.stable positives.stable)

lemma record_value_Some: "record_value v = Some fs \<longleftrightarrow> v = Some (JObj fs)"
  by (auto simp: record_value_def split: option.splits json.splits)

text \<open>The batch of a replay depends on its members only through what they parse to.\<close>

lemma replay_batch_members:
  assumes "parseRecordBatchInput (Some (replay_batch_json topic part rate rs ts)) = Some b"
  shows "parseRecordBatchInput (Some (replay_batch_json (Some (JStr (bi_topic b))) (Some (int_json (bi_partition b)))
     (Some (int_json (bi_ratePerSecond b))) rs ts)) = Some b"
proof -
  obtain input where p: "record_value (Some (replay_batch_json topic part rate rs ts)) = Some input"
    "boundedRecords (map_of input ''records'') = Some (bi_records b)"
    "optional_value (parse_timestamps (length (bi_records b))) (map_of input ''timestamps'') = Some (bi_timestamps b)"
    "topic_name (map_of input ''topic'') = Some (bi_topic b)"
    "safeNonNegative (map_of input ''partition'') = Some (bi_partition b)"
    "positiveBoundedInteger (map_of input ''ratePerSecond'') batch_rate = Some (bi_ratePerSecond b)"
    "\<exists>c. parse_complete_record (Some (complete_json (hd (bi_records b)))) 65536 = Some c"
    using batch_parts [OF assms] by metis
  obtain c where c: "parse_complete_record (Some (complete_json (hd (bi_records b)))) 65536 = Some c" using p(7) by blast
  have i: "map_of input ''records'' = Some (JArr (map complete_json rs))" "map_of input ''timestamps'' = Some (timestamps_json ts)"
    using p(1) by (auto simp: replay_batch_json_def simp del: map_of_append)
  have w: "parseKafkaWriteInput (Some (destination_json (Some (JStr (bi_topic b))) (Some (int_json (bi_partition b)))
      (hd (bi_records b)))) = Some (Record_Write None (bi_topic b) (bi_partition b) c)"
    using topics.stable [OF p(4)] naturals.stable [OF p(5)] c unfolding destination_parses by blast
  show ?thesis
    using p(2,3) w positives.stable [OF p(6)] unfolding i
    by (simp add: parseRecordBatchInput_def replay_batch_json_def exactKeys_def check_def optional_member_def)
qed

interpretation replays: contract "parseRecordReplayInput jp" replay_input_json for jp
proof
  fix v x assume "parseRecordReplayInput jp v = Some x"
  then obtain r items records batch profile transform where
    p: "length items \<noteq> 0 \<and> length items \<le> batch_count" "parse_all parse_replay_record items = Some records"
    "distinct (map replay_identity records)"
    "parseRecordBatchInput (Some (replay_batch_json (map_of r ''topic'') (map_of r ''partition'')
                     (map_of r ''ratePerSecond'') (map rr_original records) (map rr_timestampMs records))) = Some batch"
    "nullable parse_profile (map_of r ''targetProfile'') = Some profile"
    "parseReplayTransform jp (map_of r ''transform'') = Some transform"
    and x: "x = \<lparr>ri_targetProfile = profile, ri_topic = bi_topic batch, ri_partition = bi_partition batch,
            ri_ratePerSecond = bi_ratePerSecond batch, ri_records = records, ri_transform = transform\<rparr>"
    unfolding parseRecordReplayInput_def bind_eq_Some_conv check_Some by blast
  have "records \<noteq> []" using replay_records.all_length [OF p(2)] p(1) by auto
  then show "parseRecordReplayInput jp (Some (replay_input_json x)) = Some x"
    using p(1,3) replay_records.all_stable [OF p(2)] replay_records.all_length [OF p(2)] replay_batch_members [OF p(4)]
      profiles.nullable_stable [OF p(5)] transforms.stable [OF p(6)]
    by (simp add: x parseRecordReplayInput_def replay_input_json_def exactKeys_def check_def)
qed (simp add: replay_input_json_def)

interpretation destinations: contract parse_destination destination_record_json
  by unfold_locales
     (auto simp: parse_destination_def destination_record_json_def bind_eq_Some_conv texts.stable positives.stable)

interpretation evidence: contract "parse_evidence n" evidence_json for n
  by unfold_locales
     (auto simp: parse_evidence_def evidence_json_def bind_eq_Some_conv encodings.all_stable encodings.all_length)

interpretation reviews: contract "parseRecordReplayReview jp jt" review_json for jp jt
proof
  fix v x assume "parseRecordReplayReview jp jt v = Some x"
  then obtain r destination input encoding batch u planId sourceName targetName expiresAt where
    p: "parse_destination (map_of r ''destination'') = Some destination"
    "parseRecordReplayInput jp (map_of r ''input'') = Some input"
    "optional_value (parse_evidence (length (ri_records input))) (map_of r ''encoding'') = Some encoding"
    "(rt_structured (ri_transform input) \<noteq> None) = (encoding \<noteq> None)"
    "parseRecordBatchInput (map_of r ''batch'') = Some batch"
    "reviewed_evidence jt input batch encoding = Some u"
    "plain_text (map_of r ''planId'') 128 = Some planId" "plain_text (map_of r ''sourceName'') 256 = Some sourceName"
    "plain_text (map_of r ''targetName'') 256 = Some targetName" "plain_text (map_of r ''expiresAt'') 64 = Some expiresAt"
    and x: "x = \<lparr>rv_planId = planId, rv_sourceName = sourceName, rv_targetName = targetName, rv_expiresAt = expiresAt,
            rv_input = input, rv_batch = batch, rv_destination = destination, rv_encoding = encoding\<rparr>"
    unfolding parseRecordReplayReview_def bind_eq_Some_conv check_Some
    by - (elim exE conjE, rule that, assumption+, simp)
  have opt: "optional_value (parse_evidence (length (ri_records input))) (map_option evidence_json encoding) = Some encoding"
    by (rule optional_member_of [OF p(3) evidence.contract_axioms])
  show "parseRecordReplayReview jp jt (Some (review_json x)) = Some x"
    using destinations.stable [OF p(1)] replays.stable [OF p(2)] opt p(4) batches.stable [OF p(5)] p(6)
      texts.stable [OF p(7)] texts.stable [OF p(8)] texts.stable [OF p(9)] texts.stable [OF p(10)]
    by (cases encoding)
       (simp_all add: x parseRecordReplayReview_def review_json_def exactKeys_def check_def optional_member_def)
qed (simp add: review_json_def)

end
