(* ===== verification/Replay_Transform.thy ===== *)
theory Replay_Transform
  imports Record_Replay
begin

text \<open>
  The text edit of a replayed value, over texts of UTF-16 code units: the UTF-8 codec is exact on
  well-formed text, splitting and joining at well-formed texts never leave it, and so a well-formed
  edit changes exactly the occurrences it names. The code accepts edits with unpaired surrogates too:
  these can cut a character in two, whose halves the encoder then replaces.
\<close>

section \<open>The UTF-8 codec\<close>

definition scalar_point :: "nat \<Rightarrow> bool" where
  "scalar_point p \<longleftrightarrow> p < 55296 \<or> (57344 \<le> p \<and> p < 1114112)"

lemma low_digit: "y < 64 \<Longrightarrow> (x * 64 + y) div 64 = x \<and> (x * 64 + y) mod 64 = y" for x y :: nat
  by simp

lemma div_steps: "p div 4096 = p div 64 div 64" "p div 262144 = p div 64 div 64 div 64" for p :: nat
  by (simp_all add: div_mult2_eq [symmetric])

lemma two_byte:
  assumes "194 \<le> a" "a < 224" "128 \<le> b" "b < 192" and "p = (a - 192) * 64 + (b - 128)"
  shows "point_bytes p = [a, b] \<and> scalar_point p"
proof -
  have "p div 64 = a - 192 \<and> p mod 64 = b - 128" unfolding assms(5) by (rule low_digit) (use assms in simp)
  moreover have "128 \<le> p" "p < 2048" using assms by simp_all
  ultimately show ?thesis using assms(1-4) by (simp add: point_bytes_def scalar_point_def)
qed

lemma three_byte:
  assumes "224 \<le> a" "a < 240" "128 \<le> b" "b < 192" "128 \<le> c" "c < 192"
    and "p = ((a - 224) * 64 + (b - 128)) * 64 + (c - 128)" "2048 \<le> p" "\<not> (55296 \<le> p \<and> p < 57344)"
  shows "point_bytes p = [a, b, c] \<and> scalar_point p"
proof -
  have "p div 64 = (a - 224) * 64 + (b - 128) \<and> p mod 64 = c - 128"
    unfolding assms(7) by (rule low_digit) (use assms in simp)
  moreover have "((a - 224) * 64 + (b - 128)) div 64 = a - 224 \<and> ((a - 224) * 64 + (b - 128)) mod 64 = b - 128"
    by (rule low_digit) (use assms in simp)
  moreover have "p < 65536" using assms(1-6) unfolding assms(7) by simp
  ultimately show ?thesis using assms(1-6,8,9) by (auto simp: point_bytes_def scalar_point_def div_steps)
qed

lemma four_byte:
  assumes "240 \<le> a" "a < 245" "128 \<le> b" "b < 192" "128 \<le> c" "c < 192" "128 \<le> d" "d < 192"
    and "p = (((a - 240) * 64 + (b - 128)) * 64 + (c - 128)) * 64 + (d - 128)" "65536 \<le> p" "p < 1114112"
  shows "point_bytes p = [a, b, c, d] \<and> scalar_point p"
proof -
  have "p div 64 = ((a - 240) * 64 + (b - 128)) * 64 + (c - 128) \<and> p mod 64 = d - 128"
    unfolding assms(9) by (rule low_digit) (use assms(7,8) in simp)
  moreover have "(((a - 240) * 64 + (b - 128)) * 64 + (c - 128)) div 64 = (a - 240) * 64 + (b - 128)
     \<and> (((a - 240) * 64 + (b - 128)) * 64 + (c - 128)) mod 64 = c - 128"
    by (rule low_digit) (use assms(5,6) in simp)
  moreover have "((a - 240) * 64 + (b - 128)) div 64 = a - 240 \<and> ((a - 240) * 64 + (b - 128)) mod 64 = b - 128"
    by (rule low_digit) (use assms(3,4) in simp)
  ultimately show ?thesis using assms(1-8,10,11) by (simp add: point_bytes_def scalar_point_def div_steps)
qed

text \<open>Accepted bytes are the encoding of their scalar_point values.\<close>

lemma utf8_points_bytes: "utf8_points bs = Some ps \<Longrightarrow> concat (map point_bytes ps) = bs \<and> list_all scalar_point ps"
proof (induction bs arbitrary: ps rule: utf8_points.induct)
  case (2 a bs)
  note run = 2(5)
  consider (one) "a < 128" | (two) "194 \<le> a" "a < 224" | (three) "224 \<le> a" "a < 240" | (four) "240 \<le> a" "a < 245"
    using run by (auto split: if_splits)
  then show ?case
  proof cases
    case one
    then obtain qs where q: "utf8_points bs = Some qs" "ps = a # qs" using run by auto
    then show ?thesis using 2(1) [OF one q(1)] one by (simp add: point_bytes_def scalar_point_def)
  next
    case two
    then obtain b rest qs where q: "bs = b # rest" "continuation_byte b" "utf8_points rest = Some qs"
      "ps = ((a - 192) * 64 + (b - 128)) # qs"
      using run by (auto split: list.splits if_splits)
    have "concat (map point_bytes qs) = rest \<and> list_all scalar_point qs" by (rule 2(2)) (use two q in auto)
    then show ?thesis using two_byte [of a b] two q by (auto simp: continuation_byte_def)
  next
    case three
    then obtain b c rest qs where q: "bs = b # c # rest" "continuation_byte b" "continuation_byte c" "utf8_points rest = Some qs"
      "ps = (((a - 224) * 64 + (b - 128)) * 64 + (c - 128)) # qs" "2048 \<le> ((a - 224) * 64 + (b - 128)) * 64 + (c - 128)"
      "\<not> (55296 \<le> ((a - 224) * 64 + (b - 128)) * 64 + (c - 128) \<and> ((a - 224) * 64 + (b - 128)) * 64 + (c - 128) < 57344)"
      using run by (auto simp: Let_def split: list.splits if_splits)
    have "concat (map point_bytes qs) = rest \<and> list_all scalar_point qs" 
      by (rule 2(3) [OF _ _ _ q(1) refl refl]) (use three q in simp_all)
    then show ?thesis using three_byte [of a b c] three q by (auto simp: continuation_byte_def)
  next
    case four
    then obtain b c d rest qs where q: "bs = b # c # d # rest" "continuation_byte b" "continuation_byte c" "continuation_byte d"
      "utf8_points rest = Some qs" "ps = ((((a - 240) * 64 + (b - 128)) * 64 + (c - 128)) * 64 + (d - 128)) # qs"
      "65536 \<le> (((a - 240) * 64 + (b - 128)) * 64 + (c - 128)) * 64 + (d - 128)"
      "(((a - 240) * 64 + (b - 128)) * 64 + (c - 128)) * 64 + (d - 128) < 1114112"
      using run by (auto simp: Let_def split: list.splits if_splits)
    have "concat (map point_bytes qs) = rest \<and> list_all scalar_point qs" 
      by (rule 2(4) [OF _ _ _ _ q(1) refl refl refl]) (use four q in simp_all)
    then show ?thesis using four_byte [of a b c d] four q by (auto simp: continuation_byte_def)
  qed
qed simp


lemma head_digit: "y < 64 \<Longrightarrow> (x * 64 + y) div 64 = x" for x y :: nat
  by simp

lemma byte_less: "point_bytes p = bs \<Longrightarrow> scalar_point p \<Longrightarrow> b \<in> set bs \<Longrightarrow> b < 256"
  by (auto simp: point_bytes_def scalar_point_def div_steps split: if_splits)

lemma point_decodes:
  assumes "scalar_point p"
  shows "utf8_points (point_bytes p @ bs) = map_option ((#) p) (utf8_points bs)"
proof -
  define h where "h = p div 64"
  define l where "l = p mod 64"
  have p: "p = h * 64 + l" "l < 64" by (simp_all add: h_def l_def)
  define g where "g = h div 64"
  define m where "m = h mod 64"
  have h: "h = g * 64 + m" "m < 64" by (simp_all add: g_def m_def)
  define f where "f = g div 64"
  define n where "n = g mod 64"
  have g: "g = f * 64 + n" "n < 64" by (simp_all add: f_def n_def)
  have digits: "p div 64 = h" "p mod 64 = l" "p div 4096 = g" "p div 64 mod 64 = m" "p div 4096 mod 64 = n"
    "p div 262144 = f"
    by (simp_all add: h_def l_def g_def m_def f_def n_def div_steps)
  consider "p < 128" | "128 \<le> p" "p < 2048" | "2048 \<le> p" "p < 65536" | "65536 \<le> p" by linarith
  then show ?thesis
  proof cases
    case 2
    have hb: "2 \<le> h" "h < 32" using 2 p by linarith+
    have b: "point_bytes p = [192 + h, 128 + l]" using 2 digits by (simp add: point_bytes_def)
    have v: "(192 + h - 192) * 64 + (128 + l - 128) = p" using p(1) by simp
    show ?thesis unfolding b using hb p(2) v by (simp add: continuation_byte_def)
  next
    case 3
    have gb: "g < 16" using 3 p h by linarith
    have b: "point_bytes p = [224 + g, 128 + m, 128 + l]" using 3 digits by (simp add: point_bytes_def)
    have s: "\<not> (55296 \<le> p \<and> p < 57344)" using assms by (auto simp: scalar_point_def)
    have v: "((224 + g - 224) * 64 + (128 + m - 128)) * 64 + (128 + l - 128) = p" using p(1) h(1) by simp
    show ?thesis unfolding b using gb h(2) p(2) 3 s v by (simp add: continuation_byte_def Let_def)
  next
    case 4
    have small: "p < 1114112" using assms 4 by (auto simp: scalar_point_def)
    have fb: "f < 5" using small p h g by linarith
    have b: "point_bytes p = [240 + f, 128 + n, 128 + m, 128 + l]" using 4 digits by (simp add: point_bytes_def)
    have v: "(((240 + f - 240) * 64 + (128 + n - 128)) * 64 + (128 + m - 128)) * 64 + (128 + l - 128) = p"
      using p(1) h(1) g(1) by simp
    show ?thesis unfolding b using fb g(2) h(2) p(2) 4 small v by (simp add: continuation_byte_def Let_def)
  qed (simp add: point_bytes_def)
qed

lemma points_decode: "list_all scalar_point ps \<Longrightarrow> utf8_points (concat (map point_bytes ps)) = Some ps"
  by (induction ps) (simp_all add: point_decodes)

definition text_units :: "nat list \<Rightarrow> nat list" where
  "text_units ps = concat (map point_units ps)"

lemma text_units_simps [simp]:
  "text_units [] = []" "text_units (p # ps) = point_units p @ text_units ps" "text_units (ps @ qs) = text_units ps @ text_units qs"
  by (simp_all add: text_units_def)

lemma unit_encodes:
  assumes "scalar_point p"
  shows "encode_text (point_units p @ us) = point_bytes p @ encode_text us"
proof (cases "p < 65536")
  case True
  then show ?thesis
    using assms by (auto simp: point_units_def scalar_point_def high_surrogate_def low_surrogate_def)
next
  case False
  define q where "q = p - 65536"
  have q: "p = 65536 + q" "q < 1048576" using assms False by (auto simp: q_def scalar_point_def)
  have u: "point_units p = [55296 + q div 1024, 56320 + q mod 1024]" using False by (simp add: point_units_def q_def)
  have "q div 1024 < 1024" using q(2) by (simp add: less_mult_imp_div_less)
  moreover have "65536 + (55296 + q div 1024 - 55296) * 1024 + (56320 + q mod 1024 - 56320) = p" using q(1) by simp
  ultimately show ?thesis unfolding u by (simp add: high_surrogate_def low_surrogate_def)
qed

lemma text_encodes: "list_all scalar_point ps \<Longrightarrow> encode_text (text_units ps) = concat (map point_bytes ps)"
  by (induction ps) (simp_all add: unit_encodes)

text \<open>Decoding is inverse to encoding, both ways.\<close>

lemma encode_decode:
  assumes "decode_text bs = Some us"
  obtains ps where "us = text_units ps" and "list_all scalar_point ps" and "encode_text us = bs"
proof -
  obtain ps where ps: "utf8_points bs = Some ps" "us = text_units ps"
    using assms by (auto simp: decode_text_def text_units_def)
  show ?thesis by (rule that [OF ps(2)]) (use utf8_points_bytes [OF ps(1)] text_encodes ps(2) in auto)
qed

lemma decode_encode: "list_all scalar_point ps \<Longrightarrow> decode_text (encode_text (text_units ps)) = Some (text_units ps)"
  unfolding decode_text_def text_encodes by (simp add: points_decode text_units_def)

lemma encoded_bytes: "list_all scalar_point ps \<Longrightarrow> list_all (\<lambda>b. b < 256) (encode_text (text_units ps))"
  using byte_less by (auto simp: text_encodes list_all_iff)


text \<open>
  The text that \<open>TextEncoder\<close> encodes (\<open>String.prototype.toWellFormed\<close>): every surrogate without its
  other half becomes U+FFFD.
\<close>

fun to_well_formed :: "nat list \<Rightarrow> nat list" where
  "to_well_formed [] = []"
| "to_well_formed (u # us) =
     (if high_surrogate u then
        (case us of
           v # rest \<Rightarrow> if low_surrogate v then u # v # to_well_formed rest else 65533 # to_well_formed us
         | [] \<Rightarrow> [65533])
      else if low_surrogate u then 65533 # to_well_formed us
      else u # to_well_formed us)"

definition code_units :: "nat list \<Rightarrow> bool" where
  "code_units us \<longleftrightarrow> list_all (\<lambda>u. u < 65536) us"

definition well_formed :: "nat list \<Rightarrow> bool" where
  "well_formed us \<longleftrightarrow> to_well_formed us = us"

lemma surrogate_pair:
  assumes "high_surrogate u" and "low_surrogate v"
  defines "p \<equiv> 65536 + (u - 55296) * 1024 + (v - 56320)"
  shows "scalar_point p \<and> point_units p = [u, v]"
proof -
  have small: "u - 55296 < 1024" "v - 56320 < 1024" and parts: "55296 \<le> u" "56320 \<le> v"
    using assms(1,2) by (auto simp: high_surrogate_def low_surrogate_def)
  have "p - 65536 = (u - 55296) * 1024 + (v - 56320)" by (simp add: p_def)
  moreover have "((u - 55296) * 1024 + (v - 56320)) div 1024 = u - 55296 \<and> ((u - 55296) * 1024 + (v - 56320)) mod 1024 = v - 56320"
    using small(2) by simp
  moreover have "p < 1114112" "65536 \<le> p" using small by (simp_all add: p_def)
  ultimately show ?thesis using parts by (simp add: point_units_def scalar_point_def)
qed

lemma single_unit: "u < 65536 \<Longrightarrow> \<not> high_surrogate u \<Longrightarrow> \<not> low_surrogate u \<Longrightarrow> scalar_point u \<and> point_units u = [u]"
  by (auto simp: scalar_point_def point_units_def high_surrogate_def low_surrogate_def)

lemma well_formed_points:
  "code_units us \<Longrightarrow>
   \<exists>ps. list_all scalar_point ps \<and> to_well_formed us = text_units ps \<and> encode_text us = concat (map point_bytes ps)"
proof (induction us rule: to_well_formed.induct)
  case (2 u us)
  have us: "code_units us" "u < 65536" using 2(5) by (simp_all add: code_units_def)
  have bad: "scalar_point 65533" "point_units 65533 = [65533]" by (simp_all add: scalar_point_def point_units_def)
  consider (pair) v rest where "high_surrogate u" "us = v # rest" "low_surrogate v"
    | (broken) v rest where "high_surrogate u" "us = v # rest" "\<not> low_surrogate v"
    | (last) "high_surrogate u" "us = []" | (low) "\<not> high_surrogate u" "low_surrogate u"
    | (single) "\<not> high_surrogate u" "\<not> low_surrogate u"
    by (cases us) auto
  then show ?case
  proof cases
    case pair
    moreover have "code_units rest" using us(1) pair by (simp add: code_units_def)
    ultimately obtain ps where "list_all scalar_point ps" "to_well_formed rest = text_units ps" "encode_text rest = concat (map point_bytes ps)"
      using 2(1) by blast
    then show ?thesis
      using pair surrogate_pair [OF pair(1,3)]
      by (intro exI [of _ "(65536 + (u - 55296) * 1024 + (v - 56320)) # ps"]) simp
  next
    case broken
    then obtain ps where "list_all scalar_point ps" "to_well_formed us = text_units ps" "encode_text us = concat (map point_bytes ps)"
      using 2(2) us(1) by blast
    then show ?thesis using broken bad by (intro exI [of _ "65533 # ps"]) simp
  next
    case last
    then show ?thesis using bad by (intro exI [of _ "[65533]"]) simp
  next
    case low
    then obtain ps where "list_all scalar_point ps" "to_well_formed us = text_units ps" "encode_text us = concat (map point_bytes ps)"
      using 2(3) us(1) by blast
    then show ?thesis using low bad by (intro exI [of _ "65533 # ps"]) simp
  next
    case single
    then obtain ps where "list_all scalar_point ps" "to_well_formed us = text_units ps" "encode_text us = concat (map point_bytes ps)"
      using 2(4) us(1) by blast
    then show ?thesis using single single_unit [OF us(2) single] by (intro exI [of _ "u # ps"]) simp
  qed
qed (auto intro: exI [of _ "[]"])

lemma point_well_formed: "scalar_point p \<Longrightarrow> to_well_formed (point_units p @ us) = point_units p @ to_well_formed us"
proof (cases "p < 65536")
  case False
  moreover assume "scalar_point p"
  ultimately have "(p - 65536) div 1024 < 1024" by (auto simp: scalar_point_def less_mult_imp_div_less)
  then show ?thesis using False by (simp add: point_units_def high_surrogate_def low_surrogate_def)
qed (auto simp: point_units_def scalar_point_def high_surrogate_def low_surrogate_def)

lemma text_well_formed: "list_all scalar_point ps \<Longrightarrow> well_formed (text_units ps)"
  unfolding well_formed_def by (induction ps) (simp_all add: point_well_formed)

lemma text_code_units: "list_all scalar_point ps \<Longrightarrow> code_units (text_units ps)"
proof (induction ps)
  case (Cons p ps)
  have "(p - 65536) div 1024 < 1024" if "\<not> p < 65536"
    using that Cons.prems by (auto simp: scalar_point_def less_mult_imp_div_less)
  then show ?case using Cons by (auto simp: code_units_def point_units_def)
qed (simp add: code_units_def)

lemma well_formed_text: "code_units us \<Longrightarrow> well_formed us \<Longrightarrow> \<exists>ps. us = text_units ps \<and> list_all scalar_point ps"
  using well_formed_points [of us] by (auto simp: well_formed_def)

section \<open>Splitting and joining\<close>

lemma split_nonempty [simp]: "split_text sep us \<noteq> []"
  by (induction sep us rule: split_text.induct) (auto split: list.splits)

lemma join_Cons: "parts \<noteq> [] \<Longrightarrow> join_text sep (part # parts) = part @ sep @ join_text sep parts"
  by (cases parts) auto

lemma split_join: "join_text sep (split_text sep us) = us"
proof (induction sep us rule: split_text.induct)
  case (2 sep u us)
  show ?case
  proof (cases "sep \<noteq> [] \<and> take (length sep) (u # us) = sep")
    case True
    then have "sep @ drop (length sep) (u # us) = u # us" by (metis append_take_drop_id)
    then show ?thesis using True 2(1) [OF True] by (simp add: join_Cons)
  next
    case False
    have "join_text sep (split_text sep us) = us" by (rule 2(2) [OF False])
    then show ?thesis using False by (cases "split_text sep us"; cases "tl (split_text sep us)") auto
  qed
qed simp

lemma split_absent: "sep \<noteq> [] \<Longrightarrow> (\<nexists>a b. us = a @ sep @ b) \<Longrightarrow> split_text sep us = [us]"
proof (induction us)
  case (Cons u us)
  have "take (length sep) (u # us) \<noteq> sep"
  proof
    assume "take (length sep) (u # us) = sep"
    then have "u # us = [] @ sep @ drop (length sep) (u # us)" by (metis append_Nil append_take_drop_id)
    then show False using Cons.prems(2) by blast
  qed
  moreover have "\<nexists>a b. us = a @ sep @ b"
  proof
    assume "\<exists>a b. us = a @ sep @ b"
    then obtain a b where "u # us = (u # a) @ sep @ b" by auto
    then show False using Cons.prems(2) by blast
  qed
  ultimately show ?case using Cons.IH [OF Cons.prems(1)] by simp
qed simp

lemma join_length:
  "parts \<noteq> [] \<Longrightarrow> int (length (join_text sep parts)) =
     int (sum_list (map length parts)) + (int (length parts) - 1) * int (length sep)"
proof (induction parts)
  case (Cons part parts)
  then show ?case by (cases "parts = []") (simp_all add: join_Cons algebra_simps)
qed simp

text \<open>The length the code computes before it joins is the length of the result.\<close>

lemma replaced_length:
  "int (length us) + (int (length (split_text sep us)) - 1) * (int (length r) - int (length sep)) =
     int (length (join_text r (split_text sep us)))"
  using join_length [of "split_text sep us" sep] join_length [of "split_text sep us" r]
  by (simp add: split_join algebra_simps)

text \<open>The code units of a point determine it, and are followed by the others.\<close>

lemma point_cases:
  assumes "scalar_point p"
  obtains (one) "point_units p = [p]" "\<not> high_surrogate p" "\<not> low_surrogate p"
  | (two) h l where "point_units p = [h, l]" "high_surrogate h" "low_surrogate l" "p = 65536 + (h - 55296) * 1024 + (l - 56320)"
proof (cases "p < 65536")
  case True
  then show ?thesis using assms by (intro one) (auto simp: point_units_def scalar_point_def high_surrogate_def low_surrogate_def)
next
  case False
  define q where "q = p - 65536"
  have q: "p = 65536 + q" "q < 1048576" using assms False by (auto simp: q_def scalar_point_def)
  have "q div 1024 < 1024" using q(2) by (simp add: less_mult_imp_div_less)
  then show ?thesis
    using q(1) by (intro two [of "55296 + q div 1024" "56320 + q mod 1024"]) (simp_all add: point_units_def high_surrogate_def low_surrogate_def)
qed

lemma not_both: "high_surrogate u \<Longrightarrow> \<not> low_surrogate u"
  by (simp add: high_surrogate_def low_surrogate_def)

lemma same_point:
  assumes "scalar_point p" and "scalar_point q" and "point_units p @ us = point_units q @ vs"
  shows "p = q \<and> us = vs"
proof (cases rule: point_cases [OF assms(1)])
  case 1
  then show ?thesis
    using assms(3) not_both by (cases rule: point_cases [OF assms(2)]) auto
next
  case (2 h l)
  then show ?thesis
    using assms(3) not_both by (cases rule: point_cases [OF assms(2)]) auto
qed

lemma text_prefix:
  "list_all scalar_point ps \<Longrightarrow> list_all scalar_point ss \<Longrightarrow> text_units ps = text_units ss @ rest \<Longrightarrow>
   \<exists>qs. ps = ss @ qs \<and> rest = text_units qs"
proof (induction ss arbitrary: ps)
  case (Cons s ss)
  have "point_units s \<noteq> []" by (simp add: point_units_def)
  then obtain p qs where p: "ps = p # qs" using Cons.prems(3) by (cases ps) auto
  then have "p = s" "text_units qs = text_units ss @ rest"
    using same_point [of p s "text_units qs" "text_units ss @ rest"] Cons.prems by auto
  then show ?case using Cons.IH [of qs] Cons.prems p by auto
qed simp

lemma head_not_low: "list_all scalar_point ss \<Longrightarrow> text_units ss = u # us \<Longrightarrow> \<not> low_surrogate u"
  by (cases ss) (auto elim!: point_cases dest: not_both)

lemma split_skip:
  "take (length sep) (u # us) \<noteq> sep \<Longrightarrow> split_text sep (u # us) = (u # hd (split_text sep us)) # tl (split_text sep us)"
  by (auto split: list.split)

lemma other_head: "sep \<noteq> [] \<Longrightarrow> u \<noteq> hd sep \<Longrightarrow> take (length sep) (u # us) \<noteq> sep"
  by (cases sep) auto

text \<open>Splitting at a well-formed text never cuts a surrogate pair.\<close>

lemma split_scalar:
  assumes "ss \<noteq> []" and "list_all scalar_point ss"
  defines "sep \<equiv> text_units ss"
  shows "list_all scalar_point ps \<Longrightarrow>
    \<exists>pss. split_text sep (text_units ps) = map text_units pss \<and> pss \<noteq> [] \<and> list_all (list_all scalar_point) pss"
proof (induction "length ps" arbitrary: ps rule: less_induct)
  case less
  have sep: "sep \<noteq> []" using assms(1) by (cases ss) (auto simp: sep_def point_units_def)
  show ?case
  proof (cases ps)
    case Nil
    then show ?thesis by (auto intro: exI [of _ "[[]]"])
  next
    case (Cons p qs)
    obtain u us where u: "text_units ps = u # us" using Cons by (cases "text_units ps") (auto simp: point_units_def split: if_splits)
    show ?thesis
    proof (cases "take (length sep) (u # us) = sep")
      case True
      then have "text_units ps = sep @ drop (length sep) (u # us)" using u by (metis append_take_drop_id)
      then obtain rs where rs: "ps = ss @ rs" "drop (length sep) (u # us) = text_units rs"
        using text_prefix [OF less.prems assms(2)] unfolding sep_def by blast
      then have "length rs < length ps" "list_all scalar_point rs" using assms(1) less.prems by simp_all
      then obtain pss where "split_text sep (text_units rs) = map text_units pss" "list_all (list_all scalar_point) pss"
        using less.hyps by blast
      then show ?thesis using True sep rs(2) unfolding u by (auto intro!: exI [of _ "[] # pss"])
    next
      case False
      obtain pss where s: "split_text sep (text_units qs) = map text_units pss" "pss \<noteq> []" "list_all (list_all scalar_point) pss"
        using less.hyps [of qs] less.prems Cons by auto
      then obtain rs rss where r: "pss = rs # rss" by (cases pss) auto
      have p: "scalar_point p" using less.prems Cons by simp
      then have "split_text sep (text_units ps) = (point_units p @ text_units rs) # map text_units rss"
      proof (cases rule: point_cases)
        case one
        then have "u = p" "us = text_units qs" using u Cons by simp_all
        then show ?thesis using s r one split_skip [OF False] unfolding u by simp
      next
        case (two h l)
        then have l: "u = h" "us = l # text_units qs" using u Cons by simp_all
        have "hd sep \<noteq> l" using head_not_low [OF assms(2)] two(3) sep by (metis sep_def list.collapse)
        then have "take (length sep) (l # text_units qs) \<noteq> sep" using other_head [OF sep, of l] by metis
        from split_skip [OF this] split_skip [OF False] show ?thesis
          using s(1) r two(1) unfolding u by (simp add: l)
      qed
      then show ?thesis using s(3) r less.prems Cons by (auto intro!: exI [of _ "(p # rs) # rss"])
    qed
  qed
qed

lemma join_scalar:
  "list_all (list_all scalar_point) pss \<Longrightarrow> pss \<noteq> [] \<Longrightarrow> list_all scalar_point rs \<Longrightarrow>
   \<exists>ps. join_text (text_units rs) (map text_units pss) = text_units ps \<and> list_all scalar_point ps"
proof (induction pss)
  case (Cons ps pss)
  show ?case
  proof (cases "pss = []")
    case True
    then show ?thesis using Cons.prems by auto
  next
    case False
    then obtain qs where "join_text (text_units rs) (map text_units pss) = text_units qs" "list_all scalar_point qs"
      using Cons by auto
    then show ?thesis using False Cons.prems by (auto simp: join_Cons intro!: exI [of _ "ps @ rs @ qs"])
  qed
qed simp

lemma split_units: "part \<in> set (split_text sep us) \<Longrightarrow> set part \<subseteq> set us"
proof (induction sep us arbitrary: part rule: split_text.induct)
  case (2 sep u us)
  show ?case
  proof (cases "sep \<noteq> [] \<and> take (length sep) (u # us) = sep")
    case True
    then show ?thesis using 2(1) [OF True] 2(3) set_drop_subset [of "length sep" "u # us"] by auto
  next
    case False
    obtain head tail where parts: "split_text sep us = head # tail" by (cases "split_text sep us") simp_all
    then have "split_text sep (u # us) = (u # head) # tail"
      by (simp only: split_text.simps if_not_P [OF False] list.case)
    then have "part = u # head \<or> part \<in> set tail" using 2(3) by simp
    moreover have "set head \<subseteq> set us" "part \<in> set tail \<Longrightarrow> set part \<subseteq> set us"
      using 2(2) [OF False] parts by simp_all
    ultimately show ?thesis by auto
  qed
qed simp

lemma join_units: "set (join_text sep parts) \<subseteq> set sep \<union> \<Union> (set ` set parts)"
  by (induction sep parts rule: join_text.induct) auto

section \<open>The transform edits what it names\<close>

lemma canonical_atob: "canonical s \<Longrightarrow> atob s = Some (bytes_of s)"
proof (cases "atob s")
  case None
  assume "canonical s"
  then have "s = []" using None by (simp add: canonical_def bytes_of_def)
  then show ?thesis by (simp add: atob_def bytes_of_def strip_padding_def)
qed (simp add: bytes_of_def)

lemma btoa_canonical: "list_all (\<lambda>b. b < 256) bs \<Longrightarrow> canonical (btoa bs) \<and> bytes_of (btoa bs) = bs"
  by (simp add: canonical_def bytes_of_def atob_btoa base64ByteLength_exact)

text \<open>An edit of code units that names something.\<close>

definition text_edit :: "nat list \<times> nat list \<Rightarrow> bool" where
  "text_edit edit \<longleftrightarrow> fst edit \<noteq> [] \<and> code_units (fst edit) \<and> code_units (snd edit)"

lemma units_code: "code_units (units_of s)"
proof -
  have "(of_char c :: nat) < 65536" for c by (rule less_trans [of _ 256]) simp_all
  then show ?thesis by (simp add: code_units_def units_of_def list_all_iff)
qed

lemma units_nonempty: "units_of s = [] \<longleftrightarrow> s = []"
  by (simp add: units_of_def)

text \<open>The parser accepts no other.\<close>

lemma parsed_edit: "parseReplayTransform jp w = Some t \<Longrightarrow> rt_valueText t = Some edit \<Longrightarrow> text_edit edit"
  by (auto simp: parseReplayTransform_def bind_eq_Some_conv nullable_def parse_text_edit_def plain_text_Some text_edit_def
      units_code units_nonempty split: if_splits)

definition edited_text :: "nat list \<times> nat list \<Rightarrow> nat list \<Rightarrow> nat list" where
  "edited_text edit text = join_text (snd edit) (split_text (fst edit) text)"

lemma replace_text_parts:
  assumes "canonical val"
  shows "replace_text edit val =
    (case decode_text (bytes_of val) of
       None \<Rightarrow> None
     | Some text \<Rightarrow> if length (edited_text edit text) \<le> 16384 then Some (encode_base64 (edited_text edit text)) else None)"
proof -
  have "int (length chars) + (int (length (split_text (fst edit) chars)) - 1) *
      (int (length (snd edit)) - int (length (fst edit))) = int (length (edited_text edit chars))" for chars
    using replaced_length [of chars "fst edit" "snd edit"] by (simp add: edited_text_def)
  then show ?thesis
    using canonical_atob [OF assms] by (auto simp: replace_text_def edited_text_def Let_def check_def split: option.split)
qed

lemma edited_code_units:
  assumes "code_units text" and "code_units (snd edit)"
  shows "code_units (edited_text edit text)"
  using assms join_units [of "snd edit" "split_text (fst edit) text"] split_units [of _ "fst edit" "text"]
  by (fastforce simp: edited_text_def code_units_def list_all_iff)

text \<open>The written value holds the edited text, made well formed.\<close>

lemma edited_text_decodes:
  assumes "decode_text bs = Some text" and "code_units (snd edit)"
  shows "canonical (encode_base64 (edited_text edit text))"
    and "decode_text (bytes_of (encode_base64 (edited_text edit text))) = Some (to_well_formed (edited_text edit text))"
proof -
  obtain ps where "text = text_units ps" "list_all scalar_point ps" using encode_decode [OF assms(1)] by blast
  then obtain qs where q: "list_all scalar_point qs" "to_well_formed (edited_text edit text) = text_units qs"
    "encode_text (edited_text edit text) = encode_text (text_units qs)"
    using well_formed_points [OF edited_code_units [OF text_code_units assms(2)]] text_encodes by metis
  note b = btoa_canonical [OF encoded_bytes [OF q(1)]]
  show "canonical (encode_base64 (edited_text edit text))" using b unfolding encode_base64_def q(3) by blast
  show "decode_text (bytes_of (encode_base64 (edited_text edit text))) = Some (to_well_formed (edited_text edit text))"
    using b decode_encode [OF q(1)] unfolding encode_base64_def q(2,3) by simp
qed

text \<open>A well-formed edit never leaves half a character behind.\<close>

lemma well_formed_edit:
  assumes "decode_text bs = Some text" and "text_edit edit" and "well_formed (fst edit)" "well_formed (snd edit)"
  shows "well_formed (edited_text edit text)"
proof -
  obtain ps where ps: "text = text_units ps" "list_all scalar_point ps" using encode_decode [OF assms(1)] by blast
  obtain ss rs where e: "fst edit = text_units ss" "list_all scalar_point ss" "snd edit = text_units rs" "list_all scalar_point rs"
    using well_formed_text assms(2-4) unfolding text_edit_def by metis
  have "ss \<noteq> []" using assms(2) e(1) by (auto simp: text_edit_def)
  then obtain pss where pss: "split_text (fst edit) text = map text_units pss" "pss \<noteq> []" "list_all (list_all scalar_point) pss"
    using split_scalar [OF _ e(2) ps(2)] unfolding e(1) ps(1) by blast
  then obtain qs where "edited_text edit text = text_units qs" "list_all scalar_point qs"
    using join_scalar [OF pss(3,2) e(4)] unfolding edited_text_def pss(1) e(3) by blast
  then show ?thesis using text_well_formed by simp
qed

lemma absent_unchanged:
  assumes "canonical val" and "decode_text (bytes_of val) = Some text" and "fst edit \<noteq> []"
    and "\<nexists>a b. text = a @ fst edit @ b"
  shows "encode_base64 (edited_text edit text) = val"
proof -
  have "edited_text edit text = text"
    using split_absent [OF assms(3,4)] by (simp add: edited_text_def)
  moreover have "encode_text text = bytes_of val" by (rule encode_decode [OF assms(2)]) simp
  ultimately show ?thesis using assms(1) by (simp add: encode_base64_def canonical_def)
qed

text \<open>
  C26: A transform changes exactly what it names. For an accepted record and any transform whose text
  edit is of UTF-16 code units with a search text, as the parser's are: the output has the selected
  key, the headers without the removed keys in their order and then the appended ones, and untouched
  value bytes unless a text edit applies. An edited value is canonical Base64 of the UTF-8 text with
  every occurrence replaced, made well formed; when search and replacement are themselves well formed
  that is the edited text itself, and when the search text does not occur the value is the original
  byte for byte. (An edit with an unpaired surrogate can cut a character in two, and its halves are
  written as U+FFFD.) The transform is refused only when it carries structured edits, which are left
  to the host, or on a value that is not UTF-8, or when the edited text exceeds 16,384 code units.
\<close>

theorem replay_transform_exact:
  assumes "parseKafkaOriginalRecord v = Some (Complete r)"
    and "case rt_valueText t of None \<Rightarrow> True | Some edit \<Rightarrow> text_edit edit"
  shows "case transformReplayRecord r t of
      None \<Rightarrow>
        rt_structured t \<noteq> None \<or>
        (case (rt_valueText t, complete_value r) of
           (Some edit, Some val) \<Rightarrow>
             (case decode_text (bytes_of val) of None \<Rightarrow> True | Some text \<Rightarrow> 16384 < length (edited_text edit text))
         | _ \<Rightarrow> False)
    | Some out \<Rightarrow>
        rt_structured t = None
        \<and> complete_key out = (case rt_key t of None \<Rightarrow> complete_key r | Some key \<Rightarrow> key)
        \<and> complete_headers out = filter (\<lambda>h. header_key h \<notin> set (rt_removeHeaders t)) (complete_headers r) @ rt_appendHeaders t
        \<and> (case (rt_valueText t, complete_value r) of
             (Some edit, Some val) \<Rightarrow>
               (\<exists>text val'. decode_text (bytes_of val) = Some text \<and> length (edited_text edit text) \<le> 16384
                 \<and> complete_value out = Some val' \<and> canonical val'
                 \<and> decode_text (bytes_of val') = Some (to_well_formed (edited_text edit text))
                 \<and> (well_formed (fst edit) \<and> well_formed (snd edit) \<longrightarrow>
                      decode_text (bytes_of val') = Some (edited_text edit text))
                 \<and> ((\<nexists>a b. text = a @ fst edit @ b) \<longrightarrow> val' = val))
           | _ \<Rightarrow> complete_value out = complete_value r)"
proof (cases "rt_structured t = None \<and> rt_valueText t \<noteq> None \<and> complete_value r \<noteq> None")
  case False
  then show ?thesis
    by (cases "rt_valueText t"; cases "complete_value r") (auto simp: transformReplayRecord_def check_def)
next
  case True
  then obtain edit val where some: "rt_structured t = None" "rt_valueText t = Some edit" "complete_value r = Some val" by auto
  have edit: "text_edit edit" using assms(2) some by simp
  have c: "canonical val" using original_canonical [OF assms(1)] some(3) by (simp add: canonical_record_def canonical_option_def)
  note parts = replace_text_parts [OF c, of edit]
  show ?thesis
  proof (cases "decode_text (bytes_of val)")
    case None
    then show ?thesis using some parts by (simp add: transformReplayRecord_def check_def)
  next
    case (Some chars)
    note e = edited_text_decodes [OF Some, of edit] well_formed_edit [OF Some edit] absent_unchanged [OF c Some, of edit]
    show ?thesis
      using some Some parts e edit
      by (cases "length (edited_text edit chars) \<le> 16384")
         (simp_all add: transformReplayRecord_def check_def text_edit_def well_formed_def)
  qed
qed


text \<open>A value of three characters, its first two replaced.\<close>

definition edited_record :: complete_record where
  "edited_record = \<lparr>complete_key = None, complete_value = Some ''YWFi'', complete_headers = []\<rparr>"

definition letter_edit :: replay_transform where
  "letter_edit = UNCHANGED_REPLAY_TRANSFORM\<lparr>rt_valueText := Some ([97], [99])\<rparr>"

lemmas codec_evaluation = transformReplayRecord_def UNCHANGED_REPLAY_TRANSFORM_def check_def replace_text_def atob_def
  strip_padding_def is_ascii_space_def base64_value_def base64_alphabet_def Let_def decode_text_def point_units_def
  encode_base64_def point_bytes_def base64_char_def high_surrogate_def low_surrogate_def continuation_byte_def

lemma edited_record_parses: "parseKafkaOriginalRecord (Some (complete_json edited_record)) = Some (Complete edited_record)"
  by (simp add: parseKafkaOriginalRecord_def complete_json_def edited_record_def parse_complete_def nullable_json_def
      nullable_def parse_all_def parseRecordBase64_def boundedText_def atob_def strip_padding_def is_ascii_space_def
      base64_value_def base64_alphabet_def Let_def
      base64_char_def exactKeys_def check_def kafkaOriginalRecordByteLength_def base64ByteLength_def ends_with_def)

lemma letter_edit_parses: "parseReplayTransform (\<lambda>s. None) (Some (transform_json letter_edit)) = Some letter_edit"
  by (simp add: parseReplayTransform_def transform_json_def letter_edit_def UNCHANGED_REPLAY_TRANSFORM_def nullable_json_def
      nullable_def text_edit_json_def text_of_def units_of_def parse_text_edit_def parseKafkaOriginalRecord_def envelope_json_def
      parse_complete_def parse_all_def exactKeys_def check_def optional_member_def optional_value_def plain_text_def boundedText_def
      kafkaOriginalRecordByteLength_def base64ByteLength_def)

theorem replay_transform_exact_witness:
  "map_option complete_value (transformReplayRecord edited_record letter_edit) = Some (Some ''Y2Ni'') \<and> canonical ''Y2Ni''
   \<and> decode_text (bytes_of ''Y2Ni'') = Some [99, 99, 98]"
proof -
  have out: "transformReplayRecord edited_record letter_edit = Some (edited_record\<lparr>complete_value := Some ''Y2Ni''\<rparr>)"
    by (simp add: edited_record_def letter_edit_def codec_evaluation)
  have edited: "decode_text (bytes_of ''YWFi'') = Some [97, 97, 98]" "edited_text ([97], [99]) [97, 97, 98] = [99, 99, 98]"
    by (simp_all add: bytes_of_def edited_text_def codec_evaluation)
  have "case rt_valueText letter_edit of None \<Rightarrow> True | Some edit \<Rightarrow> text_edit edit"
    using parsed_edit [OF letter_edit_parses] by (simp split: option.split)
  from replay_transform_exact [OF edited_record_parses this] show ?thesis
    using out edited
    by (auto simp: edited_record_def letter_edit_def UNCHANGED_REPLAY_TRANSFORM_def well_formed_def high_surrogate_def low_surrogate_def)
qed

text \<open>
  Removing an unpaired high surrogate from a value that is one astral character (U+1F600): the character
  is cut, and what is written is U+FFFD.
\<close>

lemma lone_surrogate_cuts_character:
  "map_option complete_value (transformReplayRecord (edited_record\<lparr>complete_value := Some ''8J+YgA==''\<rparr>)
     (UNCHANGED_REPLAY_TRANSFORM\<lparr>rt_valueText := Some ([55357], [])\<rparr>)) = Some (Some ''77+9'')"
  by (simp add: edited_record_def codec_evaluation)

end
