(* ===== verification/Repair_Jobs.thy ===== *)
theory Repair_Jobs
  imports Record_Replay
begin

text \<open>
  Repair jobs and their journal document (\<open>contracts/repair-jobs.ts\<close>), observations of repaired
  records and the continuation and archive inputs (\<open>contracts/repair-recovery.ts\<close>).

  \<open>js_host\<close> holds what the contracts ask of the JavaScript runtime: \<open>JSON.parse\<close> on a text, whether
  bytes are UTF-8 JSON, and whether \<open>Date.parse\<close> gives a finite number.
\<close>

record js_host =
  h_parse :: "js_string \<Rightarrow> json option"
  h_text :: "nat list \<Rightarrow> bool"
  h_date :: "js_string \<Rightarrow> bool"

abbreviation repair_jobs_limit :: nat where "repair_jobs_limit \<equiv> 32"
abbreviation repair_file_bytes :: int where "repair_file_bytes \<equiv> 4 * 1048576"
abbreviation repair_findings_limit :: nat where "repair_findings_limit \<equiv> 128"

section \<open>Data\<close>

datatype finding_state = Equivalent | Different | Not_Observed | Finding_Unavailable

record repair_finding =
  fd_id :: js_string
  fd_recordIndex :: int
  fd_offset :: js_string
  fd_observedAt :: js_string
  fd_state :: finding_state
  fd_cleanup :: cleanup_state

datatype job_status = Running | Interrupted | Stopped | Job_Complete

record repair_job =
  rj_id :: js_string
  rj_createdAt :: js_string
  rj_updatedAt :: js_string
  rj_review :: replay_review
  rj_outcomes :: "write_outcome list"
  rj_pendingIndex :: "int option"
  rj_status :: job_status
  rj_cleanup :: cleanup_state
  rj_revision :: int
  rj_parentJobId :: "js_string option"
  rj_continuationId :: "js_string option"
  rj_findings :: "repair_finding list"

text \<open>A document is its jobs; its format is always 3.\<close>

type_synonym repair_document = "repair_job list"

record repair_summary =
  sm_id :: js_string
  sm_createdAt :: js_string
  sm_updatedAt :: js_string
  sm_targetName :: js_string
  sm_topic :: js_string
  sm_partition :: int
  sm_status :: job_status
  sm_cleanup :: cleanup_state
  sm_total :: int
  sm_unsent :: int
  sm_outcomes :: "write_outcome list"
  sm_uncertainIndex :: "int option"
  sm_revision :: int
  sm_parentJobId :: "js_string option"
  sm_continuationId :: "js_string option"
  sm_findings :: "repair_finding list"
  sm_targetProfile :: "(js_string \<times> int) option"
  sm_canContinue :: bool
  sm_canArchive :: bool

definition finding_states :: "(js_string \<times> finding_state) list" where
  "finding_states = [(''equivalent'', Equivalent), (''different'', Different), (''not-observed'', Not_Observed),
     (''unavailable'', Finding_Unavailable)]"

definition job_cleanups :: "(js_string \<times> cleanup_state) list" where
  "job_cleanups = (''pending'', Cleanup_Pending) # final_cleanups"

definition job_statuses :: "(js_string \<times> job_status) list" where
  "job_statuses = [(''running'', Running), (''stopped'', Stopped), (''complete'', Job_Complete)]"

definition summary_statuses :: "(js_string \<times> job_status) list" where
  "summary_statuses = [(''running'', Running), (''interrupted'', Interrupted), (''stopped'', Stopped), (''complete'', Job_Complete)]"

section \<open>Observations and recovery inputs\<close>

definition parseRepairFinding :: "js_host \<Rightarrow> json option \<Rightarrow> repair_finding option" where
  "parseRepairFinding h v =
     do { p \<leftarrow> record_value v;
          exactKeys p [''id'', ''recordIndex'', ''offset'', ''observedAt'', ''state'', ''cleanup''];
          recordIndex \<leftarrow> safeNonNegative (map_of p ''recordIndex'');
          observedAt \<leftarrow> plain_text (map_of p ''observedAt'') 64;
          check (recordIndex < 50 \<and> h_date h observedAt);
          i \<leftarrow> plain_text (map_of p ''id'') 128;
          offset \<leftarrow> offsetPosition (map_of p ''offset'');
          state \<leftarrow> declaredValue finding_states (map_of p ''state'');
          cleanup \<leftarrow> declaredValue final_cleanups (map_of p ''cleanup'');
          Some \<lparr>fd_id = i, fd_recordIndex = recordIndex, fd_offset = offset, fd_observedAt = observedAt,
            fd_state = state, fd_cleanup = cleanup\<rparr> }"

record continuation_input =
  ci_jobId :: js_string
  ci_targetProfile :: "(js_string \<times> int) option"

record reconciliation_input = continuation_input +
  ci_recordIndex :: int
  ci_offset :: js_string

record archive_input =
  ai_jobId :: js_string
  ai_confirmation :: js_string
  ai_chain :: "(js_string \<times> int) list"

record continuation_review =
  cr_parentJobId :: js_string
  cr_skipped :: "int \<times> int \<times> int"
    \<comment> \<open>acknowledged, rejected, uncertain\<close>
  cr_review :: replay_review

definition parseRepairContinuationInput :: "json option \<Rightarrow> continuation_input option" where
  "parseRepairContinuationInput v =
     do { p \<leftarrow> record_value v;
          exactKeys p [''jobId'', ''targetProfile''];
          jobId \<leftarrow> plain_text (map_of p ''jobId'') 128;
          profile \<leftarrow> nullable parse_profile (map_of p ''targetProfile'');
          Some \<lparr>ci_jobId = jobId, ci_targetProfile = profile\<rparr> }"

definition parseRepairReconciliationInput :: "json option \<Rightarrow> reconciliation_input option" where
  "parseRepairReconciliationInput v =
     do { p \<leftarrow> record_value v;
          exactKeys p [''jobId'', ''targetProfile'', ''recordIndex'', ''offset''];
          recordIndex \<leftarrow> safeNonNegative (map_of p ''recordIndex'');
          check (recordIndex < 50);
          jobId \<leftarrow> plain_text (map_of p ''jobId'') 128;
          profile \<leftarrow> nullable parse_profile (map_of p ''targetProfile'');
          offset \<leftarrow> offsetPosition (map_of p ''offset'');
          Some \<lparr>ci_jobId = jobId, ci_targetProfile = profile, ci_recordIndex = recordIndex, ci_offset = offset\<rparr> }"

definition parseRepairContinuationReview :: "js_host \<Rightarrow> json option \<Rightarrow> continuation_review option" where
  "parseRepairContinuationReview h v =
     do { p \<leftarrow> record_value v;
          exactKeys p [''parentJobId'', ''skipped'', ''review''];
          s \<leftarrow> record_value (map_of p ''skipped'');
          exactKeys s [''acknowledged'', ''rejected'', ''uncertain''];
          acknowledged \<leftarrow> safeNonNegative (map_of s ''acknowledged'');
          rejected \<leftarrow> safeNonNegative (map_of s ''rejected'');
          uncertain \<leftarrow> safeNonNegative (map_of s ''uncertain'');
          review \<leftarrow> parseRecordReplayReview (h_parse h) (h_text h) (map_of p ''review'');
          check (acknowledged + rejected + uncertain + int (length (bi_records (rv_batch review))) \<le> 50);
          parentJobId \<leftarrow> plain_text (map_of p ''parentJobId'') 128;
          Some \<lparr>cr_parentJobId = parentJobId, cr_skipped = (acknowledged, rejected, uncertain), cr_review = review\<rparr> }"

text \<open>A row of an archived chain reads like a profile reference: id and revision.\<close>

definition parseRepairArchiveInput :: "json option \<Rightarrow> archive_input option" where
  "parseRepairArchiveInput v =
     do { p \<leftarrow> record_value v;
          exactKeys p [''jobId'', ''confirmation'', ''chain''];
          items \<leftarrow> array_value (map_of p ''chain'');
          check (1 \<le> length items \<and> length items \<le> 32);
          chain \<leftarrow> parse_all parse_profile items;
          check (distinct (map fst chain));
          jobId \<leftarrow> plain_text (map_of p ''jobId'') 128;
          confirmation \<leftarrow> plain_text (map_of p ''confirmation'') 128;
          Some \<lparr>ai_jobId = jobId, ai_confirmation = confirmation, ai_chain = chain\<rparr> }"

section \<open>The journal document\<close>

definition journalRevision :: "json option \<Rightarrow> int option" where
  "journalRevision v = do { revision \<leftarrow> safeNonNegative v; check (1 \<le> revision); Some revision }"

definition parseFindings :: "js_host \<Rightarrow> json option \<Rightarrow> int \<Rightarrow> repair_finding list option" where
  "parseFindings h v n =
     do { items \<leftarrow> array_value v;
          check (length items \<le> repair_findings_limit);
          findings \<leftarrow> parse_all (parseRepairFinding h) items;
          check (list_all (\<lambda>f. fd_recordIndex f < n) findings \<and> distinct (map fd_id findings));
          Some findings }"

definition reviewed_count :: "replay_review \<Rightarrow> nat" where
  "reviewed_count r = length (bi_records (rv_batch r))"

definition job_keys :: "nat \<Rightarrow> js_string list" where
  "job_keys version = [''id'', ''createdAt'', ''updatedAt'', ''review'', ''outcomes'', ''pendingIndex'', ''status'', ''cleanup'']
     @ (if version \<noteq> 1 then [''revision'', ''parentJobId'', ''continuationId'', ''findings''] else [])"

definition consistent_inputs :: "replay_review \<Rightarrow> bool" where
  "consistent_inputs r \<longleftrightarrow>
     length (ri_records (rv_input r)) = reviewed_count r \<and> ri_topic (rv_input r) = bi_topic (rv_batch r)
     \<and> ri_partition (rv_input r) = bi_partition (rv_batch r)"

definition consistent_progress :: "replay_review \<Rightarrow> write_outcome list \<Rightarrow> int option \<Rightarrow> job_status \<Rightarrow> bool" where
  "consistent_progress r outcomes pending status \<longleftrightarrow>
     (case pending of None \<Rightarrow> True | Some i \<Rightarrow> i = int (length outcomes) \<and> i < int (reviewed_count r))
     \<and> (status = Job_Complete \<longrightarrow>
          pending = None \<and> length outcomes = reviewed_count r \<and> list_all (\<lambda>x. out_state x = Acknowledged) outcomes)"

definition parse_job :: "js_host \<Rightarrow> nat \<Rightarrow> json option \<Rightarrow> repair_job option" where
  "parse_job h version v =
     do { j \<leftarrow> record_value v;
          exactKeys j (job_keys version);
          review \<leftarrow> parseRecordReplayReview (h_parse h) (h_text h) (map_of j ''review'');
          check (version = 3 \<or> (rv_encoding review = None \<and> rt_structured (ri_transform (rv_input review)) = None));
          items \<leftarrow> array_value (map_of j ''outcomes'');
          check (length items \<le> reviewed_count review);
          outcomes \<leftarrow> parse_all parseKafkaWriteOutcome items;
          check (consistent_inputs review);
          findings \<leftarrow> (if version = 1 then Some [] else parseFindings h (map_of j ''findings'') (int (reviewed_count review)));
          revision \<leftarrow> (if version = 1 then Some 1 else journalRevision (map_of j ''revision''));
          parent \<leftarrow> (if version = 1 then Some None else nullable (\<lambda>v. plain_text v 128) (map_of j ''parentJobId''));
          continuation \<leftarrow> (if version = 1 then Some None else nullable (\<lambda>v. plain_text v 128) (map_of j ''continuationId''));
          pending \<leftarrow> nullable safeNonNegative (map_of j ''pendingIndex'');
          status \<leftarrow> declaredValue job_statuses (map_of j ''status'');
          check (consistent_progress review outcomes pending status);
          i \<leftarrow> plain_text (map_of j ''id'') 128;
          check (i = rv_planId review);
          createdAt \<leftarrow> plain_text (map_of j ''createdAt'') 64;
          updatedAt \<leftarrow> plain_text (map_of j ''updatedAt'') 64;
          check (h_date h createdAt \<and> h_date h updatedAt);
          cleanup \<leftarrow> declaredValue job_cleanups (map_of j ''cleanup'');
          Some \<lparr>rj_id = i, rj_createdAt = createdAt, rj_updatedAt = updatedAt, rj_review = review, rj_outcomes = outcomes,
            rj_pendingIndex = pending, rj_status = status, rj_cleanup = cleanup, rj_revision = revision,
            rj_parentJobId = parent, rj_continuationId = continuation, rj_findings = findings\<rparr> }"

definition find_job :: "repair_job list \<Rightarrow> js_string \<Rightarrow> repair_job option" where
  "find_job jobs i = find (\<lambda>j. rj_id j = i) jobs"

lemma find_job_Some: "find_job jobs i = Some j \<Longrightarrow> j \<in> set jobs \<and> rj_id j = i"
  unfolding find_job_def by (induction jobs) (auto split: if_splits)

lemma unvisited_less:
  "find_job jobs i = Some job \<Longrightarrow> i \<notin> visited \<Longrightarrow>
   length (filter (\<lambda>j. rj_id j \<noteq> i \<and> rj_id j \<notin> visited) jobs) < length (filter (\<lambda>j. rj_id j \<notin> visited) jobs)"
proof -
  assume f: "find_job jobs i = Some job" and i: "i \<notin> visited"
  have "filter (\<lambda>j. rj_id j \<noteq> i \<and> rj_id j \<notin> visited) jobs = filter (\<lambda>j. rj_id j \<noteq> i) (filter (\<lambda>j. rj_id j \<notin> visited) jobs)"
    by (simp add: conj_commute)
  moreover have "length (filter (\<lambda>j. rj_id j \<noteq> i) (filter (\<lambda>j. rj_id j \<notin> visited) jobs)) <
      length (filter (\<lambda>j. rj_id j \<notin> visited) jobs)"
    by (rule length_filter_less [of job]) (use find_job_Some [OF f] i in auto)
  ultimately show ?thesis by simp
qed

text \<open>The walk to the root from the job named \<open>i\<close>; it fails when a job is met again.\<close>

function acyclic_walk :: "repair_job list \<Rightarrow> js_string set \<Rightarrow> js_string \<Rightarrow> bool" where
  "acyclic_walk jobs visited i =
     (case find_job jobs i of
        None \<Rightarrow> True
      | Some job \<Rightarrow>
          if i \<in> visited then False
          else (case rj_parentJobId job of None \<Rightarrow> True | Some p \<Rightarrow> acyclic_walk jobs (insert i visited) p))"
  by pat_completeness auto

termination
  by (relation "measure (\<lambda>(jobs, visited, i). length (filter (\<lambda>j. rj_id j \<notin> visited) jobs))") (auto intro: unvisited_less)

declare acyclic_walk.simps [simp del]

definition linked :: "repair_job list \<Rightarrow> repair_job \<Rightarrow> bool" where
  "linked jobs job \<longleftrightarrow>
     (case rj_parentJobId job of
        None \<Rightarrow> True
      | Some p \<Rightarrow> (case find_job jobs p of Some q \<Rightarrow> rj_continuationId q = Some (rj_id job) | None \<Rightarrow> False))
     \<and> (case rj_continuationId job of
          None \<Rightarrow> True
        | Some c \<Rightarrow> (case find_job jobs c of Some q \<Rightarrow> rj_parentJobId q = Some (rj_id job) | None \<Rightarrow> False))"

definition validateRepairLinks :: "repair_job list \<Rightarrow> bool" where
  "validateRepairLinks jobs \<longleftrightarrow> list_all (\<lambda>job. linked jobs job \<and> acyclic_walk jobs {} (rj_id job)) jobs"

section \<open>Rendering\<close>

definition finding_json :: "repair_finding \<Rightarrow> json" where
  "finding_json f = JObj [(''id'', JStr (fd_id f)), (''recordIndex'', int_json (fd_recordIndex f)),
     (''offset'', JStr (fd_offset f)), (''observedAt'', JStr (fd_observedAt f)),
     (''state'', declared_json finding_states (fd_state f)), (''cleanup'', declared_json final_cleanups (fd_cleanup f))]"

definition job_json :: "repair_job \<Rightarrow> json" where
  "job_json j = JObj [(''id'', JStr (rj_id j)), (''createdAt'', JStr (rj_createdAt j)), (''updatedAt'', JStr (rj_updatedAt j)),
     (''review'', review_json (rj_review j)), (''outcomes'', JArr (map outcome_json (rj_outcomes j))),
     (''pendingIndex'', nullable_json int_json (rj_pendingIndex j)), (''status'', declared_json job_statuses (rj_status j)),
     (''cleanup'', declared_json job_cleanups (rj_cleanup j)), (''revision'', int_json (rj_revision j)),
     (''parentJobId'', nullable_json JStr (rj_parentJobId j)),
     (''continuationId'', nullable_json JStr (rj_continuationId j)),
     (''findings'', JArr (map finding_json (rj_findings j)))]"

definition document_json :: "repair_document \<Rightarrow> json" where
  "document_json jobs = JObj [(''schemaVersion'', int_json 3), (''jobs'', JArr (map job_json jobs))]"

definition schema_version :: "json option \<Rightarrow> nat option" where
  "schema_version v =
     (case v of
        Some (JNum n) \<Rightarrow>
          (case num_integer n of Some i \<Rightarrow> if i \<in> {1, 2, 3} then Some (nat i) else None | None \<Rightarrow> None)
      | _ \<Rightarrow> None)"

text \<open>The jobs of a document are valid together: distinct, linked and within the file bound.\<close>

definition valid_jobs :: "repair_document \<Rightarrow> bool" where
  "valid_jobs jobs \<longleftrightarrow>
     distinct (map rj_id jobs) \<and> validateRepairLinks jobs \<and> json_bytes (document_json jobs) \<le> repair_file_bytes"

definition parseRepairJournalDocument :: "js_host \<Rightarrow> json option \<Rightarrow> repair_document option" where
  "parseRepairJournalDocument h v =
     do { d \<leftarrow> record_value v;
          exactKeys d [''schemaVersion'', ''jobs''];
          version \<leftarrow> schema_version (map_of d ''schemaVersion'');
          items \<leftarrow> array_value (map_of d ''jobs'');
          check (length items \<le> repair_jobs_limit);
          jobs \<leftarrow> parse_all (parse_job h version) items;
          check (valid_jobs jobs);
          Some jobs }"


section \<open>Documents are contracts\<close>

lemma repair_stables [contract_simps]:
  "declaredValue finding_states v = Some s \<Longrightarrow> declaredValue finding_states (Some (declared_json finding_states s)) = Some s"
  "declaredValue job_cleanups v = Some c \<Longrightarrow> declaredValue job_cleanups (Some (declared_json job_cleanups c)) = Some c"
  "declaredValue job_statuses v = Some j \<Longrightarrow> declaredValue job_statuses (Some (declared_json job_statuses j)) = Some j"
  by (rule declared_stable; simp add: finding_states_def job_cleanups_def final_cleanups_def job_statuses_def)+

interpretation findings: contract "parseRepairFinding h" finding_json for h
  by unfold_locales
     (auto simp: parseRepairFinding_def finding_json_def bind_eq_Some_conv naturals.stable texts.stable offsets.stable
       repair_stables replay_stables)

lemma journalRevision_Some: "journalRevision v = Some n \<longleftrightarrow> safeNonNegative v = Some n \<and> 1 \<le> n"
  by (auto simp: journalRevision_def bind_eq_Some_conv)

interpretation revisions: contract journalRevision int_json
  by unfold_locales (auto simp: journalRevision_Some naturals.stable)

lemma parseFindings_stable:
  "parseFindings h v n = Some fs \<Longrightarrow> parseFindings h (Some (JArr (map finding_json fs))) n = Some fs"
  by (auto simp: parseFindings_def bind_eq_Some_conv findings.all_stable findings.all_length)

lemma link_stable:
  "(if first then Some None else nullable (\<lambda>v. plain_text v 128) v) = Some x \<Longrightarrow>
   nullable (\<lambda>v. plain_text v 128) (Some (nullable_json JStr x)) = Some x"
proof (cases first)
  case True
  then show "(if first then Some None else nullable (\<lambda>v. plain_text v 128) v) = Some x \<Longrightarrow> ?thesis"
    by (auto simp: nullable_def nullable_json_def)
qed (simp add: texts.nullable_stable)

text \<open>What an accepted job satisfies, whatever format it was read from.\<close>

definition job_ok :: "js_host \<Rightarrow> repair_job \<Rightarrow> bool" where
  "job_ok h j \<longleftrightarrow> parse_job h 3 (Some (job_json j)) = Some j"

lemma parse_job_ok:
  assumes "parse_job h version v = Some j"
  shows "job_ok h j"
proof -
  obtain m review items outcomes fs revision parent continuation pending status i createdAt updatedAt cleanup where
    p: "parseRecordReplayReview (h_parse h) (h_text h) (map_of m ''review'') = Some review"
    "length items \<le> reviewed_count review" "parse_all parseKafkaWriteOutcome items = Some outcomes" "consistent_inputs review"
    "(if version = 1 then Some [] else parseFindings h (map_of m ''findings'') (int (reviewed_count review))) = Some fs"
    "(if version = 1 then Some 1 else journalRevision (map_of m ''revision'')) = Some revision"
    "(if version = 1 then Some None else nullable (\<lambda>v. plain_text v 128) (map_of m ''parentJobId'')) = Some parent"
    "(if version = 1 then Some None else nullable (\<lambda>v. plain_text v 128) (map_of m ''continuationId'')) = Some continuation"
    "nullable safeNonNegative (map_of m ''pendingIndex'') = Some pending"
    "declaredValue job_statuses (map_of m ''status'') = Some status"
    "consistent_progress review outcomes pending status"
    "plain_text (map_of m ''id'') 128 = Some i" "i = rv_planId review"
    "plain_text (map_of m ''createdAt'') 64 = Some createdAt" "plain_text (map_of m ''updatedAt'') 64 = Some updatedAt"
    "h_date h createdAt" "h_date h updatedAt" "declaredValue job_cleanups (map_of m ''cleanup'') = Some cleanup"
    and j: "j = \<lparr>rj_id = i, rj_createdAt = createdAt, rj_updatedAt = updatedAt, rj_review = review, rj_outcomes = outcomes,
            rj_pendingIndex = pending, rj_status = status, rj_cleanup = cleanup, rj_revision = revision,
            rj_parentJobId = parent, rj_continuationId = continuation, rj_findings = fs\<rparr>"
    using assms unfolding parse_job_def bind_eq_Some_conv check_Some
    by - (elim exE conjE, rule that, assumption+, simp)
  have f: "parseFindings h (Some (JArr (map finding_json fs))) (int (reviewed_count review)) = Some fs"
  proof (cases "version = 1")
    case True
    then show ?thesis using p(5) by (simp add: parseFindings_def parse_all_def check_def)
  next
    case False
    then have "parseFindings h (map_of m ''findings'') (int (reviewed_count review)) = Some fs" using p(5) by simp
    then show ?thesis by (rule parseFindings_stable)
  qed
  have r: "journalRevision (Some (int_json revision)) = Some revision"
    using p(6) revisions.stable safeNonNegative_int [of 1] by (auto split: if_splits simp: journalRevision_Some)
  have pc: "nullable (\<lambda>v. plain_text v 128) (Some (nullable_json JStr parent)) = Some parent"
    "nullable (\<lambda>v. plain_text v 128) (Some (nullable_json JStr continuation)) = Some continuation"
    using link_stable [OF p(7)] link_stable [OF p(8)] by simp_all
  have n: "length outcomes \<le> reviewed_count review" using p(2) outcomes.all_length [OF p(3)] by simp
  have o: "parse_all parseKafkaWriteOutcome (map outcome_json outcomes) = Some outcomes" by (rule outcomes.all_stable [OF p(3)])
  have t: "plain_text (Some (JStr (rv_planId review))) 128 = Some (rv_planId review)"
    using texts.stable [OF p(12)] p(13) by simp
  show ?thesis
    using reviews.stable [OF p(1)] n o p(4) f r pc naturals.nullable_stable [OF p(9)] repair_stables(3) [OF p(10)] p(11) t
      texts.stable [OF p(14)] texts.stable [OF p(15)] p(16,17) repair_stables(2) [OF p(18)]
    by (simp add: job_ok_def j p(13) parse_job_def job_json_def job_keys_def exactKeys_def check_def)
qed

lemma job_json_not_null: "job_json j \<noteq> JNull"
  by (simp add: job_json_def)

lemma jobs_stable: "list_all (job_ok h) jobs \<Longrightarrow> parse_all (parse_job h 3) (map job_json jobs) = Some jobs"
  by (induction jobs) (auto simp: parse_all_def job_ok_def)

lemma schema_version_3: "schema_version (Some (int_json 3)) = Some 3"
  by (simp add: schema_version_def int_json_def num_of_int_integer)

text \<open>A document is accepted exactly when its jobs are, and together they are valid and few enough.\<close>

definition document_ok :: "js_host \<Rightarrow> repair_document \<Rightarrow> bool" where
  "document_ok h jobs \<longleftrightarrow> list_all (job_ok h) jobs \<and> length jobs \<le> repair_jobs_limit \<and> valid_jobs jobs"

lemma all_jobs_ok: "parse_all (parse_job h version) vs = Some jobs \<Longrightarrow> list_all (job_ok h) jobs \<and> length jobs = length vs"
  by (induction vs arbitrary: jobs) (auto simp: parse_all_def parse_job_ok split: option.splits)

lemma parse_document_ok: "parseRepairJournalDocument h v = Some d \<Longrightarrow> document_ok h d"
  by (auto simp: parseRepairJournalDocument_def bind_eq_Some_conv document_ok_def dest: all_jobs_ok)

lemma document_parses: "document_ok h jobs \<Longrightarrow> parseRepairJournalDocument h (Some (document_json jobs)) = Some jobs"
proof -
  have keys: "exactKeys [(''schemaVersion'', a), (''jobs'', b)] [''schemaVersion'', ''jobs''] = Some ()" for a b
    by (simp add: exactKeys_def check_def)
  assume "document_ok h jobs"
  then show ?thesis
    by (simp add: parseRepairJournalDocument_def document_json_def keys schema_version_3 document_ok_def jobs_stable check_def)
qed

interpretation documents: contract "parseRepairJournalDocument h" document_json for h
proof
  fix v x assume "parseRepairJournalDocument h v = Some x"
  from document_parses [OF parse_document_ok [OF this]]
  show "parseRepairJournalDocument h (Some (document_json x)) = Some x" .
qed (simp add: document_json_def)


section \<open>Summaries\<close>

definition pending_count :: "repair_job \<Rightarrow> nat" where
  "pending_count j = (if rj_pendingIndex j = None then 0 else 1)"

definition summarizeRepairJob :: "repair_job \<Rightarrow> repair_summary" where
  "summarizeRepairJob j =
     \<lparr>sm_id = rj_id j, sm_createdAt = rj_createdAt j, sm_updatedAt = rj_updatedAt j,
      sm_targetName = rv_targetName (rj_review j), sm_topic = ri_topic (rv_input (rj_review j)),
      sm_partition = ri_partition (rv_input (rj_review j)),
      sm_status = (if rj_status j = Running then Interrupted else rj_status j), sm_cleanup = rj_cleanup j,
      sm_total = int (reviewed_count (rj_review j)),
      sm_unsent = int (reviewed_count (rj_review j)) - int (length (rj_outcomes j)) - int (pending_count j),
      sm_outcomes = rj_outcomes j, sm_uncertainIndex = rj_pendingIndex j, sm_revision = rj_revision j,
      sm_parentJobId = rj_parentJobId j, sm_continuationId = rj_continuationId j, sm_findings = rj_findings j,
      sm_targetProfile = ri_targetProfile (rv_input (rj_review j)),
      sm_canContinue = (rj_continuationId j = None
        \<and> length (rj_outcomes j) + pending_count j < reviewed_count (rj_review j)),
      sm_canArchive = False\<rparr>"

definition parse_summary_profile :: "json option \<Rightarrow> (js_string \<times> int) option" where
  "parse_summary_profile v =
     do { p \<leftarrow> record_value v;
          exactKeys p [''id'', ''revision''];
          i \<leftarrow> plain_text (map_of p ''id'') 128;
          revision \<leftarrow> journalRevision (map_of p ''revision'');
          Some (i, revision) }"

definition summary_keys :: "js_string list" where
  "summary_keys = [''id'', ''createdAt'', ''updatedAt'', ''targetName'', ''topic'', ''partition'', ''status'', ''cleanup'',
     ''total'', ''unsent'', ''outcomes'', ''uncertainIndex'', ''revision'', ''parentJobId'', ''continuationId'', ''findings'',
     ''targetProfile'', ''canContinue'', ''canArchive'']"

definition consistent_summary :: "int \<Rightarrow> int \<Rightarrow> write_outcome list \<Rightarrow> int option \<Rightarrow> bool" where
  "consistent_summary n unsent outcomes uncertain \<longleftrightarrow>
     1 \<le> n \<and> n \<le> 50 \<and> unsent + int (length outcomes) + (if uncertain = None then 0 else 1) = n
     \<and> (case uncertain of None \<Rightarrow> True | Some i \<Rightarrow> i = int (length outcomes))"

definition consistent_actions :: "json_object \<Rightarrow> int \<Rightarrow> write_outcome list \<Rightarrow> int option \<Rightarrow> bool \<Rightarrow> bool \<Rightarrow> bool" where
  "consistent_actions s unsent outcomes uncertain canContinue canArchive \<longleftrightarrow>
     \<not> (canContinue \<and> (map_of s ''continuationId'' \<noteq> Some JNull \<or> unsent = 0 \<or> map_of s ''status'' = Some (JStr ''running'')))
     \<and> \<not> (canArchive \<and> (map_of s ''parentJobId'' \<noteq> Some JNull \<or> uncertain \<noteq> None
            \<or> map_of s ''status'' = Some (JStr ''running'') \<or> list_ex (\<lambda>r. out_state r = Unknown) outcomes))"

definition parseRepairJobSummary :: "js_host \<Rightarrow> json option \<Rightarrow> repair_summary option" where
  "parseRepairJobSummary h v =
     do { s \<leftarrow> record_value v;
          exactKeys s summary_keys;
          items \<leftarrow> array_value (map_of s ''outcomes'');
          check (length items \<le> 50);
          outcomes \<leftarrow> parse_all parseKafkaWriteOutcome items;
          n \<leftarrow> safeNonNegative (map_of s ''total'');
          unsent \<leftarrow> safeNonNegative (map_of s ''unsent'');
          uncertain \<leftarrow> nullable safeNonNegative (map_of s ''uncertainIndex'');
          check (consistent_summary n unsent outcomes uncertain);
          canContinue \<leftarrow> truth (map_of s ''canContinue'');
          canArchive \<leftarrow> truth (map_of s ''canArchive'');
          check (consistent_actions s unsent outcomes uncertain canContinue canArchive);
          i \<leftarrow> plain_text (map_of s ''id'') 128;
          createdAt \<leftarrow> plain_text (map_of s ''createdAt'') 64;
          updatedAt \<leftarrow> plain_text (map_of s ''updatedAt'') 64;
          targetName \<leftarrow> plain_text (map_of s ''targetName'') 256;
          topic \<leftarrow> plain_text (map_of s ''topic'') 249;
          part \<leftarrow> safeNonNegative (map_of s ''partition'');
          status \<leftarrow> declaredValue summary_statuses (map_of s ''status'');
          cleanup \<leftarrow> declaredValue job_cleanups (map_of s ''cleanup'');
          revision \<leftarrow> journalRevision (map_of s ''revision'');
          parent \<leftarrow> nullable (\<lambda>v. plain_text v 128) (map_of s ''parentJobId'');
          continuation \<leftarrow> nullable (\<lambda>v. plain_text v 128) (map_of s ''continuationId'');
          findings \<leftarrow> parseFindings h (map_of s ''findings'') n;
          profile \<leftarrow> nullable parse_summary_profile (map_of s ''targetProfile'');
          Some \<lparr>sm_id = i, sm_createdAt = createdAt, sm_updatedAt = updatedAt, sm_targetName = targetName, sm_topic = topic,
            sm_partition = part, sm_status = status, sm_cleanup = cleanup, sm_total = n, sm_unsent = unsent,
            sm_outcomes = outcomes, sm_uncertainIndex = uncertain, sm_revision = revision, sm_parentJobId = parent,
            sm_continuationId = continuation, sm_findings = findings, sm_targetProfile = profile,
            sm_canContinue = canContinue, sm_canArchive = canArchive\<rparr> }"

definition summary_json :: "repair_summary \<Rightarrow> json" where
  "summary_json s = JObj [(''id'', JStr (sm_id s)), (''createdAt'', JStr (sm_createdAt s)), (''updatedAt'', JStr (sm_updatedAt s)),
     (''targetName'', JStr (sm_targetName s)), (''topic'', JStr (sm_topic s)), (''partition'', int_json (sm_partition s)),
     (''status'', declared_json summary_statuses (sm_status s)), (''cleanup'', declared_json job_cleanups (sm_cleanup s)),
     (''total'', int_json (sm_total s)), (''unsent'', int_json (sm_unsent s)),
     (''outcomes'', JArr (map outcome_json (sm_outcomes s))), (''uncertainIndex'', nullable_json int_json (sm_uncertainIndex s)),
     (''revision'', int_json (sm_revision s)), (''parentJobId'', nullable_json JStr (sm_parentJobId s)),
     (''continuationId'', nullable_json JStr (sm_continuationId s)),
     (''findings'', JArr (map finding_json (sm_findings s))), (''targetProfile'', nullable_json profile_json (sm_targetProfile s)),
     (''canContinue'', JBool (sm_canContinue s)), (''canArchive'', JBool (sm_canArchive s))]"

section \<open>Rendering loses nothing\<close>

lemma odd_part_product: "odd_part m e = (m', e') \<Longrightarrow> 0 < m \<Longrightarrow> 0 \<le> e \<Longrightarrow> m' * 2 ^ nat e' = m * 2 ^ nat e"
proof -
  assume o: "odd_part m e = (m', e')" "0 < m" "0 \<le> e"
  have v: "e \<le> e'" "m = m' * 2 ^ nat (e' - e)" using odd_part_value [OF o(1,2)] by auto
  have "nat e' = nat (e' - e) + nat e" using v(1) o(3) by linarith
  then show ?thesis using v(2) by (simp add: power_add)
qed

lemma round_half_even_ge: "n div d \<le> round_half_even n d"
  by (simp add: round_half_even_def Let_def)

lemma large_not_safe:
  assumes "max_safe_integer < \<bar>n\<bar>"
  shows "case num_integer (num_of_int n) of None \<Rightarrow> True | Some m \<Rightarrow> \<not> is_safe_integer m"
proof -
  define a where "a = nat \<bar>n\<bar>"
  define b where "b = bit_length a"
  have a: "2 ^ 53 \<le> a" using assms by (simp add: a_def)
  then have a0: "0 < a" by simp
  have b: "2 ^ (b - 1) \<le> a" "a < 2 ^ b" "0 < b" using bit_length_bounds [OF a0] by (simp_all add: b_def)
  have b54: "54 \<le> b"
  proof (rule ccontr)
    assume "\<not> 54 \<le> b"
    then have "(2::nat) ^ b \<le> 2 ^ 53" by (intro power_increasing) auto
    then show False using a b(2) by linarith
  qed
  define e where "e = int b - 53"
  have one: "bit_length 1 = 1" by (subst bit_length.simps) (simp add: bit_length.simps [of 0])
  have k: "nat (int b - 1) = b - 1" by simp
  have e0: "0 \<le> e" "max (int b - 1 - 52) (- 1074) = e" "nat e = b - 53" using b54 by (simp_all add: e_def)
  define m where "m = round_half_even a (2 ^ nat e)"
  have run: "num_of_int n = (if 2 ^ 1024 \<le> m * 2 ^ nat e then Infinite (n < 0)
      else let (m', e') = odd_part m e in Finite (n < 0) m' e')"
    unfolding num_of_int_def round_binary64_def Let_def one a_def [symmetric]
    using a0 b e0 k by (auto simp: b_def [symmetric] m_def one)
  have "b - 1 = 52 + nat e" using b54 e0(3) by simp
  then have "2 ^ (b - 1) = (2::nat) ^ 52 * 2 ^ nat e" by (simp only: power_add)
  then have "(2::nat) ^ 52 * 2 ^ nat e div 2 ^ nat e \<le> a div 2 ^ nat e" using b(1) by (intro div_le_mono) simp
  then have "2 ^ 52 \<le> m" using round_half_even_ge [of a "2 ^ nat e"] by (simp add: m_def)
  moreover have "2 \<le> (2::nat) ^ nat e" using b54 e0(3) by (intro self_le_power [of 2, simplified]) auto
  ultimately have big: "2 ^ 53 \<le> m * 2 ^ nat e" using mult_le_mono [of "2 ^ 52" m 2 "2 ^ nat e"] by simp
  then have m0: "0 < m" by (cases m) auto
  show ?thesis
  proof (cases "2 ^ 1024 \<le> m * 2 ^ nat e")
    case True
    then show ?thesis using run by simp
  next
    case False
    obtain m' e' where o: "odd_part m e = (m', e')" by (cases "odd_part m e")
    have "e \<le> e'" using odd_part_value [OF o m0] by simp
    then have "num_integer (num_of_int n) = Some (signed (n < 0) (m * 2 ^ nat e))"
      using False e0(1) odd_part_product [OF o m0 e0(1)] by (simp add: run o)
    moreover define k where "k = m * 2 ^ nat e"
    ultimately have "num_integer (num_of_int n) = Some (signed (n < 0) k)" by simp
    moreover have "2 ^ 53 \<le> k" using big by (simp add: k_def)
    ultimately show ?thesis by (auto simp: is_safe_integer_def signed_def)
  qed
qed

lemma naturals_exact: "safeNonNegative (Some (int_json n)) = Some m \<Longrightarrow> m = n"
proof (cases "\<bar>n\<bar> \<le> max_safe_integer")
  case True
  then show "safeNonNegative (Some (int_json n)) = Some m \<Longrightarrow> m = n"
    by (simp add: safeNonNegative_def int_json_def num_of_int_integer split: if_splits)
next
  case False
  then show "safeNonNegative (Some (int_json n)) = Some m \<Longrightarrow> m = n"
    using large_not_safe [of n] by (auto simp: safeNonNegative_def int_json_def split: option.splits if_splits)
qed


text \<open>A value whose rendering is accepted is the value read back.\<close>

interpretation exact_texts: exact_contract "\<lambda>v. plain_text v n" JStr for n
  by unfold_locales (auto simp: plain_text_Some)

interpretation exact_naturals: exact_contract safeNonNegative int_json
  by unfold_locales (rule naturals_exact)

lemma declared_exact:
  assumes "declaredValue declarations (Some (declared_json declarations x)) = Some y"
    and "distinct (map fst declarations)" and "[] \<notin> set (map fst declarations)"
  shows "y = x"
proof -
  have y: "map_of declarations (declared_text declarations x) = Some y"
    using assms(1) by (simp add: declaredValue_def declared_json_def)
  show ?thesis
  proof (cases "map_of (map prod.swap declarations) x")
    case None
    then have "([], y) \<in> set declarations" using y by (auto simp: declared_text_def dest: map_of_SomeD)
    then have "[] \<in> set (map fst declarations)" by force
    then show ?thesis using assms(3) by contradiction
  next
    case (Some s)
    then have "(s, x) \<in> set declarations" by (auto dest: map_of_SomeD)
    then have "map_of declarations s = Some x" using assms(2) by simp
    then show ?thesis using y Some by (simp add: declared_text_def)
  qed
qed

lemma table_exact:
  "declaredValue outcome_states (Some (declared_json outcome_states s)) = Some s' \<Longrightarrow> s' = s"
  "declaredValue verifications (Some (declared_json verifications t)) = Some t' \<Longrightarrow> t' = t"
  "declaredValue finding_states (Some (declared_json finding_states u)) = Some u' \<Longrightarrow> u' = u"
  "declaredValue final_cleanups (Some (declared_json final_cleanups c)) = Some c' \<Longrightarrow> c' = c"
  "declaredValue job_cleanups (Some (declared_json job_cleanups d)) = Some d' \<Longrightarrow> d' = d"
  "declaredValue job_statuses (Some (declared_json job_statuses j)) = Some j' \<Longrightarrow> j' = j"
  by (erule declared_exact; simp add: outcome_states_def verifications_def finding_states_def job_cleanups_def
      final_cleanups_def job_statuses_def)+

interpretation exact_receipts: exact_contract parse_receipt receipt_json
proof
  fix x y assume "parse_receipt (Some (receipt_json x)) = Some y"
  then obtain t p offset where "plain_text (Some (JStr (rcp_topic x))) 249 = Some t"
    "safeNonNegative (Some (int_json (rcp_partition x))) = Some p" "plain_text (Some (JStr (rcp_offset x))) 32 = Some offset"
    and y: "y = \<lparr>rcp_topic = t, rcp_partition = p, rcp_offset = offset\<rparr>"
    by (auto simp: parse_receipt_def receipt_json_def bind_eq_Some_conv)
  from exact_texts.exact [OF this(1)] exact_naturals.exact [OF this(2)] exact_texts.exact [OF this(3)]
  show "y = x" by (simp add: y)
qed

interpretation exact_outcomes: exact_contract parseKafkaWriteOutcome outcome_json
proof
  fix x y assume "parseKafkaWriteOutcome (Some (outcome_json x)) = Some y"
  then obtain r s d w where "nullable parse_receipt (Some (nullable_json receipt_json (out_receipt x))) = Some r"
    "declaredValue outcome_states (Some (declared_json outcome_states (out_state x))) = Some s"
    "plain_text (Some (JStr (out_detail x))) 2048 = Some d"
    "declaredValue verifications (Some (declared_json verifications (out_verification x))) = Some w"
    and y: "y = \<lparr>out_state = s, out_detail = d, out_receipt = r, out_verification = w\<rparr>"
    by (auto simp: parseKafkaWriteOutcome_def outcome_json_def bind_eq_Some_conv)
  from exact_receipts.nullable_exact [OF this(1)] table_exact(1) [OF this(2)] exact_texts.exact [OF this(3)]
    table_exact(2) [OF this(4)]
  show "y = x" by (simp add: y)
qed

interpretation exact_findings: exact_contract "parseRepairFinding h" finding_json for h
proof
  fix x y assume "parseRepairFinding h (Some (finding_json x)) = Some y"
  then obtain n ob i offset s c where "safeNonNegative (Some (int_json (fd_recordIndex x))) = Some n"
    "plain_text (Some (JStr (fd_observedAt x))) 64 = Some ob" "plain_text (Some (JStr (fd_id x))) 128 = Some i"
    "plain_text (Some (JStr (fd_offset x))) 19 = Some offset"
    "declaredValue finding_states (Some (declared_json finding_states (fd_state x))) = Some s"
    "declaredValue final_cleanups (Some (declared_json final_cleanups (fd_cleanup x))) = Some c"
    and y: "y = \<lparr>fd_id = i, fd_recordIndex = n, fd_offset = offset, fd_observedAt = ob, fd_state = s, fd_cleanup = c\<rparr>"
    by (auto simp: parseRepairFinding_def finding_json_def bind_eq_Some_conv offsetPosition_def)
  from exact_naturals.exact [OF this(1)] exact_texts.exact [OF this(2)] exact_texts.exact [OF this(3)]
    exact_texts.exact [OF this(4)] table_exact(3) [OF this(5)] table_exact(4) [OF this(6)]
  show "y = x" by (simp add: y)
qed

lemma findings_exact: "parseFindings h (Some (JArr (map finding_json fs))) n = Some fs' \<Longrightarrow> fs' = fs"
  using exact_findings.all_exact by (auto simp: parseFindings_def bind_eq_Some_conv)

text \<open>A job whose review is a parsed one is stored as it is, or refused.\<close>

definition reviewed :: "js_host \<Rightarrow> replay_review \<Rightarrow> bool" where
  "reviewed h r \<longleftrightarrow> parseRecordReplayReview (h_parse h) (h_text h) (Some (review_json r)) = Some r"

lemma job_exact:
  assumes "parse_job h 3 (Some (job_json j)) = Some y" and "reviewed h (rj_review j)"
  shows "y = j"
proof -
  obtain outcomes fs revision parent continuation pending status i createdAt updatedAt cleanup where
    p: "parse_all parseKafkaWriteOutcome (map outcome_json (rj_outcomes j)) = Some outcomes"
    "parseFindings h (Some (JArr (map finding_json (rj_findings j)))) (int (reviewed_count (rj_review j))) = Some fs"
    "journalRevision (Some (int_json (rj_revision j))) = Some revision"
    "nullable (\<lambda>v. plain_text v 128) (Some (nullable_json JStr (rj_parentJobId j))) = Some parent"
    "nullable (\<lambda>v. plain_text v 128) (Some (nullable_json JStr (rj_continuationId j))) = Some continuation"
    "nullable safeNonNegative (Some (nullable_json int_json (rj_pendingIndex j))) = Some pending"
    "declaredValue job_statuses (Some (declared_json job_statuses (rj_status j))) = Some status"
    "plain_text (Some (JStr (rj_id j))) 128 = Some i"
    "plain_text (Some (JStr (rj_createdAt j))) 64 = Some createdAt"
    "plain_text (Some (JStr (rj_updatedAt j))) 64 = Some updatedAt"
    "declaredValue job_cleanups (Some (declared_json job_cleanups (rj_cleanup j))) = Some cleanup"
    and y: "y = \<lparr>rj_id = i, rj_createdAt = createdAt, rj_updatedAt = updatedAt, rj_review = rj_review j, rj_outcomes = outcomes,
            rj_pendingIndex = pending, rj_status = status, rj_cleanup = cleanup, rj_revision = revision,
            rj_parentJobId = parent, rj_continuationId = continuation, rj_findings = fs\<rparr>"
    using assms unfolding parse_job_def job_json_def reviewed_def by (auto simp: bind_eq_Some_conv)
  have "revision = rj_revision j" using p(3) naturals_exact by (simp add: journalRevision_Some)
  moreover have "pending = rj_pendingIndex j" by (rule exact_naturals.nullable_exact [OF p(6)])
  moreover have "parent = rj_parentJobId j" by (rule exact_texts.nullable_exact [OF p(4)])
  moreover have "continuation = rj_continuationId j" by (rule exact_texts.nullable_exact [OF p(5)])
  ultimately show ?thesis
    using exact_outcomes.all_exact [OF p(1)] findings_exact [OF p(2)] table_exact(6) [OF p(7)]
      exact_texts.exact [OF p(8)] exact_texts.exact [OF p(9)] exact_texts.exact [OF p(10)] table_exact(5) [OF p(11)]
    by (simp add: y)
qed

lemma job_ok_reviewed: "job_ok h j \<Longrightarrow> reviewed h (rj_review j)"
proof -
  assume "job_ok h j"
  then obtain review where r: "parseRecordReplayReview (h_parse h) (h_text h) (Some (review_json (rj_review j))) = Some review"
    "review = rj_review j"
    unfolding job_ok_def parse_job_def job_json_def by (auto simp: bind_eq_Some_conv)
  then show ?thesis by (simp add: reviewed_def)
qed

text \<open>So a changed document is either refused or stored exactly as it was changed.\<close>

lemma document_exact:
  assumes "parseRepairJournalDocument h (Some (document_json jobs)) = Some d" and "list_all (\<lambda>j. reviewed h (rj_review j)) jobs"
  shows "d = jobs"
proof -
  have "parse_all (parse_job h 3) (map job_json jobs) = Some d"
    using assms(1) by (auto simp: parseRepairJournalDocument_def document_json_def bind_eq_Some_conv schema_version_3)
  then show ?thesis using assms(2)
  proof (induction jobs arbitrary: d)
    case (Cons j jobs)
    then show ?case using job_exact by (auto simp: parse_all_def split: option.splits)
  qed (simp add: parse_all_def)
qed


section \<open>A job of one record\<close>

definition sample_host :: js_host where
  "sample_host = \<lparr>h_parse = (\<lambda>s. None), h_text = (\<lambda>bs. False), h_date = (\<lambda>s. True)\<rparr>"

definition sample_input :: replay_input where
  "sample_input = \<lparr>ri_targetProfile = None, ri_topic = ''t'', ri_partition = 0, ri_ratePerSecond = 1,
     ri_records = [\<lparr>rr_topic = ''s'', rr_partition = 0, rr_offset = ''7'', rr_timestampMs = None, rr_original = sample_complete\<rparr>],
     ri_transform = UNCHANGED_REPLAY_TRANSFORM\<rparr>"

definition sample_repair_batch :: batch_input where
  "sample_repair_batch = \<lparr>bi_timestamps = Some [None], bi_topic = ''t'', bi_partition = 0, bi_ratePerSecond = 1,
     bi_records = [sample_complete]\<rparr>"

definition sample_review :: replay_review where
  "sample_review = \<lparr>rv_planId = ''p'', rv_sourceName = ''a'', rv_targetName = ''b'', rv_expiresAt = ''e'',
     rv_input = sample_input, rv_batch = sample_repair_batch,
     rv_destination = \<lparr>dst_clusterId = ''c'', dst_topicId = ''d'', dst_partitions = 1\<rparr>, rv_encoding = None\<rparr>"

lemma small_natural [simp]: "safeNonNegative (Some (int_json 0)) = Some 0" "safeNonNegative (Some (int_json 1)) = Some 1"
  "positiveBoundedInteger (Some (int_json 1)) m = (if 1 \<le> m then Some 1 else None)"
  using safeNonNegative_int [of 0] safeNonNegative_int [of 1] by (simp_all add: positiveBoundedInteger_def check_def)

lemma sample_size: "kafkaOriginalRecordByteLength sample_complete = 3"
  by (simp add: sample_complete_def kafkaOriginalRecordByteLength_def base64ByteLength_def ends_with_def)

lemma sample_record: "65536 \<le> n \<or> n = 16384 \<Longrightarrow> parse_complete_record (Some (complete_json sample_complete)) n = Some sample_complete"
  using sample_parses by (auto simp: parse_complete_record_def sample_size)

lemma sample_destination:
  "parseKafkaWriteInput (Some (destination_json (Some (JStr ''t'')) (Some (int_json 0)) sample_complete)) =
   Some (Record_Write None ''t'' 0 sample_complete)"
  by (simp add: destination_parses topic_name_def topic_char_def plain_text_def boundedText_def check_def sample_record)

lemma sample_repair_batch_parses: "parseRecordBatchInput (Some (batch_json sample_repair_batch)) = Some sample_repair_batch"
  by (simp add: parseRecordBatchInput_def batch_json_def sample_repair_batch_def optional_member_def boundedRecords_def sample_record
      sample_size optional_value_def parse_timestamps_def timestamps_json_def parse_all_def nullable_def nullable_json_def
      sample_destination exactKeys_def check_def)

lemma unchanged_parses: "parseReplayTransform jp (Some (transform_json UNCHANGED_REPLAY_TRANSFORM)) = Some UNCHANGED_REPLAY_TRANSFORM"
  by (simp add: parseReplayTransform_def transform_json_def UNCHANGED_REPLAY_TRANSFORM_def nullable_json_def
      nullable_def parseKafkaOriginalRecord_def envelope_json_def parse_complete_def
      parse_all_def exactKeys_def check_def optional_member_def optional_value_def
      kafkaOriginalRecordByteLength_def base64ByteLength_def)

lemma sample_input_parses: "parseRecordReplayInput jp (Some (replay_input_json sample_input)) = Some sample_input"
proof -
  have b: "parseRecordBatchInput (Some (replay_batch_json (Some (JStr ''t'')) (Some (int_json 0)) (Some (int_json 1))
      [sample_complete] [None])) = Some sample_repair_batch"
    using replay_batch_members [of "Some (JStr ''t'')" "Some (int_json 0)" "Some (int_json 1)"]
    by (simp add: parseRecordBatchInput_def replay_batch_json_def sample_repair_batch_def optional_member_def boundedRecords_def
      sample_record sample_size optional_value_def parse_timestamps_def timestamps_json_def parse_all_def nullable_def
      nullable_json_def sample_destination exactKeys_def check_def)
  show ?thesis
    by (simp add: parseRecordReplayInput_def replay_input_json_def sample_input_def parse_all_def parse_replay_record_def
        replay_record_json_def replay_record_Some [OF sample_parses] plain_text_def boundedText_def offsetPosition_def
        decimal_text_def decimal_digit_def decimal_value_def nullable_def nullable_json_def exactKeys_def check_def b
        unchanged_parses) (simp add: sample_repair_batch_def)
qed

lemma sample_reviewed: "reviewed h sample_review"
  by (simp add: reviewed_def parseRecordReplayReview_def review_json_def sample_review_def parse_destination_def
      destination_record_json_def sample_input_parses sample_repair_batch_parses optional_member_def optional_value_def
      plain_text_def boundedText_def exactKeys_def check_def reviewed_evidence_def)
    (simp add: sample_input_def UNCHANGED_REPLAY_TRANSFORM_def)

definition sample_job_at :: "int option \<Rightarrow> repair_job" where
  "sample_job_at p = \<lparr>rj_id = ''p'', rj_createdAt = ''n'', rj_updatedAt = ''n'', rj_review = sample_review, rj_outcomes = [],
     rj_pendingIndex = p, rj_status = Running, rj_cleanup = Cleanup_Pending, rj_revision = 1, rj_parentJobId = None,
     rj_continuationId = None, rj_findings = []\<rparr>"

abbreviation sample_job :: repair_job where
  "sample_job \<equiv> sample_job_at (Some 0)"

lemma sample_job_ok:
  assumes "p = None \<or> p = Some 0" and date: "h_date h = (\<lambda>s. True)"
  shows "job_ok h (sample_job_at p)"
proof -
  have r: "parseRecordReplayReview (h_parse h) (h_text h) (Some (review_json sample_review)) = Some sample_review"
    using sample_reviewed [of h] by (simp add: reviewed_def)
  have d: "declaredValue job_statuses (Some (declared_json job_statuses Running)) = Some Running"
    "declaredValue job_cleanups (Some (declared_json job_cleanups Cleanup_Pending)) = Some Cleanup_Pending"
    by (simp_all add: declaredValue_def declared_json_def declared_text_def job_statuses_def job_cleanups_def final_cleanups_def)
  have c: "reviewed_count sample_review = 1" "rv_planId sample_review = ''p''" "consistent_inputs sample_review"
    by (simp_all add: reviewed_count_def sample_review_def sample_repair_batch_def consistent_inputs_def sample_input_def)
  show ?thesis
    using assms
    by (auto simp: job_ok_def parse_job_def job_json_def sample_job_at_def job_keys_def exactKeys_def check_def r d c date
      parse_all_def parseFindings_def journalRevision_def nullable_def nullable_json_def plain_text_def boundedText_def
      consistent_progress_def)
qed


lemma odd_part_power: "0 < k \<Longrightarrow> odd_part (k * 2 ^ n) e = odd_part k (e + int n)"
proof (induction n arbitrary: e)
  case (Suc n)
  have "odd_part (k * 2 ^ Suc n) e = odd_part (k * 2 ^ n) (e + 1)"
    using Suc.prems by (subst odd_part.simps) simp
  then show ?case using Suc by (simp add: algebra_simps)
qed simp

lemma one_bit: "bit_length (Suc 0) = 1" "bit_length 3 = 2"
  by (simp_all add: bit_length.simps [of "Suc 0"] bit_length.simps [of 3] bit_length.simps [of 0])

lemma small_numbers: "num_of_int 0 = Finite False 0 0" "num_of_int 1 = Finite False 1 0" "num_of_int 3 = Finite False 3 0"
proof -
  have o: "odd_part 4503599627370496 (- 52) = (1, 0)" "odd_part 6755399441055744 (- 51) = (3, 0)"
    using odd_part_power [of 1 52 "- 52"] odd_part_power [of 3 51 "- 51"]
    by (simp_all add: odd_part.simps [of 1] odd_part.simps [of 3] odd_part.simps [of "Suc 0"])
  show "num_of_int 0 = Finite False 0 0" by (simp add: num_of_int_def round_binary64_def)
  show "num_of_int 1 = Finite False 1 0" "num_of_int 3 = Finite False 3 0"
    by (simp_all add: num_of_int_def round_binary64_def Let_def one_bit o round_half_even_def)
qed

lemma short_digits: "decimal_num False s 0 = x \<Longrightarrow> scaled_floor a b 0 = s \<Longrightarrow> nearer_floor a b 0 \<Longrightarrow>
   shortest_digits a b x 1 1 17 = (s, 1)"
  by (simp add: eval_nat_numeral Let_def)

lemma small_number_bytes: "json_bytes (int_json 0) = 1" "json_bytes (int_json 1) = 1" "json_bytes (int_json 3) = 1"
proof -
  have d: "decimal_num False 1 0 = Finite False 1 0" "decimal_num False 3 0 = Finite False 3 0"
    using small_numbers(2,3) by (simp_all add: decimal_num_def num_of_int_def)
  have s: "nat_string 1 = [digit_char 1]" "nat_string 3 = [digit_char 3]" "nat_string (Suc 0) = [digit_char 1]"
    by (simp_all add: nat_string.simps)
  have g: "shortest_digits 1 1 (Finite False 1 0) 1 1 17 = (1, 1)" "shortest_digits 3 1 (Finite False 3 0) 1 1 17 = (3, 1)"
    using short_digits [OF d(1), of 1 1] short_digits [OF d(2), of 3 1] by (simp_all add: scaled_floor_def nearer_floor_def)
  show "json_bytes (int_json 0) = 1" by (simp add: int_json_def small_numbers)
  show "json_bytes (int_json 1) = 1" "json_bytes (int_json 3) = 1"
    using g by (simp_all add: int_json_def small_numbers Let_def point_position_def s print_decimal_def del: shortest_digits.simps)
qed

lemma string_bytes_simps: "json_string_bytes [] = 2" "json_string_bytes (c # s) = char_json c + json_string_bytes s"
  by (simp_all add: json_string_bytes_def)

lemma sample_repair_bytes: "p = None \<or> p = Some 0 \<Longrightarrow> json_bytes (document_json [sample_job_at p]) \<le> repair_file_bytes"
  by (auto simp: document_json_def job_json_def sample_job_at_def review_json_def sample_review_def replay_input_json_def
      sample_input_def replay_record_json_def complete_json_def sample_complete_def header_bytes_json_def transform_json_def
      UNCHANGED_REPLAY_TRANSFORM_def batch_json_def sample_repair_batch_def timestamps_json_def destination_record_json_def
      optional_member_def nullable_json_def declared_json_def declared_text_def job_statuses_def job_cleanups_def
      final_cleanups_def small_number_bytes string_bytes_simps char_json_def)

lemma sample_document:
  assumes "p = None \<or> p = Some 0" and "h_date h = (\<lambda>s. True)"
  shows "document_ok h [sample_job_at p]"
proof -
  have "find_job [sample_job_at p] ''p'' = Some (sample_job_at p)" by (simp add: find_job_def sample_job_at_def)
  then have "validateRepairLinks [sample_job_at p]"
    by (simp add: validateRepairLinks_def linked_def acyclic_walk.simps sample_job_at_def)
  then show ?thesis using sample_job_ok [OF assms] sample_repair_bytes [OF assms(1)] by (simp add: document_ok_def valid_jobs_def)
qed

lemma sample_loads: "parseRepairJournalDocument sample_host (Some (document_json [sample_job])) = Some [sample_job]"
  by (rule document_parses) (simp add: sample_document sample_host_def)

text \<open>
  C20: The repair journal survives its own writing. Whatever stored document is accepted, of any
  supported format, the document written from it is accepted again, as the same jobs: the reviewed
  records, the outcomes, the uncertain index, the links and the observations. An accepted document
  has at most 32 jobs of distinct ids within the file bound, and every job's progress fits its
  reviewed batch.
\<close>

theorem journal_documents_roundtrip:
  assumes "parseRepairJournalDocument h v = Some jobs"
  shows "parseRepairJournalDocument h (Some (document_json jobs)) = Some jobs
    \<and> length jobs \<le> repair_jobs_limit \<and> distinct (map rj_id jobs)
    \<and> json_bytes (document_json jobs) \<le> repair_file_bytes
    \<and> (\<forall>j \<in> set jobs. rj_id j = rv_planId (rj_review j)
         \<and> consistent_progress (rj_review j) (rj_outcomes j) (rj_pendingIndex j) (rj_status j))"
proof -
  have ok: "document_ok h jobs" by (rule parse_document_ok [OF assms])
  have job: "rj_id j = rv_planId (rj_review j)
      \<and> consistent_progress (rj_review j) (rj_outcomes j) (rj_pendingIndex j) (rj_status j)" if "job_ok h j" for j
    using that unfolding job_ok_def parse_job_def job_json_def by (auto simp: bind_eq_Some_conv)
  show ?thesis using document_parses [OF ok] ok job by (auto simp: document_ok_def valid_jobs_def list_all_iff)
qed

theorem journal_documents_roundtrip_witness:
  "parseRepairJournalDocument sample_host (Some (document_json [sample_job])) = Some [sample_job]
     \<and> consistent_progress sample_review [] (Some 0) Running"
proof -
  have "rj_review sample_job = sample_review" "rj_outcomes sample_job = []" "rj_pendingIndex sample_job = Some 0"
    "rj_status sample_job = Running"
    by (simp_all add: sample_job_at_def)
  then show ?thesis using journal_documents_roundtrip [OF sample_loads] by simp
qed

end
