(* ===== verification/Repair_Journal.thy ===== *)
theory Repair_Journal
  imports Repair_Jobs
begin

text \<open>
  The write-ahead repair journal (\<open>application/repair-journal.ts\<close>). A journal is its store, whether a
  commit has failed, and the ids of the jobs this owner is running; the operations are serialized by
  the code, so each is a function of the journal. \<open>ts\<close> is the ISO timestamp of the clock. A store is
  given by what \<open>load\<close> returns (None when it rejects) and by what \<open>commit\<close> leaves and whether it
  resolves.
\<close>

section \<open>Stores\<close>

record 's store_ops =
  so_durability :: durability
  so_load :: "'s \<Rightarrow> json option"
  so_commit :: "repair_document \<Rightarrow> 's \<Rightarrow> 's \<times> bool"

definition memory_load :: "repair_document \<Rightarrow> json option" where
  "memory_load document = Some (document_json document)"

definition memory_commit :: "js_host \<Rightarrow> repair_document \<Rightarrow> repair_document \<Rightarrow> repair_document \<times> bool" where
  "memory_commit h document old =
     (case parseRepairJournalDocument h (Some (document_json document)) of
        None \<Rightarrow> (old, False)
      | Some parsed \<Rightarrow> (parsed, True))"

definition MemoryRepairJobStore :: "js_host \<Rightarrow> repair_document store_ops" where
  "MemoryRepairJobStore h = \<lparr>so_durability = Session_Only, so_load = memory_load, so_commit = memory_commit h\<rparr>"

definition UnavailableRepairJobStore :: "unit store_ops" where
  "UnavailableRepairJobStore = \<lparr>so_durability = No_Storage, so_load = (\<lambda>s. None), so_commit = (\<lambda>document s. (s, False))\<rparr>"

section \<open>The journal\<close>

datatype journal_error = Storage_Error | Refused

type_synonym 'a outcome = "journal_error + 'a"

record 's journal =
  jn_store :: 's
  jn_failed :: bool
  jn_active :: "js_string set"

record repair_continuation =
  rc_parent :: repair_job
  rc_startIndex :: nat

definition new_journal :: "'s \<Rightarrow> 's journal" where
  "new_journal s = \<lparr>jn_store = s, jn_failed = False, jn_active = {}\<rparr>"

definition load_document :: "js_host \<Rightarrow> 's store_ops \<Rightarrow> 's \<Rightarrow> repair_document option" where
  "load_document h ops s =
     (case so_load ops s of None \<Rightarrow> None | Some v \<Rightarrow> parseRepairJournalDocument h (Some v))"

definition unavailable :: "'s store_ops \<Rightarrow> 's journal \<Rightarrow> bool" where
  "unavailable ops jn \<longleftrightarrow> jn_failed jn \<or> so_durability ops = No_Storage"

definition commit_next :: "'s store_ops \<Rightarrow> repair_document \<Rightarrow> 's journal \<Rightarrow> 's journal \<times> unit outcome" where
  "commit_next ops document jn =
     (case so_commit ops document (jn_store jn) of
        (s, True) \<Rightarrow> (jn\<lparr>jn_store := s\<rparr>, Inr ())
      | (s, False) \<Rightarrow> (jn\<lparr>jn_store := s, jn_failed := True\<rparr>, Inl Storage_Error))"

definition mutate ::
  "js_host \<Rightarrow> 's store_ops \<Rightarrow> (repair_document \<Rightarrow> repair_document outcome) \<Rightarrow> 's journal \<Rightarrow> 's journal \<times> unit outcome" where
  "mutate h ops change jn =
     (if unavailable ops jn then (jn, Inl Storage_Error)
      else case load_document h ops (jn_store jn) of
             None \<Rightarrow> (jn, Inl Storage_Error)
           | Some document \<Rightarrow>
               (case change document of
                  Inl e \<Rightarrow> (jn, Inl e)
                | Inr changed \<Rightarrow>
                    (case parseRepairJournalDocument h (Some (document_json changed)) of
                       None \<Rightarrow> (jn, Inl Refused)
                     | Some following \<Rightarrow> commit_next ops following jn)))"

text \<open>The first index that was definitely not sent.\<close>

definition nextIndex :: "repair_job \<Rightarrow> nat" where
  "nextIndex j = length (rj_outcomes j) + pending_count j"

text \<open>The continuations from the job named \<open>i\<close>; None would be a loop that never ends.\<close>

partial_function (option) chain_from :: "repair_job list \<Rightarrow> js_string \<Rightarrow> repair_job list option" where
  "chain_from jobs i =
     (case find_job jobs i of
        None \<Rightarrow> Some []
      | Some j \<Rightarrow>
          (case rj_continuationId j of
             None \<Rightarrow> Some [j]
           | Some c \<Rightarrow> Option.bind (chain_from jobs c) (\<lambda>rest. Some (j # rest))))"

declare chain_from.simps [code]

definition quiet :: "'s journal \<Rightarrow> repair_job \<Rightarrow> bool" where
  "quiet jn j \<longleftrightarrow> rj_id j \<notin> jn_active jn \<and> rj_pendingIndex j = None \<and> list_all (\<lambda>r. out_state r \<noteq> Unknown) (rj_outcomes j)"

definition list_summary :: "'s journal \<Rightarrow> repair_document \<Rightarrow> repair_job \<Rightarrow> repair_summary" where
  "list_summary jn document j =
     (summarizeRepairJob j)
       \<lparr>sm_status := (if rj_id j \<in> jn_active jn \<and> \<not> jn_failed jn then Running else sm_status (summarizeRepairJob j)),
        sm_canContinue := \<not> jn_failed jn \<and> rj_id j \<notin> jn_active jn \<and> rj_continuationId j = None
          \<and> nextIndex j < reviewed_count (rj_review j),
        sm_canArchive := \<not> jn_failed jn \<and> rj_parentJobId j = None
          \<and> (case chain_from document (rj_id j) of None \<Rightarrow> False | Some chain \<Rightarrow> list_all (quiet jn) chain)\<rparr>"

definition list_jobs :: "js_host \<Rightarrow> 's store_ops \<Rightarrow> 's journal \<Rightarrow> repair_summary list outcome" where
  "list_jobs h ops jn =
     (case load_document h ops (jn_store jn) of
        None \<Rightarrow> Inl Storage_Error
      | Some document \<Rightarrow> Inr (map (list_summary jn document) document))"

definition snapshot_job :: "js_host \<Rightarrow> 's store_ops \<Rightarrow> js_string \<Rightarrow> 's journal \<Rightarrow> repair_job outcome" where
  "snapshot_job h ops i jn =
     (if unavailable ops jn then Inl Storage_Error
      else case load_document h ops (jn_store jn) of
             None \<Rightarrow> Inl Storage_Error
           | Some document \<Rightarrow> (case find_job document i of None \<Rightarrow> Inl Refused | Some j \<Rightarrow> Inr j))"

definition continuation_of :: "js_host \<Rightarrow> 's store_ops \<Rightarrow> js_string \<Rightarrow> 's journal \<Rightarrow> repair_continuation outcome" where
  "continuation_of h ops i jn =
     (case snapshot_job h ops i jn of
        Inl e \<Rightarrow> Inl e
      | Inr parent \<Rightarrow>
          if i \<in> jn_active jn \<or> rj_continuationId parent \<noteq> None \<or> nextIndex parent \<ge> reviewed_count (rj_review parent)
          then Inl Refused
          else Inr \<lparr>rc_parent = parent, rc_startIndex = nextIndex parent\<rparr>)"

section \<open>Operations\<close>

text \<open>A continuation repeats the unsent records of its parent and their destination.\<close>

definition repeats_unsent :: "replay_review \<Rightarrow> replay_review \<Rightarrow> nat \<Rightarrow> bool" where
  "repeats_unsent r old n \<longleftrightarrow>
     dst_clusterId (rv_destination r) = dst_clusterId (rv_destination old)
     \<and> dst_topicId (rv_destination r) = dst_topicId (rv_destination old)
     \<and> dst_partitions (rv_destination r) = dst_partitions (rv_destination old)
     \<and> ri_topic (rv_input r) = ri_topic (rv_input old) \<and> ri_partition (rv_input r) = ri_partition (rv_input old)
     \<and> int (reviewed_count r) = int (reviewed_count old) - int n
     \<and> list_all (\<lambda>(x, y). sameKafkaCompleteRecord x y) (zip (bi_records (rv_batch r)) (drop n (bi_records (rv_batch old))))
     \<and> bi_timestamps (rv_batch r) = map_option (drop n) (bi_timestamps (rv_batch old))
     \<and> ri_records (rv_input r) = drop n (ri_records (rv_input old))
     \<and> rv_encoding r = map_option (drop n) (rv_encoding old)"

definition continuation_allowed ::
  "'s journal \<Rightarrow> repair_document \<Rightarrow> replay_review \<Rightarrow> repair_continuation \<Rightarrow> bool" where
  "continuation_allowed jn document review continuation \<longleftrightarrow>
     (case find_job document (rj_id (rc_parent continuation)) of
        None \<Rightarrow> False
      | Some current \<Rightarrow>
          rj_id current \<notin> jn_active jn \<and> rj_continuationId current = None \<and> current = rc_parent continuation
          \<and> nextIndex current = rc_startIndex continuation \<and> nextIndex current < reviewed_count (rj_review current)
          \<and> repeats_unsent review (rj_review current) (nextIndex current))"

definition new_job :: "js_string \<Rightarrow> replay_review \<Rightarrow> repair_continuation option \<Rightarrow> repair_job" where
  "new_job ts review continuation =
     \<lparr>rj_id = rv_planId review, rj_createdAt = ts, rj_updatedAt = ts, rj_review = review, rj_outcomes = [],
      rj_pendingIndex = None, rj_status = Running, rj_cleanup = Cleanup_Pending, rj_revision = 1,
      rj_parentJobId = map_option (\<lambda>c. rj_id (rc_parent c)) continuation, rj_continuationId = None, rj_findings = []\<rparr>"

definition link_parent :: "js_string \<Rightarrow> replay_review \<Rightarrow> repair_continuation option \<Rightarrow> repair_job \<Rightarrow> repair_job" where
  "link_parent ts review continuation j =
     (case continuation of
        Some c \<Rightarrow>
          if rj_id j = rj_id (rc_parent c)
          then j\<lparr>rj_continuationId := Some (rv_planId review), rj_revision := rj_revision j + 1, rj_updatedAt := ts\<rparr>
          else j
      | None \<Rightarrow> j)"

definition begin_change ::
  "js_string \<Rightarrow> replay_review \<Rightarrow> repair_continuation option \<Rightarrow> 's journal \<Rightarrow> repair_document \<Rightarrow> repair_document outcome" where
  "begin_change ts review continuation jn document =
     (if list_ex (\<lambda>j. rj_id j = rv_planId review) document then Inl Refused
      else if length document \<ge> repair_jobs_limit then Inl Storage_Error
      else if (case continuation of None \<Rightarrow> False | Some c \<Rightarrow> \<not> continuation_allowed jn document review c) then Inl Refused
      else Inr (map (link_parent ts review continuation) document @ [new_job ts review continuation]))"

definition begin_job ::
  "js_host \<Rightarrow> 's store_ops \<Rightarrow> js_string \<Rightarrow> replay_review \<Rightarrow> repair_continuation option \<Rightarrow> 's journal \<Rightarrow>
   's journal \<times> unit outcome" where
  "begin_job h ops ts review continuation jn =
     (case mutate h ops (begin_change ts review continuation jn) jn of
        (jn', Inr u) \<Rightarrow> (jn'\<lparr>jn_active := insert (rv_planId review) (jn_active jn')\<rparr>, Inr u)
      | (jn', Inl e) \<Rightarrow> (jn', Inl e))"

fun update_jobs :: "js_string \<Rightarrow> js_string \<Rightarrow> (repair_job \<Rightarrow> repair_job outcome) \<Rightarrow> repair_document \<Rightarrow> repair_document outcome" where
  "update_jobs ts i change [] = Inr []"
| "update_jobs ts i change (j # js) =
     (case (if rj_id j = i
            then (case change j of Inl e \<Rightarrow> Inl e | Inr k \<Rightarrow> Inr (k\<lparr>rj_updatedAt := ts, rj_revision := rj_revision j + 1\<rparr>))
            else Inr j) of
        Inl e \<Rightarrow> Inl e
      | Inr k \<Rightarrow> (case update_jobs ts i change js of Inl e \<Rightarrow> Inl e | Inr ks \<Rightarrow> Inr (k # ks)))"

definition update_job ::
  "js_host \<Rightarrow> 's store_ops \<Rightarrow> js_string \<Rightarrow> js_string \<Rightarrow> (repair_job \<Rightarrow> repair_job outcome) \<Rightarrow> 's journal \<Rightarrow>
   's journal \<times> unit outcome" where
  "update_job h ops ts i change jn =
     mutate h ops (\<lambda>document. if list_ex (\<lambda>j. rj_id j = i) document then update_jobs ts i change document else Inl Refused) jn"

definition recordFinding ::
  "js_host \<Rightarrow> 's store_ops \<Rightarrow> js_string \<Rightarrow> repair_job \<Rightarrow> repair_finding \<Rightarrow> 's journal \<Rightarrow> 's journal \<times> unit outcome" where
  "recordFinding h ops ts snapshot finding jn =
     update_job h ops ts (rj_id snapshot)
       (\<lambda>j. if rj_id j \<in> jn_active jn \<or> j \<noteq> snapshot then Inl Refused
            else if length (rj_findings j) \<ge> repair_findings_limit \<or> list_ex (\<lambda>f. fd_id f = fd_id finding) (rj_findings j)
            then Inl Refused
            else Inr (j\<lparr>rj_findings := rj_findings j @ [finding]\<rparr>)) jn"

definition archive_change :: "archive_input \<Rightarrow> 's journal \<Rightarrow> repair_document \<Rightarrow> repair_document outcome" where
  "archive_change input jn document =
     (case find_job document (ai_jobId input) of
        None \<Rightarrow> Inl Refused
      | Some first \<Rightarrow>
          if rj_parentJobId first \<noteq> None \<or> ai_confirmation input \<noteq> rj_id first then Inl Refused
          else (case chain_from document (rj_id first) of
                  None \<Rightarrow> Inl Refused
                | Some chain \<Rightarrow>
                    if map (\<lambda>j. (rj_id j, rj_revision j)) chain \<noteq> ai_chain input \<or> \<not> list_all (quiet jn) chain then Inl Refused
                    else Inr (filter (\<lambda>j. rj_id j \<notin> rj_id ` set chain) document)))"

definition archive_chain :: "js_host \<Rightarrow> 's store_ops \<Rightarrow> archive_input \<Rightarrow> 's journal \<Rightarrow> 's journal \<times> unit outcome" where
  "archive_chain h ops input jn = mutate h ops (archive_change input jn) jn"

definition intent :: "js_host \<Rightarrow> 's store_ops \<Rightarrow> js_string \<Rightarrow> js_string \<Rightarrow> nat \<Rightarrow> 's journal \<Rightarrow> 's journal \<times> unit outcome" where
  "intent h ops ts i index =
     update_job h ops ts i
       (\<lambda>j. if rj_pendingIndex j \<noteq> None \<or> index \<noteq> length (rj_outcomes j) \<or> rj_status j \<noteq> Running then Inl Refused
            else Inr (j\<lparr>rj_pendingIndex := Some (int index)\<rparr>))"

definition receipt ::
  "js_host \<Rightarrow> 's store_ops \<Rightarrow> js_string \<Rightarrow> js_string \<Rightarrow> nat \<Rightarrow> write_outcome option \<Rightarrow> 's journal \<Rightarrow> 's journal \<times> unit outcome" where
  "receipt h ops ts i index result =
     update_job h ops ts i
       (\<lambda>j. if rj_pendingIndex j \<noteq> Some (int index) then Inl Refused
            else Inr (j\<lparr>rj_pendingIndex := None,
                        rj_outcomes := (case result of None \<Rightarrow> rj_outcomes j | Some r \<Rightarrow> rj_outcomes j @ [r])\<rparr>))"

definition finish_job ::
  "js_host \<Rightarrow> 's store_ops \<Rightarrow> js_string \<Rightarrow> js_string \<Rightarrow> bool \<Rightarrow> cleanup_state \<Rightarrow> 's journal \<Rightarrow> 's journal \<times> unit outcome" where
  "finish_job h ops ts i complete cleanup jn =
     (case update_job h ops ts i
        (\<lambda>j. Inr (j\<lparr>rj_status := (if complete then Job_Complete else Stopped), rj_cleanup := cleanup\<rparr>)) jn of
        (jn', result) \<Rightarrow> (jn'\<lparr>jn_active := jn_active jn' - {i}\<rparr>, result))"


section \<open>The store contract\<close>

text \<open>
  A commit is atomic: when it resolves, the committed document is what a load returns; when it
  rejects, a load returns the old document or the new one.
\<close>

locale repair_store =
  fixes h :: js_host and ops :: "'s store_ops"
  assumes committed: "so_commit ops document s = (s', True) \<Longrightarrow> document_ok h document \<Longrightarrow>
      load_document h ops s' = Some document"
    and uncertain: "so_commit ops document s = (s', False) \<Longrightarrow> document_ok h document \<Longrightarrow>
      load_document h ops s' = load_document h ops s \<or> load_document h ops s' = Some document"
begin

abbreviation stored :: "'s journal \<Rightarrow> repair_document option" where
  "stored jn \<equiv> load_document h ops (jn_store jn)"

lemma stored_ok: "stored jn = Some d \<Longrightarrow> document_ok h d"
  by (auto simp: load_document_def dest: parse_document_ok split: option.splits)

text \<open>The three ways a mutation ends: refused, committed, or uncertain.\<close>

lemma mutate_cases:
  assumes "mutate h ops change jn = (jn', r)"
  obtains (refused) e where "r = Inl e" "jn' = jn"
  | (committed) document changed following s' where "r = Inr ()" "jn' = jn\<lparr>jn_store := s'\<rparr>" "\<not> unavailable ops jn"
      "stored jn = Some document" "change document = Inr changed"
      "parseRepairJournalDocument h (Some (document_json changed)) = Some following" "stored jn' = Some following"
  | (uncertain) document changed following s' where "r = Inl Storage_Error" "jn' = jn\<lparr>jn_store := s', jn_failed := True\<rparr>"
      "stored jn = Some document" "change document = Inr changed"
      "parseRepairJournalDocument h (Some (document_json changed)) = Some following"
      "stored jn' = stored jn \<or> stored jn' = Some following"
proof -
  consider "unavailable ops jn" | "\<not> unavailable ops jn" "stored jn = None"
    | d e where "\<not> unavailable ops jn" "stored jn = Some d" "change d = Inl e"
    | d c where "\<not> unavailable ops jn" "stored jn = Some d" "change d = Inr c"
        "parseRepairJournalDocument h (Some (document_json c)) = None"
    | d c f where "\<not> unavailable ops jn" "stored jn = Some d" "change d = Inr c"
        "parseRepairJournalDocument h (Some (document_json c)) = Some f"
    by (cases "unavailable ops jn"; cases "stored jn"; cases "change (the (stored jn))";
        cases "parseRepairJournalDocument h (Some (document_json (projr (change (the (stored jn))))))") auto
  then show ?thesis
  proof cases
    case (5 d c f)
    obtain s' ok where c: "so_commit ops f (jn_store jn) = (s', ok)" by (cases "so_commit ops f (jn_store jn)")
    have f: "document_ok h f" by (rule parse_document_ok [OF 5(4)])
    show ?thesis
    proof (cases ok)
      case True
      then show ?thesis
        using assms 5 c repair_store.committed [OF repair_store_axioms, of f "jn_store jn" s'] f
        by (intro local.committed [of s' d c f]) (auto simp: mutate_def commit_next_def)
    next
      case False
      then show ?thesis
        using assms 5 c repair_store.uncertain [OF repair_store_axioms, of f "jn_store jn" s'] f
        by (intro local.uncertain [of s' d c f]) (auto simp: mutate_def commit_next_def)
    qed
  qed (use assms in \<open>auto simp: mutate_def intro: refused\<close>)
qed

end


section \<open>Changing one job\<close>

definition stamped :: "js_string \<Rightarrow> repair_job \<Rightarrow> repair_job \<Rightarrow> repair_job" where
  "stamped ts j k = k\<lparr>rj_updatedAt := ts, rj_revision := rj_revision j + 1\<rparr>"

lemma stamped_simps [simp]: "rj_id (stamped ts j k) = rj_id k" "rj_review (stamped ts j k) = rj_review k"
  "rj_outcomes (stamped ts j k) = rj_outcomes k" "rj_pendingIndex (stamped ts j k) = rj_pendingIndex k"
  "rj_status (stamped ts j k) = rj_status k" "rj_parentJobId (stamped ts j k) = rj_parentJobId k"
  "rj_continuationId (stamped ts j k) = rj_continuationId k" "rj_findings (stamped ts j k) = rj_findings k"
  "rj_revision (stamped ts j k) = rj_revision j + 1"
  by (simp_all add: stamped_def)

definition keeps_identity :: "(repair_job \<Rightarrow> repair_job outcome) \<Rightarrow> bool" where
  "keeps_identity change \<longleftrightarrow> (\<forall>j k. change j = Inr k \<longrightarrow> rj_id k = rj_id j \<and> rj_review k = rj_review j)"

lemma find_job_Cons: "find_job (j # js) i = (if rj_id j = i then Some j else find_job js i)"
  by (simp add: find_job_def)

lemma find_job_None: "find_job js i = None \<longleftrightarrow> i \<notin> rj_id ` set js"
  unfolding find_job_def by (induction js) auto

lemma update_jobs_find:
  "update_jobs ts i change d = Inr d' \<Longrightarrow> keeps_identity change \<Longrightarrow> distinct (map rj_id d) \<Longrightarrow>
   map rj_id d' = map rj_id d \<and> map rj_review d' = map rj_review d
   \<and> (\<forall>i'. i' \<noteq> i \<longrightarrow> find_job d' i' = find_job d i')
   \<and> (\<forall>j. find_job d i = Some j \<longrightarrow> (\<exists>k. change j = Inr k \<and> find_job d' i = Some (stamped ts j k)))"
proof (induction d arbitrary: d')
  case (Cons j js)
  obtain k ks where k: "(if rj_id j = i then (case change j of Inl e \<Rightarrow> Inl e | Inr k \<Rightarrow> Inr (stamped ts j k)) else Inr j) = Inr k"
    and ks: "update_jobs ts i change js = Inr ks" and d': "d' = k # ks"
    using Cons.prems(1) by (auto simp: stamped_def split: sum.splits if_splits)
  note ih = Cons.IH [OF ks Cons.prems(2)]
  show ?case
  proof (cases "rj_id j = i")
    case True
    then obtain c where c: "change j = Inr c" "k = stamped ts j c" using k by (auto split: sum.splits)
    then have "rj_id k = rj_id j" "rj_review k = rj_review j" using Cons.prems(2) by (simp_all add: keeps_identity_def)
    then show ?thesis using ih Cons.prems(3) True c by (auto simp: d' find_job_Cons)
  next
    case False
    then show ?thesis using ih Cons.prems(3) k by (auto simp: d' find_job_Cons)
  qed
qed (simp add: find_job_def)

definition job_at :: "js_host \<Rightarrow> 's store_ops \<Rightarrow> 's journal \<Rightarrow> js_string \<Rightarrow> repair_job option" where
  "job_at h ops jn i = Option.bind (load_document h ops (jn_store jn)) (\<lambda>d. find_job d i)"

lemma reviewed_documents: "document_ok h d \<Longrightarrow> list_all (\<lambda>j. reviewed h (rj_review j)) d"
  using job_ok_reviewed by (auto simp: document_ok_def list_all_iff)

lemma reviewed_map: "list_all (\<lambda>j. reviewed h (rj_review j)) d \<longleftrightarrow> list_all (reviewed h) (map rj_review d)"
  by (simp add: list_all_iff)

context repair_store
begin

lemma update_cases:
  assumes "update_job h ops ts i change jn = (jn', r)" and "keeps_identity change"
  obtains (refused) e where "r = Inl e" "jn' = jn"
  | (committed) j k s' where "r = Inr ()" "jn' = jn\<lparr>jn_store := s'\<rparr>" "\<not> unavailable ops jn"
      "job_at h ops jn i = Some j" "change j = Inr k" "job_at h ops jn' i = Some (stamped ts j k)"
      "\<And>i'. i' \<noteq> i \<Longrightarrow> job_at h ops jn' i' = job_at h ops jn i'"
  | (uncertain) j k s' where "r = Inl Storage_Error" "jn' = jn\<lparr>jn_store := s', jn_failed := True\<rparr>"
      "job_at h ops jn i = Some j" "change j = Inr k"
      "job_at h ops jn' i = Some j \<or> job_at h ops jn' i = Some (stamped ts j k)"
      "\<And>i'. i' \<noteq> i \<Longrightarrow> job_at h ops jn' i' = job_at h ops jn i'"
proof -
  let ?change = "\<lambda>document. if list_ex (\<lambda>j. rj_id j = i) document then update_jobs ts i change document else Inl Refused"
  have m: "mutate h ops ?change jn = (jn', r)" using assms(1) by (simp add: update_job_def)
  have changed: "\<exists>j k. find_job d i = Some j \<and> change j = Inr k \<and> find_job f i = Some (stamped ts j k)
      \<and> (\<forall>i'. i' \<noteq> i \<longrightarrow> find_job f i' = find_job d i')"
    if d: "stored jn = Some d" "?change d = Inr c" "parseRepairJournalDocument h (Some (document_json c)) = Some f" for d c f
  proof -
    have ok: "document_ok h d" by (rule stored_ok [OF d(1)])
    have i: "list_ex (\<lambda>j. rj_id j = i) d" and u: "update_jobs ts i change d = Inr c" using d(2) by (auto split: if_splits)
    have "distinct (map rj_id d)" using ok by (simp add: document_ok_def valid_jobs_def)
    note find = update_jobs_find [OF u assms(2) this]
    have "list_all (\<lambda>j. reviewed h (rj_review j)) c"
      using reviewed_documents [OF ok] find unfolding reviewed_map by simp
    then have "f = c" by (rule document_exact [OF d(3)])
    moreover have "\<exists>j. find_job d i = Some j"
      using i find_job_None [of d i] by (cases "find_job d i") (auto simp: list_ex_iff)
    ultimately show ?thesis using find by blast
  qed
  from m show ?thesis
  proof (cases rule: mutate_cases)
    case (refused e)
    then show ?thesis by (intro that(1))
  next
    case (committed d c f s')
    then obtain j k where "find_job d i = Some j" "change j = Inr k" "find_job f i = Some (stamped ts j k)"
      "\<forall>i'. i' \<noteq> i \<longrightarrow> find_job f i' = find_job d i'"
      using changed by blast
    then show ?thesis using committed by (intro that(2) [of s' j k]) (auto simp: job_at_def)
  next
    case (uncertain d c f s')
    then obtain j k where "find_job d i = Some j" "change j = Inr k" "find_job f i = Some (stamped ts j k)"
      "\<forall>i'. i' \<noteq> i \<longrightarrow> find_job f i' = find_job d i'"
      using changed by blast
    then show ?thesis using uncertain by (intro that(3) [of s' j k]) (auto simp: job_at_def)
  qed
qed

end


lemma link_parent_simps [simp]: "rj_id (link_parent ts review c j) = rj_id j" "rj_review (link_parent ts review c j) = rj_review j"
  "rj_outcomes (link_parent ts review c j) = rj_outcomes j" "rj_pendingIndex (link_parent ts review c j) = rj_pendingIndex j"
  "rj_status (link_parent ts review c j) = rj_status j" "rj_parentJobId (link_parent ts review c j) = rj_parentJobId j"
  by (simp_all add: link_parent_def split: option.split)

lemma new_job_simps [simp]: "rj_id (new_job ts review c) = rv_planId review" "rj_review (new_job ts review c) = review"
  "rj_outcomes (new_job ts review c) = []" "rj_pendingIndex (new_job ts review c) = None" "rj_status (new_job ts review c) = Running"
  by (simp_all add: new_job_def)

lemma find_job_append: "find_job (xs @ ys) i = (case find_job xs i of None \<Rightarrow> find_job ys i | Some j \<Rightarrow> Some j)"
  by (induction xs) (simp_all add: find_job_Cons, simp add: find_job_def)

lemma find_job_map: "(\<And>j. rj_id (f j) = rj_id j) \<Longrightarrow> find_job (map f xs) i = map_option f (find_job xs i)"
  by (induction xs) (simp_all add: find_job_Cons, simp add: find_job_def)

context repair_store
begin

lemma begin_committed:
  assumes "begin_job h ops ts review c jn = (jn', Inr u)" and "reviewed h review"
  obtains d where "\<not> unavailable ops jn" "stored jn = Some d"
    "stored jn' = Some (map (link_parent ts review c) d @ [new_job ts review c])" "find_job d (rv_planId review) = None"
    "case c of None \<Rightarrow> True | Some x \<Rightarrow> continuation_allowed jn d review x"
    "jn_failed jn' = jn_failed jn" "jn_active jn' = insert (rv_planId review) (jn_active jn)"
proof -
  obtain jm where m: "mutate h ops (begin_change ts review c jn) jn = (jm, Inr u)"
    and jn': "jn' = jm\<lparr>jn_active := insert (rv_planId review) (jn_active jm)\<rparr>"
    using assms(1) by (auto simp: begin_job_def split: prod.splits sum.splits)
  from m show ?thesis
  proof (cases rule: mutate_cases)
    case (committed d changed f s')
    have ch: "changed = map (link_parent ts review c) d @ [new_job ts review c]"
      "find_job d (rv_planId review) = None" "case c of None \<Rightarrow> True | Some x \<Rightarrow> continuation_allowed jn d review x"
      using committed(5)
      by (auto simp: begin_change_def find_job_None list_ex_iff split: if_splits option.splits)
    have "list_all (\<lambda>j. reviewed h (rj_review j)) changed"
      using reviewed_documents [OF stored_ok [OF committed(4)]] assms(2) by (simp add: ch list_all_iff)
    then have "f = changed" by (rule document_exact [OF committed(6)])
    then show ?thesis using committed ch jn' by (intro that [of d]) (simp_all split: option.splits)
  qed simp_all
qed

end

text \<open>The session store is such a store.\<close>

interpretation memory: repair_store h "MemoryRepairJobStore h" for h
proof
  fix d s s'
  assume "so_commit (MemoryRepairJobStore h) d s = (s', True)" and ok: "document_ok h d"
  then have "s' = d" by (simp add: MemoryRepairJobStore_def memory_commit_def document_parses)
  then show "load_document h (MemoryRepairJobStore h) s' = Some d"
    using document_parses [OF ok] by (simp add: load_document_def MemoryRepairJobStore_def memory_load_def)
next
  fix d s s'
  assume "so_commit (MemoryRepairJobStore h) d s = (s', False)" and "document_ok h d"
  then show "load_document h (MemoryRepairJobStore h) s' = load_document h (MemoryRepairJobStore h) s
      \<or> load_document h (MemoryRepairJobStore h) s' = Some d"
    by (simp add: MemoryRepairJobStore_def memory_commit_def document_parses)
qed


section \<open>Chains end\<close>

fun parent_path :: "repair_job list \<Rightarrow> repair_job list \<Rightarrow> bool" where
  "parent_path jobs [] = True"
| "parent_path jobs [j] \<longleftrightarrow> find_job jobs (rj_id j) = Some j"
| "parent_path jobs (j # k # js) \<longleftrightarrow>
     find_job jobs (rj_id j) = Some j \<and> rj_parentJobId j = Some (rj_id k) \<and> parent_path jobs (k # js)"

lemma acyclic_path:
  "parent_path jobs (j # js) \<Longrightarrow> acyclic_walk jobs visited (rj_id j) \<Longrightarrow>
   distinct (map rj_id (j # js)) \<and> rj_id ` set (j # js) \<inter> visited = {}"
proof (induction js arbitrary: j visited)
  case Nil
  then show ?case by (auto simp: acyclic_walk.simps [of jobs visited "rj_id j"] split: if_splits)
next
  case (Cons k js)
  then have p: "find_job jobs (rj_id j) = Some j" "rj_parentJobId j = Some (rj_id k)" "parent_path jobs (k # js)" by simp_all
  then have w: "rj_id j \<notin> visited" "acyclic_walk jobs (insert (rj_id j) visited) (rj_id k)"
    using Cons.prems(2) by (simp_all add: acyclic_walk.simps [of jobs visited "rj_id j"] split: if_splits)
  show ?case using Cons.IH [OF p(3) w(2)] w(1) by auto
qed

lemma parent_path_set: "parent_path jobs js \<Longrightarrow> set js \<subseteq> set jobs"
  by (induction js rule: parent_path.induct [of _ jobs]) (auto dest: find_job_Some)

lemma linked_continuation:
  assumes "validateRepairLinks jobs" and "j \<in> set jobs" and "rj_continuationId j = Some c"
  obtains k where "find_job jobs c = Some k" "rj_parentJobId k = Some (rj_id j)"
proof -
  have "linked jobs j" using assms(1,2) by (simp add: validateRepairLinks_def list_all_iff)
  then show ?thesis using assms(3) that by (cases "find_job jobs c") (auto simp: linked_def)
qed

lemma chain_from_path:
  assumes "validateRepairLinks jobs"
  shows "parent_path jobs (j # js) \<Longrightarrow>
    \<exists>chain. chain_from jobs (rj_id j) = Some (j # chain) \<and> distinct (map rj_id (rev chain @ j # js))
      \<and> parent_path jobs (rev chain @ j # js)
      \<and> rj_continuationId (last (j # chain)) = None"
proof (induction "length jobs - length js" arbitrary: j js rule: less_induct)
  case less
  have j: "find_job jobs (rj_id j) = Some j" using less.prems by (cases js) simp_all
  have jin: "j \<in> set jobs" using find_job_Some [OF j] by simp
  have walk: "acyclic_walk jobs {} (rj_id j)" using assms jin by (simp add: validateRepairLinks_def list_all_iff)
  have d: "distinct (map rj_id (j # js))" using acyclic_path [OF less.prems walk] by blast
  then have "distinct (j # js)" by (simp only: distinct_map)
  then have "length (j # js) \<le> card (set jobs)"
    using parent_path_set [OF less.prems] distinct_card card_mono [of "set jobs" "set (j # js)"] by (metis List.finite_set)
  then have len: "length js < length jobs" using card_length [of jobs] by simp
  show ?case
  proof (cases "rj_continuationId j")
    case None
    then show ?thesis using j d less.prems by (auto simp: chain_from.simps [of jobs "rj_id j"])
  next
    case (Some c)
    obtain k where k: "find_job jobs c = Some k" "rj_parentJobId k = Some (rj_id j)"
      using linked_continuation [OF assms jin Some] .
    have kid: "rj_id k = c" using find_job_Some [OF k(1)] by simp
    have p: "parent_path jobs (k # j # js)" using k kid less.prems by simp
    obtain chain where chain: "chain_from jobs (rj_id k) = Some (k # chain)" "distinct (map rj_id (rev chain @ k # j # js))"
      "parent_path jobs (rev chain @ k # j # js)" "rj_continuationId (last (k # chain)) = None"
    proof -
      have "length jobs - length (j # js) < length jobs - length js" using len by simp
      from less.hyps [OF this p] show ?thesis using that by blast
    qed
    then have "chain_from jobs (rj_id j) = Some (j # k # chain)"
      using j Some kid by (simp add: chain_from.simps [of jobs "rj_id j"])
    then show ?thesis using chain by (intro exI [of _ "k # chain"]) simp
  qed
qed

text \<open>
  C39: The walk along continuations always ends. In every accepted document the chain from a stored
  job is found: it starts with that job, repeats none, stays among the stored jobs, follows the
  parent links backwards and ends at a job without a continuation; from an unknown id it is empty.
\<close>

theorem chains_end:
  assumes "parseRepairJournalDocument h v = Some jobs"
  shows "case find_job jobs i of
      None \<Rightarrow> chain_from jobs i = Some []
    | Some j \<Rightarrow> (\<exists>chain. chain_from jobs i = Some (j # chain) \<and> distinct (map rj_id (j # chain))
        \<and> set (j # chain) \<subseteq> set jobs \<and> parent_path jobs (rev (j # chain))
        \<and> rj_continuationId (last (j # chain)) = None)"
proof (cases "find_job jobs i")
  case None
  then show ?thesis by (simp add: chain_from.simps [of jobs i])
next
  case (Some j)
  have "validateRepairLinks jobs" using parse_document_ok [OF assms] by (simp add: document_ok_def valid_jobs_def)
  moreover have p: "parent_path jobs [j]" "rj_id j = i" using find_job_Some [OF Some] Some by simp_all
  ultimately obtain chain where c: "chain_from jobs (rj_id j) = Some (j # chain)" "distinct (map rj_id (rev chain @ [j]))"
    "parent_path jobs (rev chain @ [j])" "rj_continuationId (last (j # chain)) = None"
    using chain_from_path [of jobs j "[]"] by auto
  have "distinct (map rj_id (j # chain))" using c(2) by (auto simp: rev_map [symmetric])
  moreover have "set (j # chain) \<subseteq> set jobs" using parent_path_set [OF c(3)] by auto
  ultimately show ?thesis using c Some p(2) by auto
qed

theorem chains_end_witness:
  "chain_from [sample_job] ''p'' = Some [sample_job] \<and> parent_path [sample_job] [sample_job]"
proof -
  have f: "find_job [sample_job] ''p'' = Some sample_job" by (simp add: find_job_def sample_job_at_def)
  obtain chain where c: "chain_from [sample_job] ''p'' = Some (sample_job # chain)" "distinct (map rj_id (sample_job # chain))"
    "set (sample_job # chain) \<subseteq> {sample_job}" "parent_path [sample_job] (rev (sample_job # chain))"
    using chains_end [OF sample_loads, of "''p''"] f by auto
  have "chain = []" using c(2,3) by (cases chain) auto
  then show ?thesis using c by simp
qed

end
