(* ===== verification/Repair_History.thy ===== *)
theory Repair_History
  imports Repair_Journal
begin

text \<open>
  The journal over time: every operation as a step, what all reachable journals keep, what an archive
  removes, and what the history list tells the renderer.
\<close>

section \<open>Steps\<close>

inductive journal_step :: "js_host \<Rightarrow> 's store_ops \<Rightarrow> 's journal \<Rightarrow> 's journal \<Rightarrow> bool" for h ops where
  step_begin: "begin_job h ops ts review c jn = (jn', x) \<Longrightarrow> journal_step h ops jn jn'"
| step_finding: "recordFinding h ops ts job finding jn = (jn', x) \<Longrightarrow> journal_step h ops jn jn'"
| step_archive: "archive_chain h ops input jn = (jn', x) \<Longrightarrow> journal_step h ops jn jn'"
| step_intent: "intent h ops ts i index jn = (jn', x) \<Longrightarrow> journal_step h ops jn jn'"
| step_receipt: "receipt h ops ts i index result jn = (jn', x) \<Longrightarrow> journal_step h ops jn jn'"
| step_finish: "finish_job h ops ts i complete cleanup jn = (jn', x) \<Longrightarrow> journal_step h ops jn jn'"

inductive journal_run :: "js_host \<Rightarrow> 's store_ops \<Rightarrow> 's journal \<Rightarrow> 's journal \<Rightarrow> bool" for h ops where
  run_start: "journal_run h ops jn jn"
| run_step: "journal_run h ops jn jn1 \<Longrightarrow> journal_step h ops jn1 jn2 \<Longrightarrow> journal_run h ops jn jn2"

text \<open>Every step is one mutation, give or take the ids of the running jobs.\<close>

lemma journal_step_mutates:
  assumes "journal_step h ops jn jn'"
  obtains change jm x a where "mutate h ops change jn = (jm, x)" and "jn' = jm\<lparr>jn_active := a\<rparr>"
proof -
  have same: "jm = jm\<lparr>jn_active := jn_active jm\<rparr>" for jm :: "'a journal" by simp
  from assms show ?thesis
  proof cases
    case (step_begin ts review c x)
    then show ?thesis by (auto simp: begin_job_def split: prod.splits sum.splits intro: that same)
  next
    case (step_finish ts i complete cleanup x)
    then show ?thesis by (auto simp: finish_job_def update_job_def split: prod.splits intro: that)
  qed (auto simp: recordFinding_def archive_chain_def intent_def receipt_def update_job_def intro: that same)
qed

lemma mutate_fenced: "jn_failed jn \<Longrightarrow> mutate h ops change jn = (jn, Inl Storage_Error)"
  by (simp add: mutate_def unavailable_def)

context repair_store
begin

lemma step_keeps:
  assumes "journal_step h ops jn jn'"
  shows "(stored jn \<noteq> None \<longrightarrow> stored jn' \<noteq> None)
    \<and> (jn_failed jn \<longrightarrow> jn_failed jn' \<and> jn_store jn' = jn_store jn)"
proof -
  obtain change jm x a where m: "mutate h ops change jn = (jm, x)" and jn': "jn' = jm\<lparr>jn_active := a\<rparr>"
    by (rule journal_step_mutates [OF assms])
  have "stored jn \<noteq> None \<longrightarrow> stored jm \<noteq> None" using m by (cases rule: mutate_cases) auto
  then show ?thesis using m mutate_fenced [of jn h ops change] by (auto simp: jn')
qed

lemma run_keeps:
  "journal_run h ops jn jn' \<Longrightarrow>
   (stored jn \<noteq> None \<longrightarrow> stored jn' \<noteq> None) \<and> (jn_failed jn \<longrightarrow> jn_failed jn' \<and> jn_store jn' = jn_store jn)"
  by (induction rule: journal_run.induct) (use step_keeps in auto)

end

text \<open>
  C6: The journal stays readable, and a failed commit is the last write of its owner. Over a store
  whose commits are atomic, whatever sequence of operations runs on a journal with a readable
  document, with whatever arguments, the document that a load returns is accepted and valid; and
  from the moment a commit has failed no operation changes the store.
\<close>

theorem journal_stays_readable:
  assumes "repair_store h ops" and "load_document h ops (jn_store jn) \<noteq> None" and "journal_run h ops jn jn1"
    and "journal_run h ops jn1 jn2"
  shows "(\<exists>d. load_document h ops (jn_store jn1) = Some d \<and> length d \<le> repair_jobs_limit \<and> valid_jobs d)
    \<and> (if jn_failed jn1 then jn_store jn2 = jn_store jn1 \<and> jn_failed jn2 else True)"
proof -
  have "load_document h ops (jn_store jn1) \<noteq> None" using repair_store.run_keeps [OF assms(1,3)] assms(2) by blast
  then obtain d where d: "load_document h ops (jn_store jn1) = Some d" by blast
  then have "document_ok h d" by (rule repair_store.stored_ok [OF assms(1)])
  then show ?thesis using d repair_store.run_keeps [OF assms(1,4)] by (auto simp: document_ok_def)
qed

theorem journal_stays_readable_witness:
  "\<exists>d. load_document sample_host (MemoryRepairJobStore sample_host) [sample_job] = Some d \<and> valid_jobs d"
proof -
  let ?jn = "new_journal [sample_job] :: repair_document journal"
  have l: "load_document sample_host (MemoryRepairJobStore sample_host) (jn_store ?jn) \<noteq> None"
    using sample_loads
    by (simp add: load_document_def MemoryRepairJobStore_def memory_load_def new_journal_def)
  show ?thesis
    using journal_stays_readable [OF memory.repair_store_axioms l run_start run_start] by (auto simp: new_journal_def)
qed


section \<open>Archives\<close>

lemma chain_subset:
  assumes "document_ok h d" and "find_job d i = Some j" and "chain_from d i = Some chain"
  shows "set chain \<subseteq> set d" and "hd chain = j" and "chain \<noteq> []"
proof -
  have "validateRepairLinks d" using assms(1) by (simp add: document_ok_def valid_jobs_def)
  moreover have p: "parent_path d [j]" "rj_id j = i" using find_job_Some [OF assms(2)] assms(2) by simp_all
  ultimately obtain rest where "chain_from d (rj_id j) = Some (j # rest)" "parent_path d (rev rest @ [j])"
    using chain_from_path [of d j "[]"] by auto
  moreover from this have "set (j # rest) \<subseteq> set d" using parent_path_set [of d "rev rest @ [j]"] by auto
  ultimately show "set chain \<subseteq> set d" "hd chain = j" "chain \<noteq> []" using assms(3) p(2) by auto
qed

lemma find_job_distinct: "distinct (map rj_id d) \<Longrightarrow> j \<in> set d \<Longrightarrow> find_job d (rj_id j) = Some j"
  by (induction d) (auto simp: find_job_Cons)

lemma find_job_filter:
  "distinct (map rj_id d) \<Longrightarrow> find_job (filter (\<lambda>j. rj_id j \<notin> A) d) i = (if i \<in> A then None else find_job d i)"
  by (induction d) (auto simp: find_job_Cons find_job_def)

context repair_store
begin

lemma mutate_committed:
  assumes "mutate h ops change jn = (jn', Inr u)"
  obtains d changed following where "\<not> unavailable ops jn" "stored jn = Some d" "change d = Inr changed"
    "parseRepairJournalDocument h (Some (document_json changed)) = Some following" "stored jn' = Some following"
    "jn_failed jn' = jn_failed jn" "jn_active jn' = jn_active jn"
  using assms by (cases rule: mutate_cases) (auto intro: that)

end

text \<open>
  C7: An archive removes one settled chain and nothing else. When it succeeds, the stored document
  lost exactly the jobs of the chain that was reviewed (the same ids and revisions, from a root
  confirmed by its id), every one of them inactive, without an uncertain index and without an
  outcome of unknown state; every other job, and so every uncertain write, is still stored as it was.
\<close>

theorem archive_removes_one_chain:
  assumes "repair_store h ops" and "archive_chain h ops input jn = (jn', Inr u)"
  shows "\<exists>d d' chain. load_document h ops (jn_store jn) = Some d \<and> load_document h ops (jn_store jn') = Some d'
    \<and> chain_from d (ai_jobId input) = Some chain \<and> chain \<noteq> [] \<and> rj_parentJobId (hd chain) = None
    \<and> ai_confirmation input = ai_jobId input
    \<and> map (\<lambda>j. (rj_id j, rj_revision j)) chain = ai_chain input
    \<and> (\<forall>j \<in> set chain. rj_id j \<notin> jn_active jn \<and> rj_pendingIndex j = None
         \<and> (\<forall>r \<in> set (rj_outcomes j). out_state r \<noteq> Unknown))
    \<and> (\<forall>i. find_job d' i = (if i \<in> rj_id ` set chain then None else find_job d i))
    \<and> (\<forall>j \<in> set d. if rj_id j \<in> jn_active jn \<or> rj_pendingIndex j \<noteq> None \<or> Unknown \<in> out_state ` set (rj_outcomes j)
         then find_job d' (rj_id j) = Some j else True)"
proof -
  from assms(2) have m: "mutate h ops (archive_change input jn) jn = (jn', Inr u)" by (simp add: archive_chain_def)
  obtain d changed f where committed: "load_document h ops (jn_store jn) = Some d" "archive_change input jn d = Inr changed"
    "parseRepairJournalDocument h (Some (document_json changed)) = Some f" "load_document h ops (jn_store jn') = Some f"
    by (rule repair_store.mutate_committed [OF assms(1) m])
  obtain j chain where j: "find_job d (ai_jobId input) = Some j" "rj_parentJobId j = None" "ai_confirmation input = rj_id j"
    "chain_from d (rj_id j) = Some chain" "map (\<lambda>j. (rj_id j, rj_revision j)) chain = ai_chain input"
    "list_all (quiet jn) chain" "changed = filter (\<lambda>j. rj_id j \<notin> rj_id ` set chain) d"
    using committed(2) by (auto simp: archive_change_def split: option.splits if_splits)
  have ok: "document_ok h d" by (rule repair_store.stored_ok [OF assms(1) committed(1)])
  have dist: "distinct (map rj_id d)" using ok by (simp add: document_ok_def valid_jobs_def)
  have id: "rj_id j = ai_jobId input" using find_job_Some [OF j(1)] by simp
  have "list_all (\<lambda>j. reviewed h (rj_review j)) changed"
    using reviewed_documents [OF ok] by (simp add: j(7) list_all_iff)
  then have f: "f = changed" by (rule document_exact [OF committed(3)])
  have c: "set chain \<subseteq> set d" "hd chain = j" "chain \<noteq> []" using chain_subset [OF ok j(1)] j(4) id by simp_all
  have kept: "find_job f i = (if i \<in> rj_id ` set chain then None else find_job d i)" for i
    using find_job_filter [OF dist] by (simp add: f j(7))
  have "find_job f (rj_id k) = Some k" if k: "k \<in> set d" "\<not> quiet jn k" for k
  proof -
    have "rj_id k \<notin> rj_id ` set chain"
    proof
      assume "rj_id k \<in> rj_id ` set chain"
      then obtain l where l: "l \<in> set chain" "rj_id l = rj_id k" by auto
      then have "l = k" using find_job_distinct [OF dist k(1)] find_job_distinct [OF dist, of l] c(1) by auto
      then show False using j(6) l(1) k(2) by (simp add: list_all_iff)
    qed
    then show ?thesis using kept find_job_distinct [OF dist k(1)] by simp
  qed
  then have busy: "\<forall>k \<in> set d. if rj_id k \<in> jn_active jn \<or> rj_pendingIndex k \<noteq> None \<or> Unknown \<in> out_state ` set (rj_outcomes k)
      then find_job f (rj_id k) = Some k else True"
    by (simp add: quiet_def list_all_iff image_iff) (metis (full_types))
  have settled: "\<forall>k \<in> set chain. rj_id k \<notin> jn_active jn \<and> rj_pendingIndex k = None
      \<and> (\<forall>r \<in> set (rj_outcomes k). out_state r \<noteq> Unknown)"
    using j(6) by (simp add: quiet_def list_all_iff)
  show ?thesis
    by (rule exI [of _ d], rule exI [of _ f], rule exI [of _ chain])
       (intro conjI busy settled allI kept, use committed(1,4) j(1-5) c id in simp_all)
qed


text \<open>A settled job, stored and archived.\<close>

lemma memory_loads:
  "document_ok h d \<Longrightarrow> load_document h (MemoryRepairJobStore h) d = Some d"
  by (simp add: load_document_def MemoryRepairJobStore_def memory_load_def document_parses)

definition idle_journal :: "repair_document journal" where
  "idle_journal = new_journal [sample_job_at None]"

definition idle_archive :: archive_input where
  "idle_archive = \<lparr>ai_jobId = ''p'', ai_confirmation = ''p'', ai_chain = [(''p'', 1)]\<rparr>"

lemma idle_document: "document_ok sample_host [sample_job_at None]"
  by (simp add: sample_document sample_host_def)

lemma empty_document: "document_ok h []"
proof -
  have "json_bytes (document_json []) \<le> repair_file_bytes"
    by (simp add: document_json_def small_number_bytes string_bytes_simps char_json_def)
  then show ?thesis by (simp add: document_ok_def valid_jobs_def validateRepairLinks_def)
qed

lemma idle_archives:
  "archive_chain sample_host (MemoryRepairJobStore sample_host) idle_archive idle_journal = (new_journal [], Inr ())"
proof -
  have f: "find_job [sample_job_at None] ''p'' = Some (sample_job_at None)" by (simp add: find_job_def sample_job_at_def)
  have c: "chain_from [sample_job_at None] ''p'' = Some [sample_job_at None]"
    by (simp add: chain_from.simps f) (simp add: sample_job_at_def)
  have s: "rj_id (sample_job_at None) = ''p''" "rj_parentJobId (sample_job_at None) = None" "rj_revision (sample_job_at None) = 1"
    "rj_pendingIndex (sample_job_at None) = None" "rj_outcomes (sample_job_at None) = []"
    by (simp_all add: sample_job_at_def)
  have "archive_change idle_archive idle_journal [sample_job_at None] = Inr []"
    by (simp add: archive_change_def idle_archive_def idle_journal_def new_journal_def f c s quiet_def)
  then show ?thesis
    using memory_loads [OF idle_document] document_parses [OF empty_document]
    by (simp add: archive_chain_def mutate_def unavailable_def idle_journal_def new_journal_def commit_next_def
        MemoryRepairJobStore_def memory_commit_def)
qed

theorem archive_removes_one_chain_witness:
  "\<exists>d. load_document sample_host (MemoryRepairJobStore sample_host) [sample_job_at None] = Some d
     \<and> find_job d ''p'' \<noteq> None \<and> quiet idle_journal (sample_job_at None)"
proof -
  have s: "jn_store idle_journal = [sample_job_at None]" by (simp add: idle_journal_def new_journal_def)
  obtain d chain where "load_document sample_host (MemoryRepairJobStore sample_host) (jn_store idle_journal) = Some d"
    "chain_from d ''p'' = Some chain" "chain \<noteq> []" "\<forall>k \<in> set chain. rj_id k \<notin> jn_active idle_journal \<and> rj_pendingIndex k = None
      \<and> (\<forall>r \<in> set (rj_outcomes k). out_state r \<noteq> Unknown)"
    using archive_removes_one_chain [OF memory.repair_store_axioms idle_archives] by (auto simp: idle_archive_def simp del: Set.ball_simps)
  moreover from this have "d = [sample_job_at None]" using memory_loads [OF idle_document] s by simp
  moreover have f: "find_job [sample_job_at None] ''p'' = Some (sample_job_at None)" by (simp add: find_job_def sample_job_at_def)
  moreover have "chain_from [sample_job_at None] ''p'' = Some [sample_job_at None]"
    by (simp add: chain_from.simps f) (simp add: sample_job_at_def)
  ultimately show ?thesis using s by (auto simp: quiet_def list_all_iff)
qed

section \<open>The history list\<close>

lemma summary_status_stable:
  "declaredValue job_statuses v = Some s \<Longrightarrow> declaredValue summary_statuses (Some (declared_json summary_statuses s)) = Some s"
  "declaredValue summary_statuses (Some (declared_json summary_statuses Interrupted)) = Some Interrupted"
  "declaredValue summary_statuses (Some (declared_json summary_statuses Running)) = Some Running"
  by (cases s; simp add: declaredValue_def declared_json_def declared_text_def summary_statuses_def)
     (simp_all add: declaredValue_def declared_json_def declared_text_def summary_statuses_def)

lemma summary_profile_stable: "parse_profile v = Some p \<Longrightarrow> parse_summary_profile (Some (profile_json p)) = Some p"
  by (auto simp: parse_profile_def parse_summary_profile_def profile_json_def bind_eq_Some_conv texts.stable
      positiveBoundedInteger_Some journalRevision_Some naturals.stable)

text \<open>What an accepted review gives its summary.\<close>

lemma review_members:
  assumes "reviewed h r"
  shows "plain_text (Some (JStr (rv_targetName r))) 256 = Some (rv_targetName r)"
    and "plain_text (Some (JStr (ri_topic (rv_input r)))) 249 = Some (ri_topic (rv_input r))"
    and "safeNonNegative (Some (int_json (ri_partition (rv_input r)))) = Some (ri_partition (rv_input r))"
    and "nullable parse_summary_profile (Some (nullable_json profile_json (ri_targetProfile (rv_input r)))) =
      Some (ri_targetProfile (rv_input r))"
    and "1 \<le> reviewed_count r \<and> reviewed_count r \<le> 50"
proof -
  obtain m input batch targetName where p: "parseRecordReplayInput (h_parse h) (map_of m ''input'') = Some input"
    "parseRecordBatchInput (map_of m ''batch'') = Some batch" "plain_text (map_of m ''targetName'') 256 = Some targetName"
    and r: "rv_input r = input" "rv_batch r = batch" "rv_targetName r = targetName"
    using assms unfolding reviewed_def parseRecordReplayReview_def by (auto simp: bind_eq_Some_conv)
  show "plain_text (Some (JStr (rv_targetName r))) 256 = Some (rv_targetName r)" using texts.stable [OF p(3)] r by simp
  obtain q b profile where i: "parseRecordBatchInput q = Some b" "nullable parse_profile (map_of (the (record_value (map_of m ''input''))) ''targetProfile'') = Some profile"
    "ri_topic input = bi_topic b" "ri_partition input = bi_partition b" "ri_targetProfile input = profile"
    using p(1) unfolding parseRecordReplayInput_def by (auto simp: bind_eq_Some_conv)
  obtain bi where b: "topic_name (map_of bi ''topic'') = Some (bi_topic b)" "safeNonNegative (map_of bi ''partition'') = Some (bi_partition b)"
    using batch_parts [OF i(1)] by metis
  show "plain_text (Some (JStr (ri_topic (rv_input r)))) 249 = Some (ri_topic (rv_input r))"
    using b(1) texts.stable r i(3) by (auto simp: topic_name_def bind_eq_Some_conv)
  show "safeNonNegative (Some (int_json (ri_partition (rv_input r)))) = Some (ri_partition (rv_input r))"
    using naturals.stable [OF b(2)] r i(4) by simp
  have "nullable parse_summary_profile (Some (nullable_json profile_json profile)) = Some profile"
  proof (cases profile)
    case (Some p)
    then have "parse_profile (map_of (the (record_value (map_of m ''input''))) ''targetProfile'') = Some p"
      using i(2) by (auto simp: nullable_def split: if_splits)
    then show ?thesis using Some summary_profile_stable profiles.not_null [of p] by (simp add: nullable_def nullable_json_def)
  qed (simp add: nullable_def nullable_json_def)
  then show "nullable parse_summary_profile (Some (nullable_json profile_json (ri_targetProfile (rv_input r)))) =
      Some (ri_targetProfile (rv_input r))"
    using i(5) r by simp
  obtain bj where "boundedRecords (map_of bj ''records'') = Some (bi_records batch)" using batch_parts [OF p(2)] by metis
  then show "1 \<le> reviewed_count r \<and> reviewed_count r \<le> 50" using boundedRecords_Some(2,3) r by (auto simp: reviewed_count_def)
qed


lemma job_members:
  assumes "job_ok h j"
  shows "reviewed h (rj_review j)"
    and "plain_text (Some (JStr (rj_id j))) 128 = Some (rj_id j)"
    and "plain_text (Some (JStr (rj_createdAt j))) 64 = Some (rj_createdAt j)"
    and "plain_text (Some (JStr (rj_updatedAt j))) 64 = Some (rj_updatedAt j)"
    and "parse_all parseKafkaWriteOutcome (map outcome_json (rj_outcomes j)) = Some (rj_outcomes j)"
    and "nullable safeNonNegative (Some (nullable_json int_json (rj_pendingIndex j))) = Some (rj_pendingIndex j)"
    and "declaredValue job_statuses (Some (declared_json job_statuses (rj_status j))) = Some (rj_status j)"
    and "declaredValue job_cleanups (Some (declared_json job_cleanups (rj_cleanup j))) = Some (rj_cleanup j)"
    and "journalRevision (Some (int_json (rj_revision j))) = Some (rj_revision j)"
    and "nullable (\<lambda>v. plain_text v 128) (Some (nullable_json JStr (rj_parentJobId j))) = Some (rj_parentJobId j)"
    and "nullable (\<lambda>v. plain_text v 128) (Some (nullable_json JStr (rj_continuationId j))) = Some (rj_continuationId j)"
    and "parseFindings h (Some (JArr (map finding_json (rj_findings j)))) (int (reviewed_count (rj_review j))) = Some (rj_findings j)"
    and "consistent_progress (rj_review j) (rj_outcomes j) (rj_pendingIndex j) (rj_status j)"
    and "length (rj_outcomes j) \<le> reviewed_count (rj_review j)"
proof -
  obtain review outcomes fs revision parent continuation pending status i createdAt updatedAt cleanup where
    p: "parseRecordReplayReview (h_parse h) (h_text h) (Some (review_json (rj_review j))) = Some review"
    "length (rj_outcomes j) \<le> reviewed_count review"
    "parse_all parseKafkaWriteOutcome (map outcome_json (rj_outcomes j)) = Some outcomes"
    "parseFindings h (Some (JArr (map finding_json (rj_findings j)))) (int (reviewed_count review)) = Some fs"
    "journalRevision (Some (int_json (rj_revision j))) = Some revision"
    "nullable (\<lambda>v. plain_text v 128) (Some (nullable_json JStr (rj_parentJobId j))) = Some parent"
    "nullable (\<lambda>v. plain_text v 128) (Some (nullable_json JStr (rj_continuationId j))) = Some continuation"
    "nullable safeNonNegative (Some (nullable_json int_json (rj_pendingIndex j))) = Some pending"
    "declaredValue job_statuses (Some (declared_json job_statuses (rj_status j))) = Some status"
    "consistent_progress review outcomes pending status"
    "plain_text (Some (JStr (rj_id j))) 128 = Some i"
    "plain_text (Some (JStr (rj_createdAt j))) 64 = Some createdAt"
    "plain_text (Some (JStr (rj_updatedAt j))) 64 = Some updatedAt"
    "declaredValue job_cleanups (Some (declared_json job_cleanups (rj_cleanup j))) = Some cleanup"
    and j: "\<lparr>rj_id = i, rj_createdAt = createdAt, rj_updatedAt = updatedAt, rj_review = review, rj_outcomes = outcomes,
            rj_pendingIndex = pending, rj_status = status, rj_cleanup = cleanup, rj_revision = revision,
            rj_parentJobId = parent, rj_continuationId = continuation, rj_findings = fs\<rparr> = j"
    using assms unfolding job_ok_def parse_job_def job_json_def by (auto simp: bind_eq_Some_conv)
  have e: "rj_id j = i" "rj_createdAt j = createdAt" "rj_updatedAt j = updatedAt" "rj_review j = review" "rj_outcomes j = outcomes"
    "rj_pendingIndex j = pending" "rj_status j = status" "rj_cleanup j = cleanup" "rj_revision j = revision"
    "rj_parentJobId j = parent" "rj_continuationId j = continuation" "rj_findings j = fs"
    by (simp_all add: j [symmetric])
  show "reviewed h (rj_review j)" by (rule job_ok_reviewed [OF assms])
  show "plain_text (Some (JStr (rj_id j))) 128 = Some (rj_id j)" using p(11) e by simp
  show "plain_text (Some (JStr (rj_createdAt j))) 64 = Some (rj_createdAt j)" using p(12) e by simp
  show "plain_text (Some (JStr (rj_updatedAt j))) 64 = Some (rj_updatedAt j)" using p(13) e by simp
  show "parse_all parseKafkaWriteOutcome (map outcome_json (rj_outcomes j)) = Some (rj_outcomes j)" using p(3) e by simp
  show "nullable safeNonNegative (Some (nullable_json int_json (rj_pendingIndex j))) = Some (rj_pendingIndex j)"
    using p(8) e by simp
  show "declaredValue job_statuses (Some (declared_json job_statuses (rj_status j))) = Some (rj_status j)" using p(9) e by simp
  show "declaredValue job_cleanups (Some (declared_json job_cleanups (rj_cleanup j))) = Some (rj_cleanup j)" using p(14) e by simp
  show "journalRevision (Some (int_json (rj_revision j))) = Some (rj_revision j)" using p(5) e by simp
  show "nullable (\<lambda>v. plain_text v 128) (Some (nullable_json JStr (rj_parentJobId j))) = Some (rj_parentJobId j)"
    using p(6) e by simp
  show "nullable (\<lambda>v. plain_text v 128) (Some (nullable_json JStr (rj_continuationId j))) = Some (rj_continuationId j)"
    using p(7) e by simp
  show "parseFindings h (Some (JArr (map finding_json (rj_findings j)))) (int (reviewed_count (rj_review j))) = Some (rj_findings j)"
    using p(4) e by simp
  show "consistent_progress (rj_review j) (rj_outcomes j) (rj_pendingIndex j) (rj_status j)" using p(10) e by simp
  show "length (rj_outcomes j) \<le> reviewed_count (rj_review j)" using p(2) e by simp
qed

lemma summary_not_running: "sm_status (summarizeRepairJob j) \<noteq> Running"
  by (simp add: summarizeRepairJob_def)

text \<open>A summary is read back when each of its members is.\<close>

lemma summary_reads:
  assumes "plain_text (Some (JStr (sm_id s))) 128 = Some (sm_id s)"
    and "plain_text (Some (JStr (sm_createdAt s))) 64 = Some (sm_createdAt s)"
    and "plain_text (Some (JStr (sm_updatedAt s))) 64 = Some (sm_updatedAt s)"
    and "plain_text (Some (JStr (sm_targetName s))) 256 = Some (sm_targetName s)"
    and "plain_text (Some (JStr (sm_topic s))) 249 = Some (sm_topic s)"
    and "safeNonNegative (Some (int_json (sm_partition s))) = Some (sm_partition s)"
    and "declaredValue summary_statuses (Some (declared_json summary_statuses (sm_status s))) = Some (sm_status s)"
    and "declaredValue job_cleanups (Some (declared_json job_cleanups (sm_cleanup s))) = Some (sm_cleanup s)"
    and "safeNonNegative (Some (int_json (sm_total s))) = Some (sm_total s)"
    and "safeNonNegative (Some (int_json (sm_unsent s))) = Some (sm_unsent s)"
    and "parse_all parseKafkaWriteOutcome (map outcome_json (sm_outcomes s)) = Some (sm_outcomes s)"
    and "length (sm_outcomes s) \<le> 50"
    and "nullable safeNonNegative (Some (nullable_json int_json (sm_uncertainIndex s))) = Some (sm_uncertainIndex s)"
    and "journalRevision (Some (int_json (sm_revision s))) = Some (sm_revision s)"
    and "nullable (\<lambda>v. plain_text v 128) (Some (nullable_json JStr (sm_parentJobId s))) = Some (sm_parentJobId s)"
    and "nullable (\<lambda>v. plain_text v 128) (Some (nullable_json JStr (sm_continuationId s))) = Some (sm_continuationId s)"
    and "parseFindings h (Some (JArr (map finding_json (sm_findings s)))) (sm_total s) = Some (sm_findings s)"
    and "nullable parse_summary_profile (Some (nullable_json profile_json (sm_targetProfile s))) = Some (sm_targetProfile s)"
    and "consistent_summary (sm_total s) (sm_unsent s) (sm_outcomes s) (sm_uncertainIndex s)"
    and "sm_canContinue s \<longrightarrow> sm_continuationId s = None \<and> sm_unsent s \<noteq> 0 \<and> sm_status s \<noteq> Running"
    and "sm_canArchive s \<longrightarrow> sm_parentJobId s = None \<and> sm_uncertainIndex s = None \<and> sm_status s \<noteq> Running
      \<and> list_all (\<lambda>r. out_state r \<noteq> Unknown) (sm_outcomes s)"
  shows "parseRepairJobSummary h (Some (summary_json s)) = Some s"
proof -
  have running: "declared_json summary_statuses (sm_status s) = JStr ''running'' \<longleftrightarrow> sm_status s = Running"
    by (cases "sm_status s") (simp_all add: declared_json_def declared_text_def summary_statuses_def)
  have null: "nullable_json JStr x = JNull \<longleftrightarrow> x = None" for x by (cases x) (simp_all add: nullable_json_def)
  obtain ms where ms: "summary_json s = JObj ms" by (simp add: summary_json_def)
  have keys: "exactKeys ms summary_keys = Some ()" using ms by (auto simp: summary_json_def summary_keys_def exactKeys_def check_def)
  have vals: "map_of ms ''id'' = Some (JStr (sm_id s))" "map_of ms ''createdAt'' = Some (JStr (sm_createdAt s))"
    "map_of ms ''updatedAt'' = Some (JStr (sm_updatedAt s))" "map_of ms ''targetName'' = Some (JStr (sm_targetName s))"
    "map_of ms ''topic'' = Some (JStr (sm_topic s))" "map_of ms ''partition'' = Some (int_json (sm_partition s))"
    "map_of ms ''status'' = Some (declared_json summary_statuses (sm_status s))"
    "map_of ms ''cleanup'' = Some (declared_json job_cleanups (sm_cleanup s))"
    "map_of ms ''total'' = Some (int_json (sm_total s))" "map_of ms ''unsent'' = Some (int_json (sm_unsent s))"
    "map_of ms ''outcomes'' = Some (JArr (map outcome_json (sm_outcomes s)))"
    "map_of ms ''uncertainIndex'' = Some (nullable_json int_json (sm_uncertainIndex s))"
    "map_of ms ''revision'' = Some (int_json (sm_revision s))"
    "map_of ms ''parentJobId'' = Some (nullable_json JStr (sm_parentJobId s))"
    "map_of ms ''continuationId'' = Some (nullable_json JStr (sm_continuationId s))"
    "map_of ms ''findings'' = Some (JArr (map finding_json (sm_findings s)))"
    "map_of ms ''targetProfile'' = Some (nullable_json profile_json (sm_targetProfile s))"
    "map_of ms ''canContinue'' = Some (JBool (sm_canContinue s))" "map_of ms ''canArchive'' = Some (JBool (sm_canArchive s))"
    using ms by (auto simp: summary_json_def)
  have acts: "consistent_actions ms (sm_unsent s) (sm_outcomes s) (sm_uncertainIndex s) (sm_canContinue s) (sm_canArchive s)"
    using assms(20,21) unfolding consistent_actions_def vals option.inject running null
    by (auto simp: list_all_iff list_ex_iff)
  show ?thesis
    unfolding ms parseRepairJobSummary_def by (simp add: keys vals assms(1-19) acts check_def truth_def)
qed

lemma length_natural: "safeNonNegative (Some (int_json (int n))) = Some (int n)" if "n \<le> 50"
  using that by (intro safeNonNegative_int) auto

text \<open>The members of a listed summary, and what its two capabilities say of the job.\<close>

lemma list_summary_fields:
  assumes "s = list_summary jn d j"
  shows "sm_id s = rj_id j" "sm_createdAt s = rj_createdAt j" "sm_updatedAt s = rj_updatedAt j"
    "sm_targetName s = rv_targetName (rj_review j)" "sm_topic s = ri_topic (rv_input (rj_review j))"
    "sm_partition s = ri_partition (rv_input (rj_review j))" "sm_cleanup s = rj_cleanup j"
    "sm_total s = int (reviewed_count (rj_review j))" "sm_unsent s = int (reviewed_count (rj_review j)) - int (nextIndex j)"
    "sm_outcomes s = rj_outcomes j" "sm_uncertainIndex s = rj_pendingIndex j" "sm_revision s = rj_revision j"
    "sm_parentJobId s = rj_parentJobId j" "sm_continuationId s = rj_continuationId j" "sm_findings s = rj_findings j"
    "sm_targetProfile s = ri_targetProfile (rv_input (rj_review j))"
    "sm_status s = (if rj_id j \<in> jn_active jn \<and> \<not> jn_failed jn then Running
       else if rj_status j = Running then Interrupted else rj_status j)"
  by (simp_all add: assms list_summary_def summarizeRepairJob_def nextIndex_def)

lemma list_summary_continue:
  "sm_canContinue (list_summary jn d j) \<Longrightarrow> rj_continuationId j = None \<and> nextIndex j < reviewed_count (rj_review j)
     \<and> sm_status (list_summary jn d j) \<noteq> Running"
  using summary_not_running by (auto simp: list_summary_def)

lemma list_summary_archive:
  assumes "document_ok h d" and "find_job d (rj_id j) = Some j" and "sm_canArchive (list_summary jn d j)"
  shows "rj_parentJobId j = None \<and> quiet jn j \<and> sm_status (list_summary jn d j) \<noteq> Running"
proof -
  obtain chain where c: "chain_from d (rj_id j) = Some chain" "list_all (quiet jn) chain"
    "rj_parentJobId j = None" "\<not> jn_failed jn"
    using assms(3) by (auto simp: list_summary_def split: option.splits)
  have "hd chain = j" "chain \<noteq> []" using chain_subset [OF assms(1,2) c(1)] by simp_all
  then have "quiet jn j" using c(2) by (cases chain) auto
  then show ?thesis using c(3) list_summary_fields(17) [OF refl, of jn d j] by (auto simp: quiet_def)
qed

lemma list_summary_reads:
  assumes "document_ok h d" and "j \<in> set d"
  shows "parseRepairJobSummary h (Some (summary_json (list_summary jn d j))) = Some (list_summary jn d j)"
proof -
  have jok: "job_ok h j" using assms by (simp add: document_ok_def list_all_iff)
  have f: "find_job d (rj_id j) = Some j"
    by (rule find_job_distinct) (use assms in \<open>simp_all add: document_ok_def valid_jobs_def\<close>)
  note m = job_members [OF jok] and r = review_members [OF job_members(1) [OF jok]] and fields = list_summary_fields [OF refl, of jn d j]
  have next_le: "nextIndex j \<le> reviewed_count (rj_review j)"
    using m(13,14) by (auto simp: nextIndex_def pending_count_def consistent_progress_def split: option.splits)
  have count: "safeNonNegative (Some (int_json (int (reviewed_count (rj_review j))))) = Some (int (reviewed_count (rj_review j)))"
    by (rule length_natural) (use r(5) in simp)
  let ?s = "list_summary jn d j"
  show ?thesis
  proof (rule summary_reads)
    show "sm_canContinue ?s \<longrightarrow> sm_continuationId ?s = None \<and> sm_unsent ?s \<noteq> 0 \<and> sm_status ?s \<noteq> Running"
      using list_summary_continue [of jn d j] by (auto simp: fields(9,14))
    show "sm_canArchive ?s \<longrightarrow> sm_parentJobId ?s = None \<and> sm_uncertainIndex ?s = None \<and> sm_status ?s \<noteq> Running
        \<and> list_all (\<lambda>r. out_state r \<noteq> Unknown) (sm_outcomes ?s)"
      using list_summary_archive [OF assms(1) f, of jn] by (auto simp: fields(10,11,13) quiet_def)
    show "declaredValue summary_statuses (Some (declared_json summary_statuses (sm_status ?s))) = Some (sm_status ?s)"
      using summary_status_stable m(7) by (auto simp: fields)
    show "safeNonNegative (Some (int_json (sm_unsent ?s))) = Some (sm_unsent ?s)"
      using next_le r(5) by (intro safeNonNegative_int) (auto simp: fields)
    show "consistent_summary (sm_total ?s) (sm_unsent ?s) (sm_outcomes ?s) (sm_uncertainIndex ?s)"
      using next_le r(5) m(13)
      by (auto simp: consistent_summary_def fields nextIndex_def pending_count_def consistent_progress_def split: option.splits)
  qed (use m r count in \<open>simp_all add: fields(1-8,10-16)\<close>)
qed

text \<open>
  C40: Whatever the history list returns passes the boundary it is sent over. The list fails exactly
  when the stored document cannot be read; otherwise the summary of every stored job, with its live
  status and its two capabilities, is accepted by the summary parser and read back unchanged, so a
  summary never offers to continue or archive what its own status and outcomes forbid.
\<close>

theorem listed_summaries_are_valid:
  "case list_jobs h ops jn of
     Inl e \<Rightarrow> e = Storage_Error \<and> load_document h ops (jn_store jn) = None
   | Inr ss \<Rightarrow> list_all (\<lambda>s. parseRepairJobSummary h (Some (summary_json s)) = Some s) ss"
proof (cases "load_document h ops (jn_store jn)")
  case None
  then show ?thesis by (simp add: list_jobs_def)
next
  case (Some d)
  then have "document_ok h d" by (auto simp: load_document_def dest: parse_document_ok split: option.splits)
  then show ?thesis using list_summary_reads [of h d _ jn] Some by (auto simp: list_jobs_def list_all_iff)
qed

end
