(* ===== verification/Batch_Run.thy ===== *)
theory Batch_Run
  imports Repair_History
begin

text \<open>
  The batch service (\<open>application/record-batch-service.ts\<close>): reviewed plans, and the run of an
  approved plan with its journal hooks. What the run reads from the clock, the abort signal, the
  connection scope and the dispatch in one turn is the turn's environment.
\<close>

section \<open>The run\<close>

datatype dispatch_result = Not_Started | Settled write_outcome | Threw

text \<open>One turn: the checks before validation, the validation, the checks after it, the checks after
  the journalled intent (late means the deadline has passed), the reason read after the withdrawal has
  been journalled, and the dispatch.\<close>

record turn_env =
  te_late :: bool
  te_aborted :: bool
  te_current :: bool
  te_valid :: bool
  te_aborted2 :: bool
  te_current2 :: bool
  te_late2 :: bool
  te_aborted3 :: bool
  te_current3 :: bool
  te_late3 :: bool
  te_aborted4 :: bool
  te_current4 :: bool
  te_dispatch :: dispatch_result

record 's batch_hooks =
  bh_before :: "nat \<Rightarrow> 's \<Rightarrow> 's \<times> bool"
  bh_after :: "nat \<Rightarrow> write_outcome option \<Rightarrow> 's \<Rightarrow> 's \<times> bool"

text \<open>
  The hooks' state, the outcomes, and every dispatch that may have reached Kafka with the hooks'
  state at that moment.
\<close>

record 's run_state =
  rn_hooks :: 's
  rn_outcomes :: "write_outcome list"
  rn_sent :: "(write_input \<times> 's) list"

definition record_write :: "batch_input \<Rightarrow> nat \<Rightarrow> complete_record \<Rightarrow> write_input" where
  "record_write input index r =
     Record_Write
       (case bi_timestamps input of None \<Rightarrow> None | Some ts \<Rightarrow> if index < length ts then ts ! index else None)
       (bi_topic input) (bi_partition input) r"

definition unknown_outcome :: write_outcome where
  "unknown_outcome = \<lparr>out_state = Unknown,
     out_detail = ''Dispatch may have reached Kafka. Inspect the destination before any new attempt.'',
     out_receipt = None, out_verification = Verification_Unavailable\<rparr>"

definition head_stop :: "bool \<Rightarrow> turn_env \<Rightarrow> batch_stop option" where
  "head_stop validates e =
     (if te_late e then Some Deadline
      else if te_aborted e then Some Cancelled
      else if \<not> te_current e then Some Connection_Changed
      else if validates then
        (if te_aborted2 e then Some Cancelled
         else if \<not> te_current2 e then Some Connection_Changed
         else if \<not> te_valid e then Some Destination_Changed
         else if te_late2 e then Some Deadline
         else None)
      else None)"

text \<open>After the intent: the withdrawn turn's reason, read again once the receipt has been written.\<close>

definition withdrawn_stop :: "turn_env \<Rightarrow> batch_stop option" where
  "withdrawn_stop e =
     (if te_aborted3 e \<or> \<not> te_current3 e \<or> te_late3 e
      then Some (if te_aborted4 e then Cancelled else if \<not> te_current4 e then Connection_Changed else Deadline)
      else None)"

text \<open>The journalled intent of a turn: the hooks' state and the reason to stop before dispatching.\<close>

definition before_turn :: "'s batch_hooks option \<Rightarrow> turn_env \<Rightarrow> nat \<Rightarrow> 's \<Rightarrow> 's \<times> batch_stop option" where
  "before_turn hooks e index s =
     (case hooks of
        None \<Rightarrow> (s, None)
      | Some hk \<Rightarrow>
          (case bh_before hk index s of
             (s', False) \<Rightarrow> (s', Some Journal_Unavailable)
           | (s', True) \<Rightarrow>
               (case withdrawn_stop e of
                  None \<Rightarrow> (s', None)
                | Some reason \<Rightarrow>
                    (case bh_after hk index None s' of
                       (s'', True) \<Rightarrow> (s'', Some reason)
                     | (s'', False) \<Rightarrow> (s'', Some Journal_Unavailable)))))"

definition after_turn :: "'s batch_hooks option \<Rightarrow> nat \<Rightarrow> write_outcome option \<Rightarrow> 's \<Rightarrow> 's \<times> bool" where
  "after_turn hooks index result s = (case hooks of None \<Rightarrow> (s, True) | Some hk \<Rightarrow> bh_after hk index result s)"

text \<open>A dispatch that may have reached Kafka, its outcome, and its receipt.\<close>

definition settle_turn ::
  "'s batch_hooks option \<Rightarrow> batch_input \<Rightarrow> complete_record \<Rightarrow> nat \<Rightarrow> write_outcome \<Rightarrow> 's \<Rightarrow> 's run_state \<Rightarrow>
   's run_state \<times> batch_stop option" where
  "settle_turn hooks input r index result s st =
     (let sent = st\<lparr>rn_sent := rn_sent st @ [(record_write input index r, s)], rn_outcomes := rn_outcomes st @ [result]\<rparr>
      in case after_turn hooks index (Some result) s of
           (s', False) \<Rightarrow> (sent\<lparr>rn_hooks := s'\<rparr>, Some Journal_Unavailable)
         | (s', True) \<Rightarrow> (sent\<lparr>rn_hooks := s'\<rparr>, if out_state result \<noteq> Acknowledged then Some Write_Failed else None))"

text \<open>One turn, and the reason to stop after it.\<close>

definition run_turn ::
  "'s batch_hooks option \<Rightarrow> bool \<Rightarrow> batch_input \<Rightarrow> turn_env \<Rightarrow> complete_record \<Rightarrow> 's run_state \<Rightarrow>
   's run_state \<times> batch_stop option" where
  "run_turn hooks validates input e r st =
     (let index = length (rn_outcomes st) in
      case head_stop validates e of
        Some reason \<Rightarrow> (st, Some reason)
      | None \<Rightarrow>
          (case before_turn hooks e index (rn_hooks st) of
             (s, Some reason) \<Rightarrow> (st\<lparr>rn_hooks := s\<rparr>, Some reason)
           | (s, None) \<Rightarrow>
               (case te_dispatch e of
                  Not_Started \<Rightarrow>
                    (case after_turn hooks index None s of
                       (s', ok) \<Rightarrow> (st\<lparr>rn_hooks := s'\<rparr>, Some (if ok then Connection_Changed else Journal_Unavailable)))
                | Settled result \<Rightarrow> settle_turn hooks input r index result s st
                | Threw \<Rightarrow> settle_turn hooks input r index unknown_outcome s st)))"

fun run_records ::
  "'s batch_hooks option \<Rightarrow> bool \<Rightarrow> (nat \<Rightarrow> turn_env) \<Rightarrow> batch_input \<Rightarrow> complete_record list \<Rightarrow> 's run_state \<Rightarrow>
   's run_state \<times> batch_stop" where
  "run_records hooks validates env input [] st = (st, Batch_Complete)"
| "run_records hooks validates env input (r # rs) st =
     (case run_turn hooks validates input (env (length (rn_outcomes st))) r st of
        (st', Some reason) \<Rightarrow> (st', reason)
      | (st', None) \<Rightarrow> run_records hooks validates env input rs st')"

definition run_batch ::
  "'s batch_hooks option \<Rightarrow> bool \<Rightarrow> (nat \<Rightarrow> turn_env) \<Rightarrow> batch_input \<Rightarrow> 's \<Rightarrow> 's run_state \<times> batch_outcome" where
  "run_batch hooks validates env input s =
     (case run_records hooks validates env input (bi_records input) \<lparr>rn_hooks = s, rn_outcomes = [], rn_sent = []\<rparr> of
        (st, reason) \<Rightarrow>
          (st, \<lparr>bo_total = int (length (bi_records input)),
                bo_unsent = int (length (bi_records input)) - int (length (rn_outcomes st)),
                bo_outcomes = rn_outcomes st, bo_stopReason = reason\<rparr>))"

section \<open>Reviewed plans\<close>

text \<open>
  A plan is its review, whether it was cancelled, and the operation it started: none, one that is
  running, or one that has settled. Plans are kept in insertion order.
\<close>

record batch_plan =
  bp_review :: batch_review
  bp_aborted :: bool
  bp_operation :: "batch_outcome option option"

record batch_service =
  bs_plans :: "(js_string \<times> batch_plan) list"
  bs_active :: bool
  bs_reviews :: nat

definition new_service :: batch_service where
  "new_service = \<lparr>bs_plans = [], bs_active = False, bs_reviews = 0\<rparr>"

definition map_plans :: "(js_string \<Rightarrow> batch_plan \<Rightarrow> batch_plan) \<Rightarrow> batch_service \<Rightarrow> batch_service" where
  "map_plans f s = s\<lparr>bs_plans := map (\<lambda>(i, p). (i, f i p)) (bs_plans s)\<rparr>"

definition invalidate_plans :: "batch_service \<Rightarrow> batch_service" where
  "invalidate_plans = map_plans (\<lambda>i p. p\<lparr>bp_aborted := True\<rparr>)"

definition cancel_plan :: "js_string \<Rightarrow> batch_service \<Rightarrow> batch_service" where
  "cancel_plan i = map_plans (\<lambda>k p. if k = i then p\<lparr>bp_aborted := True\<rparr> else p)"

text \<open>A review starts after its input is parsed and an adapter is connected, unless the service is busy.\<close>

definition start_review :: "json option \<Rightarrow> bool \<Rightarrow> batch_service \<Rightarrow> (batch_service \<times> batch_input) option" where
  "start_review v supported s =
     do { parsed \<leftarrow> parseRecordBatchInput v;
          check supported;
          check (\<not> (bs_active s \<or> bs_reviews s \<ge> 2));
          Some (s\<lparr>bs_reviews := bs_reviews s + 1\<rparr>, parsed) }"

text \<open>It ends by retaining a plan under a fresh id, or not, once the scope has validated the destination.\<close>

definition retain_plan :: "js_string \<Rightarrow> js_string \<Rightarrow> js_string \<Rightarrow> batch_input \<Rightarrow> batch_service \<Rightarrow> batch_service" where
  "retain_plan i name expires parsed s =
     (let kept = (if length (bs_plans s) \<ge> 4 then tl (bs_plans s) else bs_plans s)
      in s\<lparr>bs_plans := kept @ [(i, \<lparr>bp_review = \<lparr>br_planId = i, br_connectionName = name, br_expiresAt = expires, br_input = parsed\<rparr>,
             bp_aborted = False, bp_operation = None\<rparr>)]\<rparr>)"

definition end_review :: "bool \<Rightarrow> bool \<Rightarrow> js_string \<Rightarrow> js_string \<Rightarrow> js_string \<Rightarrow> batch_input \<Rightarrow> batch_service \<Rightarrow> batch_service" where
  "end_review valid current i name expires parsed s =
     (if valid \<and> current then retain_plan i name expires parsed s else s)\<lparr>bs_reviews := bs_reviews s - 1\<rparr>"

datatype apply_result = Not_Applied | Repeated "batch_outcome option" | Started batch_input

text \<open>\<open>apply\<close>: \<open>Repeated\<close> hands out the operation a plan already started; \<open>expired\<close> is the clock.\<close>

definition apply_plan :: "js_string \<Rightarrow> bool \<Rightarrow> bool \<Rightarrow> batch_service \<Rightarrow> batch_service \<times> apply_result" where
  "apply_plan i current expired s =
     (case map_of (bs_plans s) i of
        None \<Rightarrow> (s, Not_Applied)
      | Some p \<Rightarrow>
          (case bp_operation p of
             Some operation \<Rightarrow> (s, Repeated operation)
           | None \<Rightarrow>
               if bs_active s \<or> \<not> current \<or> expired then (s, Not_Applied)
               else (map_plans (\<lambda>k p. if k = i then p\<lparr>bp_operation := Some None\<rparr> else p) (s\<lparr>bs_active := True\<rparr>),
                     Started (br_input (bp_review p)))))"

text \<open>The operation settles and the service is free again.\<close>

definition settle_plan :: "js_string \<Rightarrow> batch_outcome \<Rightarrow> batch_service \<Rightarrow> batch_service" where
  "settle_plan i result s =
     map_plans (\<lambda>k p. if k = i then p\<lparr>bp_operation := Some (Some result)\<rparr> else p) (s\<lparr>bs_active := False\<rparr>)"


section \<open>Journalled turns\<close>

text \<open>The journal of a repair as the hooks of its run; \<open>clock\<close> gives the timestamp of each call.\<close>

definition succeeded :: "'s \<times> unit outcome \<Rightarrow> 's \<times> bool" where
  "succeeded x = (fst x, snd x = Inr ())"

definition journal_hooks :: "js_host \<Rightarrow> 's store_ops \<Rightarrow> (bool \<Rightarrow> nat \<Rightarrow> js_string) \<Rightarrow> js_string \<Rightarrow> 's journal batch_hooks" where
  "journal_hooks h ops clock i =
     \<lparr>bh_before = (\<lambda>index jn. succeeded (intent h ops (clock False index) i index jn)),
      bh_after = (\<lambda>index result jn. succeeded (receipt h ops (clock True index) i index result jn))\<rparr>"

text \<open>What a restart would read of the job: its review, outcomes and uncertain index.\<close>

definition progress :: "js_host \<Rightarrow> 's store_ops \<Rightarrow> 's journal \<Rightarrow> js_string \<Rightarrow> (replay_review \<times> write_outcome list \<times> int option \<times> job_status) option" where
  "progress h ops jn i = map_option (\<lambda>j. (rj_review j, rj_outcomes j, rj_pendingIndex j, rj_status j)) (job_at h ops jn i)"

context repair_store
begin

lemma intent_progress:
  assumes "progress h ops jn i = Some (r, os, None, Running)" and "intent h ops ts i (length os) jn = (jn', x)"
  shows "(x = Inr () \<longrightarrow> progress h ops jn' i = Some (r, os, Some (int (length os)), Running) \<and> jn_failed jn' = jn_failed jn)
    \<and> (progress h ops jn' i = Some (r, os, None, Running) \<or> progress h ops jn' i = Some (r, os, Some (int (length os)), Running))"
proof -
  obtain j where j: "job_at h ops jn i = Some j" "rj_review j = r" "rj_outcomes j = os" "rj_pendingIndex j = None" "rj_status j = Running"
    using assms(1) by (auto simp: progress_def)
  have keeps: "keeps_identity (\<lambda>j. if rj_pendingIndex j \<noteq> None \<or> length os \<noteq> length (rj_outcomes j) \<or> rj_status j \<noteq> Running
      then Inl Refused else Inr (j\<lparr>rj_pendingIndex := Some (int (length os))\<rparr>))"
    by (auto simp: keeps_identity_def split: if_splits)
  from assms(2) [unfolded intent_def] keeps show ?thesis
    by (cases rule: update_cases) (use assms(1) j in \<open>auto simp: progress_def\<close>)
qed

lemma receipt_progress:
  assumes "progress h ops jn i = Some (r, os, Some (int n), Running)" and "receipt h ops ts i n result jn = (jn', x)"
  shows "(x = Inr () \<longrightarrow> progress h ops jn' i =
          Some (r, case result of None \<Rightarrow> os | Some y \<Rightarrow> os @ [y], None, Running) \<and> jn_failed jn' = jn_failed jn)
    \<and> (progress h ops jn' i = Some (r, os, Some (int n), Running)
       \<or> progress h ops jn' i = Some (r, case result of None \<Rightarrow> os | Some y \<Rightarrow> os @ [y], None, Running))"
proof -
  obtain j where j: "job_at h ops jn i = Some j" "rj_review j = r" "rj_outcomes j = os" "rj_pendingIndex j = Some (int n)"
    "rj_status j = Running"
    using assms(1) by (auto simp: progress_def)
  have keeps: "keeps_identity (\<lambda>j. if rj_pendingIndex j \<noteq> Some (int n) then Inl Refused
      else Inr (j\<lparr>rj_pendingIndex := None,
             rj_outcomes := (case result of None \<Rightarrow> rj_outcomes j | Some r \<Rightarrow> rj_outcomes j @ [r])\<rparr>))"
    by (auto simp: keeps_identity_def split: if_splits)
  from assms(2) [unfolded receipt_def] keeps show ?thesis
    by (cases rule: update_cases) (use assms(1) j in \<open>auto simp: progress_def\<close>)
qed

end


text \<open>Every dispatch so far went out in order, over a stored intent for its index.\<close>

definition logged ::
  "js_host \<Rightarrow> 's store_ops \<Rightarrow> js_string \<Rightarrow> replay_review \<Rightarrow> batch_input \<Rightarrow> (write_input \<times> 's journal) list \<Rightarrow> bool" where
  "logged h ops i review input sent \<longleftrightarrow>
     length sent \<le> length (bi_records input)
     \<and> (\<forall>k < length sent. fst (sent ! k) = record_write input k (bi_records input ! k)
         \<and> (\<exists>os. length os = k \<and> progress h ops (snd (sent ! k)) i = Some (review, os, Some (int k), Running)))"

lemma logged_snoc:
  assumes "logged h ops i review input sent" and "length sent < length (bi_records input)"
    and "progress h ops s i = Some (review, os, Some (int (length sent)), Running)" and "length os = length sent"
  shows "logged h ops i review input (sent @ [(record_write input (length sent) (bi_records input ! length sent), s)])"
  using assms by (auto simp: logged_def nth_append less_Suc_eq)

text \<open>Between turns, and when a run has stopped.\<close>

definition between_turns ::
  "js_host \<Rightarrow> 's store_ops \<Rightarrow> js_string \<Rightarrow> replay_review \<Rightarrow> batch_input \<Rightarrow> 's journal run_state \<Rightarrow> bool" where
  "between_turns h ops i review input st \<longleftrightarrow>
     logged h ops i review input (rn_sent st) \<and> length (rn_sent st) = length (rn_outcomes st)
     \<and> progress h ops (rn_hooks st) i = Some (review, rn_outcomes st, None, Running)"

definition stopped_run ::
  "js_host \<Rightarrow> 's store_ops \<Rightarrow> js_string \<Rightarrow> replay_review \<Rightarrow> batch_input \<Rightarrow> 's journal run_state \<Rightarrow> batch_stop \<Rightarrow> bool" where
  "stopped_run h ops i review input st reason \<longleftrightarrow>
     logged h ops i review input (rn_sent st) \<and> length (rn_sent st) = length (rn_outcomes st)
     \<and> (\<exists>os p. progress h ops (rn_hooks st) i = Some (review, os, p, Running)
          \<and> length (rn_sent st) \<le> length os + (if p = None then 0 else 1)
          \<and> (\<exists>m. os = take m (rn_outcomes st))
          \<and> (reason \<noteq> Journal_Unavailable \<longrightarrow> os = rn_outcomes st \<and> p = None))"

lemma stopped_intro:
  "logged h ops i review input (rn_sent st) \<Longrightarrow> length (rn_sent st) = length (rn_outcomes st) \<Longrightarrow>
   progress h ops (rn_hooks st) i = Some (review, os, p, Running) \<Longrightarrow>
   length (rn_sent st) \<le> length os + (if p = None then 0 else 1) \<Longrightarrow> os = take m (rn_outcomes st) \<Longrightarrow>
   reason \<noteq> Journal_Unavailable \<longrightarrow> os = rn_outcomes st \<and> p = None \<Longrightarrow> stopped_run h ops i review input st reason"
  unfolding stopped_run_def by blast

lemma between_stopped: "between_turns h ops i review input st \<Longrightarrow> stopped_run h ops i review input st reason"
  unfolding between_turns_def
  by (rule stopped_intro [where os = "rn_outcomes st" and p = None and m = "length (rn_outcomes st)"]) auto

lemma run_turn_counts:
  "run_turn hooks validates input e r st = (st', None) \<Longrightarrow> length (rn_outcomes st') = Suc (length (rn_outcomes st))"
  by (auto simp: run_turn_def settle_turn_def Let_def split: option.splits prod.splits dispatch_result.splits bool.splits if_splits)

context repair_store
begin

lemma before_turn_progress:
  assumes "progress h ops jn i = Some (r, os, None, Running)"
    and "before_turn (Some (journal_hooks h ops clock i)) e (length os) jn = (s, reason)"
  shows "(reason = None \<longrightarrow> progress h ops s i = Some (r, os, Some (int (length os)), Running))
    \<and> (\<exists>p. progress h ops s i = Some (r, os, p, Running))
    \<and> (\<forall>x. reason = Some x \<and> x \<noteq> Journal_Unavailable \<longrightarrow> progress h ops s i = Some (r, os, None, Running))"
proof -
  obtain jn' x where n: "intent h ops (clock False (length os)) i (length os) jn = (jn', x)" by (cases "intent h ops (clock False (length os)) i (length os) jn")
  note ip = intent_progress [OF assms(1) n]
  show ?thesis
  proof (cases "x = Inr ()")
    case False
    then have "s = jn' \<and> reason = Some Journal_Unavailable"
      using assms(2) n by (auto simp: before_turn_def journal_hooks_def succeeded_def)
    then show ?thesis using ip by auto
  next
    case True
    then have p: "progress h ops jn' i = Some (r, os, Some (int (length os)), Running)" using ip by simp
    show ?thesis
    proof (cases "withdrawn_stop e")
      case None
      then have "s = jn' \<and> reason = None" using assms(2) n True by (auto simp: before_turn_def journal_hooks_def succeeded_def)
      then show ?thesis using p by auto
    next
      case (Some why)
      obtain jn'' y where m: "receipt h ops (clock True (length os)) i (length os) None jn' = (jn'', y)"
        by (cases "receipt h ops (clock True (length os)) i (length os) None jn'")
      note rp = receipt_progress [OF p m]
      have "s = jn'' \<and> reason = Some (if y = Inr () then why else Journal_Unavailable)"
        using assms(2) n True Some m by (auto simp: before_turn_def journal_hooks_def succeeded_def split: bool.splits)
      then show ?thesis using rp by (auto split: if_splits)
    qed
  qed
qed

lemma settle_turn_progress:
  assumes "progress h ops s i = Some (review, rn_outcomes st, Some (int (length (rn_outcomes st))), Running)"
    and "logged h ops i review input (rn_sent st)" and "length (rn_sent st) = length (rn_outcomes st)"
    and "length (rn_sent st) < length (bi_records input)"
    and "settle_turn (Some (journal_hooks h ops clock i)) input (bi_records input ! length (rn_outcomes st))
           (length (rn_outcomes st)) result s st = (st', reason)"
  shows "case reason of None \<Rightarrow> between_turns h ops i review input st' | Some x \<Rightarrow> stopped_run h ops i review input st' x"
proof -
  let ?n = "length (rn_outcomes st)"
  obtain jn' x where m: "receipt h ops (clock True ?n) i ?n (Some result) s = (jn', x)" by (cases "receipt h ops (clock True ?n) i ?n (Some result) s")
  note rp = receipt_progress [OF assms(1) m]
  have l: "logged h ops i review input (rn_sent st @ [(record_write input ?n (bi_records input ! ?n), s)])"
    by (rule logged_snoc [OF assms(2,4), unfolded assms(3), OF assms(1) refl])
  have st': "rn_hooks st' = jn'" "rn_outcomes st' = rn_outcomes st @ [result]"
    "rn_sent st' = rn_sent st @ [(record_write input ?n (bi_records input ! ?n), s)]"
    "x \<noteq> Inr () \<longrightarrow> reason = Some Journal_Unavailable"
    "x = Inr () \<longrightarrow> reason = (if out_state result \<noteq> Acknowledged then Some Write_Failed else None)"
    using assms(5) m
    by (cases "x = Inr ()"; auto simp: settle_turn_def after_turn_def journal_hooks_def succeeded_def Let_def)+
  show ?thesis
  proof (cases "x = Inr ()")
    case True
    then have "progress h ops jn' i = Some (review, rn_outcomes st @ [result], None, Running)" using rp by simp
    then have "between_turns h ops i review input st'" using l assms(3) st' by (simp add: between_turns_def)
    then show ?thesis using between_stopped by (cases reason) auto
  next
    case False
    from rp consider "progress h ops jn' i = Some (review, rn_outcomes st, Some (int ?n), Running)"
       | "progress h ops jn' i = Some (review, rn_outcomes st @ [result], None, Running)" by auto
    then have "stopped_run h ops i review input st' Journal_Unavailable"
    proof cases
      case 1
      show ?thesis
        by (rule stopped_intro [where os = "rn_outcomes st" and p = "Some (int ?n)" and m = ?n]) (use 1 l assms(3) st' in auto)
    next
      case 2
      show ?thesis
        by (rule stopped_intro [where os = "rn_outcomes st @ [result]" and p = None and m = "Suc ?n"])
           (use 2 l assms(3) st' in auto)
    qed
    then show ?thesis using False st'(4) by simp
  qed
qed

lemma run_turn_progress:
  assumes "between_turns h ops i review input st" and "length (rn_outcomes st) < length (bi_records input)"
    and "run_turn (Some (journal_hooks h ops clock i)) validates input e (bi_records input ! length (rn_outcomes st)) st
      = (st', reason)"
  shows "case reason of None \<Rightarrow> between_turns h ops i review input st' | Some x \<Rightarrow> stopped_run h ops i review input st' x"
proof (cases "head_stop validates e")
  case (Some why)
  then have "st' = st \<and> reason = Some why" using assms(3) by (simp add: run_turn_def Let_def)
  then show ?thesis using between_stopped [OF assms(1)] by simp
next
  case None
  have b: "logged h ops i review input (rn_sent st)" "length (rn_sent st) = length (rn_outcomes st)"
    "progress h ops (rn_hooks st) i = Some (review, rn_outcomes st, None, Running)"
    using assms(1) by (simp_all add: between_turns_def)
  let ?hooks = "Some (journal_hooks h ops clock i)"
  obtain s w where t: "before_turn ?hooks e (length (rn_outcomes st)) (rn_hooks st) = (s, w)"
    by (cases "before_turn ?hooks e (length (rn_outcomes st)) (rn_hooks st)")
  note bp = before_turn_progress [OF b(3) t]
  have stop: "stopped_run h ops i review input (st\<lparr>rn_hooks := s'\<rparr>) x"
    if "progress h ops s' i = Some (review, rn_outcomes st, p, Running)" "x \<noteq> Journal_Unavailable \<longrightarrow> p = None" for s' x p
    by (rule stopped_intro [where os = "rn_outcomes st" and p = p and m = "length (rn_outcomes st)"]) (use that b in auto)
  show ?thesis
  proof (cases w)
    case (Some x)
    then have "st' = st\<lparr>rn_hooks := s\<rparr> \<and> reason = Some x" using None assms(3) t by (simp add: run_turn_def Let_def)
    moreover obtain p where "progress h ops s i = Some (review, rn_outcomes st, p, Running)" using bp by blast
    moreover have "x \<noteq> Journal_Unavailable \<longrightarrow> p = None" using bp Some calculation(2) by auto
    ultimately show ?thesis using stop [of s p x] by simp
  next
    case w: None
    then have p: "progress h ops s i = Some (review, rn_outcomes st, Some (int (length (rn_outcomes st))), Running)"
      using bp by simp
    have settle: "case reason of None \<Rightarrow> between_turns h ops i review input st' | Some x \<Rightarrow> stopped_run h ops i review input st' x"
      if "settle_turn ?hooks input (bi_records input ! length (rn_outcomes st)) (length (rn_outcomes st)) result s st = (st', reason)"
      for result
      by (rule settle_turn_progress [OF p b(1,2) _ that]) (use assms(2) b(2) in simp)
    show ?thesis
    proof (cases "te_dispatch e")
      case Not_Started
      obtain s' y where m: "receipt h ops (clock True (length (rn_outcomes st))) i (length (rn_outcomes st)) None s = (s', y)"
        by (cases "receipt h ops (clock True (length (rn_outcomes st))) i (length (rn_outcomes st)) None s")
      have "st' = st\<lparr>rn_hooks := s'\<rparr> \<and> reason = Some (if y = Inr () then Connection_Changed else Journal_Unavailable)"
        using None assms(3) t w Not_Started m
        by (cases "y = Inr ()") (auto simp: run_turn_def Let_def after_turn_def journal_hooks_def succeeded_def)
      then show ?thesis
        using receipt_progress [OF p m] stop [of s' None] stop [of s' "Some (int (length (rn_outcomes st)))"]
        by (cases "y = Inr ()") auto
    next
      case (Settled result)
      then show ?thesis using None assms(3) t w by (intro settle [of result]) (simp add: run_turn_def Let_def)
    next
      case Threw
      then show ?thesis using None assms(3) t w by (intro settle [of unknown_outcome]) (simp add: run_turn_def Let_def)
    qed
  qed
qed

lemma run_records_progress:
  "between_turns h ops i review input st \<Longrightarrow> rs = drop (length (rn_outcomes st)) (bi_records input) \<Longrightarrow>
   run_records (Some (journal_hooks h ops clock i)) validates env input rs st = (st', reason) \<Longrightarrow>
   stopped_run h ops i review input st' reason"
proof (induction rs arbitrary: st)
  case Nil
  then show ?case using between_stopped by auto
next
  case (Cons r rs)
  let ?n = "length (rn_outcomes st)"
  have n: "?n < length (bi_records input)" using Cons.prems(2) by (metis drop_eq_Nil list.distinct(1) not_le)
  then have r: "r = bi_records input ! ?n" "rs = drop (Suc ?n) (bi_records input)"
    using Cons.prems(2) by (simp_all add: Cons_nth_drop_Suc [symmetric])
  obtain st1 w where t: "run_turn (Some (journal_hooks h ops clock i)) validates input (env ?n) r st = (st1, w)"
    by (cases "run_turn (Some (journal_hooks h ops clock i)) validates input (env ?n) r st")
  note tp = run_turn_progress [OF Cons.prems(1) n t [unfolded r(1)]]
  show ?case
  proof (cases w)
    case None
    then have b: "between_turns h ops i review input st1" using tp by simp
    have "length (rn_outcomes st1) = Suc ?n" using run_turn_counts t None by blast
    then show ?thesis using Cons.IH [OF b] r(2) Cons.prems(3) t None by simp
  next
    case (Some x)
    then show ?thesis using tp Cons.prems(3) t by simp
  qed
qed

end


section \<open>A chain sends each record once\<close>

lemma run_batch_stopped:
  assumes "repair_store h ops" and "progress h ops jn i = Some (review, [], None, Running)"
    and "run_batch (Some (journal_hooks h ops clock i)) validates env input jn = (st, result)"
  shows "stopped_run h ops i review input st (bo_stopReason result)" and "bo_outcomes result = rn_outcomes st"
proof -
  let ?st = "\<lparr>rn_hooks = jn, rn_outcomes = [], rn_sent = []\<rparr>"
  have b: "between_turns h ops i review input ?st" using assms(2) by (simp add: between_turns_def logged_def)
  have "run_records (Some (journal_hooks h ops clock i)) validates env input (bi_records input) ?st = (st, bo_stopReason result)"
    and o: "bo_outcomes result = rn_outcomes st"
    using assms(3) by (auto simp: run_batch_def split: prod.splits)
  from repair_store.run_records_progress [OF assms(1) b _ this(1)]
  show "stopped_run h ops i review input st (bo_stopReason result)" by simp
  show "bo_outcomes result = rn_outcomes st" by (rule o)
qed

lemma logged_writes:
  assumes "logged h ops i review input sent"
  shows "map fst sent = map (\<lambda>n. record_write input n (bi_records input ! n)) [0..<length sent]"
  using assms by (intro nth_equalityI) (auto simp: logged_def)

text \<open>
  C1: Every dispatch is announced before it happens, and the journal never offers it again. When the
  batch of a started job runs over an atomic store, in whatever environment (deadlines, cancellation,
  connection changes, failed validation, failed dispatches, failing commits), the writes sent are the
  batch's records in order, each once. At the moment of each dispatch the stored job names its index
  as uncertain, and afterwards the job's first unsent index lies beyond every record that was sent.
  Unless the journal became unavailable, the stored outcomes are exactly the outcomes of the run.
\<close>

theorem dispatches_are_journalled:
  assumes "repair_store h ops" and "progress h ops jn i = Some (review, [], None, Running)"
    and "run_batch (Some (journal_hooks h ops clock i)) validates env input jn = (st, result)"
  shows "map fst (rn_sent st) = map (\<lambda>n. record_write input n (bi_records input ! n)) [0..<length (bo_outcomes result)]
    \<and> length (bo_outcomes result) \<le> length (bi_records input)
    \<and> (\<forall>n < length (rn_sent st). \<exists>os. length os = n
         \<and> progress h ops (snd (rn_sent st ! n)) i = Some (review, os, Some (int n), Running))
    \<and> (\<exists>j. job_at h ops (rn_hooks st) i = Some j \<and> rj_review j = review \<and> length (rn_sent st) \<le> nextIndex j
         \<and> (\<exists>m. rj_outcomes j = take m (bo_outcomes result))
         \<and> (if bo_stopReason result = Journal_Unavailable then True
            else rj_outcomes j = bo_outcomes result \<and> rj_pendingIndex j = None))"
proof -
  note run = run_batch_stopped [OF assms]
  have l: "logged h ops i review input (rn_sent st)" "length (rn_sent st) = length (rn_outcomes st)"
    using run(1) by (simp_all add: stopped_run_def)
  obtain os p where p: "progress h ops (rn_hooks st) i = Some (review, os, p, Running)"
    "length (rn_sent st) \<le> length os + (if p = None then 0 else 1)" "\<exists>m. os = take m (rn_outcomes st)"
    "bo_stopReason result \<noteq> Journal_Unavailable \<longrightarrow> os = rn_outcomes st \<and> p = None"
    using run(1) unfolding stopped_run_def by blast
  obtain j where j: "job_at h ops (rn_hooks st) i = Some j" "rj_review j = review" "rj_outcomes j = os" "rj_pendingIndex j = p"
    using p(1) by (auto simp: progress_def)
  have next_le: "length (rn_sent st) \<le> nextIndex j" using p(2) j by (auto simp: nextIndex_def pending_count_def)
  have "\<forall>n < length (rn_sent st). \<exists>os. length os = n
         \<and> progress h ops (snd (rn_sent st ! n)) i = Some (review, os, Some (int n), Running)"
    using l(1) by (simp add: logged_def)
  moreover have "length (rn_sent st) \<le> length (bi_records input)" using l(1) by (simp add: logged_def)
  ultimately show ?thesis
    using logged_writes [OF l(1)] l(2) run(2) p(3,4) j next_le by auto
qed

lemma idle_progress:
  "progress sample_host (MemoryRepairJobStore sample_host) idle_journal ''p'' = Some (sample_review, [], None, Running)"
proof -
  have "find_job [sample_job_at None] ''p'' = Some (sample_job_at None)" by (simp add: find_job_def sample_job_at_def)
  then show ?thesis
    using memory_loads [OF idle_document]
    by (simp add: progress_def job_at_def idle_journal_def new_journal_def) (simp add: sample_job_at_def)
qed

theorem dispatches_are_journalled_witness:
  "\<exists>j. job_at sample_host (MemoryRepairJobStore sample_host)
        (rn_hooks (fst (run_batch (Some (journal_hooks sample_host (MemoryRepairJobStore sample_host) (\<lambda>b n. ''n'') ''p'')) True
          (\<lambda>n. \<lparr>te_late = False, te_aborted = False, te_current = True, te_valid = True, te_aborted2 = False, te_current2 = True,
             te_late2 = False, te_aborted3 = False, te_current3 = True, te_late3 = False, te_aborted4 = False, te_current4 = True, te_dispatch = Threw\<rparr>)
          sample_repair_batch idle_journal))) ''p'' = Some j \<and> rj_review j = sample_review"
  using dispatches_are_journalled [OF memory.repair_store_axioms idle_progress surjective_pairing] by blast

lemma same_record: "sameKafkaCompleteRecord x y \<Longrightarrow> x = y"
proof -
  have "list_all (\<lambda>(h, k). header_key h = header_key k \<and> header_value h = header_value k) (zip hs ks) \<Longrightarrow>
    length hs = length ks \<Longrightarrow> hs = ks" for hs ks :: "header_bytes list"
  proof (induction hs arbitrary: ks)
    case (Cons a hs)
    then obtain b bs where "ks = b # bs" by (cases ks) auto
    then show ?case using Cons by (auto intro: header_bytes.equality)
  qed simp
  moreover assume "sameKafkaCompleteRecord x y"
  ultimately show ?thesis by (auto simp: sameKafkaCompleteRecord_def intro: complete_record.equality)
qed

lemma same_records:
  "length xs = length ys \<Longrightarrow> list_all (\<lambda>(x, y). sameKafkaCompleteRecord x y) (zip xs ys) \<Longrightarrow> xs = ys"
  by (induction xs ys rule: list_induct2) (auto dest: same_record)

lemma record_write_drop:
  assumes "bi_topic b = bi_topic a" "bi_partition b = bi_partition a" "bi_timestamps b = map_option (drop m) (bi_timestamps a)"
  shows "record_write b n r = record_write a (m + n) r"
proof (cases "bi_timestamps a")
  case (Some ts)
  have "(if n < length (drop m ts) then drop m ts ! n else None) = (if m + n < length ts then ts ! (m + n) else None)"
    by (auto simp: less_diff_conv add.commute)
  then show ?thesis using Some assms by (simp add: record_write_def)
qed (use assms in \<open>simp add: record_write_def\<close>)

lemma job_inputs: "job_ok h j \<Longrightarrow> consistent_inputs (rj_review j)"
proof -
  assume "job_ok h j"
  then obtain review where "parseRecordReplayReview (h_parse h) (h_text h) (Some (review_json (rj_review j))) = Some review"
    "consistent_inputs review"
    unfolding job_ok_def parse_job_def job_json_def by (auto simp: bind_eq_Some_conv)
  then show ?thesis using job_ok_reviewed [OF \<open>job_ok h j\<close>] by (simp add: reviewed_def)
qed

text \<open>The records of a continuation are the parent's records from its first unsent index.\<close>

lemma repeats_writes:
  assumes "repeats_unsent r old m" and "consistent_inputs r" and "consistent_inputs old" and "m \<le> reviewed_count old"
    and "n < reviewed_count r"
  shows "record_write (rv_batch r) n (bi_records (rv_batch r) ! n) =
    record_write (rv_batch old) (m + n) (bi_records (rv_batch old) ! (m + n))"
proof -
  have "int (reviewed_count r) = int (reviewed_count old) - int m" using assms(1) by (simp add: repeats_unsent_def)
  then have count: "reviewed_count r = reviewed_count old - m" using assms(4) by linarith
  then have "length (bi_records (rv_batch r)) = length (drop m (bi_records (rv_batch old)))"
    by (simp add: reviewed_count_def)
  then have "bi_records (rv_batch r) = drop m (bi_records (rv_batch old))"
    by (rule same_records) (use assms(1) in \<open>simp add: repeats_unsent_def\<close>)
  moreover have "n < length (drop m (bi_records (rv_batch old)))"
    using count assms(5) by (simp add: reviewed_count_def)
  ultimately have "bi_records (rv_batch r) ! n = bi_records (rv_batch old) ! (m + n)" by simp
  moreover have "record_write (rv_batch r) n x = record_write (rv_batch old) (m + n) x" for x
    by (rule record_write_drop) (use assms(1-3) in \<open>simp_all add: repeats_unsent_def consistent_inputs_def\<close>)
  ultimately show ?thesis by simp
qed

text \<open>A job that names its continuation is not continued again.\<close>

lemma continued_once:
  assumes "repair_store h ops" and "job_at h ops jn (rj_id (rc_parent c)) = Some parent" and "rj_continuationId parent \<noteq> None"
  shows "snd (begin_job h ops ts review (Some c) jn) \<noteq> Inr ()"
proof
  assume "snd (begin_job h ops ts review (Some c) jn) = Inr ()"
  then obtain jm where "mutate h ops (begin_change ts review (Some c) jn) jn = (jm, Inr ())"
    by (auto simp: begin_job_def split: prod.splits sum.splits)
  from repair_store.mutate_committed [OF assms(1) this] obtain d changed where
    "load_document h ops (jn_store jn) = Some d" "begin_change ts review (Some c) jn d = Inr changed" by blast
  then show False
    using assms(2,3) by (auto simp: job_at_def begin_change_def continuation_allowed_def split: if_splits option.splits)
qed

text \<open>
  C2: A continuation sends only what its parent never sent. When a continuation has begun and its
  batch runs, the parent was stored without a continuation, the n-th write of the run is, with its
  timestamp, topic, partition and bytes, the parent's write at its first unsent index plus n, within
  the parent's batch; and the stored parent now names the new job, so no other continuation of it
  can begin.
\<close>

theorem continuation_sends_only_unsent:
  assumes "repair_store h ops" and "reviewed h review"
    and "begin_job h ops ts review (Some c) jn = (jn', Inr u)"
    and "run_batch (Some (journal_hooks h ops clock (rv_planId review))) validates env (rv_batch review) jn' = (st, result)"
  shows "\<exists>parent parent'. job_at h ops jn (rj_id (rc_parent c)) = Some parent \<and> rj_continuationId parent = None
    \<and> map fst (rn_sent st) =
        map (\<lambda>n. record_write (rv_batch (rj_review parent)) (nextIndex parent + n)
               (bi_records (rv_batch (rj_review parent)) ! (nextIndex parent + n))) [0..<length (bo_outcomes result)]
    \<and> nextIndex parent + length (bo_outcomes result) \<le> reviewed_count (rj_review parent)
    \<and> job_at h ops jn' (rj_id (rc_parent c)) = Some parent'
    \<and> rj_continuationId parent' = Some (rv_planId review)
    \<and> (\<forall>review' c'. rj_id (rc_parent c') = rj_id (rc_parent c) \<longrightarrow>
         snd (begin_job h ops ts review' (Some c') jn') \<noteq> Inr ())"
proof -
  obtain d where d: "load_document h ops (jn_store jn) = Some d"
    "load_document h ops (jn_store jn') = Some (map (link_parent ts review (Some c)) d @ [new_job ts review (Some c)])"
    "find_job d (rv_planId review) = None" "continuation_allowed jn d review c"
    by (rule repair_store.begin_committed [OF assms(1,3,2)]) simp
  let ?p = "rj_id (rc_parent c)"
  obtain parent where p: "find_job d ?p = Some parent" "rj_continuationId parent = None"
    "nextIndex parent < reviewed_count (rj_review parent)" "repeats_unsent review (rj_review parent) (nextIndex parent)"
    using d(4) by (auto simp: continuation_allowed_def split: option.splits)
  have ok: "document_ok h d" "document_ok h (map (link_parent ts review (Some c)) d @ [new_job ts review (Some c)])"
    using repair_store.stored_ok [OF assms(1)] d(1,2) by blast+
  have ci: "consistent_inputs (rj_review parent)"
    using job_inputs [of h parent] find_job_Some [OF p(1)] ok(1) by (auto simp: document_ok_def list_all_iff)
  have cr: "consistent_inputs review"
    using job_inputs [of h "new_job ts review (Some c)"] ok(2) by (auto simp: document_ok_def)
  have new: "progress h ops jn' (rv_planId review) = Some (review, [], None, Running)"
    using d(2,3) by (simp add: progress_def job_at_def find_job_append find_job_map find_job_Cons)
  note run = run_batch_stopped [OF assms(1) new assms(4)]
  have l: "logged h ops (rv_planId review) review (rv_batch review) (rn_sent st)" "length (rn_sent st) = length (rn_outcomes st)"
    using run(1) by (simp_all add: stopped_run_def)
  have len: "length (rn_sent st) \<le> reviewed_count review" using l(1) by (simp add: logged_def reviewed_count_def)
  have count: "int (reviewed_count review) = int (reviewed_count (rj_review parent)) - int (nextIndex parent)"
    using p(4) by (simp add: repeats_unsent_def)
  have writes: "map fst (rn_sent st) = map (\<lambda>n. record_write (rv_batch (rj_review parent)) (nextIndex parent + n)
               (bi_records (rv_batch (rj_review parent)) ! (nextIndex parent + n))) [0..<length (rn_sent st)]"
    unfolding logged_writes [OF l(1)]
    by (rule map_cong [OF refl], rule repeats_writes [OF p(4) cr ci]) (use p(3) len in auto)
  have linked: "find_job (map (link_parent ts review (Some c)) d @ [new_job ts review (Some c)]) ?p =
      Some (link_parent ts review (Some c) parent)"
    using p(1) by (simp add: find_job_append find_job_map)
  have cont: "rj_continuationId (link_parent ts review (Some c) parent) = Some (rv_planId review)"
    using find_job_Some [OF p(1)] by (simp add: link_parent_def)
  have "snd (begin_job h ops ts review' (Some c') jn') \<noteq> Inr ()" if "rj_id (rc_parent c') = ?p" for review' c'
    using continued_once [OF assms(1), of jn' c'] that d(2) linked cont by (simp add: job_at_def)
  then show ?thesis
    using p(1,2) d(1,2) writes l(2) run(2) len count linked cont by (auto simp: job_at_def)
qed


section \<open>A continuation of one record\<close>

lemma two_bytes: "json_bytes (int_json 2) = 1"
proof -
  have b: "bit_length 2 = 2" by (simp add: bit_length.simps [of 2] bit_length.simps [of "Suc 0"] bit_length.simps [of 0])
  have o: "odd_part 4503599627370496 (- 51) = (1, 1)"
    using odd_part_power [of 1 52 "- 51"] by (simp add: odd_part.simps [of "Suc 0"])
  have n: "num_of_int 2 = Finite False 1 1"
    by (simp add: num_of_int_def round_binary64_def Let_def b one_bit o round_half_even_def)
  have d: "decimal_num False 2 0 = Finite False 1 1" using n by (simp add: decimal_num_def num_of_int_def)
  have s: "nat_string 2 = [digit_char 2]" by (simp add: nat_string.simps)
  have g: "shortest_digits 2 1 (Finite False 1 1) 1 1 17 = (2, 1)"
    using short_digits [OF d, of 2 1] by (simp add: scaled_floor_def nearer_floor_def)
  show ?thesis using g by (simp add: int_json_def n Let_def point_position_def s print_decimal_def del: shortest_digits.simps)
qed

definition next_review :: replay_review where
  "next_review = sample_review\<lparr>rv_planId := ''q''\<rparr>"

definition idle_continuation :: repair_continuation where
  "idle_continuation = \<lparr>rc_parent = sample_job_at None, rc_startIndex = 0\<rparr>"

lemma next_reviewed: "reviewed h next_review"
  by (simp add: reviewed_def parseRecordReplayReview_def review_json_def next_review_def sample_review_def parse_destination_def
      destination_record_json_def sample_input_parses sample_repair_batch_parses optional_member_def optional_value_def
      plain_text_def boundedText_def exactKeys_def check_def reviewed_evidence_def)
    (simp add: sample_input_def UNCHANGED_REPLAY_TRANSFORM_def)

definition next_document :: repair_document where
  "next_document = [link_parent ''n'' next_review (Some idle_continuation) (sample_job_at None),
     new_job ''n'' next_review (Some idle_continuation)]"

lemma next_jobs: "next_document =
  [sample_job_at None\<lparr>rj_revision := 2, rj_continuationId := Some ''q''\<rparr>,
   sample_job_at None\<lparr>rj_id := ''q'', rj_review := next_review, rj_parentJobId := Some ''p''\<rparr>]"
  by (simp add: next_document_def link_parent_def new_job_def idle_continuation_def sample_job_at_def next_review_def sample_review_def)

lemma next_jobs_ok: "list_all (job_ok sample_host) next_document"
proof -
  have r: "parseRecordReplayReview (\<lambda>s. None) (\<lambda>bs. False) (Some (review_json sample_review)) = Some sample_review"
    "parseRecordReplayReview (\<lambda>s. None) (\<lambda>bs. False) (Some (review_json next_review)) = Some next_review"
    using sample_reviewed [of sample_host] next_reviewed [of sample_host] by (simp_all add: reviewed_def sample_host_def)
  have d: "declaredValue job_statuses (Some (declared_json job_statuses Running)) = Some Running"
    "declaredValue job_cleanups (Some (declared_json job_cleanups Cleanup_Pending)) = Some Cleanup_Pending"
    by (simp_all add: declaredValue_def declared_json_def declared_text_def job_statuses_def job_cleanups_def final_cleanups_def)
  have c: "reviewed_count sample_review = 1" "rv_planId sample_review = ''p''" "consistent_inputs sample_review"
    "reviewed_count next_review = 1" "rv_planId next_review = ''q''" "consistent_inputs next_review"
    by (simp_all add: reviewed_count_def next_review_def sample_review_def sample_repair_batch_def consistent_inputs_def sample_input_def)
  have n: "safeNonNegative (Some (int_json 2)) = Some 2" using safeNonNegative_int [of 2] by simp
  show ?thesis
    by (simp add: next_jobs job_ok_def parse_job_def job_json_def sample_job_at_def job_keys_def exactKeys_def check_def r d c n
      sample_host_def parse_all_def parseFindings_def journalRevision_def nullable_def nullable_json_def plain_text_def
      boundedText_def consistent_progress_def)
qed

lemma next_bytes: "json_bytes (document_json next_document) \<le> repair_file_bytes"
  by (simp add: next_jobs document_json_def job_json_def sample_job_at_def review_json_def next_review_def sample_review_def
      replay_input_json_def sample_input_def replay_record_json_def complete_json_def sample_complete_def header_bytes_json_def
      transform_json_def UNCHANGED_REPLAY_TRANSFORM_def batch_json_def sample_repair_batch_def timestamps_json_def
      destination_record_json_def optional_member_def nullable_json_def declared_json_def declared_text_def job_statuses_def
      job_cleanups_def final_cleanups_def small_number_bytes two_bytes string_bytes_simps char_json_def)

lemma next_document_ok: "document_ok sample_host next_document"
proof -
  have ids: "map rj_id next_document = [''p'', ''q'']" by (simp add: next_jobs sample_job_at_def)
  have "validateRepairLinks next_document"
    by (simp add: next_jobs validateRepairLinks_def linked_def acyclic_walk.simps find_job_def sample_job_at_def)
  then show ?thesis using next_jobs_ok next_bytes ids by (simp add: document_ok_def valid_jobs_def next_document_def)
qed

lemma next_begins:
  "begin_job sample_host (MemoryRepairJobStore sample_host) ''n'' next_review (Some idle_continuation) idle_journal =
    (\<lparr>jn_store = next_document, jn_failed = False, jn_active = {''q''}\<rparr>, Inr ())"
proof -
  have f: "find_job [sample_job_at None] ''p'' = Some (sample_job_at None)" by (simp add: find_job_def sample_job_at_def)
  have s: "rj_id (sample_job_at None) = ''p''" "rj_continuationId (sample_job_at None) = None"
    "rj_review (sample_job_at None) = sample_review" "nextIndex (sample_job_at None) = 0"
    by (simp_all add: sample_job_at_def nextIndex_def pending_count_def)
  have r: "repeats_unsent next_review sample_review 0"
    by (simp add: repeats_unsent_def next_review_def sample_review_def reviewed_count_def sample_repair_batch_def
        sameKafkaCompleteRecord_def list_all_iff)
       (auto simp: set_zip)
  have c: "reviewed_count sample_review = 1" "rv_planId next_review = ''q''"
    by (simp_all add: reviewed_count_def next_review_def sample_review_def sample_repair_batch_def)
  have "continuation_allowed idle_journal [sample_job_at None] next_review idle_continuation"
    by (simp add: continuation_allowed_def idle_continuation_def f s r c idle_journal_def new_journal_def)
  then have "begin_change ''n'' next_review (Some idle_continuation) idle_journal [sample_job_at None] = Inr next_document"
    by (simp add: begin_change_def s c next_document_def)
  then show ?thesis
    using memory_loads [OF idle_document] document_parses [OF next_document_ok] c
    by (simp add: begin_job_def mutate_def unavailable_def idle_journal_def new_journal_def commit_next_def
        MemoryRepairJobStore_def memory_commit_def)
qed

theorem continuation_sends_only_unsent_witness:
  "\<exists>parent'. job_at sample_host (MemoryRepairJobStore sample_host)
       \<lparr>jn_store = next_document, jn_failed = False, jn_active = {''q''}\<rparr> ''p'' = Some parent'
     \<and> rj_continuationId parent' = Some ''q''"
proof -
  have ids: "rj_id (rc_parent idle_continuation) = ''p''" "rv_planId next_review = ''q''"
    by (simp_all add: idle_continuation_def sample_job_at_def next_review_def)
  obtain parent' where "job_at sample_host (MemoryRepairJobStore sample_host)
       \<lparr>jn_store = next_document, jn_failed = False, jn_active = {''q''}\<rparr> (rj_id (rc_parent idle_continuation)) = Some parent'"
    "rj_continuationId parent' = Some (rv_planId next_review)"
    using continuation_sends_only_unsent [OF memory.repair_store_axioms next_reviewed next_begins surjective_pairing] by blast
  then show ?thesis unfolding ids by blast
qed

end
