(* ===== verification/Replay_Service.thy ===== *)
theory Replay_Service
  imports Batch_Run
begin

text \<open>
  The replay service (\<open>application/record-replay-service.ts\<close>): reviewed plans with their isolated
  destination, and the run of a confirmed plan, which begins a journalled job, applies the batch,
  closes the destination and finishes the job. What a destination's \<open>close\<close> answers, what the clock
  and the scopes say, and the ids are arguments.
\<close>

section \<open>Plans\<close>

text \<open>
  A plan is its review, the batch service that holds its batch, the captured continuation, whether it
  was aborted, how its destination closed, and the operation it started (None while it runs).
\<close>

record replay_plan =
  rp_review :: replay_review
  rp_batch :: batch_service
  rp_batchId :: js_string
  rp_continuation :: "repair_continuation option"
  rp_aborted :: bool
  rp_closed :: "bool option"
  rp_operation :: "replay_outcome outcome option option"

record replay_service =
  rs_plans :: "(js_string \<times> replay_plan) list"
  rs_reviews :: nat
  rs_active :: bool
  rs_invalidating :: bool
  rs_cleanupUnconfirmed :: bool

definition new_replays :: replay_service where
  "new_replays = \<lparr>rs_plans = [], rs_reviews = 0, rs_active = False, rs_invalidating = False, rs_cleanupUnconfirmed = False\<rparr>"

definition recoveryAvailable :: "replay_service \<Rightarrow> bool" where
  "recoveryAvailable s \<longleftrightarrow> \<not> rs_invalidating s \<and> \<not> rs_cleanupUnconfirmed s \<and> \<not> rs_active s \<and> rs_reviews s = 0"

definition set_plan :: "js_string \<Rightarrow> replay_plan \<Rightarrow> replay_service \<Rightarrow> replay_service" where
  "set_plan i p s = s\<lparr>rs_plans := map (\<lambda>(k, q). (k, if k = i then p else q)) (rs_plans s)\<rparr>"

text \<open>A destination is closed once; a close that fails leaves the service with cleanup debt.\<close>

definition closeTarget :: "bool \<Rightarrow> replay_service \<Rightarrow> replay_service" where
  "closeTarget closes s = (if closes then s else s\<lparr>rs_cleanupUnconfirmed := True\<rparr>)"

definition close_replay :: "bool \<Rightarrow> js_string \<Rightarrow> replay_service \<Rightarrow> replay_service \<times> bool" where
  "close_replay closes i s =
     (case map_of (rs_plans s) i of
        None \<Rightarrow> (s, True)
      | Some p \<Rightarrow>
          (case rp_closed p of
             Some done_before \<Rightarrow> (s, done_before)
           | None \<Rightarrow> (closeTarget closes (set_plan i (p\<lparr>rp_closed := Some closes\<rparr>) s), closes)))"

section \<open>Reviews\<close>

definition start_replay_review ::
  "(js_string \<Rightarrow> json option) \<Rightarrow> json option \<Rightarrow> bool \<Rightarrow> replay_service \<Rightarrow> (replay_service \<times> replay_input) option" where
  "start_replay_review jp v connected s =
     do { check (\<not> (rs_cleanupUnconfirmed s \<or> rs_invalidating s));
          parsed \<leftarrow> parseRecordReplayInput jp v;
          check connected;
          check (\<not> (rs_active s \<or> rs_reviews s \<ge> 2));
          Some (s\<lparr>rs_reviews := rs_reviews s + 1\<rparr>, parsed) }"

text \<open>The reported destination must have a cluster and a topic identity, and a continuation's own.\<close>

definition stable_identity :: "write_destination \<Rightarrow> bool" where
  "stable_identity d \<longleftrightarrow>
     dst_clusterId d \<noteq> [] \<and> dst_topicId d \<noteq> []
     \<and> \<not> (let digits = filter (\<lambda>c. c \<noteq> CHR ''-'') (dst_topicId d) in digits \<noteq> [] \<and> list_all (\<lambda>c. c = CHR ''0'') digits)"

definition same_destination :: "write_destination \<Rightarrow> write_destination \<Rightarrow> bool" where
  "same_destination d d' \<longleftrightarrow>
     dst_clusterId d = dst_clusterId d' \<and> dst_topicId d = dst_topicId d' \<and> dst_partitions d = dst_partitions d'"

definition accept_identity :: "write_destination option \<Rightarrow> repair_continuation option \<Rightarrow> write_destination option" where
  "accept_identity reported continuation =
     do { identity \<leftarrow> reported;
          check (stable_identity identity);
          check (case continuation of None \<Rightarrow> True | Some c \<Rightarrow> same_destination identity (rv_destination (rj_review (rc_parent c))));
          Some identity }"

text \<open>The validation before each dispatch; \<open>revalidated\<close> is the answer of the encoding port.\<close>

definition revalidate :: "bool \<Rightarrow> bool \<Rightarrow> bool \<Rightarrow> write_destination \<Rightarrow> write_destination option \<Rightarrow> bool \<Rightarrow> bool" where
  "revalidate current1 revalidated current2 identity actual current3 \<longleftrightarrow>
     current1 \<and> revalidated \<and> current2 \<and> current3
     \<and> (case actual of None \<Rightarrow> False | Some d \<Rightarrow> same_destination d identity)"

text \<open>The batch service of a plan, holding the one batch that was reviewed.\<close>

definition prepared_batch :: "js_string \<Rightarrow> js_string \<Rightarrow> js_string \<Rightarrow> batch_input \<Rightarrow> batch_service option" where
  "prepared_batch batchId name expires input =
     (case start_review (Some (batch_json input)) True new_service of
        None \<Rightarrow> None
      | Some (bs, parsed) \<Rightarrow> Some (end_review True True batchId name expires parsed bs))"

text \<open>
  Among four plans the oldest is closed before a plan is retained. The close is awaited, so another
  review may take a step between the choice and the deletion.
\<close>

definition oldest_plan :: "replay_service \<Rightarrow> js_string option" where
  "oldest_plan s =
     (if length (rs_plans s) \<ge> 4 then map_option (\<lambda>(i, p). rv_planId (rp_review p)) (List.find (\<lambda>_. True) (rs_plans s)) else None)"

definition delete_plan :: "js_string option \<Rightarrow> replay_service \<Rightarrow> replay_service" where
  "delete_plan chosen s =
     (case chosen of None \<Rightarrow> s | Some i \<Rightarrow> s\<lparr>rs_plans := filter (\<lambda>(k, p). k \<noteq> i) (rs_plans s)\<rparr>)"

definition retain_replay :: "replay_review \<Rightarrow> batch_service \<Rightarrow> js_string \<Rightarrow> repair_continuation option \<Rightarrow> replay_service \<Rightarrow> replay_service" where
  "retain_replay review batch batchId continuation s =
     s\<lparr>rs_plans := rs_plans s @ [(rv_planId review, \<lparr>rp_review = review, rp_batch = batch, rp_batchId = batchId,
         rp_continuation = continuation, rp_aborted = False, rp_closed = None, rp_operation = None\<rparr>)]\<rparr>"

text \<open>
  A review ends: \<open>ready\<close> when nothing failed up to the deletion of the oldest plan. A review that is
  not retained closes the destination it opened, if any, and may leave a debt of a failed opening.
\<close>

definition end_replay_review ::
  "js_host \<Rightarrow> bool \<Rightarrow> bool \<Rightarrow> bool \<Rightarrow> bool \<Rightarrow> js_string option \<Rightarrow> js_string \<Rightarrow> replay_review \<Rightarrow> repair_continuation option \<Rightarrow>
   replay_service \<Rightarrow> replay_service \<times> replay_review option" where
  "end_replay_review h ready opened closes debt chosen batchId candidate continuation s =
     (let batch = (if ready then prepared_batch batchId (rv_targetName candidate) (rv_expiresAt candidate) (rv_batch candidate) else None);
          s1 = (if batch = None then s else delete_plan chosen s);
          review = (if batch = None then None else parseRecordReplayReview (h_parse h) (h_text h) (Some (review_json candidate)));
          s2 = (case (batch, review) of
                  (Some b, Some r) \<Rightarrow> retain_replay r b batchId continuation s1
                | _ \<Rightarrow> (let s' = (if opened then closeTarget closes s1 else s1)
                         in if debt then s'\<lparr>rs_cleanupUnconfirmed := True\<rparr> else s'))
      in (s2\<lparr>rs_reviews := rs_reviews s2 - 1\<rparr>, review))"

text \<open>An expired plan, and a cancelled one; a running plan closes its destination when it ends.\<close>

definition cancel_replay :: "bool \<Rightarrow> js_string \<Rightarrow> replay_service \<Rightarrow> replay_service" where
  "cancel_replay closes i s =
     (case map_of (rs_plans s) i of
        None \<Rightarrow> s
      | Some p \<Rightarrow>
          let s1 = set_plan i (p\<lparr>rp_aborted := True, rp_batch := cancel_plan (rp_batchId p) (rp_batch p)\<rparr>) s
          in if rp_operation p = None then fst (close_replay closes i s1) else s1)"

definition expire_replay :: "bool \<Rightarrow> js_string \<Rightarrow> replay_service \<Rightarrow> replay_service" where
  "expire_replay closes i s =
     (case map_of (rs_plans s) i of
        None \<Rightarrow> s
      | Some p \<Rightarrow>
          if rp_operation p \<noteq> None then s
          else fst (close_replay closes i (set_plan i (p\<lparr>rp_aborted := True\<rparr>) s)))"

text \<open>Invalidation cancels every plan; it fails when a destination stayed open.\<close>

definition begin_invalidate :: "(js_string \<Rightarrow> bool) \<Rightarrow> replay_service \<Rightarrow> replay_service" where
  "begin_invalidate closes s =
     fold (\<lambda>i. cancel_replay (closes i) i) (map fst (rs_plans s)) (s\<lparr>rs_invalidating := True\<rparr>)"

definition end_invalidate :: "replay_service \<Rightarrow> replay_service \<times> bool" where
  "end_invalidate s = (s\<lparr>rs_invalidating := False\<rparr>, \<not> rs_cleanupUnconfirmed s)"

section \<open>Applying a confirmed plan\<close>

datatype replay_start = Replay_Rejected | Replay_Repeated | Replay_Started replay_plan

definition apply_replay :: "js_string \<Rightarrow> js_string \<Rightarrow> bool \<Rightarrow> bool \<Rightarrow> replay_service \<Rightarrow> replay_service \<times> replay_start" where
  "apply_replay i confirmation current expired s =
     (case map_of (rs_plans s) i of
        None \<Rightarrow> (s, Replay_Rejected)
      | Some p \<Rightarrow>
          if confirmation \<noteq> replayConfirmation (rp_review p) then (s, Replay_Rejected)
          else if rp_operation p \<noteq> None then (s, Replay_Repeated)
          else if rs_cleanupUnconfirmed s then (s, Replay_Rejected)
          else if rs_invalidating s \<or> rs_active s \<or> rs_reviews s > 0 \<or> \<not> current \<or> rp_aborted p \<or> expired
          then (s, Replay_Rejected)
          else (set_plan i (p\<lparr>rp_operation := Some None\<rparr>) (s\<lparr>rs_active := True\<rparr>), Replay_Started p))"

definition settle_replay :: "js_string \<Rightarrow> replay_outcome outcome \<Rightarrow> replay_service \<Rightarrow> replay_service" where
  "settle_replay i result s =
     (case map_of (rs_plans s) i of
        None \<Rightarrow> s\<lparr>rs_active := False\<rparr>
      | Some p \<Rightarrow> set_plan i (p\<lparr>rp_operation := Some (Some result)\<rparr>) (s\<lparr>rs_active := False\<rparr>))"

text \<open>
  What one run meets: the timestamps of its begin and its finish, the answers of the batch service's
  own checks, its turns, and whether the destination closes.
\<close>

record replay_env =
  re_begin :: js_string
  re_clock :: "bool \<Rightarrow> nat \<Rightarrow> js_string"
  re_finish :: js_string
  re_current :: bool
  re_expired :: bool
  re_turns :: "nat \<Rightarrow> turn_env"
  re_closes :: bool

definition run_cleanup :: "replay_env \<Rightarrow> replay_plan \<Rightarrow> cleanup_state" where
  "run_cleanup e p =
     (if (case rp_closed p of Some before \<Rightarrow> before | None \<Rightarrow> re_closes e) then Cleanup_Complete else Cleanup_Unavailable)"

text \<open>The batch of the plan, None when its service refuses to apply it.\<close>

definition start_batch :: "replay_env \<Rightarrow> replay_plan \<Rightarrow> batch_input option" where
  "start_batch e p =
     (case snd (apply_plan (rp_batchId p) (re_current e) (re_expired e) (rp_batch p)) of
        Started input \<Rightarrow> Some input
      | _ \<Rightarrow> None)"

text \<open>The run over a journal: the journal it leaves, what was sent, and the outcome or error.\<close>

definition run_replay ::
  "js_host \<Rightarrow> 's store_ops \<Rightarrow> replay_env \<Rightarrow> replay_plan \<Rightarrow> 's journal \<Rightarrow>
   's journal \<times> write_input list \<times> replay_outcome outcome" where
  "run_replay h ops e p jn =
     (let i = rv_planId (rp_review p) in
      case begin_job h ops (re_begin e) (rp_review p) (rp_continuation p) jn of
        (jn1, Inl error) \<Rightarrow> (jn1, [], Inl error)
      | (jn1, Inr _) \<Rightarrow>
          (case start_batch e p of
             None \<Rightarrow> (fst (finish_job h ops (re_finish e) i False (run_cleanup e p) jn1), [], Inl Refused)
           | Some input \<Rightarrow>
               (case run_batch (Some (journal_hooks h ops (re_clock e) i)) True (re_turns e) input jn1 of
                  (st, result) \<Rightarrow>
                    (case finish_job h ops (re_finish e) i (bo_stopReason result = Batch_Complete) (run_cleanup e p) (rn_hooks st) of
                       (jn2, finished) \<Rightarrow>
                         (jn2, map fst (rn_sent st),
                          Inr \<lparr>ro_batch = result, ro_cleanup = run_cleanup e p,
                               ro_journal = Some (i, if finished = Inr () then Journal_Confirmed else Journal_Lost,
                                 so_durability ops)\<rparr>)))))"

text \<open>The run of a service without a journal.\<close>

definition run_plain :: "replay_env \<Rightarrow> replay_plan \<Rightarrow> write_input list \<times> replay_outcome outcome" where
  "run_plain e p =
     (case start_batch e p of
        None \<Rightarrow> ([], Inl Refused)
      | Some input \<Rightarrow>
          (case run_batch None True (re_turns e) input () of
             (st, result) \<Rightarrow> (map fst (rn_sent st), Inr \<lparr>ro_batch = result, ro_cleanup = run_cleanup e p, ro_journal = None\<rparr>)))"

section \<open>Reachable services\<close>

text \<open>
  The steps of the service. \<open>rooms\<close> are the choices of the reviews that have made room and not yet
  ended, \<open>used\<close> the plan ids drawn so far (a fresh UUID each), \<open>started\<close> the plans whose run started.
\<close>

inductive replay_history ::
  "js_host \<Rightarrow> replay_service \<Rightarrow> js_string option list \<Rightarrow> js_string list \<Rightarrow> js_string list \<Rightarrow> bool" for h where
  created: "replay_history h new_replays [] [] []"
| reviewing: "replay_history h s rooms used started \<Longrightarrow> start_replay_review jp v connected s = Some (s', parsed) \<Longrightarrow>
    replay_history h s' rooms used started"
| room: "replay_history h s rooms used started \<Longrightarrow> length rooms < rs_reviews s \<Longrightarrow> oldest_plan s = None \<Longrightarrow>
    replay_history h s (None # rooms) used started"
| evicting: "replay_history h s rooms used started \<Longrightarrow> length rooms < rs_reviews s \<Longrightarrow> oldest_plan s = Some i \<Longrightarrow>
    close_replay closes i s = (s', closed) \<Longrightarrow>
    replay_history h s' (if closed then Some i # rooms else rooms) used started"
| retained: "replay_history h s rooms used started \<Longrightarrow> chosen \<in> set rooms \<Longrightarrow> rv_planId candidate \<notin> set used \<Longrightarrow>
    end_replay_review h True opened closes debt chosen batchId candidate continuation s = (s', review) \<Longrightarrow>
    replay_history h s' (remove1 chosen rooms) (rv_planId candidate # used) started"
| abandoned: "replay_history h s rooms used started \<Longrightarrow> length rooms < rs_reviews s \<Longrightarrow>
    end_replay_review h False opened closes debt None batchId candidate continuation s = (s', review) \<Longrightarrow>
    replay_history h s' rooms used started"
| cancelled: "replay_history h s rooms used started \<Longrightarrow> replay_history h (cancel_replay closes i s) rooms used started"
| expired: "replay_history h s rooms used started \<Longrightarrow> replay_history h (expire_replay closes i s) rooms used started"
| invalidating: "replay_history h s rooms used started \<Longrightarrow> replay_history h (begin_invalidate answers s) rooms used started"
| invalidated: "replay_history h s rooms used started \<Longrightarrow> replay_history h (fst (end_invalidate s)) rooms used started"
| rejected: "replay_history h s rooms used started \<Longrightarrow> apply_replay i confirmation current late s = (s', x) \<Longrightarrow>
    x = Replay_Rejected \<or> x = Replay_Repeated \<Longrightarrow> replay_history h s' rooms used started"
| started: "replay_history h s rooms used started \<Longrightarrow>
    apply_replay i confirmation current late s = (s', Replay_Started p) \<Longrightarrow> replay_history h s' rooms used (i # started)"
| closing: "replay_history h s rooms used started \<Longrightarrow> map_of (rs_plans s) i = Some p \<Longrightarrow> rp_operation p = Some None \<Longrightarrow>
    close_replay closes i s = (s', closed) \<Longrightarrow> replay_history h s' rooms used started"
| settled: "replay_history h s rooms used started \<Longrightarrow> map_of (rs_plans s) i = Some p \<Longrightarrow> rp_operation p = Some None \<Longrightarrow>
    replay_history h (settle_replay i result s) rooms used started"

text \<open>A plan holds the batch of its accepted review until it is applied.\<close>

definition plan_ready :: "js_host \<Rightarrow> replay_plan \<Rightarrow> bool" where
  "plan_ready h p \<longleftrightarrow>
     reviewed h (rp_review p)
     \<and> (\<exists>q. map_of (bs_plans (rp_batch p)) (rp_batchId p) = Some q \<and> bp_operation q = None
          \<and> br_input (bp_review q) = rv_batch (rp_review p))
     \<and> \<not> bs_active (rp_batch p)"

definition running_plans :: "replay_service \<Rightarrow> js_string list" where
  "running_plans s = map fst (filter (\<lambda>(i, p). rp_operation p = Some None) (rs_plans s))"

definition service_ok :: "js_host \<Rightarrow> replay_service \<Rightarrow> js_string option list \<Rightarrow> js_string list \<Rightarrow> js_string list \<Rightarrow> bool" where
  "service_ok h s rooms used started \<longleftrightarrow>
     distinct started \<and> set started \<subseteq> set used
     \<and> distinct (map fst (rs_plans s)) \<and> fst ` set (rs_plans s) \<subseteq> set used
     \<and> (\<forall>i p. (i, p) \<in> set (rs_plans s) \<longrightarrow>
          rv_planId (rp_review p) = i \<and> plan_ready h p \<and> (rp_operation p = None \<longrightarrow> i \<notin> set started))
     \<and> length rooms \<le> rs_reviews s \<and> rs_reviews s \<le> 2 \<and> (rs_active s \<longrightarrow> rs_reviews s = 0)
     \<and> length (running_plans s) = (if rs_active s then 1 else 0)"

lemma prepared_batch_ready:
  assumes "prepared_batch batchId name expires input = Some b" and "parseRecordReplayReview jp jt (Some (review_json c)) = Some r"
    and "rv_batch c = input"
  shows "\<exists>q. map_of (bs_plans b) batchId = Some q \<and> bp_operation q = None \<and> br_input (bp_review q) = rv_batch r" "\<not> bs_active b"
proof -
  obtain bs parsed where p: "start_review (Some (batch_json input)) True new_service = Some (bs, parsed)"
    and b: "b = end_review True True batchId name expires parsed bs"
    using assms(1) by (auto simp: prepared_batch_def split: option.splits)
  have bs: "bs = new_service\<lparr>bs_reviews := 1\<rparr>" "parseRecordBatchInput (Some (batch_json input)) = Some parsed"
    using p by (auto simp: start_review_def new_service_def check_def bind_eq_Some_conv split: if_splits)
  have "parseRecordBatchInput (Some (batch_json (rv_batch c))) = Some (rv_batch r)"
    using assms(2) unfolding parseRecordReplayReview_def review_json_def
    by (auto simp: bind_eq_Some_conv)
  then have "parsed = rv_batch r" using bs(2) assms(3) by simp
  then show "\<exists>q. map_of (bs_plans b) batchId = Some q \<and> bp_operation q = None \<and> br_input (bp_review q) = rv_batch r"
    by (simp add: b bs(1) end_review_def retain_plan_def new_service_def Let_def)
  show "\<not> bs_active b" by (simp add: b bs(1) end_review_def retain_plan_def new_service_def Let_def)
qed

lemma ready_starts: "plan_ready h p \<Longrightarrow> start_batch e p = None \<or> start_batch e p = Some (rv_batch (rp_review p))"
  by (auto simp: plan_ready_def start_batch_def apply_plan_def split: if_splits)

lemma ready_update: "plan_ready h p \<Longrightarrow> plan_ready h (p\<lparr>rp_operation := x\<rparr>)" "plan_ready h p \<Longrightarrow> plan_ready h (p\<lparr>rp_closed := c\<rparr>)"
  "plan_ready h p \<Longrightarrow> plan_ready h (p\<lparr>rp_aborted := a\<rparr>)"
  by (simp_all add: plan_ready_def)

lemma ready_cancelled: "plan_ready h p \<Longrightarrow> plan_ready h (p\<lparr>rp_aborted := True, rp_batch := cancel_plan i (rp_batch p)\<rparr>)"
proof -
  assume "plan_ready h p"
  then obtain q where q: "reviewed h (rp_review p)" "map_of (bs_plans (rp_batch p)) (rp_batchId p) = Some q" "bp_operation q = None"
    "br_input (bp_review q) = rv_batch (rp_review p)" "\<not> bs_active (rp_batch p)"
    by (auto simp: plan_ready_def)
  have "map_of (map (\<lambda>(k, p). (k, if k = i then p\<lparr>bp_aborted := True\<rparr> else p)) ps) k =
      map_option (\<lambda>p. if k = i then p\<lparr>bp_aborted := True\<rparr> else p) (map_of ps k)" for ps :: "(js_string \<times> batch_plan) list" and k
    by (induction ps) auto
  from this [of "bs_plans (rp_batch p)" "rp_batchId p"] show ?thesis
    using q by (auto simp: plan_ready_def cancel_plan_def map_plans_def)
qed

lemma set_plan_simps [simp]: "rs_reviews (set_plan i q s) = rs_reviews s" "rs_active (set_plan i q s) = rs_active s"
  "rs_cleanupUnconfirmed (set_plan i q s) = rs_cleanupUnconfirmed s" "map fst (rs_plans (set_plan i q s)) = map fst (rs_plans s)"
  by (simp_all add: set_plan_def o_def case_prod_unfold)

lemma closeTarget_simps [simp]: "rs_plans (closeTarget c s) = rs_plans s" "rs_reviews (closeTarget c s) = rs_reviews s"
  "rs_active (closeTarget c s) = rs_active s"
  by (simp_all add: closeTarget_def)

lemma set_plan_member: "(k, x) \<in> set (rs_plans (set_plan i q s)) \<Longrightarrow> k = i \<and> x = q \<or> k \<noteq> i \<and> (k, x) \<in> set (rs_plans s)"
  by (auto simp: set_plan_def split: if_splits)

lemma set_plan_running:
  assumes "distinct (map fst (rs_plans s))" and "map_of (rs_plans s) i = Some p"
  shows "length (running_plans (set_plan i q s)) + (if rp_operation p = Some None then 1 else 0) =
    length (running_plans s) + (if rp_operation q = Some None then 1 else 0)"
proof -
  have "length (filter (\<lambda>(k, x). rp_operation x = Some None) (map (\<lambda>(k, x). (k, if k = i then q else x)) ps))
      + (if rp_operation p = Some None then 1 else 0) =
    length (filter (\<lambda>(k, x). rp_operation x = Some None) ps) + (if rp_operation q = Some None then 1 else 0)"
    if "distinct (map fst ps)" "map_of ps i = Some p" for ps
    using that
  proof (induction ps)
    case (Cons a ps)
    obtain k x where a: "a = (k, x)" by force
    have id: "map (\<lambda>(k, x). (k, if k = i then q else x)) ps = ps" if "k = i"
      using Cons.prems(1) that by (intro map_idI) (force simp: a)
    then show ?case using Cons by (cases "k = i") (auto simp: a)
  qed simp
  from this [OF assms] show ?thesis by (simp add: running_plans_def set_plan_def)
qed

text \<open>A plan that keeps its review and its operation may be replaced.\<close>

lemma ok_member:
  "service_ok h s rooms used started \<Longrightarrow> map_of (rs_plans s) i = Some p \<Longrightarrow>
   rv_planId (rp_review p) = i \<and> plan_ready h p \<and> (rp_operation p = None \<longrightarrow> i \<notin> set started) \<and> i \<in> set used"
proof -
  assume ok: "service_ok h s rooms used started" and "map_of (rs_plans s) i = Some p"
  then have p: "(i, p) \<in> set (rs_plans s)" by (intro map_of_SomeD)
  then have "i \<in> fst ` set (rs_plans s)" by (rule image_eqI [rotated]) simp
  then have "i \<in> set used" using ok by (auto simp only: service_ok_def)
  moreover have "rv_planId (rp_review p) = i \<and> plan_ready h p \<and> (rp_operation p = None \<longrightarrow> i \<notin> set started)"
    using ok p by (simp add: service_ok_def)
  ultimately show ?thesis by simp
qed

lemma set_plan_ok:
  assumes "service_ok h s rooms used started" and "map_of (rs_plans s) i = Some p"
    and "rp_review q = rp_review p" and "plan_ready h q" and "rp_operation q = rp_operation p"
  shows "service_ok h (set_plan i q s) rooms used started"
proof -
  note m = ok_member [OF assms(1,2)]
  have d: "distinct (map fst (rs_plans s))" using assms(1) by (simp add: service_ok_def)
  have "length (running_plans (set_plan i q s)) = length (running_plans s)"
    using set_plan_running [OF d assms(2), of q] assms(5) by simp
  moreover have "rv_planId (rp_review x) = k \<and> plan_ready h x \<and> (rp_operation x = None \<longrightarrow> k \<notin> set started)"
    if "(k, x) \<in> set (rs_plans (set_plan i q s))" for k x
    using set_plan_member [OF that] assms m by (auto simp: service_ok_def)
  moreover have "fst ` set (rs_plans (set_plan i q s)) = fst ` set (rs_plans s)"
    by (metis set_map set_plan_simps(4))
  ultimately show ?thesis using assms(1) by (auto simp: service_ok_def)
qed

lemma service_ok_cong:
  "service_ok h s rooms used started \<Longrightarrow> rs_plans s' = rs_plans s \<Longrightarrow> rs_reviews s' = rs_reviews s \<Longrightarrow> rs_active s' = rs_active s \<Longrightarrow>
   service_ok h s' rooms used started"
  by (simp add: service_ok_def running_plans_def)

lemma close_replay_ok:
  assumes "service_ok h s rooms used started" and "close_replay closes i s = (s', closed)"
  shows "service_ok h s' rooms used started" "rs_reviews s' = rs_reviews s"
proof -
  consider "s' = s" | p where "map_of (rs_plans s) i = Some p" "s' = closeTarget closes (set_plan i (p\<lparr>rp_closed := Some closes\<rparr>) s)"
    using assms(2) by (auto simp: close_replay_def split: option.splits)
  then show "service_ok h s' rooms used started" "rs_reviews s' = rs_reviews s"
  proof (atomize (full), cases)
    case (2 p)
    have "service_ok h (set_plan i (p\<lparr>rp_closed := Some closes\<rparr>) s) rooms used started"
      by (rule set_plan_ok [OF assms(1) 2(1)]) (use ok_member [OF assms(1) 2(1)] ready_update in auto)
    then show "service_ok h s' rooms used started \<and> rs_reviews s' = rs_reviews s"
      using 2(2) by (auto intro: service_ok_cong)
  qed (use assms(1) in simp)
qed

lemma cancel_replay_ok:
  assumes "service_ok h s rooms used started"
  shows "service_ok h (cancel_replay closes i s) rooms used started"
proof (cases "map_of (rs_plans s) i")
  case (Some p)
  let ?s = "set_plan i (p\<lparr>rp_aborted := True, rp_batch := cancel_plan (rp_batchId p) (rp_batch p)\<rparr>) s"
  have ok: "service_ok h ?s rooms used started"
    by (rule set_plan_ok [OF assms Some]) (use ok_member [OF assms Some] ready_cancelled in auto)
  then have "service_ok h (fst (close_replay closes i ?s)) rooms used started"
    using close_replay_ok(1) [OF ok surjective_pairing] by blast
  then show ?thesis using ok Some by (simp add: cancel_replay_def Let_def)
qed (use assms in \<open>simp add: cancel_replay_def\<close>)

lemma expire_replay_ok:
  assumes "service_ok h s rooms used started"
  shows "service_ok h (expire_replay closes i s) rooms used started"
proof (cases "map_of (rs_plans s) i")
  case (Some p)
  let ?s = "set_plan i (p\<lparr>rp_aborted := True\<rparr>) s"
  have ok: "service_ok h ?s rooms used started"
    by (rule set_plan_ok [OF assms Some]) (use ok_member [OF assms Some] ready_update in auto)
  then show ?thesis using assms Some close_replay_ok(1) [OF ok surjective_pairing] by (simp add: expire_replay_def)
qed (use assms in \<open>simp add: expire_replay_def\<close>)

lemma begin_invalidate_ok:
  assumes "service_ok h s rooms used started"
  shows "service_ok h (begin_invalidate answers s) rooms used started"
proof -
  have "service_ok h (fold (\<lambda>i. cancel_replay (answers i) i) is s) rooms used started" if "service_ok h s rooms used started" for "is" s
    using that by (induction "is" arbitrary: s) (simp_all add: cancel_replay_ok)
  moreover have "service_ok h (s\<lparr>rs_invalidating := True\<rparr>) rooms used started" using assms by (rule service_ok_cong) simp_all
  ultimately show ?thesis by (simp add: begin_invalidate_def)
qed


lemma service_ok_review:
  "service_ok h s rooms used started \<Longrightarrow> length rooms' \<le> n \<Longrightarrow> n \<le> 2 \<Longrightarrow> (rs_active s \<longrightarrow> n = 0) \<Longrightarrow>
   rs_plans s' = rs_plans s \<Longrightarrow> rs_reviews s' = n \<Longrightarrow> rs_active s' = rs_active s \<Longrightarrow> service_ok h s' rooms' used started"
  by (simp add: service_ok_def running_plans_def)

lemma delete_plan_ok:
  assumes "service_ok h s rooms used started" and "rs_reviews s > 0"
  shows "service_ok h (delete_plan chosen s) rooms used started"
proof (cases chosen)
  case (Some i)
  have "\<not> rs_active s" "running_plans s = []" using assms by (auto simp: service_ok_def)
  then have "running_plans (delete_plan chosen s) = []"
    by (auto simp: running_plans_def delete_plan_def Some filter_empty_conv)
  moreover have "distinct (map fst (rs_plans (delete_plan chosen s)))"
    using assms by (simp add: service_ok_def delete_plan_def Some distinct_map_filter)
  ultimately show ?thesis
    using assms \<open>\<not> rs_active s\<close> by (auto simp: service_ok_def delete_plan_def Some)
qed (use assms in \<open>simp add: delete_plan_def\<close>)

lemma delete_plan_simps [simp]: "rs_reviews (delete_plan c s) = rs_reviews s" "rs_active (delete_plan c s) = rs_active s"
  by (simp_all add: delete_plan_def split: option.splits)

text \<open>A review parses to its candidate's id, so a retained plan has a fresh one.\<close>

lemma parsed_planId: "parseRecordReplayReview jp jt (Some (review_json c)) = Some r \<Longrightarrow> rv_planId r = rv_planId c"
  unfolding parseRecordReplayReview_def review_json_def by (auto simp: bind_eq_Some_conv plain_text_def boundedText_def split: if_splits)

lemma retain_replay_ok:
  assumes "service_ok h s rooms used started" and "rs_reviews s > 0" and "i \<notin> set used" and "rv_planId r = i"
    and "plan_ready h \<lparr>rp_review = r, rp_batch = b, rp_batchId = batchId, rp_continuation = c, rp_aborted = False,
      rp_closed = None, rp_operation = None\<rparr>"
  shows "service_ok h (retain_replay r b batchId c s) rooms (i # used) started"
proof -
  have "i \<notin> fst ` set (rs_plans s)" "i \<notin> set started" using assms(1,3) by (auto simp: service_ok_def)
  moreover have "running_plans (retain_replay r b batchId c s) = running_plans s"
    by (simp add: running_plans_def retain_replay_def)
  ultimately show ?thesis using assms by (auto simp: service_ok_def retain_replay_def)
qed

lemma end_replay_review_ok:
  assumes "service_ok h s rooms used started" and "rs_reviews s > 0" and "rv_planId candidate \<notin> set used"
    and "length rooms' \<le> rs_reviews s - 1"
    and "end_replay_review h ready opened closes debt chosen batchId candidate continuation s = (s', review)"
  shows "service_ok h s' rooms' (rv_planId candidate # used) started"
proof -
  have more: "service_ok h s'' rooms (rv_planId candidate # used) started" if "service_ok h s'' rooms used started" for s''
    using that by (auto simp: service_ok_def)
  have finish: "service_ok h (s''\<lparr>rs_reviews := rs_reviews s'' - 1\<rparr>) rooms' (rv_planId candidate # used) started"
    if "service_ok h s'' rooms (rv_planId candidate # used) started" "rs_reviews s'' = rs_reviews s" for s''
    by (rule service_ok_review [OF that(1), where n = "rs_reviews s - 1"]) (use that assms(1,2,4) in \<open>auto simp: service_ok_def\<close>)
  let ?b = "if ready then prepared_batch batchId (rv_targetName candidate) (rv_expiresAt candidate) (rv_batch candidate) else None"
  let ?s1 = "if ?b = None then s else delete_plan chosen s"
  have ok1: "service_ok h ?s1 rooms used started" and n1: "rs_reviews ?s1 = rs_reviews s"
    using assms(1) delete_plan_ok [OF assms(1,2)] by simp_all
  show ?thesis
  proof (cases "\<exists>b r. ?b = Some b \<and> parseRecordReplayReview (h_parse h) (h_text h) (Some (review_json candidate)) = Some r")
    case True
    then obtain b r where b: "?b = Some b"
      and r: "parseRecordReplayReview (h_parse h) (h_text h) (Some (review_json candidate)) = Some r" by blast
    have pb: "prepared_batch batchId (rv_targetName candidate) (rv_expiresAt candidate) (rv_batch candidate) = Some b"
      using b by (simp split: if_splits)
    have "plan_ready h \<lparr>rp_review = r, rp_batch = b, rp_batchId = batchId, rp_continuation = continuation, rp_aborted = False,
        rp_closed = None, rp_operation = None\<rparr>"
      using prepared_batch_ready [OF pb r refl] reviews.stable [OF r] by (simp add: plan_ready_def reviewed_def)
    then have "service_ok h (retain_replay r b batchId continuation ?s1) rooms (rv_planId candidate # used) started"
      using ok1 n1 assms(2,3) parsed_planId [OF r] by (intro retain_replay_ok) simp_all
    moreover have "s' = retain_replay r b batchId continuation ?s1\<lparr>rs_reviews := rs_reviews (retain_replay r b batchId continuation ?s1) - 1\<rparr>"
      using assms(5) b r by (simp add: end_replay_review_def Let_def)
    moreover have "rs_reviews (retain_replay r b batchId continuation ?s1) = rs_reviews s" using n1 by (simp add: retain_replay_def)
    ultimately show ?thesis using finish by (simp only:)
  next
    case False
    let ?c = "if opened then closeTarget closes ?s1 else ?s1"
    let ?d = "if debt then ?c\<lparr>rs_cleanupUnconfirmed := True\<rparr> else ?c"
    have "s' = ?d\<lparr>rs_reviews := rs_reviews ?d - 1\<rparr>"
      using assms(5) False by (auto simp: end_replay_review_def Let_def split: option.splits)
    moreover have "service_ok h ?d rooms used started" by (rule service_ok_cong [OF ok1]) simp_all
    moreover have "rs_reviews ?d = rs_reviews s" using n1 by simp
    ultimately show ?thesis using finish more by (simp only:)
  qed
qed


lemma history_ok: "replay_history h s rooms used started \<Longrightarrow> service_ok h s rooms used started"
proof (induction rule: replay_history.induct)
  case created
  then show ?case by (simp add: service_ok_def new_replays_def running_plans_def)
next
  case (reviewing s rooms used started jp v connected s' parsed)
  then have "s' = s\<lparr>rs_reviews := rs_reviews s + 1\<rparr>" "\<not> rs_active s" "rs_reviews s < 2"
    by (auto simp: start_replay_review_def bind_eq_Some_conv check_Some)
  then show ?case using reviewing.IH
    by (intro service_ok_review [OF reviewing.IH, where n = "rs_reviews s + 1"]) (auto simp: service_ok_def)
next
  case (room s rooms used started)
  then show ?case by (simp add: service_ok_def)
next
  case (evicting s rooms used started i closes s' closed)
  show ?case using close_replay_ok [OF evicting.IH evicting.hyps(4)] evicting.hyps(2) by (simp add: service_ok_def)
next
  case (retained s rooms used started chosen candidate opened closes debt batchId continuation s' review)
  have r: "length rooms > 0" using retained.hyps(2) by (cases rooms) simp_all
  have n: "length rooms \<le> rs_reviews s" using retained.IH by (simp add: service_ok_def)
  then have pos: "rs_reviews s > 0" using r by linarith
  show ?case
    by (rule end_replay_review_ok [OF retained.IH pos retained.hyps(3) _ retained.hyps(4)])
       (use r n retained.hyps(2) in \<open>simp_all add: length_remove1\<close>)
next
  case (abandoned s rooms used started opened closes debt batchId candidate continuation s' review)
  let ?c = "if opened then closeTarget closes s else s"
  let ?d = "if debt then ?c\<lparr>rs_cleanupUnconfirmed := True\<rparr> else ?c"
  have "s' = ?d\<lparr>rs_reviews := rs_reviews ?d - 1\<rparr>" using abandoned.hyps(3) by (auto simp: end_replay_review_def Let_def)
  then show ?case
    using abandoned.IH abandoned.hyps(2)
    by (intro service_ok_review [OF abandoned.IH, where n = "rs_reviews s - 1"]) (auto simp: service_ok_def)
next
  case (invalidated s rooms used started)
  then show ?case by (auto simp: end_invalidate_def intro: service_ok_cong)
next
  case (rejected s rooms used started i confirmation current late s' x)
  then have "s' = s" by (auto simp: apply_replay_def split: option.splits if_splits)
  then show ?case using rejected.IH by simp
next
  case (started s rooms used started i confirmation current late s' p)
  then have p: "map_of (rs_plans s) i = Some p" "rp_operation p = None" "\<not> rs_active s" "rs_reviews s = 0"
    and s': "s' = set_plan i (p\<lparr>rp_operation := Some None\<rparr>) (s\<lparr>rs_active := True\<rparr>)"
    by (auto simp: apply_replay_def split: option.splits if_splits)
  note m = ok_member [OF started.IH p(1)]
  have plans: "rs_plans s' = rs_plans (set_plan i (p\<lparr>rp_operation := Some None\<rparr>) s)" by (simp add: s' set_plan_def)
  have "length (running_plans s') = Suc (length (running_plans s))"
    using set_plan_running [OF _ p(1), of "p\<lparr>rp_operation := Some None\<rparr>"] started.IH p(2)
    by (simp add: running_plans_def plans service_ok_def)
  moreover have "rv_planId (rp_review x) = k \<and> plan_ready h x \<and> (rp_operation x = None \<longrightarrow> k \<notin> set (i # started))"
    if "(k, x) \<in> set (rs_plans s')" for k x
    using set_plan_member [OF that [unfolded plans]] started.IH m ready_update by (auto simp: service_ok_def)
  moreover have "map fst (rs_plans s') = map fst (rs_plans s)" by (simp add: plans)
  moreover from this have "fst ` set (rs_plans s') = fst ` set (rs_plans s)" by (metis set_map)
  ultimately show ?case using started.IH p m by (auto simp: service_ok_def s')
next
  case (closing s rooms used started i p closes s' closed)
  then show ?case using close_replay_ok by blast
next
  case (settled s rooms used started i p result)
  let ?q = "p\<lparr>rp_operation := Some (Some result)\<rparr>"
  note m = ok_member [OF settled.IH settled.hyps(2)]
  have s': "settle_replay i result s = set_plan i ?q (s\<lparr>rs_active := False\<rparr>)" using settled.hyps(2) by (simp add: settle_replay_def)
  have plans: "rs_plans (settle_replay i result s) = rs_plans (set_plan i ?q s)" by (simp add: s' set_plan_def)
  have "length (running_plans (settle_replay i result s)) + 1 = length (running_plans s)"
    using set_plan_running [OF _ settled.hyps(2), of ?q] settled.IH settled.hyps(3)
    by (simp add: running_plans_def plans service_ok_def)
  then have "running_plans (settle_replay i result s) = []" using settled.IH by (simp add: service_ok_def split: if_splits)
  moreover have "rv_planId (rp_review x) = k \<and> plan_ready h x \<and> (rp_operation x = None \<longrightarrow> k \<notin> set started)"
    if "(k, x) \<in> set (rs_plans (settle_replay i result s))" for k x
    using set_plan_member [OF that [unfolded plans]] settled.IH m ready_update by (auto simp: service_ok_def)
  moreover have "map fst (rs_plans (settle_replay i result s)) = map fst (rs_plans s)" by (simp add: plans)
  moreover from this have "fst ` set (rs_plans (settle_replay i result s)) = fst ` set (rs_plans s)" by (metis set_map)
  ultimately show ?case using settled.IH by (auto simp: service_ok_def s')
qed (simp_all add: cancel_replay_ok expire_replay_ok begin_invalidate_ok)


text \<open>
  C14: A confirmed replay runs once, alone and as reviewed. In every reachable service at most one
  plan is running, no review is open while it runs, and no plan was started twice. A plan is started
  only under the confirmation that names its own target, topic and partition, when no destination is
  left unclosed and neither it nor its scopes were revoked; the batch it will run is then exactly
  the batch of its accepted review, or none.
\<close>

theorem replays_start_once:
  assumes "replay_history h s rooms used started" and "apply_replay i confirmation current expired s = (s', Replay_Started p)"
  shows "distinct (i # started) \<and> running_plans s = [] \<and> length (running_plans s') = 1 \<and> rs_reviews s' = 0
    \<and> confirmation = replayConfirmation (rp_review p) \<and> rv_planId (rp_review p) = i
    \<and> \<not> rs_cleanupUnconfirmed s \<and> \<not> rs_invalidating s \<and> \<not> rp_aborted p \<and> current \<and> \<not> expired
    \<and> reviewed h (rp_review p)
    \<and> (\<forall>e. case start_batch e p of None \<Rightarrow> True | Some input \<Rightarrow> input = rv_batch (rp_review p))"
proof -
  have ok: "service_ok h s rooms used started" and ok': "service_ok h s' rooms used (i # started)"
    using history_ok [OF assms(1)] history_ok [OF replay_history.started [OF assms]] by blast+
  have p: "map_of (rs_plans s) i = Some p" "\<not> rs_active s" "rs_reviews s = 0"
    "confirmation = replayConfirmation (rp_review p)" "\<not> rs_cleanupUnconfirmed s" "\<not> rs_invalidating s" "\<not> rp_aborted p"
    "current" "\<not> expired" "rs_active s'" "rs_reviews s' = 0"
    using assms(2) by (auto simp: apply_replay_def split: option.splits if_splits)
  note m = ok_member [OF ok p(1)]
  have "case start_batch e p of None \<Rightarrow> True | Some input \<Rightarrow> input = rv_batch (rp_review p)" for e
    using ready_starts [of h p e] m by (auto split: option.splits)
  then show ?thesis using ok ok' p m by (auto simp: service_ok_def plan_ready_def)
qed

section \<open>The outcome of a run\<close>

context repair_store
begin

lemma finish_progress:
  assumes "job_at h ops jn i = Some j" and "finish_job h ops ts i complete cleanup jn = (jn', x)"
  shows "\<exists>k. job_at h ops jn' i = Some k \<and> rj_review k = rj_review j \<and> rj_outcomes k = rj_outcomes j \<and> rj_pendingIndex k = rj_pendingIndex j
      \<and> (x = Inr () \<longrightarrow> rj_status k = (if complete then Job_Complete else Stopped) \<and> rj_cleanup k = cleanup)"
    and "i \<notin> jn_active jn'"
proof -
  obtain jm where m: "update_job h ops ts i
      (\<lambda>j. Inr (j\<lparr>rj_status := (if complete then Job_Complete else Stopped), rj_cleanup := cleanup\<rparr>)) jn = (jm, x)"
    and jn': "jn' = jm\<lparr>jn_active := jn_active jm - {i}\<rparr>"
    using assms(2) by (auto simp: finish_job_def split: prod.splits)
  have keeps: "keeps_identity (\<lambda>j. Inr (j\<lparr>rj_status := (if complete then Job_Complete else Stopped), rj_cleanup := cleanup\<rparr>))"
    by (simp add: keeps_identity_def)
  have same: "job_at h ops jn' i = job_at h ops jm i" by (simp add: jn' job_at_def)
  from m keeps show "\<exists>k. job_at h ops jn' i = Some k \<and> rj_review k = rj_review j \<and> rj_outcomes k = rj_outcomes j \<and> rj_pendingIndex k = rj_pendingIndex j
      \<and> (x = Inr () \<longrightarrow> rj_status k = (if complete then Job_Complete else Stopped) \<and> rj_cleanup k = cleanup)"
    by (cases rule: update_cases) (use assms(1) same in \<open>auto simp: stamped_def\<close>)
  show "i \<notin> jn_active jn'" by (simp add: jn')
qed

lemma begin_progress:
  assumes "begin_job h ops ts review c jn = (jn', Inr u)" and "reviewed h review"
  shows "progress h ops jn' (rv_planId review) = Some (review, [], None, Running)"
proof -
  obtain d where d: "stored jn' = Some (map (link_parent ts review c) d @ [new_job ts review c])" "find_job d (rv_planId review) = None"
    by (rule begin_committed [OF assms])
  then show ?thesis by (simp add: progress_def job_at_def find_job_append find_job_map find_job_Cons)
qed

end


text \<open>A run that completes has sent every record, and each was acknowledged.\<close>

lemma run_turn_continues:
  "run_turn hooks validates input e r st = (st', None) \<Longrightarrow>
   \<exists>result. rn_outcomes st' = rn_outcomes st @ [result] \<and> out_state result = Acknowledged"
  by (auto simp: run_turn_def settle_turn_def Let_def split: option.splits prod.splits dispatch_result.splits bool.splits if_splits)

lemma run_turn_stops: "run_turn hooks validates input e r st = (st', Some reason) \<Longrightarrow> reason \<noteq> Batch_Complete"
  by (auto simp: run_turn_def settle_turn_def before_turn_def head_stop_def withdrawn_stop_def Let_def
      split: option.splits prod.splits dispatch_result.splits bool.splits if_splits)

lemma run_records_complete:
  "run_records hooks validates env input rs st = (st', Batch_Complete) \<Longrightarrow>
   list_all (\<lambda>r. out_state r = Acknowledged) (rn_outcomes st) \<Longrightarrow>
   length (rn_outcomes st') = length (rn_outcomes st) + length rs \<and> list_all (\<lambda>r. out_state r = Acknowledged) (rn_outcomes st')"
proof (induction rs arbitrary: st)
  case (Cons r rs)
  obtain st1 w where t: "run_turn hooks validates input (env (length (rn_outcomes st))) r st = (st1, w)"
    by (cases "run_turn hooks validates input (env (length (rn_outcomes st))) r st")
  then have "w = None" using Cons.prems(1) by (cases w) (auto dest: run_turn_stops)
  then show ?case using run_turn_continues [of hooks] t Cons by fastforce
qed simp

lemma run_batch_complete:
  assumes "run_batch hooks validates env input s = (st, result)" and "bo_stopReason result = Batch_Complete"
  shows "length (bo_outcomes result) = length (bi_records input)" "list_all (\<lambda>r. out_state r = Acknowledged) (bo_outcomes result)"
proof -
  have "run_records hooks validates env input (bi_records input) \<lparr>rn_hooks = s, rn_outcomes = [], rn_sent = []\<rparr> = (st, Batch_Complete)"
    "bo_outcomes result = rn_outcomes st"
    using assms by (auto simp: run_batch_def split: prod.splits)
  then show "length (bo_outcomes result) = length (bi_records input)" "list_all (\<lambda>r. out_state r = Acknowledged) (bo_outcomes result)"
    using run_records_complete by fastforce+
qed

lemma started_ready:
  assumes "replay_history h s rooms used started" and "apply_replay i confirmation current expired s = (s', Replay_Started p)"
  shows "plan_ready h p"
proof -
  have "map_of (rs_plans s) i = Some p" using assms(2) by (auto simp: apply_replay_def split: option.splits if_splits)
  then show ?thesis using ok_member [OF history_ok [OF assms(1)]] by blast
qed

lemma run_replay_cases:
  assumes "run_replay h ops e p jn = (jn', sent, x)" and "plan_ready h p"
  obtains (refused) error where "x = Inl error" "sent = []"
  | (ran) jn1 st result finished where
      "begin_job h ops (re_begin e) (rp_review p) (rp_continuation p) jn = (jn1, Inr ())"
      "run_batch (Some (journal_hooks h ops (re_clock e) (rv_planId (rp_review p)))) True (re_turns e) (rv_batch (rp_review p)) jn1 = (st, result)"
      "finish_job h ops (re_finish e) (rv_planId (rp_review p)) (bo_stopReason result = Batch_Complete) (run_cleanup e p) (rn_hooks st)
        = (jn', finished)"
      "sent = map fst (rn_sent st)"
      "x = Inr \<lparr>ro_batch = result, ro_cleanup = run_cleanup e p,
         ro_journal = Some (rv_planId (rp_review p), if finished = Inr () then Journal_Confirmed else Journal_Lost, so_durability ops)\<rparr>"
proof -
  have "start_batch e p = None \<or> start_batch e p = Some (rv_batch (rp_review p))" by (rule ready_starts [OF assms(2)])
  then show ?thesis
    using assms(1) that
    by (auto simp: run_replay_def Let_def split: prod.splits sum.splits option.splits)
qed

text \<open>
  C11: The outcome a replay reports is the outcome the journal keeps. When a started plan runs over an
  atomic store, an error means that nothing was sent. Otherwise the records sent are the first
  records of the reviewed batch, each once, one for every reported outcome, and the job of the plan
  is stored with its review and with no fewer records beyond reach of a continuation. If the journal
  is reported as confirmed, the stored job has the reported cleanup, is complete exactly when the
  batch is, and is no longer active; unless the run stopped for its journal, it has exactly the
  reported outcomes and no uncertain index. A complete replay sent every record, and each was
  acknowledged.
\<close>

theorem reported_replay_is_stored:
  assumes "repair_store h ops" and "replay_history h s rooms used started"
    and "apply_replay i confirmation current expired s = (s', Replay_Started p)" and "run_replay h ops e p jn = (jn', sent, x)"
  shows "case x of
      Inl error \<Rightarrow> sent = []
    | Inr reported \<Rightarrow>
        sent = map (\<lambda>n. record_write (rv_batch (rp_review p)) n (bi_records (rv_batch (rp_review p)) ! n))
          [0..<length (bo_outcomes (ro_batch reported))]
        \<and> (\<exists>j state. job_at h ops jn' (rv_planId (rp_review p)) = Some j \<and> rj_review j = rp_review p
             \<and> length sent \<le> nextIndex j
             \<and> ro_journal reported = Some (rv_planId (rp_review p), state, so_durability ops)
             \<and> (if state = Journal_Confirmed
                then rj_cleanup j = ro_cleanup reported \<and> rj_id j \<notin> jn_active jn'
                  \<and> rj_status j = (if bo_stopReason (ro_batch reported) = Batch_Complete then Job_Complete else Stopped)
                else True)
             \<and> (if bo_stopReason (ro_batch reported) = Journal_Unavailable then True
                else rj_outcomes j = bo_outcomes (ro_batch reported) \<and> rj_pendingIndex j = None))
        \<and> (if bo_stopReason (ro_batch reported) = Batch_Complete
           then length sent = reviewed_count (rp_review p)
             \<and> list_all (\<lambda>r. out_state r = Acknowledged) (bo_outcomes (ro_batch reported))
           else True)"
  using assms(4) started_ready [OF assms(2,3)]
proof (cases rule: run_replay_cases)
  case (refused error)
  then show ?thesis by simp
next
  case (ran jn1 st result finished)
  let ?i = "rv_planId (rp_review p)" and ?b = "rv_batch (rp_review p)"
  have r: "reviewed h (rp_review p)" using started_ready [OF assms(2,3)] by (simp add: plan_ready_def)
  have p: "progress h ops jn1 ?i = Some (rp_review p, [], None, Running)"
    by (rule repair_store.begin_progress [OF assms(1) ran(1) r])
  note run = run_batch_stopped [OF assms(1) p ran(2)]
  have l: "logged h ops ?i (rp_review p) ?b (rn_sent st)" "length (rn_sent st) = length (rn_outcomes st)"
    using run(1) by (simp_all add: stopped_run_def)
  obtain os q where q: "progress h ops (rn_hooks st) ?i = Some (rp_review p, os, q, Running)"
    "length (rn_sent st) \<le> length os + (if q = None then 0 else 1)"
    "bo_stopReason result \<noteq> Journal_Unavailable \<longrightarrow> os = rn_outcomes st \<and> q = None"
    using run(1) unfolding stopped_run_def by blast
  obtain j where j: "job_at h ops (rn_hooks st) ?i = Some j" "rj_review j = rp_review p" "rj_outcomes j = os" "rj_pendingIndex j = q"
    using q(1) by (auto simp: progress_def)
  obtain k where k: "job_at h ops jn' ?i = Some k" "rj_review k = rj_review j" "rj_outcomes k = rj_outcomes j"
    "rj_pendingIndex k = rj_pendingIndex j"
    "finished = Inr () \<longrightarrow> rj_status k = (if bo_stopReason result = Batch_Complete then Job_Complete else Stopped)
       \<and> rj_cleanup k = run_cleanup e p"
    using repair_store.finish_progress(1) [OF assms(1) j(1) ran(3)] by blast
  have gone: "?i \<notin> jn_active jn'" by (rule repair_store.finish_progress(2) [OF assms(1) j(1) ran(3)])
  have id: "rj_id k = ?i" using k(1) find_job_Some by (auto simp: job_at_def bind_eq_Some_conv)
  have next_le: "length sent \<le> nextIndex k" using q(2) j k(3,4) by (auto simp: ran(4) nextIndex_def pending_count_def)
  have sent: "sent = map (\<lambda>n. record_write ?b n (bi_records ?b ! n)) [0..<length (bo_outcomes result)]"
    using logged_writes [OF l(1)] l(2) run(2) by (simp add: ran(4))
  have complete: "if bo_stopReason result = Batch_Complete
      then length sent = reviewed_count (rp_review p) \<and> list_all (\<lambda>r. out_state r = Acknowledged) (bo_outcomes result) else True"
    using run_batch_complete [OF ran(2)] by (simp add: sent reviewed_count_def)
  have stored: "if bo_stopReason result = Journal_Unavailable then True
      else rj_outcomes k = bo_outcomes result \<and> rj_pendingIndex k = None"
    using q(3) j(3,4) k(3,4) run(2) by simp
  have finish: "if (if finished = Inr () then Journal_Confirmed else Journal_Lost) = Journal_Confirmed
      then rj_cleanup k = run_cleanup e p \<and> rj_id k \<notin> jn_active jn'
        \<and> rj_status k = (if bo_stopReason result = Batch_Complete then Job_Complete else Stopped) else True"
    using k(5) gone id by simp
  show ?thesis unfolding ran(5) sum.case replay_outcome.simps
    by (intro conjI sent complete exI [of _ k] exI [of _ "if finished = Inr () then Journal_Confirmed else Journal_Lost"] k(1) next_le
        stored finish refl) (use k(2) j(2) in simp)
qed


section \<open>A reviewed continuation, started and run\<close>

definition next_batch :: batch_service where
  "next_batch = end_review True True ''b'' (rv_targetName next_review) (rv_expiresAt next_review) sample_repair_batch
     (new_service\<lparr>bs_reviews := 1\<rparr>)"

definition next_plan :: replay_plan where
  "next_plan = \<lparr>rp_review = next_review, rp_batch = next_batch, rp_batchId = ''b'', rp_continuation = Some idle_continuation,
     rp_aborted = False, rp_closed = None, rp_operation = None\<rparr>"

definition next_service :: replay_service where
  "next_service = new_replays\<lparr>rs_plans := [(''q'', next_plan)]\<rparr>"

lemma next_prepared:
  "prepared_batch ''b'' (rv_targetName next_review) (rv_expiresAt next_review) (rv_batch next_review) = Some next_batch"
  by (simp add: prepared_batch_def start_review_def next_review_def sample_review_def sample_repair_batch_parses check_def
      new_service_def next_batch_def)

lemma next_history: "replay_history sample_host next_service [] [''q''] []"
proof -
  have "replay_history sample_host (new_replays\<lparr>rs_reviews := 1\<rparr>) [] [] []"
    by (rule replay_history.reviewing [OF replay_history.created, where jp = "\<lambda>s. None" and v = "Some (replay_input_json sample_input)"
          and connected = True and parsed = sample_input])
       (simp add: start_replay_review_def sample_input_parses new_replays_def check_def)
  then have "replay_history sample_host (new_replays\<lparr>rs_reviews := 1\<rparr>) [None] [] []"
    by (rule replay_history.room) (simp_all add: oldest_plan_def new_replays_def)
  then have "replay_history sample_host next_service (remove1 None [None]) [rv_planId next_review] []"
    by (rule replay_history.retained [where opened = True and closes = True and debt = False and batchId = "''b''"
          and continuation = "Some idle_continuation" and review = "Some next_review"])
       (simp_all add: end_replay_review_def next_prepared next_reviewed [unfolded reviewed_def] delete_plan_def retain_replay_def
          next_service_def next_plan_def new_replays_def, simp add: next_review_def)
  then show ?thesis by (simp add: next_review_def)
qed

lemma next_starts:
  "replayConfirmation next_review = ''b / t / 0''"
  "apply_replay ''q'' ''b / t / 0'' True False next_service =
     (set_plan ''q'' (next_plan\<lparr>rp_operation := Some None\<rparr>) (next_service\<lparr>rs_active := True\<rparr>), Replay_Started next_plan)"
proof -
  show c: "replayConfirmation next_review = ''b / t / 0''"
    by (simp add: replayConfirmation_def next_review_def sample_review_def sample_input_def int_string_def nat_string.simps
        digit_char_def char_of_def bit_0)
  show "apply_replay ''q'' ''b / t / 0'' True False next_service =
      (set_plan ''q'' (next_plan\<lparr>rp_operation := Some None\<rparr>) (next_service\<lparr>rs_active := True\<rparr>), Replay_Started next_plan)"
    by (simp add: apply_replay_def next_service_def next_plan_def new_replays_def c)
qed

theorem replays_start_once_witness:
  "\<exists>s'. apply_replay ''q'' ''b / t / 0'' True False next_service = (s', Replay_Started next_plan)
     \<and> length (running_plans s') = 1 \<and> replayConfirmation next_review = ''b / t / 0''"
  using replays_start_once [OF next_history next_starts(2)] next_starts by blast

definition next_env :: replay_env where
  "next_env = \<lparr>re_begin = ''n'', re_clock = (\<lambda>b n. ''n''), re_finish = ''n'', re_current = True, re_expired = False,
     re_turns = (\<lambda>n. \<lparr>te_late = False, te_aborted = False, te_current = True, te_valid = True, te_aborted2 = False, te_current2 = True,
             te_late2 = False, te_aborted3 = False, te_current3 = True, te_late3 = False, te_aborted4 = False, te_current4 = True,
             te_dispatch = Threw\<rparr>), re_closes = True\<rparr>"

theorem reported_replay_is_stored_witness:
  "\<exists>jn' sent reported j. run_replay sample_host (MemoryRepairJobStore sample_host) next_env next_plan idle_journal = (jn', sent, Inr reported)
     \<and> job_at sample_host (MemoryRepairJobStore sample_host) jn' ''q'' = Some j \<and> rj_review j = next_review"
proof -
  have n: "rp_review next_plan = next_review" "rp_continuation next_plan = Some idle_continuation" "rv_planId next_review = ''q''"
    by (simp_all add: next_plan_def next_review_def)
  have b: "start_batch next_env next_plan = Some sample_repair_batch"
    by (simp add: start_batch_def next_plan_def next_batch_def next_env_def apply_plan_def end_review_def retain_plan_def new_service_def)
  obtain jn' sent x where run: "run_replay sample_host (MemoryRepairJobStore sample_host) next_env next_plan idle_journal = (jn', sent, x)"
    by (metis surj_pair)
  obtain reported where x: "x = Inr reported"
    using run next_begins b by (auto simp: run_replay_def n next_env_def [THEN arg_cong [of _ _ re_begin]] Let_def split: prod.splits)
  show ?thesis
    using reported_replay_is_stored [OF memory.repair_store_axioms next_history next_starts(2) run] run unfolding x n by auto
qed


section \<open>Two reviews may leave five plans\<close>

text \<open>
  Two reviews that choose the same oldest plan before either deletes it make room for one plan and
  retain two.
\<close>

definition letter_review :: "char \<Rightarrow> replay_review" where
  "letter_review c = sample_review\<lparr>rv_planId := [c]\<rparr>"

definition letter_plan :: "char \<Rightarrow> js_string \<times> replay_plan" where
  "letter_plan c = ([c], \<lparr>rp_review = letter_review c, rp_batch = next_batch, rp_batchId = ''b'', rp_continuation = None,
     rp_aborted = False, rp_closed = None, rp_operation = None\<rparr>)"

definition lettered :: "(js_string \<times> replay_plan) list \<Rightarrow> nat \<Rightarrow> replay_service" where
  "lettered ps n = new_replays\<lparr>rs_plans := ps, rs_reviews := n\<rparr>"

lemma letter_reviewed: "reviewed h (letter_review c)"
  by (simp add: reviewed_def parseRecordReplayReview_def review_json_def letter_review_def sample_review_def parse_destination_def
      destination_record_json_def sample_input_parses sample_repair_batch_parses optional_member_def optional_value_def
      plain_text_def boundedText_def exactKeys_def check_def reviewed_evidence_def)
    (simp add: sample_input_def UNCHANGED_REPLAY_TRANSFORM_def)

lemma letter_retained:
  assumes "replay_history sample_host (lettered ps n) rooms used started" and "chosen \<in> set rooms" and "[c] \<notin> set used"
  shows "replay_history sample_host (lettered (rs_plans (delete_plan chosen (lettered ps n)) @ [letter_plan c]) (n - 1))
    (remove1 chosen rooms) ([c] # used) started"
proof -
  have "prepared_batch ''b'' (rv_targetName (letter_review c)) (rv_expiresAt (letter_review c)) (rv_batch (letter_review c)) = Some next_batch"
    using next_prepared by (simp add: letter_review_def next_review_def)
  then have "end_replay_review sample_host True True True False chosen ''b'' (letter_review c) None (lettered ps n) =
      (lettered (rs_plans (delete_plan chosen (lettered ps n)) @ [letter_plan c]) (n - 1), Some (letter_review c))"
    using letter_reviewed [of sample_host c]
    by (simp add: end_replay_review_def reviewed_def retain_replay_def lettered_def delete_plan_def letter_plan_def letter_review_def
        split: option.split)
  from replay_history.retained [OF assms(1,2) _ this] assms(3) show ?thesis by (simp add: letter_review_def)
qed

lemma lettered_review:
  "replay_history sample_host (lettered ps n) rooms used started \<Longrightarrow> n < 2 \<Longrightarrow>
   replay_history sample_host (lettered ps (Suc n)) rooms used started"
  by (rule replay_history.reviewing [where jp = "\<lambda>s. None" and v = "Some (replay_input_json sample_input)" and connected = True
        and parsed = sample_input])
     (auto simp: start_replay_review_def sample_input_parses lettered_def new_replays_def check_def)

lemma lettered_fills:
  assumes "replay_history sample_host (lettered ps 0) [] used []" and "length ps < 4" and "[c] \<notin> set used"
  shows "replay_history sample_host (lettered (ps @ [letter_plan c]) 0) [] ([c] # used) []"
proof -
  have "replay_history sample_host (lettered ps (Suc 0)) [None] used []"
    by (rule replay_history.room [OF lettered_review [OF assms(1)]]) (use assms(2) in \<open>simp_all add: lettered_def oldest_plan_def\<close>)
  from letter_retained [OF this, of None c] show ?thesis using assms(3) by (simp add: delete_plan_def lettered_def)
qed

lemma plans_exceed_four: "\<exists>s used. replay_history sample_host s [] used [] \<and> length (rs_plans s) = 5"
proof -
  let ?ps = "[letter_plan CHR ''a'', letter_plan CHR ''b'', letter_plan CHR ''c'', letter_plan CHR ''d'']"
  let ?qs = "(''a'', (snd (letter_plan CHR ''a''))\<lparr>rp_closed := Some True\<rparr>) # tl ?ps"
  have "replay_history sample_host (lettered [] 0) [] [] []"
    using replay_history.created [of sample_host] by (simp add: lettered_def new_replays_def)
  from lettered_fills [OF this, of "CHR ''a''"] have "replay_history sample_host (lettered [letter_plan CHR ''a''] 0) [] [''a''] []" by simp
  from lettered_fills [OF this, of "CHR ''b''"]
  have "replay_history sample_host (lettered [letter_plan CHR ''a'', letter_plan CHR ''b''] 0) [] [''b'', ''a''] []" by simp
  from lettered_fills [OF this, of "CHR ''c''"] 
  have "replay_history sample_host (lettered [letter_plan CHR ''a'', letter_plan CHR ''b'', letter_plan CHR ''c''] 0) [] [''c'', ''b'', ''a''] []"
    by simp
  from lettered_fills [OF this, of "CHR ''d''"]
  have "replay_history sample_host (lettered ?ps 0) [] [''d'', ''c'', ''b'', ''a''] []" by simp
  from lettered_review [OF lettered_review [OF this]]
  have two: "replay_history sample_host (lettered ?ps 2) [] [''d'', ''c'', ''b'', ''a''] []" by (simp add: numeral_2_eq_2)
  have "close_replay True ''a'' (lettered ?ps 2) = (lettered ?qs 2, True)"
    by (simp add: close_replay_def lettered_def letter_plan_def set_plan_def closeTarget_def)
  from replay_history.evicting [OF two _ _ this]
  have one: "replay_history sample_host (lettered ?qs 2) [Some ''a''] [''d'', ''c'', ''b'', ''a''] []"
    by (simp add: lettered_def oldest_plan_def letter_plan_def letter_review_def)
  have "close_replay True ''a'' (lettered ?qs 2) = (lettered ?qs 2, True)"
    by (simp add: close_replay_def lettered_def letter_plan_def)
  from replay_history.evicting [OF one _ _ this]
  have both: "replay_history sample_host (lettered ?qs 2) [Some ''a'', Some ''a''] [''d'', ''c'', ''b'', ''a''] []"
    by (simp add: lettered_def oldest_plan_def letter_plan_def letter_review_def)
  from letter_retained [OF letter_retained [OF both, of "Some ''a''" "CHR ''e''"], of "Some ''a''" "CHR ''f''"]
  show ?thesis by (force simp: delete_plan_def lettered_def letter_plan_def)
qed

end
