(* ===== verification/Repair_Store.thy ===== *)
theory Repair_Store
  imports Repair_History
begin

text \<open>
  The durable repair store (\<open>platform/node/kafka-repair-file-store.ts\<close>) over the private files it is
  written with (\<open>atomic-private-text-file.ts\<close>, \<open>private-predecessor-file.ts\<close>, \<open>bounded-file.ts\<close>): an
  envelope around the protected document, replaced by a rename after the file was checked against
  the bytes of the last load. A file's bytes are a text with one character per byte. The protector of
  the host and the JSON of the runtime are parameters.
\<close>

section \<open>Files\<close>

text \<open>A regular file has its bytes, its link count and whether its mode is 0600.\<close>

datatype file_node = Regular js_string nat bool | Special

datatype directory_node = No_Directory | Real_Directory | Linked_Directory

text \<open>The journal's directory, the journal file and its preserved predecessors of formats 1 and 2.\<close>

record vault_files =
  vf_directory :: directory_node
  vf_file :: "file_node option"
  vf_predecessor :: "nat \<Rightarrow> file_node option"

definition journal_file :: "vault_files \<Rightarrow> file_node option" where
  "journal_file fs = (if vf_directory fs = No_Directory then None else vf_file fs)"

definition make_directory :: "vault_files \<Rightarrow> vault_files" where
  "make_directory fs =
     (if vf_directory fs = No_Directory then \<lparr>vf_directory = Real_Directory, vf_file = None, vf_predecessor = (\<lambda>_. None)\<rparr> else fs)"

definition readBoundedFile :: "file_node option \<Rightarrow> nat \<Rightarrow> js_string option" where
  "readBoundedFile node maximumBytes =
     (case node of
        Some (Regular bytes links mode) \<Rightarrow> if length bytes \<le> maximumBytes then Some bytes else None
      | _ \<Rightarrow> None)"

text \<open>A regular file of one link, read within the bound; the outer None is an error, the inner an absent file.\<close>

definition read_safe :: "file_node option \<Rightarrow> nat \<Rightarrow> js_string option option" where
  "read_safe node maximumBytes =
     (case node of
        None \<Rightarrow> Some None
      | Some (Regular bytes links mode) \<Rightarrow> if links = 1 then map_option Some (readBoundedFile node maximumBytes) else None
      | Some Special \<Rightarrow> None)"

text \<open>
  The temporary file is written and closed, the caller checks, then the rename replaces the file; a
  failure before the rename leaves the file alone. \<open>window\<close> is what other processes do between the end
  of the check and the rename, which replaces whatever is there by then.
\<close>

definition writeAtomicPrivateTextFile ::
  "bool \<Rightarrow> bool \<Rightarrow> (vault_files \<Rightarrow> vault_files \<times> bool) \<Rightarrow> (vault_files \<Rightarrow> vault_files) \<Rightarrow> js_string \<Rightarrow> vault_files \<Rightarrow>
   vault_files \<times> bool" where
  "writeAtomicPrivateTextFile temporary renames beforeCommit window contents fs =
     (if \<not> temporary then (fs, False)
      else case beforeCommit (make_directory fs) of
             (checked, False) \<Rightarrow> (checked, False)
           | (checked, True) \<Rightarrow>
               let fs' = window checked
               in if renames then (fs'\<lparr>vf_file := Some (Regular contents 1 True)\<rparr>, True) else (fs', False))"

text \<open>
  The predecessor is linked from a temporary file, which never replaces an existing backup; the
  backup is then checked to be private and to hold the same bytes.
\<close>

record preserve_env =
  pe_links :: bool
  pe_unlinks :: bool
  pe_syncs :: bool

definition preservePrivatePredecessor ::
  "preserve_env \<Rightarrow> nat \<Rightarrow> js_string \<Rightarrow> nat \<Rightarrow> vault_files \<Rightarrow> vault_files \<times> bool" where
  "preservePrivatePredecessor e version bytes maximumBytes fs =
     (if \<not> pe_links e then (fs, False)
      else let linked = (case vf_predecessor fs version of
                           None \<Rightarrow> Some (Regular bytes (if pe_unlinks e then 1 else 2) True)
                         | Some node \<Rightarrow> Some node);
               fs' = fs\<lparr>vf_predecessor := (vf_predecessor fs)(version := linked)\<rparr>
           in if \<not> pe_unlinks e then (fs', False)
              else case linked of
                     Some (Regular saved links private) \<Rightarrow>
                       (fs', links = 1 \<and> private \<and> readBoundedFile linked maximumBytes = Some saved \<and> saved = bytes \<and> pe_syncs e)
                   | _ \<Rightarrow> (fs', False))"

section \<open>The envelope\<close>

record vault_host =
  vh_stringify :: "json \<Rightarrow> js_string"
  vh_envelope :: "js_string \<Rightarrow> json option"
  vh_protect :: "js_string \<Rightarrow> nat list option"
  vh_unprotect :: "nat list \<Rightarrow> js_string option"

abbreviation envelope_max :: nat where "envelope_max \<equiv> 8388608"

text \<open>The pattern of the protected text: groups of four, the last one padded.\<close>

definition base64_text :: "js_string \<Rightarrow> bool" where
  "base64_text s \<longleftrightarrow>
     length s mod 4 = 0
     \<and> (list_all (\<lambda>c. c \<in> set base64_alphabet) s
        \<or> ends_with s ''=='' \<and> list_all (\<lambda>c. c \<in> set base64_alphabet) (take (length s - 2) s)
        \<or> ends_with s ''='' \<and> list_all (\<lambda>c. c \<in> set base64_alphabet) (take (length s - 1) s))"

definition repairEnvelopeFormat :: "json option \<Rightarrow> nat option" where
  "repairEnvelopeFormat v =
     do { r \<leftarrow> record_value v;
          version \<leftarrow> schema_version (map_of r ''schemaVersion'');
          check (length r = 2);
          case map_of r ''protected'' of
            Some (JStr s) \<Rightarrow> if s \<noteq> [] \<and> length s \<le> envelope_max \<and> base64_text s then Some version else None
          | _ \<Rightarrow> None }"

definition inspectRepairEnvelope :: "json option \<Rightarrow> nat list option" where
  "inspectRepairEnvelope v =
     do { version \<leftarrow> repairEnvelopeFormat v;
          r \<leftarrow> record_value v;
          case map_of r ''protected'' of Some (JStr s) \<Rightarrow> atob s | _ \<Rightarrow> None }"

definition vault_envelope :: "js_string \<Rightarrow> json" where
  "vault_envelope protected = JObj [(''schemaVersion'', int_json 3), (''protected'', JStr protected)]"

definition envelope_text :: "js_string \<Rightarrow> js_string" where
  \<open>envelope_text protected = ''{"schemaVersion":3,"protected":"'' @ protected @ ''"}'' @ [CHR 0x0A]\<close>

section \<open>The store\<close>

text \<open>
  The store keeps the bytes of its last load: nothing yet, an absent file, or the bytes and their
  format.
\<close>

record file_store =
  fs_files :: vault_files
  fs_loaded :: "js_string option option"
  fs_format :: "nat option"

definition stored_document :: "js_host \<Rightarrow> vault_host \<Rightarrow> js_string \<Rightarrow> (nat \<times> repair_document) option" where
  "stored_document h vh bytes =
     do { envelope \<leftarrow> vh_envelope vh bytes;
          version \<leftarrow> repairEnvelopeFormat (Some envelope);
          protected \<leftarrow> inspectRepairEnvelope (Some envelope);
          plaintext \<leftarrow> vh_unprotect vh protected;
          payload \<leftarrow> h_parse h plaintext;
          r \<leftarrow> record_value (Some payload);
          check (schema_version (map_of r ''schemaVersion'') = Some version);
          document \<leftarrow> parseRepairJournalDocument h (Some payload);
          Some (version, document) }"

definition file_load :: "js_host \<Rightarrow> vault_host \<Rightarrow> file_store \<Rightarrow> file_store \<times> repair_document option" where
  "file_load h vh s =
     (case journal_file (fs_files s) of
        None \<Rightarrow> (s\<lparr>fs_loaded := Some None, fs_format := None\<rparr>, Some [])
      | Some node \<Rightarrow>
          (case (if vf_directory (fs_files s) = Real_Directory
                 then do { read \<leftarrow> read_safe (Some node) envelope_max;
                           bytes \<leftarrow> read;
                           found \<leftarrow> stored_document h vh bytes;
                           Some (bytes, found) }
                 else None) of
             None \<Rightarrow> (s, None)
           | Some (bytes, version, document) \<Rightarrow>
               (s\<lparr>fs_loaded := Some (Some bytes), fs_format := Some version\<rparr>, Some document)))"

text \<open>
  What one commit meets: whether the protector, the temporary file, the rename, the directory sync
  and the read-back succeed, and what another process leaves in the file at each pause: before the
  check, while a predecessor is preserved, between the check and the rename, and between the rename
  and the read-back. The state and the bytes of the file are read at one moment; the directory and the
  backups are this process's alone.
\<close>

record commit_env =
  ce_temporary :: bool
  ce_foreign :: "file_node option option"
  ce_preserve :: preserve_env
  ce_foreign2 :: "file_node option option"
  ce_window :: "file_node option option"
  ce_renames :: bool
  ce_after :: "file_node option option"
  ce_syncs :: bool
  ce_reads :: bool

definition meddle :: "file_node option option \<Rightarrow> vault_files \<Rightarrow> vault_files" where
  "meddle foreign fs = (case foreign of None \<Rightarrow> fs | Some node \<Rightarrow> fs\<lparr>vf_file := node\<rparr>)"

definition before_commit :: "commit_env \<Rightarrow> js_string option option \<Rightarrow> nat option \<Rightarrow> vault_files \<Rightarrow> vault_files \<times> bool" where
  "before_commit e previous format fs =
     (let fs1 = meddle (ce_foreign e) fs in
      case (if vf_directory fs1 = Real_Directory then read_safe (vf_file fs1) envelope_max else None) of
        None \<Rightarrow> (fs1, False)
      | Some current \<Rightarrow>
          if previous \<noteq> Some current then (fs1, False)
          else (case (format, current) of
                  (Some version, Some bytes) \<Rightarrow>
                    if version < 3
                    then (case preservePrivatePredecessor (ce_preserve e) version bytes envelope_max fs1 of
                            (fs2, False) \<Rightarrow> (fs2, False)
                          | (fs2, True) \<Rightarrow>
                              let fs3 = meddle (ce_foreign2 e) fs2
                              in (fs3, read_safe (vf_file fs3) envelope_max = Some (Some bytes)))
                    else (fs1, True)
                | _ \<Rightarrow> (fs1, True)))"

definition commit_contents :: "vault_host \<Rightarrow> repair_document \<Rightarrow> js_string option" where
  "commit_contents vh document =
     do { protected \<leftarrow> vh_protect vh (vh_stringify vh (document_json document));
          let contents = envelope_text (btoa protected);
          check (length contents \<le> envelope_max);
          Some contents }"

definition file_commit :: "js_host \<Rightarrow> vault_host \<Rightarrow> commit_env \<Rightarrow> repair_document \<Rightarrow> file_store \<Rightarrow> file_store \<times> bool" where
  "file_commit h vh e document s0 =
     (case (if fs_loaded s0 = None then (case file_load h vh s0 of (s, d) \<Rightarrow> (s, d \<noteq> None)) else (s0, True)) of
        (s, False) \<Rightarrow> (s, False)
      | (s, True) \<Rightarrow>
          (case do { parsed \<leftarrow> parseRepairJournalDocument h (Some (document_json document)); commit_contents vh parsed } of
             None \<Rightarrow> (s, False)
           | Some contents \<Rightarrow>
               (case writeAtomicPrivateTextFile (ce_temporary e) (ce_renames e) (before_commit e (fs_loaded s) (fs_format s))
                       (meddle (ce_window e)) contents (fs_files s) of
                  (fs, False) \<Rightarrow> (s\<lparr>fs_files := fs\<rparr>, False)
                | (written, True) \<Rightarrow>
                    let fs = meddle (ce_after e) written in
                    if ce_syncs e \<and> ce_reads e \<and> readBoundedFile (vf_file fs) envelope_max = Some contents
                    then (s\<lparr>fs_files := fs, fs_loaded := Some (Some contents), fs_format := Some 3\<rparr>, True)
                    else (s\<lparr>fs_files := fs\<rparr>, False))))"

text \<open>
  The store as the journal drives it: a mutation loads, then commits over that load. Each commit
  meets the next environment.
\<close>

definition AtomicRepairFileStore ::
  "js_host \<Rightarrow> vault_host \<Rightarrow> (nat \<Rightarrow> commit_env) \<Rightarrow> (file_store \<times> nat) store_ops" where
  "AtomicRepairFileStore h vh env =
     \<lparr>so_durability = Durable,
      so_load = (\<lambda>(s, n). map_option document_json (snd (file_load h vh s))),
      so_commit = (\<lambda>document (s, n).
        case file_commit h vh (env n) document (fst (file_load h vh s)) of (s', ok) \<Rightarrow> ((s', Suc n), ok))\<rparr>"


section \<open>What is written is read back\<close>

text \<open>
  What the store relies on for a document: \<open>JSON.parse\<close> reads what \<open>JSON.stringify\<close> and the envelope
  wrote, and the protector gives back what it protected, never as no bytes at all.
\<close>

definition storable :: "js_host \<Rightarrow> vault_host \<Rightarrow> repair_document \<Rightarrow> bool" where
  "storable h vh d \<longleftrightarrow>
     h_parse h (vh_stringify vh (document_json d)) = Some (document_json d)
     \<and> (case vh_protect vh (vh_stringify vh (document_json d)) of
          None \<Rightarrow> True
        | Some bytes \<Rightarrow> bytes \<noteq> [] \<and> list_all (\<lambda>b. b < 256) bytes
            \<and> vh_unprotect vh bytes = Some (vh_stringify vh (document_json d))
            \<and> vh_envelope vh (envelope_text (btoa bytes)) = Some (vault_envelope (btoa bytes)))"

lemma base64_char_alphabet: "n < 64 \<Longrightarrow> base64_char n \<in> set base64_alphabet"
  using alphabet by (simp add: base64_char_def)

lemma sextets_alphabet: "list_all (\<lambda>b. b < 256) bs \<Longrightarrow> list_all (\<lambda>c. c \<in> set base64_alphabet) (map base64_char (sextets bs))"
  using sextets_less base64_char_alphabet by (fastforce simp: list_all_iff)

lemma btoa_text: "list_all (\<lambda>b. b < 256) bs \<Longrightarrow> base64_text (btoa bs)"
proof -
  assume bs: "list_all (\<lambda>b. b < 256) bs"
  let ?s = "map base64_char (sextets bs)"
  have four: "length (btoa bs) mod 4 = 0" by (simp add: btoa_length)
  consider "padding bs = 0" | "padding bs = 1" | "padding bs = 2" by (fastforce simp: padding_def)
  then show ?thesis
  proof cases
    case 1
    then show ?thesis using sextets_alphabet [OF bs] four by (simp add: base64_text_def btoa_sextets)
  next
    case 2
    then have "btoa bs = ?s @ ''=''" by (simp add: btoa_sextets)
    then show ?thesis using sextets_alphabet [OF bs] four by (simp add: base64_text_def ends_with_def)
  next
    case 3
    then have "btoa bs = ?s @ ''==''" by (simp add: btoa_sextets numeral_2_eq_2)
    then show ?thesis using sextets_alphabet [OF bs] four by (simp add: base64_text_def ends_with_def)
  qed
qed

lemma envelope_length: "length p \<le> length (envelope_text p)"
  by (simp add: envelope_text_def)

lemma contents_stored:
  assumes "document_ok h d" and "storable h vh d" and "commit_contents vh d = Some contents"
  shows "stored_document h vh contents = Some (3, d)" and "length contents \<le> envelope_max"
proof -
  obtain bytes where b: "vh_protect vh (vh_stringify vh (document_json d)) = Some bytes" "contents = envelope_text (btoa bytes)"
    "length contents \<le> envelope_max"
    using assms(3) by (auto simp: commit_contents_def bind_eq_Some_conv Let_def check_Some)
  have s: "bytes \<noteq> []" "list_all (\<lambda>b. b < 256) bytes" "vh_unprotect vh bytes = Some (vh_stringify vh (document_json d))"
    "vh_envelope vh contents = Some (vault_envelope (btoa bytes))" "h_parse h (vh_stringify vh (document_json d)) = Some (document_json d)"
    using assms(2) b by (simp_all add: storable_def)
  have "btoa bytes \<noteq> []" using s(1) by (cases bytes rule: btoa.cases) simp_all
  moreover have "length (btoa bytes) \<le> envelope_max" using envelope_length [of "btoa bytes"] b(2,3) by simp
  ultimately have f: "repairEnvelopeFormat (Some (vault_envelope (btoa bytes))) = Some 3"
    using btoa_text [OF s(2)] by (simp add: repairEnvelopeFormat_def vault_envelope_def schema_version_3 check_def)
  then have i: "inspectRepairEnvelope (Some (vault_envelope (btoa bytes))) = Some bytes"
    using atob_btoa [OF s(2)] by (simp add: inspectRepairEnvelope_def) (simp add: vault_envelope_def)
  show "stored_document h vh contents = Some (3, d)"
    using s(3-5) f i document_parses [OF assms(1)]
    by (simp add: stored_document_def) (simp add: document_json_def schema_version_3 check_def)
  show "length contents \<le> envelope_max" by (rule b(3))
qed

text \<open>A load depends on the file and its directory alone.\<close>

lemma load_contents:
  assumes "document_ok h d" and "storable h vh d" and "commit_contents vh d = Some contents"
    and "vf_directory (fs_files s) = Real_Directory" and "vf_file (fs_files s) = Some (Regular contents 1 mode)"
  shows "snd (file_load h vh s) = Some d"
  using contents_stored [OF assms(1-3)] assms(4,5)
  by (simp add: file_load_def journal_file_def read_safe_def readBoundedFile_def)

lemma load_same:
  assumes "journal_file (fs_files s') = journal_file (fs_files s)"
    and "journal_file (fs_files s) \<noteq> None \<longrightarrow> vf_directory (fs_files s') = vf_directory (fs_files s)"
  shows "snd (file_load h vh s') = snd (file_load h vh s)"
  using assms by (auto simp: file_load_def split: option.splits)

lemma load_keeps_files: "fs_files (fst (file_load h vh s)) = fs_files s"
  by (auto simp: file_load_def split: option.splits)

lemma load_document_ok: "file_load h vh s = (s', Some d) \<Longrightarrow> document_ok h d"
  using empty_document
  by (auto simp: file_load_def stored_document_def bind_eq_Some_conv dest: parse_document_ok split: option.splits if_splits)


section \<open>What a commit replaces\<close>

text \<open>The files that other processes may leave.\<close>

definition foreign_files :: "commit_env \<Rightarrow> vault_files \<Rightarrow> file_node option set" where
  "foreign_files e fs = {journal_file fs} \<union> set_option (ce_foreign e) \<union> set_option (ce_foreign2 e) \<union> set_option (ce_window e)"

definition undisturbed :: "commit_env \<Rightarrow> bool" where
  "undisturbed e \<longleftrightarrow> ce_foreign e = None \<and> ce_foreign2 e = None \<and> ce_window e = None \<and> ce_after e = None"

lemma make_directory_simps: "vf_file (make_directory fs) = journal_file fs" "vf_directory (make_directory fs) \<noteq> No_Directory"
  "vf_directory fs \<noteq> No_Directory \<Longrightarrow> make_directory fs = fs"
  by (simp_all add: make_directory_def journal_file_def)

lemma meddle_simps: "vf_directory (meddle f fs) = vf_directory fs" "vf_predecessor (meddle f fs) = vf_predecessor fs"
  "vf_file (meddle f fs) = (case f of None \<Rightarrow> vf_file fs | Some node \<Rightarrow> node)"
  by (simp_all add: meddle_def split: option.splits)

lemma preserve_spec:
  assumes "preservePrivatePredecessor e version bytes maximum fs = (fs', ok)"
  shows "vf_file fs' = vf_file fs" "vf_directory fs' = vf_directory fs"
    "ok \<Longrightarrow> vf_predecessor fs' version = Some (Regular bytes 1 True)"
    "vf_predecessor fs version \<noteq> None \<Longrightarrow> vf_predecessor fs' = vf_predecessor fs"
    "version' \<noteq> version \<Longrightarrow> vf_predecessor fs' version' = vf_predecessor fs version'"
  using assms by (auto simp: preservePrivatePredecessor_def Let_def split: if_splits option.splits file_node.splits)

text \<open>
  A check that passes ends with a file that holds the loaded bytes, and with the backup of an older
  format; one that fails leaves what other processes put there.
\<close>

definition checked_files :: "js_string option option \<Rightarrow> nat option \<Rightarrow> vault_files \<Rightarrow> bool" where
  "checked_files previous format fs \<longleftrightarrow>
     vf_directory fs = Real_Directory \<and> previous = read_safe (vf_file fs) envelope_max \<and> previous \<noteq> None
     \<and> (\<forall>version bytes. format = Some version \<longrightarrow> version < 3 \<longrightarrow> previous = Some (Some bytes) \<longrightarrow>
          vf_predecessor fs version = Some (Regular bytes 1 True))"

lemma before_commit_spec:
  assumes "before_commit e previous format (make_directory fs) = (fs', ok)"
  shows "vf_file fs' \<in> foreign_files e fs \<and> vf_directory fs' = vf_directory (make_directory fs)
    \<and> (ok \<longrightarrow> checked_files previous format fs')"
proof -
  let ?fs1 = "meddle (ce_foreign e) (make_directory fs)"
  have f1: "vf_file ?fs1 \<in> foreign_files e fs" "vf_directory ?fs1 = vf_directory (make_directory fs)"
    by (simp_all add: meddle_simps make_directory_simps foreign_files_def split: option.split)
  consider "fs' = ?fs1" "\<not> ok"
    | current where "fs' = ?fs1" "ok" "vf_directory ?fs1 = Real_Directory" "read_safe (vf_file ?fs1) envelope_max = Some current"
        "previous = Some current" "\<And>version bytes. format = Some version \<Longrightarrow> current = Some bytes \<Longrightarrow> \<not> version < 3"
    | version bytes fs2 where
        "preservePrivatePredecessor (ce_preserve e) version bytes envelope_max ?fs1 = (fs2, False)" "fs' = fs2" "\<not> ok"
    | version bytes fs2 where "vf_directory ?fs1 = Real_Directory" "previous = Some (Some bytes)" "format = Some version"
        "preservePrivatePredecessor (ce_preserve e) version bytes envelope_max ?fs1 = (fs2, True)"
        "fs' = meddle (ce_foreign2 e) fs2" "ok = (read_safe (vf_file fs') envelope_max = Some (Some bytes))"
    using assms by (auto simp: before_commit_def Let_def split: option.splits if_splits prod.splits bool.splits)
  then show ?thesis
  proof cases
    case 1
    then show ?thesis using f1 by simp
  next
    case (2 current)
    then show ?thesis using f1 by (auto simp: checked_files_def)
  next
    case (3 version bytes fs2)
    then show ?thesis using f1 preserve_spec(1,2) [OF 3(1)] by simp
  next
    case (4 version bytes fs2)
    have "vf_file fs2 \<in> foreign_files e fs" "vf_directory fs2 = vf_directory (make_directory fs)"
      "vf_predecessor fs2 version = Some (Regular bytes 1 True)"
      using f1 preserve_spec(1-3) [OF 4(4)] by simp_all
    then show ?thesis
      using 4 f1 by (auto simp: meddle_simps foreign_files_def checked_files_def split: option.splits)
  qed
qed

text \<open>
  A commit over a loaded store: refused before the rename, or the rename replaced what was in the file
  by then with the new contents.
\<close>

lemma file_commit_cases:
  assumes "file_commit h vh e d s = (s', ok)" and "fs_loaded s \<noteq> None" and "document_ok h d"
  obtains (kept) "\<not> ok" "fs_files s' = fs_files s \<or> (vf_file (fs_files s') \<in> foreign_files e (fs_files s)
        \<and> vf_directory (fs_files s') = vf_directory (make_directory (fs_files s)))"
  | (replaced) contents checked where "commit_contents vh d = Some contents"
      "before_commit e (fs_loaded s) (fs_format s) (make_directory (fs_files s)) = (checked, True)"
      "checked_files (fs_loaded s) (fs_format s) checked"
      "fs_files s' = meddle (ce_after e) ((meddle (ce_window e) checked)\<lparr>vf_file := Some (Regular contents 1 True)\<rparr>)"
      "ok \<Longrightarrow> readBoundedFile (vf_file (fs_files s')) envelope_max = Some contents"
proof (cases "commit_contents vh d")
  case None
  then show ?thesis using assms by (intro kept) (auto simp: file_commit_def document_parses)
next
  case (Some contents)
  let ?before = "before_commit e (fs_loaded s) (fs_format s)"
  obtain checked passed where b: "?before (make_directory (fs_files s)) = (checked, passed)" by force
  note spec = before_commit_spec [OF b]
  have commit: "file_commit h vh e d s =
      (case writeAtomicPrivateTextFile (ce_temporary e) (ce_renames e) ?before (meddle (ce_window e)) contents (fs_files s) of
         (fs, False) \<Rightarrow> (s\<lparr>fs_files := fs\<rparr>, False)
       | (written, True) \<Rightarrow>
           let fs = meddle (ce_after e) written in
           if ce_syncs e \<and> ce_reads e \<and> readBoundedFile (vf_file fs) envelope_max = Some contents
           then (s\<lparr>fs_files := fs, fs_loaded := Some (Some contents), fs_format := Some 3\<rparr>, True)
           else (s\<lparr>fs_files := fs\<rparr>, False))"
    using assms(2,3) Some by (cases "fs_loaded s") (simp_all add: file_commit_def document_parses)
  consider "\<not> ce_temporary e" | "ce_temporary e" "\<not> passed" | "ce_temporary e" "passed" "\<not> ce_renames e"
    | "ce_temporary e" "passed" "ce_renames e" by blast
  then show ?thesis
  proof cases
    case 1
    then show ?thesis using assms(1) commit by (intro kept) (auto simp: writeAtomicPrivateTextFile_def)
  next
    case 2
    then show ?thesis using assms(1) commit b spec by (intro kept) (auto simp: writeAtomicPrivateTextFile_def)
  next
    case 3
    then have "s' = s\<lparr>fs_files := meddle (ce_window e) checked\<rparr> \<and> \<not> ok"
      using assms(1) commit b by (simp add: writeAtomicPrivateTextFile_def)
    then show ?thesis
      using spec by (intro kept) (auto simp: meddle_simps foreign_files_def split: option.split)
  next
    case 4
    then have "fs_files s' = meddle (ce_after e) ((meddle (ce_window e) checked)\<lparr>vf_file := Some (Regular contents 1 True)\<rparr>)"
      and "ok \<Longrightarrow> readBoundedFile (vf_file (fs_files s')) envelope_max = Some contents"
      using assms(1) commit b by (auto simp: writeAtomicPrivateTextFile_def Let_def split: if_splits)
    moreover have "?before (make_directory (fs_files s)) = (checked, True)" "checked_files (fs_loaded s) (fs_format s) checked"
      using b spec 4 by simp_all
    ultimately show ?thesis by (intro replaced [OF Some]) blast+
  qed
qed

lemma read_safe_None: "read_safe None n = Some None"
  by (simp add: read_safe_def)

lemma file_load_cases:
  assumes "file_load h vh s = (s', Some d)"
  shows "fs_files s' = fs_files s" "fs_loaded s' = read_safe (journal_file (fs_files s)) envelope_max" "fs_loaded s' \<noteq> None"
  using assms read_safe_None by (auto simp: file_load_def bind_eq_Some_conv split: option.splits if_splits)

lemma make_directory_load:
  assumes "vf_file fs' = journal_file fs" and "vf_directory fs' = vf_directory (make_directory fs)" and "fs_files s = fs" and "fs_files s' = fs'"
  shows "snd (file_load h vh s') = snd (file_load h vh s)"
proof (rule load_same)
  show "journal_file (fs_files s') = journal_file (fs_files s)"
    using assms make_directory_simps(2) [of fs] by (simp add: journal_file_def)
  show "journal_file (fs_files s) \<noteq> None \<longrightarrow> vf_directory (fs_files s') = vf_directory (fs_files s)"
    using assms make_directory_simps(3) [of fs] by (auto simp: journal_file_def split: if_splits)
qed

text \<open>What a load returns after a commit.\<close>

lemma commit_loads:
  assumes "file_commit h vh e d s1 = (s2, ok)" and "fs_loaded s1 \<noteq> None" and "document_ok h d" and "storable h vh d"
    and "fs_files s1 = fs_files s"
  shows "ok \<Longrightarrow> ce_after e = None \<Longrightarrow> snd (file_load h vh s2) = Some d"
    and "undisturbed e \<Longrightarrow> snd (file_load h vh s2) = snd (file_load h vh s) \<or> snd (file_load h vh s2) = Some d"
proof -
  from assms(1-3) have "(\<not> ok \<and> (undisturbed e \<longrightarrow> snd (file_load h vh s2) = snd (file_load h vh s)))
      \<or> (ce_after e = None \<longrightarrow> snd (file_load h vh s2) = Some d)"
  proof (cases rule: file_commit_cases)
    case kept
    have "fs_files s2 = fs_files s \<or> vf_file (fs_files s2) = journal_file (fs_files s)
        \<and> vf_directory (fs_files s2) = vf_directory (make_directory (fs_files s))"
      if "undisturbed e"
      using kept(2) that assms(5) by (auto simp: foreign_files_def undisturbed_def)
    then show ?thesis
      using kept(1) load_same [of s2 s h vh] make_directory_load [OF _ _ refl refl, of s2 s h vh] by auto
  next
    case (replaced contents checked)
    have "snd (file_load h vh s2) = Some d" if "ce_after e = None"
      by (rule load_contents [OF assms(3,4) replaced(1)])
         (use replaced(3,4) that in \<open>simp_all add: meddle_simps checked_files_def\<close>)
    then show ?thesis by blast
  qed
  then show "ok \<Longrightarrow> ce_after e = None \<Longrightarrow> snd (file_load h vh s2) = Some d"
    and "undisturbed e \<Longrightarrow> snd (file_load h vh s2) = snd (file_load h vh s) \<or> snd (file_load h vh s2) = Some d"
    by (auto simp: undisturbed_def)
qed

text \<open>
  C12: What a commit of the durable journal replaces. After a commit that follows a load, either the
  rename did not happen: the commit failed and the file is what was in it or what another process put
  there. Or the commit's last check had found exactly the loaded bytes in the file, with an exact
  private copy of them in the backup when they are of an older format, and the rename replaced the file
  as a whole with the contents of the new document; it replaced the checked file, unless another process
  wrote into the window between that check and the rename, whose write is then lost. A commit that
  succeeds has read its contents back. When nobody writes after the rename, the next load returns the
  new document after a success; when nobody else writes at all, the old or the new one after a failure:
  the contract the journal relies on.
\<close>

theorem durable_commit_is_atomic:
  assumes "storable h vh d" and "document_ok h d" and "file_load h vh s = (s1, Some old)" and "file_commit h vh e d s1 = (s2, ok)"
  shows "((vf_file (fs_files s2) \<in> foreign_files e (fs_files s) \<union> {vf_file (fs_files s)} \<and> \<not> ok)
      \<or> (\<exists>contents checked. commit_contents vh d = Some contents
           \<and> before_commit e (fs_loaded s1) (fs_format s1) (make_directory (fs_files s)) = (checked, True)
           \<and> read_safe (vf_file checked) envelope_max = read_safe (journal_file (fs_files s)) envelope_max
           \<and> (case (fs_format s1, fs_loaded s1) of
                (Some version, Some (Some bytes)) \<Rightarrow>
                  if version < 3 then vf_predecessor (fs_files s2) version = Some (Regular bytes 1 True) else True
              | _ \<Rightarrow> True)
           \<and> fs_files s2 = meddle (ce_after e) ((meddle (ce_window e) checked)\<lparr>vf_file := Some (Regular contents 1 True)\<rparr>)
           \<and> (if ok then readBoundedFile (vf_file (fs_files s2)) envelope_max = Some contents else True)))
    \<and> (if ok \<and> ce_after e = None then snd (file_load h vh s2) = Some d else True)
    \<and> (if undisturbed e then snd (file_load h vh s2) \<in> {Some old, Some d} else True)"
proof -
  note l = file_load_cases [OF assms(3)]
  note loads = commit_loads [OF assms(4) l(3) assms(2,1) l(1)]
  have later: "(if ok \<and> ce_after e = None then snd (file_load h vh s2) = Some d else True)
    \<and> (if undisturbed e then snd (file_load h vh s2) \<in> {Some old, Some d} else True)"
    using loads assms(3) by auto
  from assms(4) l(3) assms(2) show ?thesis
  proof (cases rule: file_commit_cases)
    case kept
    then show ?thesis using later l(1) by auto
  next
    case (replaced contents checked)
    have "vf_predecessor (fs_files s2) = vf_predecessor checked" by (simp add: replaced(4) meddle_simps)
    then show ?thesis using replaced later l(1,2) by (auto simp: checked_files_def split: option.splits)
  qed
qed

text \<open>So the store keeps the journal's contract when no other process writes the file.\<close>

lemma durable_store_contract:
  assumes "\<And>d. document_ok h d \<Longrightarrow> storable h vh d" and "\<And>n. undisturbed (env n)"
  shows "repair_store h (AtomicRepairFileStore h vh env)"
proof -
  let ?ops = "AtomicRepairFileStore h vh env"
  have load: "load_document h ?ops x = snd (file_load h vh (fst x))" for x
  proof (cases "snd (file_load h vh (fst x))")
    case (Some d)
    then have "document_ok h d" using load_document_ok [of h vh "fst x" "fst (file_load h vh (fst x))" d] by (simp add: prod_eq_iff)
    then show ?thesis using Some by (simp add: load_document_def AtomicRepairFileStore_def case_prod_unfold document_parses)
  qed (simp add: load_document_def AtomicRepairFileStore_def case_prod_unfold)
  have commit: "(ok \<longrightarrow> snd (file_load h vh (fst s2)) = Some d)
      \<and> (snd (file_load h vh (fst s2)) = snd (file_load h vh (fst s)) \<or> snd (file_load h vh (fst s2)) = Some d)"
    if c: "so_commit ?ops d s = (s2, ok)" and d: "document_ok h d" for d s s2 ok
  proof -
    obtain s0 n where s: "s = (s0, n)" by force
    obtain s1 x where l: "file_load h vh s0 = (s1, x)" by force
    have f: "file_commit h vh (env n) d s1 = (fst s2, ok)" using c l by (auto simp: s AtomicRepairFileStore_def split: prod.splits)
    have files: "fs_files s1 = fs_files s0" using load_keeps_files [of h vh s0] l by simp
    show ?thesis
    proof (cases "fs_loaded s1 = None")
      case True
      then have "x = None" using file_load_cases(3) [of h vh s0 s1] l by (cases x) simp_all
      then have "s1 = s0" using l by (auto simp: file_load_def split: option.splits)
      then have "\<not> ok \<and> fst s2 = s0" using f True l \<open>x = None\<close> by (auto simp: file_commit_def)
      then show ?thesis by (simp add: s)
    next
      case False
      from commit_loads [OF f False d assms(1) [OF d] files] assms(2) [of n] show ?thesis by (auto simp: s undisturbed_def)
    qed
  qed
  show ?thesis by unfold_locales (use commit load in \<open>metis fst_conv\<close>)+
qed


section \<open>A commit over a stored document\<close>

text \<open>
  A host that tells two documents apart, whose protector keeps the bytes of the text and which reads
  envelopes of the written form.
\<close>

definition sample_stringify :: "json \<Rightarrow> js_string" where
  "sample_stringify v = (if v = document_json [] then ''none'' else ''one'')"

definition two_host :: js_host where
  "two_host = sample_host\<lparr>h_parse := \<lambda>s.
     if s = ''none'' then Some (document_json [])
     else if s = ''one'' then Some (document_json [sample_job_at None]) else None\<rparr>"

definition envelope_body :: "js_string \<Rightarrow> js_string" where
  "envelope_body s = take (length s - length (envelope_text [])) (drop 32 s)"

definition two_vault :: vault_host where
  "two_vault = \<lparr>vh_stringify = sample_stringify,
     vh_envelope = (\<lambda>s. if s = envelope_text (envelope_body s) then Some (vault_envelope (envelope_body s)) else None),
     vh_protect = (\<lambda>s. Some (units_of s)), vh_unprotect = (\<lambda>bs. Some (text_of bs))\<rparr>"

definition quiet_commit :: commit_env where
  "quiet_commit = \<lparr>ce_temporary = True, ce_foreign = None, ce_preserve = \<lparr>pe_links = True, pe_unlinks = True, pe_syncs = True\<rparr>,
     ce_foreign2 = None, ce_window = None, ce_renames = True, ce_after = None, ce_syncs = True, ce_reads = True\<rparr>"

definition vault_store :: "js_string \<Rightarrow> file_store" where
  "vault_store contents = \<lparr>fs_files = \<lparr>vf_directory = Real_Directory, vf_file = Some (Regular contents 1 True), vf_predecessor = (\<lambda>_. None)\<rparr>,
     fs_loaded = None, fs_format = None\<rparr>"

lemma body_of_envelope: "envelope_body (envelope_text p) = p"
  by (simp add: envelope_body_def envelope_text_def)

lemma one_not_none: "document_json [sample_job_at p] \<noteq> document_json []"
  by (simp add: document_json_def)

lemma one_document: "document_ok two_host [sample_job_at None]"
  by (rule sample_document) (simp_all add: two_host_def sample_host_def)

lemma two_storable: "storable two_host two_vault []" "storable two_host two_vault [sample_job_at None]"
proof -
  have units: "list_all (\<lambda>b. b < 256) (units_of s)" "units_of s = [] \<longleftrightarrow> s = []" for s
    by (simp_all add: units_of_def list_all_iff)
  show "storable two_host two_vault []" "storable two_host two_vault [sample_job_at None]"
    using one_not_none [of None]
    by (simp_all add: storable_def two_host_def two_vault_def sample_stringify_def body_of_envelope units)
qed

definition none_text :: js_string where "none_text = envelope_text ''bm9uZQ==''"
definition one_text :: js_string where "one_text = envelope_text ''b25l''"

lemma two_contents: "commit_contents two_vault [] = Some none_text" "commit_contents two_vault [sample_job_at None] = Some one_text"
  using one_not_none [of None]
  by (simp_all add: commit_contents_def two_vault_def sample_stringify_def units_of_def base64_char_def base64_alphabet_def
      Let_def check_def none_text_def one_text_def envelope_text_def)

lemma none_loads: "file_load two_host two_vault (vault_store none_text) =
  ((vault_store none_text)\<lparr>fs_loaded := Some (Some none_text), fs_format := Some 3\<rparr>, Some [])"
  using contents_stored [OF empty_document two_storable(1) two_contents(1)]
  by (simp add: file_load_def vault_store_def journal_file_def read_safe_def readBoundedFile_def)

lemma text_lengths: "length none_text \<le> envelope_max" "length one_text \<le> envelope_max"
  by (simp_all add: none_text_def one_text_def envelope_text_def)

lemma commit_outcome:
  "file_commit two_host two_vault (quiet_commit\<lparr>ce_foreign := foreign, ce_window := window\<rparr>) [sample_job_at None]
     ((vault_store none_text)\<lparr>fs_loaded := Some (Some none_text), fs_format := Some 3\<rparr>) =
   (if foreign = None \<or> read_safe (the foreign) envelope_max = Some (Some none_text)
    then (vault_store one_text\<lparr>fs_loaded := Some (Some one_text), fs_format := Some 3\<rparr>, True)
    else (vault_store none_text\<lparr>fs_files := meddle foreign (fs_files (vault_store none_text)),
      fs_loaded := Some (Some none_text), fs_format := Some 3\<rparr>, False))"
  using text_lengths
  by (cases foreign; cases window)
     (auto simp: file_commit_def document_parses [OF one_document] two_contents writeAtomicPrivateTextFile_def quiet_commit_def
      make_directory_def before_commit_def meddle_def vault_store_def read_safe_def readBoundedFile_def Let_def
      split: option.splits file_node.splits)

text \<open>The document of one job replaces the empty one, and is loaded.\<close>

theorem durable_commit_is_atomic_witness:
  "\<exists>s2. file_commit two_host two_vault quiet_commit [sample_job_at None]
       (fst (file_load two_host two_vault (vault_store none_text))) = (s2, True)
     \<and> vf_file (fs_files s2) = Some (Regular one_text 1 True)
     \<and> snd (file_load two_host two_vault s2) = Some [sample_job_at None]"
proof -
  have c: "file_commit two_host two_vault quiet_commit [sample_job_at None]
      ((vault_store none_text)\<lparr>fs_loaded := Some (Some none_text), fs_format := Some 3\<rparr>) =
      (vault_store one_text\<lparr>fs_loaded := Some (Some one_text), fs_format := Some 3\<rparr>, True)"
    using commit_outcome [of None None] by (simp add: quiet_commit_def)
  show ?thesis
    using durable_commit_is_atomic [OF two_storable(2) one_document none_loads c] c none_loads
    by (simp add: quiet_commit_def vault_store_def)
qed

text \<open>
  A file that another process wrote before the check is kept. One that it wrote after the check, before
  the rename, is replaced by a commit that reports success.
\<close>

lemma other_write_kept:
  "read_safe node envelope_max \<noteq> Some (Some none_text) \<Longrightarrow>
   \<exists>s2. file_commit two_host two_vault (quiet_commit\<lparr>ce_foreign := Some node\<rparr>) [sample_job_at None]
       (fst (file_load two_host two_vault (vault_store none_text))) = (s2, False)
     \<and> vf_file (fs_files s2) = node"
  using commit_outcome [where foreign = "Some node" and window = None] by (simp add: none_loads quiet_commit_def meddle_def)

lemma write_in_the_window_is_lost:
  "\<exists>s2. file_commit two_host two_vault (quiet_commit\<lparr>ce_window := Some node\<rparr>) [sample_job_at None]
       (fst (file_load two_host two_vault (vault_store none_text))) = (s2, True)
     \<and> vf_file (fs_files s2) = Some (Regular one_text 1 True)"
proof -
  have "quiet_commit\<lparr>ce_foreign := None, ce_window := Some node\<rparr> = quiet_commit\<lparr>ce_window := Some node\<rparr>"
    by (simp add: quiet_commit_def)
  then show ?thesis
    using commit_outcome [where foreign = None and window = "Some node"] by (simp add: none_loads) (simp add: vault_store_def)
qed

end
