(* ===== verification/Session_Requests.thy ===== *)
theory Session_Requests
  imports Prelude
begin

text \<open>
  The requests a Kafka session has in flight (\<open>application/session-requests.ts\<close>), with the
  errors of a session and what a cleanup reports of them (\<open>application/session-errors.ts\<close>,
  \<open>application/session-lifecycle.ts\<close>).

  A promise is named by a number, and so is the \<open>AbortController\<close> of the request it belongs to:
  every request creates one of each. The value a request returns is opaque.
\<close>

section \<open>Errors and settlements\<close>

datatype cleanup_kind = Consumption_Cleanup | Connection_Cleanup | Shutdown_Cleanup

text \<open>What a promise of the session is rejected with. An error of the connection port carries its
  \<open>cleanupCause\<close>, when it has one.\<close>

datatype reason =
  Superseded "reason option"
| No_Active_Connection js_string
| Cleanup_Timeout cleanup_kind
| Session_Shut_Down
| Signal_Aborted
| Unsupported_Operation js_string
| Port_Error nat "reason option"
| Observer_Error nat
| Stream_Ended
| Aggregate_Error "reason list" js_string

datatype 'v settlement = Fulfilled 'v | Rejected reason

fun rejections :: "'v settlement list \<Rightarrow> reason list" where
  "rejections [] = []"
| "rejections (Fulfilled _ # rs) = rejections rs"
| "rejections (Rejected e # rs) = e # rejections rs"

fun superseded_cleanup :: "'v settlement \<Rightarrow> reason list" where
  "superseded_cleanup (Rejected (Superseded (Some c))) = [c]"
| "superseded_cleanup _ = []"

definition cleanup_failures :: "'v settlement list \<Rightarrow> reason list" where
  "cleanup_failures results = concat (map superseded_cleanup results)"

definition owned_cleanup_failure :: "reason \<Rightarrow> reason option" where
  "owned_cleanup_failure e = (case e of Port_Error _ cause \<Rightarrow> cause | _ \<Rightarrow> None)"

section \<open>Requests\<close>

text \<open>The maps of in-flight requests, and the calls with the map each is kept in.\<close>

datatype request_class =
  Mutations | Acls | Configurations | Group_Details | Group_Inventory | Latencies | Topics
| Temporary_Tests | Transform_Logs

datatype request_call =
  Test_Connection
| List_Topics
| Alter_Topic_Configuration bool
| Describe_Topic_Configuration
| Describe_Broker_Configuration
| Describe_Cluster_Metadata
| Create_Acl
| Delete_Acl
| List_Acls
| Load_Transform_Logs
| Describe_Consumer_Group
| List_Consumer_Groups
| Run_Latency_Probe

fun call_class :: "request_call \<Rightarrow> request_class" where
  "call_class Test_Connection = Temporary_Tests"
| "call_class List_Topics = Topics"
| "call_class (Alter_Topic_Configuration validate_only) =
     (if validate_only then Configurations else Mutations)"
| "call_class Describe_Topic_Configuration = Configurations"
| "call_class Describe_Broker_Configuration = Configurations"
| "call_class Describe_Cluster_Metadata = Configurations"
| "call_class Create_Acl = Mutations"
| "call_class Delete_Acl = Mutations"
| "call_class List_Acls = Acls"
| "call_class Load_Transform_Logs = Transform_Logs"
| "call_class Describe_Consumer_Group = Group_Details"
| "call_class List_Consumer_Groups = Group_Inventory"
| "call_class Run_Latency_Probe = Latencies"

fun call_description :: "request_call \<Rightarrow> js_string" where
  "call_description Test_Connection = ''''"
| "call_description List_Topics = ''listing topics''"
| "call_description (Alter_Topic_Configuration _) = ''changing topic configuration''"
| "call_description Describe_Topic_Configuration = ''reading topic configuration''"
| "call_description Describe_Broker_Configuration = ''reading broker configuration''"
| "call_description Describe_Cluster_Metadata = ''reading cluster metadata''"
| "call_description Create_Acl = ''creating an ACL''"
| "call_description Delete_Acl = ''deleting an ACL''"
| "call_description List_Acls = ''listing ACLs''"
| "call_description Load_Transform_Logs = ''reading transform logs''"
| "call_description Describe_Consumer_Group = ''reading a consumer group''"
| "call_description List_Consumer_Groups = ''listing consumer groups''"
| "call_description Run_Latency_Probe = ''running a latency probe''"

text \<open>A mutation's acknowledgement is kept whatever becomes of the connection.\<close>

fun call_preserves :: "request_call \<Rightarrow> bool" where
  "call_preserves (Alter_Topic_Configuration validate_only) = (\<not> validate_only)"
| "call_preserves Create_Acl = True"
| "call_preserves Delete_Acl = True"
| "call_preserves _ = False"

text \<open>The calls whose adapter method is optional, with the error for an adapter without it.\<close>

fun call_unsupported :: "request_call \<Rightarrow> js_string option" where
  "call_unsupported Create_Acl = Some ''The active Kafka adapter does not support ACL creation.''"
| "call_unsupported Delete_Acl = Some ''The active Kafka adapter does not support ACL deletion.''"
| "call_unsupported List_Acls = Some ''The active Kafka adapter does not support ACL inventory.''"
| "call_unsupported Describe_Consumer_Group =
     Some ''The active Kafka adapter does not support consumer-group detail.''"
| "call_unsupported List_Consumer_Groups =
     Some ''The active Kafka adapter does not support consumer-group inventory.''"
| "call_unsupported Run_Latency_Probe =
     Some ''The active Kafka adapter does not support latency probing.''"
| "call_unsupported _ = None"

record request_context =
  rc_connection :: "nat option"
  rc_connected :: bool
  rc_generation :: nat
  rc_shutting :: bool

record request =
  rq_call :: request_call
  rq_connection :: "nat option"
  rq_generation :: nat
  rq_supported :: bool

record requests =
  ro_open :: "(nat \<times> request) list"
  ro_aborted :: "nat set"

definition initial_requests :: requests where
  "initial_requests = \<lparr>ro_open = [], ro_aborted = {}\<rparr>"

subsection \<open>Cancellation\<close>

definition class_operations :: "request_class \<Rightarrow> requests \<Rightarrow> nat list" where
  "class_operations cls s = map fst (filter (\<lambda>(op, r). call_class (rq_call r) = cls) (ro_open s))"

definition cancel_class :: "request_class \<Rightarrow> requests \<Rightarrow> nat list \<times> requests" where
  "cancel_class cls s =
     (let ops = class_operations cls s in (ops, s\<lparr>ro_aborted := ro_aborted s \<union> set ops\<rparr>))"

fun cancel_classes :: "request_class list \<Rightarrow> requests \<Rightarrow> nat list \<times> requests" where
  "cancel_classes [] s = ([], s)"
| "cancel_classes (c # cs) s =
     (let (ops, s1) = cancel_class c s; (more, s2) = cancel_classes cs s1 in (ops @ more, s2))"

definition cancel_administrative_requests :: "requests \<Rightarrow> nat list \<times> requests" where
  "cancel_administrative_requests =
     cancel_classes [Mutations, Configurations, Group_Inventory, Group_Details, Acls, Transform_Logs]"

definition cancel_for_reconnect :: "requests \<Rightarrow> nat list \<times> requests" where
  "cancel_for_reconnect s =
     cancel_class Latencies
       (snd (cancel_classes [Mutations, Topics, Configurations, Acls, Transform_Logs,
                             Group_Inventory, Group_Details] s))"

subsection \<open>Starting and settling\<close>

text \<open>Either the call fails at once, or it is in flight as \<open>op\<close>.\<close>

definition start_request ::
  "request_call \<Rightarrow> bool \<Rightarrow> request_context \<Rightarrow> nat \<Rightarrow> requests \<Rightarrow> reason option \<times> requests" where
  "start_request call supported context op s =
     (if rc_shutting context then (Some Session_Shut_Down, s)
      else if call = Test_Connection then
        (None, s\<lparr>ro_open := ro_open s @ [(op, \<lparr>rq_call = call, rq_connection = None,
           rq_generation = rc_generation context, rq_supported = True\<rparr>)]\<rparr>)
      else if rc_connection context = None \<or> \<not> rc_connected context then
        (Some (No_Active_Connection (call_description call)), s)
      else if call = Run_Latency_Probe \<and> \<not> supported then
        (Some (Unsupported_Operation (the (call_unsupported call))), s)
      else
        let s1 = (if call_preserves call then s else snd (cancel_class (call_class call) s)) in
        (None, s1\<lparr>ro_open := ro_open s1 @ [(op, \<lparr>rq_call = call,
           rq_connection = rc_connection context, rq_generation = rc_generation context,
           rq_supported = supported \<or> call_unsupported call = None\<rparr>)]\<rparr>))"

definition is_current_request :: "request_context \<Rightarrow> nat \<Rightarrow> request \<Rightarrow> requests \<Rightarrow> bool" where
  "is_current_request context op r s \<longleftrightarrow>
     \<not> rc_shutting context \<and> rq_generation r = rc_generation context \<and>
     rc_connection context = rq_connection r \<and> rc_connected context \<and> op \<notin> ro_aborted s"

definition superseding_reason :: "reason \<Rightarrow> reason" where
  "superseding_reason e =
     (case e of Superseded c \<Rightarrow> Superseded c | _ \<Rightarrow> Superseded (owned_cleanup_failure e))"

definition request_result ::
  "request_context \<Rightarrow> nat \<Rightarrow> request \<Rightarrow> requests \<Rightarrow> 'v settlement \<Rightarrow> 'v settlement" where
  "request_result context op r s outcome =
     (if rq_call r = Test_Connection \<or> call_preserves (rq_call r) \<or> is_current_request context op r s
      then outcome
      else case outcome of
        Fulfilled _ \<Rightarrow> Rejected (Superseded None)
      | Rejected e \<Rightarrow> Rejected (superseding_reason e))"

text \<open>
  The port settles a request. An adapter without the operation has already rejected it; the result
  is what the caller sees, and the request is forgotten.
\<close>

definition port_outcome :: "request \<Rightarrow> 'v settlement \<Rightarrow> 'v settlement" where
  "port_outcome r outcome =
     (if rq_supported r then outcome
      else Rejected (Unsupported_Operation (the (call_unsupported (rq_call r)))))"

definition settle_request ::
  "nat \<Rightarrow> 'v settlement \<Rightarrow> request_context \<Rightarrow> requests \<Rightarrow> ('v settlement \<times> requests) option" where
  "settle_request op outcome context s =
     (case map_of (ro_open s) op of
        None \<Rightarrow> None
      | Some r \<Rightarrow>
          Some (request_result context op r s (port_outcome r outcome),
                s\<lparr>ro_open := filter (\<lambda>(p, _). p \<noteq> op) (ro_open s)\<rparr>))"

section \<open>Facts\<close>

lemma cancel_class_open [simp]: "ro_open (snd (cancel_class cls s)) = ro_open s"
  by (simp add: cancel_class_def Let_def)

lemma cancel_class_aborts:
  "ro_aborted (snd (cancel_class cls s)) = ro_aborted s \<union> set (class_operations cls s)"
  by (simp add: cancel_class_def Let_def)

lemma class_operations_open: "ro_open s' = ro_open s \<Longrightarrow> class_operations cls s' = class_operations cls s"
  by (simp add: class_operations_def)

lemma cancel_classes_snd_Cons:
  "snd (cancel_classes (c # cs) s) = snd (cancel_classes cs (snd (cancel_class c s)))"
  by (simp add: Let_def split: prod.splits)

lemma cancel_classes_open [simp]: "ro_open (snd (cancel_classes cs s)) = ro_open s"
proof (induction cs arbitrary: s)
  case (Cons c cs)
  show ?case
    unfolding cancel_classes_snd_Cons by (simp only: Cons.IH cancel_class_open)
qed simp

lemma cancel_classes_aborts:
  "ro_aborted (snd (cancel_classes cs s)) =
     ro_aborted s \<union> (\<Union>c \<in> set cs. set (class_operations c s))"
proof (induction cs arbitrary: s)
  case Nil
  then show ?case by simp
next
  case (Cons c cs)
  have "ro_aborted (snd (cancel_classes cs (snd (cancel_class c s)))) =
        ro_aborted (snd (cancel_class c s)) \<union>
        (\<Union>d \<in> set cs. set (class_operations d (snd (cancel_class c s))))"
    by (rule Cons.IH)
  also have "\<dots> = ro_aborted s \<union> (\<Union>d \<in> set (c # cs). set (class_operations d s))"
    by (auto simp: cancel_class_aborts class_operations_open [OF cancel_class_open])
  finally show ?case by (simp only: cancel_classes_snd_Cons)
qed

text \<open>A reconnect aborts every request in flight except the temporary tests.\<close>

lemma reconnect_aborts_all:
  assumes "(op, r) \<in> set (ro_open s)" and "rq_call r \<noteq> Test_Connection"
  shows "op \<in> ro_aborted (snd (cancel_for_reconnect s))"
proof -
  have "op \<in> set (class_operations (call_class (rq_call r)) s)"
    using assms(1) by (force simp: class_operations_def)
  then show ?thesis
    using assms(2)
    by (cases "rq_call r")
       (auto simp: cancel_for_reconnect_def cancel_class_aborts cancel_classes_aborts
         class_operations_open [OF cancel_classes_open] simp del: cancel_classes.simps split: if_splits)
qed

text \<open>What a read returns was read from the connection that is current when it returns.\<close>

lemma fulfilled_read_is_current:
  assumes "request_result context op r s outcome = Fulfilled v"
    and "rq_call r \<noteq> Test_Connection" and "\<not> call_preserves (rq_call r)"
  shows "is_current_request context op r s \<and> outcome = Fulfilled v"
  using assms by (auto simp: request_result_def split: if_splits settlement.splits)

lemma cancelled_read_never_fulfils:
  assumes "op \<in> ro_aborted s"
    and "rq_call r \<noteq> Test_Connection" and "\<not> call_preserves (rq_call r)"
  shows "\<exists>c. request_result context op r s outcome = Rejected (Superseded c)"
  using assms
  by (auto simp: request_result_def is_current_request_def superseding_reason_def
      split: settlement.splits reason.splits)

lemma mutations_keep_acknowledgement:
  "call_preserves (rq_call r) \<Longrightarrow> request_result context op r s outcome = outcome"
  by (simp add: request_result_def)

end
