(* ===== verification/Session.thy ===== *)
theory Session
  imports Session_Requests
begin

text \<open>
  The Kafka application session (\<open>application/session.ts\<close>): connecting, disconnecting and shutting
  down with at most one connection in use, and one consumption of a message stream on it.

  The session is a state and its asynchronous functions are tasks suspended at an \<open>await\<close>; a step is
  what runs without interruption: a call of the host, or one continuation. Which step comes next is
  open, so every interleaving the event loop can produce is a run, with three exceptions that the code
  cannot observe: callbacks that only forget a settled closure or request run with its settlement.
  Promises, abort controllers, connections and consumptions are named by numbers from one counter;
  the controller and the operation of a connection attempt, and those of a consumption, share a name.
  Listeners and observers do not call the session back synchronously.
\<close>

section \<open>State\<close>

datatype connection_state = Disconnected | Connecting | Connected | Disconnecting | Failed

record connection_snapshot =
  sn_name :: "js_string option"
  sn_state :: connection_state
  sn_failure :: "reason option"

datatype observer_event =
  On_Message nat | On_Empty | On_Coverage | On_Checkpoint | On_Complete | On_Failure reason

text \<open>What the session does to the outside, in order.\<close>

datatype session_output =
  Published connection_snapshot
| Opening_Connection nat
| Opened_Connection nat
| Closing_Connection nat
| Opening_Stream nat
| Opened_Stream nat
| Closing_Stream nat
| Notified nat observer_event

record attempt =
  at_name :: js_string
  at_brokers :: "js_string list"
  at_generation :: nat
  at_external :: "nat option"

text \<open>
  A consumption is one object from its pending state to the end of its pump. \<open>cs_receiving\<close> tells
  that its coverage listener is subscribed and not retired, \<open>cs_watch\<close> that a failed observer waits
  for the rejection of the close it started.
\<close>

record session_consumption =
  cs_connection :: nat
  cs_connection_generation :: nat
  cs_generation :: nat
  cs_external :: "nat option"
  cs_tail :: bool
  cs_opening_started :: bool
  cs_received :: bool
  cs_timer :: bool
  cs_close :: "nat option"
  cs_pump :: nat
  cs_receiving :: bool
  cs_watch :: bool
  cs_failure :: "reason option"
  cs_cleanup_failure :: "reason option"
  cs_completed :: bool

datatype task =
  Establish_Clean attempt "nat option" "nat list" "nat list"
| Establish_Open attempt
| Establish_Supersede attempt nat
| Establish_Cancel attempt nat
| Establish_Install attempt nat
| Cleaning_Up cleanup_kind nat "js_string option" "nat list" "nat option" "nat option" "nat list"
| Closing nat
| Stopping "nat option" "nat option" "nat option"
| Opening_Wait "nat option"
| Stream_Opening
| Stream_Abandoning
| Pumping nat
| Leaving nat "reason option"
| Pump_Closing nat

record closure =
  cl_operation :: nat
  cl_pending :: bool

record session =
  se_next :: nat
  se_promises :: "(nat \<times> unit settlement) list"
  se_tasks :: "(nat \<times> task) list"
  se_external_aborted :: "nat set"
  se_active :: "nat option"
  se_brokers :: "js_string list option"
  se_attempt :: "nat option"
  se_controller :: "nat option"
  se_aborted :: "nat set"
  se_generation :: nat
  se_snapshot :: connection_snapshot
  se_shutting :: bool
  se_shutdown :: "nat option"
  se_closures :: "(nat \<times> closure) list"
  se_closed :: "nat set"
  se_consumption :: "nat option"
  se_pending :: "nat option"
  se_halted :: "nat set"
  se_consumption_generation :: nat
  se_stop :: "nat option"
  se_stop_connection :: "nat option"
  se_stop_settled :: bool
  se_stop_covered :: bool
  se_consumptions :: "(nat \<times> session_consumption) list"
  se_requests :: requests
  se_log :: "session_output list"

definition initial_session :: session where
  "initial_session = \<lparr>se_next = 0, se_promises = [], se_tasks = [], se_external_aborted = {},
     se_active = None, se_brokers = None, se_attempt = None, se_controller = None, se_aborted = {},
     se_generation = 0, se_snapshot = \<lparr>sn_name = None, sn_state = Disconnected, sn_failure = None\<rparr>,
     se_shutting = False, se_shutdown = None, se_closures = [], se_closed = {},
     se_consumption = None, se_pending = None, se_halted = {}, se_consumption_generation = 0,
     se_stop = None, se_stop_connection = None, se_stop_settled = False, se_stop_covered = True,
     se_consumptions = [], se_requests = initial_requests, se_log = []\<rparr>"

section \<open>Primitives\<close>

definition emit :: "session_output \<Rightarrow> session \<Rightarrow> session" where
  "emit out s = s\<lparr>se_log := se_log s @ [out]\<rparr>"

definition publish :: "connection_snapshot \<Rightarrow> session \<Rightarrow> session" where
  "publish snap s = emit (Published snap) (s\<lparr>se_snapshot := snap\<rparr>)"

definition settle_promise :: "nat \<Rightarrow> unit settlement \<Rightarrow> session \<Rightarrow> session" where
  "settle_promise p outcome s = s\<lparr>se_promises := (p, outcome) # se_promises s\<rparr>"

definition suspend :: "nat \<Rightarrow> task \<Rightarrow> session \<Rightarrow> session" where
  "suspend p t s = s\<lparr>se_tasks := se_tasks s @ [(p, t)]\<rparr>"

definition take_task :: "nat \<Rightarrow> session \<Rightarrow> session" where
  "take_task p s = s\<lparr>se_tasks := filter (\<lambda>(q, _). q \<noteq> p) (se_tasks s)\<rparr>"

abbreviation task_of :: "session \<Rightarrow> nat \<Rightarrow> task option" where
  "task_of s p \<equiv> map_of (se_tasks s) p"

abbreviation settlement_of :: "session \<Rightarrow> nat \<Rightarrow> unit settlement option" where
  "settlement_of s p \<equiv> map_of (se_promises s) p"

abbreviation consumption_of :: "session \<Rightarrow> nat \<Rightarrow> session_consumption option" where
  "consumption_of s k \<equiv> map_of (se_consumptions s) k"

definition update_consumption :: "nat \<Rightarrow> (session_consumption \<Rightarrow> session_consumption) \<Rightarrow> session \<Rightarrow> session" where
  "update_consumption k f s =
     s\<lparr>se_consumptions := map (\<lambda>(q, c). (q, if q = k then f c else c)) (se_consumptions s)\<rparr>"

text \<open>\<open>AbortSignal.any\<close> of an owned and an external signal.\<close>

definition signal_aborted :: "nat option \<Rightarrow> session \<Rightarrow> bool" where
  "signal_aborted external s =
     (case external of None \<Rightarrow> False | Some e \<Rightarrow> e \<in> se_external_aborted s)"

definition is_current :: "nat \<Rightarrow> attempt \<Rightarrow> session \<Rightarrow> bool" where
  "is_current p a s \<longleftrightarrow>
     \<not> se_shutting s \<and> at_generation a = se_generation s \<and> se_controller s = Some p \<and>
     p \<notin> se_aborted s"

definition is_current_connection :: "nat \<Rightarrow> nat \<Rightarrow> session \<Rightarrow> bool" where
  "is_current_connection c generation s \<longleftrightarrow>
     \<not> se_shutting s \<and> generation = se_generation s \<and> se_active s = Some c \<and>
     sn_state (se_snapshot s) = Connected"

definition is_current_consumption :: "nat \<Rightarrow> session \<Rightarrow> bool" where
  "is_current_consumption k s =
     (case consumption_of s k of
        None \<Rightarrow> False
      | Some c \<Rightarrow>
          se_consumption s = Some k \<and> cs_generation c = se_consumption_generation s \<and>
          k \<notin> se_halted s \<and> is_current_connection (cs_connection c) (cs_connection_generation c) s)"

definition is_current_pending :: "nat \<Rightarrow> session \<Rightarrow> bool" where
  "is_current_pending k s =
     (case consumption_of s k of
        None \<Rightarrow> False
      | Some c \<Rightarrow>
          se_pending s = Some k \<and> cs_generation c = se_consumption_generation s \<and>
          is_current_connection (cs_connection c) (cs_connection_generation c) s \<and>
          k \<notin> se_halted s \<and> \<not> signal_aborted (cs_external c) s)"

text \<open>What the session tells the services that read or write through its connection.\<close>

definition write_context :: "session \<Rightarrow> (nat \<times> nat \<times> js_string) option" where
  "write_context s =
     (case (se_active s, sn_name (se_snapshot s)) of
        (Some c, Some name) \<Rightarrow>
          if sn_state (se_snapshot s) = Connected then Some (c, se_generation s, name) else None
      | _ \<Rightarrow> None)"

definition active_connection_context :: "session \<Rightarrow> (js_string list \<times> js_string \<times> js_string) option" where
  "active_connection_context s =
     (case (se_brokers s, sn_name (se_snapshot s)) of
        (Some brokers, Some name) \<Rightarrow>
          if sn_state (se_snapshot s) = Connected then Some (brokers, name, join '', '' brokers) else None
      | _ \<Rightarrow> None)"

definition session_context :: "session \<Rightarrow> request_context" where
  "session_context s =
     \<lparr>rc_connection = se_active s, rc_connected = (sn_state (se_snapshot s) = Connected),
      rc_generation = se_generation s, rc_shutting = se_shutting s\<rparr>"

text \<open>The outcomes of settled promises, and the wait for a stop, which has a deadline of its own.\<close>

definition all_settled :: "session \<Rightarrow> nat list \<Rightarrow> bool" where
  "all_settled s ps \<longleftrightarrow> (\<forall>p \<in> set ps. settlement_of s p \<noteq> None)"

definition outcomes :: "session \<Rightarrow> nat list \<Rightarrow> unit settlement list" where
  "outcomes s ps = map (\<lambda>p. the (settlement_of s p)) ps"

definition stop_waited :: "session \<Rightarrow> nat option \<Rightarrow> bool \<Rightarrow> bool" where
  "stop_waited s stop late =
     (case stop of None \<Rightarrow> \<not> late | Some p \<Rightarrow> late = (settlement_of s p = None))"

definition stop_outcome :: "session \<Rightarrow> nat option \<Rightarrow> bool \<Rightarrow> unit settlement list" where
  "stop_outcome s stop late =
     (case stop of
        None \<Rightarrow> []
      | Some p \<Rightarrow> [if late then Rejected (Cleanup_Timeout Consumption_Cleanup)
                   else the (settlement_of s p)])"

definition finish :: "nat \<Rightarrow> unit settlement \<Rightarrow> session \<Rightarrow> session" where
  "finish p outcome s = settle_promise p outcome (take_task p s)"

section \<open>Closing connections\<close>

text \<open>\<open>closeConnectionResources\<close> with the synchronous part of \<open>finishConnectionClose\<close>: a pending
  closure is shared, a failed one is retried.\<close>

definition set_closure :: "nat \<Rightarrow> closure \<Rightarrow> (nat \<times> closure) list \<Rightarrow> (nat \<times> closure) list" where
  "set_closure c cl cls =
     (if c \<in> fst ` set cls then map (\<lambda>(d, old). (d, if d = c then cl else old)) cls
      else cls @ [(c, cl)])"

definition start_closing :: "nat \<Rightarrow> session \<Rightarrow> nat \<times> session" where
  "start_closing c s =
     (let op = se_next s in
      (op, suspend op (Closing c)
             (emit (Closing_Connection c)
               (s\<lparr>se_next := Suc op,
                  se_closures := set_closure c \<lparr>cl_operation = op, cl_pending = True\<rparr> (se_closures s)\<rparr>))))"

definition close_connection_resources :: "nat \<Rightarrow> session \<Rightarrow> nat \<times> session" where
  "close_connection_resources c s =
     (case map_of (se_closures s) c of
        Some cl \<Rightarrow> if cl_pending cl then (cl_operation cl, s) else start_closing c s
      | None \<Rightarrow> start_closing c s)"

fun close_connections :: "nat list \<Rightarrow> session \<Rightarrow> nat list \<times> session" where
  "close_connections [] s = ([], s)"
| "close_connections (c # cs) s =
     (let (op, s1) = close_connection_resources c s; (ops, s2) = close_connections cs s1 in
      (op # ops, s2))"

lemma close_connections_snd:
  "snd (close_connections (c # cs) s) =
     snd (close_connections cs (snd (close_connection_resources c s)))"
  by (simp add: Let_def split: prod.splits)

definition tracked_connections :: "nat option \<Rightarrow> session \<Rightarrow> nat list" where
  "tracked_connections connection s =
     (let cs = map fst (se_closures s) in
      case connection of
        None \<Rightarrow> cs
      | Some c \<Rightarrow> if c \<in> set cs then cs else cs @ [c])"

definition close_tracked_connections :: "nat option \<Rightarrow> session \<Rightarrow> nat list \<times> session" where
  "close_tracked_connections connection s = close_connections (tracked_connections connection s) s"

text \<open>A consumption stop that a closed connection covers is done once both have been seen.\<close>

definition forget_stop :: "session \<Rightarrow> session" where
  "forget_stop s = s\<lparr>se_stop := None, se_stop_connection := None\<rparr>"

text \<open>The adapter's \<open>close()\<close> of a tracked connection settles: the rest of \<open>finishConnectionClose\<close>.\<close>

definition closing_settled :: "nat \<Rightarrow> nat \<Rightarrow> unit settlement \<Rightarrow> session \<Rightarrow> session" where
  "closing_settled op c outcome s =
     (case outcome of
        Fulfilled _ \<Rightarrow>
          (let s1 = s\<lparr>se_closed := insert c (se_closed s)\<rparr>;
               s2 = (if se_stop_covered s1 \<and> se_stop_connection s1 = Some c \<and> se_stop_settled s1
                     then forget_stop s1 else s1) in
           finish op (Fulfilled ())
             (s2\<lparr>se_closures :=
                filter (\<lambda>(d, cl). \<not> (d = c \<and> cl_operation cl = op)) (se_closures s2)\<rparr>))
      | Rejected e \<Rightarrow>
          finish op (Rejected e)
            (s\<lparr>se_closures :=
               map (\<lambda>(d, cl). (d, if d = c \<and> cl_operation cl = op then cl\<lparr>cl_pending := False\<rparr> else cl))
                 (se_closures s)\<rparr>))"

section \<open>Stopping a consumption\<close>

text \<open>\<open>closeConsumptionStream\<close>: the stream is closed once, and its promise shared.\<close>

definition close_consumption_stream :: "nat \<Rightarrow> session \<Rightarrow> session" where
  "close_consumption_stream k s =
     (case consumption_of s k of
        None \<Rightarrow> s
      | Some c \<Rightarrow>
          (case cs_close c of
             Some _ \<Rightarrow> s
           | None \<Rightarrow>
               emit (Closing_Stream k)
                 (update_consumption k (\<lambda>c. c\<lparr>cs_close := Some (se_next s)\<rparr>)
                   (s\<lparr>se_next := Suc (se_next s)\<rparr>))))"

definition clear_empty_timer :: "nat \<Rightarrow> session \<Rightarrow> session" where
  "clear_empty_timer k s = update_consumption k (\<lambda>c. c\<lparr>cs_timer := False\<rparr>) s"

definition track_consumption_stop :: "nat \<Rightarrow> nat option \<Rightarrow> bool \<Rightarrow> session \<Rightarrow> session" where
  "track_consumption_stop op connection covered s =
     s\<lparr>se_stop := Some op, se_stop_covered := covered, se_stop_connection := connection,
       se_stop_settled := False\<rparr>"

text \<open>The callback \<open>trackConsumptionStop\<close> attaches, once the tracked operation is settled.\<close>

definition observe_stop :: "session \<Rightarrow> session option" where
  "observe_stop s =
     (case se_stop s of
        None \<Rightarrow> None
      | Some op \<Rightarrow>
          (case settlement_of s op of
             None \<Rightarrow> None
           | Some outcome \<Rightarrow>
               if se_stop_settled s then None
               else
                 let s1 = s\<lparr>se_stop_settled := True\<rparr> in
                 Some (if outcome = Fulfilled () \<or>
                          se_stop_covered s1 \<and>
                          (case se_stop_connection s1 of None \<Rightarrow> False | Some c \<Rightarrow> c \<in> se_closed s1)
                       then forget_stop s1 else s1)))"

definition opening_started :: "session \<Rightarrow> nat option \<Rightarrow> bool" where
  "opening_started s pending =
     (case Option.bind pending (consumption_of s) of
        None \<Rightarrow> False
      | Some c \<Rightarrow> cs_opening_started c)"

definition connection_of :: "session \<Rightarrow> nat option \<Rightarrow> nat option" where
  "connection_of s k = map_option cs_connection (Option.bind k (consumption_of s))"

definition halt :: "nat option \<Rightarrow> session \<Rightarrow> session" where
  "halt k s = s\<lparr>se_halted := se_halted s \<union> set_option k\<rparr>"

text \<open>\<open>stopConsumption\<close>: the promise it hands out, and the state.\<close>

definition stop_consumption :: "session \<Rightarrow> nat option \<times> session" where
  "stop_consumption s =
     (let consumption = se_consumption s; pending = se_pending s; previous = se_stop s;
          s1 = halt pending (s\<lparr>se_consumption := None, se_pending := None,
                 se_consumption_generation := Suc (se_consumption_generation s)\<rparr>) in
      if consumption = None \<and> pending = None then (previous, s1)
      else
        let s2 = halt consumption s1;
            s3 = (case consumption of
                    None \<Rightarrow> s2
                  | Some k \<Rightarrow> close_consumption_stream k (clear_empty_timer k s2));
            op = se_next s3;
            s4 = suspend op (Stopping consumption pending previous) (s3\<lparr>se_next := Suc op\<rparr>);
            connection = (case connection_of s4 consumption of
                            Some c \<Rightarrow> Some c
                          | None \<Rightarrow> (case connection_of s4 pending of
                                       Some c \<Rightarrow> Some c
                                     | None \<Rightarrow> se_stop_connection s4)) in
        (Some op,
         track_consumption_stop op connection
           ((previous = None \<or> se_stop_covered s4) \<and> \<not> opening_started s4 pending) s4))"

text \<open>
  \<open>completeConsumptionStop\<close> once everything it waits for is settled. How the observer takes a report
  is the report's outcome.
\<close>

datatype notice = Nothing_To_Report | Accepted | Throws reason | Unreadable reason

definition stop_operands :: "session \<Rightarrow> nat option \<Rightarrow> nat list" where
  "stop_operands s consumption =
     (case Option.bind consumption (consumption_of s) of
        None \<Rightarrow> []
      | Some c \<Rightarrow> the (cs_close c) # [cs_pump c])"

fun stop_failure :: "unit settlement \<Rightarrow> reason list" where
  "stop_failure (Fulfilled _) = []"
| "stop_failure (Rejected (Superseded None)) = []"
| "stop_failure (Rejected (Superseded (Some c))) = [c]"
| "stop_failure (Rejected e) = [e]"

definition stop_failures :: "session \<Rightarrow> nat option \<Rightarrow> nat option \<Rightarrow> nat option \<Rightarrow> reason list" where
  "stop_failures s consumption pending previous =
     concat (map stop_failure (outcomes s (case_option [] (\<lambda>p. [p]) previous))) @
     (if opening_started s pending
      then concat (map stop_failure (outcomes s (case_option [] (\<lambda>k. [k]) pending))) else []) @
     concat (map stop_failure (outcomes s (stop_operands s consumption)))"

definition report_checkpoint :: "nat \<Rightarrow> notice \<Rightarrow> session \<Rightarrow> reason option \<times> session" where
  "report_checkpoint k n s =
     (case n of
        Nothing_To_Report \<Rightarrow> (None, s)
      | Accepted \<Rightarrow> (None, emit (Notified k On_Checkpoint) s)
      | Throws e \<Rightarrow> (Some e, emit (Notified k On_Checkpoint) s)
      | Unreadable e \<Rightarrow> (Some e, s))"

definition finish_with_checkpoint :: "nat \<Rightarrow> nat \<Rightarrow> notice \<Rightarrow> session \<Rightarrow> session" where
  "finish_with_checkpoint op k n s =
     (case report_checkpoint k n s of
        (None, s1) \<Rightarrow> finish op (Fulfilled ()) s1
      | (Some e, s1) \<Rightarrow> finish op (Rejected e) s1)"

definition stop_done :: "nat \<Rightarrow> notice \<Rightarrow> session \<Rightarrow> session option" where
  "stop_done op n s =
     (case task_of s op of
        Some (Stopping consumption pending previous) \<Rightarrow>
          (if all_settled s (case_option [] (\<lambda>p. [p]) previous @ case_option [] (\<lambda>k. [k]) pending @
                             stop_operands s consumption)
           then
             (case stop_failures s consumption pending previous of
                [] \<Rightarrow>
                  (case consumption of
                     None \<Rightarrow> Some (finish op (Fulfilled ()) s)
                   | Some k \<Rightarrow> Some (finish_with_checkpoint op k n s))
              | [e] \<Rightarrow> Some (finish op (Rejected e) s)
              | es \<Rightarrow> Some (finish op (Rejected
                  (Aggregate_Error es ''Kafka message streams did not close cleanly.'')) s))
           else None)
      | _ \<Rightarrow> None)"

section \<open>Connecting\<close>

definition combine_failures :: "js_string \<Rightarrow> reason list \<Rightarrow> reason option" where
  "combine_failures text es =
     (case es of [] \<Rightarrow> None | [e] \<Rightarrow> Some e | _ \<Rightarrow> Some (Aggregate_Error es text))"

abbreviation replaced_text :: js_string where
  "replaced_text \<equiv> ''The replaced Kafka resources did not close cleanly.''"

text \<open>The catch of \<open>establishConnection\<close>: only the current attempt publishes its failure.\<close>

definition establish_fail :: "nat \<Rightarrow> attempt \<Rightarrow> reason \<Rightarrow> session \<Rightarrow> session" where
  "establish_fail p a e s =
     (if \<not> is_current p a s
      then finish p (Rejected (case e of Superseded c \<Rightarrow> Superseded c | _ \<Rightarrow> Superseded None)) s
      else finish p (Rejected e)
             (publish \<lparr>sn_name = Some (at_name a), sn_state = Failed, sn_failure = Some e\<rparr> s))"

definition establish_open :: "nat \<Rightarrow> attempt \<Rightarrow> session \<Rightarrow> session" where
  "establish_open p a s =
     (if \<not> is_current p a s then establish_fail p a (Superseded None) s
      else if signal_aborted (at_external a) s then establish_fail p a Signal_Aborted s
      else suspend p (Establish_Open a) (emit (Opening_Connection p) (take_task p s)))"

definition establish_start ::
  "nat \<Rightarrow> attempt \<Rightarrow> nat option \<Rightarrow> nat option \<Rightarrow> nat list \<Rightarrow> session \<Rightarrow> session" where
  "establish_start p a previous stop latency s =
     (if previous = None \<and> latency = [] \<and> se_closures s = [] then
        (if stop = None then establish_open p a s
         else suspend p (Establish_Clean a stop [] []) s)
      else
        let (closes, s1) = close_tracked_connections previous s in
        suspend p (Establish_Clean a stop closes latency) s1)"

text \<open>The cleanup before opening ends: everything is settled, or its deadline passes.\<close>

definition establish_failure ::
  "session \<Rightarrow> nat option \<Rightarrow> bool \<Rightarrow> nat list \<Rightarrow> nat list \<Rightarrow> reason option" where
  "establish_failure s stop late closes latency =
     combine_failures replaced_text
       (rejections (stop_outcome s stop late) @
        (case combine_failures replaced_text
                (rejections (outcomes s closes) @ cleanup_failures (outcomes s latency)) of
           None \<Rightarrow> [] | Some e \<Rightarrow> [e]))"

definition establish_cleaned :: "nat \<Rightarrow> bool \<Rightarrow> bool \<Rightarrow> session \<Rightarrow> session option" where
  "establish_cleaned p deadline late s =
     (case task_of s p of
        Some (Establish_Clean a stop closes latency) \<Rightarrow>
          (if deadline then Some (establish_fail p a (Cleanup_Timeout Connection_Cleanup) s)
           else if all_settled s (closes @ latency) \<and> stop_waited s stop late then
             (case establish_failure s stop late closes latency of
                Some e \<Rightarrow> Some (establish_fail p a e s)
              | None \<Rightarrow> Some (establish_open p a s))
           else None)
      | _ \<Rightarrow> None)"

text \<open>The port opened a connection, or did not.\<close>

definition establish_opened :: "nat \<Rightarrow> session \<Rightarrow> session option" where
  "establish_opened p s =
     (case task_of s p of
        Some (Establish_Open a) \<Rightarrow>
          (let c = se_next s;
               s1 = take_task p (emit (Opened_Connection c) (s\<lparr>se_next := Suc c\<rparr>)) in
           Some (if \<not> is_current p a s1 then
                   suspend p (Establish_Supersede a c) (emit (Closing_Connection c) s1)
                 else if signal_aborted (at_external a) s1 then
                   suspend p (Establish_Cancel a c) (emit (Closing_Connection c) s1)
                 else suspend p (Establish_Install a c) s1))
      | _ \<Rightarrow> None)"

definition establish_open_failed :: "nat \<Rightarrow> reason \<Rightarrow> session \<Rightarrow> session option" where
  "establish_open_failed p e s =
     (case task_of s p of
        Some (Establish_Open a) \<Rightarrow> Some (establish_fail p a e s)
      | _ \<Rightarrow> None)"

text \<open>The continuation of the last await, which nothing checks again.\<close>

definition establish_installed :: "nat \<Rightarrow> session \<Rightarrow> session option" where
  "establish_installed p s =
     (case task_of s p of
        Some (Establish_Install a c) \<Rightarrow>
          Some (finish p (Fulfilled ())
                 (publish \<lparr>sn_name = Some (at_name a), sn_state = Connected, sn_failure = None\<rparr>
                   (s\<lparr>se_active := Some c, se_brokers := Some (at_brokers a)\<rparr>)))
      | _ \<Rightarrow> None)"

text \<open>\<open>clearConnectionAttempt\<close>, once the attempt is over.\<close>

definition clear_attempt :: "nat \<Rightarrow> session \<Rightarrow> session option" where
  "clear_attempt p s =
     (if task_of s p = None \<and> settlement_of s p \<noteq> None then
        Some (s\<lparr>se_attempt := (if se_attempt s = Some p then None else se_attempt s),
                se_controller := (if se_controller s = Some p then None else se_controller s)\<rparr>)
      else None)"

definition stop_if_consuming :: "session \<Rightarrow> nat option \<times> session" where
  "stop_if_consuming s =
     (if se_consumption s \<noteq> None \<or> se_pending s \<noteq> None \<or> se_stop s \<noteq> None
      then stop_consumption s else (None, s))"

definition abort_attempt :: "session \<Rightarrow> session" where
  "abort_attempt s = s\<lparr>se_aborted := se_aborted s \<union> set_option (se_controller s)\<rparr>"

definition drop_connection :: "session \<Rightarrow> session" where
  "drop_connection s = s\<lparr>se_active := None, se_brokers := None\<rparr>"

definition cancel_requests :: "(requests \<Rightarrow> nat list \<times> requests) \<Rightarrow> session \<Rightarrow> nat list \<times> session" where
  "cancel_requests f s =
     (let (ops, requests) = f (se_requests s) in (ops, s\<lparr>se_requests := requests\<rparr>))"

definition connect :: "js_string \<Rightarrow> js_string list \<Rightarrow> nat option \<Rightarrow> session \<Rightarrow> reason option \<times> session" where
  "connect name brokers external s =
     (if se_shutting s then (Some Session_Shut_Down, s)
      else if signal_aborted external s then (Some Signal_Aborted, s)
      else
        let (stop, s1) = stop_if_consuming s;
            generation = Suc (se_generation s1);
            (latency, s2) = cancel_requests cancel_for_reconnect (s1\<lparr>se_generation := generation\<rparr>);
            s3 = abort_attempt s2;
            p = se_next s3;
            previous = se_active s3;
            a = \<lparr>at_name = name, at_brokers = brokers, at_generation = generation,
                 at_external = external\<rparr>;
            s4 = publish \<lparr>sn_name = Some name, sn_state = Connecting, sn_failure = None\<rparr>
                   (drop_connection (s3\<lparr>se_next := Suc p, se_controller := Some p\<rparr>));
            s5 = establish_start p a previous stop latency s4 in
        (None, s5\<lparr>se_attempt := Some p\<rparr>))"

section \<open>Disconnecting and shutting down\<close>

definition abandon :: "session \<Rightarrow> session" where
  "abandon s = (abort_attempt s)\<lparr>se_controller := None\<rparr>"

definition disconnect :: "session \<Rightarrow> nat option \<times> session" where
  "disconnect s =
     (if se_shutting s then (se_shutdown s, s)
      else
        let (stop, s1) = stop_if_consuming s;
            generation = Suc (se_generation s1);
            (topics, s2) = cancel_requests (cancel_class Topics) (s1\<lparr>se_generation := generation\<rparr>);
            (administrative, s3) = cancel_requests cancel_administrative_requests s2;
            (latency, s4) = cancel_requests (cancel_class Latencies) s3;
            s5 = abandon s4;
            attempt = se_attempt s5;
            active = se_active s5;
            name = sn_name (se_snapshot s5);
            s6 = publish \<lparr>sn_name = name, sn_state = Disconnecting, sn_failure = None\<rparr>
                   (drop_connection s5);
            (closes, s7) = close_tracked_connections active s6;
            d = se_next s7 in
        (Some d,
         suspend d (Cleaning_Up Connection_Cleanup generation name closes attempt stop
                     (topics @ administrative @ latency))
           (s7\<lparr>se_next := Suc d\<rparr>)))"

definition shutdown :: "session \<Rightarrow> nat option \<times> session" where
  "shutdown s =
     (case se_shutdown s of
        Some d \<Rightarrow> (Some d, s)
      | None \<Rightarrow>
        let (stop, s1) = stop_if_consuming s;
            generation = Suc (se_generation s1);
            (topics, s2) = cancel_requests (cancel_class Topics)
                             (s1\<lparr>se_shutting := True, se_generation := generation\<rparr>);
            (administrative, s3) = cancel_requests cancel_administrative_requests s2;
            (latency, s4) = cancel_requests (cancel_class Latencies) s3;
            s5 = abandon s4;
            (tests, s6) = cancel_requests (cancel_class Temporary_Tests) s5;
            attempt = se_attempt s6;
            active = se_active s6;
            s7 = publish \<lparr>sn_name = sn_name (se_snapshot s6), sn_state = Disconnecting,
                          sn_failure = None\<rparr>
                   (drop_connection s6);
            (closes, s8) = close_tracked_connections active s7;
            d = se_next s8 in
        (Some d,
         suspend d (Cleaning_Up Shutdown_Cleanup generation None closes attempt stop
                     (topics @ administrative @ latency @ tests))
           (s8\<lparr>se_next := Suc d, se_shutdown := Some d\<rparr>)))"

text \<open>
  The rest of \<open>completeDisconnect\<close> and \<open>completeShutdown\<close>. A failed disconnect names the connection it
  had, a failed shutdown the one the snapshot names at the end.
\<close>

definition cleanup_error :: "cleanup_kind \<Rightarrow> reason list \<Rightarrow> reason" where
  "cleanup_error kind es =
     (case es of
        [Cleanup_Timeout k] \<Rightarrow> Cleanup_Timeout k
      | _ \<Rightarrow> Aggregate_Error es
               (if kind = Shutdown_Cleanup
                then ''Kafka resources did not close cleanly during shutdown.''
                else ''The Kafka connection did not close cleanly.''))"

definition cleaning_failures ::
  "cleanup_kind \<Rightarrow> bool \<Rightarrow> bool \<Rightarrow> nat list \<Rightarrow> nat option \<Rightarrow> nat option \<Rightarrow> nat list \<Rightarrow> session
     \<Rightarrow> reason list" where
  "cleaning_failures kind deadline late closes attempt stop others s =
     (if deadline then [Cleanup_Timeout kind]
      else
        rejections (outcomes s closes) @ rejections (stop_outcome s stop late) @
        cleanup_failures (outcomes s closes @ outcomes s (case_option [] (\<lambda>p. [p]) attempt) @
                          stop_outcome s stop late @ outcomes s others))"

definition cleanup_done :: "nat \<Rightarrow> bool \<Rightarrow> bool \<Rightarrow> session \<Rightarrow> session option" where
  "cleanup_done d deadline late s =
     (case task_of s d of
        Some (Cleaning_Up kind generation name closes attempt stop others) \<Rightarrow>
          (if deadline \<or>
              all_settled s (closes @ case_option [] (\<lambda>p. [p]) attempt @ others) \<and>
              stop_waited s stop late
           then
             let failures = cleaning_failures kind deadline late closes attempt stop others s;
                 old = (if kind = Shutdown_Cleanup then sn_name (se_snapshot s) else name);
                 s1 = (if generation \<noteq> se_generation s then s
                       else publish (case failures of
                           [] \<Rightarrow> \<lparr>sn_name = None, sn_state = Disconnected, sn_failure = None\<rparr>
                         | e # _ \<Rightarrow> \<lparr>sn_name = old, sn_state = Failed, sn_failure = Some e\<rparr>) s) in
             Some (finish d (if failures = [] then Fulfilled ()
                             else Rejected (cleanup_error kind failures)) s1)
           else None)
      | _ \<Rightarrow> None)"

section \<open>Consuming\<close>

definition start_consumption :: "bool \<Rightarrow> nat option \<Rightarrow> session \<Rightarrow> reason option \<times> session" where
  "start_consumption tail external s =
     (if se_shutting s then (Some Session_Shut_Down, s)
      else if signal_aborted external s then (Some Signal_Aborted, s)
      else
        let (stop, s1) = stop_consumption s in
        case se_active s1 of
          None \<Rightarrow> (Some (No_Active_Connection ''consuming messages''), s1)
        | Some c \<Rightarrow>
            if sn_state (se_snapshot s1) \<noteq> Connected
            then (Some (No_Active_Connection ''consuming messages''), s1)
            else
              let k = se_next s1;
                  consumption =
                    \<lparr>cs_connection = c, cs_connection_generation = se_generation s1,
                     cs_generation = se_consumption_generation s1, cs_external = external,
                     cs_tail = tail, cs_opening_started = False, cs_received = False,
                     cs_timer = False, cs_close = None, cs_pump = 0, cs_receiving = False,
                     cs_watch = False, cs_failure = None, cs_cleanup_failure = None,
                     cs_completed = False\<rparr> in
              (None, suspend k (Opening_Wait stop)
                 (s1\<lparr>se_next := Suc k, se_pending := Some k,
                     se_consumptions := se_consumptions s1 @ [(k, consumption)]\<rparr>)))"

text \<open>\<open>openConsumption\<close> after the wait for the previous stop.\<close>

definition consumption_waited :: "nat \<Rightarrow> bool \<Rightarrow> session \<Rightarrow> session option" where
  "consumption_waited k late s =
     (case task_of s k of
        Some (Opening_Wait stop) \<Rightarrow>
          (if \<not> stop_waited s stop late then None
           else
             case rejections (stop_outcome s stop late) of
               e # _ \<Rightarrow> Some (finish k (Rejected e) s)
             | [] \<Rightarrow>
                 if \<not> is_current_pending k s then Some (finish k (Rejected (Superseded None)) s)
                 else Some (suspend k Stream_Opening (emit (Opening_Stream k)
                        (update_consumption k (\<lambda>c. c\<lparr>cs_opening_started := True\<rparr>) (take_task k s)))))
      | _ \<Rightarrow> None)"

definition stream_failed :: "nat \<Rightarrow> reason \<Rightarrow> session \<Rightarrow> session option" where
  "stream_failed k e s =
     (case task_of s k of
        Some Stream_Opening \<Rightarrow>
          Some (finish k (Rejected (if is_current_pending k s then e
                                    else Superseded (owned_cleanup_failure e))) s)
      | _ \<Rightarrow> None)"

definition stream_abandoned :: "nat \<Rightarrow> unit settlement \<Rightarrow> session \<Rightarrow> session option" where
  "stream_abandoned k outcome s =
     (case task_of s k of
        Some Stream_Abandoning \<Rightarrow>
          Some (finish k (Rejected (case outcome of
                  Fulfilled _ \<Rightarrow> Superseded None | Rejected e \<Rightarrow> Superseded (Some e))) s)
      | _ \<Rightarrow> None)"

subsection \<open>The pump\<close>

definition consumption_failed :: "reason \<Rightarrow> session_consumption \<Rightarrow> session_consumption" where
  "consumption_failed e c =
     c\<lparr>cs_failure := (case cs_failure c of None \<Rightarrow> Some e | Some old \<Rightarrow> Some old)\<rparr>"

definition has_failed :: "session \<Rightarrow> nat \<Rightarrow> bool" where
  "has_failed s k = (case consumption_of s k of None \<Rightarrow> False | Some c \<Rightarrow> cs_failure c \<noteq> None)"

text \<open>The start of its finally: the coverage listener is removed, which may throw.\<close>

definition pump_finally :: "nat \<Rightarrow> nat \<Rightarrow> reason option \<Rightarrow> session \<Rightarrow> session" where
  "pump_finally q k unsubscribe s =
     (let s1 = update_consumption k
                 (\<lambda>c. (case unsubscribe of None \<Rightarrow> (\<lambda>c. c) | Some e \<Rightarrow> consumption_failed e)
                        (c\<lparr>cs_receiving := False\<rparr>)) s in
      suspend q (Pump_Closing k) (close_consumption_stream k (clear_empty_timer k s1)))"

definition pump_caught :: "nat \<Rightarrow> nat \<Rightarrow> reason \<Rightarrow> reason option \<Rightarrow> session \<Rightarrow> session" where
  "pump_caught q k e unsubscribe s =
     pump_finally q k unsubscribe
       (if is_current_consumption k s then update_consumption k (consumption_failed e) s else s)"

text \<open>What follows the loop: a tail that ends has failed.\<close>

definition pump_loop_ended :: "nat \<Rightarrow> nat \<Rightarrow> reason option \<Rightarrow> session \<Rightarrow> session" where
  "pump_loop_ended q k unsubscribe s =
     pump_finally q k unsubscribe
       (if is_current_consumption k s
        then update_consumption k
               (\<lambda>c. if cs_tail c then c\<lparr>cs_failure := Some Stream_Ended\<rparr> else c\<lparr>cs_completed := True\<rparr>) s
        else s)"

text \<open>The stream is open: the consumption becomes active and its pump starts, or it is closed.\<close>

datatype subscription = No_Subscription | Subscribed | Subscription_Throws reason

definition pump_start :: "nat \<Rightarrow> nat \<Rightarrow> bool \<Rightarrow> subscription \<Rightarrow> session \<Rightarrow> session" where
  "pump_start q k tail sub s =
     (if tail then suspend q (Pumping k) s
      else case sub of
        No_Subscription \<Rightarrow> suspend q (Pumping k) s
      | Subscribed \<Rightarrow>
          suspend q (Pumping k) (update_consumption k (\<lambda>c. c\<lparr>cs_receiving := True\<rparr>) s)
      | Subscription_Throws e \<Rightarrow> pump_caught q k e None s)"

definition stream_opened :: "nat \<Rightarrow> subscription \<Rightarrow> session \<Rightarrow> session option" where
  "stream_opened k sub s =
     (case (task_of s k, consumption_of s k) of
        (Some Stream_Opening, Some c) \<Rightarrow>
          (let s1 = emit (Opened_Stream k) s in
           Some (if \<not> is_current_pending k s1 then
                   suspend k Stream_Abandoning (emit (Closing_Stream k) (take_task k s1))
                 else
                   let q = se_next s1;
                       s2 = update_consumption k (\<lambda>c. c\<lparr>cs_timer := cs_tail c, cs_pump := q\<rparr>)
                              (s1\<lparr>se_next := Suc q, se_pending := None, se_consumption := Some k\<rparr>) in
                   pump_start q k (cs_tail c) sub (finish k (Fulfilled ()) s2)))
      | _ \<Rightarrow> None)"

text \<open>
  What the iterator returned: a message, which the observer or the acknowledgement may refuse, its end
  or an error. Leaving the loop early waits for the iterator's \<open>return\<close>.
\<close>

datatype next_result = Next_Message nat "reason option" | Next_End | Next_Error reason

definition stream_next :: "nat \<Rightarrow> next_result \<Rightarrow> reason option \<Rightarrow> session \<Rightarrow> session option" where
  "stream_next q result unsubscribe s =
     (case task_of s q of
        Some (Pumping k) \<Rightarrow>
          (case result of
             Next_End \<Rightarrow> Some (pump_loop_ended q k unsubscribe (take_task q s))
           | Next_Error e \<Rightarrow> Some (pump_caught q k e unsubscribe (take_task q s))
           | Next_Message m throws \<Rightarrow>
               if \<not> is_current_consumption k s \<or> has_failed s k
               then Some (suspend q (Leaving k None) (take_task q s))
               else
                 let s1 = emit (Notified k (On_Message m))
                            (clear_empty_timer k (update_consumption k (\<lambda>c. c\<lparr>cs_received := True\<rparr>) s)) in
                 Some (case throws of
                         None \<Rightarrow> s1
                       | Some e \<Rightarrow> suspend q (Leaving k (Some e)) (take_task q s1)))
      | _ \<Rightarrow> None)"

definition loop_left :: "nat \<Rightarrow> reason option \<Rightarrow> reason option \<Rightarrow> session \<Rightarrow> session option" where
  "loop_left q return_error unsubscribe s =
     (case task_of s q of
        Some (Leaving k (Some e)) \<Rightarrow> Some (pump_caught q k e unsubscribe (take_task q s))
      | Some (Leaving k None) \<Rightarrow>
          Some (case return_error of
                  None \<Rightarrow> pump_loop_ended q k unsubscribe (take_task q s)
                | Some e \<Rightarrow> pump_caught q k e unsubscribe (take_task q s))
      | _ \<Rightarrow> None)"

text \<open>Coverage from the stream, at any time while its listener is subscribed.\<close>

definition coverage_received :: "nat \<Rightarrow> reason option \<Rightarrow> session \<Rightarrow> session option" where
  "coverage_received k throws s =
     (case consumption_of s k of
        None \<Rightarrow> None
      | Some c \<Rightarrow>
          Some (if \<not> cs_receiving c \<or> \<not> is_current_consumption k s \<or> cs_failure c \<noteq> None then s
                else
                  let s1 = emit (Notified k On_Coverage) s in
                  case throws of
                    None \<Rightarrow> s1
                  | Some e \<Rightarrow>
                      close_consumption_stream k
                        (update_consumption k
                          (\<lambda>c. (consumption_failed e c)\<lparr>cs_receiving := False, cs_watch := True\<rparr>) s1)))"

definition coverage_close_failed :: "nat \<Rightarrow> session \<Rightarrow> session option" where
  "coverage_close_failed k s =
     (case consumption_of s k of
        None \<Rightarrow> None
      | Some c \<Rightarrow>
          (case Option.bind (cs_close c) (settlement_of s) of
             Some (Rejected _) \<Rightarrow>
               if \<not> cs_watch c then None
               else
                 let s1 = update_consumption k (\<lambda>c. c\<lparr>cs_watch := False\<rparr>) s in
                 Some (if is_current_consumption k s1
                       then track_consumption_stop (the (cs_close c)) (Some (cs_connection c)) True s1
                       else s1)
           | _ \<Rightarrow> None))"

definition empty_elapsed :: "nat \<Rightarrow> session \<Rightarrow> session option" where
  "empty_elapsed k s =
     (case consumption_of s k of
        None \<Rightarrow> None
      | Some c \<Rightarrow>
          if \<not> cs_timer c then None
          else
            let s1 = clear_empty_timer k s in
            Some (if is_current_consumption k s1 \<and> \<not> cs_received c
                  then emit (Notified k On_Empty) s1 else s1))"

text \<open>
  The stream has closed. What a current consumption's observer makes of the last coverage, the
  checkpoint and the outcome is the observer's behaviour.
\<close>

record observer_behaviour =
  ob_coverage :: notice
  ob_checkpoint :: notice
  ob_complete :: "reason option"
  ob_failure :: "reason option"

definition report_coverage :: "nat \<Rightarrow> notice \<Rightarrow> session \<Rightarrow> reason option \<times> session" where
  "report_coverage k n s =
     (case n of
        Nothing_To_Report \<Rightarrow> (None, s)
      | Accepted \<Rightarrow> (None, emit (Notified k On_Coverage) s)
      | Throws e \<Rightarrow> (Some e, emit (Notified k On_Coverage) s)
      | Unreadable e \<Rightarrow> (Some e, s))"

definition final_reports :: "nat \<Rightarrow> observer_behaviour \<Rightarrow> session \<Rightarrow> session" where
  "final_reports k b s =
     (case report_coverage k (ob_coverage b) s of
        (Some e, s1) \<Rightarrow> update_consumption k (consumption_failed e) s1
      | (None, s1) \<Rightarrow>
          (case report_checkpoint k (ob_checkpoint b) s1 of
             (Some e, s2) \<Rightarrow> update_consumption k (consumption_failed e) s2
           | (None, s2) \<Rightarrow> s2))"

definition final_completion :: "nat \<Rightarrow> observer_behaviour \<Rightarrow> session \<Rightarrow> session" where
  "final_completion k b s =
     (case consumption_of s k of
        None \<Rightarrow> s
      | Some c \<Rightarrow>
          if cs_failure c = None \<and> cs_completed c then
            let s1 = emit (Notified k On_Complete) s in
            case ob_complete b of
              None \<Rightarrow> s1
            | Some e \<Rightarrow> update_consumption k (consumption_failed e) s1
          else s)"

definition final_failure :: "nat \<Rightarrow> observer_behaviour \<Rightarrow> session \<Rightarrow> session" where
  "final_failure k b s =
     (case consumption_of s k of
        None \<Rightarrow> s
      | Some c \<Rightarrow>
          (case cs_failure c of
             None \<Rightarrow> s
           | Some e \<Rightarrow>
               let s1 = emit (Notified k (On_Failure e)) s in
               (case ob_failure b of
                  None \<Rightarrow> s1
                | Some e2 \<Rightarrow>
                    let d = se_next s1;
                        delivery = Rejected (Aggregate_Error
                          (e # (case cs_cleanup_failure c of None \<Rightarrow> [] | Some f \<Rightarrow> [f]) @ [e2])
                          ''Kafka consumption failed and its failure observer also failed.'') in
                    track_consumption_stop d (Some (cs_connection c)) True
                      (settle_promise d delivery (s1\<lparr>se_next := Suc d\<rparr>)))))"

definition close_failed :: "nat \<Rightarrow> session_consumption \<Rightarrow> reason \<Rightarrow> session \<Rightarrow> session" where
  "close_failed k c e s =
     track_consumption_stop (the (cs_close c)) (Some (cs_connection c)) True
       (update_consumption k (\<lambda>c. consumption_failed e (c\<lparr>cs_cleanup_failure := Some e\<rparr>)) s)"

definition pump_closed :: "nat \<Rightarrow> observer_behaviour \<Rightarrow> session \<Rightarrow> session option" where
  "pump_closed q b s =
     (case task_of s q of
        Some (Pump_Closing k) \<Rightarrow>
          (case consumption_of s k of
             None \<Rightarrow> None
           | Some c \<Rightarrow>
               (case Option.bind (cs_close c) (settlement_of s) of
                  None \<Rightarrow> None
                | Some outcome \<Rightarrow>
                    Some (finish q (Fulfilled ())
                      (if \<not> is_current_consumption k s then s
                       else
                         let s1 = (case outcome of
                                     Fulfilled _ \<Rightarrow> s | Rejected e \<Rightarrow> close_failed k c e s);
                             s2 = (if has_failed s1 k then s1 else final_reports k b s1) in
                         final_failure k b
                           (final_completion k b (s2\<lparr>se_consumption := None\<rparr>))))))
      | _ \<Rightarrow> None)"

text \<open>The finally of \<open>startConsumption\<close>.\<close>

definition clear_pending :: "nat \<Rightarrow> session \<Rightarrow> session option" where
  "clear_pending k s =
     (if settlement_of s k = None then None
      else Some (s\<lparr>se_pending := (if se_pending s = Some k then None else se_pending s)\<rparr>))"

section \<open>Requests\<close>

definition start_session_request :: "request_call \<Rightarrow> bool \<Rightarrow> session \<Rightarrow> reason option \<times> session" where
  "start_session_request call supported s =
     (let op = se_next s;
          (refusal, requests) = start_request call supported (session_context s) op (se_requests s) in
      (refusal, s\<lparr>se_next := Suc op, se_requests := requests\<rparr>))"

definition request_settled :: "nat \<Rightarrow> nat settlement \<Rightarrow> session \<Rightarrow> session option" where
  "request_settled op outcome s =
     (case settle_request op outcome (session_context s) (se_requests s) of
        None \<Rightarrow> None
      | Some (result, requests) \<Rightarrow>
          Some (settle_promise op (case result of Fulfilled _ \<Rightarrow> Fulfilled () | Rejected e \<Rightarrow> Rejected e)
                  (s\<lparr>se_requests := requests\<rparr>)))"

section \<open>Steps and runs\<close>

datatype session_event =
  Connect js_string "js_string list" "nat option"
| Disconnect
| Shutdown
| Start bool "nat option"
| Stop
| Request request_call bool
| Abort_External nat
| Cleaned nat bool bool
| Opened nat
| Open_Failed nat reason
| Abandoned_Closed nat "unit settlement"
| Installed nat
| Attempt_Over nat
| Connection_Closed nat "unit settlement"
| Cleanup_Done nat bool bool
| Stop_Done nat notice
| Stop_Observed
| Stop_Waited nat bool
| Stream_Failed nat reason
| Stream_Opened nat subscription
| Stream_Abandoned nat "unit settlement"
| Stream_Next nat next_result "reason option"
| Loop_Left nat "reason option" "reason option"
| Stream_Closed nat "unit settlement"
| Coverage_Received nat "reason option"
| Coverage_Close_Failed nat
| Empty_Elapsed nat
| Pump_Closed nat observer_behaviour
| Start_Over nat
| Request_Settled nat "nat settlement"

text \<open>The adapter's \<open>close()\<close> of a connection no attempt may install.\<close>

definition abandoned_closed :: "nat \<Rightarrow> unit settlement \<Rightarrow> session \<Rightarrow> session option" where
  "abandoned_closed p outcome s =
     (case task_of s p of
        Some (Establish_Supersede a c) \<Rightarrow>
          Some (establish_fail p a (Superseded (case outcome of Fulfilled _ \<Rightarrow> None | Rejected e \<Rightarrow> Some e)) s)
      | Some (Establish_Cancel a c) \<Rightarrow>
          Some (establish_fail p a
            (case outcome of
               Fulfilled _ \<Rightarrow> Signal_Aborted
             | Rejected e \<Rightarrow>
                 Aggregate_Error [Signal_Aborted, e] ''Cancelled connection cleanup failed.'') s)
      | _ \<Rightarrow> None)"

definition connection_closed :: "nat \<Rightarrow> unit settlement \<Rightarrow> session \<Rightarrow> session option" where
  "connection_closed op outcome s =
     (case task_of s op of
        Some (Closing c) \<Rightarrow> Some (closing_settled op c outcome s)
      | _ \<Rightarrow> None)"

definition stream_closed :: "nat \<Rightarrow> unit settlement \<Rightarrow> session \<Rightarrow> session option" where
  "stream_closed k outcome s =
     (case Option.bind (consumption_of s k) cs_close of
        None \<Rightarrow> None
      | Some p \<Rightarrow> if settlement_of s p = None then Some (settle_promise p outcome s) else None)"

fun session_step :: "session_event \<Rightarrow> session \<Rightarrow> session option" where
  "session_step (Connect name brokers external) s = Some (snd (connect name brokers external s))"
| "session_step Disconnect s = Some (snd (disconnect s))"
| "session_step Shutdown s = Some (snd (shutdown s))"
| "session_step (Start tail external) s = Some (snd (start_consumption tail external s))"
| "session_step Stop s = Some (snd (stop_consumption s))"
| "session_step (Request call supported) s = Some (snd (start_session_request call supported s))"
| "session_step (Abort_External e) s =
     Some (s\<lparr>se_external_aborted := insert e (se_external_aborted s)\<rparr>)"
| "session_step (Cleaned p deadline late) s = establish_cleaned p deadline late s"
| "session_step (Opened p) s = establish_opened p s"
| "session_step (Open_Failed p e) s = establish_open_failed p e s"
| "session_step (Abandoned_Closed p outcome) s = abandoned_closed p outcome s"
| "session_step (Installed p) s = establish_installed p s"
| "session_step (Attempt_Over p) s = clear_attempt p s"
| "session_step (Connection_Closed op outcome) s = connection_closed op outcome s"
| "session_step (Cleanup_Done d deadline late) s = cleanup_done d deadline late s"
| "session_step (Stop_Done op n) s = stop_done op n s"
| "session_step Stop_Observed s = observe_stop s"
| "session_step (Stop_Waited k late) s = consumption_waited k late s"
| "session_step (Stream_Failed k e) s = stream_failed k e s"
| "session_step (Stream_Opened k sub) s = stream_opened k sub s"
| "session_step (Stream_Abandoned k outcome) s = stream_abandoned k outcome s"
| "session_step (Stream_Next q result unsubscribe) s = stream_next q result unsubscribe s"
| "session_step (Loop_Left q return_error unsubscribe) s = loop_left q return_error unsubscribe s"
| "session_step (Stream_Closed k outcome) s = stream_closed k outcome s"
| "session_step (Coverage_Received k throws) s = coverage_received k throws s"
| "session_step (Coverage_Close_Failed k) s = coverage_close_failed k s"
| "session_step (Empty_Elapsed k) s = empty_elapsed k s"
| "session_step (Pump_Closed q b) s = pump_closed q b s"
| "session_step (Start_Over k) s = clear_pending k s"
| "session_step (Request_Settled op outcome) s = request_settled op outcome s"

fun session_run :: "session_event list \<Rightarrow> session \<Rightarrow> session option" where
  "session_run [] s = Some s"
| "session_run (e # es) s =
     (case session_step e s of None \<Rightarrow> None | Some s1 \<Rightarrow> session_run es s1)"

text \<open>
  An attempt is between its last check and its installation for one turn of the microtask queue. A run
  is calm when no call of the host lands there.
\<close>

fun is_install :: "task \<Rightarrow> bool" where
  "is_install (Establish_Install _ _) = True"
| "is_install _ = False"

definition installing :: "session \<Rightarrow> bool" where
  "installing s \<longleftrightarrow> (\<exists>(p, t) \<in> set (se_tasks s). is_install t)"

fun is_lifecycle :: "session_event \<Rightarrow> bool" where
  "is_lifecycle (Connect _ _ _) = True"
| "is_lifecycle Disconnect = True"
| "is_lifecycle Shutdown = True"
| "is_lifecycle _ = False"

fun calm_run :: "session_event list \<Rightarrow> session \<Rightarrow> bool" where
  "calm_run [] s = True"
| "calm_run (e # es) s =
     ((is_lifecycle e \<longrightarrow> \<not> installing s) \<and>
      (case session_step e s of None \<Rightarrow> True | Some s1 \<Rightarrow> calm_run es s1))"

text \<open>What evaluates a concrete run.\<close>

lemmas session_primitives = emit_def publish_def settle_promise_def suspend_def take_task_def
  update_consumption_def signal_aborted_def is_current_def is_current_connection_def
  is_current_consumption_def is_current_pending_def session_context_def all_settled_def
  outcomes_def stop_waited_def stop_outcome_def finish_def set_closure_def start_closing_def
  close_connection_resources_def tracked_connections_def close_tracked_connections_def
  forget_stop_def closing_settled_def close_consumption_stream_def clear_empty_timer_def
  track_consumption_stop_def observe_stop_def opening_started_def connection_of_def halt_def
  stop_consumption_def report_checkpoint_def stop_operands_def stop_failures_def
  finish_with_checkpoint_def stop_done_def

lemmas connection_operations = combine_failures_def establish_fail_def establish_open_def
  establish_start_def establish_failure_def establish_cleaned_def establish_opened_def
  establish_open_failed_def establish_installed_def clear_attempt_def stop_if_consuming_def
  abort_attempt_def drop_connection_def cancel_requests_def connect_def abandon_def disconnect_def
  shutdown_def cleanup_error_def cleaning_failures_def cleanup_done_def
  cancel_for_reconnect_def cancel_class_def cancel_administrative_requests_def class_operations_def
  initial_requests_def

lemmas consumption_operations = start_consumption_def consumption_waited_def stream_failed_def
  stream_abandoned_def consumption_failed_def has_failed_def pump_finally_def pump_caught_def
  pump_loop_ended_def pump_start_def stream_opened_def stream_next_def loop_left_def
  coverage_received_def coverage_close_failed_def empty_elapsed_def report_coverage_def
  final_reports_def final_completion_def final_failure_def close_failed_def pump_closed_def
  clear_pending_def

lemmas session_evaluation = session_primitives connection_operations consumption_operations
  initial_session_def Let_def

lemma stop_doneE:
  assumes "stop_done op n s = Some s'"
  obtains outcome consumption pending previous
    where "task_of s op = Some (Stopping consumption pending previous)" "s' = finish op outcome s"
  | k pending previous
    where "task_of s op = Some (Stopping (Some k) pending previous)"
      "s' = finish_with_checkpoint op k n s"
proof -
  from assms obtain consumption pending previous where
    "task_of s op = Some (Stopping consumption pending previous)"
    by (auto simp: stop_done_def split: option.splits task.splits)
  with assms show ?thesis
    by (auto simp: stop_done_def split: option.splits if_splits list.splits intro: that)
qed

end
