(* ===== verification/Session_Silence.thy ===== *)
theory Session_Silence
  imports Session
begin

text \<open>
  A stopped consumption is silent: once a consumption is neither active nor pending, no continuation
  of it reaches its observer again, except the one report of its checkpoint at the end of its stop.
\<close>

section \<open>What an observer hears\<close>

fun is_notice :: "nat \<Rightarrow> session_output \<Rightarrow> bool" where
  "is_notice k (Notified j e) = (j = k)"
| "is_notice k _ = False"

definition notices :: "nat \<Rightarrow> session \<Rightarrow> session_output list" where
  "notices k s = filter (is_notice k) (se_log s)"

definition detached :: "nat \<Rightarrow> session \<Rightarrow> bool" where
  "detached k s \<longleftrightarrow> k < se_next s \<and> se_consumption s \<noteq> Some k \<and> se_pending s \<noteq> Some k"

text \<open>The stops under way that report the checkpoint of a consumption, and how many such reports can
  still come: an undetached consumption will be stopped at most once.\<close>

fun reports_on :: "nat \<Rightarrow> task \<Rightarrow> bool" where
  "reports_on k (Stopping (Some j) pending previous) = (j = k)"
| "reports_on k _ = False"

definition reports_due :: "nat \<Rightarrow> session \<Rightarrow> nat" where
  "reports_due k s = length (filter (\<lambda>(_, t). reports_on k t) (se_tasks s))"

definition reports_left :: "nat \<Rightarrow> session \<Rightarrow> nat" where
  "reports_left k s = reports_due k s + (if detached k s then 0 else 1)"

definition issued :: "nat \<Rightarrow> session \<Rightarrow> bool" where
  "issued k s \<longleftrightarrow> (se_consumption s = Some k \<or> se_pending s = Some k \<longrightarrow> k < se_next s)"

text \<open>From one state to a later one no report is gained, and a detached consumption stays detached and is
  not heard, except by reports that were left.\<close>

definition mute :: "nat \<Rightarrow> session \<Rightarrow> session \<Rightarrow> bool" where
  "mute k s s' \<longleftrightarrow>
     (issued k s \<longrightarrow> issued k s' \<and> reports_left k s' \<le> reports_left k s \<and>
       (detached k s \<longrightarrow> detached k s' \<and>
          (\<exists>m. notices k s' = notices k s @ replicate m (Notified k On_Checkpoint)
             \<and> m + reports_left k s' \<le> reports_left k s)))"

named_theorems muted \<open>operations that keep a detached consumption silent\<close>

lemma mute_refl [muted]: "mute k s s"
  by (auto simp: mute_def intro: exI [of _ 0])

lemma mute_trans:
  assumes "mute k s s1" and "mute k s1 s2"
  shows "mute k s s2"
proof -
  have "\<exists>m. notices k s2 = notices k s @ replicate m (Notified k On_Checkpoint)
      \<and> m + reports_left k s2 \<le> reports_left k s" if "issued k s" "detached k s"
  proof -
    from assms that obtain m n where
      "notices k s1 = notices k s @ replicate m (Notified k On_Checkpoint)" "m + reports_left k s1 \<le> reports_left k s"
      "notices k s2 = notices k s1 @ replicate n (Notified k On_Checkpoint)" "n + reports_left k s2 \<le> reports_left k s1"
      by (auto simp: mute_def)
    then show ?thesis
      by (intro exI [of _ "m + n"]) (simp add: replicate_add)
  qed
  with assms show ?thesis by (auto simp: mute_def)
qed

text \<open>A step that says nothing to the observer, takes up no stop of the consumption and does not attach it.\<close>

lemma mute_quiet:
  assumes "mute k s s1" and "notices k s2 = notices k s1" and "reports_due k s2 \<le> reports_due k s1"
    and "detached k s1 \<Longrightarrow> detached k s2" and "issued k s1 \<Longrightarrow> issued k s2"
  shows "mute k s s2"
proof -
  have "mute k s1 s2"
    using assms(2-5) by (auto simp: mute_def reports_left_def intro: exI [of _ 0])
  with assms(1) show ?thesis by (rule mute_trans)
qed

lemma mute_fields:
  assumes "mute k s s1" and "se_log s2 = se_log s1" and "se_next s1 \<le> se_next s2"
    and "se_consumption s2 = se_consumption s1 \<or> se_consumption s2 = None"
    and "se_pending s2 = se_pending s1 \<or> se_pending s2 = None"
    and "se_tasks s2 = se_tasks s1"
  shows "mute k s s2"
  by (rule mute_quiet [OF assms(1)])
     (use assms(2-) in \<open>auto simp: notices_def reports_due_def detached_def issued_def\<close>)

lemma mute_emit [muted]: "mute k s s1 \<Longrightarrow> \<not> is_notice k out \<Longrightarrow> mute k s (emit out s1)"
  by (erule mute_quiet) (auto simp: detached_def issued_def notices_def reports_due_def emit_def)

text \<open>A notice to the active consumption is none to a detached one.\<close>

lemma mute_notify:
  assumes "mute k s s1" and "se_consumption s1 = Some j"
  shows "mute k s (emit (Notified j e) s1)"
proof -
  have "mute k s1 (emit (Notified j e) s1)"
    using assms(2)
    by (auto simp: mute_def reports_left_def reports_due_def detached_def issued_def notices_def emit_def
        intro: exI [of _ 0])
  with assms(1) show ?thesis by (rule mute_trans)
qed

lemma mute_settle [muted]: "mute k s s1 \<Longrightarrow> mute k s (settle_promise p outcome s1)"
  by (erule mute_fields) (simp_all add: settle_promise_def)

lemma mute_suspend [muted]: "mute k s s1 \<Longrightarrow> \<not> reports_on k t \<Longrightarrow> mute k s (suspend p t s1)"
  by (erule mute_quiet) (auto simp: notices_def reports_due_def detached_def issued_def suspend_def)

lemma due_take_task: "reports_due k (take_task p s) \<le> reports_due k s"
proof -
  have "length (filter (\<lambda>(_, t). reports_on k t) (filter (\<lambda>(q, _). q \<noteq> p) ts))
      \<le> length (filter (\<lambda>(_, t). reports_on k t) ts)" for ts
    by (induction ts) auto
  then show ?thesis
    by (simp add: reports_due_def take_task_def del: filter_filter)
qed

lemma mute_take_task [muted]: "mute k s s1 \<Longrightarrow> mute k s (take_task p s1)"
  by (erule mute_quiet) (simp_all add: due_take_task, simp_all add: notices_def detached_def issued_def take_task_def)

lemma mute_finish [muted]: "mute k s s1 \<Longrightarrow> mute k s (finish p outcome s1)"
  by (simp add: finish_def muted)

lemma mute_publish [muted]: "mute k s s1 \<Longrightarrow> mute k s (publish snap s1)"
  unfolding publish_def by (rule mute_emit) (auto intro: mute_fields)

lemma mute_update_consumption [muted]: "mute k s s1 \<Longrightarrow> mute k s (update_consumption j f s1)"
  by (erule mute_fields) (simp_all add: update_consumption_def)

lemma mute_halt [muted]: "mute k s s1 \<Longrightarrow> mute k s (halt j s1)"
  by (erule mute_fields) (simp_all add: halt_def)

lemma mute_clear_empty_timer [muted]: "mute k s s1 \<Longrightarrow> mute k s (clear_empty_timer j s1)"
  by (simp add: clear_empty_timer_def muted)

lemma mute_track [muted]: "mute k s s1 \<Longrightarrow> mute k s (track_consumption_stop op c b s1)"
  by (erule mute_fields) (simp_all add: track_consumption_stop_def)

lemma mute_forget_stop [muted]: "mute k s s1 \<Longrightarrow> mute k s (forget_stop s1)"
  by (erule mute_fields) (simp_all add: forget_stop_def)

lemma mute_abort_attempt [muted]: "mute k s s1 \<Longrightarrow> mute k s (abort_attempt s1)"
  by (erule mute_fields) (simp_all add: abort_attempt_def)

lemma mute_abandon [muted]: "mute k s s1 \<Longrightarrow> mute k s (abandon s1)"
  by (erule mute_fields) (simp_all add: abandon_def abort_attempt_def)

lemma mute_drop_connection [muted]: "mute k s s1 \<Longrightarrow> mute k s (drop_connection s1)"
  by (erule mute_fields) (simp_all add: drop_connection_def)

lemma mute_cancel_requests [muted]: "mute k s s1 \<Longrightarrow> mute k s (snd (cancel_requests f s1))"
  by (erule mute_fields) (simp_all add: cancel_requests_def split: prod.splits)

lemma mute_close_consumption_stream [muted]:
  "mute k s s1 \<Longrightarrow> mute k s (close_consumption_stream j s1)"
  unfolding close_consumption_stream_def
  by (auto split: option.splits intro!: muted elim: mute_fields)

lemma mute_start_closing [muted]: "mute k s s1 \<Longrightarrow> mute k s (snd (start_closing c s1))"
  unfolding start_closing_def Let_def snd_conv
  by (intro mute_suspend mute_emit) (auto elim: mute_fields)

lemma mute_close_resources [muted]: "mute k s s1 \<Longrightarrow> mute k s (snd (close_connection_resources c s1))"
  by (auto simp: close_connection_resources_def intro: muted split: option.splits)

lemma mute_close_connections [muted]: "mute k s s1 \<Longrightarrow> mute k s (snd (close_connections cs s1))"
proof (induction cs arbitrary: s1)
  case (Cons c cs)
  from Cons.IH [OF mute_close_resources [OF Cons.prems]] show ?case
    by (simp only: close_connections_snd)
qed simp

lemma mute_close_tracked [muted]: "mute k s s1 \<Longrightarrow> mute k s (snd (close_tracked_connections c s1))"
  by (simp add: close_tracked_connections_def muted)

lemma mute_detach [muted]:
  "mute k s s1 \<Longrightarrow>
   mute k s (s1\<lparr>se_consumption := None, se_pending := None, se_consumption_generation := g\<rparr>)"
  by (erule mute_fields) simp_all

lemma mute_bump [muted]: "mute k s s1 \<Longrightarrow> mute k s (s1\<lparr>se_next := Suc (se_next s1)\<rparr>)"
  by (erule mute_fields) simp_all

lemma stop_consumption_clears:
  "se_consumption (snd (stop_consumption s)) = None \<and> se_pending (snd (stop_consumption s)) = None"
  by (auto simp: stop_consumption_def Let_def halt_def suspend_def track_consumption_stop_def
      close_consumption_stream_def emit_def update_consumption_def clear_empty_timer_def
      split: option.split)

lemma stop_consumption_next: "se_next s \<le> se_next (snd (stop_consumption s))"
  by (simp add: stop_consumption_def Let_def halt_def suspend_def track_consumption_stop_def
      close_consumption_stream_def emit_def update_consumption_def clear_empty_timer_def
      split: option.split)

lemma stop_consumption_notices: "notices k (snd (stop_consumption s)) = notices k s"
  by (simp add: stop_consumption_def Let_def halt_def suspend_def track_consumption_stop_def
      close_consumption_stream_def emit_def update_consumption_def clear_empty_timer_def notices_def
      split: option.split)

text \<open>A stop takes up the report of the consumption it detaches, and of no other.\<close>

lemma stop_consumption_tasks:
  "se_tasks (snd (stop_consumption s)) = se_tasks s
   \<or> (\<exists>op pending previous.
        se_tasks (snd (stop_consumption s)) = se_tasks s @ [(op, Stopping (se_consumption s) pending previous)])"
  by (simp add: stop_consumption_def Let_def halt_def suspend_def track_consumption_stop_def
      close_consumption_stream_def emit_def update_consumption_def clear_empty_timer_def settle_promise_def
      split: option.split)

lemma mute_stop_consumption_self: "mute k s (snd (stop_consumption s))"
proof -
  let ?t = "snd (stop_consumption s)"
  have due: "reports_due k ?t \<le> reports_due k s + (if se_consumption s = Some k then 1 else 0)"
  proof -
    have "reports_on k (Stopping (se_consumption s) pending previous) \<longleftrightarrow> se_consumption s = Some k" for pending previous
      by (cases "se_consumption s") auto
    then show ?thesis
      using stop_consumption_tasks [of s] by (auto simp: reports_due_def)
  qed
  have clear: "se_consumption ?t = None" "se_pending ?t = None" "se_next s \<le> se_next ?t"
    using stop_consumption_clears [of s] stop_consumption_next [of s] by simp_all
  show ?thesis
  proof (cases "detached k s")
    case True
    then show ?thesis
      using due clear
      by (intro mute_quiet [OF mute_refl] stop_consumption_notices)
         (auto simp: detached_def issued_def split: if_splits)
  next
    case False
    then show ?thesis
      using due clear by (auto simp: mute_def reports_left_def detached_def issued_def split: if_splits)
  qed
qed

lemma mute_stop_consumption [muted]: "mute k s s1 \<Longrightarrow> mute k s (snd (stop_consumption s1))"
  by (rule mute_trans [OF _ mute_stop_consumption_self])

lemma mute_stop_if_consuming [muted]: "mute k s s1 \<Longrightarrow> mute k s (snd (stop_if_consuming s1))"
  by (simp add: stop_if_consuming_def muted)


lemma mute_establish_fail [muted]: "mute k s s1 \<Longrightarrow> mute k s (establish_fail p a e s1)"
  by (simp add: establish_fail_def muted)

lemma mute_establish_open [muted]: "mute k s s1 \<Longrightarrow> mute k s (establish_open p a s1)"
  by (simp add: establish_open_def muted)

lemma mute_establish_start [muted]:
  "mute k s s1 \<Longrightarrow> mute k s (establish_start p a previous stop latency s1)"
  by (simp add: establish_start_def muted case_prod_beta)

lemma mute_generation [muted]: "mute k s s1 \<Longrightarrow> mute k s (s1\<lparr>se_generation := g\<rparr>)"
  by (erule mute_fields) simp_all

lemma mute_shutting [muted]:
  "mute k s s1 \<Longrightarrow> mute k s (s1\<lparr>se_shutting := b, se_generation := g\<rparr>)"
  by (erule mute_fields) simp_all

lemma mute_new_controller [muted]:
  "mute k s s1 \<Longrightarrow> mute k s (s1\<lparr>se_next := Suc (se_next s1), se_controller := c\<rparr>)"
  by (erule mute_fields) simp_all

lemma mute_new_shutdown [muted]:
  "mute k s s1 \<Longrightarrow> mute k s (s1\<lparr>se_next := Suc (se_next s1), se_shutdown := d\<rparr>)"
  by (erule mute_fields) simp_all

lemma mute_attempt [muted]: "mute k s s1 \<Longrightarrow> mute k s (s1\<lparr>se_attempt := a\<rparr>)"
  by (erule mute_fields) simp_all

lemma mute_connect: "mute k s (snd (connect name brokers external s))"
  unfolding connect_def Let_def case_prod_beta
  by (simp add: muted del: split_paired_All)

lemma mute_disconnect: "mute k s (snd (disconnect s))"
  unfolding disconnect_def Let_def case_prod_beta
  by (simp add: muted)

lemma mute_shutdown: "mute k s (snd (shutdown s))"
  unfolding shutdown_def Let_def case_prod_beta
  by (simp add: muted split: option.split)

lemma mute_closing_settled: "mute k s (closing_settled op c outcome s)"
proof -
  have a: "mute k s (s1\<lparr>se_closures := x\<rparr>)" if "mute k s s1" for s1 x
    using that by (rule mute_fields) simp_all
  have b: "mute k s (s1\<lparr>se_closed := x\<rparr>)" if "mute k s s1" for s1 x
    using that by (rule mute_fields) simp_all
  show ?thesis
    unfolding closing_settled_def Let_def by (simp add: muted a b split: settlement.split)
qed

lemma mute_observe_stop: "observe_stop s = Some s' \<Longrightarrow> mute k s s'"
proof -
  have a: "mute k s (s1\<lparr>se_stop_settled := x\<rparr>)" if "mute k s s1" for s1 x
    using that by (rule mute_fields) simp_all
  assume "observe_stop s = Some s'"
  then show ?thesis
    by (auto simp: observe_stop_def muted a Let_def split: option.splits if_splits)
qed

text \<open>A notice goes to the consumption that was active when the step began.\<close>

lemma emit_keeps [simp]:
  "reports_left k (emit out s) = reports_left k s" "detached k (emit out s) = detached k s"
  "issued k (emit out s) = issued k s"
  by (simp_all add: reports_left_def reports_due_def detached_def issued_def emit_def)

lemma mute_notify_active [muted]:
  assumes "mute k s s1" and "se_consumption s = Some j"
  shows "mute k s (emit (Notified j e) s1)"
proof (cases "j = k")
  case True
  with assms show ?thesis by (auto simp: mute_def detached_def)
next
  case False
  with assms(1) show ?thesis by (simp add: mute_emit)
qed

lemma mute_report_checkpoint [muted]:
  "mute k s s1 \<Longrightarrow> se_consumption s = Some j \<Longrightarrow> mute k s (snd (report_checkpoint j n s1))"
  by (simp add: report_checkpoint_def muted split: notice.split)

text \<open>The stop of a consumption uses up its report.\<close>

lemma due_taken:
  assumes "task_of s op = Some t" and "reports_on k t"
  shows "Suc (reports_due k (take_task op s)) \<le> reports_due k s"
proof -
  have "map_of ts op = Some t \<Longrightarrow>
      Suc (length (filter (\<lambda>(_, t). reports_on k t) (filter (\<lambda>(q, _). q \<noteq> op) ts)))
      \<le> length (filter (\<lambda>(_, t). reports_on k t) ts)" for ts
  proof (induction ts)
    case (Cons x ts)
    have "length (filter (\<lambda>(_, t). reports_on k t) (filter (\<lambda>(q, _). q \<noteq> op) ts))
        \<le> length (filter (\<lambda>(_, t). reports_on k t) ts)"
      using due_take_task [of k op "s\<lparr>se_tasks := ts\<rparr>"] by (simp add: reports_due_def take_task_def del: filter_filter)
    with Cons assms(2) show ?case
      by (cases x) (auto simp del: filter_filter split: if_splits)
  qed simp
  with assms(1) show ?thesis
    by (simp add: reports_due_def take_task_def del: filter_filter)
qed

lemma mute_finish_with_checkpoint:
  assumes "task_of s op = Some (Stopping (Some j) pending previous)"
  shows "mute k s (finish_with_checkpoint op j n s)"
proof (cases "j = k")
  case True
  have quiet: "mute k s (finish op outcome s)" for outcome
    by (simp add: muted)
  have heard: "mute k s (finish op outcome (emit (Notified k On_Checkpoint) s))" for outcome
  proof -
    let ?t = "finish op outcome (emit (Notified k On_Checkpoint) s)"
    have "reports_due k ?t = reports_due k (take_task op s)"
      by (simp add: finish_def settle_promise_def take_task_def emit_def reports_due_def)
    then have "Suc (reports_due k ?t) \<le> reports_due k s"
      using due_taken [OF assms, of k] True by simp
    moreover have "detached k ?t = detached k s" "issued k ?t = issued k s"
      "notices k ?t = notices k s @ replicate 1 (Notified k On_Checkpoint)"
      by (simp_all add: finish_def settle_promise_def take_task_def emit_def detached_def issued_def notices_def)
    ultimately show ?thesis
      by (auto simp: mute_def reports_left_def intro!: exI [of _ 1])
  qed
  show ?thesis
    using quiet heard True
    by (simp add: finish_with_checkpoint_def report_checkpoint_def split: notice.split)
next
  case False
  then show ?thesis
    by (simp add: finish_with_checkpoint_def report_checkpoint_def muted split: notice.split)
qed

lemma mute_stop_done: "stop_done op n s = Some s' \<Longrightarrow> mute k s s'"
  by (auto simp: stop_done_def muted intro: mute_finish_with_checkpoint
      split: option.splits task.splits list.splits if_splits)

lemma current_is_active: "is_current_consumption k s \<Longrightarrow> se_consumption s = Some k"
  by (simp add: is_current_consumption_def split: option.splits)

lemma current_is_pending: "is_current_pending k s \<Longrightarrow> se_pending s = Some k"
  by (simp add: is_current_pending_def split: option.splits)

lemma mute_pump_finally [muted]: "mute k s s1 \<Longrightarrow> mute k s (pump_finally q j u s1)"
  by (simp add: pump_finally_def Let_def muted)

lemma mute_pump_caught [muted]: "mute k s s1 \<Longrightarrow> mute k s (pump_caught q j e u s1)"
  by (simp add: pump_caught_def muted)

lemma mute_pump_loop_ended [muted]: "mute k s s1 \<Longrightarrow> mute k s (pump_loop_ended q j u s1)"
  by (simp add: pump_loop_ended_def muted)

lemma mute_pump_start [muted]: "mute k s s1 \<Longrightarrow> mute k s (pump_start q j tail sub s1)"
  by (simp add: pump_start_def muted split: subscription.split)

lemma mute_start_consumption: "mute k s (snd (start_consumption tail external s))"
proof -
  have "mute k s (snd (stop_consumption s))"
    by (simp add: muted)
  then have "mute k s ((snd (stop_consumption s))\<lparr>se_next := Suc (se_next (snd (stop_consumption s))),
      se_pending := Some (se_next (snd (stop_consumption s))), se_consumptions := x\<rparr>)" for x
    by (rule mute_quiet) (auto simp: notices_def reports_due_def detached_def issued_def)
  then show ?thesis
    unfolding start_consumption_def Let_def case_prod_beta
    by (simp add: muted split: option.split)
qed

lemma mute_consumption_waited: "consumption_waited j late s = Some s' \<Longrightarrow> mute k s s'"
  by (auto simp: consumption_waited_def muted split: option.splits task.splits if_splits list.splits)

lemma mute_stream_opened: "stream_opened j sub s = Some s' \<Longrightarrow> mute k s s'"
proof -
  assume s': "stream_opened j sub s = Some s'"
  have a: "mute k s ((emit (Opened_Stream j) s)\<lparr>se_next := Suc n, se_pending := None,
      se_consumption := Some j\<rparr>)" if "se_pending s = Some j" "n = se_next s" for n
    using that by (intro mute_quiet [OF mute_refl]) (auto simp: notices_def reports_due_def detached_def issued_def emit_def)
  have b: "is_current_pending j (emit (Opened_Stream j) s) \<Longrightarrow> se_pending s = Some j"
    using current_is_pending by (fastforce simp: emit_def)
  have c: "se_next (emit (Opened_Stream j) s) = se_next s"
    by (simp add: emit_def)
  show ?thesis
    using s' by (auto simp: stream_opened_def Let_def muted a b c split: option.splits task.splits if_splits)
qed

lemma mute_stream_next: "stream_next q result u s = Some s' \<Longrightarrow> mute k s s'"
  by (auto simp: stream_next_def Let_def muted current_is_active
      split: option.splits task.splits next_result.splits if_splits)

lemma mute_loop_left: "loop_left q r u s = Some s' \<Longrightarrow> mute k s s'"
  by (auto simp: loop_left_def muted split: option.splits task.splits)

lemma mute_coverage_received: "coverage_received j throws s = Some s' \<Longrightarrow> mute k s s'"
  by (auto simp: coverage_received_def Let_def muted current_is_active split: option.splits if_splits)

lemma mute_coverage_close_failed: "coverage_close_failed j s = Some s' \<Longrightarrow> mute k s s'"
  by (auto simp: coverage_close_failed_def Let_def muted
      split: option.splits settlement.splits if_splits)

lemma current_after_update:
  "is_current_consumption j (clear_empty_timer j s) \<Longrightarrow> se_consumption s = Some j"
  by (drule current_is_active) (simp add: clear_empty_timer_def update_consumption_def)

lemma mute_empty_elapsed: "empty_elapsed j s = Some s' \<Longrightarrow> mute k s s'"
  by (auto simp: empty_elapsed_def Let_def muted current_after_update split: option.splits if_splits)

lemma mute_report_coverage [muted]:
  "mute k s s1 \<Longrightarrow> se_consumption s = Some j \<Longrightarrow> mute k s (snd (report_coverage j n s1))"
  by (simp add: report_coverage_def muted split: notice.split)

lemma mute_final_reports [muted]:
  "mute k s s1 \<Longrightarrow> se_consumption s = Some j \<Longrightarrow> mute k s (final_reports j b s1)"
  by (simp add: final_reports_def report_coverage_def report_checkpoint_def muted split: notice.split)

lemma mute_final_completion [muted]:
  "mute k s s1 \<Longrightarrow> se_consumption s = Some j \<Longrightarrow> mute k s (final_completion j b s1)"
  by (simp add: final_completion_def Let_def muted split: option.split)

lemma mute_final_failure [muted]:
  "mute k s s1 \<Longrightarrow> se_consumption s = Some j \<Longrightarrow> mute k s (final_failure j b s1)"
  by (simp add: final_failure_def Let_def muted split: option.split)

lemma mute_close_failed [muted]: "mute k s s1 \<Longrightarrow> mute k s (close_failed j c e s1)"
  by (simp add: close_failed_def muted)

lemma mute_inactive [muted]: "mute k s s1 \<Longrightarrow> mute k s (s1\<lparr>se_consumption := None\<rparr>)"
  by (erule mute_fields) simp_all

lemma mute_pump_closed: "pump_closed q b s = Some s' \<Longrightarrow> mute k s s'"
  by (auto simp: pump_closed_def Let_def muted current_is_active
      split: option.splits task.splits settlement.splits if_splits)

lemma mute_requests [muted]: "mute k s s1 \<Longrightarrow> mute k s (s1\<lparr>se_requests := r\<rparr>)"
  by (erule mute_fields) simp_all

lemma mute_request_settled: "request_settled op outcome s = Some s' \<Longrightarrow> mute k s s'"
  by (auto simp: request_settled_def muted split: option.splits)

lemma mute_request: "mute k s (snd (start_session_request call supported s))"
  by (auto simp: start_session_request_def Let_def split: prod.split intro: mute_fields [OF mute_refl])


lemma mute_external [muted]:
  "mute k s s1 \<Longrightarrow> mute k s (s1\<lparr>se_external_aborted := x\<rparr>)"
  by (erule mute_fields) simp_all

lemma mute_install [muted]:
  "mute k s s1 \<Longrightarrow> mute k s (s1\<lparr>se_active := c, se_brokers := b\<rparr>)"
  by (erule mute_fields) simp_all

text \<open>No step is heard by a detached consumption.\<close>

lemma mute_step: "session_step e s = Some s' \<Longrightarrow> mute k s s'"
proof (cases e)
  case (Pump_Closed q b)
  then show "session_step e s = Some s' \<Longrightarrow> mute k s s'"
    by (simp add: mute_pump_closed)
qed (auto simp: muted mute_connect mute_disconnect mute_shutdown mute_start_consumption
    mute_request mute_closing_settled establish_cleaned_def establish_opened_def
    establish_open_failed_def abandoned_closed_def establish_installed_def clear_attempt_def
    connection_closed_def cleanup_done_def stream_failed_def stream_abandoned_def
    stream_closed_def clear_pending_def Let_def
    elim: mute_stop_done mute_observe_stop mute_consumption_waited mute_stream_opened
      mute_stream_next mute_loop_left mute_coverage_received mute_coverage_close_failed
      mute_empty_elapsed mute_request_settled
    split: option.splits task.splits if_splits intro: mute_fields [OF mute_refl])


lemma mute_run: "session_run es s = Some s' \<Longrightarrow> mute k s s'"
proof (induction es arbitrary: s)
  case Nil
  then show ?case by (simp add: muted)
next
  case (Cons e es)
  from Cons.prems obtain s1 where "session_step e s = Some s1" and run: "session_run es s1 = Some s'"
    by (auto split: option.splits)
  from this(1) have "mute k s s1"
    by (rule mute_step)
  with Cons.IH [OF run] show ?case
    by (blast intro: mute_trans)
qed

text \<open>The calls that stop a consumption.\<close>

fun stops :: "session_event \<Rightarrow> session \<Rightarrow> bool" where
  "stops Stop s = True"
| "stops Disconnect s = (\<not> se_shutting s)"
| "stops (Connect name brokers external) s = (\<not> se_shutting s \<and> \<not> signal_aborted external s)"
| "stops Shutdown s = (se_shutdown s = None)"
| "stops _ s = False"

definition after_stop :: "session \<Rightarrow> session" where
  "after_stop s = snd (stop_if_consuming s)"

lemma stopped_clears: "se_consumption (after_stop s) = None \<and> se_pending (after_stop s) = None"
  by (simp add: after_stop_def stop_if_consuming_def stop_consumption_clears)

lemma stop_from_stopped:
  assumes "stops e s" and "session_step e s = Some s1"
  shows "mute k (if e = Stop then s1 else after_stop s) s1"
proof -
  have stop: "mute k (after_stop s) (snd (stop_if_consuming s))"
    by (simp add: after_stop_def muted)
  note [muted del] = mute_stop_if_consuming
  show ?thesis
    using assms stop
    by (cases e)
       (auto simp: connect_def disconnect_def shutdown_def Let_def case_prod_beta muted
         split: option.splits)
qed

lemma heard_after_stop:
  assumes "stops e s" and "session_step e s = Some s1" and "session_run es s1 = Some s2"
    and "k < se_next s" and "issued k s"
  shows "\<exists>m. notices k s2 = notices k s @ replicate m (Notified k On_Checkpoint) \<and> m \<le> reports_left k s"
proof -
  let ?t = "snd (stop_consumption s)"
  have t: "detached k ?t" "issued k ?t" "notices k ?t = notices k s" "reports_left k ?t \<le> reports_left k s"
    using assms(4,5) stop_consumption_clears [of s] stop_consumption_next [of s] stop_consumption_notices [of k s]
      mute_stop_consumption_self [of k s]
    by (auto simp: detached_def mute_def)
  have "\<exists>u. mute k u s1 \<and> detached k u \<and> issued k u \<and> notices k u = notices k s \<and> reports_left k u \<le> reports_left k s"
  proof (cases "e = Stop")
    case True
    then have "s1 = ?t" using assms(2) by simp
    then show ?thesis using t mute_refl by blast
  next
    case False
    have "after_stop s = ?t \<or> after_stop s = s \<and> detached k s"
      using assms(4) by (auto simp: after_stop_def stop_if_consuming_def detached_def)
    moreover have "mute k (after_stop s) s1"
      using stop_from_stopped [OF assms(1, 2), of k] False by simp
    ultimately show ?thesis using t assms(5) by auto
  qed
  then obtain u where u: "mute k u s2" "detached k u" "issued k u" "notices k u = notices k s"
    "reports_left k u \<le> reports_left k s"
    using mute_run [OF assms(3), of k] mute_trans by blast
  then show ?thesis by (fastforce simp: mute_def)
qed

lemma reports_left_reachable:
  assumes "session_run es initial_session = Some s"
  shows "issued k s \<and> reports_left k s \<le> 1"
proof -
  have "issued k initial_session" "reports_left k initial_session = 1"
    by (simp_all add: issued_def reports_left_def reports_due_def detached_def initial_session_def)
  then show ?thesis
    using mute_run [OF assms, of k] by (simp add: mute_def)
qed

text \<open>
  C9: After a call that stops the consumption (Stop, Disconnect, Connect or Shutdown), whatever runs
  next in whatever order, no consumption started before the call is heard again, but for one report: its
  observer gets no message, no coverage, no empty report, no completion and no failure, and its
  checkpoint at most once.
\<close>

theorem stopped_consumption_is_silent:
  assumes "session_run es0 initial_session = Some s" and "stops e s" and "session_step e s = Some s1"
    and "session_run es s1 = Some s2" and "k < se_next s"
  shows "notices k s2 = notices k s \<or> notices k s2 = notices k s @ [Notified k On_Checkpoint]"
proof -
  have k: "issued k s" "reports_left k s \<le> 1"
    using reports_left_reachable [OF assms(1)] by simp_all
  then obtain m where "notices k s2 = notices k s @ replicate m (Notified k On_Checkpoint)" "m \<le> 1"
    using heard_after_stop [OF assms(2-5) k(1)] by force
  then show ?thesis by (cases m) auto
qed

definition consuming_run :: "session_event list" where
  "consuming_run = [Connect ''a'' [''b''] None, Opened 0, Installed 0, Attempt_Over 0, Start True None,
     Stop_Waited 2 False, Stream_Opened 2 No_Subscription, Stream_Next 3 (Next_Message 7 None) None]"

definition good_observer :: observer_behaviour where
  "good_observer = \<lparr>ob_coverage = Accepted, ob_checkpoint = Accepted, ob_complete = None, ob_failure = None\<rparr>"

definition late_run :: "session_event list" where
  "late_run = [Stream_Next 3 (Next_Message 8 None) None, Loop_Left 3 None None, Stream_Closed 2 (Fulfilled ()),
     Pump_Closed 3 good_observer, Stop_Done 5 Accepted]"

text \<open>One message is read, the session disconnects, a second message comes too late, and the stop ends with
  the checkpoint: the one report that was left.\<close>

lemma stopped_consumption_is_silent_witness:
  "\<exists>s s1 s2. session_run consuming_run initial_session = Some s \<and> session_step Disconnect s = Some s1 \<and>
     session_run late_run s1 = Some s2 \<and>
     notices 2 s2 = [Notified 2 (On_Message 7), Notified 2 On_Checkpoint]"
proof -
  obtain s s2 where s: "session_run consuming_run initial_session = Some s"
    and run: "session_run late_run (snd (disconnect s)) = Some s2"
    and facts: "stops Disconnect s" "2 < se_next s" "notices 2 s = [Notified 2 (On_Message 7)]"
    "notices 2 s2 \<noteq> notices 2 s"
    by (simp add: consuming_run_def late_run_def good_observer_def session_evaluation stream_closed_def notices_def
        cong: let_weak_cong)
  have step: "session_step Disconnect s = Some (snd (disconnect s))"
    by simp
  show ?thesis
    using s step run stopped_consumption_is_silent [OF s facts(1) step run facts(2)] facts(3,4) by auto
qed

end
