(* ===== verification/Session_Ownership.thy ===== *)
theory Session_Ownership
  imports Session
begin

text \<open>
  Who owns an opened connection. In a calm run the session uses at most one connection, reports it as
  connected exactly while it uses it, and has closed every other one it ever opened; a call in the gap
  before an installation breaks this.
\<close>

definition opened :: "session \<Rightarrow> nat set" where
  "opened s = {c. Opened_Connection c \<in> set (se_log s)}"

definition closing :: "session \<Rightarrow> nat set" where
  "closing s = {c. Closing_Connection c \<in> set (se_log s)}"

text \<open>What a suspended task knows of the session.\<close>

fun attempt_of :: "task \<Rightarrow> attempt option" where
  "attempt_of (Establish_Clean a _ _ _) = Some a"
| "attempt_of (Establish_Open a) = Some a"
| "attempt_of (Establish_Supersede a _) = Some a"
| "attempt_of (Establish_Cancel a _) = Some a"
| "attempt_of (Establish_Install a _) = Some a"
| "attempt_of _ = None"

fun cleanup_generation :: "task \<Rightarrow> nat option" where
  "cleanup_generation (Cleaning_Up _ generation _ _ _ _ _) = Some generation"
| "cleanup_generation _ = None"

definition awaiting_connection :: "session \<Rightarrow> bool" where
  "awaiting_connection s \<longleftrightarrow> se_active s = None \<and> sn_state (se_snapshot s) = Connecting"

definition task_ok :: "session \<Rightarrow> nat \<Rightarrow> task \<Rightarrow> bool" where
  "task_ok s p t \<longleftrightarrow>
     p < se_next s \<and>
     (\<forall>a. attempt_of t = Some a \<longrightarrow>
        at_generation a \<le> se_generation s \<and> (is_current p a s \<longrightarrow> awaiting_connection s) \<and>
        (is_install t \<longrightarrow> is_current p a s)) \<and>
     (\<forall>g. cleanup_generation t = Some g \<longrightarrow>
        g \<le> se_generation s \<and>
        (g = se_generation s \<longrightarrow>
           se_controller s = None \<and> se_active s = None \<and> sn_state (se_snapshot s) \<noteq> Connected))"

definition held_connections :: "session \<Rightarrow> nat set" where
  "held_connections s = set_option (se_active s) \<union> {c. \<exists>p a. (p, Establish_Install a c) \<in> set (se_tasks s)}"

text \<open>The invariant, but for a set of connections that are about to be closed.\<close>

definition session_ok :: "nat set \<Rightarrow> session \<Rightarrow> bool" where
  "session_ok X s \<longleftrightarrow>
     distinct (map fst (se_tasks s)) \<and>
     (\<forall>p t. (p, t) \<in> set (se_tasks s) \<longrightarrow> task_ok s p t) \<and>
     (se_active s \<noteq> None \<longleftrightarrow> sn_state (se_snapshot s) = Connected) \<and>
     (se_shutting s \<longrightarrow> se_active s = None \<and> se_controller s = None) \<and>
     (\<forall>p. se_controller s = Some p \<longrightarrow> p < se_next s) \<and>
     fst ` set (se_closures s) \<subseteq> closing s \<and>
     opened s \<subseteq> closing s \<union> held_connections s \<union> X"

text \<open>The part of the invariant that is not about tasks.\<close>

definition connection_ok :: "nat set \<Rightarrow> session \<Rightarrow> bool" where
  "connection_ok X s \<longleftrightarrow>
     (se_active s \<noteq> None \<longleftrightarrow> sn_state (se_snapshot s) = Connected) \<and>
     (se_shutting s \<longrightarrow> se_active s = None \<and> se_controller s = None) \<and>
     (\<forall>p. se_controller s = Some p \<longrightarrow> p < se_next s) \<and>
     fst ` set (se_closures s) \<subseteq> closing s \<and>
     opened s \<subseteq> closing s \<union> held_connections s \<union> X"

lemma session_ok_parts:
  "session_ok X s \<longleftrightarrow>
     distinct (map fst (se_tasks s)) \<and>
     (\<forall>p t. (p, t) \<in> set (se_tasks s) \<longrightarrow> task_ok s p t) \<and> connection_ok X s"
  by (simp add: session_ok_def connection_ok_def)

lemma session_ok_initial: "session_ok {} initial_session"
  by (simp add: session_ok_def initial_session_def opened_def held_connections_def)


text \<open>What the invariant does not read may change freely.\<close>

definition same_connection :: "session \<Rightarrow> session \<Rightarrow> bool" where
  "same_connection s s' \<longleftrightarrow>
     se_active s' = se_active s \<and> se_snapshot s' = se_snapshot s \<and>
     se_controller s' = se_controller s \<and> se_aborted s' = se_aborted s \<and>
     se_generation s' = se_generation s \<and> se_shutting s' = se_shutting s \<and>
     se_next s \<le> se_next s'"

lemma same_connection_refl [simp]: "same_connection s s"
  by (simp add: same_connection_def)

lemma same_connection_current: "same_connection s s' \<Longrightarrow> is_current p a s' = is_current p a s"
  by (simp add: same_connection_def is_current_def)

lemma task_ok_same: "same_connection s s' \<Longrightarrow> task_ok s p t \<Longrightarrow> task_ok s' p t"
  by (auto simp: task_ok_def same_connection_current awaiting_connection_def)
     (auto simp: same_connection_def)

lemma session_ok_same:
  assumes "session_ok X s" and same: "same_connection s s'"
    and "se_tasks s' = se_tasks s" and "opened s' = opened s" and "closing s \<subseteq> closing s'"
    and "fst ` set (se_closures s') \<subseteq> closing s'"
  shows "session_ok X s'"
proof -
  have "held_connections s' = held_connections s"
    using assms by (simp add: held_connections_def same_connection_def)
  moreover have "\<forall>p t. (p, t) \<in> set (se_tasks s') \<longrightarrow> task_ok s' p t"
    using assms by (auto simp: session_ok_def intro: task_ok_same [OF same])
  ultimately show ?thesis
    using assms by (auto simp: session_ok_def same_connection_def)
qed

named_theorems owned \<open>operations that keep the ownership of connections\<close>

lemma owned_fields:
  assumes "session_ok X s" and "same_connection s s'"
    and "se_tasks s' = se_tasks s" and "se_log s' = se_log s"
    and "fst ` set (se_closures s') \<subseteq> fst ` set (se_closures s)"
  shows "session_ok X s'"
proof -
  have "opened s' = opened s" "closing s' = closing s"
    using assms(4) by (simp_all add: opened_def closing_def)
  moreover have "fst ` set (se_closures s) \<subseteq> closing s"
    using assms(1) by (simp add: session_ok_def)
  ultimately show ?thesis
    using assms(5) by (intro session_ok_same [OF assms(1-3)]) auto
qed

lemma owned_emit [owned]:
  assumes "session_ok X s" and "\<forall>c. out \<noteq> Opened_Connection c"
  shows "session_ok X (emit out s)"
proof (rule session_ok_same [OF assms(1)])
  show "same_connection s (emit out s)"
    by (simp add: same_connection_def emit_def)
  show "se_tasks (emit out s) = se_tasks s"
    by (simp add: emit_def)
  have "Opened_Connection c \<in> set (se_log s @ [out]) \<longleftrightarrow> Opened_Connection c \<in> set (se_log s)" for c
    using assms(2) by (metis Un_iff empty_iff empty_set insert_iff list.simps(15) set_append)
  then show "opened (emit out s) = opened s"
    by (simp add: opened_def emit_def)
  show more: "closing s \<subseteq> closing (emit out s)"
    by (auto simp: closing_def emit_def)
  have "fst ` set (se_closures s) \<subseteq> closing s"
    using assms(1) by (simp add: session_ok_def)
  with more show "fst ` set (se_closures (emit out s)) \<subseteq> closing (emit out s)"
    by (auto simp: emit_def)
qed

lemma owned_settle [owned]: "session_ok X s \<Longrightarrow> session_ok X (settle_promise p outcome s)"
  by (erule owned_fields) (simp_all add: settle_promise_def same_connection_def)

lemma owned_update [owned]: "session_ok X s \<Longrightarrow> session_ok X (update_consumption k f s)"
  by (erule owned_fields) (simp_all add: update_consumption_def same_connection_def)

lemma owned_clear_timer [owned]: "session_ok X s \<Longrightarrow> session_ok X (clear_empty_timer k s)"
  by (simp add: clear_empty_timer_def owned)

lemma owned_halt [owned]: "session_ok X s \<Longrightarrow> session_ok X (halt k s)"
  by (erule owned_fields) (simp_all add: halt_def same_connection_def)

lemma owned_track [owned]: "session_ok X s \<Longrightarrow> session_ok X (track_consumption_stop op c b s)"
  by (erule owned_fields) (simp_all add: track_consumption_stop_def same_connection_def)

lemma owned_forget [owned]: "session_ok X s \<Longrightarrow> session_ok X (forget_stop s)"
  by (erule owned_fields) (simp_all add: forget_stop_def same_connection_def)

lemma owned_requests [owned]: "session_ok X s \<Longrightarrow> session_ok X (snd (cancel_requests f s))"
  by (erule owned_fields) (simp_all add: cancel_requests_def same_connection_def split: prod.split)

text \<open>A task other than an installation may end.\<close>

lemma owned_take_task [owned]:
  assumes "session_ok X s" and "\<forall>a c. task_of s p \<noteq> Some (Establish_Install a c)"
  shows "session_ok X (take_task p s)"
proof -
  have same: "same_connection s (take_task p s)"
    by (simp add: same_connection_def take_task_def)
  have sub: "set (se_tasks (take_task p s)) \<subseteq> set (se_tasks s)"
    by (auto simp: take_task_def)
  have "held_connections (take_task p s) = held_connections s"
    using assms by (auto simp: held_connections_def take_task_def session_ok_def)
  moreover have "opened (take_task p s) = opened s" "closing (take_task p s) = closing s"
    by (simp_all add: opened_def closing_def take_task_def)
  moreover have "distinct (map fst (se_tasks (take_task p s)))"
    using assms(1) by (simp add: session_ok_def take_task_def distinct_map_filter)
  ultimately show ?thesis
    using assms(1) sub task_ok_same [OF same]
    by (auto simp: session_ok_def take_task_def)
qed

lemma owned_finish [owned]:
  "session_ok X s \<Longrightarrow> \<forall>a c. task_of s p \<noteq> Some (Establish_Install a c) \<Longrightarrow>
   session_ok X (finish p outcome s)"
  by (simp add: finish_def owned)

text \<open>A task may be suspended under a name no task has.\<close>

lemma owned_suspend:
  assumes ok: "session_ok X s" and "task_of s p = None" and "task_ok s p t"
  shows "session_ok X (suspend p t s)"
  unfolding session_ok_parts
proof (intro conjI allI impI)
  have same: "same_connection s (suspend p t s)"
    by (simp add: same_connection_def suspend_def)
  have tasks: "se_tasks (suspend p t s) = se_tasks s @ [(p, t)]"
    by (simp add: suspend_def)
  have "p \<notin> fst ` set (se_tasks s)"
    using assms(2) by (simp add: map_of_eq_None_iff)
  then show "distinct (map fst (se_tasks (suspend p t s)))"
    using ok by (simp add: tasks session_ok_parts)
  show "task_ok (suspend p t s) q u" if "(q, u) \<in> set (se_tasks (suspend p t s))" for q u
    using that assms(3) ok by (auto simp: tasks session_ok_parts intro: task_ok_same [OF same])
  have "held_connections s \<subseteq> held_connections (suspend p t s)"
    by (auto simp: held_connections_def suspend_def)
  then show "connection_ok X (suspend p t s)"
    using ok unfolding session_ok_parts connection_ok_def
    by (auto simp: suspend_def opened_def closing_def)
qed

named_theorems frames \<open>what the primitives leave alone\<close>

lemma frame_emit [frames]: "se_tasks (emit out s) = se_tasks s" "se_next (emit out s) = se_next s"
  by (simp_all add: emit_def)

lemma frame_settle [frames]:
  "se_tasks (settle_promise p outcome s) = se_tasks s" "se_next (settle_promise p outcome s) = se_next s"
  by (simp_all add: settle_promise_def)

lemma frame_update [frames]:
  "se_tasks (update_consumption k f s) = se_tasks s" "se_next (update_consumption k f s) = se_next s"
  by (simp_all add: update_consumption_def)

lemma frame_timer [frames]:
  "se_tasks (clear_empty_timer k s) = se_tasks s" "se_next (clear_empty_timer k s) = se_next s"
  by (simp_all add: clear_empty_timer_def frames)

lemma frame_halt [frames]: "se_tasks (halt k s) = se_tasks s" "se_next (halt k s) = se_next s"
  by (simp_all add: halt_def)

lemma frame_take [frames]: "se_next (take_task p s) = se_next s"
  by (simp add: take_task_def)

lemma map_of_filter_key: "map_of (filter (\<lambda>(q, _). q \<noteq> p) xs) p = None"
  by (induction xs) auto

lemma frame_taken [frames]: "task_of (take_task p s) p = None"
  by (simp add: take_task_def map_of_filter_key)

lemma frame_close_stream [frames]: "se_tasks (close_consumption_stream k s) = se_tasks s"
  by (simp add: close_consumption_stream_def frames split: option.split)

lemma frame_close_stream_next: "se_next s \<le> se_next (close_consumption_stream k s)"
  by (simp add: close_consumption_stream_def frames split: option.split)

lemma owned_close_stream [owned]: "session_ok X s \<Longrightarrow> session_ok X (close_consumption_stream k s)"
proof -
  have "session_ok X s \<Longrightarrow> session_ok X (s\<lparr>se_next := Suc (se_next s)\<rparr>)" for s
    by (erule owned_fields) (simp_all add: same_connection_def)
  then show "session_ok X s \<Longrightarrow> session_ok X (close_consumption_stream k s)"
    by (simp add: close_consumption_stream_def owned split: option.split)
qed

text \<open>Tasks that know nothing of the connection.\<close>

fun plain :: "task \<Rightarrow> bool" where
  "plain (Closing _) = True"
| "plain (Stopping _ _ _) = True"
| "plain (Opening_Wait _) = True"
| "plain Stream_Opening = True"
| "plain Stream_Abandoning = True"
| "plain (Pumping _) = True"
| "plain (Leaving _ _) = True"
| "plain (Pump_Closing _) = True"
| "plain _ = False"

lemma plain_task_ok: "plain t \<Longrightarrow> p < se_next s \<Longrightarrow> task_ok s p t"
  by (cases t) (simp_all add: task_ok_def)

lemma owned_suspend_plain [owned]:
  "session_ok X s \<Longrightarrow> task_of s p = None \<Longrightarrow> p < se_next s \<Longrightarrow> plain t \<Longrightarrow> session_ok X (suspend p t s)"
  by (blast intro: owned_suspend plain_task_ok)

lemma session_task_ok: "session_ok X s \<Longrightarrow> (p, t) \<in> set (se_tasks s) \<Longrightarrow> task_ok s p t"
  by (simp add: session_ok_def)

lemma session_task_named: "session_ok X s \<Longrightarrow> (p, t) \<in> set (se_tasks s) \<Longrightarrow> p < se_next s"
  by (drule (1) session_task_ok) (simp add: task_ok_def)

lemma no_task_is_next: "session_ok X s \<Longrightarrow> task_of s (se_next s) = None"
  by (cases "task_of s (se_next s)") (auto dest: map_of_SomeD session_task_named)

lemma owned_fresh [owned]:
  assumes "session_ok X s" and "plain t"
  shows "session_ok X (suspend (se_next s) t (s\<lparr>se_next := Suc (se_next s)\<rparr>))"
proof -
  have "session_ok X (s\<lparr>se_next := Suc (se_next s)\<rparr>)"
    using assms(1) by (rule owned_fields) (simp_all add: same_connection_def)
  then show ?thesis
    using assms no_task_is_next [OF assms(1)] by (auto intro: owned_suspend_plain)
qed

lemma task_named: "session_ok X s \<Longrightarrow> task_of s p = Some t \<Longrightarrow> p < se_next s"
  by (blast dest: map_of_SomeD session_task_named)

lemma owned_pump_finally [owned]:
  assumes "session_ok X s" and "task_of s q = None" and "q < se_next s"
  shows "session_ok X (pump_finally q k u s)"
proof -
  have "q < se_next (close_consumption_stream k (clear_empty_timer k (update_consumption k f s)))" for f
    using assms(3) frame_close_stream_next [of "clear_empty_timer k (update_consumption k f s)" k]
    by (simp add: frames)
  then show ?thesis
    using assms by (simp add: pump_finally_def Let_def owned frames)
qed

lemma owned_pump_caught [owned]:
  "session_ok X s \<Longrightarrow> task_of s q = None \<Longrightarrow> q < se_next s \<Longrightarrow> session_ok X (pump_caught q k e u s)"
  by (simp add: pump_caught_def owned frames)

lemma owned_pump_loop_ended [owned]:
  "session_ok X s \<Longrightarrow> task_of s q = None \<Longrightarrow> q < se_next s \<Longrightarrow> session_ok X (pump_loop_ended q k u s)"
  by (simp add: pump_loop_ended_def owned frames)

lemma owned_stop_consumption [owned]: "session_ok X s \<Longrightarrow> session_ok X (snd (stop_consumption s))"
proof -
  assume ok: "session_ok X s"
  have "session_ok X (s\<lparr>se_consumption := None, se_pending := None,
      se_consumption_generation := g\<rparr>)" for g
    using ok by (rule owned_fields) (simp_all add: same_connection_def)
  then show ?thesis
    by (simp add: stop_consumption_def Let_def owned split: option.split)
qed

lemma owned_stop_if_consuming [owned]: "session_ok X s \<Longrightarrow> session_ok X (snd (stop_if_consuming s))"
  by (simp add: stop_if_consuming_def owned)

lemma set_closure_keys: "fst ` set (set_closure c cl cls) = insert c (fst ` set cls)"
proof -
  have "map fst (map (\<lambda>(d, old). (d, if d = c then cl else old)) cls) = map fst cls"
    by (induction cls) auto
  then have "fst ` set (map (\<lambda>(d, old). (d, if d = c then cl else old)) cls) = fst ` set cls"
    by (metis list.set_map)
  then show ?thesis
    by (auto simp: set_closure_def)
qed

lemma closing_emit: "closing (emit out s) = closing s \<union> {c. out = Closing_Connection c}"
  by (auto simp: closing_def emit_def)

lemma owned_start_closing [owned]:
  assumes "session_ok X s"
  shows "session_ok X (snd (start_closing c s))"
proof -
  let ?cl = "\<lparr>cl_operation = se_next s, cl_pending = True\<rparr>"
  let ?s = "emit (Closing_Connection c)
     (s\<lparr>se_next := Suc (se_next s), se_closures := set_closure c ?cl (se_closures s)\<rparr>)"
  have "session_ok X ?s"
  proof (rule session_ok_same [OF assms])
    show "same_connection s ?s"
      by (simp add: same_connection_def emit_def)
    show "opened ?s = opened s"
      by (simp add: opened_def emit_def)
    show "closing s \<subseteq> closing ?s"
      by (auto simp: closing_def emit_def)
    have "fst ` set (se_closures s) \<subseteq> closing s"
      using assms by (simp add: session_ok_def)
    then show "fst ` set (se_closures ?s) \<subseteq> closing ?s"
      by (auto simp: closing_emit emit_def [of _ "_\<lparr>se_next := _, se_closures := _\<rparr>"] closing_def
          set_closure_keys)
  qed (simp add: emit_def)
  then show ?thesis
    using no_task_is_next [OF assms] by (simp add: start_closing_def Let_def owned frames)
qed

lemma owned_close_resources [owned]:
  "session_ok X s \<Longrightarrow> session_ok X (snd (close_connection_resources c s))"
  by (simp add: close_connection_resources_def owned split: option.split)

lemma owned_close_connections [owned]: "session_ok X s \<Longrightarrow> session_ok X (snd (close_connections cs s))"
proof (induction cs arbitrary: s)
  case (Cons c cs)
  from Cons.IH [OF owned_close_resources [OF Cons.prems]] show ?case
    by (simp only: close_connections_snd)
qed simp

lemma owned_close_tracked [owned]:
  "session_ok X s \<Longrightarrow> session_ok X (snd (close_tracked_connections c s))"
  by (simp add: close_tracked_connections_def owned)


subsection \<open>Publishing, failing and opening\<close>

lemma owned_publish:
  assumes ok: "session_ok X s" and idle: "\<And>q t a. (q, t) \<in> set (se_tasks s) \<Longrightarrow>
      attempt_of t = Some a \<Longrightarrow> \<not> is_current q a s"
    and "se_active s = None" and "sn_state snap \<noteq> Connected"
  shows "session_ok X (publish snap s)"
  unfolding session_ok_parts
proof (intro conjI allI impI)
  have tasks: "se_tasks (publish snap s) = se_tasks s"
    by (simp add: publish_def emit_def)
  show "distinct (map fst (se_tasks (publish snap s)))"
    using ok by (simp add: tasks session_ok_parts)
  have current: "is_current q a (publish snap s) = is_current q a s" for q a
    by (simp add: is_current_def publish_def emit_def)
  show "task_ok (publish snap s) q t" if "(q, t) \<in> set (se_tasks (publish snap s))" for q t
    using session_task_ok [OF ok, of q t] idle [of q t] that assms(3, 4)
    by (auto simp: task_ok_def tasks current) (auto simp: publish_def emit_def)
  show "connection_ok X (publish snap s)"
    using ok assms(3, 4) unfolding session_ok_parts connection_ok_def
    by (auto simp: publish_def emit_def opened_def closing_def held_connections_def)
qed

definition may_establish :: "nat \<Rightarrow> attempt \<Rightarrow> session \<Rightarrow> bool" where
  "may_establish p a s \<longleftrightarrow>
     p < se_next s \<and> at_generation a \<le> se_generation s \<and>
     (is_current p a s \<longrightarrow> awaiting_connection s) \<and>
     (\<forall>t. task_of s p = Some t \<longrightarrow> \<not> is_install t)"

lemma not_install: "\<forall>t. task_of s p = Some t \<longrightarrow> \<not> is_install t \<Longrightarrow>
    \<forall>a c. task_of s p \<noteq> Some (Establish_Install a c)"
  by auto

lemma task_may_establish:
  "session_ok X s \<Longrightarrow> task_of s p = Some t \<Longrightarrow> attempt_of t = Some a \<Longrightarrow> \<not> is_install t \<Longrightarrow>
   may_establish p a s"
  by (frule map_of_SomeD, drule (1) session_task_ok) (simp add: may_establish_def task_ok_def)

lemma take_task_same: "same_connection s (take_task p s)"
  by (simp add: same_connection_def take_task_def)

lemma finish_publish: "finish p outcome (publish snap s) = settle_promise p outcome (publish snap (take_task p s))"
  by (simp add: finish_def settle_promise_def publish_def take_task_def emit_def)

lemma controlled_alone:
  "is_current p a s \<Longrightarrow> is_current q b s \<Longrightarrow> q = p"
  by (simp add: is_current_def)

lemma owned_fail:
  assumes ok: "session_ok X s" and may: "may_establish p a s"
  shows "session_ok X (establish_fail p a e s)"
proof (cases "is_current p a s")
  case False
  then show ?thesis
    using ok may by (simp add: establish_fail_def owned not_install may_establish_def)
next
  case True
  have taken: "session_ok X (take_task p s)"
    using ok may by (intro owned_take_task not_install) (simp_all add: may_establish_def)
  have "\<not> is_current q b (take_task p s)" if "(q, t) \<in> set (se_tasks (take_task p s))" for q t b
    using that controlled_alone [OF True] by (auto simp: same_connection_current [OF take_task_same])
       (auto simp: take_task_def)
  moreover have "se_active (take_task p s) = None"
    using may True by (simp add: may_establish_def awaiting_connection_def take_task_def)
  ultimately have "session_ok X (publish \<lparr>sn_name = Some (at_name a), sn_state = Failed,
      sn_failure = Some e\<rparr> (take_task p s))"
    by (intro owned_publish [OF taken]) auto
  then show ?thesis
    using True by (simp add: establish_fail_def finish_publish owned)
qed

lemma owned_resume:
  assumes ok: "session_ok X s" and may: "may_establish p a s"
    and t: "attempt_of t = Some a" "\<not> is_install t" "cleanup_generation t = None"
  shows "session_ok X (suspend p t (take_task p s))"
proof (rule owned_suspend)
  show "session_ok X (take_task p s)"
    using ok may by (intro owned_take_task not_install) (simp_all add: may_establish_def)
  show "task_ok (take_task p s) p t"
    using may t task_ok_same [OF take_task_same]
    by (auto simp: may_establish_def task_ok_def same_connection_current [OF take_task_same]
        awaiting_connection_def) (auto simp: take_task_def)
qed (simp add: frames)

lemma may_establish_emit: "may_establish p a (emit out s) = may_establish p a s"
  by (simp add: may_establish_def is_current_def awaiting_connection_def emit_def)

lemma take_emit: "emit out (take_task p s) = take_task p (emit out s)"
  by (simp add: emit_def take_task_def)

lemma owned_open:
  assumes "session_ok X s" and "may_establish p a s"
  shows "session_ok X (establish_open p a s)"
proof -
  have "session_ok X (suspend p (Establish_Open a) (take_task p (emit (Opening_Connection p) s)))"
    using assms by (intro owned_resume) (simp_all add: owned may_establish_emit)
  then show ?thesis
    using assms by (simp add: establish_open_def owned_fail take_emit)
qed

subsection \<open>Closing the tracked connections\<close>

lemma same_connection_trans:
  "same_connection s s1 \<Longrightarrow> same_connection s1 s2 \<Longrightarrow> same_connection s s2"
  by (simp add: same_connection_def)

lemma resources_same: "same_connection s (snd (close_connection_resources c s))"
  by (simp add: close_connection_resources_def start_closing_def Let_def same_connection_def
      suspend_def emit_def split: option.split)

lemma connections_same: "same_connection s (snd (close_connections cs s))"
proof (induction cs arbitrary: s)
  case (Cons c cs)
  show ?case
    unfolding close_connections_snd by (rule same_connection_trans [OF resources_same Cons.IH])
qed simp

lemma resources_tasks:
  "p < se_next s \<Longrightarrow> task_of (snd (close_connection_resources c s)) p = task_of s p"
  by (auto simp: close_connection_resources_def start_closing_def Let_def suspend_def emit_def
      map_add_def split: option.split)

lemma connections_tasks:
  "p < se_next s \<Longrightarrow> task_of (snd (close_connections cs s)) p = task_of s p"
proof (induction cs arbitrary: s)
  case (Cons c cs)
  have "p < se_next (snd (close_connection_resources c s))"
    using Cons.prems resources_same [of s c] by (simp add: same_connection_def)
  then show ?case
    unfolding close_connections_snd using Cons by (simp add: resources_tasks)
qed simp

lemma resources_closing:
  assumes "session_ok X s"
  shows "insert c (closing s) \<subseteq> closing (snd (close_connection_resources c s))"
proof (cases "map_of (se_closures s) c")
  case None
  then show ?thesis
    by (auto simp: close_connection_resources_def start_closing_def Let_def closing_def suspend_def
        emit_def)
next
  case (Some cl)
  then have "c \<in> fst ` set (se_closures s)"
    by (metis image_eqI fst_conv map_of_SomeD)
  then have "c \<in> closing s"
    using assms by (auto simp: session_ok_def)
  with Some show ?thesis
    by (auto simp: close_connection_resources_def start_closing_def Let_def closing_def suspend_def
        emit_def)
qed

lemma connections_closing:
  "session_ok X s \<Longrightarrow> closing s \<union> set cs \<subseteq> closing (snd (close_connections cs s))"
proof (induction cs arbitrary: s)
  case (Cons c cs)
  have "closing (snd (close_connection_resources c s)) \<union> set cs
      \<subseteq> closing (snd (close_connections (c # cs) s))"
    unfolding close_connections_snd by (rule Cons.IH [OF owned_close_resources [OF Cons.prems]])
  then show ?case
    using resources_closing [OF Cons.prems, of c] by (auto simp del: close_connections.simps)
qed simp

lemma session_ok_closing: "session_ok (X \<union> Y) s \<Longrightarrow> Y \<subseteq> closing s \<Longrightarrow> session_ok X s"
  by (auto simp: session_ok_def)

lemma owned_close_previous:
  assumes "session_ok (X \<union> set_option c) s"
  shows "session_ok X (snd (close_tracked_connections c s))"
proof -
  have "set_option c \<subseteq> set (tracked_connections c s)"
    by (auto simp: tracked_connections_def Let_def)
  then have "set_option c \<subseteq> closing (snd (close_tracked_connections c s))"
    using connections_closing [OF assms] by (auto simp: close_tracked_connections_def)
  then show ?thesis
    using owned_close_tracked [OF assms] by (blast intro: session_ok_closing)
qed


subsection \<open>The calls of the host\<close>

text \<open>A call drops the connection in use, which is then owed a close, and every attempt is stale.\<close>

definition reset_to :: "session \<Rightarrow> session \<Rightarrow> bool" where
  "reset_to s s' \<longleftrightarrow>
     se_tasks s' = se_tasks s \<and> se_closures s' = se_closures s \<and> se_active s' = None \<and>
     se_generation s' = Suc (se_generation s) \<and> se_next s \<le> se_next s' \<and>
     (\<exists>snap. se_log s' = se_log s @ [Published snap]) \<and> sn_state (se_snapshot s') \<noteq> Connected \<and>
     (\<forall>p. se_controller s' = Some p \<longrightarrow> p < se_next s') \<and>
     (se_shutting s' \<longrightarrow> se_controller s' = None)"

lemma owned_reset:
  assumes ok: "session_ok X s" and calm: "\<not> installing s" and reset: "reset_to s s'"
  shows "session_ok (X \<union> set_option (se_active s)) s'"
  unfolding session_ok_parts
proof (intro conjI allI impI)
  have tasks: "se_tasks s' = se_tasks s"
    using reset by (simp add: reset_to_def)
  show "distinct (map fst (se_tasks s'))"
    using ok by (simp add: tasks session_ok_parts)
  show "task_ok s' p t" if "(p, t) \<in> set (se_tasks s')" for p t
  proof -
    have "task_ok s p t" and "\<not> is_install t"
      using that ok calm by (auto simp: tasks session_ok_parts installing_def)
    then show ?thesis
      using reset by (auto simp: task_ok_def reset_to_def is_current_def)
  qed
  have "held_connections s = set_option (se_active s)"
    using calm by (auto simp: held_connections_def installing_def)
  moreover have "opened s' = opened s" "closing s' = closing s"
    using reset by (auto simp: reset_to_def opened_def closing_def)
  ultimately show "connection_ok (X \<union> set_option (se_active s)) s'"
    using ok reset unfolding session_ok_parts connection_ok_def
    by (auto simp: reset_to_def)
qed

lemma installing_append: "installing s \<Longrightarrow> se_tasks s' = se_tasks s @ ts \<Longrightarrow> installing s'"
  by (auto simp: installing_def)

lemma stop_installing: "installing (snd (stop_if_consuming s)) = installing s"
  by (auto simp: stop_if_consuming_def stop_consumption_def Let_def installing_def suspend_def
      track_consumption_stop_def frames split: option.split)

lemma cancel_requests_fields:
  "se_tasks (snd (cancel_requests f s)) = se_tasks s"
  "se_closures (snd (cancel_requests f s)) = se_closures s"
  "se_active (snd (cancel_requests f s)) = se_active s"
  "se_generation (snd (cancel_requests f s)) = se_generation s"
  "se_next (snd (cancel_requests f s)) = se_next s"
  "se_log (snd (cancel_requests f s)) = se_log s"
  "se_snapshot (snd (cancel_requests f s)) = se_snapshot s"
  "se_controller (snd (cancel_requests f s)) = se_controller s"
  "se_shutting (snd (cancel_requests f s)) = se_shutting s"
  "se_aborted (snd (cancel_requests f s)) = se_aborted s"
  by (simp_all add: cancel_requests_def split: prod.split)

lemma owned_establish_start:
  assumes ok: "session_ok (X \<union> set_option previous) s" and may: "may_establish p a s"
    and free: "task_of s p = None"
  shows "session_ok X (establish_start p a previous stop latency s)"
proof (cases "previous = None \<and> latency = [] \<and> se_closures s = []")
  case True
  then have ok': "session_ok X s"
    using ok by simp
  have "task_ok s p (Establish_Clean a stop [] [])"
    using may by (simp add: may_establish_def task_ok_def)
  then show ?thesis
    using True ok' may free by (simp add: establish_start_def owned_open owned_suspend)
next
  case False
  let ?s = "snd (close_tracked_connections previous s)"
  have same: "same_connection s ?s"
    by (simp add: close_tracked_connections_def connections_same)
  have "p < se_next s"
    using may by (simp add: may_establish_def)
  then have free': "task_of ?s p = None"
    using free by (simp add: close_tracked_connections_def connections_tasks)
  have "task_ok s p (Establish_Clean a stop closes latency)" for closes
    using may by (simp add: may_establish_def task_ok_def)
  then have "session_ok X (suspend p (Establish_Clean a stop closes latency) ?s)" for closes
    by (intro owned_suspend owned_close_previous [OF ok] free' task_ok_same [OF same])
  then show ?thesis
    using False by (auto simp: establish_start_def case_prod_beta)
qed

lemma owned_connect:
  assumes ok: "session_ok X s" and calm: "\<not> installing s"
  shows "session_ok X (snd (connect name brokers external s))"
proof (cases "se_shutting s \<or> signal_aborted external s")
  case True
  then show ?thesis
    using ok by (auto simp: connect_def)
next
  case False
  define s1 where "s1 = snd (stop_if_consuming s)"
  define s2 where "s2 = snd (cancel_requests cancel_for_reconnect
      (s1\<lparr>se_generation := Suc (se_generation s1)\<rparr>))"
  define s3 where "s3 = abort_attempt s2"
  define s4 where "s4 = publish \<lparr>sn_name = Some name, sn_state = Connecting, sn_failure = None\<rparr>
      (drop_connection (s3\<lparr>se_next := Suc (se_next s3), se_controller := Some (se_next s3)\<rparr>))"
  define a where "a = \<lparr>at_name = name, at_brokers = brokers,
      at_generation = Suc (se_generation s1), at_external = external\<rparr>"
  have ok1: "session_ok X s1" and calm1: "\<not> installing s1"
    using ok calm by (simp_all add: s1_def owned stop_installing)
  have shut: "\<not> se_shutting s1"
    using False by (simp add: s1_def stop_if_consuming_def stop_consumption_def Let_def
        halt_def suspend_def track_consumption_stop_def close_consumption_stream_def emit_def
        update_consumption_def clear_empty_timer_def split: option.split)
  note fields = s4_def s3_def s2_def publish_def emit_def drop_connection_def abort_attempt_def
    cancel_requests_fields
  have "reset_to s1 s4"
    using shut by (simp add: reset_to_def fields)
  from owned_reset [OF ok1 calm1 this]
  have ok4: "session_ok (X \<union> set_option (se_active s3)) s4"
    by (simp add: fields)
  have "task_of s4 (se_next s3) = None"
    using no_task_is_next [OF ok1] by (simp add: fields)
  moreover from this have "may_establish (se_next s3) a s4"
    by (simp add: may_establish_def awaiting_connection_def a_def) (simp add: fields)
  ultimately have ok5: "session_ok X (establish_start (se_next s3) a (se_active s3) stop latency s4)"
    for stop latency
    using ok4 by (intro owned_establish_start)
  have "session_ok X ((establish_start (se_next s3) a (se_active s3) stop latency s4)
      \<lparr>se_attempt := q\<rparr>)" for stop latency q
    by (rule owned_fields [OF ok5 [of stop latency]]) (simp_all add: same_connection_def)
  then show ?thesis
    using False unfolding connect_def Let_def case_prod_beta
    by (simp add: s1_def s2_def s3_def s4_def a_def)
qed

text \<open>The cleanup a call leaves behind.\<close>

lemma owned_suspend_cleanup:
  assumes ok: "session_ok X s" and "cleanup_generation t = Some (se_generation s)"
    and "attempt_of t = None" and "se_controller s = None" and "se_active s = None"
    and "sn_state (se_snapshot s) \<noteq> Connected"
  shows "session_ok X (suspend (se_next s) t (s\<lparr>se_next := Suc (se_next s)\<rparr>))"
    and "session_ok X (suspend (se_next s) t
      (s\<lparr>se_next := Suc (se_next s), se_shutdown := Some (se_next s)\<rparr>))"
proof -
  have "session_ok X (s\<lparr>se_next := Suc (se_next s)\<rparr>)"
    by (rule owned_fields [OF ok]) (simp_all add: same_connection_def)
  moreover have "task_ok (s\<lparr>se_next := Suc (se_next s)\<rparr>) (se_next s) t"
    using assms by (simp add: task_ok_def)
  ultimately show "session_ok X (suspend (se_next s) t (s\<lparr>se_next := Suc (se_next s)\<rparr>))"
    using no_task_is_next [OF ok] by (intro owned_suspend) simp_all
  have "session_ok X (s\<lparr>se_next := Suc (se_next s), se_shutdown := Some (se_next s)\<rparr>)"
    by (rule owned_fields [OF ok]) (simp_all add: same_connection_def)
  moreover have "task_ok (s\<lparr>se_next := Suc (se_next s), se_shutdown := Some (se_next s)\<rparr>)
      (se_next s) t"
    using assms by (simp add: task_ok_def)
  ultimately show "session_ok X (suspend (se_next s) t
      (s\<lparr>se_next := Suc (se_next s), se_shutdown := Some (se_next s)\<rparr>))"
    using no_task_is_next [OF ok] by (intro owned_suspend) simp_all
qed


lemma owned_leave:
  assumes ok: "session_ok (X \<union> set_option active) s" and idle: "se_controller s = None"
    "se_active s = None" "sn_state (se_snapshot s) \<noteq> Connected"
    and s1: "s1 = snd (close_tracked_connections active s)"
    and t: "cleanup_generation t = Some (se_generation s)" "attempt_of t = None"
  shows "session_ok X (suspend (se_next s1) t (s1\<lparr>se_next := Suc (se_next s1)\<rparr>))"
    and "session_ok X (suspend (se_next s1) t
      (s1\<lparr>se_next := Suc (se_next s1), se_shutdown := Some (se_next s1)\<rparr>))"
proof -
  have ok1: "session_ok X s1"
    unfolding s1 by (rule owned_close_previous [OF ok])
  have "same_connection s s1"
    by (simp add: s1 close_tracked_connections_def connections_same)
  then have "se_generation s1 = se_generation s" "se_controller s1 = None" "se_active s1 = None"
    "sn_state (se_snapshot s1) \<noteq> Connected"
    using idle by (simp_all add: same_connection_def)
  with ok1 t show "session_ok X (suspend (se_next s1) t (s1\<lparr>se_next := Suc (se_next s1)\<rparr>))"
    and "session_ok X (suspend (se_next s1) t
      (s1\<lparr>se_next := Suc (se_next s1), se_shutdown := Some (se_next s1)\<rparr>))"
    by (simp_all add: owned_suspend_cleanup)
qed

text \<open>What disconnecting and shutting down have in common, up to the close.\<close>

definition left :: "bool \<Rightarrow> session \<Rightarrow> session" where
  "left down s =
     (let s1 = snd (stop_if_consuming s);
          s2 = snd (cancel_requests (cancel_class Topics)
                 (if down then s1\<lparr>se_shutting := True, se_generation := Suc (se_generation s1)\<rparr>
                  else s1\<lparr>se_generation := Suc (se_generation s1)\<rparr>));
          s3 = snd (cancel_requests cancel_administrative_requests s2);
          s4 = abandon (snd (cancel_requests (cancel_class Latencies) s3)) in
      if down then snd (cancel_requests (cancel_class Temporary_Tests) s4) else s4)"

definition leaving :: "bool \<Rightarrow> session \<Rightarrow> session" where
  "leaving down s =
     publish \<lparr>sn_name = sn_name (se_snapshot (left down s)), sn_state = Disconnecting,
              sn_failure = None\<rparr> (drop_connection (left down s))"

lemma owned_leaving:
  assumes ok: "session_ok X s" and calm: "\<not> installing s"
  shows "session_ok (X \<union> set_option (se_active (left down s))) (leaving down s)"
    and "se_controller (leaving down s) = None" and "se_active (leaving down s) = None"
    and "sn_state (se_snapshot (leaving down s)) \<noteq> Connected"
    and "se_generation (leaving down s) = Suc (se_generation (snd (stop_if_consuming s)))"
proof -
  let ?s1 = "snd (stop_if_consuming s)"
  note fields = left_def leaving_def publish_def emit_def drop_connection_def abandon_def
    abort_attempt_def cancel_requests_fields Let_def
  have "session_ok X ?s1" "\<not> installing ?s1"
    using ok calm by (simp_all add: owned stop_installing)
  moreover have "reset_to ?s1 (leaving down s)"
    by (simp add: reset_to_def fields)
  moreover have "se_active ?s1 = se_active (left down s)"
    by (simp add: fields)
  ultimately show "session_ok (X \<union> set_option (se_active (left down s))) (leaving down s)"
    using owned_reset by metis
  show "se_controller (leaving down s) = None" "se_active (leaving down s) = None"
    "sn_state (se_snapshot (leaving down s)) \<noteq> Connected"
    "se_generation (leaving down s) = Suc (se_generation ?s1)"
    by (simp_all add: fields)
qed

lemma owned_disconnect:
  assumes ok: "session_ok X s" and calm: "\<not> installing s"
  shows "session_ok X (snd (disconnect s))"
proof (cases "se_shutting s")
  case True
  then show ?thesis
    using ok by (simp add: disconnect_def)
next
  case False
  note leave = owned_leave(1) [OF owned_leaving(1-4) [OF ok calm, of False] refl]
  show ?thesis
    using False unfolding disconnect_def Let_def case_prod_beta
    by (simp only: if_False snd_conv)
       (rule leave [unfolded leaving_def left_def Let_def, simplified if_False];
        simp add: owned_leaving(5) [OF ok calm, unfolded leaving_def left_def Let_def, of False, simplified])
qed

lemma owned_shutdown:
  assumes ok: "session_ok X s" and calm: "\<not> installing s"
  shows "session_ok X (snd (shutdown s))"
proof (cases "se_shutdown s")
  case (Some d)
  then show ?thesis
    using ok by (simp add: shutdown_def)
next
  case None
  note leave = owned_leave(2) [OF owned_leaving(1-4) [OF ok calm, of True] refl]
  show ?thesis
    unfolding shutdown_def Let_def case_prod_beta None option.case
    by (simp only: snd_conv)
       (rule leave [unfolded leaving_def left_def Let_def, simplified if_True];
        simp add: owned_leaving(5) [OF ok calm, unfolded leaving_def left_def Let_def, of True, simplified])
qed

subsection \<open>The continuations of an attempt\<close>

lemma establish_tasks:
  assumes "session_ok X s" and "task_of s p = Some t" and "attempt_of t = Some a" and "\<not> is_install t"
  shows "session_ok X (establish_fail p a e s)" and "session_ok X (establish_open p a s)"
  using assms owned_fail owned_open task_may_establish by blast+

lemma owned_cleaned: "session_ok X s \<Longrightarrow> establish_cleaned p deadline late s = Some s' \<Longrightarrow> session_ok X s'"
  by (auto simp: establish_cleaned_def split: option.splits task.splits if_splits
      intro: establish_tasks)

lemma owned_open_failed: "session_ok X s \<Longrightarrow> establish_open_failed p e s = Some s' \<Longrightarrow> session_ok X s'"
  by (auto simp: establish_open_failed_def split: option.splits task.splits intro: establish_tasks)

lemma owned_abandoned_closed: "session_ok X s \<Longrightarrow> abandoned_closed p r s = Some s' \<Longrightarrow> session_ok X s'"
  by (auto simp: abandoned_closed_def split: option.splits task.splits intro: establish_tasks)

text \<open>A connection the port has just opened is owed an owner.\<close>

lemma owned_new_connection:
  assumes ok: "session_ok X s"
  shows "session_ok (insert (se_next s) X)
    (emit (Opened_Connection (se_next s)) (s\<lparr>se_next := Suc (se_next s)\<rparr>))"
proof -
  let ?s = "emit (Opened_Connection (se_next s)) (s\<lparr>se_next := Suc (se_next s)\<rparr>)"
  have same: "same_connection s ?s"
    by (simp add: same_connection_def emit_def)
  have "opened ?s = insert (se_next s) (opened s)" "closing ?s = closing s" "held_connections ?s = held_connections s"
    by (auto simp: opened_def closing_def held_connections_def emit_def)
  then show ?thesis
    using ok task_ok_same [OF same] unfolding session_ok_parts connection_ok_def
    by (auto simp: emit_def)
qed

lemma owned_opened:
  assumes ok: "session_ok X s" and step: "establish_opened p s = Some s'"
  shows "session_ok X s'"
proof -
  obtain a where t: "task_of s p = Some (Establish_Open a)"
    using step by (auto simp: establish_opened_def split: option.splits task.splits)
  define c where "c = se_next s"
  define s0 where "s0 = emit (Opened_Connection c) (s\<lparr>se_next := Suc c\<rparr>)"
  define s1 where "s1 = take_task p s0"
  have ok0: "session_ok (insert c X) s0"
    using owned_new_connection [OF ok] by (simp add: s0_def c_def)
  have t0: "task_of s0 p = Some (Establish_Open a)"
    using t by (simp add: s0_def emit_def)
  have may: "may_establish p a s0"
    by (rule task_may_establish [OF ok0 t0]) simp_all
  have close: "session_ok X (suspend p u (emit (Closing_Connection c) s1))"
    if "attempt_of u = Some a" "\<not> is_install u" "cleanup_generation u = None" for u
  proof (rule session_ok_closing [of X "{c}"])
    have "session_ok (insert c X) (emit (Closing_Connection c) s0)"
      using ok0 by (simp add: owned)
    then have "session_ok (insert c X) (suspend p u (take_task p (emit (Closing_Connection c) s0)))"
      using may that by (intro owned_resume) (simp_all add: may_establish_emit)
    then show "session_ok (X \<union> {c}) (suspend p u (emit (Closing_Connection c) s1))"
      by (simp add: s1_def take_emit)
    show "{c} \<subseteq> closing (suspend p u (emit (Closing_Connection c) s1))"
      by (simp add: closing_def suspend_def emit_def)
  qed
  have install: "session_ok X (suspend p (Establish_Install a c) s1)" if current: "is_current p a s1"
  proof -
    have ok1: "session_ok (insert c X) s1"
      using ok0 t0 by (simp add: s1_def owned)
    have current0: "is_current p a s0"
      using current same_connection_current [OF take_task_same] by (simp add: s1_def)
    have "task_ok s1 p (Establish_Install a c)"
      using may current current0 by (auto simp: may_establish_def task_ok_def awaiting_connection_def)
        (auto simp: s1_def take_task_def)
    then have "session_ok (insert c X) (suspend p (Establish_Install a c) s1)"
      using ok1 by (intro owned_suspend) (simp_all add: s1_def frames)
    moreover have "c \<in> held_connections (suspend p (Establish_Install a c) s1)"
      by (auto simp: held_connections_def suspend_def)
    ultimately show ?thesis
      by (auto simp: session_ok_def)
  qed
  show ?thesis
    using step close install t
    by (auto simp: establish_opened_def Let_def s1_def s0_def c_def split: if_splits)
qed

lemma owned_installed:
  assumes ok: "session_ok X s" and step: "establish_installed p s = Some s'"
  shows "session_ok X s'"
proof -
  obtain a c where t: "task_of s p = Some (Establish_Install a c)"
    using step by (auto simp: establish_installed_def split: option.splits task.splits)
  then have t': "(p, Establish_Install a c) \<in> set (se_tasks s)"
    by (rule map_of_SomeD)
  have "task_ok s p (Establish_Install a c)"
    by (rule session_task_ok [OF ok t'])
  then have current: "is_current p a s" and active: "se_active s = None"
    by (auto simp: task_ok_def awaiting_connection_def)
  have only: "q = p" if "(q, u) \<in> set (se_tasks s)" "attempt_of u = Some b" "is_current q b s" for q u b
    using that(3) current controlled_alone by blast
  have holds: "d = c" if "(q, Establish_Install b d) \<in> set (se_tasks s)" for q b d
  proof -
    have "q = p"
      using session_task_ok [OF ok that] that only by (auto simp: task_ok_def)
    then show ?thesis
      using that t' ok by (auto simp: session_ok_def dest: eq_key_imp_eq_value)
  qed
  have s': "s' = finish p (Fulfilled ()) (publish \<lparr>sn_name = Some (at_name a), sn_state = Connected,
      sn_failure = None\<rparr> (s\<lparr>se_active := Some c, se_brokers := Some (at_brokers a)\<rparr>))"
    using step t by (simp add: establish_installed_def)
  have fields: "se_tasks s' = filter (\<lambda>(q, _). q \<noteq> p) (se_tasks s)" "se_active s' = Some c"
    "sn_state (se_snapshot s') = Connected" "se_next s' = se_next s" "se_closures s' = se_closures s"
    "se_controller s' = se_controller s" "se_shutting s' = se_shutting s"
    "se_generation s' = se_generation s" "se_aborted s' = se_aborted s"
    "opened s' = opened s" "closing s' = closing s"
    by (simp_all add: s' finish_def settle_promise_def publish_def emit_def take_task_def opened_def closing_def)
  show ?thesis
    unfolding session_ok_parts
  proof (intro conjI allI impI)
    show "distinct (map fst (se_tasks s'))"
      using ok by (simp add: session_ok_def fields distinct_map_filter)
    show "task_ok s' q u" if "(q, u) \<in> set (se_tasks s')" for q u
      using that session_task_ok [OF ok, of q u] only [of q u] current
      by (auto simp: task_ok_def fields is_current_def)
    have "held_connections s \<subseteq> held_connections s'"
      using holds active by (auto simp: held_connections_def fields)
    then show "connection_ok X s'"
      using ok current unfolding session_ok_parts connection_ok_def
      by (auto simp: fields is_current_def)
  qed
qed


lemma owned_clear_attempt:
  assumes ok: "session_ok X s" and step: "clear_attempt p s = Some s'"
  shows "session_ok X s'"
proof -
  have free: "task_of s p = None"
    and s': "s' = s\<lparr>se_attempt := (if se_attempt s = Some p then None else se_attempt s),
      se_controller := (if se_controller s = Some p then None else se_controller s)\<rparr>"
    using step by (auto simp: clear_attempt_def split: if_splits)
  have other: "q \<noteq> p" if "(q, t) \<in> set (se_tasks s)" for q t
    using that free by (auto simp: map_of_eq_None_iff image_iff)
  show ?thesis
    unfolding session_ok_parts
  proof (intro conjI allI impI)
    show "distinct (map fst (se_tasks s'))"
      using ok by (simp add: s' session_ok_def)
    show "task_ok s' q t" if "(q, t) \<in> set (se_tasks s')" for q t
      using session_task_ok [OF ok, of q t] other [of q t] that
      by (auto simp: task_ok_def s' is_current_def awaiting_connection_def)
    show "connection_ok X s'"
      using ok unfolding session_ok_parts connection_ok_def
      by (auto simp: s' opened_def closing_def held_connections_def)
  qed
qed

lemma owned_cleanup_done:
  assumes ok: "session_ok X s" and step: "cleanup_done d deadline late s = Some s'"
  shows "session_ok X s'"
proof -
  obtain kind g name closes attempt stop others
    where t: "task_of s d = Some (Cleaning_Up kind g name closes attempt stop others)"
    using step by (auto simp: cleanup_done_def split: option.splits task.splits)
  have task: "task_ok s d (Cleaning_Up kind g name closes attempt stop others)"
    using session_task_ok [OF ok map_of_SomeD [OF t]] .
  define fs where "fs = cleaning_failures kind deadline late closes attempt stop others s"
  define snap where "snap = (case fs of
      [] \<Rightarrow> \<lparr>sn_name = None, sn_state = Disconnected, sn_failure = None\<rparr>
    | e # _ \<Rightarrow> \<lparr>sn_name = (if kind = Shutdown_Cleanup then sn_name (se_snapshot s) else name), sn_state = Failed, sn_failure = Some e\<rparr>)"
  have "sn_state snap \<noteq> Connected"
    by (simp add: snap_def split: list.split)
  moreover have s': "s' = finish d (if fs = [] then Fulfilled () else Rejected (cleanup_error kind fs))
      (if g \<noteq> se_generation s then s else publish snap s)"
  proof -
    have "deadline \<or> all_settled s (closes @ case_option [] (\<lambda>p. [p]) attempt @ others) \<and>
        stop_waited s stop late"
      using step t by (simp add: cleanup_done_def split: if_split_asm)
    then show ?thesis
      using step t unfolding snap_def fs_def by (simp add: cleanup_done_def Let_def split del: if_split)
  qed
  moreover have "session_ok X (publish snap s)" if "g = se_generation s"
  proof (rule owned_publish [OF ok])
    show "\<not> is_current q a s" for q a
      using task that by (simp add: task_ok_def is_current_def)
    show "se_active s = None" "sn_state snap \<noteq> Connected"
      using task that \<open>sn_state snap \<noteq> Connected\<close> by (simp_all add: task_ok_def)
  qed
  moreover have "task_of (publish snap s) d = task_of s d"
    by (simp add: publish_def emit_def)
  ultimately show ?thesis
    using ok t by (auto simp: s' intro!: owned_finish)
qed

lemma owned_connection_closed:
  assumes ok: "session_ok X s" and step: "connection_closed op outcome s = Some s'"
  shows "session_ok X s'"
proof -
  obtain c where t: "task_of s op = Some (Closing c)" and s': "s' = closing_settled op c outcome s"
    using step by (auto simp: connection_closed_def split: option.splits task.splits)
  have keep: "session_ok X (finish op r (s2\<lparr>se_closures := cls\<rparr>))"
    if "session_ok X s2" "se_tasks s2 = se_tasks s" "se_closures s2 = se_closures s"
      "fst ` set cls \<subseteq> fst ` set (se_closures s)" for r s2 cls
  proof -
    have "session_ok X (s2\<lparr>se_closures := cls\<rparr>)"
      by (rule owned_fields [OF that(1)]) (use that in \<open>simp_all add: same_connection_def\<close>)
    then show ?thesis
      using t that(2) by (intro owned_finish) simp_all
  qed
  have fields: "se_tasks (forget_stop s2) = se_tasks s2" "se_closures (forget_stop s2) = se_closures s2"
    for s2
    by (simp_all add: forget_stop_def)
  show ?thesis
  proof (cases outcome)
    case (Fulfilled u)
    have closed: "session_ok X (s\<lparr>se_closed := insert c (se_closed s)\<rparr>)"
      by (rule owned_fields [OF ok]) (simp_all add: same_connection_def)
    show ?thesis
      unfolding s' closing_settled_def Let_def Fulfilled settlement.case
      by (rule keep) (auto simp: closed owned fields)
  next
    case (Rejected e)
    have keys: "fst ` set (map (\<lambda>(d, cl). (d, f d cl)) cls) = fst ` set cls"
      for f :: "nat \<Rightarrow> closure \<Rightarrow> closure" and cls
      by (induction cls) auto
    show ?thesis
      unfolding s' closing_settled_def Rejected settlement.case
      by (rule keep [OF ok refl refl]) (simp only: keys [where f = "\<lambda>d cl. if d = c \<and> cl_operation cl = op
          then cl\<lparr>cl_pending := False\<rparr> else cl"] order_refl)
  qed
qed

lemma owned_observe_stop: "session_ok X s \<Longrightarrow> observe_stop s = Some s' \<Longrightarrow> session_ok X s'"
proof -
  assume ok: "session_ok X s" and step: "observe_stop s = Some s'"
  have "session_ok X (s\<lparr>se_stop_settled := b\<rparr>)" for b
    by (rule owned_fields [OF ok]) (simp_all add: same_connection_def)
  then show ?thesis
    using step by (auto simp: observe_stop_def Let_def owned split: option.splits if_splits)
qed

lemma owned_stop_done: "session_ok X s \<Longrightarrow> stop_done op n s = Some s' \<Longrightarrow> session_ok X s'"
  by (erule stop_doneE)
     (auto simp: finish_with_checkpoint_def report_checkpoint_def owned frames split: notice.split)


subsection \<open>Consumptions and requests\<close>

lemma owned_start_consumption:
  assumes "session_ok X s"
  shows "session_ok X (snd (start_consumption tail external s))"
proof -
  let ?s = "snd (stop_consumption s)"
  have ok: "session_ok X ?s"
    using assms by (rule owned_stop_consumption)
  have "session_ok X (?s\<lparr>se_next := Suc (se_next ?s), se_pending := k, se_consumptions := cs\<rparr>)" for k cs
    by (rule owned_fields [OF ok]) (simp_all add: same_connection_def)
  then have "session_ok X (suspend (se_next ?s) (Opening_Wait stop)
      (?s\<lparr>se_next := Suc (se_next ?s), se_pending := k, se_consumptions := cs\<rparr>))" for stop k cs
    using no_task_is_next [OF ok] by (intro owned_suspend_plain) simp_all
  then show ?thesis
    using ok assms unfolding start_consumption_def Let_def case_prod_beta
    by (simp split: option.split)
qed

lemma owned_consumption_waited:
  assumes ok: "session_ok X s" and step: "consumption_waited k late s = Some s'"
  shows "session_ok X s'"
proof -
  obtain stop where t: "task_of s k = Some (Opening_Wait stop)"
    using step by (auto simp: consumption_waited_def split: option.splits task.splits)
  show ?thesis
    using step t ok task_named [OF ok t]
    by (auto simp: consumption_waited_def owned frames split: if_splits list.splits)
qed

lemma owned_pump_start [owned]:
  "session_ok X s \<Longrightarrow> task_of s q = None \<Longrightarrow> q < se_next s \<Longrightarrow> session_ok X (pump_start q k tail sub s)"
  by (simp add: pump_start_def owned frames split: subscription.split)

lemma owned_stream_opened:
  assumes ok: "session_ok X s" and step: "stream_opened k sub s = Some s'"
  shows "session_ok X s'"
proof -
  obtain c where t: "task_of s k = Some Stream_Opening"
    using step by (auto simp: stream_opened_def split: option.splits task.splits)
  define s1 where "s1 = emit (Opened_Stream k) s"
  have ok1: "session_ok X s1" and t1: "task_of s1 k = Some Stream_Opening" and k: "k < se_next s1"
    using ok t task_named [OF ok t] by (simp_all add: s1_def owned frames)
  have "session_ok X (s1\<lparr>se_next := Suc (se_next s1), se_pending := None, se_consumption := Some k\<rparr>)"
    (is "session_ok X ?s2")
    by (rule owned_fields [OF ok1]) (simp_all add: same_connection_def)
  then have "session_ok X (finish k (Fulfilled ()) (update_consumption k f ?s2))" for f
    using t1 by (simp add: owned frames)
  moreover have "task_of (finish k (Fulfilled ()) (update_consumption k f ?s2)) (se_next s1) = None"
    for f
    using no_task_is_next [OF ok1]
    by (auto simp: finish_def settle_promise_def take_task_def update_consumption_def map_of_eq_None_iff)
  moreover have "se_next (finish k (Fulfilled ()) (update_consumption k f ?s2)) = Suc (se_next s1)" for f
    by (simp add: finish_def frames)
  ultimately have "session_ok X (pump_start (se_next s1) k tail sub
      (finish k (Fulfilled ()) (update_consumption k f ?s2)))" for tail f
    by (intro owned_pump_start) simp_all
  then show ?thesis
    using step t ok1 t1 k unfolding stream_opened_def Let_def s1_def [symmetric]
    by (auto simp: owned frames split: option.splits if_splits)
qed

lemma owned_stream_next:
  assumes ok: "session_ok X s" and step: "stream_next q result u s = Some s'"
  shows "session_ok X s'"
proof -
  obtain k where t: "task_of s q = Some (Pumping k)"
    using step by (auto simp: stream_next_def split: option.splits task.splits)
  show ?thesis
    using step t ok task_named [OF ok t]
    by (auto simp: stream_next_def Let_def owned frames split: next_result.splits option.splits if_splits)
qed

lemma owned_loop_left:
  assumes ok: "session_ok X s" and step: "loop_left q r u s = Some s'"
  shows "session_ok X s'"
proof -
  obtain k e where t: "task_of s q = Some (Leaving k e)"
    using step by (auto simp: loop_left_def split: option.splits task.splits)
  show ?thesis
    using step t ok task_named [OF ok t]
    by (auto simp: loop_left_def owned frames split: option.splits)
qed

lemma owned_coverage_received: "session_ok X s \<Longrightarrow> coverage_received k th s = Some s' \<Longrightarrow> session_ok X s'"
  by (auto simp: coverage_received_def Let_def owned split: option.splits if_splits)

lemma owned_coverage_close_failed:
  "session_ok X s \<Longrightarrow> coverage_close_failed k s = Some s' \<Longrightarrow> session_ok X s'"
  by (auto simp: coverage_close_failed_def Let_def owned split: option.splits settlement.splits if_splits)

lemma owned_empty_elapsed: "session_ok X s \<Longrightarrow> empty_elapsed k s = Some s' \<Longrightarrow> session_ok X s'"
  by (auto simp: empty_elapsed_def Let_def owned split: option.splits if_splits)

lemma owned_final_reports [owned]: "session_ok X s \<Longrightarrow> session_ok X (final_reports k b s)"
  by (simp add: final_reports_def report_coverage_def report_checkpoint_def owned split: notice.split)

lemma owned_final_completion [owned]: "session_ok X s \<Longrightarrow> session_ok X (final_completion k b s)"
  by (simp add: final_completion_def Let_def owned split: option.split)

lemma owned_final_failure [owned]:
  assumes "session_ok X s"
  shows "session_ok X (final_failure k b s)"
proof -
  have "session_ok X (s1\<lparr>se_next := Suc (se_next s1)\<rparr>)" if "session_ok X s1" for s1
    by (rule owned_fields [OF that]) (simp_all add: same_connection_def)
  then show ?thesis
    using assms by (simp add: final_failure_def Let_def owned split: option.split)
qed

lemma owned_close_failed [owned]: "session_ok X s \<Longrightarrow> session_ok X (close_failed k c e s)"
  by (simp add: close_failed_def owned)

lemma tasks_final [frames]:
  "se_tasks (final_reports k b s) = se_tasks s"
  "se_tasks (final_completion k b s) = se_tasks s"
  "se_tasks (final_failure k b s) = se_tasks s"
  "se_tasks (close_failed k c e s) = se_tasks s"
  by (simp_all add: final_reports_def report_coverage_def report_checkpoint_def final_completion_def
      final_failure_def close_failed_def track_consumption_stop_def Let_def frames
      split: notice.split option.split)

lemma owned_pump_closed:
  assumes ok: "session_ok X s" and step: "pump_closed q b s = Some s'"
  shows "session_ok X s'"
proof -
  obtain k where t: "task_of s q = Some (Pump_Closing k)"
    using step by (auto simp: pump_closed_def split: option.splits task.splits)
  have inactive: "session_ok X (s2\<lparr>se_consumption := None\<rparr>)" if "session_ok X s2" for s2
    by (rule owned_fields [OF that]) (simp_all add: same_connection_def)
  show ?thesis
    using step t ok
    by (auto simp: pump_closed_def Let_def owned frames inactive
        split: option.splits settlement.splits if_splits)
qed

lemma owned_request: "session_ok X s \<Longrightarrow> session_ok X (snd (start_session_request call supported s))"
  by (erule owned_fields) (simp_all add: start_session_request_def Let_def same_connection_def split: prod.split)

lemma owned_request_settled: "session_ok X s \<Longrightarrow> request_settled op r s = Some s' \<Longrightarrow> session_ok X s'"
proof -
  assume ok: "session_ok X s" and step: "request_settled op r s = Some s'"
  have "session_ok X (s\<lparr>se_requests := x\<rparr>)" for x
    by (rule owned_fields [OF ok]) (simp_all add: same_connection_def)
  then show ?thesis
    using step by (auto simp: request_settled_def owned split: option.splits)
qed

subsection \<open>Steps and calm runs\<close>

lemma owned_step:
  assumes ok: "session_ok X s" and calm: "is_lifecycle e \<Longrightarrow> \<not> installing s"
    and step: "session_step e s = Some s'"
  shows "session_ok X s'"
proof -
  have external: "session_ok X (s\<lparr>se_external_aborted := x\<rparr>)" for x
    by (rule owned_fields [OF ok]) (simp_all add: same_connection_def)
  have pending: "session_ok X (s\<lparr>se_pending := x\<rparr>)" for x
    by (rule owned_fields [OF ok]) (simp_all add: same_connection_def)
  show ?thesis
  proof (cases e)
    case (Stream_Failed k r)
    then show ?thesis
      using step ok by (auto simp: stream_failed_def owned split: option.splits task.splits)
  next
    case (Stream_Abandoned k r)
    then show ?thesis
      using step ok by (auto simp: stream_abandoned_def owned split: option.splits task.splits)
  next
    case (Stream_Closed k r)
    then show ?thesis
      using step ok by (auto simp: stream_closed_def owned split: option.splits if_splits)
  next
    case (Start_Over k)
    then show ?thesis
      using step ok pending by (auto simp: clear_pending_def split: if_splits)
  qed (use step calm ok external in \<open>auto simp: owned_connect owned_disconnect owned_shutdown
      owned_start_consumption owned_stop_consumption owned_request
    intro: owned_cleaned owned_opened owned_open_failed owned_abandoned_closed owned_installed
      owned_clear_attempt owned_connection_closed owned_cleanup_done owned_stop_done
      owned_observe_stop owned_consumption_waited owned_stream_opened owned_stream_next
      owned_loop_left owned_coverage_received owned_coverage_close_failed owned_empty_elapsed
      owned_pump_closed owned_request_settled\<close>)
qed

lemma owned_run:
  "session_ok X s \<Longrightarrow> calm_run es s \<Longrightarrow> session_run es s = Some s' \<Longrightarrow> session_ok X s'"
proof (induction es arbitrary: s)
  case (Cons e es)
  from Cons.prems(3) obtain s1 where s1: "session_step e s = Some s1" "session_run es s1 = Some s'"
    by (auto split: option.splits)
  with Cons.prems(2) have "is_lifecycle e \<longrightarrow> \<not> installing s" "calm_run es s1"
    by simp_all
  with Cons.prems(1) s1 show ?case
    using Cons.IH [of s1] owned_step [of X s e s1] by blast
qed simp


section \<open>Ownership\<close>

definition unclosed :: "session \<Rightarrow> nat set" where
  "unclosed s = opened s - closing s"

lemma install_unique:
  assumes ok: "session_ok X s" and "(p, Establish_Install a c) \<in> set (se_tasks s)"
    and "(q, Establish_Install b d) \<in> set (se_tasks s)"
  shows "c = d \<and> se_active s = None"
proof -
  have "is_current p a s" "is_current q b s" "se_active s = None"
    using session_task_ok [OF ok assms(2)] session_task_ok [OF ok assms(3)]
    by (auto simp: task_ok_def awaiting_connection_def)
  moreover from this have "q = p"
    by (blast intro: controlled_alone)
  ultimately show ?thesis
    using assms by (auto simp: session_ok_def dest: eq_key_imp_eq_value)
qed

lemma held_unique: "session_ok X s \<Longrightarrow> c \<in> held_connections s \<Longrightarrow> d \<in> held_connections s \<Longrightarrow> c = d"
  by (auto simp: held_connections_def dest: install_unique)

text \<open>
  C8: In a calm run the session reports a connection exactly while it uses one, and among all the
  connections it ever opened at most one is not being closed: the one in use, or the one an attempt
  is about to install. Nothing leaks, whatever the order of settlements, failures and deadlines.
\<close>

theorem calm_session_owns_one_connection:
  assumes "session_run es initial_session = Some s" and "calm_run es initial_session"
  shows "(sn_state (se_snapshot s) = Connected \<longleftrightarrow> se_active s \<noteq> None) \<and>
    (\<forall>c d. c \<in> unclosed s \<and> d \<in> unclosed s \<longrightarrow> c = d) \<and>
    (\<forall>c. c \<in> unclosed s \<longrightarrow>
       se_active s = Some c \<or> (\<exists>p a. (p, Establish_Install a c) \<in> set (se_tasks s)))"
proof -
  have ok: "session_ok {} s"
    by (rule owned_run [OF session_ok_initial assms(2, 1)])
  then have held_connections: "unclosed s \<subseteq> held_connections s"
    by (auto simp: session_ok_def unclosed_def)
  have "\<forall>c d. c \<in> unclosed s \<and> d \<in> unclosed s \<longrightarrow> c = d"
    using held_connections held_unique [OF ok] by (meson subsetD)
  moreover have "\<forall>c. c \<in> unclosed s \<longrightarrow>
      se_active s = Some c \<or> (\<exists>p a. (p, Establish_Install a c) \<in> set (se_tasks s))"
    using held_connections by (auto simp: held_connections_def)
  ultimately show ?thesis
    using ok by (simp add: session_ok_def eq_commute)
qed

text \<open>A run with two attempts, the first overtaken while its connection opens.\<close>

definition overtaken_run :: "session_event list" where
  "overtaken_run = [Connect ''a'' [''b1''] None, Connect ''c'' [''b2''] None, Opened 0, Opened 1,
     Installed 1]"

lemma overtaken_run_calm:
  "calm_run overtaken_run initial_session \<and> session_run overtaken_run initial_session \<noteq> None"
  by (simp add: overtaken_run_def session_evaluation installing_def cong: let_weak_cong)

lemma calm_session_owns_one_connection_witness:
  "\<exists>s. session_run overtaken_run initial_session = Some s \<and> sn_state (se_snapshot s) = Connected \<and>
     unclosed s = {3} \<and> opened s = {2, 3} \<and> se_active s = Some 3"
proof -
  obtain s where s: "session_run overtaken_run initial_session = Some s"
    and facts: "\<forall>c. c \<in> opened s \<longleftrightarrow> c = 2 \<or> c = 3" "\<forall>c. c \<in> closing s \<longleftrightarrow> c = 2" "se_active s = Some 3"
    by (simp add: overtaken_run_def session_evaluation opened_def closing_def eval_nat_numeral eq_commute cong: let_weak_cong)
  have "opened s = {2, 3}" "closing s = {2}"
    using facts(1, 2) by blast+
  then show ?thesis
    using conjunct1 [OF calm_session_owns_one_connection [OF s conjunct1 [OF overtaken_run_calm]]]
      s facts(3)
    by (simp add: unclosed_def insert_Diff_if)
qed

text \<open>
  C10: Once a shutdown was called in a calm run, the session uses no connection, installs none and is not
  connected, and it has called the close of every connection that the port ever opened for it, those
  that opened after the shutdown included. Whether such a close then succeeds is the port's. Outside
  calm runs this fails (\<open>connect_in_the_gap_leaks\<close> below).
\<close>

theorem shutdown_closes_every_connection:
  assumes "session_run es initial_session = Some s" and "calm_run es initial_session"
    and "se_shutting s"
  shows "se_active s = None \<and> \<not> installing s \<and> sn_state (se_snapshot s) \<noteq> Connected \<and>
    (\<forall>c. Opened_Connection c \<in> set (se_log s) \<longrightarrow> Closing_Connection c \<in> set (se_log s))"
proof -
  have ok: "session_ok {} s"
    by (rule owned_run [OF session_ok_initial assms(2, 1)])
  have calm: "\<not> installing s"
  proof
    assume "installing s"
    then obtain p a c where "(p, Establish_Install a c) \<in> set (se_tasks s)"
      unfolding installing_def by (auto elim: is_install.elims)
    from session_task_ok [OF ok this] assms(3) show False
      by (simp add: task_ok_def is_current_def)
  qed
  then have "held_connections s = {}"
    using ok assms(3) by (auto simp: held_connections_def installing_def session_ok_def)
  then show ?thesis
    using ok assms(3) calm by (auto simp: session_ok_def opened_def closing_def)
qed

definition shutdown_run :: "session_event list" where
  "shutdown_run = [Connect ''a'' [''b1''] None, Shutdown, Opened 0]"

lemma shutdown_closes_every_connection_witness:
  "\<exists>s. session_run shutdown_run initial_session = Some s \<and> Opened_Connection 2 \<in> set (se_log s) \<and>
     Closing_Connection 2 \<in> set (se_log s)"
proof -
  have calm: "calm_run shutdown_run initial_session"
    by (simp add: shutdown_run_def session_evaluation installing_def cong: let_weak_cong)
  obtain s where s: "session_run shutdown_run initial_session = Some s"
    and facts: "se_shutting s" "Opened_Connection 2 \<in> set (se_log s)"
    by (simp add: shutdown_run_def session_evaluation cong: let_weak_cong)
  show ?thesis
    using shutdown_closes_every_connection [OF s calm facts(1)] s facts(2) by blast
qed

section \<open>The gap\<close>

text \<open>
  Outside calm runs the session leaks: a second Connect between the last check of the first attempt
  and its installation leaves the first connection open, used by nobody and closed by nothing.
\<close>

definition gap_run :: "session_event list" where
  "gap_run = [Connect ''a'' [''b1''] None, Opened 0, Connect ''c'' [''b2''] None, Installed 0,
     Opened 2, Installed 2]"

lemma connect_in_the_gap_leaks:
  "\<exists>s. session_run gap_run initial_session = Some s \<and> se_active s = Some 3 \<and> se_tasks s = [] \<and>
     se_closures s = [] \<and> 1 \<in> unclosed s"
  by (simp add: gap_run_def session_evaluation unclosed_def opened_def closing_def cong: let_weak_cong)

text \<open>A Disconnect there is answered, reported as disconnected, and leaves the connection in use.\<close>

lemma disconnect_in_the_gap_is_undone:
  "\<exists>s. session_run [Connect ''a'' [''b1''] None, Opened 0, Disconnect, Installed 0,
        Cleanup_Done 2 False False] initial_session = Some s \<and>
     settlement_of s 2 = Some (Fulfilled ()) \<and> sn_state (se_snapshot s) = Disconnected \<and>
     se_active s = Some 1"
  by (simp add: session_evaluation cleanup_failures_def cong: let_weak_cong)

end
