(* ===== verification/Plugin_Versions.thy ===== *)
theory Plugin_Versions
  imports Structured_Replay "HOL-Library.Char_ord" "HOL-Library.List_Lexorder"
begin

text \<open>
  Plugin versions and their compatibility with a host (\<open>plugins/compatibility.ts\<close>): semantic versions
  and their precedence, the identities of legacy packages, and which hosts and targets a package
  admits. A function that throws answers None.
\<close>

section \<open>Semantic versions\<close>

definition version_char :: "char \<Rightarrow> bool" where
  "version_char c \<longleftrightarrow>
     (let n = (of_char c :: nat) in
      48 \<le> n \<and> n \<le> 57 \<or> 65 \<le> n \<and> n \<le> 90 \<or> 97 \<le> n \<and> n \<le> 122 \<or> n = 45)"

text \<open>\<open>\d*[A-Za-z-][0-9A-Za-z-]*\<close>, beside the numeric identifiers.\<close>

definition textual_identifier :: "js_string \<Rightarrow> bool" where
  "textual_identifier s \<longleftrightarrow> list_all version_char s \<and> list_ex (\<lambda>c. \<not> decimal_digit c) s"

definition prerelease_identifier :: "js_string \<Rightarrow> bool" where
  "prerelease_identifier s \<longleftrightarrow> decimal_text s \<or> textual_identifier s"

definition build_identifier :: "js_string \<Rightarrow> bool" where
  "build_identifier s \<longleftrightarrow> s \<noteq> [] \<and> list_all version_char s"

text \<open>What stands before the first occurrence of a character, and what after it.\<close>

definition cut_at :: "char \<Rightarrow> js_string \<Rightarrow> js_string \<times> js_string option" where
  "cut_at c s =
     (takeWhile (\<lambda>d. d \<noteq> c) s,
      case dropWhile (\<lambda>d. d \<noteq> c) s of [] \<Rightarrow> None | _ # rest \<Rightarrow> Some rest)"

definition numericVersion :: "js_string \<Rightarrow> bool" where
  "numericVersion s \<longleftrightarrow>
     (let parts = split_char (CHR ''.'') s in length parts = 3 \<and> list_all decimal_text parts)"

definition dotted :: "(js_string \<Rightarrow> bool) \<Rightarrow> js_string option \<Rightarrow> bool" where
  "dotted valid s = (case s of None \<Rightarrow> True | Some t \<Rightarrow> list_all valid (split_char (CHR ''.'') t))"

definition semanticVersion :: "js_string \<Rightarrow> bool" where
  "semanticVersion s \<longleftrightarrow>
     (case cut_at (CHR ''+'') s of
        (main, build) \<Rightarrow>
          (case cut_at (CHR ''-'') main of
             (core, prerelease) \<Rightarrow>
               numericVersion core \<and> dotted prerelease_identifier prerelease \<and>
               dotted build_identifier build))"

definition parseSemanticPluginVersion :: "js_string \<Rightarrow> js_string option" where
  "parseSemanticPluginVersion s = (if length s > 128 \<or> \<not> semanticVersion s then None else Some s)"

definition parseReleaseVersion :: "js_string \<Rightarrow> js_string option" where
  "parseReleaseVersion s =
     do { version \<leftarrow> parseSemanticPluginVersion s; check (CHR ''+'' \<notin> set version); Some version }"

fun compareNumbers :: "nat list \<Rightarrow> nat list \<Rightarrow> int" where
  "compareNumbers [] _ = 0"
| "compareNumbers (x # xs) [] = 1"
| "compareNumbers (x # xs) (y # ys) =
     (if x \<noteq> y then if x < y then - 1 else 1 else compareNumbers xs ys)"

definition numbers :: "js_string \<Rightarrow> nat list" where
  "numbers s = map decimal_value (split_char (CHR ''.'') s)"

definition version_parts :: "js_string \<Rightarrow> nat list \<times> js_string list" where
  "version_parts s =
     (case cut_at (CHR ''-'') (fst (cut_at (CHR ''+'') s)) of
        (core, prerelease) \<Rightarrow>
          (numbers core,
           case prerelease of None \<Rightarrow> [] | Some p \<Rightarrow> split_char (CHR ''.'') p))"

definition all_digits :: "js_string \<Rightarrow> bool" where
  "all_digits s \<longleftrightarrow> s \<noteq> [] \<and> list_all decimal_digit s"

fun compare_prereleases :: "js_string list \<Rightarrow> js_string list \<Rightarrow> int" where
  "compare_prereleases [] [] = 0"
| "compare_prereleases [] (y # ys) = - 1"
| "compare_prereleases (x # xs) [] = 1"
| "compare_prereleases (x # xs) (y # ys) =
     (if x = y then compare_prereleases xs ys
      else if all_digits x \<and> all_digits y then if decimal_value x < decimal_value y then - 1 else 1
      else if all_digits x \<noteq> all_digits y then if all_digits x then - 1 else 1
      else if x < y then - 1 else 1)"

definition compareSemanticVersions :: "js_string \<Rightarrow> js_string \<Rightarrow> int option" where
  "compareSemanticVersions left right =
     do { l \<leftarrow> parseSemanticPluginVersion left;
          r \<leftarrow> parseSemanticPluginVersion right;
          Some (case (version_parts l, version_parts r) of
                  ((c, p), (d, q)) \<Rightarrow>
                    let order = compareNumbers c d in
                    if order \<noteq> 0 then order
                    else if p = [] \<or> q = []
                    then if length p = length q then 0 else if p = [] then 1 else - 1
                    else compare_prereleases p q) }"

definition isPrereleaseVersion :: "js_string \<Rightarrow> bool option" where
  "isPrereleaseVersion s =
     map_option (\<lambda>v. CHR ''-'' \<in> set (fst (cut_at (CHR ''+'') v))) (parseSemanticPluginVersion s)"

section \<open>Releases of the host\<close>

definition strip_v :: "js_string \<Rightarrow> js_string" where
  "strip_v s = (case s of c # rest \<Rightarrow> if c = CHR ''v'' then rest else s | [] \<Rightarrow> s)"

definition positive_text :: "js_string \<Rightarrow> bool" where
  "positive_text s \<longleftrightarrow> decimal_text s \<and> s \<noteq> ''0''"

text \<open>The groups of \<open>desktopRelease\<close>: the core and the build number.\<close>

definition desktopRelease :: "js_string \<Rightarrow> (js_string \<times> js_string option) option" where
  "desktopRelease s =
     (case s of
        [] \<Rightarrow> None
      | c # rest \<Rightarrow>
          if c \<noteq> CHR ''v'' then None
          else case cut_at (CHR ''+'') rest of
            (core, None) \<Rightarrow> if numericVersion core then Some (core, None) else None
          | (core, Some build) \<Rightarrow>
              if numericVersion core \<and> take 6 build = ''build.'' \<and> positive_text (drop 6 build)
              then Some (core, Some (drop 6 build)) else None)"

definition releaseParts :: "js_string \<Rightarrow> nat list option" where
  "releaseParts s =
     (if length s > 128 then None
      else case desktopRelease s of
        None \<Rightarrow> None
      | Some (core, build) \<Rightarrow>
          Some (numbers core @ [case build of None \<Rightarrow> 0 | Some b \<Rightarrow> decimal_value b]))"

definition compareDesktopReleases :: "js_string \<Rightarrow> js_string \<Rightarrow> int option" where
  "compareDesktopReleases left right = compareSemanticVersions (strip_v left) (strip_v right)"

definition compareLegacyDesktopReleases :: "js_string \<Rightarrow> js_string \<Rightarrow> int option" where
  "compareLegacyDesktopReleases left right =
     (let host = CHR ''v'' # strip_v left in
      if desktopRelease host \<noteq> None \<and> desktopRelease right \<noteq> None then
        do { l \<leftarrow> releaseParts host; r \<leftarrow> releaseParts right; Some (compareNumbers l r) }
      else
        do { order \<leftarrow> compareDesktopReleases left right;
             if order = 0
             then do { r \<leftarrow> releaseParts right; Some (if r ! 3 > 0 then - 1 else order) }
             else Some order })"

section \<open>Compatibility\<close>

datatype plugin_api = Api_2 | Api_3 | Api_4

record plugin_target =
  tg_system :: js_string
  tg_minimum :: js_string
  tg_maximum :: js_string

record plugin_compatibility =
  pc_minimum :: js_string
  pc_maximumExclusive :: "js_string option"
  pc_target :: plugin_target

definition compatibility_object :: "json option \<Rightarrow> js_string list \<Rightarrow> json_object option" where
  "compatibility_object v keys =
     do { members \<leftarrow> record_value v; exactKeys members keys; Some members }"

definition text_value :: "json option \<Rightarrow> js_string option" where
  "text_value v = (case v of Some (JStr s) \<Rightarrow> Some s | _ \<Rightarrow> None)"

definition targetVersion :: "js_string \<Rightarrow> bool" where
  "targetVersion s \<longleftrightarrow> length s \<le> 64 \<and> numericVersion s"

definition parseTargetVersion :: "json option \<Rightarrow> js_string option" where
  "parseTargetVersion v = do { s \<leftarrow> text_value v; check (targetVersion s); Some s }"

definition compareTargetVersions :: "js_string \<Rightarrow> js_string \<Rightarrow> int" where
  "compareTargetVersions left right = compareNumbers (numbers left) (numbers right)"

text \<open>\<open>[a-z][a-z0-9]*(-[a-z0-9]+)*\<close>, in its segments.\<close>

definition system_char :: "char \<Rightarrow> bool" where
  "system_char c \<longleftrightarrow> (let n = (of_char c :: nat) in 97 \<le> n \<and> n \<le> 122 \<or> 48 \<le> n \<and> n \<le> 57)"

fun system_segments :: "js_string list \<Rightarrow> bool" where
  "system_segments [] = False"
| "system_segments (s # ss) =
     (s \<noteq> [] \<and> \<not> decimal_digit (hd s) \<and> list_all system_char s \<and>
      list_all (\<lambda>t. t \<noteq> [] \<and> list_all system_char t) ss)"

definition systemIdentifier :: "js_string \<Rightarrow> bool" where
  "systemIdentifier s = system_segments (split_char (CHR ''-'') s)"

definition parse_host_range :: "plugin_api \<Rightarrow> json_object \<Rightarrow> (js_string \<times> js_string option) option" where
  "parse_host_range api members =
     do { minimum \<leftarrow> text_value (map_of members ''minimum'');
          if api = Api_3 then do { releaseParts minimum; Some (minimum, None) }
          else do { parseReleaseVersion minimum;
                    maximum \<leftarrow> Option.bind (text_value (map_of members ''maximumExclusive'')) parseReleaseVersion;
                    order \<leftarrow> compareSemanticVersions minimum maximum;
                    check (order < 0);
                    Some (minimum, Some maximum) } }"

definition parsePluginCompatibility :: "plugin_api \<Rightarrow> json option \<Rightarrow> plugin_compatibility option" where
  "parsePluginCompatibility api v =
     do { members \<leftarrow> compatibility_object v [''streamskope'', ''target''];
          host \<leftarrow> compatibility_object (map_of members ''streamskope'')
                    (if api = Api_3 then [''minimum''] else [''minimum'', ''maximumExclusive'']);
          target \<leftarrow> compatibility_object (map_of members ''target'') [''system'', ''minimum'', ''maximum''];
          range \<leftarrow> parse_host_range api host;
          system \<leftarrow> text_value (map_of target ''system'');
          check (length system \<le> 32 \<and> systemIdentifier system);
          minimum \<leftarrow> parseTargetVersion (map_of target ''minimum'');
          maximum \<leftarrow> parseTargetVersion (map_of target ''maximum'');
          check (compareTargetVersions minimum maximum \<le> 0);
          Some \<lparr>pc_minimum = fst range, pc_maximumExclusive = snd range,
                pc_target = \<lparr>tg_system = system, tg_minimum = minimum, tg_maximum = maximum\<rparr>\<rparr> }"

definition compatibility_json :: "plugin_compatibility \<Rightarrow> json" where
  "compatibility_json c =
     JObj [(''streamskope'', JObj ((''minimum'', JStr (pc_minimum c)) #
              optional_member ''maximumExclusive'' JStr (pc_maximumExclusive c))),
           (''target'', JObj [(''system'', JStr (tg_system (pc_target c))),
              (''minimum'', JStr (tg_minimum (pc_target c))),
              (''maximum'', JStr (tg_maximum (pc_target c)))])]"

section \<open>Identities of legacy packages\<close>

definition parseRevision :: "int \<Rightarrow> int option" where
  "parseRevision n = (if is_safe_integer n \<and> 1 \<le> n then Some n else None)"

definition identity_text :: "plugin_compatibility \<Rightarrow> int \<Rightarrow> js_string" where
  "identity_text c revision =
     pc_minimum c @ ''--'' @ tg_system (pc_target c) @ ''-'' @ tg_minimum (pc_target c) @ ''-'' @
     tg_maximum (pc_target c) @ ''--r'' @ int_string revision"

definition formatPluginVersion :: "plugin_compatibility \<Rightarrow> int \<Rightarrow> js_string option" where
  "formatPluginVersion c revision =
     do { parsed \<leftarrow> parsePluginCompatibility Api_3 (Some (compatibility_json c));
          n \<leftarrow> parseRevision revision;
          check (length (identity_text parsed n) \<le> 256);
          Some (identity_text parsed n) }"

text \<open>The groups of \<open>identity\<close>: no group but the system holds a hyphen, so its hyphens delimit them.\<close>

record identity_groups =
  ig_release :: js_string
  ig_system :: js_string
  ig_minimum :: js_string
  ig_maximum :: js_string
  ig_revision :: js_string

definition identity_match :: "js_string \<Rightarrow> identity_groups option" where
  "identity_match s =
     (case split_char (CHR ''-'') s of
        release # gap # rest \<Rightarrow>
          (let k = length rest - 4 in
           case drop k rest of
             [minimum, maximum, gap2, revision] \<Rightarrow>
               if gap = [] \<and> gap2 = [] \<and> desktopRelease release \<noteq> None \<and>
                  system_segments (take k rest) \<and> numericVersion minimum \<and> numericVersion maximum \<and>
                  take 1 revision = ''r'' \<and> positive_text (tl revision)
               then Some \<lparr>ig_release = release, ig_system = join ''-'' (take k rest),
                          ig_minimum = minimum, ig_maximum = maximum, ig_revision = tl revision\<rparr>
               else None
           | _ \<Rightarrow> None)
      | _ \<Rightarrow> None)"

text \<open>\<open>parseIdentity\<close>: a text that is no identity, an identity, or an error (None).\<close>

definition parseIdentity :: "js_string \<Rightarrow> (plugin_compatibility \<times> int) option option" where
  "parseIdentity s =
     (case (if length s \<le> 256 then identity_match s else None) of
        None \<Rightarrow> Some None
      | Some g \<Rightarrow>
          do { c \<leftarrow> parsePluginCompatibility Api_3 (Some (compatibility_json
                 \<lparr>pc_minimum = ig_release g, pc_maximumExclusive = None,
                  pc_target = \<lparr>tg_system = ig_system g, tg_minimum = ig_minimum g,
                               tg_maximum = ig_maximum g\<rparr>\<rparr>));
               revision \<leftarrow> parseRevision (int (decimal_value (ig_revision g)));
               canonical \<leftarrow> formatPluginVersion c revision;
               check (canonical = s);
               Some (Some (c, revision)) })"

definition comparePluginVersions :: "js_string \<Rightarrow> js_string \<Rightarrow> int option" where
  "comparePluginVersions left right =
     do { a \<leftarrow> parseIdentity left;
          b \<leftarrow> parseIdentity right;
          case (a, b) of
            (None, None) \<Rightarrow> compareSemanticVersions left right
          | (None, Some _) \<Rightarrow> do { parseSemanticPluginVersion left; Some (- 1) }
          | (Some _, None) \<Rightarrow> do { parseSemanticPluginVersion right; Some 1 }
          | (Some (c, m), Some (d, n)) \<Rightarrow>
              if tg_system (pc_target c) \<noteq> tg_system (pc_target d) then None
              else if m = n then if left \<noteq> right then None else Some 0
              else Some (if m < n then - 1 else 1) }"

section \<open>Manifests and hosts\<close>

record plugin_manifest =
  pm_id :: js_string
  pm_version :: js_string
  pm_api :: plugin_api
  pm_targetEdaVersion :: "js_string option"
  pm_compatibility :: "plugin_compatibility option"

definition comparePluginManifests :: "plugin_manifest \<Rightarrow> plugin_manifest \<Rightarrow> int option" where
  "comparePluginManifests left right =
     (if pm_id left \<noteq> pm_id right then None
      else if pm_api left = Api_4 \<or> pm_api right = Api_4
      then if pm_api left \<noteq> pm_api right then Some (if pm_api left = Api_4 then 1 else - 1)
           else compareSemanticVersions (pm_version left) (pm_version right)
      else comparePluginVersions (pm_version left) (pm_version right))"

definition development_version :: js_string where
  "development_version = ''0.0.0-dev''"

definition isDevelopmentPluginVersion :: "js_string \<Rightarrow> bool" where
  "isDevelopmentPluginVersion s \<longleftrightarrow>
     (let n = length development_version in
      take n s = development_version \<and>
      (drop n s = [] \<or> take 1 (drop n s) = ''.'' \<and> decimal_text (drop (Suc n) s)))"

text \<open>A preview host needs a package qualified for a preview of the same core release.\<close>

definition before_hyphen :: "js_string \<Rightarrow> js_string" where
  "before_hyphen s = fst (cut_at (CHR ''-'') s)"

definition preview_refused :: "js_string \<Rightarrow> js_string \<Rightarrow> bool option" where
  "preview_refused version minimum =
     do { host \<leftarrow> isPrereleaseVersion version;
          if \<not> host then Some False
          else do { qualified \<leftarrow> isPrereleaseVersion minimum;
                    Some (\<not> qualified \<or> before_hyphen version \<noteq> before_hyphen minimum) } }"

definition isPluginCompatibleWithHost :: "plugin_manifest \<Rightarrow> js_string \<Rightarrow> bool option" where
  "isPluginCompatibleWithHost m release =
     (let version = strip_v release in
      if isDevelopmentPluginVersion version \<or> isDevelopmentPluginVersion (pm_version m)
      then Some (version = development_version \<and> isDevelopmentPluginVersion (pm_version m) \<and>
                 pm_api m = Api_4)
      else if pm_api m = Api_2 then Some True
      else case pm_compatibility m of
        None \<Rightarrow> Some False
      | Some c \<Rightarrow>
          if pm_api m = Api_3
          then map_option (\<lambda>order. order \<ge> 0) (compareLegacyDesktopReleases release (pc_minimum c))
          else do { refused \<leftarrow> preview_refused version (pc_minimum c);
                    if refused then Some False
                    else case pc_maximumExclusive c of
                      None \<Rightarrow> Some False
                    | Some maximum \<Rightarrow>
                        do { low \<leftarrow> compareDesktopReleases release (pc_minimum c);
                             if low < 0 then Some False
                             else map_option (\<lambda>high. high < 0) (compareDesktopReleases release maximum) } })"

definition isTargetVersionCompatible :: "plugin_manifest \<Rightarrow> js_string \<Rightarrow> bool" where
  "isTargetVersionCompatible m version \<longleftrightarrow>
     (if \<not> numericVersion version \<or> length version > 64 then False
      else case pm_compatibility m of
        None \<Rightarrow> pm_api m = Api_2 \<and> pm_targetEdaVersion m = Some version
      | Some c \<Rightarrow>
          compareTargetVersions version (tg_minimum (pc_target c)) \<ge> 0 \<and>
          compareTargetVersions version (tg_maximum (pc_target c)) \<le> 0)"

end
