(* ===== verification/Plugin_Precedence.thy ===== *)
theory Plugin_Precedence
  imports Plugin_Versions
begin

text \<open>
  The precedence of semantic versions is a linear order on what a version says without its build
  metadata, and the identities of legacy packages are written and read back exactly.
\<close>


section \<open>Decimal texts\<close>

lemma digit_char_value: "d < 10 \<Longrightarrow> (of_char (digit_char d) :: nat) = 48 + d"
  by (simp add: digit_char_def)

lemma decimal_value_snoc: "decimal_value (s @ [c]) = decimal_value s * 10 + (of_char c - 48)"
  by (simp add: decimal_value_def)

lemma nat_string_nonempty: "nat_string n \<noteq> []"
  by (simp add: nat_string.simps [of n])

lemma digit_char_digit: "d < 10 \<Longrightarrow> decimal_digit (digit_char d)"
  by (simp add: decimal_digit_def digit_char_value)

lemma zero_char: "(of_char c :: nat) = 48 \<longleftrightarrow> c = CHR ''0''"
proof -
  have "(of_char (CHR ''0'') :: nat) = 48"
    by simp
  then show ?thesis
    by (metis of_char_eq_iff)
qed

lemma digit_char_zero: "d < 10 \<Longrightarrow> digit_char d = CHR ''0'' \<longleftrightarrow> d = 0"
  by (simp add: zero_char [symmetric] digit_char_value)

lemma nat_string_digits: "list_all decimal_digit (nat_string n)"
proof (induction n rule: nat_string.induct)
  case (1 n)
  then show ?case
    by (cases "n < 10") (simp_all add: nat_string.simps [of n] digit_char_digit)
qed

lemma nat_string_value: "decimal_value (nat_string n) = n"
proof (induction n rule: nat_string.induct)
  case (1 n)
  show ?case
  proof (cases "n < 10")
    case True
    then show ?thesis
      by (simp add: nat_string.simps [of n] decimal_value_def digit_char_value)
  next
    case False
    then have "decimal_value (nat_string n) =
        decimal_value (nat_string (n div 10)) * 10 + (of_char (digit_char (n mod 10)) - 48)"
      by (simp add: nat_string.simps [of n] decimal_value_snoc)
    then show ?thesis
      using 1 False by (simp add: digit_char_value)
  qed
qed

lemma digit_char_of: "decimal_digit c \<Longrightarrow> digit_char (of_char c - 48) = c"
  by (simp add: digit_char_def decimal_digit_def)

lemma decimal_value_pos:
  assumes "s \<noteq> []" and "hd s \<noteq> CHR ''0''" and "list_all decimal_digit s"
  shows "0 < decimal_value s"
  using assms
proof (induction s rule: rev_induct)
  case (snoc c s)
  show ?case
  proof (cases "s = []")
    case True
    with snoc.prems have "decimal_digit c" "c \<noteq> CHR ''0''"
      by simp_all
    then have "(of_char c :: nat) \<noteq> 48"
      by (simp add: zero_char)
    with \<open>decimal_digit c\<close> True show ?thesis
      by (simp add: decimal_value_def decimal_digit_def)
  next
    case False
    with snoc show ?thesis
      by (simp add: decimal_value_snoc)
  qed
qed simp

lemma nat_string_of_value:
  assumes "s \<noteq> []" and "hd s \<noteq> CHR ''0''" and "list_all decimal_digit s"
  shows "nat_string (decimal_value s) = s"
  using assms
proof (induction s rule: rev_induct)
  case (snoc c s)
  have c: "decimal_digit c" "of_char c - (48 :: nat) < 10"
    using snoc.prems by (auto simp: decimal_digit_def)
  show ?case
  proof (cases "s = []")
    case True
    then show ?thesis
      using c by (simp add: decimal_value_def nat_string.simps digit_char_of)
  next
    case False
    with snoc have "nat_string (decimal_value s) = s" "0 < decimal_value s"
      by (auto intro: decimal_value_pos)
    moreover have "(decimal_value s * 10 + (of_char c - 48)) div 10 = decimal_value s"
      "(decimal_value s * 10 + (of_char c - 48)) mod 10 = of_char c - 48"
      using c by simp_all
    ultimately show ?thesis
      using c nat_string.simps [of "decimal_value s * 10 + (of_char c - 48)"]
      by (simp add: decimal_value_snoc digit_char_of)
  qed
qed simp

lemma decimal_text_string: "decimal_text s \<Longrightarrow> nat_string (decimal_value s) = s"
  by (auto simp: decimal_text_def nat_string_of_value)
     (simp add: decimal_value_def nat_string.simps digit_char_zero)

lemma decimal_value_inj: "decimal_text s \<Longrightarrow> decimal_text t \<Longrightarrow> decimal_value s = decimal_value t \<Longrightarrow> s = t"
  by (metis decimal_text_string)

lemma nat_string_positive:
  "0 < n \<Longrightarrow> decimal_text (nat_string n) \<and> nat_string n \<noteq> ''0''"
proof -
  have hd: "0 < n \<Longrightarrow> hd (nat_string n) \<noteq> CHR ''0''" for n
  proof (induction n rule: nat_string.induct)
    case (1 n)
    have "digit_char n \<noteq> CHR ''0''" if "n < 10" "0 < n"
      using that by (simp add: digit_char_zero)
    with 1 show ?case
      by (auto simp: nat_string.simps [of n] nat_string_nonempty)
  qed
  assume "0 < n"
  with hd [of n] show ?thesis
    using nat_string_nonempty [of n] nat_string_digits [of n] by (auto simp: decimal_text_def)
qed

section \<open>Precedence\<close>

datatype version_identifier = Numeric nat | Textual js_string

instantiation version_identifier :: linorder
begin

fun less_eq_version_identifier :: "version_identifier \<Rightarrow> version_identifier \<Rightarrow> bool" where
  "less_eq_version_identifier (Numeric m) (Numeric n) \<longleftrightarrow> m \<le> n"
| "less_eq_version_identifier (Numeric _) (Textual _) \<longleftrightarrow> True"
| "less_eq_version_identifier (Textual _) (Numeric _) \<longleftrightarrow> False"
| "less_eq_version_identifier (Textual s) (Textual t) \<longleftrightarrow> s \<le> t"

definition less_version_identifier :: "version_identifier \<Rightarrow> version_identifier \<Rightarrow> bool" where
  "less_version_identifier x y \<longleftrightarrow> x \<le> y \<and> \<not> y \<le> x"

instance
proof
  fix x y z :: version_identifier
  show "x < y \<longleftrightarrow> x \<le> y \<and> \<not> y \<le> x"
    by (simp add: less_version_identifier_def)
  show "x \<le> x"
    by (cases x) simp_all
  show "x \<le> y \<Longrightarrow> y \<le> z \<Longrightarrow> x \<le> z"
    by (cases x; cases y; cases z) auto
  show "x \<le> y \<Longrightarrow> y \<le> x \<Longrightarrow> x = y"
    by (cases x; cases y) auto
  show "x \<le> y \<or> y \<le> x"
    by (cases x; cases y) auto
qed

end

text \<open>A final release comes after all its previews.\<close>

datatype stage = Preview "version_identifier list" | Final

instantiation stage :: linorder
begin

fun less_eq_stage :: "stage \<Rightarrow> stage \<Rightarrow> bool" where
  "less_eq_stage (Preview xs) (Preview ys) \<longleftrightarrow> xs \<le> ys"
| "less_eq_stage _ Final \<longleftrightarrow> True"
| "less_eq_stage Final (Preview _) \<longleftrightarrow> False"

definition less_stage :: "stage \<Rightarrow> stage \<Rightarrow> bool" where
  "less_stage x y \<longleftrightarrow> x \<le> y \<and> \<not> y \<le> x"

instance
proof
  fix x y z :: stage
  show "x < y \<longleftrightarrow> x \<le> y \<and> \<not> y \<le> x"
    by (simp add: less_stage_def)
  show "x \<le> x"
    by (cases x) simp_all
  show "x \<le> y \<Longrightarrow> y \<le> z \<Longrightarrow> x \<le> z"
    by (cases x; cases y; cases z) auto
  show "x \<le> y \<Longrightarrow> y \<le> x \<Longrightarrow> x = y"
    by (cases x; cases y) auto
  show "x \<le> y \<or> y \<le> x"
    by (cases x; cases y) auto
qed

end

datatype version_key = Version_Key "nat list" stage

instantiation version_key :: linorder
begin

fun less_eq_version_key :: "version_key \<Rightarrow> version_key \<Rightarrow> bool" where
  "less_eq_version_key (Version_Key c s) (Version_Key d t) \<longleftrightarrow> c < d \<or> c = d \<and> s \<le> t"

definition less_version_key :: "version_key \<Rightarrow> version_key \<Rightarrow> bool" where
  "less_version_key x y \<longleftrightarrow> x \<le> y \<and> \<not> y \<le> x"

instance
proof
  fix x y z :: version_key
  show "x < y \<longleftrightarrow> x \<le> y \<and> \<not> y \<le> x"
    by (simp add: less_version_key_def)
  show "x \<le> x"
    by (cases x) simp_all
  show "x \<le> y \<Longrightarrow> y \<le> z \<Longrightarrow> x \<le> z"
    by (cases x; cases y; cases z) auto
  show "x \<le> y \<Longrightarrow> y \<le> x \<Longrightarrow> x = y"
    by (cases x; cases y) auto
  show "x \<le> y \<or> y \<le> x"
    by (cases x; cases y) auto
qed

end


subsection \<open>The key of a version\<close>

definition identifier_key :: "js_string \<Rightarrow> version_identifier" where
  "identifier_key s = (if all_digits s then Numeric (decimal_value s) else Textual s)"

definition stage_of :: "js_string list \<Rightarrow> stage" where
  "stage_of ps = (if ps = [] then Final else Preview (map identifier_key ps))"

definition version_key_of :: "js_string \<Rightarrow> version_key" where
  "version_key_of s = (case version_parts s of (core, ps) \<Rightarrow> Version_Key core (stage_of ps))"

definition order_of :: "'a :: linorder \<Rightarrow> 'a \<Rightarrow> int" where
  "order_of x y = (if x < y then - 1 else if x = y then 0 else 1)"

lemma order_of_Cons: "order_of (x # xs) (y # ys) = (if x = y then order_of xs ys else order_of x y)"
  by (auto simp: order_of_def)

lemma order_of_Nil [simp]:
  "order_of [] [] = 0" "order_of [] (y # ys) = - 1" "order_of (x # xs) [] = 1"
  by (simp_all add: order_of_def)

lemma compareNumbers_order: "length xs = length ys \<Longrightarrow> compareNumbers xs ys = order_of xs ys"
proof (induction xs ys rule: compareNumbers.induct)
  case (3 x xs y ys)
  then show ?case
    by (simp add: order_of_Cons) (simp add: order_of_def)
qed simp_all

lemma version_identifier_less [simp]:
  "Numeric m < Numeric n \<longleftrightarrow> m < n" "Numeric m < Textual t" "\<not> Textual s < Numeric n"
  "Textual s < Textual t \<longleftrightarrow> s < t"
  by (auto simp: less_version_identifier_def)

lemma numeric_decimal: "prerelease_identifier s \<Longrightarrow> all_digits s \<Longrightarrow> decimal_text s"
  by (auto simp: prerelease_identifier_def textual_identifier_def all_digits_def list_all_iff list_ex_iff)

lemma identifier_key_inj:
  "prerelease_identifier s \<Longrightarrow> prerelease_identifier t \<Longrightarrow> identifier_key s = identifier_key t \<longleftrightarrow> s = t"
  using numeric_decimal decimal_value_inj by (auto simp: identifier_key_def)

lemma compare_prereleases_order:
  "list_all prerelease_identifier ps \<Longrightarrow> list_all prerelease_identifier qs \<Longrightarrow>
   compare_prereleases ps qs = order_of (map identifier_key ps) (map identifier_key qs)"
proof (induction ps qs rule: compare_prereleases.induct)
  case (4 x xs y ys)
  show ?case
  proof (cases "x = y")
    case True
    with 4 show ?thesis
      by (simp add: order_of_Cons)
  next
    case False
    then have "identifier_key x \<noteq> identifier_key y"
      using 4 identifier_key_inj by simp
    then show ?thesis
      using False by (auto simp: order_of_Cons order_of_def identifier_key_def)
  qed
qed simp_all

lemma version_key_less:
  "Version_Key c s < Version_Key d t \<longleftrightarrow> c < d \<or> c = d \<and> s < t"
  by (auto simp: less_version_key_def)

lemma stage_less [simp]:
  "Preview xs < Preview ys \<longleftrightarrow> xs < ys" "Preview xs < Final" "\<not> Final < t"
  by (auto simp: less_stage_def)

lemma semantic_parts:
  assumes "parseSemanticPluginVersion s = Some v"
  shows "v = s" and "length (fst (version_parts s)) = 3"
    and "list_all prerelease_identifier (snd (version_parts s))"
  using assms
  by (auto simp: parseSemanticPluginVersion_def semanticVersion_def version_parts_def numericVersion_def
      numbers_def dotted_def Let_def split: if_splits prod.splits option.splits)

lemma stage_order:
  assumes "list_all prerelease_identifier p" and "list_all prerelease_identifier q"
  shows "(if p = [] \<or> q = [] then if length p = length q then 0 else if p = [] then 1 else - 1
     else compare_prereleases p q) = order_of (stage_of p) (stage_of q)"
  using assms compare_prereleases_order [OF assms]
  by (auto simp: stage_of_def order_of_def split: if_splits)


text \<open>
  C21: Comparing two versions fails exactly when one of them is not a semantic version of at most 128
  characters, and otherwise is the comparison of their keys in one linear order: the three numbers,
  then final releases above previews, then the identifiers, numbers below texts. So precedence is
  total, transitive and ignores build metadata, for numbers of any size.
\<close>

theorem semantic_precedence_is_linear:
  "compareSemanticVersions a b =
     (if parseSemanticPluginVersion a = None \<or> parseSemanticPluginVersion b = None then None
      else Some (order_of (version_key_of a) (version_key_of b)))"
proof (cases "parseSemanticPluginVersion a = None \<or> parseSemanticPluginVersion b = None")
  case True
  then show ?thesis
    by (auto simp: compareSemanticVersions_def split: Option.bind_split)
next
  case False
  then obtain v w where parsed: "parseSemanticPluginVersion a = Some v" "parseSemanticPluginVersion b = Some w"
    by auto
  obtain c p d q where parts: "version_parts a = (c, p)" "version_parts b = (d, q)"
    by fastforce
  have "length c = length d" "list_all prerelease_identifier p" "list_all prerelease_identifier q"
    and same: "v = a" "w = b"
    using semantic_parts [OF parsed(1)] semantic_parts [OF parsed(2)] parts by simp_all
  then have orders: "compareNumbers c d = order_of c d"
      "(if p = [] \<or> q = [] then if length p = length q then 0 else if p = [] then 1 else - 1
        else compare_prereleases p q) = order_of (stage_of p) (stage_of q)"
    by (simp_all add: compareNumbers_order stage_order)
  have "compareSemanticVersions a b =
      Some (if order_of c d \<noteq> 0 then order_of c d else order_of (stage_of p) (stage_of q))"
    unfolding compareSemanticVersions_def parsed same Option.bind.simps parts prod.case Let_def orders ..
  also have "(if order_of c d \<noteq> 0 then order_of c d else order_of (stage_of p) (stage_of q)) =
      order_of (version_key_of a) (version_key_of b)"
    by (auto simp: version_key_of_def parts order_of_def version_key_less)
  finally show ?thesis
    using False by simp
qed


section \<open>Identities\<close>

lemma split_char_nonempty: "split_char x s \<noteq> []"
  by (induction s) (auto split: list.splits)

lemma split_char_append: "split_char x (s @ x # t) = split_char x s @ split_char x t"
  by (induction s) (auto simp: split_char_nonempty split: list.splits)

lemma split_char_id: "x \<notin> set s \<Longrightarrow> split_char x s = [s]"
  by (induction s) auto

lemma join_sep_Cons: "xs \<noteq> [] \<Longrightarrow> join sep (x # xs) = x @ sep @ join sep xs"
  by (cases xs) simp_all

lemma join_split_char: "join [x] (split_char x s) = s"
proof (induction s)
  case (Cons c s)
  obtain p ps where "split_char x s = p # ps"
    using split_char_nonempty by (metis list.exhaust)
  with Cons show ?case
    by (cases ps) (auto simp: join_sep_Cons)
qed simp

lemma split_char_chars: "set s \<subseteq> insert x (\<Union> (set ` set (split_char x s)))"
proof (induction s)
  case (Cons c s)
  obtain p ps where "split_char x s = p # ps"
    using split_char_nonempty by (metis list.exhaust)
  with Cons show ?case
    by auto
qed simp

lemma decimal_text_no_hyphen: "decimal_text s \<Longrightarrow> CHR ''-'' \<notin> set s"
  by (auto simp: decimal_text_def list_all_iff decimal_digit_def)

lemma numericVersion_no_hyphen: "numericVersion s \<Longrightarrow> CHR ''-'' \<notin> set s"
  using split_char_chars [of s "CHR ''.''"] decimal_text_no_hyphen
  by (fastforce simp: numericVersion_def Let_def list_all_iff)

lemma cut_at_parts:
  assumes "cut_at c s = (before, after)"
  shows "s = before @ (case after of None \<Rightarrow> [] | Some t \<Rightarrow> c # t)"
proof (cases "dropWhile (\<lambda>d. d \<noteq> c) s")
  case Nil
  then have "takeWhile (\<lambda>d. d \<noteq> c) s = s"
    using takeWhile_dropWhile_id [of "\<lambda>d. d \<noteq> c" s] by simp
  with Nil show ?thesis
    using assms by (auto simp: cut_at_def simp del: takeWhile_eq_all_conv dropWhile_eq_Nil_conv)
next
  case (Cons d t)
  then have "d = c"
    using hd_dropWhile [of "\<lambda>d. d \<noteq> c" s] by auto
  then show ?thesis
    using assms Cons takeWhile_dropWhile_id [of "\<lambda>d. d \<noteq> c" s] by (auto simp: cut_at_def)
qed

lemma desktopRelease_no_hyphen:
  assumes "desktopRelease s \<noteq> None"
  shows "CHR ''-'' \<notin> set s"
proof -
  obtain rest where s: "s = CHR ''v'' # rest"
    using assms by (auto simp: desktopRelease_def split: list.splits if_splits)
  obtain core build where cut: "cut_at (CHR ''+'') rest = (core, build)"
    by fastforce
  have core: "CHR ''-'' \<notin> set core"
    using assms cut by (intro numericVersion_no_hyphen)
      (auto simp: desktopRelease_def s split: option.splits if_splits)
  show ?thesis
  proof (cases build)
    case None
    then show ?thesis
      using cut_at_parts [OF cut] core by (simp add: s)
  next
    case (Some b)
    then have "take 6 b = ''build.''" "decimal_text (drop 6 b)"
      using assms cut by (auto simp: desktopRelease_def s positive_text_def split: if_splits)
    then have "set b \<subseteq> set ''build.'' \<union> set (drop 6 b)" "CHR ''-'' \<notin> set (drop 6 b)"
      using append_take_drop_id [of 6 b] by (metis set_append order_refl, simp add: decimal_text_no_hyphen)
    then show ?thesis
      using cut_at_parts [OF cut] core Some by (auto simp: s)
  qed
qed

lemma parsed_compatibility:
  assumes "parsePluginCompatibility Api_3 (Some (compatibility_json c)) = Some d"
  shows "d = c" and "pc_maximumExclusive c = None" and "desktopRelease (pc_minimum c) \<noteq> None"
    and "systemIdentifier (tg_system (pc_target c))"
    and "numericVersion (tg_minimum (pc_target c))" and "numericVersion (tg_maximum (pc_target c))"
  using assms
  by (auto simp: parsePluginCompatibility_def compatibility_json_def compatibility_object_def
      record_value_def exactKeys_def check_def parse_host_range_def text_value_def parseTargetVersion_def
      targetVersion_def optional_member_def releaseParts_def
      split: Option.bind_splits option.splits if_splits)

lemma identity_text_groups:
  assumes "desktopRelease (pc_minimum c) \<noteq> None" and "systemIdentifier (tg_system (pc_target c))"
    and "numericVersion (tg_minimum (pc_target c))" and "numericVersion (tg_maximum (pc_target c))"
    and "1 \<le> r"
  shows "identity_match (identity_text c r) = Some \<lparr>ig_release = pc_minimum c,
    ig_system = tg_system (pc_target c), ig_minimum = tg_minimum (pc_target c),
    ig_maximum = tg_maximum (pc_target c), ig_revision = nat_string (nat r)\<rparr>"
proof -
  let ?digits = "nat_string (nat r)"
  have digits: "int_string r = ?digits" "positive_text ?digits"
    using assms(5) nat_string_positive [of "nat r"] by (simp_all add: int_string_def positive_text_def)
  then have "CHR ''-'' \<notin> set (CHR ''r'' # ?digits)"
    using decimal_text_no_hyphen by (auto simp: positive_text_def)
  then have "split_char (CHR ''-'') (identity_text c r) =
      pc_minimum c # [] # split_char (CHR ''-'') (tg_system (pc_target c)) @
        [tg_minimum (pc_target c), tg_maximum (pc_target c), [], CHR ''r'' # ?digits]"
    using assms(1-4)
    by (simp add: identity_text_def digits split_char_append split_char_id
        desktopRelease_no_hyphen numericVersion_no_hyphen)
  moreover have "system_segments (split_char (CHR ''-'') (tg_system (pc_target c)))"
    using assms(2) by (simp add: systemIdentifier_def)
  ultimately show ?thesis
    using assms digits by (simp add: identity_match_def Let_def join_split_char)
qed


lemma parse_own_compatibility:
  "parsePluginCompatibility Api_3 (Some (compatibility_json c)) = Some d \<Longrightarrow>
   \<lparr>pc_minimum = pc_minimum c, pc_maximumExclusive = None,
    pc_target = \<lparr>tg_system = tg_system (pc_target c), tg_minimum = tg_minimum (pc_target c),
                 tg_maximum = tg_maximum (pc_target c)\<rparr>\<rparr> = c"
  by (drule parsed_compatibility(2)) simp

text \<open>
  C22: The identity of a legacy package is written exactly when it is read back: formatting a
  compatibility and a revision gives a text exactly when parsing that text gives the compatibility
  and the revision. So no two identities share a text and no identity has two.
\<close>

theorem plugin_identities_roundtrip:
  "formatPluginVersion c r = Some v \<longleftrightarrow> parseIdentity v = Some (Some (c, r))"
proof
  assume format: "formatPluginVersion c r = Some v"
  then obtain d where d: "parsePluginCompatibility Api_3 (Some (compatibility_json c)) = Some d"
    and r: "parseRevision r = Some r" "1 \<le> r"
    and v: "v = identity_text d r" "length v \<le> 256"
    by (auto simp: formatPluginVersion_def parseRevision_def check_def
        split: Option.bind_splits if_splits)
  note facts = parsed_compatibility [OF d]
  have "identity_match v = Some \<lparr>ig_release = pc_minimum c, ig_system = tg_system (pc_target c),
      ig_minimum = tg_minimum (pc_target c), ig_maximum = tg_maximum (pc_target c),
      ig_revision = nat_string (nat r)\<rparr>"
    using identity_text_groups [OF facts(3-6) r(2)] v(1) facts(1) by simp
  moreover have "int (decimal_value (nat_string (nat r))) = r"
    using r(2) by (simp add: nat_string_value)
  ultimately show "parseIdentity v = Some (Some (c, r))"
    using v(2) d facts(1) r format parse_own_compatibility [OF d]
    by (simp add: parseIdentity_def check_def)
next
  assume "parseIdentity v = Some (Some (c, r))"
  then show "formatPluginVersion c r = Some v"
    by (auto simp: parseIdentity_def check_def split: option.splits if_splits Option.bind_splits)
qed


section \<open>Hosts\<close>

lemma semantic_strip: "parseSemanticPluginVersion s = Some v \<Longrightarrow> strip_v s = s"
proof -
  assume "parseSemanticPluginVersion s = Some v"
  then have core: "numericVersion (fst (cut_at (CHR ''-'') (fst (cut_at (CHR ''+'') s))))"
    by (auto simp: parseSemanticPluginVersion_def semanticVersion_def split: if_splits prod.splits)
  have "CHR ''v'' \<notin> set t" if "numericVersion t" for t
    using split_char_chars [of t "CHR ''.''"] that
    by (fastforce simp: numericVersion_def Let_def list_all_iff decimal_text_def decimal_digit_def)
  then have free: "CHR ''v'' \<notin> set (fst (cut_at (CHR ''-'') (fst (cut_at (CHR ''+'') s))))"
    using core by blast
  have "CHR ''v'' \<in> set (fst (cut_at (CHR ''-'') (fst (cut_at (CHR ''+'') (CHR ''v'' # t)))))" for t
    by (simp add: cut_at_def)
  with free show "strip_v s = s"
    by (auto simp: strip_v_def split: list.split)
qed

lemma order_of_iff:
  "order_of x y < 0 \<longleftrightarrow> x < y" "order_of x y \<ge> 0 \<longleftrightarrow> y \<le> x"
  by (auto simp: order_of_def)

text \<open>
  C23: The hosts a current package runs on, for every host release. A development host or package runs
  only a development package on the one development host. Otherwise a host whose version is not
  semantic is an error; every other host is admitted exactly when its version lies in the half-open
  interval of the accepted compatibility, in the precedence order, and is either released or a preview
  of the very core release whose preview is the minimum: a preview host inside the interval is refused
  when the minimum is a release or previews another core release.
\<close>

theorem admitted_hosts_form_an_interval:
  fixes release :: js_string
  assumes "pm_api m = Api_4" and "pm_compatibility m = Some c"
    and "parsePluginCompatibility Api_4 j = Some c"
  defines "version \<equiv> strip_v release"
  shows "\<exists>maximum. pc_maximumExclusive c = Some maximum \<and>
    isPluginCompatibleWithHost m release =
      (if isDevelopmentPluginVersion version \<or> isDevelopmentPluginVersion (pm_version m)
       then Some (version = development_version \<and> isDevelopmentPluginVersion (pm_version m))
       else if parseSemanticPluginVersion version = None then None
       else Some
         (version_key_of (pc_minimum c) \<le> version_key_of version \<and>
          version_key_of version < version_key_of maximum \<and>
          (isPrereleaseVersion version = Some True \<longrightarrow>
             isPrereleaseVersion (pc_minimum c) = Some True \<and>
             before_hyphen version = before_hyphen (pc_minimum c))))"
proof -
  obtain maximum where maximum: "pc_maximumExclusive c = Some maximum"
    and valid: "parseSemanticPluginVersion (pc_minimum c) = Some (pc_minimum c)"
      "parseSemanticPluginVersion maximum = Some maximum"
    using assms(3)
    by (auto simp: parsePluginCompatibility_def parse_host_range_def parseReleaseVersion_def check_def
        parseSemanticPluginVersion_def split: Option.bind_splits if_splits)
  have compare: "compareDesktopReleases release t = Some (order_of (version_key_of version) (version_key_of t))"
    if "parseSemanticPluginVersion t = Some t" "parseSemanticPluginVersion version = Some version" for t
    using that semantic_strip [OF that(1)]
    by (simp add: compareDesktopReleases_def semantic_precedence_is_linear version_def)
  have "isPluginCompatibleWithHost m release = Some
         (version_key_of (pc_minimum c) \<le> version_key_of version \<and>
          version_key_of version < version_key_of maximum \<and>
          (isPrereleaseVersion version = Some True \<longrightarrow>
             isPrereleaseVersion (pc_minimum c) = Some True \<and>
             before_hyphen version = before_hyphen (pc_minimum c)))"
    if "parseSemanticPluginVersion version = Some version" "\<not> isDevelopmentPluginVersion version"
      "\<not> isDevelopmentPluginVersion (pm_version m)"
    using assms(1,2) that maximum valid compare [OF valid(1) that(1)] compare [OF valid(2) that(1)]
    by (auto simp: isPluginCompatibleWithHost_def version_def [symmetric] preview_refused_def isPrereleaseVersion_def
        order_of_iff not_less)
  moreover have "isPluginCompatibleWithHost m release = None"
    if "parseSemanticPluginVersion version = None" "\<not> isDevelopmentPluginVersion version"
      "\<not> isDevelopmentPluginVersion (pm_version m)"
    using assms(1,2) that
    by (simp add: isPluginCompatibleWithHost_def version_def [symmetric] preview_refused_def isPrereleaseVersion_def)
  moreover have "parseSemanticPluginVersion version \<in> {None, Some version}"
    by (auto simp: parseSemanticPluginVersion_def split: if_splits)
  ultimately show ?thesis
    using maximum assms(1) by (auto simp: isPluginCompatibleWithHost_def version_def [symmetric])
qed

definition sample_compatibility :: plugin_compatibility where
  "sample_compatibility = \<lparr>pc_minimum = ''1.2.0-rc.1'', pc_maximumExclusive = Some ''2.0.0'',
     pc_target = \<lparr>tg_system = ''eda'', tg_minimum = ''24.4.1'', tg_maximum = ''25.1.0''\<rparr>\<rparr>"

definition sample_manifest :: plugin_manifest where
  "sample_manifest = \<lparr>pm_id = ''eda'', pm_version = ''1.0.0'', pm_api = Api_4, pm_targetEdaVersion = None,
     pm_compatibility = Some sample_compatibility\<rparr>"

text \<open>A preview of the minimum's release is admitted; one of a later release in the interval is not.\<close>

lemma admitted_hosts_form_an_interval_witness:
  "isPluginCompatibleWithHost sample_manifest ''v1.2.0-rc.2'' = Some True
   \<and> isPluginCompatibleWithHost sample_manifest ''v1.3.0-rc.1'' = Some False
   \<and> isPluginCompatibleWithHost sample_manifest ''v1.3.0'' = Some True
   \<and> isPluginCompatibleWithHost sample_manifest ''v2.0.0'' = Some False"
proof -
  have "pm_api sample_manifest = Api_4" "pm_compatibility sample_manifest = Some sample_compatibility"
    "parsePluginCompatibility Api_4 (Some (compatibility_json sample_compatibility)) = Some sample_compatibility"
    by code_simp+
  note interval = admitted_hosts_form_an_interval [OF this]
  have keys: "version_key_of (pc_minimum sample_compatibility) \<le> version_key_of ''1.2.0-rc.2''"
    "version_key_of ''1.2.0-rc.2'' < version_key_of ''2.0.0''"
    "version_key_of (pc_minimum sample_compatibility) \<le> version_key_of ''1.3.0''"
    "version_key_of ''1.3.0'' < version_key_of ''2.0.0''"
    "isPrereleaseVersion (pc_minimum sample_compatibility) = Some True"
    "isPrereleaseVersion ''1.3.0'' = Some False" "isPrereleaseVersion ''1.3.0-rc.1'' = Some True"
    "before_hyphen ''1.2.0-rc.2'' = before_hyphen (pc_minimum sample_compatibility)"
    "before_hyphen ''1.3.0-rc.1'' \<noteq> before_hyphen (pc_minimum sample_compatibility)"
    "pc_maximumExclusive sample_compatibility = Some ''2.0.0''"
    by code_simp+
  have hosts: "\<not> isDevelopmentPluginVersion (pm_version sample_manifest)"
    "\<forall>host \<in> {''1.2.0-rc.2'', ''1.3.0-rc.1'', ''1.3.0'', ''2.0.0''}.
       \<not> isDevelopmentPluginVersion host \<and> parseSemanticPluginVersion host \<noteq> None \<and> strip_v (CHR ''v'' # host) = host"
    by code_simp+
  show ?thesis
    using interval [of "''v1.2.0-rc.2''"] interval [of "''v1.3.0-rc.1''"] interval [of "''v1.3.0''"] interval [of "''v2.0.0''"]
      keys hosts by simp
qed

end
