(* ===== verification/Plugin_Transitions.thy ===== *)
theory Plugin_Transitions
  imports Plugin_Versions "HOL-Library.AList"
begin

text \<open>
  The changes of plugins and who may run them (\<open>platform/node/plugins/transition.ts\<close>). A change owns
  its plugin from the moment it is admitted; changes run one after the other along a chain of
  promises; a pending acquisition (an intent) is superseded by a newer one of the same plugin; a
  watchdog reports a change that waits, and never releases it.

  Owners are objects that outlive their entry in the table, so they live in a heap and are named by
  their index. Promises and symbols are fresh numbers. The work a caller passes in is the environment:
  a run is a list of calls, and between two calls anything else may happen. A time of the clock is a
  number of milliseconds, and an observer of \<open>changed\<close> is what it reads: the snapshot.
\<close>

section \<open>Progress records\<close>

datatype plugin_operation =
  Startup | Install | Retry | Remove | Renderer_Recovery | Review_Install | Review_Retry
| Review_Remove | Review_Exit | Resolve_Exit | Shutdown

datatype transition_stage =
  Queued | Verify_Package | Wait_Connections | Review_Change | Load_Candidate | Prepare_Unload
| Drain_Requests | Commit_Storage | Retire_Previous | Activate_Candidate | Rollback_Storage
| Startup_Recovery | Review_Exit_Stage | Resolve_Exit_Stage | Close_Backend | Close_Candidate
| Discard_Package

datatype transition_state = Is_Queued | Is_Running | Is_Waiting

datatype commit_state = Not_Started | In_Progress | Confirmed

record plugin_transition =
  pt_operationId :: js_string
  pt_pluginId :: js_string
  pt_activationId :: "js_string option"
  pt_operation :: plugin_operation
  pt_stage :: transition_stage
  pt_state :: transition_state
  pt_startedAt :: int
  pt_stageStartedAt :: int
  pt_outstandingRequests :: int
  pt_outstandingConnections :: int
  pt_commit :: commit_state

record transition_spec =
  ts_pluginId :: js_string
  ts_operation :: plugin_operation
  ts_activationId :: "js_string option"

text \<open>Whether a metadata object brings a \<open>counts\<close> callback; what the callback answers when it is called
  is a sample, None when it throws.\<close>

record transition_metadata =
  md_activationId :: "js_string option"
  md_commit :: "commit_state option"
  md_counts :: bool

type_synonym sample = "(int \<times> int) option"

definition no_metadata :: transition_metadata where
  "no_metadata = \<lparr>md_activationId = None, md_commit = None, md_counts = False\<rparr>"

datatype transition_error =
  Invalid_Plugin_Id | Host_Closing | Plugin_Busy | Too_Many_Intents | Too_Many_Changes
| Superseded_Change | Shutdown_Not_Admitted | Exit_Review_Busy | Unbounded_Cohort
| Exit_Reviews_Only | Shutdown_Too_Early | Invalid_Activation | Already_Settled | Invalid_Stage

fun initialStage :: "plugin_operation \<Rightarrow> transition_stage" where
  "initialStage Startup = Load_Candidate"
| "initialStage Install = Verify_Package"
| "initialStage Retry = Verify_Package"
| "initialStage Remove = Wait_Connections"
| "initialStage Renderer_Recovery = Wait_Connections"
| "initialStage Review_Install = Review_Change"
| "initialStage Review_Retry = Review_Change"
| "initialStage Review_Remove = Review_Change"
| "initialStage Review_Exit = Review_Exit_Stage"
| "initialStage Resolve_Exit = Resolve_Exit_Stage"
| "initialStage Shutdown = Close_Backend"

definition blocksDispatch :: "plugin_operation \<Rightarrow> bool" where
  "blocksDispatch operation \<longleftrightarrow>
     operation \<notin> {Review_Install, Review_Retry, Review_Remove, Review_Exit}"

text \<open>\<open>UUID\<close> and \<open>parsePluginId\<close>'s \<open>identifier\<close>, whose separators are dots and hyphens.\<close>

definition hex_char :: "char \<Rightarrow> bool" where
  "hex_char c \<longleftrightarrow> (let n = (of_char c :: nat) in 97 \<le> n \<and> n \<le> 102 \<or> 48 \<le> n \<and> n \<le> 57)"

definition uuid :: "js_string \<Rightarrow> bool" where
  "uuid s \<longleftrightarrow>
     (let parts = split_char (CHR ''-'') s in
      map length parts = [8, 4, 4, 4, 12] \<and> list_all (list_all hex_char) parts)"

definition validActivation :: "js_string option \<Rightarrow> bool" where
  "validActivation value = (case value of None \<Rightarrow> True | Some s \<Rightarrow> uuid s)"

definition pluginIdentifier :: "js_string \<Rightarrow> bool" where
  "pluginIdentifier s \<longleftrightarrow>
     length s \<le> 128 \<and>
     system_segments (split_char (CHR ''-'') (map (\<lambda>c. if c = CHR ''.'' then CHR ''-'' else c) s))"

section \<open>Owners, operations and the table\<close>

text \<open>The timer of an owner's phase, and whether it is still to fire.\<close>

record owner =
  ow_record :: plugin_transition
  ow_blocking :: bool
  ow_phase :: nat
  ow_timer :: "(nat \<times> bool) option"
  ow_counts :: bool

type_synonym change_intent = "js_string \<times> nat"

datatype operation_body = Change nat plugin_operation "change_intent option" | Exit_Review "nat list"

text \<open>What \<open>this.tail.then(...)\<close> links: the callback, the promise it follows and the promise of its
  own settling.\<close>

record linked_operation =
  lo_promise :: nat
  lo_after :: nat
  lo_body :: operation_body

record transition_handle =
  hd_owner :: nat
  hd_intent :: "change_intent option"

record transitions =
  tr_heap :: "owner list"
  tr_owners :: "(js_string \<times> nat) list"
  tr_intents :: "(js_string \<times> nat) list"
  tr_next :: nat
  tr_tail :: nat
  tr_settled :: "nat list"
  tr_pending :: "linked_operation list"
  tr_active :: "linked_operation list"
  tr_shutdowns :: "nat list"
  tr_ordinary :: int
  tr_closing :: bool
  tr_handles :: "transition_handle list"
  tr_published :: "plugin_transition list list"

definition no_transitions :: transitions where
  "no_transitions =
     \<lparr>tr_heap = [], tr_owners = [], tr_intents = [], tr_next = 1, tr_tail = 0, tr_settled = [0],
      tr_pending = [], tr_active = [], tr_shutdowns = [], tr_ordinary = 0, tr_closing = False,
      tr_handles = [], tr_published = []\<rparr>"

abbreviation maximum_operations :: nat where
  "maximum_operations \<equiv> 64"

fun body_owners :: "operation_body \<Rightarrow> nat list" where
  "body_owners (Change k _ _) = [k]"
| "body_owners (Exit_Review ks) = ks"

definition owner_plugin :: "nat \<Rightarrow> transitions \<Rightarrow> js_string" where
  "owner_plugin k s = pt_pluginId (ow_record (tr_heap s ! k))"

definition update_owner :: "nat \<Rightarrow> (owner \<Rightarrow> owner) \<Rightarrow> transitions \<Rightarrow> transitions" where
  "update_owner k f s = s\<lparr>tr_heap := (tr_heap s)[k := f (tr_heap s ! k)]\<rparr>"

definition owned :: "nat \<Rightarrow> transitions \<Rightarrow> bool" where
  "owned k s \<longleftrightarrow> map_of (tr_owners s) (owner_plugin k s) = Some k"

definition snapshot_transitions :: "transitions \<Rightarrow> plugin_transition list" where
  "snapshot_transitions s = map (\<lambda>(_, k). ow_record (tr_heap s ! k)) (tr_owners s)"

definition publish_transitions :: "transitions \<Rightarrow> transitions" where
  "publish_transitions s = s\<lparr>tr_published := tr_published s @ [snapshot_transitions s]\<rparr>"

definition isChanging :: "js_string \<Rightarrow> transitions \<Rightarrow> bool" where
  "isChanging pluginId s =
     (case map_of (tr_owners s) pluginId of None \<Rightarrow> False | Some k \<Rightarrow> ow_blocking (tr_heap s ! k))"

section \<open>Admission\<close>

definition assertOpen :: "transitions \<Rightarrow> transition_error option" where
  "assertOpen s = (if tr_closing s then Some Host_Closing else None)"

text \<open>The \<open>assertCurrent\<close> of an intent. \<open>assertIntent\<close> is optional.\<close>

definition assertIntent :: "change_intent option \<Rightarrow> transitions \<Rightarrow> transition_error option" where
  "assertIntent intent s =
     (case intent of
        None \<Rightarrow> None
      | Some (pluginId, symbol) \<Rightarrow>
          if tr_closing s then Some Host_Closing
          else if map_of (tr_intents s) pluginId \<noteq> Some symbol then Some Superseded_Change
          else None)"

definition assertAvailable :: "js_string \<Rightarrow> transitions \<Rightarrow> transition_error option" where
  "assertAvailable pluginId s =
     (if map_of (tr_owners s) pluginId \<noteq> None then Some Plugin_Busy else None)"

definition with_intent :: "js_string \<Rightarrow> transitions \<Rightarrow> transition_error + transitions" where
  "with_intent pluginId s =
     (if \<not> pluginIdentifier pluginId then Inl Invalid_Plugin_Id
      else if tr_closing s then Inl Host_Closing
      else case assertAvailable pluginId s of
        Some e \<Rightarrow> Inl e
      | None \<Rightarrow>
          if map_of (tr_intents s) pluginId = None \<and> length (tr_intents s) \<ge> maximum_operations
          then Inl Too_Many_Intents
          else Inr (s\<lparr>tr_intents := AList.update pluginId (tr_next s) (tr_intents s),
                      tr_next := tr_next s + 1\<rparr>))"

definition intent_done :: "change_intent \<Rightarrow> transitions \<Rightarrow> transitions" where
  "intent_done i s =
     (if map_of (tr_intents s) (fst i) = Some (snd i)
      then s\<lparr>tr_intents := AList.delete (fst i) (tr_intents s)\<rparr> else s)"

definition validateSpec :: "transition_spec \<Rightarrow> transitions \<Rightarrow> transition_error option" where
  "validateSpec spec s =
     (if \<not> pluginIdentifier (ts_pluginId spec) then Some Invalid_Plugin_Id
      else if \<not> validActivation (ts_activationId spec) then Some Invalid_Activation
      else assertAvailable (ts_pluginId spec) s)"

definition createOwner :: "transition_spec \<Rightarrow> js_string \<Rightarrow> int \<Rightarrow> nat \<Rightarrow> owner" where
  "createOwner spec operationId now phase =
     \<lparr>ow_record = \<lparr>pt_operationId = operationId, pt_pluginId = ts_pluginId spec,
        pt_activationId = ts_activationId spec, pt_operation = ts_operation spec,
        pt_stage = Queued, pt_state = Is_Queued, pt_startedAt = now, pt_stageStartedAt = now,
        pt_outstandingRequests = 0, pt_outstandingConnections = 0, pt_commit = Not_Started\<rparr>,
      ow_blocking = False, ow_phase = phase, ow_timer = None, ow_counts = False\<rparr>"

text \<open>\<open>createOwner\<close> with the entry of the table: the owner is allocated at the end of the heap.\<close>

definition enter_owner :: "transition_spec \<Rightarrow> js_string \<Rightarrow> int \<Rightarrow> transitions \<Rightarrow> transitions" where
  "enter_owner spec operationId now s =
     s\<lparr>tr_heap := tr_heap s @ [createOwner spec operationId now (tr_next s)],
       tr_owners := AList.update (ts_pluginId spec) (length (tr_heap s)) (tr_owners s),
       tr_next := tr_next s + 1\<rparr>"

definition admit :: "transition_spec \<Rightarrow> js_string \<Rightarrow> int \<Rightarrow> transitions \<Rightarrow> transition_error + transitions" where
  "admit spec operationId now s =
     (case validateSpec spec s of
        Some e \<Rightarrow> Inl e
      | None \<Rightarrow> if length (tr_owners s) \<ge> maximum_operations then Inl Too_Many_Changes
                else Inr (enter_owner spec operationId now s))"

text \<open>\<open>this.ordinary++; operation = this.tail.then(...); this.tail = ...; this.publish()\<close>.\<close>

definition link_operation :: "operation_body \<Rightarrow> transitions \<Rightarrow> transitions" where
  "link_operation body s =
     publish_transitions
       (s\<lparr>tr_ordinary := tr_ordinary s + 1,
          tr_pending := tr_pending s @ [\<lparr>lo_promise = tr_next s, lo_after = tr_tail s, lo_body = body\<rparr>],
          tr_tail := tr_next s, tr_next := tr_next s + 1\<rparr>)"

definition run_change ::
  "transition_spec \<Rightarrow> change_intent option \<Rightarrow> js_string \<Rightarrow> int \<Rightarrow> transitions \<Rightarrow> transition_error + transitions" where
  "run_change spec intent operationId now s =
     (if tr_closing s then Inl Host_Closing
      else case assertIntent intent s of
        Some e \<Rightarrow> Inl e
      | None \<Rightarrow>
          if ts_operation spec = Shutdown then Inl Shutdown_Not_Admitted
          else case admit spec operationId now s of
            Inl e \<Rightarrow> Inl e
          | Inr s1 \<Rightarrow> Inr (link_operation (Change (length (tr_heap s)) (ts_operation spec) intent) s1))"

fun validate_cohort :: "transition_spec list \<Rightarrow> transitions \<Rightarrow> transition_error option" where
  "validate_cohort [] s = None"
| "validate_cohort (spec # specs) s =
     (case validateSpec spec s of
        Some e \<Rightarrow> Some e
      | None \<Rightarrow> if ts_operation spec \<noteq> Review_Exit then Some Exit_Reviews_Only
                else validate_cohort specs s)"

fun enter_owners :: "(transition_spec \<times> js_string \<times> int) list \<Rightarrow> transitions \<Rightarrow> transitions" where
  "enter_owners [] s = s"
| "enter_owners ((spec, operationId, now) # cohort) s =
     enter_owners cohort (enter_owner spec operationId now s)"

definition reviewExit ::
  "(transition_spec \<times> js_string \<times> int) list \<Rightarrow> transitions \<Rightarrow> transition_error + transitions" where
  "reviewExit cohort s =
     (if tr_closing s then Inl Host_Closing
      else if tr_ordinary s \<noteq> 0 then Inl Exit_Review_Busy
      else if length cohort > maximum_operations
              \<or> \<not> distinct (map (ts_pluginId \<circ> fst) cohort) then Inl Unbounded_Cohort
      else case validate_cohort (map fst cohort) s of
        Some e \<Rightarrow> Inl e
      | None \<Rightarrow>
          let n = length (tr_heap s)
          in Inr (link_operation (Exit_Review [n..<n + length cohort]) (enter_owners cohort s)))"

definition begin_close :: "transitions \<Rightarrow> transitions" where
  "begin_close s = s\<lparr>tr_closing := True, tr_intents := []\<rparr>"

section \<open>Phases, waits and the watchdog\<close>

definition set_record :: "(plugin_transition \<Rightarrow> plugin_transition) \<Rightarrow> owner \<Rightarrow> owner" where
  "set_record f ow = ow\<lparr>ow_record := f (ow_record ow)\<rparr>"

definition clear_timer :: "nat \<Rightarrow> transitions \<Rightarrow> transitions" where
  "clear_timer k = update_owner k (\<lambda>ow. ow\<lparr>ow_timer := None\<rparr>)"

text \<open>\<open>sampleCounts\<close>: a callback that throws, or answers something else than two safe natural numbers,
  changes nothing.\<close>

definition sample_counts :: "nat \<Rightarrow> sample \<Rightarrow> transitions \<Rightarrow> bool \<times> transitions" where
  "sample_counts k sample s =
     (let r = ow_record (tr_heap s ! k) in
      if \<not> ow_counts (tr_heap s ! k) then (False, s)
      else case sample of
        None \<Rightarrow> (False, s)
      | Some (requests, connections) \<Rightarrow>
          if \<not> is_safe_integer requests \<or> requests < 0
             \<or> \<not> is_safe_integer connections \<or> connections < 0 then (False, s)
          else if pt_outstandingRequests r = requests \<and> pt_outstandingConnections r = connections
          then (False, s)
          else (True, update_owner k (set_record (\<lambda>r. r\<lparr>pt_outstandingRequests := requests,
                        pt_outstandingConnections := connections\<rparr>)) s))"

definition enter_stage ::
  "transition_stage \<Rightarrow> transition_metadata \<Rightarrow> int \<Rightarrow> plugin_transition \<Rightarrow> plugin_transition" where
  "enter_stage stage md now r =
     r\<lparr>pt_stage := stage, pt_state := Is_Running, pt_stageStartedAt := max now (pt_stageStartedAt r),
       pt_activationId := (case md_activationId md of None \<Rightarrow> pt_activationId r | Some a \<Rightarrow> Some a),
       pt_commit := (case md_commit md of None \<Rightarrow> pt_commit r | Some c \<Rightarrow> c)\<rparr>"

definition phase ::
  "nat \<Rightarrow> transition_stage \<Rightarrow> transition_metadata \<Rightarrow> int \<Rightarrow> sample \<Rightarrow> transitions \<Rightarrow> transition_error + transitions" where
  "phase k stage md now sample s =
     (if \<not> owned k s then Inl Already_Settled
      else if stage = Queued then Inl Invalid_Stage
      else if \<not> validActivation (md_activationId md) then Inl Invalid_Activation
      else
        let n = tr_next s;
            s1 = update_owner k (\<lambda>ow. set_record (enter_stage stage md now)
                   (ow\<lparr>ow_phase := n, ow_counts := ow_counts ow \<or> md_counts md\<rparr>)) (clear_timer k s);
            s2 = snd (sample_counts k sample (s1\<lparr>tr_next := n + 1\<rparr>))
        in Inr (publish_transitions (update_owner k (\<lambda>ow. ow\<lparr>ow_timer := Some (n, True)\<rparr>) s2)))"

text \<open>The \<open>finally\<close> of \<open>wait\<close>, for a wait that began in the given phase.\<close>

definition wait_done :: "nat \<Rightarrow> nat \<Rightarrow> sample \<Rightarrow> transitions \<Rightarrow> transitions" where
  "wait_done k began sample s =
     (if ow_phase (tr_heap s ! k) \<noteq> began then s
      else case sample_counts k sample (clear_timer k s) of (changed, s1) \<Rightarrow>
        if pt_state (ow_record (tr_heap s1 ! k)) = Is_Waiting
        then publish_transitions (update_owner k (set_record (\<lambda>r. r\<lparr>pt_state := Is_Running\<rparr>)) s1)
        else if changed then publish_transitions s1 else s1)"

definition watchdog_fires :: "nat \<Rightarrow> sample \<Rightarrow> transitions \<Rightarrow> transitions" where
  "watchdog_fires k sample s =
     (case ow_timer (tr_heap s ! k) of
        Some (began, True) \<Rightarrow>
          let s1 = update_owner k (\<lambda>ow. ow\<lparr>ow_timer := Some (began, False)\<rparr>) s
          in if \<not> owned k s1 \<or> ow_phase (tr_heap s1 ! k) \<noteq> began then s1
             else publish_transitions
                    (update_owner k (set_record (\<lambda>r. r\<lparr>pt_state := Is_Waiting\<rparr>))
                      (snd (sample_counts k sample s1)))
      | _ \<Rightarrow> s)"

definition refresh_counts :: "js_string \<Rightarrow> sample \<Rightarrow> transitions \<Rightarrow> transitions" where
  "refresh_counts pluginId sample s =
     (case map_of (tr_owners s) pluginId of
        None \<Rightarrow> s
      | Some k \<Rightarrow> case sample_counts k sample s of (changed, s1) \<Rightarrow>
          if changed then publish_transitions s1 else s1)"

definition finish_owner :: "bool \<Rightarrow> nat \<Rightarrow> transitions \<Rightarrow> transitions" where
  "finish_owner publish k s =
     (let s1 = clear_timer k s in
      if \<not> owned k s1 then s1
      else let s2 = s1\<lparr>tr_owners := AList.delete (owner_plugin k s1) (tr_owners s1)\<rparr>
           in if publish then publish_transitions s2 else s2)"

text \<open>The \<open>assertCurrent\<close> of a handle.\<close>

definition assert_current :: "transition_handle \<Rightarrow> transitions \<Rightarrow> transition_error option" where
  "assert_current h s =
     (if \<not> owned (hd_owner h) s then Some Already_Settled
      else if tr_closing s then Some Host_Closing
      else assertIntent (hd_intent h) s)"

section \<open>Operations\<close>

text \<open>The \<open>finally\<close> of an operation, after which its promise settles.\<close>

definition conclude :: "linked_operation \<Rightarrow> transitions \<Rightarrow> transitions" where
  "conclude q s =
     (let s1 = (case lo_body q of
          Change k _ _ \<Rightarrow>
            (let s0 = finish_owner True k s in s0\<lparr>tr_ordinary := tr_ordinary s0 - 1\<rparr>)
        | Exit_Review ks \<Rightarrow>
            (let s0 = fold (finish_owner False) ks s
             in publish_transitions (s0\<lparr>tr_ordinary := tr_ordinary s0 - 1\<rparr>)))
      in s1\<lparr>tr_settled := tr_settled s1 @ [lo_promise q]\<rparr>)"

definition hand_out :: "transition_handle list \<Rightarrow> transitions \<Rightarrow> transitions" where
  "hand_out hs s = s\<lparr>tr_handles := tr_handles s @ hs\<rparr>"

text \<open>The callback of a linked operation up to its work.\<close>

definition begin_operation :: "linked_operation \<Rightarrow> int \<Rightarrow> transitions \<Rightarrow> transitions" where
  "begin_operation q now s0 =
     (let s = s0\<lparr>tr_pending := remove1 q (tr_pending s0)\<rparr> in
      case lo_body q of
        Change k operation intent \<Rightarrow>
          if tr_closing s \<or> assertIntent intent s \<noteq> None then conclude q s
          else
            let s1 = hand_out [\<lparr>hd_owner = k, hd_intent = intent\<rparr>]
                       (update_owner k (\<lambda>ow. ow\<lparr>ow_blocking := blocksDispatch operation\<rparr>) s)
            in (case phase k (initialStage operation) no_metadata now None s1 of
                  Inl _ \<Rightarrow> conclude q s1
                | Inr s2 \<Rightarrow> s2\<lparr>tr_active := tr_active s2 @ [q]\<rparr>)
      | Exit_Review ks \<Rightarrow>
          if tr_closing s then conclude q s
          else let s1 = hand_out (map (\<lambda>k. \<lparr>hd_owner = k, hd_intent = None\<rparr>) ks) s
               in s1\<lparr>tr_active := tr_active s1 @ [q]\<rparr>)"

definition operation_done :: "linked_operation \<Rightarrow> transitions \<Rightarrow> transitions" where
  "operation_done q s = conclude q (s\<lparr>tr_active := remove1 q (tr_active s)\<rparr>)"

definition observeShutdown ::
  "transition_spec \<Rightarrow> js_string \<Rightarrow> int \<Rightarrow> transitions \<Rightarrow> transition_error + transitions" where
  "observeShutdown spec operationId now s =
     (if \<not> tr_closing s \<or> tr_ordinary s \<noteq> 0 \<or> ts_operation spec \<noteq> Shutdown then Inl Shutdown_Too_Early
      else case admit spec operationId now s of
        Inl e \<Rightarrow> Inl e
      | Inr s1 \<Rightarrow>
          let k = length (tr_heap s);
              s2 = hand_out [\<lparr>hd_owner = k, hd_intent = None\<rparr>]
                     (update_owner k (\<lambda>ow. ow\<lparr>ow_blocking := True\<rparr>) s1)
          in (case phase k Close_Backend no_metadata now None s2 of
                Inl e \<Rightarrow> Inr (finish_owner True k s2)
              | Inr s3 \<Rightarrow> Inr (s3\<lparr>tr_shutdowns := tr_shutdowns s3 @ [k]\<rparr>)))"

definition shutdown_done :: "nat \<Rightarrow> transitions \<Rightarrow> transitions" where
  "shutdown_done k s = finish_owner True k (s\<lparr>tr_shutdowns := remove1 k (tr_shutdowns s)\<rparr>)"

section \<open>Runs\<close>

text \<open>What the host, a work, a timer or the promise machinery may do next. A call that cannot happen (a
  handle that was never given out, an operation whose predecessor has not settled) changes nothing,
  and so does one that throws.\<close>

datatype transition_call =
  With_Intent js_string
| Intent_Done change_intent
| Run_Change transition_spec "change_intent option" js_string int
| Review_Exit_Of "(transition_spec \<times> js_string \<times> int) list"
| Begin_Operation linked_operation int
| Operation_Done linked_operation
| Enter_Phase transition_handle transition_stage transition_metadata int sample
| Wait_Done transition_handle nat sample
| Timer_Fires nat sample
| Refresh js_string sample
| Begin_Close
| Observe_Shutdown transition_spec js_string int
| Shutdown_Done nat

definition or_else :: "transitions \<Rightarrow> transition_error + transitions \<Rightarrow> transitions" where
  "or_else s r = (case r of Inl _ \<Rightarrow> s | Inr s' \<Rightarrow> s')"

fun transition_step :: "transition_call \<Rightarrow> transitions \<Rightarrow> transitions" where
  "transition_step (With_Intent pluginId) s = or_else s (with_intent pluginId s)"
| "transition_step (Intent_Done i) s = intent_done i s"
| "transition_step (Run_Change spec intent operationId now) s =
     or_else s (run_change spec intent operationId now s)"
| "transition_step (Review_Exit_Of cohort) s = or_else s (reviewExit cohort s)"
| "transition_step (Begin_Operation q now) s =
     (if q \<in> set (tr_pending s) \<and> lo_after q \<in> set (tr_settled s) then begin_operation q now s else s)"
| "transition_step (Operation_Done q) s =
     (if q \<in> set (tr_active s) then operation_done q s else s)"
| "transition_step (Enter_Phase h stage md now sample) s =
     (if h \<in> set (tr_handles s) then or_else s (phase (hd_owner h) stage md now sample s) else s)"
| "transition_step (Wait_Done h began sample) s =
     (if h \<in> set (tr_handles s) then wait_done (hd_owner h) began sample s else s)"
| "transition_step (Timer_Fires k sample) s =
     (if k < length (tr_heap s) then watchdog_fires k sample s else s)"
| "transition_step (Refresh pluginId sample) s = refresh_counts pluginId sample s"
| "transition_step Begin_Close s = begin_close s"
| "transition_step (Observe_Shutdown spec operationId now) s =
     or_else s (observeShutdown spec operationId now s)"
| "transition_step (Shutdown_Done k) s =
     (if k \<in> set (tr_shutdowns s) then shutdown_done k s else s)"

definition transition_run :: "transition_call list \<Rightarrow> transitions" where
  "transition_run calls = fold transition_step calls no_transitions"

end
