(* ===== verification/Plugin_Serial.thy ===== *)
theory Plugin_Serial
  imports Plugin_Transitions
begin

text \<open>
  Plugin changes are exclusive: whatever the host, the works and the timers do, one change runs at a
  time, in the order of admission, and a check that passes finds its own change running.
\<close>

section \<open>What the steps inside a change leave alone\<close>

text \<open>From s to s' only progress is made: no owner, operation or handle comes or goes.\<close>

definition frame :: "transitions \<Rightarrow> transitions \<Rightarrow> bool" where
  "frame s s' \<longleftrightarrow>
     tr_tail s' = tr_tail s \<and> tr_settled s' = tr_settled s \<and> tr_pending s' = tr_pending s
     \<and> tr_active s' = tr_active s \<and> tr_shutdowns s' = tr_shutdowns s \<and> tr_ordinary s' = tr_ordinary s
     \<and> tr_handles s' = tr_handles s \<and> tr_next s \<le> tr_next s' \<and> (tr_closing s \<longrightarrow> tr_closing s')
     \<and> length (tr_heap s') = length (tr_heap s)
     \<and> (\<forall>k < length (tr_heap s). owner_plugin k s' = owner_plugin k s
          \<and> ow_blocking (tr_heap s' ! k) = ow_blocking (tr_heap s ! k))"

definition steady :: "transitions \<Rightarrow> transitions \<Rightarrow> bool" where
  "steady s s' \<longleftrightarrow> frame s s' \<and> tr_owners s' = tr_owners s"

lemma steady_refl [simp]: "steady s s"
  by (simp add: steady_def frame_def)

lemma steady_trans [trans]: "steady s t \<Longrightarrow> steady t u \<Longrightarrow> steady s u"
  by (auto simp: steady_def frame_def)

lemma set_record_simps [simp]:
  "ow_record (set_record f ow) = f (ow_record ow)" "ow_blocking (set_record f ow) = ow_blocking ow"
  by (simp_all add: set_record_def)

lemma steady_publish: "steady s t \<Longrightarrow> steady s (publish_transitions t)"
  by (auto simp: steady_def frame_def publish_transitions_def owner_plugin_def)

lemma nth_updated: "j < length xs \<Longrightarrow> xs[i := x] ! j = (if i = j then x else xs ! j)"
  by auto

lemma steady_update:
  assumes "steady s t"
    and "\<And>ow. pt_pluginId (ow_record (f ow)) = pt_pluginId (ow_record ow)"
    and "\<And>ow. ow_blocking (f ow) = ow_blocking ow"
  shows "steady s (update_owner k f t)"
  using assms by (auto simp: steady_def frame_def update_owner_def owner_plugin_def nth_updated)

lemma steady_next: "steady s t \<Longrightarrow> tr_next t \<le> n \<Longrightarrow> steady s (t\<lparr>tr_next := n\<rparr>)"
  by (auto simp: steady_def frame_def owner_plugin_def)

lemma steady_clear: "steady s t \<Longrightarrow> steady s (clear_timer k t)"
  unfolding clear_timer_def by (rule steady_update) simp_all

lemma steady_sample: "steady s t \<Longrightarrow> steady s (snd (sample_counts k sample t))"
  by (auto simp: sample_counts_def Let_def set_record_def intro: steady_update split: option.split)

lemma phase_next: "tr_next (snd (sample_counts k sample t)) = tr_next t"
  by (auto simp: sample_counts_def Let_def update_owner_def split: option.split)

lemma steady_phase:
  assumes "phase k stage md now sample s = Inr t"
  shows "steady s t"
proof -
  let ?n = "tr_next s"
  let ?s1 = "update_owner k (\<lambda>ow. set_record (enter_stage stage md now)
               (ow\<lparr>ow_phase := ?n, ow_counts := ow_counts ow \<or> md_counts md\<rparr>)) (clear_timer k s)"
  have t: "t = publish_transitions (update_owner k (\<lambda>ow. ow\<lparr>ow_timer := Some (?n, True)\<rparr>)
             (snd (sample_counts k sample (?s1\<lparr>tr_next := ?n + 1\<rparr>))))"
    using assms by (simp add: phase_def Let_def split: if_splits)
  have "steady s ?s1"
    by (intro steady_update steady_clear) (simp_all add: set_record_def enter_stage_def)
  then have "steady s (?s1\<lparr>tr_next := ?n + 1\<rparr>)"
    by (rule steady_next) (simp add: update_owner_def clear_timer_def)
  then show ?thesis
    unfolding t by (intro steady_publish steady_update steady_sample) simp_all
qed

lemma steady_wait: "steady s (wait_done k began sample s)"
proof -
  obtain changed t where t: "sample_counts k sample (clear_timer k s) = (changed, t)"
    by (cases "sample_counts k sample (clear_timer k s)")
  have "steady s t"
    using steady_sample [OF steady_clear [OF steady_refl], of s k sample k] t by simp
  then show ?thesis
    unfolding wait_done_def t
    by (auto intro!: steady_publish steady_update)
qed

lemma steady_timer: "steady s (watchdog_fires k sample s)"
  by (auto simp: watchdog_fires_def Let_def set_record_def split: option.split bool.split
      intro!: steady_publish steady_update steady_sample)

lemma steady_refresh: "steady s (refresh_counts pluginId sample s)"
proof (cases "map_of (tr_owners s) pluginId")
  case (Some k)
  obtain changed t where t: "sample_counts k sample s = (changed, t)"
    by (cases "sample_counts k sample s")
  then have "steady s t"
    using steady_sample [OF steady_refl, of s k sample] by simp
  with Some t show ?thesis
    by (simp add: refresh_counts_def steady_publish)
qed (simp add: refresh_counts_def)

lemma steady_intents: "steady s (or_else s (with_intent pluginId s))" "steady s (intent_done i s)"
  "steady s (begin_close s)"
  by (auto simp: steady_def frame_def or_else_def with_intent_def assertAvailable_def intent_done_def
      begin_close_def owner_plugin_def split: option.split)

section \<open>The invariant\<close>

text \<open>The operations of the chain, the one that runs first; and the owners they and the shutdown works
  answer for.\<close>

definition chain :: "transitions \<Rightarrow> linked_operation list" where
  "chain s = tr_active s @ tr_pending s"

definition chain_owners :: "linked_operation list \<Rightarrow> nat list" where
  "chain_owners qs = concat (map (body_owners \<circ> lo_body) qs)"

definition claims :: "transitions \<Rightarrow> nat list" where
  "claims s = chain_owners (chain s) @ tr_shutdowns s"

definition table_ok :: "transitions \<Rightarrow> bool" where
  "table_ok s \<longleftrightarrow>
     distinct (map fst (tr_owners s)) \<and> length (tr_owners s) \<le> maximum_operations
     \<and> (\<forall>(p, k) \<in> set (tr_owners s). k < length (tr_heap s) \<and> owner_plugin k s = p)
     \<and> distinct (claims s) \<and> set (claims s) = snd ` set (tr_owners s)"

lemma table_okI:
  assumes "distinct (map fst (tr_owners s))" "length (tr_owners s) \<le> maximum_operations"
    and "\<And>p k. (p, k) \<in> set (tr_owners s) \<Longrightarrow> k < length (tr_heap s) \<and> owner_plugin k s = p"
    and "distinct (claims s)" "set (claims s) = snd ` set (tr_owners s)"
  shows "table_ok s"
  unfolding table_ok_def using assms by (intro conjI) auto

fun links :: "nat \<Rightarrow> linked_operation list \<Rightarrow> nat \<Rightarrow> bool" where
  "links p [] tail = (p = tail)"
| "links p (q # qs) tail = (lo_after q = p \<and> links (lo_promise q) qs tail)"

definition chain_ok :: "transitions \<Rightarrow> bool" where
  "chain_ok s \<longleftrightarrow>
     (\<exists>p \<in> set (tr_settled s). links p (chain s) (tr_tail s))
     \<and> sorted_wrt (<) (tr_settled s @ map lo_promise (chain s) @ [tr_next s])
     \<and> length (tr_active s) \<le> 1 \<and> tr_ordinary s = int (length (chain s))
     \<and> (tr_shutdowns s \<noteq> [] \<longrightarrow> tr_closing s \<and> chain s = [])"

text \<open>The owners that block the dispatch of their plugin.\<close>

fun body_blocks :: "operation_body \<Rightarrow> nat list" where
  "body_blocks (Change k operation _) = (if blocksDispatch operation then [k] else [])"
| "body_blocks (Exit_Review _) = []"

lemma body_blocks_owners: "set (body_blocks b) \<subseteq> set (body_owners b)"
  by (cases b) auto

definition blocked :: "transitions \<Rightarrow> nat set" where
  "blocked s = set (tr_shutdowns s) \<union> (\<Union>q \<in> set (tr_active s). set (body_blocks (lo_body q)))"

definition blocking_ok :: "transitions \<Rightarrow> bool" where
  "blocking_ok s \<longleftrightarrow> (\<forall>k \<in> set (claims s). ow_blocking (tr_heap s ! k) \<longleftrightarrow> k \<in> blocked s)"

fun body_handle :: "operation_body \<Rightarrow> transition_handle \<Rightarrow> bool" where
  "body_handle (Change k _ intent) h = (hd_owner h = k \<longrightarrow> hd_intent h = intent)"
| "body_handle (Exit_Review ks) h = (hd_owner h \<in> set ks \<longrightarrow> hd_intent h = None)"

definition handles_ok :: "transitions \<Rightarrow> bool" where
  "handles_ok s \<longleftrightarrow>
     (\<forall>h \<in> set (tr_handles s). hd_owner h < length (tr_heap s)
        \<and> hd_owner h \<notin> set (chain_owners (tr_pending s))
        \<and> (\<forall>q \<in> set (tr_active s). body_handle (lo_body q) h))"

definition serial :: "transitions \<Rightarrow> bool" where
  "serial s \<longleftrightarrow> table_ok s \<and> chain_ok s \<and> blocking_ok s \<and> handles_ok s"

lemmas serial_defs = serial_def table_ok_def chain_ok_def blocking_ok_def handles_ok_def

lemma chain_owners_simps [simp]:
  "chain_owners [] = []"
  "chain_owners (q # qs) = body_owners (lo_body q) @ chain_owners qs"
  "chain_owners (qs @ rs) = chain_owners qs @ chain_owners rs"
  by (simp_all add: chain_owners_def)

lemma serial_initial: "serial no_transitions"
  by (simp add: serial_defs no_transitions_def chain_def claims_def blocked_def)

lemma claims_in_heap: "table_ok s \<Longrightarrow> k \<in> set (claims s) \<Longrightarrow> k < length (tr_heap s)"
  by (auto simp: table_ok_def)

lemma sorted_next: "sorted_wrt (<) (xs @ [n]) \<Longrightarrow> n \<le> m \<Longrightarrow> sorted_wrt (<) (xs @ [m :: nat])"
  by (auto simp: sorted_wrt_append)

lemma steady_serial:
  assumes "serial s" and "steady s t"
  shows "serial t"
proof -
  have same: "chain t = chain s" "claims t = claims s" "blocked t = blocked s"
    using assms(2) by (simp_all add: steady_def frame_def chain_def claims_def blocked_def)
  have "table_ok t"
    using assms same by (auto simp: serial_def table_ok_def steady_def frame_def)
  moreover have "chain_ok t"
    using assms same sorted_next [of "tr_settled s @ map lo_promise (chain s)" "tr_next s" "tr_next t"]
    by (auto simp: serial_def chain_ok_def steady_def frame_def)
  moreover have "blocking_ok t"
    using assms same claims_in_heap [of s]
    by (auto simp: serial_def blocking_ok_def steady_def frame_def)
  moreover have "handles_ok t"
    using assms same by (auto simp: serial_def handles_ok_def steady_def frame_def)
  ultimately show ?thesis by (simp add: serial_def)
qed

section \<open>Admission\<close>

text \<open>From s to t owners of the given plugins enter the table, and nothing else changes.\<close>

definition entered :: "js_string list \<Rightarrow> transitions \<Rightarrow> transitions \<Rightarrow> bool" where
  "entered ps s t \<longleftrightarrow>
     tr_tail t = tr_tail s \<and> tr_settled t = tr_settled s \<and> tr_pending t = tr_pending s
     \<and> tr_active t = tr_active s \<and> tr_shutdowns t = tr_shutdowns s \<and> tr_ordinary t = tr_ordinary s
     \<and> tr_handles t = tr_handles s \<and> tr_next s \<le> tr_next t \<and> tr_closing t = tr_closing s
     \<and> (\<exists>new. tr_heap t = tr_heap s @ new \<and> map (pt_pluginId \<circ> ow_record) new = ps
          \<and> list_all (\<lambda>ow. \<not> ow_blocking ow) new)
     \<and> tr_owners t = tr_owners s @ zip ps [length (tr_heap s)..<length (tr_heap s) + length ps]"

lemma update_new: "k \<notin> fst ` set xs \<Longrightarrow> AList.update k v xs = xs @ [(k, v)]"
  by (induction xs) auto

lemma map_of_snoc: "p \<notin> fst ` set xs \<Longrightarrow> map_of (xs @ [(p, n)]) p = Some n"
  by (induction xs) auto

lemma entered_one:
  assumes "ts_pluginId spec \<notin> fst ` set (tr_owners s)"
  shows "entered [ts_pluginId spec] s (enter_owner spec i now s)"
  using assms by (simp add: entered_def enter_owner_def update_new createOwner_def)

lemma entered_Cons:
  assumes "entered [p] s t" and "entered ps t u"
  shows "entered (p # ps) s u"
proof -
  let ?n = "length (tr_heap s)"
  have "[?n..<?n + length (p # ps)] = ?n # [Suc ?n..<Suc ?n + length ps]"
    using upt_conv_Cons [of ?n "?n + length (p # ps)"] by simp
  then show ?thesis
    using assms by (fastforce simp: entered_def)
qed

lemma entered_enter:
  "distinct (map (ts_pluginId \<circ> fst) cohort) \<Longrightarrow>
   fst ` set (tr_owners s) \<inter> set (map (ts_pluginId \<circ> fst) cohort) = {} \<Longrightarrow>
   entered (map (ts_pluginId \<circ> fst) cohort) s (enter_owners cohort s)"
proof (induction cohort arbitrary: s)
  case Nil
  then show ?case by (simp add: entered_def)
next
  case (Cons c cohort)
  obtain spec i now where c: "c = (spec, i, now)" by (cases c)
  have one: "entered [ts_pluginId spec] s (enter_owner spec i now s)"
    using Cons.prems c by (intro entered_one) auto
  then have "entered (map (ts_pluginId \<circ> fst) cohort) (enter_owner spec i now s)
               (enter_owners cohort (enter_owner spec i now s))"
    by (intro Cons.IH) (use Cons.prems c in \<open>auto simp: entered_def\<close>)
  from entered_Cons [OF one this] show ?case by (simp add: c comp_def)
qed

lemma entered_owner_old:
  assumes "entered ps s t" "k < length (tr_heap s)"
  shows "tr_heap t ! k = tr_heap s ! k" and "owner_plugin k t = owner_plugin k s"
  using assms by (auto simp: entered_def nth_append owner_plugin_def)

lemma entered_owner_new:
  assumes "entered ps s t" "i < length ps"
  shows "owner_plugin (length (tr_heap s) + i) t = ps ! i"
    and "\<not> ow_blocking (tr_heap t ! (length (tr_heap s) + i))"
    and "length (tr_heap s) + i < length (tr_heap t)"
  using assms by (auto simp: entered_def nth_append owner_plugin_def list_all_length)

lemma entered_length: "entered ps s t \<Longrightarrow> length (tr_heap t) = length (tr_heap s) + length ps"
  by (auto simp: entered_def)

text \<open>The table after an admission, whoever answers for the new owners.\<close>

lemma entered_table:
  assumes ok: "table_ok s" and new: "entered ps s t"
    and "distinct ps" "fst ` set (tr_owners s) \<inter> set ps = {}"
    and "length (tr_owners s) + length ps \<le> maximum_operations"
    and u: "tr_owners u = tr_owners t" "length (tr_heap u) = length (tr_heap t)"
      "\<And>k. k < length (tr_heap t) \<Longrightarrow> owner_plugin k u = owner_plugin k t"
    and claims: "claims u = claims s @ [length (tr_heap s)..<length (tr_heap s) + length ps]"
  shows "table_ok u"
proof -
  let ?n = "length (tr_heap s)" and ?m = "length ps"
  have owners: "tr_owners u = tr_owners s @ zip ps [?n..<?n + ?m]"
    using new u by (simp add: entered_def)
  have entry: "k < length (tr_heap u) \<and> owner_plugin k u = p" if "(p, k) \<in> set (tr_owners u)" for p k
    using that unfolding owners
  proof (simp, elim disjE)
    assume "(p, k) \<in> set (tr_owners s)"
    then have "k < ?n" "owner_plugin k s = p" using ok by (auto simp: table_ok_def)
    then show ?thesis
      using entered_owner_old [OF new] entered_length [OF new] u by simp
  next
    assume "(p, k) \<in> set (zip ps [?n..<?n + ?m])"
    then obtain i where "i < ?m" "p = ps ! i" "k = ?n + i" by (auto simp: in_set_zip)
    then show ?thesis
      using entered_owner_new [OF new] u by simp
  qed
  have "distinct (map fst (tr_owners u))"
    using ok assms(3,4) unfolding owners by (auto simp: table_ok_def)
  moreover have "distinct (claims u)"
    using ok claims_in_heap [OF ok] by (auto simp: table_ok_def claims)
  moreover have "set (claims u) = snd ` set (tr_owners u)"
  proof -
    have "snd ` set (zip ps [?n..<?n + ?m]) = set [?n..<?n + ?m]"
      by (subst set_map [symmetric]) simp
    then have "snd ` set (tr_owners u) = snd ` set (tr_owners s) \<union> set [?n..<?n + ?m]"
      by (simp add: owners image_Un)
    then show ?thesis
      using ok by (auto simp: table_ok_def claims)
  qed
  ultimately show ?thesis
    using assms(5) entry by (auto simp: table_ok_def owners)
qed

lemma links_snoc: "links p (qs @ [q]) t \<longleftrightarrow> links p qs (lo_after q) \<and> lo_promise q = t"
  by (induction qs arbitrary: p) auto

lemma link_serial:
  assumes ok: "serial s" and new: "entered ps s t" and calm: "tr_shutdowns s = []"
    and "distinct ps" "fst ` set (tr_owners s) \<inter> set ps = {}"
    and "length (tr_owners s) + length ps \<le> maximum_operations"
    and body: "body_owners body = [length (tr_heap s)..<length (tr_heap s) + length ps]"
  shows "serial (link_operation body t)"
proof -
  let ?u = "link_operation body t" and ?n = "length (tr_heap s)"
  let ?q = "\<lparr>lo_promise = tr_next t, lo_after = tr_tail t, lo_body = body\<rparr>"
  have u: "chain ?u = chain s @ [?q]" "tr_owners ?u = tr_owners t" "tr_heap ?u = tr_heap t"
    "tr_active ?u = tr_active s" "tr_pending ?u = tr_pending s @ [?q]" "tr_handles ?u = tr_handles s"
    "tr_shutdowns ?u = []" "tr_settled ?u = tr_settled s" "tr_tail ?u = tr_next t"
    "tr_next ?u = tr_next t + 1" "tr_ordinary ?u = tr_ordinary s + 1" "tr_tail t = tr_tail s"
    "tr_next s \<le> tr_next t"
    using new calm by (auto simp: link_operation_def publish_transitions_def chain_def entered_def)
  have claims: "claims ?u = claims s @ [?n..<?n + length ps]"
    using calm by (simp add: claims_def u body)
  have heap: "length (tr_heap ?u) = ?n + length ps"
    using entered_length [OF new] u by simp
  have "table_ok ?u"
    by (rule entered_table [OF _ new assms(4,5,6)])
       (use ok claims in \<open>auto simp: serial_def u owner_plugin_def\<close>)
  moreover have "chain_ok ?u"
    using ok u(13) sorted_next [of "tr_settled s @ map lo_promise (chain s)" "tr_next s" "tr_next t"]
    by (auto simp: serial_def chain_ok_def u links_snoc sorted_wrt_append)
  moreover have "blocking_ok ?u"
    unfolding blocking_ok_def claims
  proof
    fix k assume "k \<in> set (claims s @ [?n..<?n + length ps])"
    moreover have "blocked ?u = blocked s" by (simp add: blocked_def u calm)
    moreover have "blocked s \<subseteq> set (claims s)"
      using body_blocks_owners by (fastforce simp: blocked_def claims_def chain_def chain_owners_def)
    moreover have "k < ?n" if "k \<in> set (claims s)"
      using that ok claims_in_heap by (auto simp: serial_def)
    moreover have "\<not> ow_blocking (tr_heap t ! k)" if "?n \<le> k" "k < ?n + length ps"
      using that entered_owner_new(2) [OF new, of "k - ?n"] by simp
    ultimately show "ow_blocking (tr_heap ?u ! k) \<longleftrightarrow> k \<in> blocked ?u"
      using ok entered_owner_old [OF new, of k]
      by (auto simp: serial_def blocking_ok_def u)
  qed
  moreover have "handles_ok ?u"
    using ok heap by (fastforce simp: serial_def handles_ok_def u body)
  ultimately show ?thesis by (simp add: serial_def)
qed

section \<open>Conclusion\<close>

text \<open>Entries of the table name their plugin and an owner of the heap.\<close>

definition entries_ok :: "transitions \<Rightarrow> bool" where
  "entries_ok s \<longleftrightarrow>
     distinct (map fst (tr_owners s))
     \<and> (\<forall>(p, k) \<in> set (tr_owners s). k < length (tr_heap s) \<and> owner_plugin k s = p)"

text \<open>From s to t the given owners leave the table.\<close>

definition released :: "nat list \<Rightarrow> transitions \<Rightarrow> transitions \<Rightarrow> bool" where
  "released ks s t \<longleftrightarrow>
     frame s t \<and> tr_closing t = tr_closing s
     \<and> tr_owners t = filter (\<lambda>(_, j). j \<notin> set ks) (tr_owners s)"

lemma released_entries: "released ks s t \<Longrightarrow> entries_ok s \<Longrightarrow> entries_ok t"
  by (auto simp: released_def entries_ok_def frame_def distinct_map_filter)

lemma released_append: "released ks s t \<Longrightarrow> released js t u \<Longrightarrow> released (ks @ js) s u"
  by (fastforce simp: released_def frame_def intro: filter_cong)

lemma owned_entry: "entries_ok s \<Longrightarrow> owned k s \<longleftrightarrow> (owner_plugin k s, k) \<in> set (tr_owners s)"
  by (simp add: owned_def entries_ok_def)

lemma delete_filter: "AList.delete p xs = filter (\<lambda>(q, _). q \<noteq> p) xs"
  by (auto simp: AList.delete_eq intro!: filter_cong)

lemma finish_released:
  assumes "entries_ok s"
  shows "released [k] s (finish_owner publish k s)"
proof -
  let ?t = "clear_timer k s"
  have t: "steady s ?t" "tr_closing ?t = tr_closing s"
    using steady_clear [OF steady_refl] by (auto simp: clear_timer_def update_owner_def)
  then have ok: "entries_ok ?t"
    using assms by (auto simp: entries_ok_def steady_def frame_def)
  show ?thesis
  proof (cases "owned k ?t")
    case True
    then have entry: "(owner_plugin k ?t, k) \<in> set (tr_owners ?t)"
      using ok by (simp add: owned_entry)
    have "filter (\<lambda>(q, _). q \<noteq> owner_plugin k ?t) (tr_owners ?t) = filter (\<lambda>(_, j). j \<notin> set [k]) (tr_owners ?t)"
      using ok entry by (intro filter_cong) (auto simp: entries_ok_def dest: eq_key_imp_eq_value)
    with t True show ?thesis
      by (auto simp: finish_owner_def Let_def released_def steady_def frame_def publish_transitions_def
          delete_filter owner_plugin_def)
  next
    case False
    then have "\<forall>(p, j) \<in> set (tr_owners ?t). j \<noteq> k"
      using ok by (auto simp: owned_entry entries_ok_def)
    with t False show ?thesis
      by (auto simp: finish_owner_def Let_def released_def steady_def filter_id_conv)
  qed
qed

lemma fold_finish_released:
  "entries_ok s \<Longrightarrow> released ks s (fold (finish_owner publish) ks s)"
proof (induction ks arbitrary: s)
  case Nil
  then show ?case by (simp add: released_def frame_def)
next
  case (Cons k ks)
  have "released [k] s (finish_owner publish k s)"
    by (rule finish_released [OF Cons.prems])
  with Cons.IH [OF released_entries [OF this Cons.prems]] show ?case
    by (auto dest: released_append)
qed

lemma table_entries: "table_ok s \<Longrightarrow> entries_ok s"
  by (simp add: table_ok_def entries_ok_def)

lemma conclude_released:
  fixes q :: linked_operation
  assumes "entries_ok t"
  defines "u \<equiv> conclude q t"
  shows "\<exists>v. released (body_owners (lo_body q)) t v
    \<and> tr_owners u = tr_owners v \<and> tr_heap u = tr_heap v \<and> tr_next u = tr_next v \<and> tr_tail u = tr_tail v
    \<and> chain u = chain v \<and> tr_active u = tr_active v \<and> tr_pending u = tr_pending v
    \<and> tr_shutdowns u = tr_shutdowns v \<and> tr_closing u = tr_closing v \<and> tr_handles u = tr_handles v
    \<and> tr_ordinary u = tr_ordinary v - 1 \<and> tr_settled u = tr_settled v @ [lo_promise q]"
proof (cases "lo_body q")
  case (Change k operation intent)
  then show ?thesis
    using finish_released [OF assms(1), of k True]
    by (auto simp: u_def conclude_def Let_def chain_def intro!: exI [of _ "finish_owner True k t"])
next
  case (Exit_Review ks)
  then show ?thesis
    using fold_finish_released [OF assms(1), of ks False]
    by (auto simp: u_def conclude_def Let_def chain_def publish_transitions_def
        intro!: exI [of _ "fold (finish_owner False) ks t"])
qed

text \<open>The table without the given owners, which nobody answers for any more.\<close>

lemma snd_filter: "snd ` set (filter (\<lambda>(_, j). j \<notin> A) xs) = snd ` set xs - A"
  by (induction xs) auto

lemma released_table:
  assumes ok: "table_ok s"
    and u: "tr_owners u = filter (\<lambda>(_, j). j \<notin> set ks) (tr_owners s)"
      "length (tr_heap u) = length (tr_heap s)"
      "\<And>k. k < length (tr_heap s) \<Longrightarrow> owner_plugin k u = owner_plugin k s"
    and claims: "set (claims s) = set ks \<union> set (claims u)" "set ks \<inter> set (claims u) = {}"
      "distinct (claims u)"
  shows "table_ok u"
proof (rule table_okI)
  show "distinct (map fst (tr_owners u))"
    using ok by (simp add: table_ok_def u distinct_map_filter)
  show "length (tr_owners u) \<le> maximum_operations"
    unfolding u using ok by (intro le_trans [OF length_filter_le]) (simp add: table_ok_def)
  show "k < length (tr_heap u) \<and> owner_plugin k u = p" if "(p, k) \<in> set (tr_owners u)" for p k
    using that ok by (auto simp: table_ok_def u)
  have "snd ` set (tr_owners u) = set (claims s) - set ks"
    unfolding u snd_filter using ok by (simp add: table_ok_def)
  also have "\<dots> = set (claims u)"
    unfolding claims(1) using claims(2) by auto
  finally show "set (claims u) = snd ` set (tr_owners u)"
    by (rule sym)
qed (rule claims(3))

text \<open>The head of the chain concludes: its owners leave the table and its promise settles.\<close>

lemma conclude_serial:
  assumes ok: "serial s" and head: "chain s = q # rest"
    and t: "t = s\<lparr>tr_active := [], tr_pending := rest\<rparr>"
  shows "serial (conclude q t)"
proof -
  let ?u = "conclude q t" and ?ks = "body_owners (lo_body q)"
  have parts: "table_ok s" "chain_ok s" "blocking_ok s" "handles_ok s"
    using ok by (simp_all add: serial_def)
  have calm: "tr_shutdowns s = []"
    using parts(2) head by (auto simp: chain_ok_def)
  have plugin: "owner_plugin k t = owner_plugin k s" for k
    by (simp add: t owner_plugin_def)
  then have "entries_ok t"
    using table_entries [OF parts(1)] by (simp add: entries_ok_def t)
  from conclude_released [OF this, of q] obtain v where v: "released ?ks t v"
    and u: "tr_owners ?u = tr_owners v" "tr_heap ?u = tr_heap v" "tr_next ?u = tr_next v"
      "tr_tail ?u = tr_tail v" "chain ?u = chain v" "tr_active ?u = tr_active v"
      "tr_pending ?u = tr_pending v" "tr_shutdowns ?u = tr_shutdowns v"
      "tr_handles ?u = tr_handles v" "tr_ordinary ?u = tr_ordinary v - 1"
      "tr_settled ?u = tr_settled v @ [lo_promise q]"
    by blast
  have w: "tr_active v = []" "tr_pending v = rest" "tr_shutdowns v = []" "tr_handles v = tr_handles s"
    "tr_ordinary v = tr_ordinary s" "tr_settled v = tr_settled s" "tr_tail v = tr_tail s"
    "tr_next s \<le> tr_next v" "length (tr_heap v) = length (tr_heap s)"
    "tr_owners v = filter (\<lambda>(_, j). j \<notin> set ?ks) (tr_owners s)"
    using v calm by (auto simp: released_def frame_def t)
  have heap: "owner_plugin k ?u = owner_plugin k s"
    "ow_blocking (tr_heap ?u ! k) = ow_blocking (tr_heap s ! k)" if "k < length (tr_heap s)" for k
  proof -
    have "owner_plugin k v = owner_plugin k t" "ow_blocking (tr_heap v ! k) = ow_blocking (tr_heap t ! k)"
      using v that by (auto simp: released_def frame_def t)
    then show "owner_plugin k ?u = owner_plugin k s"
      "ow_blocking (tr_heap ?u ! k) = ow_blocking (tr_heap s ! k)"
      using plugin [of k] by (simp_all add: owner_plugin_def u) (simp add: t)
  qed
  have claims: "claims s = ?ks @ claims ?u" "claims ?u = chain_owners rest"
    using head calm by (simp_all add: claims_def chain_def u w)
  have table: "table_ok ?u"
  proof (rule released_table [OF parts(1), of _ ?ks])
    show "set (claims s) = set ?ks \<union> set (claims ?u)"
      by (simp only: claims(1) set_append)
    show "set ?ks \<inter> set (claims ?u) = {}" "distinct (claims ?u)"
      using parts(1) claims(1) by (simp_all add: table_ok_def)
  qed (simp_all only: u w heap)
  have "links (lo_promise q) rest (tr_tail s)"
    using parts(2) head by (auto simp: chain_ok_def)
  moreover have "sorted_wrt (<) ((tr_settled s @ map lo_promise (chain s)) @ [tr_next v])"
    using parts(2) w(8) sorted_next [of "tr_settled s @ map lo_promise (chain s)" "tr_next s"]
    by (simp add: chain_ok_def)
  moreover have "tr_ordinary s = int (Suc (length rest))"
    using parts(2) head by (simp add: chain_ok_def)
  moreover have "chain ?u = rest"
    by (simp add: chain_def u w)
  ultimately have "chain_ok ?u"
    unfolding head by (simp add: chain_ok_def u w)
  moreover have "blocking_ok ?u"
    unfolding blocking_ok_def
  proof
    fix k assume k: "k \<in> set (claims ?u)"
    then have "k \<notin> set ?ks" "k \<in> set (claims s)"
      using parts(1) claims by (auto simp: table_ok_def)
    moreover have "set (tr_active s) \<subseteq> {q}"
      using parts(2) head by (cases "tr_active s") (auto simp: chain_ok_def chain_def)
    then have "blocked s \<subseteq> set ?ks"
      using body_blocks_owners by (auto simp: blocked_def calm)
    ultimately show "ow_blocking (tr_heap ?u ! k) \<longleftrightarrow> k \<in> blocked ?u"
      using parts(1,3) claims_in_heap heap by (auto simp: blocking_ok_def blocked_def u w)
  qed
  moreover have "handles_ok ?u"
  proof -
    have "set rest \<subseteq> set (tr_pending s)"
      using parts(2) head by (cases "tr_active s") (auto simp: chain_ok_def chain_def)
    then show ?thesis
      using parts(4) by (auto simp: handles_ok_def u w chain_owners_def)
  qed
  ultimately show ?thesis
    using table by (simp add: serial_def)
qed

section \<open>Beginning and shutting down\<close>

lemma links_after:
  "links p (xs @ q # ys) t \<Longrightarrow> lo_after q = (if xs = [] then p else lo_promise (last xs))"
  by (induction xs arbitrary: p) auto

text \<open>Only the head of the chain finds its predecessor settled.\<close>

lemma settled_head:
  assumes ok: "chain_ok s" and q: "q \<in> set (tr_pending s)" "lo_after q \<in> set (tr_settled s)"
  shows "\<exists>rest. tr_active s = [] \<and> tr_pending s = q # rest"
proof -
  obtain us ys where split: "tr_pending s = us @ q # ys"
    using q(1) by (meson split_list)
  obtain p where links: "links p ((tr_active s @ us) @ q # ys) (tr_tail s)"
    using ok by (auto simp: chain_ok_def chain_def split)
  have "tr_active s @ us = []"
  proof (rule ccontr)
    assume nonempty: "tr_active s @ us \<noteq> []"
    then have "lo_promise (last (tr_active s @ us)) \<in> set (tr_settled s)"
      using links_after [OF links] q(2) by (simp split: if_splits)
    moreover have "last (tr_active s @ us) \<in> set (chain s)"
      using nonempty last_in_set [OF nonempty] by (auto simp: chain_def split)
    ultimately show False
      using ok by (auto simp: chain_ok_def sorted_wrt_append)
  qed
  then show ?thesis using split by simp
qed

lemma claimed_owned:
  assumes "table_ok s" "k \<in> set (claims s)"
  shows "owned k s"
proof -
  obtain p where "(p, k) \<in> set (tr_owners s)"
    using assms by (auto simp: table_ok_def)
  then show ?thesis
    using assms(1) table_entries [OF assms(1)] by (auto simp: owned_entry table_ok_def)
qed

lemma phase_begins:
  assumes "owned k s" "stage \<noteq> Queued"
  obtains t where "phase k stage no_metadata now sample s = Inr t"
  using assms by (simp add: phase_def no_metadata_def validActivation_def Let_def)

lemma steady_active: "steady s t \<Longrightarrow> steady (s\<lparr>tr_active := qs\<rparr>) (t\<lparr>tr_active := qs\<rparr>)"
  by (simp add: steady_def frame_def owner_plugin_def)

lemma steady_shutdowns: "steady s t \<Longrightarrow> steady (s\<lparr>tr_shutdowns := ks\<rparr>) (t\<lparr>tr_shutdowns := ks\<rparr>)"
  by (simp add: steady_def frame_def owner_plugin_def)

lemma initialStage_not_queued [simp]: "initialStage operation \<noteq> Queued"
  by (cases operation) simp_all

text \<open>The head of the chain becomes active: handles of its owners are given out, and the owner of a
  change takes its blocking state.\<close>

lemma activate_serial:
  assumes ok: "serial s" and head: "tr_active s = []" "tr_pending s = q # rest"
    and u: "chain u = chain s" "tr_active u = [q]" "tr_pending u = rest" "tr_owners u = tr_owners s"
      "tr_shutdowns u = tr_shutdowns s" "tr_settled u = tr_settled s" "tr_tail u = tr_tail s"
      "tr_next u = tr_next s" "tr_ordinary u = tr_ordinary s" "tr_closing u = tr_closing s"
      "length (tr_heap u) = length (tr_heap s)"
    and plugin: "\<And>k. k < length (tr_heap s) \<Longrightarrow> owner_plugin k u = owner_plugin k s"
    and blocking: "\<And>k. k \<in> set (claims s) \<Longrightarrow> ow_blocking (tr_heap u ! k) \<longleftrightarrow> k \<in> set (body_blocks (lo_body q))"
    and handles: "tr_handles u = tr_handles s @ hs"
      "\<And>h. h \<in> set hs \<Longrightarrow> hd_owner h \<in> set (body_owners (lo_body q)) \<and> body_handle (lo_body q) h"
  shows "serial u"
proof -
  have parts: "table_ok s" "chain_ok s" "handles_ok s"
    using ok by (simp_all add: serial_def)
  have calm: "tr_shutdowns s = []"
    using parts(2) head by (auto simp: chain_ok_def chain_def)
  have claims: "claims u = claims s" "claims s = body_owners (lo_body q) @ chain_owners rest"
    by (simp_all add: claims_def u calm) (simp add: chain_def head)
  have "table_ok u"
    using parts(1) plugin by (fastforce simp: table_ok_def claims(1) u)
  moreover have "chain_ok u"
    using parts(2) by (simp add: chain_ok_def u)
  moreover have "blocking_ok u"
    using blocking by (simp add: blocking_ok_def claims(1) blocked_def u calm)
  moreover have "handles_ok u"
    unfolding handles_ok_def
  proof
    fix h assume "h \<in> set (tr_handles u)"
    then consider "h \<in> set (tr_handles s)" | "h \<in> set hs" by (auto simp: handles)
    then show "hd_owner h < length (tr_heap u) \<and> hd_owner h \<notin> set (chain_owners (tr_pending u))
        \<and> (\<forall>q \<in> set (tr_active u). body_handle (lo_body q) h)"
    proof cases
      case 1
      then have "hd_owner h < length (tr_heap s)" "hd_owner h \<notin> set (chain_owners (q # rest))"
        using parts(3) head by (auto simp: handles_ok_def)
      then show ?thesis
        by (cases "lo_body q") (simp_all add: u)
    next
      case 2
      then have "hd_owner h \<in> set (body_owners (lo_body q))" "body_handle (lo_body q) h"
        using handles(2) by auto
      then show ?thesis
        using parts(1) claims_in_heap [OF parts(1), of "hd_owner h"] claims(2)
        by (auto simp: u table_ok_def)
    qed
  qed
  ultimately show ?thesis by (simp add: serial_def)
qed

lemma begin_serial:
  assumes ok: "serial s" and q: "q \<in> set (tr_pending s)" "lo_after q \<in> set (tr_settled s)"
  shows "serial (begin_operation q now s)"
proof -
  have parts: "table_ok s" "chain_ok s" "blocking_ok s"
    using ok by (simp_all add: serial_def)
  obtain rest where head: "tr_active s = []" "tr_pending s = q # rest"
    using settled_head [OF parts(2) q] by blast
  then have chain: "chain s = q # rest" by (simp add: chain_def)
  let ?t = "s\<lparr>tr_pending := rest\<rparr>"
  have same: "s\<lparr>tr_active := [], tr_pending := rest\<rparr> = ?t"
    using head by (cases s) simp
  have concluded: "serial (conclude q ?t)"
    using conclude_serial [OF ok chain refl] same by simp
  have idle: "\<not> ow_blocking (tr_heap s ! k)" if "k \<in> set (claims s)" for k
    using that parts(2,3) chain by (auto simp: blocking_ok_def blocked_def head chain_ok_def)
  show ?thesis
  proof (cases "lo_body q")
    case (Change k operation intent)
    have k: "k \<in> set (claims s)"
      by (simp add: claims_def chain Change)
    let ?s1 = "hand_out [\<lparr>hd_owner = k, hd_intent = intent\<rparr>]
                 (update_owner k (\<lambda>ow. ow\<lparr>ow_blocking := blocksDispatch operation\<rparr>) ?t)"
    have "owned k s" by (rule claimed_owned [OF parts(1) k])
    moreover have plugin: "owner_plugin j ?s1 = owner_plugin j s" if "j < length (tr_heap s)" for j
      using that by (simp add: owner_plugin_def hand_out_def update_owner_def nth_updated)
    ultimately have "owned k ?s1"
      using claims_in_heap [OF parts(1) k] by (simp add: owned_def) (simp add: hand_out_def update_owner_def)
    then obtain s2 where s2: "phase k (initialStage operation) no_metadata now None ?s1 = Inr s2"
      using phase_begins [OF _ initialStage_not_queued] by blast
    have "serial (?s1\<lparr>tr_active := [q]\<rparr>)"
    proof (rule activate_serial [OF ok head])
      show "owner_plugin j (?s1\<lparr>tr_active := [q]\<rparr>) = owner_plugin j s" if "j < length (tr_heap s)" for j
        using plugin [OF that] by (simp add: owner_plugin_def)
      show "ow_blocking (tr_heap (?s1\<lparr>tr_active := [q]\<rparr>) ! j) \<longleftrightarrow> j \<in> set (body_blocks (lo_body q))"
        if "j \<in> set (claims s)" for j
        using idle [OF that] claims_in_heap [OF parts(1) that]
        by (simp add: hand_out_def update_owner_def nth_updated Change)
    next
      show "tr_handles (?s1\<lparr>tr_active := [q]\<rparr>) = tr_handles s @ [\<lparr>hd_owner = k, hd_intent = intent\<rparr>]"
        by (simp add: hand_out_def update_owner_def)
    qed (simp_all add: hand_out_def update_owner_def chain_def head Change)
    moreover have "steady (?s1\<lparr>tr_active := [q]\<rparr>) (s2\<lparr>tr_active := [q]\<rparr>)"
      by (rule steady_active [OF steady_phase [OF s2]])
    ultimately have "serial (s2\<lparr>tr_active := [q]\<rparr>)"
      by (rule steady_serial)
    moreover have "tr_active s2 = []"
      using steady_phase [OF s2] head by (simp add: steady_def frame_def hand_out_def update_owner_def)
    ultimately show ?thesis
      using concluded s2 by (simp add: begin_operation_def Let_def head Change)
  next
    case (Exit_Review ks)
    let ?s1 = "hand_out (map (\<lambda>k. \<lparr>hd_owner = k, hd_intent = None\<rparr>) ks) ?t"
    have "serial (?s1\<lparr>tr_active := [q]\<rparr>)"
      by (rule activate_serial [OF ok head])
         (use idle in \<open>auto simp: hand_out_def chain_def head Exit_Review owner_plugin_def\<close>)
    then show ?thesis
      using concluded by (simp add: begin_operation_def Let_def head Exit_Review hand_out_def)
  qed
qed

lemma done_serial:
  assumes ok: "serial s" and q: "q \<in> set (tr_active s)"
  shows "serial (operation_done q s)"
proof -
  have "tr_active s = [q]"
    using assms by (cases "tr_active s") (auto simp: serial_def chain_ok_def)
  moreover from this have "s\<lparr>tr_active := [], tr_pending := tr_pending s\<rparr> = s\<lparr>tr_active := []\<rparr>"
    by (cases s) simp
  ultimately show ?thesis
    using conclude_serial [OF ok, of q "tr_pending s"] by (simp add: operation_done_def chain_def)
qed

lemma available_new: "assertAvailable p s = None \<Longrightarrow> p \<notin> fst ` set (tr_owners s)"
  by (auto simp: assertAvailable_def map_of_eq_None_iff split: if_splits)

lemma validSpec_available: "validateSpec spec s = None \<Longrightarrow> ts_pluginId spec \<notin> fst ` set (tr_owners s)"
  by (rule available_new) (simp add: validateSpec_def split: if_splits)

lemma admit_entered:
  assumes "admit spec i now s = Inr t"
  shows "entered [ts_pluginId spec] s t" and "ts_pluginId spec \<notin> fst ` set (tr_owners s)"
    and "length (tr_owners s) < maximum_operations"
  using assms validSpec_available [of spec s]
  by (auto simp: admit_def intro: entered_one split: option.splits if_splits)

lemma cohort_available:
  "validate_cohort specs s = None \<Longrightarrow> fst ` set (tr_owners s) \<inter> set (map ts_pluginId specs) = {}"
  by (induction specs) (auto dest: validSpec_available split: option.splits if_splits)

lemma open_no_shutdowns: "serial s \<Longrightarrow> \<not> tr_closing s \<Longrightarrow> tr_shutdowns s = []"
  by (auto simp: serial_def chain_ok_def)

lemma run_serial:
  assumes ok: "serial s" and run: "run_change spec intent i now s = Inr t"
  shows "serial t"
proof -
  obtain s1 where s1: "admit spec i now s = Inr s1" "\<not> tr_closing s"
    and t: "t = link_operation (Change (length (tr_heap s)) (ts_operation spec) intent) s1"
    using run by (auto simp: run_change_def split: if_splits option.splits sum.splits)
  show ?thesis
    unfolding t
    by (rule link_serial [OF ok admit_entered(1) [OF s1(1)] open_no_shutdowns [OF ok s1(2)]])
       (use admit_entered(2,3) [OF s1(1)] in simp_all)
qed

lemma review_serial:
  assumes ok: "serial s" and review: "reviewExit cohort s = Inr t"
  shows "serial t"
proof -
  let ?n = "length (tr_heap s)" and ?ps = "map (ts_pluginId \<circ> fst) cohort"
  have t: "t = link_operation (Exit_Review [?n..<?n + length cohort]) (enter_owners cohort s)"
    and guards: "\<not> tr_closing s" "tr_ordinary s = 0" "length cohort \<le> maximum_operations" "distinct ?ps"
      "validate_cohort (map fst cohort) s = None"
    using review by (auto simp: reviewExit_def Let_def split: if_splits option.splits)
  have calm: "tr_shutdowns s = []"
    by (rule open_no_shutdowns [OF ok guards(1)])
  have "claims s = []"
    using ok guards(2) calm by (simp add: serial_def chain_ok_def claims_def)
  then have empty: "tr_owners s = []"
    using ok by (simp add: serial_def table_ok_def)
  have new: "entered ?ps s (enter_owners cohort s)"
    by (rule entered_enter [OF guards(4)]) (simp add: empty)
  show ?thesis
    unfolding t by (rule link_serial [OF ok new calm guards(4)]) (use guards in \<open>simp_all add: empty\<close>)
qed

lemma observe_serial:
  assumes ok: "serial s" and observe: "observeShutdown spec i now s = Inr t"
  shows "serial t" and "chain t = []"
proof -
  let ?n = "length (tr_heap s)"
  obtain s1 where s1: "admit spec i now s = Inr s1" and guards: "tr_closing s" "tr_ordinary s = 0"
    using observe by (auto simp: observeShutdown_def split: if_splits sum.splits)
  note new = admit_entered [OF s1]
  let ?s2 = "hand_out [\<lparr>hd_owner = ?n, hd_intent = None\<rparr>]
               (update_owner ?n (\<lambda>ow. ow\<lparr>ow_blocking := True\<rparr>) s1)"
  have heap: "length (tr_heap ?s2) = ?n + 1" "tr_heap ?s2 ! ?n = (tr_heap s1 ! ?n)\<lparr>ow_blocking := True\<rparr>"
    using entered_length [OF new(1)] by (simp_all add: hand_out_def update_owner_def)
  have same: "tr_owners ?s2 = tr_owners s1" "tr_active ?s2 = tr_active s" "tr_pending ?s2 = tr_pending s"
    "tr_shutdowns ?s2 = tr_shutdowns s" "tr_settled ?s2 = tr_settled s" "tr_tail ?s2 = tr_tail s"
    "tr_ordinary ?s2 = tr_ordinary s" "tr_closing ?s2 = tr_closing s" "tr_next s \<le> tr_next ?s2"
    "tr_handles ?s2 = tr_handles s @ [\<lparr>hd_owner = ?n, hd_intent = None\<rparr>]"
    "tr_owners s1 = tr_owners s @ [(ts_pluginId spec, ?n)]"
    using new(1) by (auto simp: entered_def hand_out_def update_owner_def)
  have plugin: "owner_plugin k ?s2 = owner_plugin k s1" if "k < ?n + 1" for k
    using that entered_length [OF new(1)] by (simp add: owner_plugin_def hand_out_def update_owner_def nth_updated)
  have old: "tr_heap ?s2 ! k = tr_heap s ! k" if "k < ?n" for k
    using that entered_owner_old(1) [OF new(1) that] by (simp add: hand_out_def update_owner_def)
  have "chain s = []"
    using ok guards by (simp add: serial_def chain_ok_def)
  then have empty: "chain s = []" "tr_active s = []" "tr_pending s = []"
    by (simp_all add: chain_def)
  have "owner_plugin ?n ?s2 = ts_pluginId spec"
    using plugin [of ?n] entered_owner_new(1) [OF new(1), of 0] by simp
  moreover have "map_of (tr_owners ?s2) (ts_pluginId spec) = Some ?n"
    unfolding same by (rule map_of_snoc [OF new(2)])
  ultimately have "owned ?n ?s2" by (simp add: owned_def)
  then obtain s3 where s3: "phase ?n Close_Backend no_metadata now None ?s2 = Inr s3"
    using phase_begins [of ?n ?s2 Close_Backend] by blast
  let ?u = "?s2\<lparr>tr_shutdowns := tr_shutdowns s @ [?n]\<rparr>"
  have u: "chain ?u = []" "claims ?u = claims s @ [?n..<?n + 1]" "blocked ?u = insert ?n (blocked s)"
    by (simp_all add: chain_def claims_def blocked_def same empty)
  have "table_ok ?u"
    by (rule entered_table [OF _ new(1)])
       (use ok new u heap plugin entered_length [OF new(1)] in
         \<open>simp_all add: serial_def same owner_plugin_def\<close>)
  moreover have "chain_ok ?u"
    using ok guards sorted_next [OF _ same(9), of "tr_settled s"]
    by (simp add: serial_def chain_ok_def u same empty)
  moreover have "blocking_ok ?u"
    using ok claims_in_heap [of s] heap old by (auto simp: serial_def blocking_ok_def u)
  moreover have "handles_ok ?u"
    using ok heap by (auto simp: serial_def handles_ok_def same empty)
  ultimately have serial: "serial ?u" by (simp add: serial_def)
  have "t = s3\<lparr>tr_shutdowns := tr_shutdowns s @ [?n]\<rparr>"
    using observe s1 s3 guards steady_phase [OF s3]
    by (auto simp: observeShutdown_def Let_def steady_def frame_def same split: if_splits)
  then have steady: "steady ?u t"
    using steady_shutdowns [OF steady_phase [OF s3]] by simp
  show "serial t"
    by (rule steady_serial [OF serial steady])
  show "chain t = []"
    using steady u(1) by (simp add: steady_def frame_def chain_def)
qed

lemma shutdown_serial:
  assumes ok: "serial s" and k: "k \<in> set (tr_shutdowns s)"
  shows "serial (shutdown_done k s)"
proof -
  let ?t = "s\<lparr>tr_shutdowns := remove1 k (tr_shutdowns s)\<rparr>" and ?u = "shutdown_done k s"
  have parts: "table_ok s" "chain_ok s" "blocking_ok s" "handles_ok s"
    using ok by (simp_all add: serial_def)
  have empty: "chain s = []" "tr_active s = []" "tr_pending s = []"
    using parts(2) k by (auto simp: chain_ok_def chain_def)
  have "entries_ok ?t"
    using table_entries [OF parts(1)] by (simp add: entries_ok_def owner_plugin_def)
  then have "released [k] ?t ?u"
    unfolding shutdown_done_def by (rule finish_released)
  then have u: "tr_owners ?u = filter (\<lambda>(_, j). j \<notin> set [k]) (tr_owners s)" "tr_active ?u = []"
    "tr_pending ?u = []" "tr_shutdowns ?u = remove1 k (tr_shutdowns s)" "tr_settled ?u = tr_settled s"
    "tr_tail ?u = tr_tail s" "tr_ordinary ?u = tr_ordinary s" "tr_closing ?u = tr_closing s"
    "tr_handles ?u = tr_handles s" "tr_next s \<le> tr_next ?u" "length (tr_heap ?u) = length (tr_heap s)"
    and heap: "\<And>j. j < length (tr_heap s) \<Longrightarrow> owner_plugin j ?u = owner_plugin j s
      \<and> ow_blocking (tr_heap ?u ! j) = ow_blocking (tr_heap s ! j)"
    by (auto simp: released_def frame_def empty owner_plugin_def)
  have claims: "claims s = tr_shutdowns s" "claims ?u = remove1 k (tr_shutdowns s)" "chain ?u = []"
    by (simp_all add: claims_def empty chain_def u)
  have distinct: "distinct (tr_shutdowns s)"
    using parts(1) by (simp add: table_ok_def claims)
  have "table_ok ?u"
  proof (rule released_table [OF parts(1) u(1) u(11)])
    show "set (claims s) = set [k] \<union> set (claims ?u)" "set [k] \<inter> set (claims ?u) = {}"
      using k distinct by (auto simp: claims)
    show "distinct (claims ?u)"
      using distinct by (simp add: claims distinct_remove1)
  qed (use heap in blast)
  moreover have "chain_ok ?u"
    using parts(2) sorted_next [OF _ u(10), of "tr_settled s"] k
    by (auto simp: chain_ok_def u claims empty)
  moreover have "blocking_ok ?u"
    using parts(1,3) claims_in_heap [of s] heap set_remove1_subset [of k "tr_shutdowns s"]
    by (auto simp: blocking_ok_def blocked_def u claims empty)
  moreover have "handles_ok ?u"
    using parts(4) by (simp add: handles_ok_def u)
  ultimately show ?thesis by (simp add: serial_def)
qed

section \<open>Runs\<close>

lemma step_serial:
  assumes ok: "serial s"
  shows "serial (transition_step c s)"
proof (cases c)
  case (Run_Change spec intent i now)
  then show ?thesis
    using ok run_serial by (auto simp: or_else_def split: sum.split)
next
  case (Review_Exit_Of cohort)
  then show ?thesis
    using ok review_serial by (auto simp: or_else_def split: sum.split)
next
  case (Observe_Shutdown spec i now)
  then show ?thesis
    using ok observe_serial by (auto simp: or_else_def split: sum.split)
next
  case (Begin_Operation q now)
  then show ?thesis
    using ok begin_serial by simp
next
  case (Operation_Done q)
  then show ?thesis
    using ok done_serial by simp
next
  case (Shutdown_Done k)
  then show ?thesis
    using ok shutdown_serial by simp
next
  case (Enter_Phase h stage md now sample)
  then show ?thesis
    using ok steady_serial [OF ok steady_phase] by (auto simp: or_else_def split: sum.split)
qed (auto intro: steady_serial [OF ok] steady_intents steady_wait steady_timer steady_refresh)

lemma fold_serial: "serial s \<Longrightarrow> serial (fold transition_step calls s)"
  by (induction calls arbitrary: s) (simp_all add: step_serial)

lemma run_always_serial: "serial (transition_run calls)"
  unfolding transition_run_def by (rule fold_serial [OF serial_initial])

end
