(* ===== verification/Plugin_Exclusion.thy ===== *)
theory Plugin_Exclusion
  imports Plugin_Serial "HOL-Library.Sublist"
begin

text \<open>
  What the invariant of plugin changes gives those who run them: a check that passes is exclusive, a
  change starts in its turn and never when it was superseded or after the close, a plugin refuses
  dispatch exactly while it changes, and an admitted change settles in its turn once the works before it
  have, whatever else is called meanwhile.
\<close>

section \<open>Exclusion\<close>

lemma blocked_claims: "blocked s \<subseteq> set (claims s)"
  using body_blocks_owners by (fastforce simp: blocked_def claims_def chain_def chain_owners_def)

lemma owned_claimed:
  assumes "serial s" "owned k s"
  shows "k \<in> set (claims s)"
proof -
  have "(owner_plugin k s, k) \<in> set (tr_owners s)"
    using assms(2) by (auto simp: owned_def dest: map_of_SomeD)
  then have "k \<in> snd ` set (tr_owners s)"
    by (rule rev_image_eqI) simp
  then show ?thesis
    using assms(1) by (simp add: serial_def table_ok_def)
qed

text \<open>The work a handle belongs to: of the one active operation, with the intent it was admitted with.\<close>

lemma current_handle_active:
  assumes ok: "serial s" and h: "h \<in> set (tr_handles s)" and current: "assert_current h s = None"
  shows "\<exists>q. tr_active s = [q] \<and> hd_owner h \<in> set (body_owners (lo_body q)) \<and> body_handle (lo_body q) h"
proof -
  have checks: "owned (hd_owner h) s" "\<not> tr_closing s"
    using current by (auto simp: assert_current_def split: if_splits)
  have "hd_owner h \<in> set (claims s)" "hd_owner h \<notin> set (chain_owners (tr_pending s))"
    using owned_claimed [OF ok checks(1)] ok h by (auto simp: serial_def handles_ok_def)
  then have active: "hd_owner h \<in> set (chain_owners (tr_active s))"
    using open_no_shutdowns [OF ok checks(2)] by (auto simp: claims_def chain_def)
  moreover obtain q where "tr_active s = [q]"
    using ok active by (cases "tr_active s") (auto simp: serial_def chain_ok_def)
  moreover have "body_handle (lo_body q) h" if "tr_active s = [q]" for q
    using ok h that by (auto simp: serial_def handles_ok_def)
  ultimately show ?thesis by auto
qed

text \<open>
  C15: Between a check of its handle that passes and its next pause, a work is alone: its operation is
  the only one running, no shutdown work is, the host is not closing, and when the change was asked for
  by an intent, that intent is still the latest one of its plugin.
\<close>

theorem passing_check_is_exclusive:
  fixes calls :: "transition_call list"
  defines "s \<equiv> transition_run calls"
  assumes "h \<in> set (tr_handles s)" and "assert_current h s = None"
  shows "\<exists>q. tr_active s = [q] \<and> hd_owner h \<in> set (body_owners (lo_body q))
           \<and> tr_shutdowns s = [] \<and> \<not> tr_closing s
           \<and> (\<forall>k operation pluginId symbol. lo_body q = Change k operation (Some (pluginId, symbol)) \<longrightarrow>
                map_of (tr_intents s) pluginId = Some symbol)"
proof -
  have ok: "serial s" unfolding s_def by (rule run_always_serial)
  have checks: "\<not> tr_closing s" "assertIntent (hd_intent h) s = None"
    using assms(3) by (auto simp: assert_current_def split: if_splits)
  obtain q where q: "tr_active s = [q]" "hd_owner h \<in> set (body_owners (lo_body q))"
    "body_handle (lo_body q) h"
    using current_handle_active [OF ok assms(2,3)] by blast
  moreover have "map_of (tr_intents s) pluginId = Some symbol"
    if "lo_body q = Change k operation (Some (pluginId, symbol))" for k operation pluginId symbol
    using that q(2,3) checks by (simp add: assertIntent_def split: if_splits)
  ultimately show ?thesis
    using checks open_no_shutdowns [OF ok checks(1)] by blast
qed

section \<open>Order\<close>

lemma conclude_chain: "entries_ok t \<Longrightarrow> chain (conclude q t) = chain t"
  "entries_ok t \<Longrightarrow> tr_active (conclude q t) = tr_active t"
  "entries_ok t \<Longrightarrow> tr_pending (conclude q t) = tr_pending t"
  using conclude_released [of t q] by (auto simp: released_def frame_def chain_def)

lemma steady_starts: "steady s t \<Longrightarrow> tr_active t = tr_active s"
  by (simp add: steady_def frame_def)

lemma release_starts: "entries_ok t \<Longrightarrow> tr_active (finish_owner publish k t) = tr_active t"
  using finish_released [of t k publish] by (simp add: released_def frame_def)

lemma serial_entries: "serial s \<Longrightarrow> entries_ok s"
  by (simp add: serial_def table_entries)

lemma entries_update [simp]:
  "entries_ok (s\<lparr>tr_pending := qs\<rparr>) = entries_ok s" "entries_ok (s\<lparr>tr_active := qs\<rparr>) = entries_ok s"
  "entries_ok (s\<lparr>tr_shutdowns := ks\<rparr>) = entries_ok s"
  by (simp_all add: entries_ok_def owner_plugin_def)

lemma admission_starts:
  "run_change spec intent i now s = Inr t \<Longrightarrow> tr_active t = tr_active s"
  "reviewExit cohort s = Inr t \<Longrightarrow> tr_active t = tr_active s"
proof -
  have "tr_active (enter_owners cohort s) = tr_active s" for cohort s
    by (induction cohort s rule: enter_owners.induct) (simp_all add: enter_owner_def)
  then show "run_change spec intent i now s = Inr t \<Longrightarrow> tr_active t = tr_active s"
    "reviewExit cohort s = Inr t \<Longrightarrow> tr_active t = tr_active s"
    by (auto simp: run_change_def reviewExit_def link_operation_def publish_transitions_def Let_def
        admit_def enter_owner_def split: if_splits option.splits)
qed

lemma finished_starts:
  assumes ok: "serial s"
  shows "q \<in> set (tr_active s) \<Longrightarrow> set (tr_active (operation_done q s)) \<subseteq> set (tr_active s)"
    and "tr_active (shutdown_done k s) = tr_active s"
  using serial_entries [OF ok] set_remove1_subset [of q "tr_active s"]
  by (simp_all add: operation_done_def conclude_chain shutdown_done_def release_starts)

lemma begin_starts:
  assumes ok: "serial s" and q: "q \<in> set (tr_pending s)" "lo_after q \<in> set (tr_settled s)"
    and begun: "p \<in> set (tr_active (begin_operation q now s))"
  shows "p = q \<and> tr_active s = [] \<and> hd (tr_pending s) = q \<and> \<not> tr_closing s
    \<and> (\<forall>k operation pluginId symbol. lo_body q = Change k operation (Some (pluginId, symbol)) \<longrightarrow>
         map_of (tr_intents s) pluginId = Some symbol)"
proof -
  obtain rest where head: "tr_active s = []" "tr_pending s = q # rest"
    using settled_head [OF _ q] ok by (auto simp: serial_def)
  let ?t = "s\<lparr>tr_pending := rest\<rparr>"
  have refused: "tr_active (conclude q ?t) = []"
    using serial_entries [OF ok] by (simp add: conclude_chain head)
  have *: "tr_active (conclude q u) = []" if "entries_ok u" "tr_active u = []" for u
    using that by (simp add: conclude_chain)
  show ?thesis
  proof (cases "lo_body q")
    case (Change k operation intent)
    let ?s1 = "hand_out [\<lparr>hd_owner = k, hd_intent = intent\<rparr>]
                 (update_owner k (\<lambda>ow. ow\<lparr>ow_blocking := blocksDispatch operation\<rparr>) ?t)"
    have "entries_ok ?s1"
      using serial_entries [OF ok]
      by (auto simp: entries_ok_def hand_out_def update_owner_def owner_plugin_def nth_updated)
    then have s1: "tr_active (conclude q ?s1) = []"
      by (rule *) (simp add: hand_out_def update_owner_def head)
    have "\<not> (tr_closing s \<or> assertIntent intent ?t \<noteq> None)"
      by (rule ccontr) (use begun refused in \<open>auto simp: begin_operation_def Let_def head Change\<close>)
    moreover from this obtain s2 where "phase k (initialStage operation) no_metadata now None ?s1 = Inr s2"
      using begun s1 by (auto simp: begin_operation_def Let_def head Change split: sum.splits)
    moreover from this have "tr_active s2 = []"
      using steady_starts [OF steady_phase] by (simp add: hand_out_def update_owner_def head)
    ultimately show ?thesis
      using begun
      by (auto simp: begin_operation_def Let_def head Change assertIntent_def split: if_splits)
  next
    case (Exit_Review ks)
    then show ?thesis
      using begun refused
      by (auto simp: begin_operation_def Let_def head hand_out_def split: if_splits)
  qed
qed

lemma step_starts:
  assumes ok: "serial s" and "p \<in> set (tr_active (transition_step c s))" and "p \<notin> set (tr_active s)"
  shows "\<exists>now. c = Begin_Operation p now \<and> p \<in> set (tr_pending s) \<and> lo_after p \<in> set (tr_settled s)
    \<and> p \<in> set (tr_active (begin_operation p now s))"
proof (cases c)
  case (Begin_Operation q now)
  then show ?thesis
    using assms begin_starts [OF ok] by (auto split: if_splits)
next
  case (Observe_Shutdown spec i now)
  then show ?thesis
    using assms observe_serial(2) [OF ok] by (auto simp: or_else_def chain_def split: sum.splits)
next
  case (Enter_Phase h stage md now sample)
  then show ?thesis
    using assms steady_starts [OF steady_phase] by (auto simp: or_else_def split: sum.splits if_splits)
next
  case (Run_Change spec intent i now)
  then show ?thesis
    using assms admission_starts(1) by (auto simp: or_else_def split: sum.splits)
next
  case (Review_Exit_Of cohort)
  then show ?thesis
    using assms admission_starts(2) by (auto simp: or_else_def split: sum.splits)
next
  case (Operation_Done q)
  then show ?thesis
    using assms finished_starts(1) [OF ok] by (auto split: if_splits)
next
  case (Shutdown_Done k)
  then show ?thesis
    using assms finished_starts(2) [OF ok] by (auto split: if_splits)
qed (use assms steady_starts [OF steady_wait] steady_starts [OF steady_timer]
       steady_starts [OF steady_refresh] steady_starts [OF steady_intents(1)]
       steady_starts [OF steady_intents(2)] steady_starts [OF steady_intents(3)] in
     \<open>auto split: if_splits\<close>)

text \<open>
  C16: Whatever a call does, the operation it starts is the oldest pending one, nothing else was running,
  the host was not closing, and a change asked for by an intent starts only while that intent is the
  latest one of its plugin: a superseded change never runs, and nothing starts after the close.
\<close>

theorem change_starts_in_turn:
  fixes calls :: "transition_call list"
  defines "s \<equiv> transition_run calls"
  assumes "q \<in> set (tr_active (transition_step c s))" and "q \<notin> set (tr_active s)"
  shows "tr_active s = [] \<and> q \<in> set (tr_pending s) \<and> hd (tr_pending s) = q \<and> \<not> tr_closing s
    \<and> (\<forall>k operation pluginId symbol. lo_body q = Change k operation (Some (pluginId, symbol)) \<longrightarrow>
         map_of (tr_intents s) pluginId = Some symbol)"
proof -
  have ok: "serial s" unfolding s_def by (rule run_always_serial)
  then show ?thesis
    using step_starts [OF ok assms(2,3)] begin_starts [OF ok] by blast
qed

section \<open>Dispatch\<close>

text \<open>
  C25: A plugin refuses dispatch exactly while a change of it (not a review) or its shutdown work is
  running: never while its change only waits for its turn, and never after it settled.
\<close>

theorem dispatch_blocked_while_changing:
  "isChanging pluginId (transition_run calls) \<longleftrightarrow>
     (\<exists>k \<in> blocked (transition_run calls). owner_plugin k (transition_run calls) = pluginId)"
proof -
  let ?s = "transition_run calls"
  have ok: "table_ok ?s" "blocking_ok ?s"
    using run_always_serial [of calls] by (simp_all add: serial_def)
  show ?thesis
  proof
    assume "isChanging pluginId ?s"
    then obtain k where k: "(pluginId, k) \<in> set (tr_owners ?s)" "ow_blocking (tr_heap ?s ! k)"
      by (auto simp: isChanging_def dest: map_of_SomeD split: option.splits)
    then have "k \<in> set (claims ?s)" "owner_plugin k ?s = pluginId"
      using ok(1) by (auto simp: table_ok_def intro: image_eqI [of _ _ "(pluginId, k)"])
    with k ok(2) show "\<exists>k \<in> blocked ?s. owner_plugin k ?s = pluginId"
      by (auto simp: blocking_ok_def)
  next
    assume "\<exists>k \<in> blocked ?s. owner_plugin k ?s = pluginId"
    then obtain k where k: "k \<in> blocked ?s" "owner_plugin k ?s = pluginId" by blast
    then have claimed: "k \<in> set (claims ?s)" using blocked_claims by blast
    then have "map_of (tr_owners ?s) pluginId = Some k"
      using claimed_owned [OF ok(1)] k(2) by (auto simp: owned_def)
    then show "isChanging pluginId ?s"
      using ok(2) k(1) claimed by (simp add: isChanging_def blocking_ok_def)
  qed
qed

section \<open>Progress\<close>

lemma conclude_settled: "entries_ok t \<Longrightarrow> tr_settled (conclude q t) = tr_settled t @ [lo_promise q]"
  using conclude_released [of t q] by (auto simp: released_def frame_def)

text \<open>The oldest operation begins when its turn comes: it fails its checks and concludes, or runs.\<close>

lemma begin_outcome:
  assumes ok: "serial s" and head: "tr_active s = []" "tr_pending s = q # rest"
  shows "chain (begin_operation q now s) = rest
      \<and> tr_settled (begin_operation q now s) = tr_settled s @ [lo_promise q]
      \<and> tr_active (begin_operation q now s) = []
    \<or> tr_active (begin_operation q now s) = [q] \<and> tr_pending (begin_operation q now s) = rest
      \<and> tr_settled (begin_operation q now s) = tr_settled s"
proof -
  let ?t = "s\<lparr>tr_pending := rest\<rparr>"
  have concluded: "chain (conclude q u) = rest \<and> tr_settled (conclude q u) = tr_settled s @ [lo_promise q]
      \<and> tr_active (conclude q u) = []"
    if "entries_ok u" "tr_active u = []" "tr_pending u = rest" "tr_settled u = tr_settled s" for u
    using that by (simp add: conclude_chain conclude_settled chain_def)
  have t: "entries_ok ?t"
    using serial_entries [OF ok] by simp
  show ?thesis
  proof (cases "lo_body q")
    case (Change k operation intent)
    let ?s1 = "hand_out [\<lparr>hd_owner = k, hd_intent = intent\<rparr>]
                 (update_owner k (\<lambda>ow. ow\<lparr>ow_blocking := blocksDispatch operation\<rparr>) ?t)"
    have "entries_ok ?s1"
      using t by (auto simp: entries_ok_def hand_out_def update_owner_def owner_plugin_def nth_updated)
    then have s1: "chain (conclude q ?s1) = rest \<and> tr_settled (conclude q ?s1) = tr_settled s @ [lo_promise q]
        \<and> tr_active (conclude q ?s1) = []"
      by (rule concluded) (simp_all add: hand_out_def update_owner_def head)
    show ?thesis
    proof (cases "phase k (initialStage operation) no_metadata now None ?s1")
      case (Inl e)
      then show ?thesis
        using s1 concluded [OF t] by (simp add: begin_operation_def Let_def head Change)
    next
      case (Inr s2)
      then have "tr_active s2 = [] \<and> tr_pending s2 = rest \<and> tr_settled s2 = tr_settled s"
        using steady_phase [OF Inr] by (simp add: steady_def frame_def hand_out_def update_owner_def head)
      then show ?thesis
        using Inr concluded [OF t] by (simp add: begin_operation_def Let_def head Change)
    qed
  next
    case (Exit_Review ks)
    then show ?thesis
      using concluded [OF t] by (simp add: begin_operation_def Let_def head hand_out_def)
  qed
qed

text \<open>
  What one call does to the queue of operations: it leaves the running one alone and only adds behind
  the others, or the oldest one settles. An owner that nobody answers for is never answered for again.
\<close>

definition queue_moves :: "transitions \<Rightarrow> transitions \<Rightarrow> bool" where
  "queue_moves s t \<longleftrightarrow>
     (\<exists>new. chain t = chain s @ new \<and> tr_settled t = tr_settled s
        \<and> (tr_active s \<noteq> [] \<longrightarrow> tr_active t = tr_active s))
     \<or> (\<exists>q. chain s = q # chain t \<and> tr_settled t = tr_settled s @ [lo_promise q] \<and> tr_shutdowns t = tr_shutdowns s)"

definition claims_fresh :: "transitions \<Rightarrow> transitions \<Rightarrow> bool" where
  "claims_fresh s t \<longleftrightarrow>
     length (tr_heap s) \<le> length (tr_heap t)
     \<and> (\<forall>k \<in> set (claims t). k \<in> set (claims s) \<or> length (tr_heap s) \<le> k)"

lemma queue_grows:
  "chain t = chain s @ new \<Longrightarrow> tr_settled t = tr_settled s \<Longrightarrow> (tr_active s \<noteq> [] \<Longrightarrow> tr_active t = tr_active s) \<Longrightarrow>
   queue_moves s t"
  by (auto simp: queue_moves_def)

lemma queue_settles: "chain s = q # chain t \<Longrightarrow> tr_settled t = tr_settled s @ [lo_promise q] \<Longrightarrow> tr_shutdowns t = tr_shutdowns s \<Longrightarrow>
   queue_moves s t"
  by (auto simp: queue_moves_def)

lemma steady_moves: "steady s t \<Longrightarrow> queue_moves s t \<and> claims_fresh s t"
  by (auto simp: steady_def frame_def queue_moves_def claims_fresh_def chain_def claims_def)

lemma link_moves:
  assumes "entered ps s t" and "body_owners body = [length (tr_heap s)..<length (tr_heap s) + length ps]"
  shows "queue_moves s (link_operation body t) \<and> claims_fresh s (link_operation body t)"
  using assms
  by (auto simp: entered_def link_operation_def publish_transitions_def chain_def claims_def queue_moves_def claims_fresh_def)

lemma run_moves:
  assumes "run_change spec intent i now s = Inr t"
  shows "queue_moves s t \<and> claims_fresh s t"
proof -
  obtain s1 where "admit spec i now s = Inr s1"
    and t: "t = link_operation (Change (length (tr_heap s)) (ts_operation spec) intent) s1"
    using assms by (auto simp: run_change_def split: if_splits option.splits sum.splits)
  then have "entered [ts_pluginId spec] s s1" by (blast intro: admit_entered)
  then show ?thesis unfolding t by (rule link_moves) simp
qed

lemma review_moves:
  assumes ok: "serial s" and review: "reviewExit cohort s = Inr t"
  shows "queue_moves s t \<and> claims_fresh s t"
proof -
  let ?n = "length (tr_heap s)" and ?ps = "map (ts_pluginId \<circ> fst) cohort"
  have t: "t = link_operation (Exit_Review [?n..<?n + length cohort]) (enter_owners cohort s)"
    and guards: "\<not> tr_closing s" "tr_ordinary s = 0" "distinct ?ps"
    using review by (auto simp: reviewExit_def Let_def split: if_splits option.splits)
  have "claims s = []"
    using ok guards open_no_shutdowns [OF ok] by (simp add: serial_def chain_ok_def claims_def)
  then have "tr_owners s = []"
    using ok by (simp add: serial_def table_ok_def)
  then have "entered ?ps s (enter_owners cohort s)"
    by (intro entered_enter [OF guards(3)]) simp
  then show ?thesis unfolding t by (rule link_moves) simp
qed

lemma observe_moves:
  assumes ok: "serial s" and observe: "observeShutdown spec i now s = Inr t"
  shows "queue_moves s t \<and> claims_fresh s t"
proof -
  let ?n = "length (tr_heap s)"
  obtain s1 where s1: "admit spec i now s = Inr s1" and "tr_ordinary s = 0"
    using observe by (auto simp: observeShutdown_def split: if_splits sum.splits)
  note new = admit_entered(1) [OF s1]
  let ?s2 = "hand_out [\<lparr>hd_owner = ?n, hd_intent = None\<rparr>]
               (update_owner ?n (\<lambda>ow. ow\<lparr>ow_blocking := True\<rparr>) s1)"
  have s2: "tr_settled ?s2 = tr_settled s" "tr_shutdowns ?s2 = tr_shutdowns s" "length (tr_heap ?s2) = ?n + 1"
    "tr_active ?s2 = tr_active s" "tr_pending ?s2 = tr_pending s"
    using new by (auto simp: entered_def hand_out_def update_owner_def)
  have empty: "chain s = []" "chain t = []"
    using ok \<open>tr_ordinary s = 0\<close> observe_serial(2) [OF ok observe] by (simp_all add: serial_def chain_ok_def)
  have "table_ok s" using ok by (simp add: serial_def)
  then have "entries_ok ?s2"
    using admit_entered(2) [OF s1] entered_owner_new(1) [OF new, of 0] entered_owner_old(2) [OF new] entered_length [OF new] new
    by (fastforce simp: entries_ok_def table_ok_def entered_def hand_out_def update_owner_def owner_plugin_def nth_append nth_updated)
  note failed = finish_released [OF this, of ?n True]
  have "tr_settled t = tr_settled s \<and> length (tr_heap t) = ?n + 1 \<and> set (tr_shutdowns t) \<subseteq> insert ?n (set (tr_shutdowns s))"
  proof (cases "phase ?n Close_Backend no_metadata now None ?s2")
    case (Inl e)
    then have "t = finish_owner True ?n ?s2"
      using observe s1 by (simp add: observeShutdown_def Let_def split: if_splits)
    then show ?thesis using failed s2 by (auto simp: released_def frame_def)
  next
    case (Inr s3)
    then have t: "t = s3\<lparr>tr_shutdowns := tr_shutdowns s3 @ [?n]\<rparr>"
      using observe s1 by (simp add: observeShutdown_def Let_def split: if_splits)
    show ?thesis using steady_phase [OF Inr] s2 by (simp add: t steady_def frame_def)
  qed
  then show ?thesis
    using empty by (auto simp: queue_moves_def claims_fresh_def claims_def chain_def)
qed

lemma conclude_moves:
  assumes ok: "serial s" and head: "chain s = q # rest"
    and u: "entries_ok u" "chain u = rest" "tr_settled u = tr_settled s" "tr_shutdowns u = tr_shutdowns s"
      "length (tr_heap u) = length (tr_heap s)"
  shows "queue_moves s (conclude q u) \<and> claims_fresh s (conclude q u)"
proof -
  obtain v where v: "released (body_owners (lo_body q)) u v" "tr_heap (conclude q u) = tr_heap v"
    "tr_shutdowns (conclude q u) = tr_shutdowns v"
    using conclude_released [OF u(1), of q] by blast
  then have "claims (conclude q u) = chain_owners rest @ tr_shutdowns s" "tr_heap (conclude q u) = tr_heap v"
    "length (tr_heap v) = length (tr_heap s)" and "tr_shutdowns (conclude q u) = tr_shutdowns s"
    using u conclude_chain(1) [OF u(1), of q] by (auto simp: claims_def released_def frame_def)
  moreover from this have "queue_moves s (conclude q u)"
    by (intro queue_settles [of s q]) (use head u conclude_chain(1) conclude_settled \<open>tr_shutdowns (conclude q u) = tr_shutdowns s\<close> in simp_all)
  ultimately show ?thesis
    using head by (simp add: claims_fresh_def claims_def)
qed

text \<open>An operation begins in its turn, which settles it at once when its checks fail.\<close>

lemma begin_moves:
  assumes ok: "serial s" and head: "tr_active s = []" "tr_pending s = q # rest"
  shows "queue_moves s (begin_operation q now s) \<and> claims_fresh s (begin_operation q now s)
    \<and> (tr_active (begin_operation q now s) = [q] \<and> chain (begin_operation q now s) = chain s
       \<or> chain s = q # chain (begin_operation q now s))"
proof -
  let ?t = "s\<lparr>tr_pending := rest\<rparr>"
  have chain: "chain s = q # rest" by (simp add: chain_def head)
  have concluded: "queue_moves s (conclude q u) \<and> claims_fresh s (conclude q u) \<and> chain s = q # chain (conclude q u)"
    if "entries_ok u" "tr_active u = []" "tr_pending u = rest" "tr_settled u = tr_settled s"
      "tr_shutdowns u = tr_shutdowns s" "length (tr_heap u) = length (tr_heap s)" for u
    using that conclude_moves [OF ok chain, of u] by (simp add: chain_def head conclude_chain)
  have running: "queue_moves s u \<and> claims_fresh s u \<and> tr_active u = [q] \<and> chain u = chain s"
    if "tr_active u = [q]" "tr_pending u = rest" "tr_settled u = tr_settled s" "tr_shutdowns u = tr_shutdowns s"
      "length (tr_heap u) = length (tr_heap s)" for u
    using that by (auto simp: queue_moves_def claims_fresh_def claims_def chain_def head)
  have t: "entries_ok ?t" using serial_entries [OF ok] by simp
  then have refused: "queue_moves s (conclude q ?t) \<and> claims_fresh s (conclude q ?t) \<and> chain s = q # chain (conclude q ?t)"
    by (rule concluded) (simp_all add: head)
  show ?thesis
  proof (cases "lo_body q")
    case (Change k operation intent)
    let ?s1 = "hand_out [\<lparr>hd_owner = k, hd_intent = intent\<rparr>]
                 (update_owner k (\<lambda>ow. ow\<lparr>ow_blocking := blocksDispatch operation\<rparr>) ?t)"
    have s1: "tr_active ?s1 = []" "tr_pending ?s1 = rest" "tr_settled ?s1 = tr_settled s"
      "tr_shutdowns ?s1 = tr_shutdowns s" "length (tr_heap ?s1) = length (tr_heap s)"
      by (simp_all add: hand_out_def update_owner_def head)
    have "entries_ok ?s1"
      using t by (auto simp: entries_ok_def hand_out_def update_owner_def owner_plugin_def nth_updated)
    note failed = concluded [OF this s1]
    show ?thesis
    proof (cases "phase k (initialStage operation) no_metadata now None ?s1")
      case (Inl e)
      then show ?thesis
        using refused failed by (simp add: begin_operation_def Let_def head Change)
    next
      case (Inr s2)
      have "tr_active s2 = []" "tr_pending s2 = rest" "tr_settled s2 = tr_settled s"
        "tr_shutdowns s2 = tr_shutdowns s" "length (tr_heap s2) = length (tr_heap s)"
        using steady_phase [OF Inr] s1 by (simp_all add: steady_def frame_def)
      then show ?thesis
        using Inr refused running [of "s2\<lparr>tr_active := [q]\<rparr>"] by (simp add: begin_operation_def Let_def head Change)
    qed
  next
    case (Exit_Review ks)
    then show ?thesis
      using refused running [of "hand_out (map (\<lambda>k. \<lparr>hd_owner = k, hd_intent = None\<rparr>) ks) ?t\<lparr>tr_active := [q]\<rparr>"]
      by (simp add: begin_operation_def Let_def head hand_out_def)
  qed
qed

lemma done_moves:
  assumes ok: "serial s" and q: "q \<in> set (tr_active s)"
  shows "queue_moves s (operation_done q s) \<and> claims_fresh s (operation_done q s)
    \<and> chain s = q # chain (operation_done q s)"
proof -
  let ?u = "s\<lparr>tr_active := []\<rparr>"
  have active: "tr_active s = [q]"
    using ok q by (cases "tr_active s") (auto simp: serial_def chain_ok_def)
  then have chain: "chain s = q # tr_pending s" by (simp add: chain_def)
  have u: "operation_done q s = conclude q ?u" "entries_ok ?u" "chain ?u = tr_pending s"
    using serial_entries [OF ok] by (simp_all add: operation_done_def active chain_def)
  show ?thesis
    unfolding u(1) using conclude_moves [OF ok chain u(2,3)] conclude_chain(1) [OF u(2), of q] chain u(3) by simp
qed

lemma shutdown_moves:
  assumes ok: "serial s"
  shows "queue_moves s (shutdown_done k s) \<and> claims_fresh s (shutdown_done k s)"
proof -
  let ?t = "s\<lparr>tr_shutdowns := remove1 k (tr_shutdowns s)\<rparr>"
  have "entries_ok ?t" using serial_entries [OF ok] by simp
  from finish_released [OF this, of k True] show ?thesis
    using set_remove1_subset [of k "tr_shutdowns s"]
    by (auto simp: shutdown_done_def released_def frame_def queue_moves_def claims_fresh_def claims_def chain_def)
qed

lemma step_moves:
  assumes ok: "serial s"
  shows "queue_moves s (transition_step c s) \<and> claims_fresh s (transition_step c s)"
proof (cases c)
  case (Begin_Operation q now)
  then show ?thesis
    using settled_head [of s q] begin_moves [OF ok] steady_moves [OF steady_refl] ok
    by (fastforce simp: serial_def)
next
  case (Observe_Shutdown spec i now)
  then show ?thesis
    using observe_moves [OF ok] steady_moves [OF steady_refl] by (auto simp: or_else_def split: sum.split)
next
  case (Enter_Phase h stage md now sample)
  then show ?thesis
    using steady_moves [OF steady_phase] steady_moves [OF steady_refl] by (auto simp: or_else_def split: sum.split)
next
  case (Run_Change spec intent i now)
  then show ?thesis
    using run_moves steady_moves [OF steady_refl] by (auto simp: or_else_def split: sum.split)
next
  case (Review_Exit_Of cohort)
  then show ?thesis
    using review_moves [OF ok] steady_moves [OF steady_refl] by (auto simp: or_else_def split: sum.split)
next
  case (Operation_Done q)
  then show ?thesis
    using done_moves [OF ok] steady_moves [OF steady_refl] by auto
next
  case (Shutdown_Done k)
  then show ?thesis
    using shutdown_moves [OF ok] steady_moves [OF steady_refl] by auto
qed (simp_all add: steady_moves steady_wait steady_timer steady_refresh steady_intents)

text \<open>Owners nobody answers for, now and later.\<close>

definition let_go :: "nat set \<Rightarrow> transitions \<Rightarrow> bool" where
  "let_go K s \<longleftrightarrow> (\<forall>k \<in> K. k < length (tr_heap s) \<and> k \<notin> set (claims s))"

lemma let_go_step: "serial s \<Longrightarrow> let_go K s \<Longrightarrow> let_go K (transition_step c s)"
  using step_moves [of s c] by (fastforce simp: let_go_def claims_fresh_def)

lemma let_go_run: "serial s \<Longrightarrow> let_go K s \<Longrightarrow> let_go K (fold transition_step cs s)"
  by (induction cs arbitrary: s) (simp_all add: let_go_step step_serial)

lemma settled_lets_go:
  assumes ok: "serial s" and moved: "chain s = q # chain t" "tr_shutdowns t = tr_shutdowns s" "claims_fresh s t"
  shows "let_go (set (body_owners (lo_body q))) t"
proof -
  have claims: "claims s = body_owners (lo_body q) @ claims t"
    using moved(1,2) by (simp add: claims_def)
  moreover have "distinct (claims s)" "\<forall>k \<in> set (claims s). k < length (tr_heap s)"
    using ok claims_in_heap by (auto simp: serial_def table_ok_def)
  ultimately show ?thesis
    using moved(3) by (auto simp: let_go_def claims_fresh_def intro: less_le_trans)
qed

text \<open>What has settled stays settled.\<close>

lemma settled_grows: "serial s \<Longrightarrow> prefix (tr_settled s) (tr_settled (fold transition_step cs s))"
proof (induction cs arbitrary: s)
  case (Cons c cs)
  have "prefix (tr_settled s) (tr_settled (transition_step c s))"
    using step_moves [OF Cons.prems, of c] by (auto simp: queue_moves_def)
  with Cons.IH [OF step_serial [OF Cons.prems], of c] show ?case by (auto intro: prefix_order.trans)
qed simp

text \<open>
  The promise machinery runs the reaction of each operation after its predecessor settled, and each
  work settles: these calls come in this order in a run, whatever comes between them.
\<close>

definition take_turns :: "(linked_operation \<Rightarrow> int) \<Rightarrow> linked_operation list \<Rightarrow> transition_call list" where
  "take_turns now qs = concat (map (\<lambda>q. [Begin_Operation q (now q), Operation_Done q]) qs)"

lemma take_turns_simps [simp]:
  "take_turns now [] = []"
  "take_turns now (q # qs) = Begin_Operation q (now q) # Operation_Done q # take_turns now qs"
  by (simp_all add: take_turns_def)

text \<open>The turns that are still to come, of operations that are the oldest ones of the queue.\<close>

definition awaits_turns :: "(linked_operation \<Rightarrow> int) \<Rightarrow> linked_operation list \<Rightarrow> transition_call list \<Rightarrow> transitions \<Rightarrow> bool" where
  "awaits_turns now qs cs s \<longleftrightarrow>
     prefix qs (chain s)
     \<and> (subseq (take_turns now qs) cs
        \<or> (\<exists>q rest. qs = q # rest \<and> tr_active s = [q] \<and> subseq (Operation_Done q # take_turns now rest) cs))"

lemma head_begins:
  assumes ok: "serial s" and q: "prefix (q # rest) (chain s)"
  shows "tr_active (transition_step (Begin_Operation q now) s) = [q]
    \<or> chain s = q # chain (transition_step (Begin_Operation q now) s)"
proof (cases "tr_active s")
  case Nil
  then obtain later where head: "tr_pending s = q # later"
    using q by (auto simp: chain_def prefix_def)
  then have "lo_after q \<in> set (tr_settled s)"
    using ok Nil by (auto simp: serial_def chain_ok_def chain_def)
  then show ?thesis using begin_moves [OF ok Nil head, of now] head by auto
next
  case (Cons p ps)
  then have active: "tr_active s = [q]"
    using ok q by (auto simp: serial_def chain_ok_def chain_def prefix_def)
  then have "q \<notin> set (tr_pending s)"
    using ok by (auto simp: serial_def chain_ok_def chain_def sorted_wrt_append)
  then show ?thesis by (simp add: active)
qed

lemma head_settles: "serial s \<Longrightarrow> tr_active s = [q] \<Longrightarrow> chain s = q # chain (transition_step (Operation_Done q) s)"
  using done_moves [of s q] by simp

lemma turn_step:
  assumes ok: "serial s" and wait: "awaits_turns now (q # rest) (c # cs) s"
  defines "t \<equiv> transition_step c s"
  shows "awaits_turns now (q # rest) cs t \<and> tr_settled t = tr_settled s
    \<or> awaits_turns now rest cs t \<and> tr_settled t = tr_settled s @ [lo_promise q] \<and> let_go (set (body_owners (lo_body q))) t"
proof -
  have moves: "queue_moves s t" "claims_fresh s t"
    using step_moves [OF ok] by (simp_all add: t_def)
  have oldest: "prefix (q # rest) (chain s)" using wait by (simp add: awaits_turns_def)
  consider new where "chain t = chain s @ new" "tr_settled t = tr_settled s" "tr_active s \<noteq> [] \<Longrightarrow> tr_active t = tr_active s"
    | p where "chain s = p # chain t" "tr_settled t = tr_settled s @ [lo_promise p]" "tr_shutdowns t = tr_shutdowns s"
    using moves(1) by (auto simp: queue_moves_def)
  then show ?thesis
  proof cases
    case 1
    then have stays: "prefix (q # rest) (chain t)" "chain s \<noteq> q # chain t"
      using oldest by (auto simp: prefix_def)
    consider "subseq (take_turns now (q # rest)) (c # cs)"
      | "tr_active s = [q]" "subseq (Operation_Done q # take_turns now rest) (c # cs)"
      using wait by (auto simp: awaits_turns_def)
    then have "subseq (take_turns now (q # rest)) cs \<or> tr_active t = [q] \<and> subseq (Operation_Done q # take_turns now rest) cs"
    proof cases
      case first: 1
      then show ?thesis
        using head_begins [OF ok oldest, of "now q"] stays(2) by (auto simp: t_def simp del: transition_step.simps split: if_splits)
    next
      case second: 2
      then show ?thesis
        using head_settles [OF ok second(1)] stays(2) 1(3) by (auto simp: t_def simp del: transition_step.simps split: if_splits)
    qed
    then show ?thesis using stays(1) 1(2) by (auto simp: awaits_turns_def)
  next
    case 2
    then have p: "p = q" "prefix rest (chain t)" using oldest by auto
    have "subseq (take_turns now rest) cs"
      using wait by (auto simp: awaits_turns_def split: if_splits dest: subseq_Cons')
    then show ?thesis
      using 2 p settled_lets_go [OF ok _ _ moves(2), of q] by (simp add: awaits_turns_def)
  qed
qed

lemma turns_settle:
  "serial s \<Longrightarrow> awaits_turns now qs cs s \<Longrightarrow>
   prefix (tr_settled s @ map lo_promise qs) (tr_settled (fold transition_step cs s))
   \<and> (\<forall>q \<in> set qs. let_go (set (body_owners (lo_body q))) (fold transition_step cs s))"
proof (induction cs arbitrary: s qs)
  case Nil
  then have "qs = []" by (cases qs) (auto simp: awaits_turns_def)
  then show ?case by simp
next
  case (Cons c cs)
  show ?case
  proof (cases qs)
    case Nil
    then show ?thesis using settled_grows [OF Cons.prems(1), of "c # cs"] by simp
  next
    case q: (Cons q rest)
    note ok = step_serial [OF Cons.prems(1), of c]
    from turn_step [OF Cons.prems(1) Cons.prems(2) [unfolded q]] show ?thesis
      using Cons.IH [OF ok, of qs] Cons.IH [OF ok, of rest] let_go_run [OF ok] by (auto simp: q)
  qed
qed

text \<open>
  C24: Every admitted operation settles in its turn, whatever else happens. Take any moment of any run,
  and any continuation in which, for the operations admitted at that moment and in their order, the
  promise machinery runs the reaction of each and its work settles; the continuation may interleave any
  other calls (new changes, intents, phases, timers, reviews, a close, shutdown works). Then those
  operations have all settled, each once and in the order of admission, their owners hold their plugins
  no more, and the operations counted as pending are exactly those admitted since.
\<close>

theorem admitted_changes_settle:
  fixes calls later :: "transition_call list" and now :: "linked_operation \<Rightarrow> int"
  defines "s \<equiv> transition_run calls"
  defines "t \<equiv> transition_run (calls @ later)"
  assumes "subseq (take_turns now (chain s)) later"
  shows "prefix (tr_settled s @ map lo_promise (chain s)) (tr_settled t)
    \<and> sorted_wrt (<) (tr_settled t)
    \<and> set (chain s) \<inter> set (chain t) = {}
    \<and> (\<forall>q k. q \<in> set (chain s) \<and> k \<in> set (body_owners (lo_body q)) \<longrightarrow> k \<notin> snd ` set (tr_owners t))
    \<and> tr_ordinary t = int (length (chain t))"
proof -
  have ok: "serial s" "serial t" unfolding s_def t_def by (rule run_always_serial)+
  have t: "t = fold transition_step later s" by (simp add: t_def s_def transition_run_def)
  have settled: "prefix (tr_settled s @ map lo_promise (chain s)) (tr_settled t)"
    "\<forall>q \<in> set (chain s). let_go (set (body_owners (lo_body q))) t"
    using turns_settle [OF ok(1), of now "chain s" later] assms(3) by (simp_all add: t awaits_turns_def)
  have sorted: "sorted_wrt (<) (tr_settled t @ map lo_promise (chain t))"
    using ok(2) by (simp add: serial_def chain_ok_def sorted_wrt_append)
  have "lo_promise q \<in> set (tr_settled t)" if "q \<in> set (chain s)" for q
    using settled(1) that by (auto simp: prefix_def)
  then have "set (chain s) \<inter> set (chain t) = {}"
    using sorted by (fastforce simp: sorted_wrt_append)
  moreover have "\<forall>q k. q \<in> set (chain s) \<and> k \<in> set (body_owners (lo_body q)) \<longrightarrow> k \<notin> snd ` set (tr_owners t)"
    using settled(2) ok(2) by (auto simp: let_go_def serial_def table_ok_def)
  ultimately show ?thesis
    using settled(1) sorted ok(2) by (simp add: serial_def chain_ok_def sorted_wrt_append)
qed

section \<open>A run\<close>


definition pdf_install :: transition_spec where
  "pdf_install = \<lparr>ts_pluginId = ''pdf.viewer'', ts_operation = Install, ts_activationId = None\<rparr>"

definition pdf_operation :: linked_operation where
  "pdf_operation =
     \<lparr>lo_promise = 3, lo_after = 0, lo_body = Change 0 Install (Some (''pdf.viewer'', 1))\<rparr>"

definition pdf_calls :: "transition_call list" where
  "pdf_calls = [With_Intent ''pdf.viewer'', Run_Change pdf_install (Some (''pdf.viewer'', 1)) ''op'' 10]"

lemma pdf_start:
  "pdf_operation \<in> set (tr_active (transition_step (Begin_Operation pdf_operation 20) (transition_run pdf_calls)))"
  "tr_active (transition_run pdf_calls) = []"
  by code_simp+

lemma pdf_handle:
  "\<lparr>hd_owner = 0, hd_intent = Some (''pdf.viewer'', 1)\<rparr>
     \<in> set (tr_handles (transition_run (pdf_calls @ [Begin_Operation pdf_operation 20])))"
  "assert_current \<lparr>hd_owner = 0, hd_intent = Some (''pdf.viewer'', 1)\<rparr>
     (transition_run (pdf_calls @ [Begin_Operation pdf_operation 20])) = None"
  by code_simp+

text \<open>The installation of a plugin asked for by an intent, up to its first check.\<close>

corollary passing_check_is_exclusive_witness:
  "\<exists>q. tr_active (transition_run (pdf_calls @ [Begin_Operation pdf_operation 20])) = [q]
     \<and> 0 \<in> set (body_owners (lo_body q))"
  using passing_check_is_exclusive [OF pdf_handle] by auto

corollary change_starts_in_turn_witness:
  "hd (tr_pending (transition_run pdf_calls)) = pdf_operation"
  using change_starts_in_turn [OF pdf_start(1)] pdf_start(2) by simp

text \<open>
  Two changes in the queue. While the first one works, its plugin is refused, a third change is asked for
  and the host begins to close: the second one is then refused in its turn, and both have settled.
\<close>

definition csv_install :: transition_spec where
  "csv_install = \<lparr>ts_pluginId = ''csv.viewer'', ts_operation = Install, ts_activationId = None\<rparr>"

definition csv_operation :: linked_operation where
  "csv_operation = \<lparr>lo_promise = 5, lo_after = 3, lo_body = Change 1 Install None\<rparr>"

definition two_changes :: "transition_call list" where
  "two_changes = pdf_calls @ [Run_Change csv_install None ''op2'' 11]"

definition busy_turns :: "transition_call list" where
  "busy_turns = [Begin_Operation pdf_operation 20, Run_Change pdf_install None ''op3'' 21,
     Run_Change \<lparr>ts_pluginId = ''hex.viewer'', ts_operation = Install, ts_activationId = None\<rparr> None ''op4'' 22,
     Operation_Done pdf_operation, Begin_Close, Begin_Operation csv_operation 30, Operation_Done csv_operation]"

lemma two_changes_wait: "chain (transition_run two_changes) = [pdf_operation, csv_operation]"
  by code_simp

lemma busy_turns_taken:
  "subseq (take_turns (\<lambda>q. if q = pdf_operation then 20 else 30) (chain (transition_run two_changes))) busy_turns"
  unfolding two_changes_wait by (simp add: busy_turns_def pdf_operation_def csv_operation_def)

corollary admitted_changes_settle_witness:
  "prefix [0, 3, 5] (tr_settled (transition_run (two_changes @ busy_turns)))
   \<and> tr_ordinary (transition_run (two_changes @ busy_turns)) = 1"
proof -
  have "tr_settled (transition_run two_changes) = [0]" "map lo_promise (chain (transition_run two_changes)) = [3, 5]"
    "length (chain (transition_run (two_changes @ busy_turns))) = 1"
    by code_simp+
  then show ?thesis using admitted_changes_settle [OF busy_turns_taken] by simp
qed

end
