(* ===== verification/Read_Continuation.thy ===== *)
theory Read_Continuation
  imports Read_Coverage
begin

text \<open>
  Continued reads (\<open>application/read-continuation.ts\<close>): a bounded read that stopped before the end of its
  range leaves one continuation, which is taken once and only for the record settings it was made
  under. The passes of a continued read scan every offset of the reported range exactly once, and the
  reported progress is the sum of the passes.

  The current continuation, or none, is the whole state. The clock and the fresh identifier are
  arguments; a point in time is its number of milliseconds. A method that throws answers None.
\<close>

section \<open>Continuations\<close>

record search_progress =
  sp_pass :: int
  sp_scannedRecords :: int
  sp_scannedBytes :: int
  sp_matchedRecords :: int
  sp_unavailableRecords :: int
  sp_continuation :: "(js_string \<times> int) option"

record read_continuation =
  kc_request :: fetch_request
  kc_binding :: js_string
  kc_checkpoint :: read_checkpoint
  kc_progress :: search_progress
  kc_starts :: offset_map

type_synonym continuations = "(js_string \<times> int \<times> read_continuation) option"

abbreviation continuation_lifetime :: int where "continuation_lifetime \<equiv> 30 * 60000"
abbreviation continuation_passes :: int where "continuation_passes \<equiv> 10000"

text \<open>\<open>parseKafkaSearchProgress\<close> on the counters of a value of the right shape.\<close>

definition parseKafkaSearchProgress :: "search_progress \<Rightarrow> bool" where
  "parseKafkaSearchProgress p \<longleftrightarrow>
     1 \<le> sp_pass p \<and> sp_pass p \<le> continuation_passes
     \<and> 0 \<le> sp_scannedRecords p \<and> is_safe_integer (sp_scannedRecords p)
     \<and> 0 \<le> sp_scannedBytes p \<and> is_safe_integer (sp_scannedBytes p)
     \<and> 0 \<le> sp_matchedRecords p \<and> is_safe_integer (sp_matchedRecords p)
     \<and> 0 \<le> sp_unavailableRecords p \<and> is_safe_integer (sp_unavailableRecords p)
     \<and> sp_matchedRecords p + sp_unavailableRecords p \<le> sp_scannedRecords p"

definition take_continuation ::
  "js_string \<Rightarrow> js_string \<Rightarrow> int \<Rightarrow> continuations \<Rightarrow> read_continuation option \<times> continuations" where
  "take_continuation i binding now s =
     (case s of
        None \<Rightarrow> (None, s)
      | Some (current, expiresAt, v) \<Rightarrow>
          if current \<noteq> i then (None, s)
          else if expiresAt \<le> now \<or> kc_binding v \<noteq> binding then (None, None)
          else (Some v, None))"

definition previously :: "(search_progress \<Rightarrow> int) \<Rightarrow> read_continuation option \<Rightarrow> int" where
  "previously count previous = (case previous of None \<Rightarrow> 0 | Some v \<Rightarrow> count (kc_progress v))"

definition total_progress :: "read_coverage \<Rightarrow> read_continuation option \<Rightarrow> search_progress" where
  "total_progress c previous =
     \<lparr>sp_pass = previously sp_pass previous + 1,
      sp_scannedRecords = previously sp_scannedRecords previous + cv_scannedRecords c,
      sp_scannedBytes = previously sp_scannedBytes previous + cv_scannedBytes c,
      sp_matchedRecords = previously sp_matchedRecords previous + cv_matchedRecords c,
      sp_unavailableRecords = previously sp_unavailableRecords previous + cv_unavailableRecords c,
      sp_continuation = None\<rparr>"

definition total_coverage :: "read_coverage \<Rightarrow> read_continuation option \<Rightarrow> read_coverage" where
  "total_coverage c previous =
     c\<lparr>cv_partitions := map (\<lambda>p. p\<lparr>pc_startOffset :=
          (case Option.bind previous (\<lambda>v. map_of (kc_starts v) (pc_partition p)) of
             None \<Rightarrow> pc_startOffset p | Some start \<Rightarrow> start)\<rparr>) (cv_partitions c)\<rparr>"

definition start_offsets :: "read_coverage \<Rightarrow> offset_map" where
  "start_offsets c = map (\<lambda>p. (pc_partition p, pc_startOffset p)) (cv_partitions c)"

definition finish_continuation ::
  "fetch_request \<Rightarrow> js_string \<Rightarrow> read_checkpoint \<Rightarrow> int \<Rightarrow> read_continuation option \<Rightarrow> js_string \<Rightarrow> int \<Rightarrow>
   search_progress option \<times> continuations" where
  "finish_continuation request binding ck dropped previous i now =
     (let c = ck_coverage ck; progress = total_progress c previous in
      if \<not> parseKafkaReadCoverage c then (None, None)
      else if rq_mode request = Tail \<or> dropped > 0
        \<or> \<not> list_ex (\<lambda>p. pc_nextOffset p > pc_startOffset p) (cv_partitions c)
        \<or> \<not> list_ex (\<lambda>p. pc_nextOffset p < pc_endOffset p) (cv_partitions c)
        \<or> cv_reason c = Failed \<or> cv_reason c = Reading \<or> sp_pass progress \<ge> continuation_passes
      then (Some progress, None)
      else
        (Some (progress\<lparr>sp_continuation := Some (i, now + continuation_lifetime)\<rparr>),
         Some (i, now + continuation_lifetime,
           \<lparr>kc_request = request, kc_binding = binding, kc_checkpoint = ck, kc_progress = progress,
            kc_starts = (case previous of None \<Rightarrow> start_offsets c | Some v \<Rightarrow> kc_starts v)\<rparr>)))"

section \<open>Passes\<close>

text \<open>
  The passes of one continued read, with what is reported after the last one: the progress, the
  coverage, and the continuation it leaves. \<open>reads plan c\<close> says that a pass over a plan may end with a
  checkpoint of coverage c. A later pass takes the continuation, plans from its checkpoint and
  finishes with it.
\<close>

inductive passes ::
  "(fetch_plan \<Rightarrow> read_coverage \<Rightarrow> bool) \<Rightarrow> read_coverage list \<Rightarrow> search_progress \<Rightarrow> read_coverage \<Rightarrow>
   continuations \<Rightarrow> bool"
  for reads where
  First_Pass:
    "reads plan (ck_coverage ck) \<Longrightarrow>
     finish_continuation request binding ck dropped None i now = (Some progress, s) \<Longrightarrow>
     passes reads [ck_coverage ck] progress (total_coverage (ck_coverage ck) None) s"
| Next_Pass:
    "passes reads cs progress reported s \<Longrightarrow>
     take_continuation i binding now s = (Some v, s1) \<Longrightarrow>
     resolveKafkaFetchPlan lookup (kc_request v) nowMs (Some (kc_checkpoint v)) = Some (Inr plan, n) \<Longrightarrow>
     reads plan (ck_coverage ck) \<Longrightarrow>
     finish_continuation (kc_request v) binding' ck dropped (Some v) i' now' = (Some progress', s') \<Longrightarrow>
     passes reads (cs @ [ck_coverage ck]) progress' (total_coverage (ck_coverage ck) (Some v)) s'"

text \<open>The offsets of a partition a coverage says are scanned.\<close>

definition scanned :: "read_coverage \<Rightarrow> nat \<Rightarrow> int \<Rightarrow> bool" where
  "scanned c p x \<longleftrightarrow> (\<exists>pc \<in> set (cv_partitions c).
     pc_partition pc = p \<and> pc_startOffset pc \<le> x \<and> x < pc_nextOffset pc)"

definition next_offsets :: "read_coverage \<Rightarrow> offset_map" where
  "next_offsets c = map (\<lambda>p. (pc_partition p, pc_nextOffset p)) (cv_partitions c)"

section \<open>Adjacent coverages\<close>

fun adjacent :: "read_coverage list \<Rightarrow> bool" where
  "adjacent (c # d # cs) = (next_offsets c = start_offsets d \<and> adjacent (d # cs))"
| "adjacent _ = True"

lemma adjacent_snoc:
  "cs \<noteq> [] \<Longrightarrow> adjacent (cs @ [c]) \<longleftrightarrow> adjacent cs \<and> next_offsets (last cs) = start_offsets c"
proof (induction cs)
  case (Cons d cs)
  then show ?case by (cases cs) auto
qed simp

lemma map_of_entries:
  assumes "distinct (map pc_partition ps)" and "pc \<in> set ps"
  shows "map_of (map (\<lambda>p. (pc_partition p, f p)) ps) (pc_partition pc) = Some (f pc)"
  using assms by (induction ps) (auto simp: rev_image_eqI)

text \<open>What a coverage says of one partition: where it starts and where it stands.\<close>

lemma coverage_bounds:
  assumes "parseKafkaReadCoverage c"
  shows "map_of (start_offsets c) p = None \<longleftrightarrow> map_of (next_offsets c) p = None"
    and "map_of (start_offsets c) p = Some a \<Longrightarrow> map_of (next_offsets c) p = Some b \<Longrightarrow> a \<le> b"
    and "scanned c p x \<longleftrightarrow>
      (\<exists>a b. map_of (start_offsets c) p = Some a \<and> map_of (next_offsets c) p = Some b \<and> a \<le> x \<and> x < b)"
proof -
  let ?ps = "cv_partitions c"
  have d: "distinct (map pc_partition ?ps)" and ok: "\<And>q. q \<in> set ?ps \<Longrightarrow> pc_startOffset q \<le> pc_nextOffset q"
    using assms by (auto simp: parseKafkaReadCoverage_def partition_coverage_ok_def list_all_iff)
  show "map_of (start_offsets c) p = None \<longleftrightarrow> map_of (next_offsets c) p = None"
    by (simp add: map_of_eq_None_iff start_offsets_def next_offsets_def image_image)
  have entry: "\<exists>q \<in> set ?ps. pc_partition q = p \<and> a = pc_startOffset q \<and> b = pc_nextOffset q"
    if ab: "map_of (start_offsets c) p = Some a" "map_of (next_offsets c) p = Some b" for a b
  proof -
    obtain q where q: "q \<in> set ?ps" "p = pc_partition q"
      using map_of_SomeD [OF ab(1)] by (auto simp: start_offsets_def)
    then show ?thesis
      using ab by (intro bexI [of _ q]) (simp_all add: map_of_entries [OF d q(1)] start_offsets_def next_offsets_def)
  qed
  then show "map_of (start_offsets c) p = Some a \<Longrightarrow> map_of (next_offsets c) p = Some b \<Longrightarrow> a \<le> b"
    using ok by blast
  show "scanned c p x \<longleftrightarrow>
      (\<exists>a b. map_of (start_offsets c) p = Some a \<and> map_of (next_offsets c) p = Some b \<and> a \<le> x \<and> x < b)"
  proof
    assume "scanned c p x"
    then obtain q where q: "q \<in> set ?ps" "pc_partition q = p" "pc_startOffset q \<le> x" "x < pc_nextOffset q"
      by (auto simp: scanned_def)
    then show "\<exists>a b. map_of (start_offsets c) p = Some a \<and> map_of (next_offsets c) p = Some b \<and> a \<le> x \<and> x < b"
      using map_of_entries [OF d q(1), of pc_startOffset] map_of_entries [OF d q(1), of pc_nextOffset]
      by (auto simp: start_offsets_def next_offsets_def)
  qed (use entry in \<open>auto simp: scanned_def\<close>)
qed

text \<open>Positions only move forward along adjacent coverages.\<close>

lemma adjacent_forward:
  assumes "adjacent (d # cs)" and "\<forall>c \<in> set (d # cs). parseKafkaReadCoverage c" and "c \<in> set (d # cs)"
    and "map_of (start_offsets d) p = Some a" and "map_of (start_offsets c) p = Some b"
  shows "a \<le> b"
  using assms
proof (induction cs arbitrary: d a)
  case (Cons e cs)
  show ?case
  proof (cases "c = d")
    case False
    obtain m where m: "map_of (next_offsets d) p = Some m"
      using coverage_bounds(1) [of d p] Cons.prems(2,4) by fastforce
    have "a \<le> m"
      using coverage_bounds(2) [OF _ Cons.prems(4) m] Cons.prems(2) by simp
    also have "m \<le> b"
      by (rule Cons.IH [of e]) (use Cons.prems False m in simp_all)
    finally show ?thesis .
  qed (use Cons.prems in simp)
qed simp

lemma adjacent_domain:
  "adjacent (d # cs) \<Longrightarrow> \<forall>c \<in> set (d # cs). parseKafkaReadCoverage c \<Longrightarrow> c \<in> set (d # cs) \<Longrightarrow>
   map_of (start_offsets c) p = None \<longleftrightarrow> map_of (start_offsets d) p = None"
proof (induction cs arbitrary: d)
  case (Cons e cs)
  then show ?case
    using coverage_bounds(1) [of d p] by (cases "c = d") auto
qed simp

text \<open>No offset is scanned by two of them, and together they scan from the first start to the last
  position.\<close>

lemma adjacent_disjoint:
  "adjacent cs \<Longrightarrow> \<forall>c \<in> set cs. parseKafkaReadCoverage c \<Longrightarrow>
   sorted_wrt (\<lambda>c d. \<forall>p x. \<not> (scanned c p x \<and> scanned d p x)) cs"
proof (induction cs rule: adjacent.induct)
  case (1 c d cs)
  have "\<not> (scanned c p x \<and> scanned e p x)" if e: "e \<in> set (d # cs)" for e p x
  proof
    assume "scanned c p x \<and> scanned e p x"
    then obtain m b where m: "map_of (next_offsets c) p = Some m" "x < m"
      and b: "map_of (start_offsets e) p = Some b" "b \<le> x"
      using coverage_bounds(3) [of c p x] coverage_bounds(3) [of e p x] "1.prems"(2) e by auto
    have "m \<le> b"
      by (rule adjacent_forward [of d cs e p]) (use "1.prems" e m b in simp_all)
    with m b show False by simp
  qed
  with 1 show ?case by auto
qed simp_all

lemma adjacent_covers:
  assumes "adjacent cs" and "\<forall>c \<in> set cs. parseKafkaReadCoverage c" and "cs \<noteq> []"
  shows "(\<exists>c \<in> set cs. scanned c p x) \<longleftrightarrow>
    (\<exists>a b. map_of (start_offsets (hd cs)) p = Some a \<and> map_of (next_offsets (last cs)) p = Some b
       \<and> a \<le> x \<and> x < b)"
  using assms
proof (induction cs rule: adjacent.induct)
  case (1 c d cs)
  let ?start = "\<lambda>c. map_of (start_offsets c) p" and ?next = "\<lambda>c. map_of (next_offsets c) p"
  have valid: "parseKafkaReadCoverage c" "parseKafkaReadCoverage (last (d # cs))"
    using "1.prems"(2) last_in_set [of "d # cs"] by auto
  have link: "?next c = ?start d"
    using "1.prems"(1) by simp
  have IH: "(\<exists>e \<in> set (d # cs). scanned e p x) \<longleftrightarrow>
      (\<exists>a b. ?start d = Some a \<and> ?next (last (d # cs)) = Some b \<and> a \<le> x \<and> x < b)"
    using 1 by simp
  show ?case
  proof (cases "?start d")
    case None
    then have "?start c = None"
      using coverage_bounds(1) [OF valid(1)] link by simp
    then show ?thesis
      using IH None coverage_bounds(3) [OF valid(1)] by simp
  next
    case (Some m)
    then obtain a where a: "?start c = Some a" "a \<le> m"
      using coverage_bounds(1,2) [OF valid(1)] link by fastforce
    have "?start (last (d # cs)) \<noteq> None"
      using adjacent_domain [of d cs "last (d # cs)" p] "1.prems" Some last_in_set [of "d # cs"] by simp
    then obtain l b where l: "?start (last (d # cs)) = Some l" "?next (last (d # cs)) = Some b"
      using coverage_bounds(1) [OF valid(2), of p] by auto
    have "m \<le> l"
      by (rule adjacent_forward [of d cs "last (d # cs)" p])
         (use "1.prems" Some l last_in_set [of "d # cs"] in simp_all)
    also have "l \<le> b"
      using coverage_bounds(2) [OF valid(2) l] .
    finally have "m \<le> b" .
    have "scanned c p x \<longleftrightarrow> a \<le> x \<and> x < m"
      using coverage_bounds(3) [OF valid(1)] a link Some by simp
    then show ?thesis
      using IH Some a l \<open>m \<le> b\<close> by auto
  qed
qed (auto simp: coverage_bounds(3))

section \<open>The invariant of a continued read\<close>

definition totals :: "read_coverage list \<Rightarrow> search_progress \<Rightarrow> bool" where
  "totals cs p \<longleftrightarrow>
     sp_pass p = int (length cs)
     \<and> sp_scannedRecords p = sum_list (map cv_scannedRecords cs)
     \<and> sp_scannedBytes p = sum_list (map cv_scannedBytes cs)
     \<and> sp_matchedRecords p = sum_list (map cv_matchedRecords cs)
     \<and> sp_unavailableRecords p = sum_list (map cv_unavailableRecords cs)"

definition pass_ok :: "read_coverage \<Rightarrow> bool" where
  "pass_ok c \<longleftrightarrow> parseKafkaReadCoverage c \<and> cv_scannedRecords c \<le> query_scan_records
     \<and> cv_scannedBytes c \<le> query_scan_bytes"

text \<open>The continuation a pass leaves resumes its checkpoint and remembers where the read started.\<close>

definition leaves :: "read_coverage list \<Rightarrow> continuations \<Rightarrow> bool" where
  "leaves cs s \<longleftrightarrow>
     (case s of
        None \<Rightarrow> True
      | Some (_, _, v) \<Rightarrow>
          ck_coverage (kc_checkpoint v) = last cs \<and> kc_starts v = start_offsets (hd cs)
          \<and> totals cs (kc_progress v) \<and> int (length cs) < continuation_passes)"

definition continued :: "read_coverage list \<Rightarrow> search_progress \<Rightarrow> continuations \<Rightarrow> bool" where
  "continued cs progress s \<longleftrightarrow>
     cs \<noteq> [] \<and> adjacent cs \<and> (\<forall>c \<in> set cs. pass_ok c) \<and> totals cs progress
     \<and> int (length cs) \<le> continuation_passes \<and> leaves cs s"

definition origin :: "read_coverage list \<Rightarrow> read_continuation option \<Rightarrow> bool" where
  "origin cs previous \<longleftrightarrow>
     (case previous of
        None \<Rightarrow> cs = []
      | Some v \<Rightarrow> cs \<noteq> [] \<and> kc_starts v = start_offsets (hd cs) \<and> totals cs (kc_progress v)
          \<and> int (length cs) < continuation_passes)"

lemma finish_continued:
  assumes finish: "finish_continuation request binding ck dropped previous i now = (Some progress, s)"
    and cs: "adjacent (cs @ [ck_coverage ck])" "\<forall>c \<in> set (cs @ [ck_coverage ck]). pass_ok c"
    and previous: "origin cs previous"
  shows "continued (cs @ [ck_coverage ck]) progress s"
proof -
  let ?c = "ck_coverage ck"
  have sums: "totals (cs @ [?c]) (total_progress ?c previous)"
    using previous by (cases previous) (simp_all add: origin_def totals_def total_progress_def previously_def)
  then have progress: "totals (cs @ [?c]) progress"
    using finish by (auto simp: finish_continuation_def Let_def totals_def split: if_splits)
  have length: "int (length (cs @ [?c])) \<le> continuation_passes"
    using previous by (cases previous) (simp_all add: origin_def)
  have starts: "(case previous of None \<Rightarrow> start_offsets ?c | Some v \<Rightarrow> kc_starts v) = start_offsets (hd (cs @ [?c]))"
    using previous by (cases previous) (simp_all add: origin_def)
  have "leaves (cs @ [?c]) s"
    using finish sums starts
    by (auto simp: finish_continuation_def leaves_def Let_def totals_def split: if_splits)
  with progress length cs show ?thesis by (simp add: continued_def)
qed

text \<open>What a continued read relies on of each pass: its checkpoint is valid, starts where its plan
  starts, and stays within the limits of a read.\<close>

locale bounded_reads =
  fixes reads :: "fetch_plan \<Rightarrow> read_coverage \<Rightarrow> bool"
  assumes reads_ok: "reads plan c \<Longrightarrow> pass_ok c"
    and reads_start: "reads plan c \<Longrightarrow> start_offsets c = pl_startOffsets plan"
begin

lemma passes_continued: "passes reads cs progress reported s \<Longrightarrow> continued cs progress s"
proof (induction rule: passes.induct)
  case (First_Pass plan ck request binding dropped i now progress s)
  then show ?case
    using finish_continued [OF First_Pass(2), of "[]"] by (simp add: origin_def reads_ok)
next
  case (Next_Pass cs progress reported s i binding now v s1 lookup nowMs plan n ck binding' dropped i' now' progress' s')
  from Next_Pass(2) obtain e where s: "s = Some (i, e, v)"
    by (auto simp: take_continuation_def split: option.splits if_splits)
  with Next_Pass.IH have v: "ck_coverage (kc_checkpoint v) = last cs" "origin cs (Some v)"
    by (simp_all add: continued_def leaves_def origin_def)
  obtain b where "resume_plan (kc_request v) b (kc_checkpoint v) = Inr plan"
    using Next_Pass(3) by (auto simp: resolveKafkaFetchPlan_def split: sum.splits)
  then have "pl_startOffsets plan = next_offsets (last cs)"
    by (simp add: resume_plan_result next_offsets_def v)
  then have "next_offsets (last cs) = start_offsets (ck_coverage ck)"
    using reads_start [OF Next_Pass(4)] by simp
  then show ?case
    using finish_continued [OF Next_Pass(5), of cs] Next_Pass.IH v(2) reads_ok [OF Next_Pass(4)]
    by (simp add: continued_def adjacent_snoc)
qed

text \<open>The reported coverage reaches from where the first pass started to where the last one stands.\<close>

lemma reported_coverage:
  "passes reads cs progress reported s \<Longrightarrow>
   \<exists>previous. reported = total_coverage (last cs) previous
     \<and> (case previous of None \<Rightarrow> cs = [last cs] | Some v \<Rightarrow> kc_starts v = start_offsets (hd cs))"
proof (induction rule: passes.cases)
  case (First_Pass plan ck request binding dropped i now progress s)
  then show ?case by (intro exI [of _ None]) simp
next
  case (Next_Pass cs0 progress reported s i binding now v s1 lookup nowMs plan n ck binding' dropped i' now' progress' s')
  have "cs0 \<noteq> []" "kc_starts v = start_offsets (hd cs0)"
    using passes_continued [OF Next_Pass(5)] Next_Pass(6)
    by (auto simp: continued_def leaves_def take_continuation_def split: option.splits if_splits)
  then show ?case
    using Next_Pass by (intro exI [of _ "Some v"]) simp
qed

end

section \<open>The passes of the tracker\<close>

text \<open>A pass of the program: a tracker over a sound plan, whatever its owner does with it.\<close>

definition tracker_reads ::
  "(js_string \<Rightarrow> js_string \<Rightarrow> bool) \<Rightarrow> (js_string \<Rightarrow> js_string \<Rightarrow> js_string \<Rightarrow> bool) \<Rightarrow> (js_string \<Rightarrow> json option) \<Rightarrow>
   (int \<Rightarrow> js_string option) \<Rightarrow> fetch_plan \<Rightarrow> read_coverage \<Rightarrow> bool" where
  "tracker_reads rv rt jp iso_date plan c \<longleftrightarrow>
     (\<exists>b t ops u ys. tracked b plan \<and> new_tracker rv plan = Inr t
        \<and> run_tracker rv rt jp iso_date t ops = (u, ys) \<and> c = checkpoint u)"

lemma tracker_pass:
  assumes "tracker_reads rv rt jp iso_date plan c"
  shows "pass_ok c" and "start_offsets c = pl_startOffsets plan"
proof -
  obtain b t ops u ys where t: "tracked b plan" "new_tracker rv plan = Inr t"
    "run_tracker rv rt jp iso_date t ops = (u, ys)" and c: "c = checkpoint u"
    using assms by (auto simp: tracker_reads_def)
  have inv: "tracker_inv u" "rt_plan u = plan"
    using run_tracker_inv [OF new_tracker_inv [OF t(1,2)] t(3)] new_tracker_fields [OF t(2)] by simp_all
  obtain v where v: "c = (snapshot v)\<lparr>cv_reason := cv_reason c\<rparr>" "base_inv v" "rt_plan v = plan"
    using checkpoint_snapshot [OF inv(1)] inv(2) c by auto
  have "cv_scannedRecords c = rt_scannedRecords v" "cv_scannedBytes c = rt_scannedBytes v"
    "cv_partitions c = map (partition_snapshot v) (pl_startOffsets plan)"
    by (subst v(1), simp add: snapshot_def v(3))+
  then show "pass_ok c" and "start_offsets c = pl_startOffsets plan"
    using v(2) checkpoint_parses [OF inv(1), of b] t(1) inv(2) c
    by (simp_all add: pass_ok_def base_inv_def start_offsets_def partition_snapshot_def comp_def case_prod_beta)
qed

interpretation tracker: bounded_reads "tracker_reads rv rt jp iso_date" for rv rt jp iso_date
  by unfold_locales (rule tracker_pass, assumption)+

section \<open>What a continued read reports\<close>

lemma total_coverage_first: "total_coverage c None = c"
  by (simp add: total_coverage_def map_idI)

text \<open>The total of the last pass: the starts of the first one, the positions of the last one.\<close>

lemma total_coverage_adjacent:
  assumes adjacent: "adjacent cs" "cs \<noteq> []" and ok: "\<forall>c \<in> set cs. parseKafkaReadCoverage c"
    and v: "kc_starts v = start_offsets (hd cs)"
  shows "parseKafkaReadCoverage (total_coverage (last cs) (Some v))"
    and "\<And>p. map_of (start_offsets (total_coverage (last cs) (Some v))) p = map_of (start_offsets (hd cs)) p"
    and "next_offsets (total_coverage (last cs) (Some v)) = next_offsets (last cs)"
proof -
  obtain d ds where cs: "cs = d # ds" using adjacent(2) by (cases cs) auto
  let ?c = "last cs" and ?t = "total_coverage (last cs) (Some v)"
  have last: "?c \<in> set (d # ds)" using adjacent(2) by (simp add: cs)
  have valid: "parseKafkaReadCoverage ?c" "parseKafkaReadCoverage d"
    using ok last by (simp_all add: cs)
  have distinct: "distinct (map pc_partition (cv_partitions ?c))"
    using valid(1) by (simp add: parseKafkaReadCoverage_def)
  have start: "\<exists>a. map_of (start_offsets d) (pc_partition q) = Some a \<and> 0 \<le> a \<and> a \<le> pc_startOffset q"
    if q: "q \<in> set (cv_partitions ?c)" for q
  proof -
    have own: "map_of (start_offsets ?c) (pc_partition q) = Some (pc_startOffset q)"
      unfolding start_offsets_def by (rule map_of_entries [OF distinct q])
    then obtain a where a: "map_of (start_offsets d) (pc_partition q) = Some a"
      using adjacent_domain [of d ds ?c "pc_partition q"] adjacent(1) ok last by (auto simp: cs)
    moreover have "a \<le> pc_startOffset q"
      by (rule adjacent_forward [of d ds ?c "pc_partition q"]) (use adjacent ok last a own in \<open>simp_all add: cs\<close>)
    moreover have "0 \<le> a"
      using map_of_SomeD [OF a] valid(2)
      by (auto simp: start_offsets_def parseKafkaReadCoverage_def partition_coverage_ok_def list_all_iff)
    ultimately show ?thesis by blast
  qed
  have parts: "cv_partitions ?t = map (\<lambda>q. q\<lparr>pc_startOffset := the (map_of (start_offsets d) (pc_partition q))\<rparr>)
      (cv_partitions ?c)"
    using start by (force simp: total_coverage_def v cs)
  show "parseKafkaReadCoverage ?t"
  proof -
    have "list_all partition_coverage_ok (cv_partitions ?t)"
      using valid(1) start by (fastforce simp: parts parseKafkaReadCoverage_def partition_coverage_ok_def list_all_iff)
    moreover have "map pc_partition (cv_partitions ?t) = map pc_partition (cv_partitions ?c)"
      "list_all (\<lambda>p. pc_nextOffset p = pc_endOffset p) (cv_partitions ?t)
        = list_all (\<lambda>p. pc_nextOffset p = pc_endOffset p) (cv_partitions ?c)"
      by (simp_all add: parts comp_def list_all_iff)
    moreover have "length (cv_partitions ?t) = length (cv_partitions ?c)" "cv_reason ?t = cv_reason ?c"
      "cv_scannedRecords ?t = cv_scannedRecords ?c" "cv_scannedBytes ?t = cv_scannedBytes ?c"
      "cv_matchedRecords ?t = cv_matchedRecords ?c" "cv_unavailableRecords ?t = cv_unavailableRecords ?c"
      by (simp_all add: total_coverage_def)
    ultimately show ?thesis
      using valid(1) unfolding parseKafkaReadCoverage_def by simp
  qed
  show "next_offsets ?t = next_offsets ?c"
    by (simp add: next_offsets_def parts)
  show "map_of (start_offsets ?t) p = map_of (start_offsets (hd cs)) p" for p
  proof (cases "p \<in> pc_partition ` set (cv_partitions ?c)")
    case True
    then obtain q where q: "q \<in> set (cv_partitions ?c)" "p = pc_partition q" by blast
    have "start_offsets ?t = map (\<lambda>q. (pc_partition q, the (map_of (start_offsets d) (pc_partition q)))) (cv_partitions ?c)"
      unfolding start_offsets_def [of ?t] parts by simp
    then have "map_of (start_offsets ?t) (pc_partition q) = Some (the (map_of (start_offsets d) (pc_partition q)))"
      by (simp add: map_of_entries [OF distinct q(1)])
    then show ?thesis
      using start [OF q(1)] by (auto simp: q(2) cs)
  next
    case False
    then have "map_of (start_offsets ?c) p = None"
      by (simp add: start_offsets_def map_of_eq_None_iff image_image)
    then have "map_of (start_offsets d) p = None"
      using adjacent_domain [of d ds ?c p] adjacent(1) ok last by (simp add: cs)
    moreover have "map_of (start_offsets ?t) p = None"
      using False by (simp add: start_offsets_def parts map_of_eq_None_iff image_image)
    ultimately show ?thesis by (simp add: cs)
  qed
qed

lemma passes_progress_valid:
  assumes "totals cs p" and "\<forall>c \<in> set cs. pass_ok c" and "cs \<noteq> []" and "int (length cs) \<le> continuation_passes"
  shows "parseKafkaSearchProgress p"
proof -
  have sums: "0 \<le> sum_list (map cv_scannedRecords cs)
      \<and> sum_list (map cv_scannedRecords cs) \<le> int (length cs) * query_scan_records
      \<and> 0 \<le> sum_list (map cv_scannedBytes cs)
      \<and> sum_list (map cv_scannedBytes cs) \<le> int (length cs) * query_scan_bytes
      \<and> 0 \<le> sum_list (map cv_matchedRecords cs) \<and> 0 \<le> sum_list (map cv_unavailableRecords cs)
      \<and> sum_list (map cv_matchedRecords cs) + sum_list (map cv_unavailableRecords cs)
          \<le> sum_list (map cv_scannedRecords cs)"
    using assms(2)
  proof (induction cs)
    case (Cons c cs)
    then have "0 \<le> cv_scannedBytes c" "cv_scannedBytes c \<le> query_scan_bytes" "cv_scannedRecords c \<le> query_scan_records"
      "0 \<le> cv_matchedRecords c" "0 \<le> cv_unavailableRecords c"
      "cv_matchedRecords c + cv_unavailableRecords c \<le> cv_scannedRecords c"
      by (simp_all add: pass_ok_def parseKafkaReadCoverage_def)
    moreover note Cons.IH
    ultimately show ?case using Cons.prems by (auto simp: algebra_simps)
  qed simp
  have "1 \<le> int (length cs)" using assms(3) by (cases cs) auto
  with sums assms(1,4) show ?thesis
    by (auto simp: parseKafkaSearchProgress_def totals_def is_safe_integer_def)
qed

text \<open>
  C13: The passes of a continued read scan every offset once. However often a bounded read is continued,
  whatever its trackers read and whoever stops them, the coverage it reports is valid; an offset lies in
  its scanned range exactly when one of the passes scanned it, and no two passes scanned the same one;
  the progress is the sum of the passes, is accepted by its own parser, and there are at most 10,000.
\<close>

theorem passes_scan_once:
  assumes "passes (tracker_reads rv rt jp iso_date) cs progress reported s"
  shows "parseKafkaReadCoverage reported \<and> parseKafkaSearchProgress progress \<and> totals cs progress
    \<and> (\<forall>p x. scanned reported p x \<longleftrightarrow> (\<exists>c \<in> set cs. scanned c p x))
    \<and> sorted_wrt (\<lambda>c d. \<forall>p x. \<not> (scanned c p x \<and> scanned d p x)) cs"
proof -
  have c: "cs \<noteq> []" "adjacent cs" "\<forall>c \<in> set cs. pass_ok c" "totals cs progress"
    "int (length cs) \<le> continuation_passes"
    using tracker.passes_continued [OF assms] by (simp_all add: continued_def)
  then have ok: "\<forall>c \<in> set cs. parseKafkaReadCoverage c"
    by (simp add: pass_ok_def)
  obtain previous where previous: "reported = total_coverage (last cs) previous"
    "case previous of None \<Rightarrow> cs = [last cs] | Some v \<Rightarrow> kc_starts v = start_offsets (hd cs)"
    using tracker.reported_coverage [OF assms] by blast
  have reported: "parseKafkaReadCoverage reported
      \<and> (\<forall>p. map_of (start_offsets reported) p = map_of (start_offsets (hd cs)) p)
      \<and> next_offsets reported = next_offsets (last cs)"
  proof (cases previous)
    case None
    then have "hd cs = last cs" using previous(2) by (metis list.sel(1) option.simps(4))
    then show ?thesis
      using None previous(1) ok last_in_set [OF c(1)] by (simp add: total_coverage_first)
  next
    case (Some v)
    then show ?thesis
      using previous total_coverage_adjacent [OF c(2,1) ok, of v] by simp
  qed
  then have valid: "parseKafkaReadCoverage reported" by simp
  have "scanned reported p x \<longleftrightarrow> (\<exists>c \<in> set cs. scanned c p x)" for p x
    unfolding coverage_bounds(3) [OF valid] adjacent_covers [OF c(2) ok c(1)]
    using reported by simp
  then show ?thesis
    using valid c adjacent_disjoint [OF c(2) ok] passes_progress_valid [OF c(4,3,1,5)] by blast
qed

section \<open>Witness\<close>

text \<open>The read of the small records is stopped with the second one unacknowledged, and continued.\<close>

definition second_plan :: fetch_plan where
  "second_plan = \<lparr>pl_continuous = False, pl_endOffsets = Some [(0, 8)], pl_maxMessages = 4,
     pl_request = sample_request Earliest None, pl_startOffsets = [(0, 6)]\<rparr>"

definition second_ops :: "tracker_op list" where
  "second_ops = [Accept (small_record 6) None, Acknowledge (small_record 6), Stop Cancel]"

definition second_tracker :: read_tracker where
  "second_tracker =
     \<lparr>rt_plan = second_plan, rt_expression = None, rt_reason = Cancelled, rt_scannedRecords = 1, rt_scannedBytes = 3,
      rt_matchedRecords = 1, rt_unavailableRecords = 0, rt_next = [0 \<mapsto> 7], rt_pending = None\<rparr>"

definition second_checkpoint :: read_checkpoint where
  "second_checkpoint = \<lparr>ck_clusterId = ''c'', ck_topicId = ''t'', ck_partitionCount = 1,
     ck_coverage = checkpoint second_tracker\<rparr>"

lemma second_reads: "tracker_reads rv rt jp iso_date second_plan (ck_coverage second_checkpoint)"
proof -
  have "tracked \<lparr>tb_high = [9], tb_low = [6]\<rparr> second_plan"
    by (simp add: tracked_def second_plan_def bounds_ok_def plan_ok_def range_ok_def)
  moreover have "new_tracker rv second_plan = Inr (second_tracker\<lparr>rt_reason := Reading, rt_scannedRecords := 0,
      rt_scannedBytes := 0, rt_matchedRecords := 0, rt_next := [0 \<mapsto> 6]\<rparr>)" (is "_ = Inr ?t")
    by (simp add: new_tracker_def second_plan_def second_tracker_def sample_request_def checkRangeComplete_def fun_eq_iff)
  moreover have "\<exists>ys. run_tracker rv rt jp iso_date ?t second_ops = (second_tracker, ys)"
    by (simp add: second_ops_def accept_record_def second_tracker_def second_plan_def small_record_def finished_def
        sample_request_def end_of_def mark_advanced_def judge_record_def in_time_def accept_in_range_def
        record_bytes_def length_of_def hold_match_def traverse_def checkRangeComplete_def finish_limits_def
        acknowledge_def finish_read_def Let_def fun_eq_iff)
  ultimately show ?thesis
    unfolding tracker_reads_def by (force simp: second_checkpoint_def)
qed

lemma first_reads: "tracker_reads rv rt jp iso_date small_plan (ck_coverage small_checkpoint)"
  unfolding tracker_reads_def using small_tracked small_new small_run
  by (force simp: small_checkpoint_def)

lemmas read_evaluation =
  finish_continuation_def total_progress_def previously_def Let_def second_checkpoint_def small_checkpoint_def
  second_tracker_def second_plan_def small_tracker_def small_plan_def checkpoint_def snapshot_def
  partition_snapshot_def end_of_def sample_request_def parseKafkaReadCoverage_def partition_coverage_ok_def
  is_safe_integer_def start_offsets_def

definition small_continuation :: read_continuation where
  "small_continuation =
     \<lparr>kc_request = sample_request Earliest None, kc_binding = ''b'', kc_checkpoint = small_checkpoint,
      kc_progress = \<lparr>sp_pass = 1, sp_scannedRecords = 1, sp_scannedBytes = 3, sp_matchedRecords = 1,
        sp_unavailableRecords = 0, sp_continuation = None\<rparr>,
      kc_starts = [(0, 5)]\<rparr>"

lemma small_finishes:
  "finish_continuation (sample_request Earliest None) ''b'' small_checkpoint 0 None ''first'' 0 =
     (Some ((kc_progress small_continuation)\<lparr>sp_continuation := Some (''first'', 1800000)\<rparr>),
      Some (''first'', 1800000, small_continuation))"
  by (simp add: read_evaluation small_continuation_def)

lemma second_finishes:
  "finish_continuation (kc_request small_continuation) ''b'' second_checkpoint 0 (Some small_continuation) ''second'' 10 =
     (Some \<lparr>sp_pass = 2, sp_scannedRecords = 2, sp_scannedBytes = 6, sp_matchedRecords = 2,
        sp_unavailableRecords = 0, sp_continuation = Some (''second'', 1800010)\<rparr>,
      Some (''second'', 1800010, \<lparr>kc_request = sample_request Earliest None, kc_binding = ''b'',
        kc_checkpoint = second_checkpoint,
        kc_progress = \<lparr>sp_pass = 2, sp_scannedRecords = 2, sp_scannedBytes = 6, sp_matchedRecords = 2,
          sp_unavailableRecords = 0, sp_continuation = None\<rparr>,
        kc_starts = [(0, 5)]\<rparr>))"
  by (simp add: read_evaluation small_continuation_def)

lemma two_passes:
  "\<exists>progress s. passes (tracker_reads rv rt jp iso_date)
     [ck_coverage small_checkpoint, ck_coverage second_checkpoint] progress
     (total_coverage (ck_coverage second_checkpoint) (Some small_continuation)) s"
proof -
  have "passes (tracker_reads rv rt jp iso_date) [ck_coverage small_checkpoint]
      ((kc_progress small_continuation)\<lparr>sp_continuation := Some (''first'', 1800000)\<rparr>)
      (total_coverage (ck_coverage small_checkpoint) None) (Some (''first'', 1800000, small_continuation))"
    by (rule First_Pass, rule first_reads, rule small_finishes)
  moreover have "take_continuation ''first'' ''b'' 5 (Some (''first'', 1800000, small_continuation)) =
      (Some small_continuation, None)"
    by (simp add: take_continuation_def small_continuation_def)
  moreover have "resolveKafkaFetchPlan (\<lambda>n t. Some [if t = - 2 then 6 else 9]) (kc_request small_continuation) 0
      (Some (kc_checkpoint small_continuation)) = Some (Inr second_plan, 2)"
    using small_resume by (simp add: small_continuation_def second_plan_def)
  ultimately show ?thesis
    using Next_Pass [where reads = "tracker_reads rv rt jp iso_date", OF _ _ _ second_reads second_finishes]
    by (metis append_Cons append_Nil)
qed

text \<open>Together the two passes have scanned the offsets 5 and 6.\<close>

theorem passes_scan_once_witness:
  "scanned (total_coverage (ck_coverage second_checkpoint) (Some small_continuation)) 0 5
   \<and> \<not> scanned (ck_coverage second_checkpoint) 0 5"
proof -
  obtain progress s where run: "passes (tracker_reads (\<lambda>_ _. True) (\<lambda>_ _ _. True) (\<lambda>_. None) (\<lambda>_. None))
     [ck_coverage small_checkpoint, ck_coverage second_checkpoint] progress
     (total_coverage (ck_coverage second_checkpoint) (Some small_continuation)) s"
    using two_passes by blast
  have "scanned (ck_coverage small_checkpoint) 0 5"
    by (simp add: scanned_def read_evaluation)
  then show ?thesis
    using passes_scan_once [OF run] by auto
qed

end
