(* ===== verification/Spec2Isabelle.thy ===== *)
theory Spec2Isabelle
  imports Message_Flush Rule_Semantics Delivery_Policies Read_Coverage Replay_Transform Replay_Service Repair_Store
    Session_Silence Session_Ownership Plugin_Precedence Plugin_Exclusion Read_Continuation
begin

text \<open>
  StreamSkope is a workbench for Kafka and NATS: a host process keeps the connections, reads bounded
  windows of records, evaluates live rules on them, publishes them to a renderer through bounded
  queues, and writes reviewed records back. This development models the parts of the host that carry
  its own logic (\<open>src/src/features\<close> and \<open>src/src/platform/node\<close>) and proves what makes them
  correct. The functions are total and executable and named after what they translate; the histories of
  the journal and of the replay service are inductive step relations.

  The parts, in the order data flows through them.

  \<^item> Values. \<open>Prelude\<close> has strings (lists of the code units U+0000 to U+00FF), their UTF-8 and JSON
    sizes, the safe-integer bound; \<open>Js_Value\<close> binary64 numbers and decoded JSON; \<open>Contract_Values\<close>
    the parser vocabulary of \<open>contracts/validation-primitives.ts\<close>.
  \<^item> Session. \<open>Session_Requests\<close> (\<open>application/session-requests.ts\<close>, \<open>session-errors.ts\<close>,
    \<open>session-lifecycle.ts\<close>) and \<open>Session\<close> (\<open>application/session.ts\<close>): the connection, its attempts
    and its one consumption as a state and suspended tasks. A run is a list of atomic steps, so all
    interleavings of the host's calls with the settling of promises are runs. \<open>Session_Silence\<close>:
    a stopped consumption is heard no more, but for one report of its checkpoint. \<open>Session_Ownership\<close>: one connection is in use, the close
    of every other one has been called, and of all of them after a shutdown, in every run where no call of
    the host lands in the microtask between an attempt's last check and its installation; two runs where one
    does show the leak.
  \<^item> Bounded reads. \<open>Fetch_Plan\<close>, \<open>Fetch_Plans\<close> (\<open>engine/fetch-plan.ts\<close>,
    \<open>application/read-checkpoint.ts\<close>): plans stay inside the broker's offsets and end within 23 broker
    calls. \<open>Search_Filter\<close> (\<open>contracts/query-search.ts\<close>, \<open>query-predicate.ts\<close>, \<open>rule-sample.ts\<close>)
    decides which records a search keeps. \<open>Read_Tracker\<close>, \<open>Read_Coverage\<close> (\<open>engine/read-coverage.ts\<close>):
    counters and coverage are exact, and a resumed plan covers every unacknowledged record.
    \<open>Read_Continuation\<close> (\<open>application/read-continuation.ts\<close>): the passes of a continued read scan every offset
    once. What it needs of a pass is the locale \<open>bounded_reads\<close>, which the tracker interprets.
  \<^item> Live rules. \<open>Rule_Parser\<close>, \<open>Rule_Parsing\<close> (\<open>contracts/rule-expression-parser.ts\<close>): parsing always
    answers with a bounded well-formed expression or an in-range diagnostic. \<open>Rule_Eval\<close>,
    \<open>Rule_Semantics\<close> (\<open>contracts/rule-expression-evaluator.ts\<close>): the budgeted stack evaluator computes a
    declarative semantics.
  \<^item> Publication. \<open>Message_Limits\<close> (\<open>contracts/message-limits.ts\<close>, \<open>record-bytes.ts\<close>),
    \<open>Rule_Output\<close> (\<open>facade/rule-output.ts\<close>), \<open>Message_Queue\<close> and \<open>Message_Flush\<close>
    (\<open>facade/message-queue.ts\<close>, \<open>message-flush.ts\<close>), and \<open>Nats_Buffer\<close>
    (\<open>nats/application/record-buffer.ts\<close>). The locale of \<open>Bounded_Queue\<close> is the contract both buffers
    meet: what is kept is the longest suffix of all arrivals that fits.
  \<^item> Delivery. \<open>Event_Queue\<close>, \<open>Event_Accounting\<close> (\<open>platform/node/accounted-provider-event-queue.ts\<close>)
    over the policies of \<open>Delivery_Policies\<close> (\<open>nats-delivery-policy.ts\<close>, \<open>kafka-delivery-policy.ts\<close>,
    \<open>kafka-sse-event-queue.ts\<close>). The queue's laws for a policy are the locale \<open>lawful_policy\<close>,
    interpreted on each policy of the code.
  \<^item> Writing back. \<open>Record_Contracts\<close>, \<open>Record_Batches\<close>, \<open>Structured_Replay\<close>, \<open>Record_Replay\<close>,
    \<open>Repair_Jobs\<close>: the contracts of records, reviewed writes, batches, replays and repair jobs
    (\<open>contracts/*.ts\<close>); \<open>Replay_Transform\<close> shows that a transform edits what it names and nothing else,
    unless the edit has an unpaired surrogate, which can cut a character in two.
    \<open>Repair_Journal\<close>, \<open>Repair_History\<close> (\<open>application/repair-journal.ts\<close>): the write-ahead journal and its
    runs; \<open>Batch_Run\<close> (\<open>record-batch-service.ts\<close>): each record is journalled before it may be sent and
    never sent again; \<open>Replay_Service\<close> (\<open>record-replay-service.ts\<close>): reviewed plans run once.
    \<open>Repair_Store\<close> (\<open>kafka-repair-file-store.ts\<close>, \<open>atomic-private-text-file.ts\<close>,
    \<open>private-predecessor-file.ts\<close>, \<open>bounded-file.ts\<close>): a commit replaces the file only after it
    found the loaded bytes there, and loses only what another process writes between that check and the
    rename; undisturbed, it is the provider of the journal's store interface.
  \<^item> Plugins. \<open>Plugin_Versions\<close> (\<open>plugins/compatibility.ts\<close>): versions, legacy identities and declared
    compatibility. \<open>Plugin_Precedence\<close>: precedence is a linear order on version keys, identities round
    trip, and a package runs on exactly the hosts of its declared interval that are released or previews of
    the release its minimum previews. \<open>Plugin_Transitions\<close>
    (\<open>platform/node/plugins/transition.ts\<close>): owners of plugins, intents, the promise chain of operations,
    phases and their watchdog; every interleaving is a list of calls. \<open>Plugin_Serial\<close> proves the invariant
    and \<open>Plugin_Exclusion\<close> what it gives: a passing check is exclusive, operations start in turn and settle
    once those before them have, dispatch is refused exactly while a plugin changes.

  Parameters. Code outside the repository is an argument with named laws: the Kafka and NATS clients
  (the connection port, streams and dispatch results are the environment of a run), the protector
  that encrypts the vault, the digest of a fingerprint, clocks, timers and random ids, JSON parsing
  of stored files. Properties with such laws carry a witness on concrete functions.

  Bounds and fuel. Recursion is structural wherever the code's is; the rule parser and the stack walks
  take fuel from their input (its length, or the code's own budget of 250000 units), and \<open>Rule_Parsing\<close>
  and \<open>Rule_Semantics\<close> prove it is enough. Integers are unbounded with the checks against
  \<open>Number.MAX_SAFE_INTEGER\<close> written out where the code has them.

  Abstractions. Listeners and observers do not call back into the component that notifies them, which
  holds for the facades of the repository. Error texts are kept only where a caller or a journal reads
  them. Code units above U+00FF, and so surrogates, occur in the text edits of \<open>Record_Replay\<close> and
  \<open>Replay_Transform\<close> only; the strings of decoded JSON have none. Other processes may write the
  journal file of \<open>Repair_Store\<close>, not its directory or its backups.

  Not modelled. The user interface, the Electron and development hosts, tools, tests and vendored code
  have no logic of this kind. The engine, schema registry, Connect, OAuth, metrics, SSH and vault code
  is input and output over third-party packages. The parsers of the remaining commands
  (\<open>contracts/validation.ts\<close> and its siblings) and the remaining plan, review and apply services have the
  shape of the ones modelled here. Observation, latency, export and correlation services, the NATS
  session and the rest of the plugin runtime (installation, activation, package storage) are not reached.
\<close>

end
